(* ===== verification/Mc_Prelude.thy ===== *)
theory Mc_Prelude
  imports Complex_Main "HOL-Library.Word" "HOL-Library.Log_Nat"
begin

text \<open>
  Shared vocabulary of the development: the machine integer types of the C++
  sources, exceptions as values of a sum type, the error monad the models are
  written in, decimal and hexadecimal printing, and the generic lemmas on
  words, lists and options the component theories share.
\<close>

unbundle bit_operations_syntax

section \<open>Machine integers\<close>

type_synonym u8 = "8 word"
type_synonym u32 = "32 word"
type_synonym u64 = "64 word"
type_synonym bytes = "u8 list"

named_theorems mc_defs \<open>unfolding rules for the straight-line operations of the model\<close>
named_theorems mc_inv \<open>what successful operations guarantee\<close>

abbreviation u64_max :: u64 where
  "u64_max \<equiv> 0xFFFFFFFFFFFFFFFF"

section \<open>Exceptions as values\<close>

text \<open>
  One constructor for each exception class the sources throw; the argument is
  the message.
\<close>

datatype exn =
    Invalid_argument string
  | Domain_error string
  | Out_of_range string
  | Length_error string
  | Overflow_error string
  | Logic_error string
  | Runtime_error string
  | Invalid_durable_artifact string

fun exn_what :: "exn \<Rightarrow> string" where
  "exn_what (Invalid_argument s) = s"
| "exn_what (Domain_error s) = s"
| "exn_what (Out_of_range s) = s"
| "exn_what (Length_error s) = s"
| "exn_what (Overflow_error s) = s"
| "exn_what (Logic_error s) = s"
| "exn_what (Runtime_error s) = s"
| "exn_what (Invalid_durable_artifact s) = s"

type_synonym 'a result = "exn + 'a"

text \<open>Sequencing: the first exception ends the computation.\<close>

definition rbind :: "'a result \<Rightarrow> ('a \<Rightarrow> 'b result) \<Rightarrow> 'b result" where
  "rbind m f = (case m of Inl e \<Rightarrow> Inl e | Inr x \<Rightarrow> f x)"

lemma rbind_simps [simp]: "rbind (Inl e) f = Inl e" "rbind (Inr x) f = f x"
  by (simp_all add: rbind_def)

lemma rbind_eq_Inr [simp]: "rbind m f = Inr y \<longleftrightarrow> (\<exists>x. m = Inr x \<and> f x = Inr y)"
  by (cases m) auto

lemma rbind_eq_Inl:
  "rbind m f = Inl e \<longleftrightarrow> m = Inl e \<or> (\<exists>x. m = Inr x \<and> f x = Inl e)"
  by (cases m) auto

lemma rbind_assoc: "rbind (rbind m f) g = rbind m (\<lambda>x. rbind (f x) g)"
  by (cases m) auto

lemma rbind_cong [fundef_cong]:
  "m = m' \<Longrightarrow> (\<And>x. m' = Inr x \<Longrightarrow> f x = f' x) \<Longrightarrow> rbind m f = rbind m' f'"
  by (cases m') auto

text \<open>A guard that throws when its condition holds, as \<^verbatim>\<open>if (cond) throw e;\<close> does.\<close>

definition throw_if :: "bool \<Rightarrow> exn \<Rightarrow> unit result" where
  "throw_if b e = (if b then Inl e else Inr ())"

lemma throw_if_eq_Inr [simp]: "throw_if b e = Inr u \<longleftrightarrow> \<not> b"
  by (simp add: throw_if_def)

lemma throw_if_eq_Inl [simp]: "throw_if b e = Inl e' \<longleftrightarrow> b \<and> e' = e"
  by (auto simp: throw_if_def)

lemma throw_if_simps [simp]: "throw_if True e = Inl e" "throw_if False e = Inr ()"
  by (simp_all add: throw_if_def)

text \<open>A loop over a list that carries a state and may throw.\<close>

fun fold_result :: "('a \<Rightarrow> 's \<Rightarrow> 's result) \<Rightarrow> 'a list \<Rightarrow> 's \<Rightarrow> 's result" where
  "fold_result f [] s = Inr s"
| "fold_result f (x # xs) s = rbind (f x s) (fold_result f xs)"

lemma fold_result_append:
  "fold_result f (xs @ ys) s = rbind (fold_result f xs s) (fold_result f ys)"
  by (induction xs arbitrary: s) (simp_all add: rbind_assoc cong: rbind_cong)

lemma fold_result_invariant:
  assumes "fold_result f xs s = Inr t" and "P s"
    and "\<And>x u v. x \<in> set xs \<Longrightarrow> P u \<Longrightarrow> f x u = Inr v \<Longrightarrow> P v"
  shows "P t"
  using assms by (induction xs arbitrary: s) auto

text \<open>Two loops over the same list run in lock step.\<close>

lemma fold_result_pair:
  assumes "\<And>x a b a' b'. x \<in> set xs \<Longrightarrow> h x (a, b) = Inr (a', b') \<longleftrightarrow> f x a = Inr a' \<and> g x b = Inr b'"
  shows "fold_result h xs (a, b) = Inr (a', b') \<longleftrightarrow>
         fold_result f xs a = Inr a' \<and> fold_result g xs b = Inr b'"
  using assms
proof (induction xs arbitrary: a b)
  case (Cons x xs)
  have "fold_result h (x # xs) (a, b) = Inr (a', b') \<longleftrightarrow>
        (\<exists>c d. h x (a, b) = Inr (c, d) \<and> fold_result h xs (c, d) = Inr (a', b'))" by auto
  also have "\<dots> \<longleftrightarrow> (\<exists>c d. (f x a = Inr c \<and> g x b = Inr d) \<and>
                          fold_result f xs c = Inr a' \<and> fold_result g xs d = Inr b')"
    using Cons by simp
  finally show ?case by auto
qed auto

lemma fold_result_cong [fundef_cong]:
  "xs = ys \<Longrightarrow> s = t \<Longrightarrow> (\<And>x u. x \<in> set ys \<Longrightarrow> f x u = g x u) \<Longrightarrow> fold_result f xs s = fold_result g ys t"
proof (induction xs arbitrary: ys s t)
  case (Cons x xs)
  then show ?case by (auto intro!: rbind_cong)
qed auto

text \<open>Whether a computation returned.\<close>

definition is_Inr :: "'a + 'b \<Rightarrow> bool" where
  "is_Inr r \<longleftrightarrow> (\<exists>x. r = Inr x)"

lemma is_Inr_simps [simp]: "is_Inr (Inr x)" "\<not> is_Inr (Inl e)"
  by (simp_all add: is_Inr_def)

text \<open>\<^verbatim>\<open>std::to_string\<close> of an unsigned integer.\<close>

fun decimal :: "nat \<Rightarrow> string" where
  "decimal n = (if n < 10 then [char_of (48 + n)] else decimal (n div 10) @ [char_of (48 + n mod 10)])"

declare decimal.simps [simp del]

section \<open>Words\<close>

lemma unat_less_2_64 [simp]: "unat (w :: u64) < 18446744073709551616"
  using unsigned_less [of w] by simp

lemma u64_eqI: "unat a = unat (b :: u64) \<Longrightarrow> a = b"
  by (simp add: word_unat_eq_iff)

lemma unat_add_u64: "unat a + unat b < 2 ^ 64 \<Longrightarrow> unat (a + b :: u64) = unat a + unat b"
  by (simp add: unat_word_ariths)

lemma unat_sub_u64: "b \<le> a \<Longrightarrow> unat (a - b :: u64) = unat a - unat b"
  by (simp add: unat_sub)

lemma unat_mult_u64: "unat a * unat b < 2 ^ 64 \<Longrightarrow> unat (a * b :: u64) = unat a * unat b"
  by (simp add: unat_word_ariths)

lemma unat_of_nat_u64 [simp]: "n < 2 ^ 64 \<Longrightarrow> unat (of_nat n :: u64) = n"
  by (simp add: unat_of_nat take_bit_nat_eq_self)

lemma unat_of_nat_le: "n \<le> unat (w :: u64) \<Longrightarrow> unat (of_nat n :: u64) = n"
  using le_less_trans [OF _ unat_less_2_64, of n w] by simp

lemma u64_le_max: "(w :: u64) \<le> u64_max"
proof -
  have "unat w \<le> 18446744073709551615" using unat_less_2_64 [of w] by linarith
  then show ?thesis by (simp add: word_le_nat_alt)
qed

lemma widen_u8: "unat (ucast (b :: u8) :: u64) = unat b" "ucast (ucast b :: u64) = b"
proof -
  show "unat (ucast b :: u64) = unat b"
    using unsigned_less [of b, where 'a = nat] by (simp add: unsigned_ucast_eq take_bit_nat_eq_self)
  show "ucast (ucast b :: u64) = b" by (rule bit_word_eqI) (auto simp: bit_ucast_iff)
qed

lemma widen_u32: "unat (ucast (w :: u32) :: u64) = unat w" "ucast (ucast w :: u64) = w"
proof -
  show "unat (ucast w :: u64) = unat w"
    using unsigned_less [of w, where 'a = nat] by (simp add: unsigned_ucast_eq take_bit_nat_eq_self)
  show "ucast (ucast w :: u64) = w" by (rule bit_word_eqI) (auto simp: bit_ucast_iff)
qed

end
