(* ===== verification/Sha256_Hash.thy ===== *)
theory Sha256_Hash
  imports Mc_Prelude
begin

text \<open>
  SHA-256 (\<^verbatim>\<open>include/mc/hash.hpp\<close>, \<^verbatim>\<open>src/hash.cpp\<close>): the incremental hasher with its
  64-byte buffer, finalisation and hexadecimal printing.  The theorems relate the
  buffered implementation to the block-wise definition of the standard: feeding a
  message in pieces gives the hash of the whole, and the digest is the fold of the
  compression function over the padded message.
\<close>

section \<open>Model\<close>

type_synonym sha_state = "u32 list"
type_synonym sha256_digest = bytes

definition kRoundConstants :: "u32 list" where
  "kRoundConstants = [
     0x428A2F98, 0x71374491, 0xB5C0FBCF, 0xE9B5DBA5,
     0x3956C25B, 0x59F111F1, 0x923F82A4, 0xAB1C5ED5,
     0xD807AA98, 0x12835B01, 0x243185BE, 0x550C7DC3,
     0x72BE5D74, 0x80DEB1FE, 0x9BDC06A7, 0xC19BF174,
     0xE49B69C1, 0xEFBE4786, 0x0FC19DC6, 0x240CA1CC,
     0x2DE92C6F, 0x4A7484AA, 0x5CB0A9DC, 0x76F988DA,
     0x983E5152, 0xA831C66D, 0xB00327C8, 0xBF597FC7,
     0xC6E00BF3, 0xD5A79147, 0x06CA6351, 0x14292967,
     0x27B70A85, 0x2E1B2138, 0x4D2C6DFC, 0x53380D13,
     0x650A7354, 0x766A0ABB, 0x81C2C92E, 0x92722C85,
     0xA2BFE8A1, 0xA81A664B, 0xC24B8B70, 0xC76C51A3,
     0xD192E819, 0xD6990624, 0xF40E3585, 0x106AA070,
     0x19A4C116, 0x1E376C08, 0x2748774C, 0x34B0BCB5,
     0x391C0CB3, 0x4ED8AA4A, 0x5B9CCA4F, 0x682E6FF3,
     0x748F82EE, 0x78A5636F, 0x84C87814, 0x8CC70208,
     0x90BEFFFA, 0xA4506CEB, 0xBEF9A3F7, 0xC67178F2]"

definition rotate_right :: "u32 \<Rightarrow> nat \<Rightarrow> u32" where
  "rotate_right value count = drop_bit count value OR push_bit (32 - count) value"

definition big_endian_word :: "u8 \<Rightarrow> u8 \<Rightarrow> u8 \<Rightarrow> u8 \<Rightarrow> u32" where
  "big_endian_word b0 b1 b2 b3 =
     push_bit 24 (ucast b0) OR push_bit 16 (ucast b1) OR push_bit 8 (ucast b2) OR ucast b3"

text \<open>The first sixteen schedule words: the block read as big-endian words.\<close>

fun block_words :: "bytes \<Rightarrow> u32 list" where
  "block_words (b0 # b1 # b2 # b3 # bs) = big_endian_word b0 b1 b2 b3 # block_words bs"
| "block_words _ = []"

definition schedule_word :: "u32 list \<Rightarrow> nat \<Rightarrow> u32" where
  "schedule_word words index =
     (let w15 = words ! (index - 15); w2 = words ! (index - 2);
          s0 = rotate_right w15 7 XOR rotate_right w15 18 XOR drop_bit 3 w15;
          s1 = rotate_right w2 17 XOR rotate_right w2 19 XOR drop_bit 10 w2
      in words ! (index - 16) + s0 + words ! (index - 7) + s1)"

definition message_schedule :: "bytes \<Rightarrow> u32 list" where
  "message_schedule block =
     fold (\<lambda>index words. words @ [schedule_word words index]) [16..<64] (block_words block)"

type_synonym working_vars = "u32 \<times> u32 \<times> u32 \<times> u32 \<times> u32 \<times> u32 \<times> u32 \<times> u32"

definition sha_round :: "u32 \<times> u32 \<Rightarrow> working_vars \<Rightarrow> working_vars" where
  "sha_round = (\<lambda>(k, w) (a, b, c, d, e, f, g, h).
     (let sum1 = rotate_right e 6 XOR rotate_right e 11 XOR rotate_right e 25;
          choice = (e AND f) XOR (NOT e AND g);
          temp1 = h + sum1 + choice + k + w;
          sum0 = rotate_right a 2 XOR rotate_right a 13 XOR rotate_right a 22;
          majority = (a AND b) XOR (a AND c) XOR (b AND c);
          temp2 = sum0 + majority
      in (temp1 + temp2, a, b, c, d + temp1, e, f, g)))"

definition sha_transform :: "bytes \<Rightarrow> sha_state \<Rightarrow> sha_state" where
  "sha_transform block state =
     (let words = message_schedule block
      in case fold sha_round (zip kRoundConstants words)
                (state ! 0, state ! 1, state ! 2, state ! 3,
                 state ! 4, state ! 5, state ! 6, state ! 7) of
           (a, b, c, d, e, f, g, h) \<Rightarrow>
             [state ! 0 + a, state ! 1 + b, state ! 2 + c, state ! 3 + d,
              state ! 4 + e, state ! 5 + f, state ! 6 + g, state ! 7 + h])"

record sha256_hasher =
  hs_state :: sha_state
  hs_buffer :: bytes
  hs_buffered :: nat
  hs_total :: u64

definition sha_initial :: sha_state where
  "sha_initial = [0x6A09E667, 0xBB67AE85, 0x3C6EF372, 0xA54FF53A,
                  0x510E527F, 0x9B05688C, 0x1F83D9AB, 0x5BE0CD19]"

definition new_hasher :: sha256_hasher where
  "new_hasher = \<lparr>hs_state = sha_initial, hs_buffer = replicate 64 0,
                 hs_buffered = 0, hs_total = 0\<rparr>"

text \<open>Copy bytes into the buffer from the position \<open>pos\<close> on.\<close>

definition write_at :: "nat \<Rightarrow> bytes \<Rightarrow> bytes \<Rightarrow> bytes" where
  "write_at pos src dst = take pos dst @ src @ drop (pos + length src) dst"

text \<open>The loop over whole blocks, and then the loop that buffers the rest.\<close>

function hash_blocks :: "bytes \<Rightarrow> sha_state \<Rightarrow> sha_state \<times> bytes" where
  "hash_blocks bs state =
     (if 64 \<le> length bs then hash_blocks (drop 64 bs) (sha_transform (take 64 bs) state)
      else (state, bs))"
  by pat_completeness auto
termination
  by (relation "measure (\<lambda>(bs, state). length bs)") auto

declare hash_blocks.simps [simp del]

definition hasher_update :: "bytes \<Rightarrow> sha256_hasher \<Rightarrow> sha256_hasher" where
  "hasher_update bs h =
     (let total = hs_total h + of_nat (length bs);
          copied = (if hs_buffered h \<noteq> 0 then min (64 - hs_buffered h) (length bs) else 0);
          buffer = write_at (hs_buffered h) (take copied bs) (hs_buffer h);
          buffered = hs_buffered h + copied;
          full = (hs_buffered h \<noteq> 0 \<and> buffered = 64);
          state = (if full then sha_transform buffer (hs_state h) else hs_state h);
          buffered = (if full then 0 else buffered)
      in case hash_blocks (drop copied bs) state of (state', rest) \<Rightarrow>
           \<lparr>hs_state = state', hs_buffer = write_at buffered rest buffer,
            hs_buffered = buffered + length rest, hs_total = total\<rparr>)"

text \<open>The big-endian bit length in the last eight bytes of the padded tail.\<close>

definition length_bytes :: "u64 \<Rightarrow> bytes" where
  "length_bytes bit_length = map (\<lambda>i. ucast (drop_bit (8 * (7 - i)) bit_length)) [0..<8]"

definition hasher_finalize :: "sha256_hasher \<Rightarrow> sha256_digest" where
  "hasher_finalize h =
     (let n = hs_buffered h;
          padded_size = (if n < 56 then 64 else 128);
          bit_length = hs_total h * 8;
          tail = take n (hs_buffer h) @ [0x80] @ replicate (padded_size - 9 - n) 0
                 @ length_bytes bit_length;
          state = sha_transform (take 64 tail) (hs_state h);
          state = (if padded_size = 128 then sha_transform (take 64 (drop 64 tail)) state else state)
      in concat (map (\<lambda>w. [ucast (drop_bit 24 w), ucast (drop_bit 16 w), ucast (drop_bit 8 w), ucast w])
                     state))"

definition sha256 :: "bytes \<Rightarrow> sha256_digest" where
  "sha256 bs = hasher_finalize (hasher_update bs new_hasher)"

definition hex_digits :: string where
  "hex_digits = ''0123456789abcdef''"

definition to_hex :: "sha256_digest \<Rightarrow> string" where
  "to_hex digest =
     concat (map (\<lambda>b. [hex_digits ! unat (drop_bit 4 b), hex_digits ! unat (b AND 0x0F)]) digest)"

section \<open>The buffered hasher implements block-wise hashing\<close>

lemma hash_blocks_short: "length bs < 64 \<Longrightarrow> hash_blocks bs s = (s, bs)"
  by (subst hash_blocks.simps) simp

lemma hash_blocks_step:
  "64 \<le> length bs \<Longrightarrow> hash_blocks bs s = hash_blocks (drop 64 bs) (sha_transform (take 64 bs) s)"
  by (subst hash_blocks.simps) simp

lemma hash_blocks_append:
  "hash_blocks (xs @ ys) s = (case hash_blocks xs s of (s', rest) \<Rightarrow> hash_blocks (rest @ ys) s')"
proof (induction xs s rule: hash_blocks.induct)
  case (1 xs s)
  show ?case
  proof (cases "64 \<le> length xs")
    case True
    then have "hash_blocks (xs @ ys) s = hash_blocks (drop 64 xs @ ys) (sha_transform (take 64 xs) s)"
      using hash_blocks_step [of "xs @ ys" s] by simp
    with True "1.IH" hash_blocks_step [of xs s] show ?thesis by simp
  next
    case False
    then show ?thesis by (simp add: hash_blocks_short)
  qed
qed

lemma hash_blocks_length_rest: "length (snd (hash_blocks bs s)) = length bs mod 64"
proof (induction bs s rule: hash_blocks.induct)
  case (1 bs s)
  show ?case
  proof (cases "64 \<le> length bs")
    case True
    with 1 hash_blocks_step [of bs s] show ?thesis by (simp add: le_mod_geq)
  next
    case False
    then show ?thesis by (simp add: hash_blocks_short)
  qed
qed

text \<open>A hasher that has been fed the message \<open>msg\<close>.\<close>

definition hasher_fed :: "bytes \<Rightarrow> sha256_hasher \<Rightarrow> bool" where
  "hasher_fed msg h \<longleftrightarrow>
     length (hs_buffer h) = 64 \<and>
     hash_blocks msg sha_initial = (hs_state h, take (hs_buffered h) (hs_buffer h)) \<and>
     hs_buffered h < 64 \<and> hs_total h = of_nat (length msg)"

lemma new_hasher_fed: "hasher_fed [] new_hasher"
  by (simp add: hasher_fed_def new_hasher_def hash_blocks_short)

lemma length_write_at: "pos + length src \<le> length dst \<Longrightarrow> length (write_at pos src dst) = length dst"
  by (simp add: write_at_def)

lemma take_write_at:
  "pos + length src \<le> length dst \<Longrightarrow> take (pos + length src) (write_at pos src dst) = take pos dst @ src"
  by (simp add: write_at_def)

lemma hash_blocks_fill:
  assumes "length r + c = 64" "c \<le> length bs"
  shows "hash_blocks (r @ bs) s = hash_blocks (drop c bs) (sha_transform (r @ take c bs) s)"
proof -
  have "64 - length r = c" "64 \<le> length (r @ bs)" "take 64 r = r" "drop 64 r = []" using assms by auto
  then show ?thesis using hash_blocks_step [of "r @ bs" s] by simp
qed

text \<open>What the buffering prologue of \<open>update\<close> leaves: the buffered bytes and the rest of the
  input are hashed exactly as their concatenation.\<close>

lemma update_prologue:
  assumes len: "length buf = 64" and n: "n < 64"
    and copied: "copied = (if n \<noteq> 0 then min (64 - n) (length bs) else 0)"
    and buffer: "buffer = write_at n (take copied bs) buf"
    and full: "full = (n \<noteq> 0 \<and> n + copied = 64)"
  shows "length buffer = 64"
    and "hash_blocks (take n buf @ bs) s =
      (case hash_blocks (drop copied bs) (if full then sha_transform buffer s else s) of
         (s', rest) \<Rightarrow> (s', take (if full then 0 else n + copied) buffer @ rest))"
proof -
  have lc: "n + length (take copied bs) \<le> 64" using n copied by auto
  show lb: "length buffer = 64" using lc len buffer by (simp add: length_write_at)
  have c: "copied \<le> length bs" using copied by auto
  have tb: "take (n + copied) buffer = take n buf @ take copied bs"
    using take_write_at [of n "take copied bs" buf] lc len c by (simp add: buffer min_absorb2)
  show "hash_blocks (take n buf @ bs) s =
      (case hash_blocks (drop copied bs) (if full then sha_transform buffer s else s) of
         (s', rest) \<Rightarrow> (s', take (if full then 0 else n + copied) buffer @ rest))"
  proof (cases full)
    case True
    then have "n + copied = 64" using full by simp
    with tb lb have "buffer = take n buf @ take copied bs" by simp
    with True show ?thesis
      using hash_blocks_fill [of "take n buf" copied bs s] \<open>n + copied = 64\<close> len n c
      by (simp split: prod.split)
  next
    case False
    show ?thesis
    proof (cases "n = 0")
      case True
      with copied False show ?thesis by (simp split: prod.split)
    next
      case nz: False
      with False n copied full have "copied = length bs" "n + length bs < 64"
        by (auto simp: min_def split: if_splits)
      with False tb len n show ?thesis by (simp add: hash_blocks_short)
    qed
  qed
qed

lemma hasher_update_fed:
  assumes "hasher_fed msg h"
  shows "hasher_fed (msg @ bs) (hasher_update bs h)"
proof -
  define n where "n = hs_buffered h"
  define copied where "copied = (if n \<noteq> 0 then min (64 - n) (length bs) else 0)"
  define buffer where "buffer = write_at n (take copied bs) (hs_buffer h)"
  define full where "full = (n \<noteq> 0 \<and> n + copied = 64)"
  define state where "state = (if full then sha_transform buffer (hs_state h) else hs_state h)"
  define left where "left = (if full then 0 else n + copied)"
  have fed: "length (hs_buffer h) = 64" "n < 64"
    "hash_blocks msg sha_initial = (hs_state h, take n (hs_buffer h))" "hs_total h = of_nat (length msg)"
    using assms by (auto simp: hasher_fed_def n_def)
  note prologue = update_prologue [OF fed(1,2) copied_def buffer_def full_def]
  obtain s' rest where sr: "hash_blocks (drop copied bs) state = (s', rest)" by fastforce
  have whole: "hash_blocks (msg @ bs) sha_initial = (s', take left buffer @ rest)"
    using prologue(2) [of "hs_state h"] sr fed(3) by (simp add: hash_blocks_append [of msg] state_def left_def)
  have "left \<le> 64" using fed(2) by (auto simp: left_def copied_def)
  then have small: "left + length rest < 64"
    using hash_blocks_length_rest [of "msg @ bs" sha_initial] prologue(1) by (simp add: whole min_def)
  have upd: "hasher_update bs h =
     \<lparr>hs_state = s', hs_buffer = write_at left rest buffer, hs_buffered = left + length rest,
      hs_total = hs_total h + of_nat (length bs)\<rparr>"
    unfolding hasher_update_def Let_def n_def [symmetric] copied_def [symmetric] buffer_def [symmetric]
      full_def [symmetric] state_def [symmetric] left_def [symmetric] sr
    by simp
  show ?thesis
    unfolding upd hasher_fed_def
    using whole small prologue(1) fed(4) by (simp add: length_write_at take_write_at)
qed

lemma hasher_updates_fed:
  "hasher_fed msg h \<Longrightarrow> hasher_fed (msg @ concat chunks) (fold hasher_update chunks h)"
proof (induction chunks arbitrary: msg h)
  case (Cons c cs)
  from Cons.IH [OF hasher_update_fed [OF Cons.prems]] show ?case by simp
qed simp

text \<open>The standard: append a one bit, the least number of zero bytes that makes the length
  congruent to 56 modulo 64, and the 64-bit length; then fold the compression function over the
  64-byte blocks.\<close>

definition sha_pad :: "bytes \<Rightarrow> bytes" where
  "sha_pad msg = msg @ [0x80] @ replicate ((119 - length msg mod 64) mod 64) 0
                     @ length_bytes (of_nat (length msg) * 8)"

definition sha_blocks :: "bytes \<Rightarrow> bytes list" where
  "sha_blocks bs = map (\<lambda>i. take 64 (drop (64 * i) bs)) [0..<length bs div 64]"

definition sha256_spec :: "bytes \<Rightarrow> sha256_digest" where
  "sha256_spec msg =
     concat (map (\<lambda>w. [ucast (drop_bit 24 w), ucast (drop_bit 16 w), ucast (drop_bit 8 w), ucast w])
                 (fold sha_transform (sha_blocks (sha_pad msg)) sha_initial))"

lemma sha_blocks_short: "length bs < 64 \<Longrightarrow> sha_blocks bs = []"
  by (simp add: sha_blocks_def)

lemma sha_blocks_step:
  assumes "64 \<le> length bs"
  shows "sha_blocks bs = take 64 bs # sha_blocks (drop 64 bs)"
proof -
  have "length bs div 64 = Suc ((length bs - 64) div 64)" using assms by (simp add: le_div_geq)
  then have "[0..<length bs div 64] = 0 # map Suc [0..<(length bs - 64) div 64]"
    by (simp add: upt_conv_Cons map_Suc_upt)
  then show ?thesis by (simp add: sha_blocks_def o_def add.commute)
qed

lemma fst_hash_blocks: "fst (hash_blocks bs s) = fold sha_transform (sha_blocks bs) s"
proof (induction bs s rule: hash_blocks.induct)
  case (1 bs s)
  show ?case
  proof (cases "64 \<le> length bs")
    case True
    with 1 hash_blocks_step [of bs s] sha_blocks_step [of bs] show ?thesis by simp
  next
    case False
    then show ?thesis by (simp add: hash_blocks_short sha_blocks_short)
  qed
qed

lemma length_length_bytes [simp]: "length (length_bytes n) = 8"
  by (simp add: length_bytes_def)

lemma fold_blocks_64: "length bs = 64 \<Longrightarrow> fold sha_transform (sha_blocks bs) s = sha_transform (take 64 bs) s"
  using sha_blocks_step [of bs] by (simp add: sha_blocks_short)

lemma fold_blocks_128:
  "length bs = 128 \<Longrightarrow> fold sha_transform (sha_blocks bs) s =
     sha_transform (take 64 (drop 64 bs)) (sha_transform (take 64 bs) s)"
  using sha_blocks_step [of bs] by (simp add: fold_blocks_64)

lemma pad_zeros:
  "(119 - r) mod 64 = (if r < 56 then 64 else 128) - 9 - r" if "r < (64::nat)"
proof (cases "r < 56")
  case True
  then have "119 - r = (55 - r) + 64" by simp
  then have "(119 - r) mod 64 = (55 - r) mod 64" by (metis mod_add_self2)
  with True show ?thesis by simp
next
  case False
  with that show ?thesis by simp
qed

lemma finalize_fed:
  assumes "hasher_fed msg h"
  shows "hasher_finalize h = sha256_spec msg"
proof -
  define n where "n = hs_buffered h"
  let ?r = "take n (hs_buffer h)"
  have fed: "length (hs_buffer h) = 64" "n < 64"
    "hash_blocks msg sha_initial = (hs_state h, ?r)" "hs_total h = of_nat (length msg)"
    using assms by (auto simp: hasher_fed_def n_def)
  have mod: "length msg mod 64 = n"
    using hash_blocks_length_rest [of msg sha_initial] fed by simp
  define padded :: nat where "padded = (if n < 56 then 64 else 128)"
  define tail where "tail = ?r @ [0x80] @ replicate (padded - 9 - n) 0 @ length_bytes (hs_total h * 8)"
  have lt: "length tail = padded" using fed by (simp add: tail_def padded_def)
  have "hash_blocks (sha_pad msg) sha_initial = hash_blocks tail (hs_state h)"
    unfolding sha_pad_def mod pad_zeros [OF fed(2)] hash_blocks_append [of msg] fed(3)
    by (simp add: tail_def padded_def fed(4))
  then have "fold sha_transform (sha_blocks (sha_pad msg)) sha_initial =
             fold sha_transform (sha_blocks tail) (hs_state h)"
    by (metis fst_hash_blocks)
  also have "\<dots> =
    (if padded = 128 then sha_transform (take 64 (drop 64 tail)) (sha_transform (take 64 tail) (hs_state h))
     else sha_transform (take 64 tail) (hs_state h))"
    using lt by (auto simp: padded_def fold_blocks_64 fold_blocks_128 split: if_splits)
  finally show ?thesis
    unfolding sha256_spec_def hasher_finalize_def Let_def n_def [symmetric]
    by (simp add: tail_def padded_def split: if_splits)
qed

lemma sha256_spec_eq: "sha256 msg = sha256_spec msg"
  using finalize_fed [OF hasher_update_fed [OF new_hasher_fed, of msg]] by (simp add: sha256_def)

lemma length_sha_transform [simp]: "length (sha_transform block s) = 8"
  by (simp add: sha_transform_def Let_def split: prod.split)

lemma length_sha256 [simp]: "length (sha256 msg) = 32"
proof -
  have l: "length (concat (map (\<lambda>w. [f w, g w, h w, k w]) ws)) = 4 * length ws"
    for f g h k :: "u32 \<Rightarrow> u8" and ws by (induction ws) auto
  have "length (fold sha_transform bs s) = 8" if "length s = 8" for bs s
    using that by (induction bs arbitrary: s) auto
  then show ?thesis by (simp add: sha256_spec_eq sha256_spec_def l sha_initial_def)
qed

section \<open>Properties\<close>

text \<open>C21. SHA-256 of a message is the fold of the compression function over the message padded as
  FIPS 180-4 prescribes, although the implementation works through a 64-byte buffer and feeding
  the message in pieces, cut anywhere, gives the digest of the whole.\<close>

theorem sha256_incremental:
  "hasher_finalize (fold hasher_update chunks new_hasher) = sha256_spec (concat chunks) \<and>
   sha256 (concat chunks) = sha256_spec (concat chunks)"
  using finalize_fed [OF hasher_updates_fed [OF new_hasher_fed, of chunks]] sha256_spec_eq by simp

end
