(* ===== verification/Binary64.thy ===== *)
theory Binary64
  imports Mc_Prelude
begin

text \<open>
  IEEE-754 binary64, the C++ \<^verbatim>\<open>double\<close> of the sources (they assert
  \<^verbatim>\<open>std::numeric_limits<double>::is_iec559\<close> and are built with
  \<^verbatim>\<open>-ffp-contract=off\<close>, so every operation rounds once, to nearest with ties to
  even).  A double is its bit pattern; the operations are executable integer
  computations on it.  Magnitudes are counted in units of \<open>2\<^sup>-\<^sup>1\<^sup>0\<^sup>7\<^sup>4\<close>, the
  smallest positive double, so that every finite double is an integer number of
  units.  A NaN produced by an invalid operation is the canonical quiet NaN: the
  payload a processor would choose is not observable in the program, whose
  checks reject every non-finite value before it is stored or compared.
\<close>

section \<open>Representation\<close>

datatype double = Double (bits_of: u64)

abbreviation inf_pattern :: nat where
  "inf_pattern \<equiv> 0x7FF0000000000000"

definition signbit :: "double \<Rightarrow> bool" where
  "signbit d \<longleftrightarrow> 2 ^ 63 \<le> unat (bits_of d)"

text \<open>The pattern without its sign bit; it orders the magnitudes.\<close>

definition mag :: "double \<Rightarrow> nat" where
  "mag d = unat (bits_of d) mod 2 ^ 63"

definition mk_double :: "bool \<Rightarrow> nat \<Rightarrow> double" where
  "mk_double s k = Double (of_nat (k + (if s then 2 ^ 63 else 0)))"

definition isnan :: "double \<Rightarrow> bool" where
  "isnan d \<longleftrightarrow> inf_pattern < mag d"

definition isinf :: "double \<Rightarrow> bool" where
  "isinf d \<longleftrightarrow> mag d = inf_pattern"

definition isfinite :: "double \<Rightarrow> bool" where
  "isfinite d \<longleftrightarrow> mag d < inf_pattern"

definition zero64 :: double where
  "zero64 = mk_double False 0"

definition inf64 :: double where
  "inf64 = mk_double False inf_pattern"

definition nan64 :: double where
  "nan64 = mk_double False 0x7FF8000000000000"

text \<open>The value of a finite pattern, in units: \<open>m \<cdot> 2\<^sup>g\<close> with the significand \<open>m\<close>
  (with its hidden bit when the number is normal).\<close>

definition mag_shift :: "nat \<Rightarrow> nat" where
  "mag_shift k = k div 2 ^ 52 - 1"

definition mag_units :: "nat \<Rightarrow> nat" where
  "mag_units k = (k - mag_shift k * 2 ^ 52) * 2 ^ mag_shift k"

definition units :: "double \<Rightarrow> int" where
  "units d = (if signbit d then - int (mag_units (mag d)) else int (mag_units (mag d)))"

text \<open>The number of units in 1.\<close>

definition unit_scale :: nat where
  "unit_scale = 2 ^ 1074"

definition val :: "double \<Rightarrow> real" where
  "val d = real_of_int (units d) / real unit_scale"

section \<open>Rounding to nearest, ties to even\<close>

definition rhe :: "nat \<Rightarrow> nat \<Rightarrow> nat" where
  "rhe n d =
     (let q = n div d; r = n mod d
      in if 2 * r < d \<or> (2 * r = d \<and> even q) then q else q + 1)"

text \<open>The pattern of the double nearest to \<open>n / d\<close> units.\<close>

definition round_shift :: "nat \<Rightarrow> nat" where
  "round_shift q = (if q < 2 ^ 53 then 0 else floorlog 2 q - 53)"

definition round_units :: "nat \<Rightarrow> nat \<Rightarrow> nat" where
  "round_units n d =
     (let g = round_shift (n div d)
      in min inf_pattern (g * 2 ^ 52 + rhe n (d * 2 ^ g)))"

definition round_int :: "int \<Rightarrow> double" where
  "round_int s = mk_double (s < 0) (round_units (nat \<bar>s\<bar>) 1)"

section \<open>Operations\<close>

definition fneg :: "double \<Rightarrow> double" where
  "fneg d = mk_double (\<not> signbit d) (mag d)"

definition fabs :: "double \<Rightarrow> double" where
  "fabs d = mk_double False (mag d)"

definition fadd :: "double \<Rightarrow> double \<Rightarrow> double" where
  "fadd a b =
     (if isnan a \<or> isnan b then nan64
      else if isinf a then (if isinf b \<and> signbit a \<noteq> signbit b then nan64 else a)
      else if isinf b then b
      else if units a + units b = 0 then mk_double (signbit a \<and> signbit b) 0
      else round_int (units a + units b))"

definition fsub :: "double \<Rightarrow> double \<Rightarrow> double" where
  "fsub a b = fadd a (fneg b)"

definition fmul :: "double \<Rightarrow> double \<Rightarrow> double" where
  "fmul a b =
     (let s = (signbit a \<noteq> signbit b)
      in if isnan a \<or> isnan b then nan64
         else if isinf a then (if mag b = 0 then nan64 else mk_double s inf_pattern)
         else if isinf b then (if mag a = 0 then nan64 else mk_double s inf_pattern)
         else mk_double s (round_units (mag_units (mag a) * mag_units (mag b)) unit_scale))"

definition fdiv :: "double \<Rightarrow> double \<Rightarrow> double" where
  "fdiv a b =
     (let s = (signbit a \<noteq> signbit b)
      in if isnan a \<or> isnan b then nan64
         else if isinf a then (if isinf b then nan64 else mk_double s inf_pattern)
         else if isinf b then mk_double s 0
         else if mag b = 0 then (if mag a = 0 then nan64 else mk_double s inf_pattern)
         else mk_double s (round_units (mag_units (mag a) * unit_scale) (mag_units (mag b))))"

text \<open>The square root, correctly rounded: the integer square root of the scaled magnitude and a
  comparison with the midpoint of the last place.\<close>

fun isqrt :: "nat \<Rightarrow> nat" where
  "isqrt n =
     (if n = 0 then 0
      else let r = 2 * isqrt (n div 4) in if (r + 1) * (r + 1) \<le> n then r + 1 else r)"

declare isqrt.simps [simp del]

definition round_sqrt :: "nat \<Rightarrow> nat" where
  "round_sqrt n =
     (let q = isqrt n; g = round_shift q; m = q div 2 ^ g; mid = (2 * m + 1) * 2 ^ g
      in g * 2 ^ 52 +
         (if 4 * n < mid * mid \<or> (4 * n = mid * mid \<and> even m) then m else m + 1))"

definition fsqrt :: "double \<Rightarrow> double" where
  "fsqrt d =
     (if isnan d then nan64
      else if mag d = 0 then d
      else if signbit d then nan64
      else if isinf d then d
      else mk_double False (round_sqrt (mag_units (mag d) * unit_scale)))"

text \<open>\<^verbatim>\<open>static_cast<double>\<close> of an unsigned integer.\<close>

definition of_u64 :: "u64 \<Rightarrow> double" where
  "of_u64 n = mk_double False (round_units (unat n * unit_scale) 1)"

definition of_u32 :: "u32 \<Rightarrow> double" where
  "of_u32 n = mk_double False (round_units (unat n * unit_scale) 1)"

text \<open>The order of the patterns; both zeros have the key 0.\<close>

definition ord64 :: "double \<Rightarrow> int" where
  "ord64 d = (if signbit d then - int (mag d) else int (mag d))"

definition flt :: "double \<Rightarrow> double \<Rightarrow> bool" where
  "flt a b \<longleftrightarrow> \<not> isnan a \<and> \<not> isnan b \<and> ord64 a < ord64 b"

definition fle :: "double \<Rightarrow> double \<Rightarrow> bool" where
  "fle a b \<longleftrightarrow> \<not> isnan a \<and> \<not> isnan b \<and> ord64 a \<le> ord64 b"

definition feq :: "double \<Rightarrow> double \<Rightarrow> bool" where
  "feq a b \<longleftrightarrow> \<not> isnan a \<and> \<not> isnan b \<and> ord64 a = ord64 b"

text \<open>\<^verbatim>\<open>std::min(a, b)\<close> and \<^verbatim>\<open>std::max(a, b)\<close> return their first argument unless the
  second is strictly smaller, respectively larger.\<close>

definition fmin :: "double \<Rightarrow> double \<Rightarrow> double" where
  "fmin a b = (if flt b a then b else a)"

definition fmax :: "double \<Rightarrow> double \<Rightarrow> double" where
  "fmax a b = (if flt a b then b else a)"

section \<open>Facts on patterns\<close>

text \<open>Simplification rules write powers of two as the numerals they normalise to.\<close>

abbreviation two63 :: nat where
  "two63 \<equiv> 9223372036854775808"

lemma unat_bits_mk_double:
  assumes "k < two63"
  shows "unat (bits_of (mk_double s k)) = k + (if s then two63 else 0)"
proof -
  have "k + (if s then 2 ^ 63 else 0) < 2 ^ 64"
    using assms by simp
  then show ?thesis
    unfolding mk_double_def double.sel by (subst unat_of_nat_u64) auto
qed

lemma mk_double_mag [simp]: "k < two63 \<Longrightarrow> mag (mk_double s k) = k"
  by (simp add: mag_def unat_bits_mk_double)

lemma mk_double_signbit [simp]: "k < two63 \<Longrightarrow> signbit (mk_double s k) = s"
  by (simp add: signbit_def unat_bits_mk_double)

lemma mag_bound [simp]: "mag d < two63"
  by (simp add: mag_def)

lemma mod_two63:
  fixes n :: nat
  assumes "two63 \<le> n" and "n < 2 * two63"
  shows "n mod two63 = n - two63"
proof -
  have "(n - two63) mod two63 = n - two63"
    by (rule mod_less) (use assms in linarith)
  then show ?thesis
    using assms by (simp add: le_mod_geq)
qed

lemma mk_double_signbit_mag [simp]: "mk_double (signbit d) (mag d) = d"
proof (cases d)
  case (Double w)
  have "unat w mod 2 ^ 63 + (if 2 ^ 63 \<le> unat w then 2 ^ 63 else 0) = unat w"
    using unat_less_2_64 [of w] mod_two63 [of "unat w"] by (cases "2 ^ 63 \<le> unat w") auto
  then show ?thesis
    using Double by (simp add: mk_double_def signbit_def mag_def)
qed

lemma double_eqI:
  assumes "signbit a = signbit b" and "mag a = mag b"
  shows "a = b"
proof -
  have "a = mk_double (signbit a) (mag a)" by simp
  also have "\<dots> = mk_double (signbit b) (mag b)" by (simp only: assms)
  finally show ?thesis by simp
qed

lemma isfinite_not [simp]: "isfinite d \<Longrightarrow> \<not> isnan d" "isfinite d \<Longrightarrow> \<not> isinf d"
  by (simp_all add: isfinite_def isnan_def isinf_def)

lemma float_cases: "isnan d \<or> isinf d \<or> isfinite d"
  by (auto simp: isfinite_def isnan_def isinf_def)

lemma fneg_simps [simp]:
  "signbit (fneg d) = (\<not> signbit d)" "mag (fneg d) = mag d"
  by (simp_all add: fneg_def)

lemma fneg_class [simp]:
  "isnan (fneg d) = isnan d" "isinf (fneg d) = isinf d" "isfinite (fneg d) = isfinite d"
  by (simp_all add: isnan_def isinf_def isfinite_def)

lemma fneg_fneg [simp]: "fneg (fneg d) = d"
  by (rule double_eqI) simp_all

lemma units_fneg [simp]: "units (fneg d) = - units d"
  by (simp add: units_def)

lemma ord64_fneg [simp]: "ord64 (fneg d) = - ord64 d"
  by (simp add: ord64_def)

lemma zero64_simps [simp]:
  "mag zero64 = 0" "\<not> signbit zero64" "isfinite zero64" "units zero64 = 0" "ord64 zero64 = 0"
  by (simp_all add: zero64_def isfinite_def units_def ord64_def mag_units_def mag_shift_def)

section \<open>Properties of rounding\<close>

lemma rhe_qr:
  assumes "r < d"
  shows "rhe (q * d + r) d = (if 2 * r < d \<or> (2 * r = d \<and> even q) then q else q + 1)"
  using assms by (simp add: rhe_def Let_def)

lemma divisionE:
  fixes n d :: nat
  assumes "0 < d"
  obtains q r where "n = q * d + r" and "r < d"
  using assms by (metis div_mult_mod_eq mod_less_divisor)

lemma rhe_exact [simp]: "0 < d \<Longrightarrow> rhe (k * d) d = k"
  using rhe_qr [of 0 d k] by simp

lemma rhe_bounds: "n div d \<le> rhe n d" "rhe n d \<le> n div d + 1"
  by (auto simp: rhe_def Let_def)

text \<open>The rounded value is at most half a step away.\<close>

lemma rhe_half:
  assumes "0 < d"
  shows "2 * n \<le> (2 * rhe n d + 1) * d" "2 * rhe n d * d \<le> 2 * n + d"
proof -
  obtain q r where n: "n = q * d + r" and r: "r < d"
    using assms by (rule divisionE)
  show "2 * n \<le> (2 * rhe n d + 1) * d"
    unfolding n by (subst rhe_qr [OF r]) (use r in \<open>auto simp: algebra_simps\<close>)
  show "2 * rhe n d * d \<le> 2 * n + d"
    unfolding n by (subst rhe_qr [OF r]) (use r in \<open>auto simp: algebra_simps\<close>)
qed

lemma rhe_mono_same_quotient:
  assumes r: "r < d" "r' < d'" and rr: "r * d' \<le> r' * d"
  shows "rhe (q * d + r) d \<le> rhe (q * d' + r') d'"
proof (cases "2 * r' < d' \<or> (2 * r' = d' \<and> even q)")
  case True
  have "2 * r < d \<or> (2 * r = d \<and> even q)"
  proof (rule ccontr)
    assume neg: "\<not> ?thesis"
    have le: "(2 * r) * d' \<le> (2 * r') * d"
      using rr by simp
    moreover have "d * d' \<le> (2 * r) * d'"
      using neg by (intro mult_right_mono) auto
    ultimately have "d * d' \<le> (2 * r') * d" by linarith
    then have "d' \<le> 2 * r'"
      using r by simp
    with True neg have eq: "2 * r' = d'" and "d < 2 * r" by auto
    then have "d * d' < (2 * r) * d'" using r by simp
    with le have "d * d' < (2 * r') * d" by linarith
    with eq show False by simp
  qed
  then show ?thesis
    by (simp add: rhe_qr r)
next
  case False
  then show ?thesis
    by (auto simp: rhe_qr r)
qed

lemma div_mono_frac:
  fixes n n' d d' :: nat
  assumes "0 < d" "0 < d'" and "n * d' \<le> n' * d"
  shows "n div d \<le> n' div d'"
proof -
  have "n div d = n * d' div (d * d')"
    using assms by simp
  also have "\<dots> \<le> n' * d div (d * d')"
    using assms by (intro div_le_mono)
  also have "\<dots> = n' div d'"
    using assms by (simp add: mult.commute)
  finally show ?thesis .
qed

lemma rhe_mono:
  assumes d: "0 < d" "0 < d'" and le: "n * d' \<le> n' * d"
  shows "rhe n d \<le> rhe n' d'"
proof (cases "n div d < n' div d'")
  case True
  then show ?thesis
    using rhe_bounds [of n d] rhe_bounds [of n' d'] by linarith
next
  case False
  obtain q r where n: "n = q * d + r" and r: "r < d"
    using d(1) by (rule divisionE)
  obtain q' r' where n': "n' = q' * d' + r'" and r': "r' < d'"
    using d(2) by (rule divisionE)
  have "q' = q"
    using False div_mono_frac [OF d le] n n' r r' by simp
  then have "r * d' \<le> r' * d"
    using le by (simp add: n n' algebra_simps)
  then show ?thesis
    using rhe_mono_same_quotient [OF r r'] \<open>q' = q\<close> by (simp add: n n')
qed

text \<open>The binade of the value being rounded.\<close>

lemma pow2_step: "h < g \<Longrightarrow> (2::nat) ^ 53 * 2 ^ h \<le> 2 ^ 52 * 2 ^ g"
  using power_increasing [of "Suc h" g "2::nat"] by simp

lemma round_shift_lower: "round_shift q = 0 \<or> 2 ^ 52 * 2 ^ round_shift q \<le> q"
proof (cases "q < 2 ^ 53")
  case True
  then show ?thesis by (simp add: round_shift_def)
next
  case False
  let ?L = "floorlog 2 q"
  have b: "2 ^ (?L - 1) \<le> q" "q < 2 ^ ?L"
    using floorlog_bounds [of q 2] False by auto
  have "53 < ?L"
  proof (rule ccontr)
    assume "\<not> 53 < ?L"
    then have "(2::nat) ^ ?L \<le> 2 ^ 53" by (intro power_increasing) auto
    with b False show False by linarith
  qed
  then have "?L - 1 = 52 + (?L - 53)" by simp
  with b(1) have "2 ^ (52 + (?L - 53)) \<le> q" by (simp only:)
  then show ?thesis
    using False by (simp add: round_shift_def power_add)
qed

lemma round_shift_upper: "q < 2 ^ 53 * 2 ^ round_shift q"
proof (cases "q < 2 ^ 53")
  case True
  then show ?thesis by (simp add: round_shift_def)
next
  case False
  let ?L = "floorlog 2 q"
  have "q < 2 ^ ?L"
    using floorlog_bounds [of q 2] False by auto
  also have "(2::nat) ^ ?L \<le> 2 ^ (53 + (?L - 53))"
    by (intro power_increasing) auto
  finally show ?thesis
    using False by (simp add: round_shift_def power_add)
qed

lemma round_shift_unique:
  assumes "g = 0 \<or> 2 ^ 52 * 2 ^ g \<le> q" and "q < 2 ^ 53 * 2 ^ g"
  shows "round_shift q = g"
proof (rule ccontr)
  let ?h = "round_shift q"
  assume "?h \<noteq> g"
  then consider "?h < g" | "g < ?h" by linarith
  then show False
  proof cases
    case 1
    then have "(2::nat) ^ 53 * 2 ^ ?h \<le> 2 ^ 52 * 2 ^ g"
      by (rule pow2_step)
    with 1 assms round_shift_upper [of q] show False by linarith
  next
    case 2
    then have "(2::nat) ^ 53 * 2 ^ g \<le> 2 ^ 52 * 2 ^ ?h"
      by (rule pow2_step)
    with 2 assms round_shift_lower [of q] show False by linarith
  qed
qed

lemma round_shift_mono: "q \<le> q' \<Longrightarrow> round_shift q \<le> round_shift q'"
proof (rule ccontr)
  assume "q \<le> q'" and less: "\<not> round_shift q \<le> round_shift q'"
  then have "(2::nat) ^ 53 * 2 ^ round_shift q' \<le> 2 ^ 52 * 2 ^ round_shift q"
    by (intro pow2_step) simp
  with \<open>q \<le> q'\<close> less round_shift_lower [of q] round_shift_upper [of q'] show False by linarith
qed

text \<open>The unclamped pattern stays within its binade.\<close>

definition round_pattern :: "nat \<Rightarrow> nat \<Rightarrow> nat" where
  "round_pattern n d =
     round_shift (n div d) * 2 ^ 52 + rhe n (d * 2 ^ round_shift (n div d))"

lemma round_units_pattern: "round_units n d = min inf_pattern (round_pattern n d)"
  by (simp add: round_units_def round_pattern_def Let_def)

lemma round_pattern_upper:
  assumes "0 < d"
  shows "round_pattern n d \<le> (round_shift (n div d) + 2) * 2 ^ 52"
proof -
  let ?g = "round_shift (n div d)"
  have "n < 2 ^ 53 * 2 ^ ?g * d"
    using round_shift_upper [of "n div d"] assms by (simp add: div_less_iff_less_mult)
  then have "n \<le> 2 ^ 53 * (d * 2 ^ ?g)" by (simp add: algebra_simps)
  then have "rhe n (d * 2 ^ ?g) \<le> rhe (2 ^ 53 * (d * 2 ^ ?g)) (d * 2 ^ ?g)"
    using assms by (intro rhe_mono) (auto intro: mult_right_mono)
  also have "\<dots> = 2 ^ 53" using assms by (intro rhe_exact) simp
  finally show ?thesis by (simp add: round_pattern_def)
qed

lemma round_pattern_lower:
  assumes "0 < d" and "round_shift (n div d) \<noteq> 0"
  shows "(round_shift (n div d) + 1) * 2 ^ 52 \<le> round_pattern n d"
proof -
  let ?g = "round_shift (n div d)"
  have "2 ^ 52 * 2 ^ ?g \<le> n div d"
    using round_shift_lower [of "n div d"] assms by simp
  then have "2 ^ 52 * (d * 2 ^ ?g) \<le> n"
    using assms by (simp add: less_eq_div_iff_mult_less_eq algebra_simps)
  then have "rhe (2 ^ 52 * (d * 2 ^ ?g)) (d * 2 ^ ?g) \<le> rhe n (d * 2 ^ ?g)"
    using assms by (intro rhe_mono) (auto intro: mult_right_mono)
  moreover have "rhe (2 ^ 52 * (d * 2 ^ ?g)) (d * 2 ^ ?g) = 2 ^ 52"
    using assms by (intro rhe_exact) simp
  ultimately show ?thesis by (simp add: round_pattern_def)
qed

lemma round_pattern_mono:
  assumes d: "0 < d" "0 < d'" and le: "n * d' \<le> n' * d"
  shows "round_pattern n d \<le> round_pattern n' d'"
proof -
  let ?g = "round_shift (n div d)" and ?g' = "round_shift (n' div d')"
  have "?g \<le> ?g'"
    by (intro round_shift_mono div_mono_frac d le)
  then consider "?g = ?g'" | "?g < ?g'" by linarith
  then show ?thesis
  proof cases
    case 1
    have "n * (d' * 2 ^ ?g) \<le> n' * (d * 2 ^ ?g)"
      using mult_right_mono [OF le, of "2 ^ ?g"] by (simp add: algebra_simps)
    then have "rhe n (d * 2 ^ ?g) \<le> rhe n' (d' * 2 ^ ?g)"
      using d by (intro rhe_mono) auto
    then show ?thesis
      using 1 by (simp add: round_pattern_def)
  next
    case 2
    have "round_pattern n d \<le> (?g + 2) * 2 ^ 52"
      by (rule round_pattern_upper [OF d(1)])
    also have "\<dots> \<le> (?g' + 1) * 2 ^ 52"
      using 2 by (intro mult_right_mono) auto
    also have "\<dots> \<le> round_pattern n' d'"
      using 2 by (intro round_pattern_lower d) auto
    finally show ?thesis .
  qed
qed

lemma round_units_mono:
  "0 < d \<Longrightarrow> 0 < d' \<Longrightarrow> n * d' \<le> n' * d \<Longrightarrow> round_units n d \<le> round_units n' d'"
  by (auto simp: round_units_pattern dest: round_pattern_mono intro: min.coboundedI2)

lemma round_units_le_inf [simp]: "round_units n d \<le> inf_pattern"
  by (simp add: round_units_pattern)

lemma round_units_not_above_inf [simp]: "\<not> inf_pattern < round_units n d"
  by (simp add: not_less)

text \<open>A representable value is its own rounding.\<close>

lemma mag_units_small: "k < 2 ^ 53 \<Longrightarrow> mag_units k = k"
  by (simp add: mag_units_def mag_shift_def)

lemma mag_formE:
  obtains g m where "k = g * 2 ^ 52 + m" "mag_units k = m * 2 ^ g" "m < 2 ^ 53"
    "g = 0 \<or> 2 ^ 52 \<le> m"
proof (cases "k < 2 ^ 53")
  case True
  then show ?thesis
    using that [of 0 k] by (simp add: mag_units_small)
next
  case False
  let ?E = "k div 2 ^ 52"
  have "2 \<le> ?E" using False by (simp add: less_eq_div_iff_mult_less_eq)
  define g where "g = ?E - 1"
  have g: "?E = g + 1" "0 < g" using \<open>2 \<le> ?E\<close> by (simp_all add: g_def)
  have k: "k = g * 2 ^ 52 + (2 ^ 52 + k mod 2 ^ 52)"
    using g div_mult_mod_eq [of k "2 ^ 52"] by (simp add: algebra_simps)
  have "mag_shift k = g" using g by (simp add: mag_shift_def)
  then have "mag_units k = (2 ^ 52 + k mod 2 ^ 52) * 2 ^ g"
    using k by (simp add: mag_units_def)
  moreover have "k mod 2 ^ 52 < 2 ^ 52" by simp
  ultimately show ?thesis
    using k that [of g "2 ^ 52 + k mod 2 ^ 52"] by simp
qed

lemma round_pattern_exact: "0 < d \<Longrightarrow> round_pattern (mag_units k * d) d = k"
proof -
  assume d: "0 < d"
  obtain g m where k: "k = g * 2 ^ 52 + m" "mag_units k = m * 2 ^ g"
    and m: "m < 2 ^ 53" "g = 0 \<or> 2 ^ 52 \<le> m"
    by (rule mag_formE)
  have "round_shift (m * 2 ^ g) = g"
    using m by (intro round_shift_unique) auto
  then have "round_shift (mag_units k * d div d) = g"
    using d k by simp
  moreover have "rhe (mag_units k * d) (d * 2 ^ g) = m"
    using rhe_exact [of "d * 2 ^ g" m] d k by (simp add: algebra_simps)
  ultimately show ?thesis
    using k(1) unfolding round_pattern_def by metis
qed

lemma round_units_exact: "0 < d \<Longrightarrow> round_units (mag_units k * d) d = min inf_pattern k"
  by (simp add: round_units_pattern round_pattern_exact)

lemma mag_units_le_iff: "mag_units k \<le> mag_units l \<longleftrightarrow> k \<le> l"
proof -
  have mono: "k \<le> l" if "mag_units k \<le> mag_units l" for k l
    using round_pattern_mono [of 1 1 "mag_units k" "mag_units l"] that
      round_pattern_exact [of 1 k] round_pattern_exact [of 1 l] by simp
  show ?thesis
  proof
    assume "k \<le> l"
    show "mag_units k \<le> mag_units l"
    proof (rule ccontr)
      assume "\<not> mag_units k \<le> mag_units l"
      then have "l \<le> k" and "mag_units l \<noteq> mag_units k" using mono [of l k] by auto
      with \<open>k \<le> l\<close> show False by simp
    qed
  qed (rule mono)
qed

lemma mag_units_less_iff: "mag_units k < mag_units l \<longleftrightarrow> k < l"
  using mag_units_le_iff [of l k] by (simp add: not_le [symmetric])

lemma mag_units_eq_iff [simp]: "mag_units k = mag_units l \<longleftrightarrow> k = l"
  by (metis mag_units_le_iff order_antisym order_refl)

lemma mag_units_0 [simp]: "mag_units 0 = 0"
  by (simp add: mag_units_small)

lemma mag_units_eq_0 [simp]: "mag_units k = 0 \<longleftrightarrow> k = 0"
  using mag_units_eq_iff [of k 0] by simp

lemma mag_units_pos [simp]: "0 < mag_units k \<longleftrightarrow> 0 < k"
  using mag_units_eq_0 [of k] by linarith

section \<open>Order and sign of finite results\<close>

lemma int_le_neg_int [simp]: "int a \<le> - int b \<longleftrightarrow> a = 0 \<and> b = 0"
  by auto

lemma unit_scale_pos [simp]: "0 < unit_scale"
  by (simp add: unit_scale_def)

lemma units_le_iff [simp]: "units a \<le> units b \<longleftrightarrow> ord64 a \<le> ord64 b"
  by (auto simp: units_def ord64_def mag_units_le_iff)

lemma units_eq_iff [simp]: "units a = units b \<longleftrightarrow> ord64 a = ord64 b"
  by (metis units_le_iff order_antisym order_refl)

lemma units_less_iff [simp]: "units a < units b \<longleftrightarrow> ord64 a < ord64 b"
  using units_le_iff [of b a] by (simp add: not_le [symmetric])

lemma units_sign [simp]:
  "0 \<le> units a \<longleftrightarrow> 0 \<le> ord64 a" "units a \<le> 0 \<longleftrightarrow> ord64 a \<le> 0" "units a = 0 \<longleftrightarrow> ord64 a = 0"
  using units_le_iff [of zero64 a] units_le_iff [of a zero64] units_eq_iff [of a zero64]
  by (simp_all del: units_le_iff units_eq_iff)

lemma isfinite_ord: "isfinite d \<longleftrightarrow> \<bar>ord64 d\<bar> < int inf_pattern"
  by (auto simp: isfinite_def ord64_def)

lemma isnan_ord: "isnan d \<longleftrightarrow> int inf_pattern < \<bar>ord64 d\<bar>"
  by (auto simp: isnan_def ord64_def)

lemma isfinite_between:
  "isfinite a \<Longrightarrow> isfinite b \<Longrightarrow> ord64 a \<le> ord64 d \<Longrightarrow> ord64 d \<le> ord64 b \<Longrightarrow> isfinite d"
  by (auto simp: isfinite_ord)

lemma ord64_mk_double [simp]:
  "k < two63 \<Longrightarrow> ord64 (mk_double s k) = (if s then - int k else int k)"
  by (simp add: ord64_def)

lemma round_units_bound [simp]: "round_units n d < two63"
  using round_units_le_inf [of n d] by linarith

lemma ord64_round_int:
  "ord64 (round_int s) =
     (if s < 0 then - int (round_units (nat (- s)) 1) else int (round_units (nat s) 1))"
  by (simp add: round_int_def)

lemma round_int_mono:
  assumes "s \<le> t"
  shows "ord64 (round_int s) \<le> ord64 (round_int t)"
proof -
  have "round_units (nat s) 1 \<le> round_units (nat t) 1"
    using assms by (intro round_units_mono) auto
  moreover have "round_units (nat (- t)) 1 \<le> round_units (nat (- s)) 1"
    using assms by (intro round_units_mono) auto
  ultimately show ?thesis
    using assms by (auto simp: ord64_round_int)
qed

lemma round_int_units: "isfinite d \<Longrightarrow> ord64 (round_int (units d)) = ord64 d"
  using round_units_exact [of 1 "mag d"]
  by (auto simp: ord64_round_int units_def isfinite_def) (auto simp: ord64_def)

lemma round_int_not_nan [simp]: "\<not> isnan (round_int s)"
  by (auto simp: isnan_ord ord64_round_int)

lemma ord64_fadd:
  assumes "isfinite a" "isfinite b"
  shows "ord64 (fadd a b) = ord64 (round_int (units a + units b))"
proof (cases "units a + units b = 0")
  case True
  then show ?thesis
    using assms round_units_exact [of 1 0] by (simp add: fadd_def ord64_round_int)
next
  case False
  then show ?thesis using assms by (simp add: fadd_def)
qed

lemma fadd_not_nan [simp]:
  assumes "isfinite a" "isfinite b"
  shows "\<not> isnan (fadd a b)"
proof -
  have "\<bar>ord64 (fadd a b)\<bar> \<le> int inf_pattern"
    using assms round_int_not_nan [of "units a + units b"]
    by (simp add: ord64_fadd isnan_ord)
  then show ?thesis by (simp add: isnan_ord)
qed

text \<open>A sum bounded by a double is rounded to within that bound.\<close>

lemma fadd_le:
  assumes "isfinite a" "isfinite b" "isfinite c" "units a + units b \<le> units c"
  shows "ord64 (fadd a b) \<le> ord64 c"
  using round_int_mono [OF assms(4)] assms by (simp add: ord64_fadd round_int_units)

lemma fadd_ge:
  assumes "isfinite a" "isfinite b" "isfinite c" "units c \<le> units a + units b"
  shows "ord64 c \<le> ord64 (fadd a b)"
  using round_int_mono [OF assms(4)] assms by (simp add: ord64_fadd round_int_units)

lemma fsub_le:
  assumes "isfinite a" "isfinite b" "isfinite c" "units a - units b \<le> units c"
  shows "ord64 (fsub a b) \<le> ord64 c"
  unfolding fsub_def by (rule fadd_le) (use assms in auto)

lemma fsub_ge:
  assumes "isfinite a" "isfinite b" "isfinite c" "units c \<le> units a - units b"
  shows "ord64 c \<le> ord64 (fsub a b)"
  unfolding fsub_def by (rule fadd_ge) (use assms in auto)

lemma fsub_not_nan [simp]: "isfinite a \<Longrightarrow> isfinite b \<Longrightarrow> \<not> isnan (fsub a b)"
  by (simp add: fsub_def)

lemma fsub_sign:
  assumes "isfinite a" "isfinite b"
  shows "ord64 b \<le> ord64 a \<Longrightarrow> 0 \<le> ord64 (fsub a b)"
    and "ord64 a \<le> ord64 b \<Longrightarrow> ord64 (fsub a b) \<le> 0"
  using fsub_ge [OF assms, of zero64] fsub_le [OF assms, of zero64] by simp_all

lemma fmul_ord:
  assumes "isfinite a" "isfinite b"
  shows "ord64 (fmul a b) =
     (if signbit a \<noteq> signbit b then - 1 else 1)
       * int (round_units (mag_units (mag a) * mag_units (mag b)) unit_scale)"
  using assms by (simp add: fmul_def)

lemma fmul_not_nan [simp]:
  "isfinite a \<Longrightarrow> isfinite b \<Longrightarrow> \<not> isnan (fmul a b)"
  by (simp add: isnan_ord fmul_ord abs_mult)

lemma round_units_0 [simp]: "0 < d \<Longrightarrow> round_units 0 d = 0"
  using round_units_exact [of d 0] by simp

lemma fmul_sign:
  assumes "isfinite a" "isfinite b"
    and "(0 \<le> ord64 a \<and> 0 \<le> ord64 b) \<or> (ord64 a \<le> 0 \<and> ord64 b \<le> 0)"
  shows "0 \<le> ord64 (fmul a b)"
proof (cases "mag a = 0 \<or> mag b = 0")
  case True
  then show ?thesis using assms by (auto simp: fmul_ord)
next
  case False
  then have "signbit a = signbit b"
    using assms(3) by (auto simp: ord64_def split: if_splits)
  then show ?thesis using assms by (simp add: fmul_ord)
qed

lemma fdiv_ord:
  assumes "isfinite a" "isfinite b" "ord64 b \<noteq> 0"
  shows "ord64 (fdiv a b) =
     (if signbit a \<noteq> signbit b then - 1 else 1)
       * int (round_units (mag_units (mag a) * unit_scale) (mag_units (mag b)))"
  using assms by (auto simp: fdiv_def ord64_def)

lemma fdiv_not_nan [simp]:
  "isfinite a \<Longrightarrow> isfinite b \<Longrightarrow> ord64 b \<noteq> 0 \<Longrightarrow> \<not> isnan (fdiv a b)"
  by (simp add: isnan_ord fdiv_ord abs_mult)

section \<open>A division by at least two does not overshoot\<close>

text \<open>
  Welford's update moves the mean by \<open>(x - mean) / n\<close>.  Although the difference and
  the quotient are both rounded, the new mean stays between the old mean and the
  observation: a power of two fits between half of the rounded difference and the
  exact one.
\<close>

lemma mag_units_double: "mag_units (if k < 2 ^ 52 then 2 * k else k + 2 ^ 52) = 2 * mag_units k"
proof (cases "k < 2 ^ 52")
  case True
  then show ?thesis by (simp add: mag_units_small)
next
  case False
  then have "(k + 2 ^ 52) div 2 ^ 52 = k div 2 ^ 52 + 1" "1 \<le> k div 2 ^ 52"
    by (simp_all add: less_eq_div_iff_mult_less_eq)
  then have "mag_shift (k + 2 ^ 52) = mag_shift k + 1" by (simp add: mag_shift_def)
  then show ?thesis using False by (simp add: mag_units_def)
qed

lemma scaled_representable: "m < 2 ^ 53 \<Longrightarrow> \<exists>k. mag_units k = m * 2 ^ e"
proof (induction e)
  case 0
  then show ?case by (auto intro: exI [of _ m] simp: mag_units_small)
next
  case (Suc e)
  then obtain k where "mag_units k = m * 2 ^ e" by blast
  then have "mag_units (if k < 2 ^ 52 then 2 * k else k + 2 ^ 52) = m * 2 ^ Suc e"
    unfolding mag_units_double by simp
  then show ?case by blast
qed

lemma pow2_representable: "\<exists>k. mag_units k = 2 ^ L"
  using scaled_representable [of 1 L] by simp

lemma mag_units_mono: "k \<le> l \<Longrightarrow> mag_units k \<le> mag_units l"
  by (simp add: mag_units_le_iff)

lemma round_units_le_representable:
  assumes "0 < d" "n \<le> mag_units k * d"
  shows "mag_units (round_units n d) \<le> mag_units k"
proof -
  have "round_units n d \<le> round_units (mag_units k * d) d"
    using assms by (intro round_units_mono) auto
  also have "\<dots> \<le> k"
    using assms by (simp add: round_units_exact)
  finally show ?thesis by (rule mag_units_mono)
qed

lemma quotient_not_above:
  fixes T c :: nat
  assumes "2 * unit_scale \<le> c"
  shows "mag_units (round_units (mag_units (round_units T 1) * unit_scale) c) \<le> T"
proof (cases "T = 0")
  case True
  have "0 < c" using assms unit_scale_pos by linarith
  then show ?thesis using True by simp
next
  case False
  let ?L = "floorlog 2 T - 1"
  have "0 < floorlog 2 T"
    using False floorlog_eq_zero_iff [of 2 T] by simp
  then have "floorlog 2 T = Suc ?L" by simp
  then have L: "2 ^ ?L \<le> T" "T < 2 ^ Suc ?L"
    using floorlog_bounds [of T 2] False by auto
  obtain k where k: "mag_units k = 2 ^ ?L" using pow2_representable by blast
  obtain k' where k': "mag_units k' = 2 ^ Suc ?L" using pow2_representable by blast
  have "mag_units (round_units T 1) \<le> 2 ^ Suc ?L"
    unfolding k' [symmetric] by (rule round_units_le_representable) (use L k' in auto)
  then have "mag_units (round_units T 1) * unit_scale \<le> 2 ^ ?L * (2 * unit_scale)"
    by simp
  also have "\<dots> \<le> mag_units k * c"
    unfolding k using assms by (rule mult_left_mono) simp
  finally have "mag_units (round_units (mag_units (round_units T 1) * unit_scale) c) \<le> mag_units k"
    using assms by (intro round_units_le_representable)
      (use unit_scale_pos in linarith)+
  with k L show ?thesis by linarith
qed

lemma quotient_le_dividend:
  assumes "unit_scale \<le> c"
  shows "round_units (mag_units k * unit_scale) c \<le> k"
proof -
  have "0 < c" using assms unit_scale_pos by linarith
  have "round_units (mag_units k * unit_scale) c \<le> round_units (mag_units k * 1) 1"
    using assms \<open>0 < c\<close> by (intro round_units_mono) auto
  also have "\<dots> \<le> k"
    by (subst round_units_exact) auto
  finally show ?thesis .
qed

lemma units_mk_double: "k < two63 \<Longrightarrow> units (mk_double s k) = (if s then - int (mag_units k) else int (mag_units k))"
  by (simp add: units_def)

text \<open>The quotient of a difference by at least two: finite, of the difference's sign, and no
  longer than the exact difference.\<close>

lemma fdiv_fsub_bounds:
  assumes fin: "isfinite x" "isfinite m" "isfinite (fsub x m)" "isfinite c"
    and c: "2 * int unit_scale \<le> units c"
  shows "isfinite (fdiv (fsub x m) c)"
    and "ord64 m \<le> ord64 x \<Longrightarrow> 0 \<le> units (fdiv (fsub x m) c)"
    and "ord64 m \<le> ord64 x \<Longrightarrow> units m + units (fdiv (fsub x m) c) \<le> units x"
    and "ord64 x \<le> ord64 m \<Longrightarrow> units (fdiv (fsub x m) c) \<le> 0"
    and "ord64 x \<le> ord64 m \<Longrightarrow> units x \<le> units m + units (fdiv (fsub x m) c)"
proof -
  let ?D = "fsub x m"
  let ?T = "nat \<bar>units x - units m\<bar>"
  have cpos: "0 < units c" using c unit_scale_pos by linarith
  then have sc: "\<not> signbit c" and c0: "mag c \<noteq> 0" "ord64 c \<noteq> 0"
    by (auto simp: units_def ord64_def split: if_splits)
  have cu: "2 * unit_scale \<le> mag_units (mag c)"
    using c sc by (simp add: units_def)
  have magD: "mag ?D = round_units ?T 1"
  proof -
    have "\<bar>ord64 ?D\<bar> = int (mag ?D)" by (simp add: ord64_def)
    moreover have "\<bar>ord64 ?D\<bar> = int (round_units ?T 1)"
      using fin by (simp add: fsub_def ord64_fadd ord64_round_int)
    ultimately show ?thesis by simp
  qed
  let ?Q = "round_units (mag_units (mag ?D) * unit_scale) (mag_units (mag c))"
  have q: "fdiv ?D c = mk_double (signbit ?D) ?Q"
    using fin sc c0 by (simp add: fdiv_def)
  have "mag_units ?Q \<le> ?T"
    unfolding magD using cu by (rule quotient_not_above)
  then have QT: "int (mag_units ?Q) \<le> \<bar>units x - units m\<bar>" by linarith
  have "?Q \<le> mag ?D"
    using cu unit_scale_pos by (intro quotient_le_dividend) linarith
  then show "isfinite (fdiv ?D c)"
    using fin(3) by (simp add: q isfinite_def)
  have Q0: "?Q = 0" if "mag ?D = 0"
    using that c0 by simp
  have uq: "units (fdiv ?D c) = (if signbit ?D then - int (mag_units ?Q) else int (mag_units ?Q))"
    by (simp add: q units_mk_double)
  {
    assume "ord64 m \<le> ord64 x"
    then have "0 \<le> ord64 ?D" using fsub_sign(1) fin by blast
    then have sg: "\<not> signbit ?D \<or> mag ?D = 0" by (auto simp: ord64_def split: if_splits)
    show "0 \<le> units (fdiv ?D c)"
      using sg Q0 unfolding uq by auto
    have "units m \<le> units x" using \<open>ord64 m \<le> ord64 x\<close> by simp
    with QT have "units m + int (mag_units ?Q) \<le> units x" by linarith
    then show "units m + units (fdiv ?D c) \<le> units x"
      using sg Q0 \<open>units m \<le> units x\<close> unfolding uq by (auto split: if_splits)
  next
    assume "ord64 x \<le> ord64 m"
    then have "ord64 ?D \<le> 0" using fsub_sign(2) fin by blast
    then have sg: "signbit ?D \<or> mag ?D = 0" by (auto simp: ord64_def split: if_splits)
    show "units (fdiv ?D c) \<le> 0"
      using sg Q0 unfolding uq by auto
    have "units x \<le> units m" using \<open>ord64 x \<le> ord64 m\<close> by simp
    with QT have "units x \<le> units m - int (mag_units ?Q)" by linarith
    then show "units x \<le> units m + units (fdiv ?D c)"
      using sg Q0 \<open>units x \<le> units m\<close> unfolding uq by (auto split: if_splits)
  }
qed

lemma mean_step_between:
  assumes fin: "isfinite x" "isfinite m" "isfinite (fsub x m)" "isfinite c"
    and c: "2 * int unit_scale \<le> units c"
  defines "m' \<equiv> fadd m (fdiv (fsub x m) c)"
  shows "(ord64 m \<le> ord64 m' \<and> ord64 m' \<le> ord64 x) \<or> (ord64 x \<le> ord64 m' \<and> ord64 m' \<le> ord64 m)"
proof (cases "ord64 m \<le> ord64 x")
  case True
  have "ord64 m \<le> ord64 m'" unfolding m'_def
    using fdiv_fsub_bounds [OF fin c] fin True by (intro fadd_ge) auto
  moreover have "ord64 m' \<le> ord64 x" unfolding m'_def
    using fdiv_fsub_bounds [OF fin c] fin True by (intro fadd_le) auto
  ultimately show ?thesis by simp
next
  case False
  then have le: "ord64 x \<le> ord64 m" by simp
  have "ord64 m' \<le> ord64 m" unfolding m'_def
    using fdiv_fsub_bounds [OF fin c] fin le by (intro fadd_le) auto
  moreover have "ord64 x \<le> ord64 m'" unfolding m'_def
    using fdiv_fsub_bounds [OF fin c] fin le by (intro fadd_ge) auto
  ultimately show ?thesis by simp
qed

section \<open>Extrema, integers and sums of nonnegative numbers\<close>

lemma ord64_fmin: "\<not> isnan a \<Longrightarrow> \<not> isnan b \<Longrightarrow> ord64 (fmin a b) = min (ord64 a) (ord64 b)"
  by (auto simp: fmin_def flt_def)

lemma ord64_fmax: "\<not> isnan a \<Longrightarrow> \<not> isnan b \<Longrightarrow> ord64 (fmax a b) = max (ord64 a) (ord64 b)"
  by (auto simp: fmax_def flt_def)

lemma isfinite_fmin [simp]: "isfinite a \<Longrightarrow> isfinite b \<Longrightarrow> isfinite (fmin a b)"
  by (simp add: fmin_def)

lemma isfinite_fmax [simp]: "isfinite a \<Longrightarrow> isfinite b \<Longrightarrow> isfinite (fmax a b)"
  by (simp add: fmax_def)

lemma of_u64_bounds:
  shows "isfinite (of_u64 n)"
    and "2 \<le> unat n \<Longrightarrow> 2 * int unit_scale \<le> units (of_u64 n)"
proof -
  let ?R = "round_units (unat n * unit_scale) 1"
  let ?k = "1086 * 2 ^ 52 + 2 ^ 52 :: nat"
  have "?k div 2 ^ 52 = 1087" by simp
  then have k: "mag_units ?k = 2 ^ 52 * 2 ^ 1086"
    by (simp add: mag_units_def mag_shift_def)
  have "unat n * unit_scale \<le> 2 ^ 64 * 2 ^ 1074"
    unfolding unit_scale_def by (rule mult_right_mono) (simp_all add: less_imp_le)
  also have "\<dots> = mag_units ?k"
    unfolding k power_add [symmetric] by simp
  finally have "mag_units ?R \<le> mag_units ?k"
    by (intro round_units_le_representable) simp_all
  then have "?R \<le> ?k" by (simp only: mag_units_le_iff)
  then show "isfinite (of_u64 n)"
    by (simp add: of_u64_def isfinite_def)
  show "2 * int unit_scale \<le> units (of_u64 n)" if "2 \<le> unat n"
  proof -
    obtain l where l: "mag_units l = 2 ^ 1075" using pow2_representable by blast
    have two: "2 * unit_scale = mag_units l"
      unfolding l unit_scale_def by simp
    have "l \<le> ?R"
    proof -
      have "mag_units l \<le> unat n * unit_scale"
        unfolding two [symmetric] using that by (intro mult_right_mono) auto
      then have "round_units (mag_units l * 1) 1 \<le> ?R"
        by (intro round_units_mono) auto
      then have "min inf_pattern l \<le> ?R" by (subst (asm) round_units_exact) auto
      with \<open>?R \<le> ?k\<close> show ?thesis by (auto simp: min_def split: if_splits)
    qed
    then have "mag_units l \<le> mag_units ?R" by (rule mag_units_mono)
    then show ?thesis
      unfolding two [symmetric] by (simp add: of_u64_def units_mk_double)
  qed
qed

lemma nonneg_inf: "isinf a \<Longrightarrow> 0 \<le> ord64 a \<Longrightarrow> \<not> signbit a"
  by (auto simp: isinf_def ord64_def)

lemma fadd_inf: "isfinite a \<Longrightarrow> isinf t \<Longrightarrow> fadd a t = t"
  by (auto simp: fadd_def isnan_def isinf_def isfinite_def)

lemma inf_above: "isfinite a \<Longrightarrow> isinf t \<Longrightarrow> 0 \<le> ord64 t \<Longrightarrow> \<bar>ord64 a\<bar> < ord64 t"
  by (auto simp: isfinite_ord isinf_def ord64_def)

lemma fadd_nonneg:
  assumes "\<not> isnan a" "\<not> isnan b" "0 \<le> ord64 a" "0 \<le> ord64 b"
  shows "\<not> isnan (fadd a b)" "0 \<le> ord64 (fadd a b)"
proof -
  consider "isfinite a" "isfinite b" | "isinf a" | "isinf b" "\<not> isinf a"
    using assms float_cases [of a] float_cases [of b] by auto
  then have "\<not> isnan (fadd a b) \<and> 0 \<le> ord64 (fadd a b)"
  proof cases
    case 1
    then show ?thesis
      using assms fadd_ge [OF 1, of zero64] by simp
  next
    case 2
    then show ?thesis
      using assms nonneg_inf [of a] nonneg_inf [of b] by (auto simp: fadd_def)
  next
    case 3
    then show ?thesis using assms by (simp add: fadd_def)
  qed
  then show "\<not> isnan (fadd a b)" "0 \<le> ord64 (fadd a b)" by auto
qed

text \<open>Adding a nonnegative number does not move a finite number down, subtracting one does not
  move it up.\<close>

lemma fadd_nonneg_ge:
  assumes "isfinite a" "\<not> isnan t" "0 \<le> ord64 t"
  shows "ord64 a \<le> ord64 (fadd a t)"
proof (cases "isfinite t")
  case True
  then show ?thesis using assms by (intro fadd_ge) auto
next
  case False
  then have "isinf t" using assms float_cases [of t] by auto
  then show ?thesis
    using assms inf_above [of a t] by (simp add: fadd_inf)
qed

lemma fsub_nonneg_le:
  assumes "isfinite a" "\<not> isnan t" "0 \<le> ord64 t"
  shows "ord64 (fsub a t) \<le> ord64 a"
proof (cases "isfinite t")
  case True
  then show ?thesis using assms by (intro fsub_le) auto
next
  case False
  then have "isinf t" using assms float_cases [of t] by auto
  then show ?thesis
    using assms inf_above [of a t] by (simp add: fsub_def fadd_inf)
qed

lemma fsub_finite_nonneg:
  assumes "isfinite a" "isfinite b" "0 \<le> ord64 a" "0 \<le> ord64 b"
  shows "isfinite (fsub a b)"
proof -
  have ab: "0 \<le> units a" "0 \<le> units b" using assms by simp_all
  have "units a - units b \<le> units a" "units (fneg b) \<le> units a - units b"
    using ab unfolding units_fneg by linarith+
  then have "ord64 (fsub a b) \<le> ord64 a" "ord64 (fneg b) \<le> ord64 (fsub a b)"
    using fsub_le [of a b a] fsub_ge [of a b "fneg b"] assms(1,2) fneg_class(3) by blast+
  then show ?thesis
    using isfinite_between [of "fneg b" a "fsub a b"] assms(1,2) fneg_class(3) by blast
qed

text \<open>A difference to a point in between is no longer than the whole difference.\<close>

lemma fsub_finite_between:
  assumes "isfinite x" "isfinite m" "isfinite m'" "isfinite (fsub x m)"
    and "(ord64 m \<le> ord64 m' \<and> ord64 m' \<le> ord64 x) \<or> (ord64 x \<le> ord64 m' \<and> ord64 m' \<le> ord64 m)"
  shows "isfinite (fsub x m')"
proof -
  have r: "ord64 (fsub x m) = ord64 (round_int (units x - units m))"
    and r': "ord64 (fsub x m') = ord64 (round_int (units x - units m'))"
    using assms by (simp_all add: fsub_def ord64_fadd)
  from assms(5) show ?thesis
  proof
    assume le: "ord64 m \<le> ord64 m' \<and> ord64 m' \<le> ord64 x"
    then have "units x - units m' \<le> units x - units m" by simp
    then have "ord64 (fsub x m') \<le> ord64 (fsub x m)"
      unfolding r r' by (rule round_int_mono)
    moreover have "0 \<le> ord64 (fsub x m')" using le assms by (intro fsub_sign) auto
    ultimately show ?thesis
      using assms isfinite_between [of zero64 "fsub x m" "fsub x m'"] by simp
  next
    assume le: "ord64 x \<le> ord64 m' \<and> ord64 m' \<le> ord64 m"
    then have "units x - units m \<le> units x - units m'" by simp
    then have "ord64 (fsub x m) \<le> ord64 (fsub x m')"
      unfolding r r' by (rule round_int_mono)
    moreover have "ord64 (fsub x m') \<le> 0" using le assms by (intro fsub_sign) auto
    ultimately show ?thesis
      using assms isfinite_between [of "fsub x m" zero64 "fsub x m'"] by simp
  qed
qed

end
