(* ===== verification/Aggregate_Stats.thy ===== *)
theory Aggregate_Stats
  imports Binary64
begin

text \<open>
  The running statistics of a block (\<^verbatim>\<open>include/mc/aggregate.hpp\<close>,
  \<^verbatim>\<open>src/aggregation/aggregate.cpp\<close>): Welford's update, the semantic checks
  every consumer runs on an aggregate, and the pairwise merge.  The theorems show
  that Welford's update, in rounded binary64 arithmetic, keeps
  \<open>min \<le> mean \<le> max\<close> and a nonnegative sum of squares, so that an aggregate
  built from finite payoffs always passes the checks unless its sum of squares
  overflowed.
\<close>

section \<open>Model\<close>

record aggregate_stats =
  stats_n :: u64
  stats_mean :: double
  stats_m2 :: double
  stats_min :: double
  stats_max :: double

definition empty_stats :: aggregate_stats where
  "empty_stats = \<lparr>stats_n = 0, stats_mean = zero64, stats_m2 = zero64,
                  stats_min = zero64, stats_max = zero64\<rparr>"

definition add_observation :: "double \<Rightarrow> aggregate_stats \<Rightarrow> aggregate_stats result" where
  "add_observation observation s =
     (if \<not> isfinite observation
      then Inl (Domain_error ''aggregate observation must be finite'')
      else if stats_n s = 0
      then Inr \<lparr>stats_n = 1, stats_mean = observation, stats_m2 = zero64,
                stats_min = observation, stats_max = observation\<rparr>
      else
        (let n = stats_n s + 1;
             delta = fsub observation (stats_mean s);
             mean = fadd (stats_mean s) (fdiv delta (of_u64 n));
             delta_after = fsub observation mean;
             m2 = fadd (stats_m2 s) (fmul delta delta_after)
         in Inr \<lparr>stats_n = n, stats_mean = mean, stats_m2 = m2,
                 stats_min = fmin (stats_min s) observation,
                 stats_max = fmax (stats_max s) observation\<rparr>))"

definition sample_variance :: "aggregate_stats \<Rightarrow> double option" where
  "sample_variance s =
     (if stats_n s < 2 then None else Some (fdiv (stats_m2 s) (of_u64 (stats_n s - 1))))"

definition standard_error :: "aggregate_stats \<Rightarrow> double option" where
  "standard_error s =
     (case sample_variance s of
        None \<Rightarrow> None
      | Some variance \<Rightarrow> Some (fsqrt (fdiv variance (of_u64 (stats_n s)))))"

text \<open>The literals \<^verbatim>\<open>1.0\<close>, \<^verbatim>\<open>64.0\<close> and the machine epsilon \<open>2\<^sup>-\<^sup>5\<^sup>2\<close>.\<close>

definition one64 :: double where
  "one64 = Double 0x3FF0000000000000"

definition sixty_four64 :: double where
  "sixty_four64 = Double 0x4050000000000000"

definition epsilon64 :: double where
  "epsilon64 = Double 0x3CB0000000000000"

text \<open>The tolerance of the checks: \<^verbatim>\<open>64.0 * epsilon * max({1.0, |mean|, |min|, |max|})\<close>.\<close>

definition check_tolerance :: "aggregate_stats \<Rightarrow> double" where
  "check_tolerance s =
     (let scale = fmax (fmax (fmax one64 (fabs (stats_mean s))) (fabs (stats_min s)))
                       (fabs (stats_max s))
      in fmul (fmul sixty_four64 epsilon64) scale)"

definition invariant_error :: "u64 option \<Rightarrow> aggregate_stats \<Rightarrow> string option" where
  "invariant_error expected_n s =
     (if expected_n \<noteq> None \<and> stats_n s \<noteq> the expected_n
      then Some ''aggregate observation count does not match the expected count''
      else if stats_n s = 0
      then (if \<not> feq (stats_mean s) zero64 \<or> \<not> feq (stats_m2 s) zero64 \<or>
               \<not> feq (stats_min s) zero64 \<or> \<not> feq (stats_max s) zero64
            then Some ''empty aggregate does not use the canonical zero representation''
            else None)
      else if \<not> isfinite (stats_mean s) \<or> \<not> isfinite (stats_m2 s) \<or>
              \<not> isfinite (stats_min s) \<or> \<not> isfinite (stats_max s)
      then Some ''aggregate contains a non-finite value''
      else if flt (stats_m2 s) zero64
      then Some ''aggregate m2 must be nonnegative''
      else if flt (stats_max s) (stats_min s)
      then Some ''aggregate minimum exceeds maximum''
      else
        (let tolerance = check_tolerance s
         in if flt (stats_mean s) (fsub (stats_min s) tolerance) \<or>
               flt (fadd (stats_max s) tolerance) (stats_mean s)
            then Some ''aggregate mean lies outside its minimum/maximum range''
            else if stats_n s = 1 \<and>
               (\<not> feq (stats_m2 s) zero64 \<or>
                flt tolerance (fabs (fsub (stats_mean s) (stats_min s))) \<or>
                flt tolerance (fabs (fsub (stats_mean s) (stats_max s))))
            then Some ''single-observation aggregate fields are inconsistent''
            else None))"

definition merge_stats :: "aggregate_stats \<Rightarrow> aggregate_stats \<Rightarrow> aggregate_stats result" where
  "merge_stats left right =
     (case invariant_error None left of
        Some err \<Rightarrow> Inl (Invalid_argument (''left aggregate is invalid: '' @ err))
      | None \<Rightarrow>
        (case invariant_error None right of
           Some err \<Rightarrow> Inl (Invalid_argument (''right aggregate is invalid: '' @ err))
         | None \<Rightarrow>
           (if stats_n left = 0 then Inr right
            else if stats_n right = 0 then Inr left
            else if u64_max - stats_n left < stats_n right
            then Inl (Overflow_error ''aggregate observation count overflow'')
            else
              (let n = stats_n left + stats_n right;
                   left_n = of_u64 (stats_n left);
                   right_n = of_u64 (stats_n right);
                   total_n = of_u64 n;
                   delta = fsub (stats_mean right) (stats_mean left);
                   res = \<lparr>stats_n = n,
                          stats_mean = fadd (stats_mean left) (fmul delta (fdiv right_n total_n)),
                          stats_m2 = fadd (fadd (stats_m2 left) (stats_m2 right))
                                       (fmul (fmul delta delta)
                                             (fdiv (fmul left_n right_n) total_n)),
                          stats_min = fmin (stats_min left) (stats_min right),
                          stats_max = fmax (stats_max left) (stats_max right)\<rparr>
               in case invariant_error None res of
                    Some err \<Rightarrow>
                      Inl (Overflow_error (''merged aggregate is not representable: '' @ err))
                  | None \<Rightarrow> Inr res))))"

section \<open>The running invariant\<close>

definition stats_ok :: "aggregate_stats \<Rightarrow> bool" where
  "stats_ok s \<longleftrightarrow>
     stats_n s \<noteq> 0 \<and> isfinite (stats_mean s) \<and> isfinite (stats_min s) \<and> isfinite (stats_max s) \<and>
     ord64 (stats_min s) \<le> ord64 (stats_mean s) \<and> ord64 (stats_mean s) \<le> ord64 (stats_max s) \<and>
     \<not> isnan (stats_m2 s) \<and> 0 \<le> ord64 (stats_m2 s) \<and>
     (stats_n s = 1 \<longrightarrow> ord64 (stats_m2 s) = 0 \<and> ord64 (stats_min s) = ord64 (stats_max s))"

lemma unat_ge_2I: "n \<noteq> 0 \<Longrightarrow> n \<noteq> u64_max \<Longrightarrow> 2 \<le> unat (n + 1 :: u64)"
proof -
  assume n: "n \<noteq> 0" "n \<noteq> u64_max"
  have "unat n \<noteq> 0" using n by (simp add: unat_eq_0)
  moreover have "unat n \<noteq> unat (u64_max)" using n by (metis word_unat_eq_iff)
  then have "unat n \<noteq> 18446744073709551615" by simp
  then have "unat n + 1 < 18446744073709551616"
    using unat_less_2_64 [of n] by linarith
  then have "unat n + unat (1::u64) < 2 ^ 64" by simp
  then have "unat (n + 1) = unat n + 1"
    by (subst unat_add_u64) auto
  ultimately show ?thesis by simp
qed

lemma add_observation_ok:
  assumes ok: "stats_ok s" and x: "isfinite x" and n: "stats_n s \<noteq> u64_max"
    and d: "isfinite (fsub x (stats_mean s))"
  shows "\<exists>t. add_observation x s = Inr t \<and> stats_ok t \<and> stats_n t = stats_n s + 1"
proof -
  let ?m = "stats_mean s" and ?n = "stats_n s + 1"
  let ?D = "fsub x ?m"
  let ?m' = "fadd ?m (fdiv ?D (of_u64 ?n))"
  let ?D' = "fsub x ?m'"
  have n2: "2 \<le> unat ?n"
    using ok n by (intro unat_ge_2I) (auto simp: stats_ok_def)
  have m: "isfinite ?m" using ok by (simp add: stats_ok_def)
  have btw: "(ord64 ?m \<le> ord64 ?m' \<and> ord64 ?m' \<le> ord64 x) \<or>
             (ord64 x \<le> ord64 ?m' \<and> ord64 ?m' \<le> ord64 ?m)"
    using mean_step_between [OF x m d of_u64_bounds(1) of_u64_bounds(2) [OF n2]] .
  then have m': "isfinite ?m'"
    using isfinite_between [of ?m x ?m'] isfinite_between [of x ?m ?m'] x m by blast
  have D': "isfinite ?D'"
    using x m m' d btw by (rule fsub_finite_between)
  have "(0 \<le> ord64 ?D \<and> 0 \<le> ord64 ?D') \<or> (ord64 ?D \<le> 0 \<and> ord64 ?D' \<le> 0)"
    using btw fsub_sign [OF x m] fsub_sign [OF x m'] by (meson order_trans)
  then have "0 \<le> ord64 (fmul ?D ?D')"
    using d D' by (intro fmul_sign)
  then have m2: "\<not> isnan (fadd (stats_m2 s) (fmul ?D ?D'))" "0 \<le> ord64 (fadd (stats_m2 s) (fmul ?D ?D'))"
    using ok d D' fadd_nonneg [of "stats_m2 s" "fmul ?D ?D'"] by (auto simp: stats_ok_def)
  have "?n \<noteq> 0" "?n \<noteq> 1" using n2 by auto
  then show ?thesis
    using ok x m' m2 btw unfolding stats_ok_def add_observation_def Let_def
    by (auto simp: ord64_fmin ord64_fmax)
qed

lemma first_observation_ok:
  "isfinite x \<Longrightarrow> stats_n s = 0 \<Longrightarrow>
     \<exists>t. add_observation x s = Inr t \<and> stats_ok t \<and> stats_n t = 1 \<and> stats_mean t = x"
  by (simp add: add_observation_def stats_ok_def)

text \<open>The checks accept every aggregate with the running invariant and a finite sum of squares.\<close>

lemma fmul_nonneg:
  assumes "\<not> isnan a" "0 \<le> ord64 a" "isfinite b" "0 < ord64 b"
  shows "\<not> isnan (fmul a b) \<and> 0 \<le> ord64 (fmul a b)"
proof (cases "isfinite a")
  case True
  then show ?thesis using assms fmul_sign [of a b] by simp
next
  case False
  then have a: "isinf a" "\<not> signbit a"
    using assms float_cases [of a] nonneg_inf [of a] by auto
  moreover have b: "\<not> signbit b" "mag b \<noteq> 0"
    using assms by (auto simp: ord64_def split: if_splits)
  ultimately have "fmul a b = mk_double False inf_pattern"
    using assms by (simp add: fmul_def)
  then show ?thesis by (simp add: isnan_ord)
qed

lemma fabs_simps [simp]: "mag (fabs d) = mag d" "\<not> signbit (fabs d)"
  "isfinite (fabs d) = isfinite d" "0 \<le> ord64 (fabs d)"
  by (simp_all add: fabs_def isfinite_def ord64_def)

lemma one64_simps [simp]: "isfinite one64" "0 < ord64 one64"
  by (simp_all add: one64_def isfinite_def ord64_def mag_def signbit_def)

lemma scale_constants [simp]: "isfinite sixty_four64" "0 < ord64 sixty_four64"
  "isfinite epsilon64" "0 < ord64 epsilon64"
  by (simp_all add: sixty_four64_def epsilon64_def isfinite_def ord64_def mag_def signbit_def)

lemma check_tolerance_nonneg:
  assumes "isfinite (stats_mean s)" "isfinite (stats_min s)" "isfinite (stats_max s)"
  shows "\<not> isnan (check_tolerance s)" "0 \<le> ord64 (check_tolerance s)"
proof -
  let ?scale = "fmax (fmax (fmax one64 (fabs (stats_mean s))) (fabs (stats_min s))) (fabs (stats_max s))"
  have "isfinite ?scale" using assms by simp
  moreover have "0 < ord64 ?scale"
    using assms by (simp add: ord64_fmax less_max_iff_disj)
  moreover have "\<not> isnan (fmul sixty_four64 epsilon64) \<and> 0 \<le> ord64 (fmul sixty_four64 epsilon64)"
    by (rule fmul_nonneg) (simp_all add: less_imp_le)
  ultimately have "\<not> isnan (check_tolerance s) \<and> 0 \<le> ord64 (check_tolerance s)"
    unfolding check_tolerance_def Let_def by (intro fmul_nonneg) auto
  then show "\<not> isnan (check_tolerance s)" "0 \<le> ord64 (check_tolerance s)" by auto
qed

lemma fsub_same_ord: "isfinite a \<Longrightarrow> isfinite b \<Longrightarrow> ord64 a = ord64 b \<Longrightarrow> mag (fsub a b) = 0"
  by (simp add: fsub_def fadd_def)

lemma stats_ok_checks:
  assumes ok: "stats_ok s" and m2: "isfinite (stats_m2 s)"
    and n: "expected = None \<or> expected = Some (stats_n s)"
  shows "invariant_error expected s = None"
proof -
  have fin: "isfinite (stats_mean s)" "isfinite (stats_min s)" "isfinite (stats_max s)"
    using ok by (auto simp: stats_ok_def)
  note tol = check_tolerance_nonneg [OF fin]
  have "\<not> flt (stats_mean s) (fsub (stats_min s) (check_tolerance s))"
    using ok fsub_nonneg_le [OF fin(2) tol] by (auto simp: flt_def stats_ok_def)
  moreover have "\<not> flt (fadd (stats_max s) (check_tolerance s)) (stats_mean s)"
    using ok fadd_nonneg_ge [OF fin(3) tol] by (auto simp: flt_def stats_ok_def)
  moreover have "\<not> flt (check_tolerance s) (fabs (fsub (stats_mean s) (stats_min s)))"
    "\<not> flt (check_tolerance s) (fabs (fsub (stats_mean s) (stats_max s)))" if "stats_n s = 1"
    using that ok tol fin fsub_same_ord [of "stats_mean s" "stats_min s"]
      fsub_same_ord [of "stats_mean s" "stats_max s"]
    by (auto simp: flt_def stats_ok_def fabs_def)
  moreover have "stats_n s = 1 \<Longrightarrow> feq (stats_m2 s) zero64"
    using ok by (auto simp: stats_ok_def feq_def)
  moreover have "\<not> flt (stats_m2 s) zero64" "\<not> flt (stats_max s) (stats_min s)" "stats_n s \<noteq> 0"
    using ok by (auto simp: stats_ok_def flt_def)
  moreover have "\<not> (expected \<noteq> None \<and> stats_n s \<noteq> the expected)" using n by auto
  ultimately show ?thesis
    unfolding invariant_error_def Let_def using fin m2 by simp
qed

text \<open>A whole run of updates.\<close>

definition add_observations :: "double list \<Rightarrow> aggregate_stats \<Rightarrow> aggregate_stats result" where
  "add_observations xs s = fold_result add_observation xs s"

text \<open>The state after a nonempty run over nonnegative finite observations: valid, with the exact
  observation count and the exact extrema.\<close>

definition run_ok :: "double set \<Rightarrow> aggregate_stats \<Rightarrow> bool" where
  "run_ok X s \<longleftrightarrow> stats_ok s \<and> finite X \<and> X \<noteq> {} \<and> (\<forall>x \<in> X. isfinite x \<and> 0 \<le> ord64 x) \<and>
     ord64 (stats_min s) = Min (ord64 ` X) \<and> ord64 (stats_max s) = Max (ord64 ` X)"

lemma run_ok_mean_nonneg: "run_ok X s \<Longrightarrow> 0 \<le> ord64 (stats_mean s)"
proof -
  assume ok: "run_ok X s"
  then have "Min (ord64 ` X) \<in> ord64 ` X" by (intro Min_in) (auto simp: run_ok_def)
  then obtain x where x: "x \<in> X" "Min (ord64 ` X) = ord64 x" by auto
  then have "0 \<le> ord64 x" using ok by (auto simp: run_ok_def)
  moreover have "ord64 x \<le> ord64 (stats_mean s)"
    using ok x by (simp add: run_ok_def stats_ok_def)
  ultimately show ?thesis by linarith
qed

lemma add_observation_extrema:
  "add_observation x s = Inr t \<Longrightarrow> stats_n s \<noteq> 0 \<Longrightarrow>
     stats_min t = fmin (stats_min s) x \<and> stats_max t = fmax (stats_max s) x"
  by (auto simp: add_observation_def Let_def split: if_splits)

lemma add_observation_run_ok:
  assumes ok: "run_ok X s" and x: "isfinite x" "0 \<le> ord64 x" and n: "stats_n s \<noteq> u64_max"
  shows "\<exists>t. add_observation x s = Inr t \<and> run_ok (insert x X) t \<and> stats_n t = stats_n s + 1"
proof -
  have sok: "stats_ok s" and X: "finite X" "X \<noteq> {}" using ok by (auto simp: run_ok_def)
  have "isfinite (fsub x (stats_mean s))"
    using sok x run_ok_mean_nonneg [OF ok] by (intro fsub_finite_nonneg) (auto simp: stats_ok_def)
  then obtain t where t: "add_observation x s = Inr t" "stats_ok t" "stats_n t = stats_n s + 1"
    using add_observation_ok [OF sok x(1) n] by blast
  have "stats_min t = fmin (stats_min s) x" "stats_max t = fmax (stats_max s) x"
    using add_observation_extrema [OF t(1)] sok by (auto simp: stats_ok_def)
  then have "ord64 (stats_min t) = Min (ord64 ` insert x X)"
    "ord64 (stats_max t) = Max (ord64 ` insert x X)"
    using ok x X by (simp_all add: ord64_fmin ord64_fmax run_ok_def stats_ok_def min.commute max.commute)
  then show ?thesis
    using t ok x by (auto simp: run_ok_def)
qed

lemma add_observations_run_ok:
  assumes "run_ok X s" "\<forall>x \<in> set xs. isfinite x \<and> 0 \<le> ord64 x"
    "unat (stats_n s) + length xs < 2 ^ 64"
  shows "\<exists>t. add_observations xs s = Inr t \<and> run_ok (X \<union> set xs) t \<and>
             unat (stats_n t) = unat (stats_n s) + length xs"
  using assms
proof (induction xs arbitrary: s X)
  case Nil
  then show ?case by (simp add: add_observations_def)
next
  case (Cons x xs)
  have n: "unat (stats_n s) + unat (1::u64) < 2 ^ 64" using Cons.prems(3) by simp
  then have "stats_n s \<noteq> u64_max" by auto
  then obtain t where t: "add_observation x s = Inr t" "run_ok (insert x X) t" "stats_n t = stats_n s + 1"
    using add_observation_run_ok [OF Cons.prems(1), of x] Cons.prems(2) by auto
  have nt: "unat (stats_n t) = unat (stats_n s) + 1"
    unfolding t(3) using n by (subst unat_add_u64) simp_all
  obtain u where "add_observations xs t = Inr u" "run_ok (insert x X \<union> set xs) u"
    "unat (stats_n u) = unat (stats_n t) + length xs"
    using Cons.IH [OF t(2)] Cons.prems nt by auto
  then show ?case
    using t nt by (auto simp: add_observations_def insert_commute)
qed

lemma add_observations_from_empty:
  assumes "xs \<noteq> []" "\<forall>x \<in> set xs. isfinite x \<and> 0 \<le> ord64 x" "length xs < 2 ^ 64"
  shows "\<exists>t. add_observations xs empty_stats = Inr t \<and> run_ok (set xs) t \<and>
             unat (stats_n t) = length xs"
proof (cases xs)
  case Nil
  with assms show ?thesis by simp
next
  case (Cons y ys)
  let ?s = "\<lparr>stats_n = 1, stats_mean = y, stats_m2 = zero64, stats_min = y, stats_max = y\<rparr>"
  have "add_observation y empty_stats = Inr ?s"
    using assms Cons by (simp add: add_observation_def empty_stats_def)
  moreover have "run_ok {y} ?s"
    using assms Cons by (simp add: run_ok_def stats_ok_def)
  then have "\<exists>t. add_observations ys ?s = Inr t \<and> run_ok ({y} \<union> set ys) t \<and>
             unat (stats_n t) = unat (stats_n ?s) + length ys"
    using assms Cons by (intro add_observations_run_ok) auto
  ultimately show ?thesis
    using Cons by (simp add: add_observations_def)
qed

section \<open>Merging\<close>

lemma merge_stats_Inr:
  assumes "merge_stats l r = Inr t"
  shows "invariant_error None t = None"
    and "unat (stats_n t) = unat (stats_n l) + unat (stats_n r)"
    and "stats_n l = 0 \<Longrightarrow> t = r"
    and "stats_n l \<noteq> 0 \<Longrightarrow> stats_n r = 0 \<Longrightarrow> t = l"
    and "stats_n l \<noteq> 0 \<Longrightarrow> stats_n r \<noteq> 0 \<Longrightarrow>
           stats_min t = fmin (stats_min l) (stats_min r) \<and> stats_max t = fmax (stats_max l) (stats_max r)"
proof -
  have sum: "unat (a + b) = unat a + unat b" if "\<not> u64_max - a < b" for a b :: u64
  proof (rule unat_add_u64)
    have "b \<le> u64_max - a" using that by simp
    then have "unat b \<le> unat (u64_max - a)" by (simp only: word_le_nat_alt)
    also have "\<dots> = unat u64_max - unat a"
      by (rule unat_sub_u64) (simp add: word_le_nat_alt less_Suc_eq_le [symmetric])
    finally have "unat b \<le> 18446744073709551615 - unat a" by simp
    then have "unat a + unat b < 18446744073709551616"
      using unat_less_2_64 [of a] by linarith
    then show "unat a + unat b < 2 ^ 64" by simp
  qed
  show "invariant_error None t = None"
    and "unat (stats_n t) = unat (stats_n l) + unat (stats_n r)"
    and "stats_n l = 0 \<Longrightarrow> t = r"
    and "stats_n l \<noteq> 0 \<Longrightarrow> stats_n r = 0 \<Longrightarrow> t = l"
    and "stats_n l \<noteq> 0 \<Longrightarrow> stats_n r \<noteq> 0 \<Longrightarrow>
           stats_min t = fmin (stats_min l) (stats_min r) \<and> stats_max t = fmax (stats_max l) (stats_max r)"
    using assms by (auto simp: merge_stats_def Let_def sum split: option.splits if_splits)
qed

section \<open>Properties\<close>

lemma val_le_iff: "val a \<le> val b \<longleftrightarrow> ord64 a \<le> ord64 b"
  using unit_scale_pos by (simp add: val_def divide_le_cancel)

lemma val_nonneg_iff: "0 \<le> val a \<longleftrightarrow> 0 \<le> ord64 a"
  using val_le_iff [of zero64 a] by (simp add: val_def)

text \<open>\<^const>\<open>val\<close> depends on \<^const>\<open>ord64\<close> alone, monotonically, so extrema can be read off either.\<close>

lemma val_Min_Max:
  assumes X: "finite X" "X \<noteq> {}"
  shows "ord64 a = Min (ord64 ` X) \<Longrightarrow> val a = Min (val ` X)"
    and "ord64 a = Max (ord64 ` X) \<Longrightarrow> val a = Max (val ` X)"
proof -
  have eq: "ord64 a = ord64 x \<Longrightarrow> val a = val x" for x
    using val_le_iff [of a x] val_le_iff [of x a] by auto
  show "val a = Min (val ` X)" if m: "ord64 a = Min (ord64 ` X)"
  proof -
    have "Min (ord64 ` X) \<in> ord64 ` X" using X by (intro Min_in) auto
    then obtain x where "x \<in> X" "ord64 a = ord64 x" using m by auto
    moreover have "\<forall>y \<in> X. val a \<le> val y" using X m by (auto simp: val_le_iff)
    ultimately show ?thesis using X eq by (intro Min_eqI [symmetric]) auto
  qed
  show "val a = Max (val ` X)" if m: "ord64 a = Max (ord64 ` X)"
  proof -
    have "Max (ord64 ` X) \<in> ord64 ` X" using X by (intro Max_in) auto
    then obtain x where "x \<in> X" "ord64 a = ord64 x" using m by auto
    moreover have "\<forall>y \<in> X. val y \<le> val a" using X m by (auto simp: val_le_iff)
    ultimately show ?thesis using X eq by (intro Max_eqI [symmetric]) auto
  qed
qed

lemma invariant_error_finite:
  "invariant_error e s = None \<Longrightarrow> stats_n s \<noteq> 0 \<Longrightarrow> isfinite (stats_m2 s)"
  by (auto simp: invariant_error_def split: if_splits)

text \<open>Welford's update in rounded binary64 arithmetic, over any nonempty run of finite nonnegative
  observations: it always succeeds, counts exactly, records the exact extrema, keeps the mean
  between them without any tolerance, and the result passes the semantic checks for its count
  exactly when the sum of squares did not overflow.\<close>

theorem welford_run_valid:
  assumes "xs \<noteq> []" "\<forall>x \<in> set xs. isfinite x \<and> 0 \<le> val x" "length xs < 2 ^ 64"
  shows "\<exists>t. add_observations xs empty_stats = Inr t \<and> unat (stats_n t) = length xs \<and>
    val (stats_min t) = Min (val ` set xs) \<and> val (stats_max t) = Max (val ` set xs) \<and>
    val (stats_min t) \<le> val (stats_mean t) \<and> val (stats_mean t) \<le> val (stats_max t) \<and>
    (invariant_error (Some (of_nat (length xs))) t = None \<longleftrightarrow> isfinite (stats_m2 t))"
proof -
  obtain t where t: "add_observations xs empty_stats = Inr t" "run_ok (set xs) t"
    "unat (stats_n t) = length xs"
    using add_observations_from_empty [of xs] assms by (auto simp: val_nonneg_iff)
  have n: "stats_n t = of_nat (length xs)" using t(3) assms(3) by (intro u64_eqI) simp
  have ok: "stats_ok t" "stats_n t \<noteq> 0" using t(2) by (auto simp: run_ok_def stats_ok_def)
  have "invariant_error (Some (of_nat (length xs))) t = None \<longleftrightarrow> isfinite (stats_m2 t)"
    using stats_ok_checks [OF ok(1)] invariant_error_finite [OF _ ok(2)] unfolding n [symmetric]
    by metis
  moreover have "val (stats_min t) = Min (val ` set xs)" "val (stats_max t) = Max (val ` set xs)"
    using t(2) val_Min_Max [of "set xs"] by (auto simp: run_ok_def)
  moreover have "val (stats_min t) \<le> val (stats_mean t)" "val (stats_mean t) \<le> val (stats_max t)"
    using ok(1) by (auto simp: val_le_iff stats_ok_def)
  ultimately show ?thesis using t(1,3) by (intro exI [of _ t] conjI)
qed

theorem welford_run_valid_witness:
  "\<exists>t. add_observations [one64, sixty_four64, one64] empty_stats = Inr t \<and>
     unat (stats_n t) = length [one64, sixty_four64, one64]"
proof -
  have "0 \<le> val one64" "0 \<le> val sixty_four64"
    by (simp_all only: val_nonneg_iff less_imp_le [OF one64_simps(2)] less_imp_le [OF scale_constants(2)])
  then have "\<forall>x \<in> set [one64, sixty_four64, one64]. isfinite x \<and> 0 \<le> val x" by simp
  moreover have "length [one64, sixty_four64, one64] < 2 ^ 64" by simp
  ultimately show ?thesis
    using welford_run_valid [of "[one64, sixty_four64, one64]"] by blast
qed

text \<open>A successful merge counts the observations of both sides without wrap-around, takes the
  extrema of both sides (or returns the other side when one is empty) and always returns an
  aggregate that passes the semantic checks.\<close>

theorem merge_stats_correct:
  assumes "merge_stats l r = Inr t"
  shows "unat (stats_n t) = unat (stats_n l) + unat (stats_n r) \<and>
    invariant_error None t = None \<and>
    (stats_n l = 0 \<longrightarrow> t = r) \<and> (stats_n l \<noteq> 0 \<and> stats_n r = 0 \<longrightarrow> t = l) \<and>
    (stats_n l \<noteq> 0 \<and> stats_n r \<noteq> 0 \<longrightarrow>
       val (stats_min t) = min (val (stats_min l)) (val (stats_min r)) \<and>
       val (stats_max t) = max (val (stats_max l)) (val (stats_max r)))"
proof -
  note m = merge_stats_Inr [OF assms]
  have fin: "stats_n s \<noteq> 0 \<Longrightarrow> invariant_error None s = None \<Longrightarrow>
      isfinite (stats_min s) \<and> isfinite (stats_max s)" for s
    by (auto simp: invariant_error_def split: if_splits)
  have valid: "invariant_error None l = None" "invariant_error None r = None"
    using assms by (auto simp: merge_stats_def split: option.splits)
  have "val (fmin a b) = min (val a) (val b)" "val (fmax a b) = max (val a) (val b)"
    if "isfinite a" "isfinite b" for a b
    using that by (auto simp: fmin_def fmax_def flt_def min_def max_def val_le_iff not_less
        intro!: antisym)
  then show ?thesis using m fin valid by simp
qed

definition sample_stats :: aggregate_stats where
  "sample_stats = \<lparr>stats_n = 1, stats_mean = one64, stats_m2 = zero64,
                   stats_min = one64, stats_max = one64\<rparr>"

lemma sample_stats_ok: "stats_ok sample_stats" "invariant_error None sample_stats = None"
proof -
  show ok: "stats_ok sample_stats" by (simp add: sample_stats_def stats_ok_def)
  show "invariant_error None sample_stats = None"
    using ok by (intro stats_ok_checks) (simp_all add: sample_stats_def)
qed

theorem merge_stats_correct_witness:
  "merge_stats empty_stats sample_stats = Inr sample_stats \<and>
   unat (stats_n sample_stats) = unat (stats_n empty_stats) + unat (stats_n sample_stats)"
proof -
  have "invariant_error None empty_stats = None"
    by (simp add: invariant_error_def empty_stats_def feq_def)
  then have m: "merge_stats empty_stats sample_stats = Inr sample_stats"
    by (simp add: merge_stats_def sample_stats_ok) (simp add: empty_stats_def)
  from merge_stats_correct [OF m] m show ?thesis by blast
qed

end
