(* ===== verification/Run_Spec.thy ===== *)
theory Run_Spec
  imports Aggregate_Stats
begin

text \<open>
  The run specification (\<^verbatim>\<open>include/mc/run_spec.hpp\<close>, \<^verbatim>\<open>src/run_spec.cpp\<close>): the
  parameters that identify a simulation, their validation and the structured
  Feller warning.  An \<^verbatim>\<open>enum class\<close> over \<^verbatim>\<open>uint8_t\<close> can hold any byte (the decoders
  cast one), so the model types have a constructor for the values the source does
  not name.
\<close>

section \<open>Model\<close>

definition kEngineVersion :: u64 where "kEngineVersion = 2"
definition kRngVersion :: u64 where "kRngVersion = 2"
definition kRunSpecSchemaVersion :: u32 where "kRunSpecSchemaVersion = 1"
definition kStatsSchemaVersion :: u32 where "kStatsSchemaVersion = 1"
definition kHestonDiscretizationVersion :: u32 where "kHestonDiscretizationVersion = 1"
definition kMaxScenarios :: u64 where "kMaxScenarios = 0x10000000000"
definition kMaxTimeSteps :: u32 where "kMaxTimeSteps = 0x1000000"

lemmas version_defs [mc_defs] =
  kEngineVersion_def kRngVersion_def kRunSpecSchemaVersion_def kStatsSchemaVersion_def
  kHestonDiscretizationVersion_def kMaxScenarios_def kMaxTimeSteps_def

datatype model_type = Gbm | Heston | Unknown_model u8
datatype payoff_type = EuropeanCall | AsianCall | Unknown_payoff u8

fun model_code :: "model_type \<Rightarrow> u8" where
  "model_code Gbm = 1"
| "model_code Heston = 2"
| "model_code (Unknown_model b) = b"

fun payoff_code :: "payoff_type \<Rightarrow> u8" where
  "payoff_code EuropeanCall = 1"
| "payoff_code AsianCall = 2"
| "payoff_code (Unknown_payoff b) = b"

text \<open>\<^verbatim>\<open>static_cast<ModelType>\<close> and \<^verbatim>\<open>static_cast<PayoffType>\<close> of a byte.\<close>

definition model_of_code :: "u8 \<Rightarrow> model_type" where
  "model_of_code b = (if b = 1 then Gbm else if b = 2 then Heston else Unknown_model b)"

definition payoff_of_code :: "u8 \<Rightarrow> payoff_type" where
  "payoff_of_code b = (if b = 1 then EuropeanCall else if b = 2 then AsianCall else Unknown_payoff b)"

record heston_params =
  initial_variance :: double
  mean_reversion_rate :: double
  long_run_variance :: double
  volatility_of_variance :: double
  correlation :: double
  discretization_version :: u32

record run_spec =
  global_seed :: u64
  total_scenarios :: u64
  num_time_steps :: u32
  maturity :: double
  spot :: double
  strike :: double
  rate :: double
  volatility :: double
  heston :: "heston_params option"
  spec_payoff_type :: payoff_type
  antithetic :: bool
  spec_model_type :: model_type
  engine_version :: u64
  rng_version :: u64
  stats_schema_version :: u32

text \<open>The default member initializers.\<close>

definition default_heston :: heston_params where
  "default_heston = \<lparr>
     initial_variance = Double 0x3FA47AE147AE147B,        \<comment> \<open>0.04\<close>
     mean_reversion_rate = Double 0x3FF8000000000000,     \<comment> \<open>1.5\<close>
     long_run_variance = Double 0x3FA47AE147AE147B,       \<comment> \<open>0.04\<close>
     volatility_of_variance = Double 0x3FD3333333333333,  \<comment> \<open>0.3\<close>
     correlation = Double 0xBFE6666666666666,             \<comment> \<open>-0.7\<close>
     discretization_version = kHestonDiscretizationVersion\<rparr>"

definition default_run_spec :: run_spec where
  "default_run_spec = \<lparr>
     global_seed = 1, total_scenarios = 100000, num_time_steps = 1,
     maturity = one64,
     spot = Double 0x4059000000000000,        \<comment> \<open>100.0\<close>
     strike = Double 0x4059000000000000,      \<comment> \<open>100.0\<close>
     rate = Double 0x3FA999999999999A,        \<comment> \<open>0.05\<close>
     volatility = Double 0x3FC999999999999A,  \<comment> \<open>0.2\<close>
     heston = None, spec_payoff_type = EuropeanCall, antithetic = False,
     spec_model_type = Gbm, engine_version = kEngineVersion, rng_version = kRngVersion,
     stats_schema_version = kStatsSchemaVersion\<rparr>"

definition finite_positive :: "double \<Rightarrow> bool" where
  "finite_positive d \<longleftrightarrow> isfinite d \<and> \<not> fle d zero64"

definition finite_nonnegative :: "double \<Rightarrow> bool" where
  "finite_nonnegative d \<longleftrightarrow> isfinite d \<and> \<not> flt d zero64"

definition minus_one64 :: double where
  "minus_one64 = Double 0xBFF0000000000000"

definition validate_heston :: "heston_params \<Rightarrow> unit result" where
  "validate_heston h =
     (if discretization_version h \<noteq> kHestonDiscretizationVersion
      then Inl (Invalid_argument ''unsupported Heston discretization version'')
      else if \<not> finite_nonnegative (initial_variance h)
      then Inl (Invalid_argument ''Heston initial variance must be finite and nonnegative'')
      else if \<not> finite_nonnegative (mean_reversion_rate h)
      then Inl (Invalid_argument ''Heston mean reversion must be finite and nonnegative'')
      else if \<not> finite_nonnegative (long_run_variance h)
      then Inl (Invalid_argument ''Heston long-run variance must be finite and nonnegative'')
      else if \<not> finite_nonnegative (volatility_of_variance h)
      then Inl (Invalid_argument ''Heston volatility of variance must be finite and nonnegative'')
      else if \<not> isfinite (correlation h) \<or> flt (correlation h) minus_one64 \<or>
              flt one64 (correlation h)
      then Inl (Invalid_argument ''Heston correlation must be finite and in [-1, 1]'')
      else Inr ())"

definition validate_model :: "run_spec \<Rightarrow> unit result" where
  "validate_model spec =
     (case spec_model_type spec of
        Gbm \<Rightarrow>
          (if heston spec \<noteq> None
           then Inl (Invalid_argument ''GBM runs must not contain Heston parameters'')
           else if \<not> finite_positive (volatility spec)
           then Inl (Invalid_argument ''GBM volatility must be finite and positive'')
           else Inr ())
      | Heston \<Rightarrow>
          (case heston spec of
             None \<Rightarrow> Inl (Invalid_argument ''Heston runs require Heston parameters'')
           | Some h \<Rightarrow> validate_heston h)
      | Unknown_model b \<Rightarrow> Inl (Invalid_argument ''unsupported model type''))"

definition validate_run_spec :: "run_spec \<Rightarrow> unit result" where
  "validate_run_spec spec =
     (if engine_version spec \<noteq> kEngineVersion
      then Inl (Invalid_argument ''unsupported engine version'')
      else if rng_version spec \<noteq> kRngVersion
      then Inl (Invalid_argument ''unsupported RNG version'')
      else if stats_schema_version spec \<noteq> kStatsSchemaVersion
      then Inl (Invalid_argument ''unsupported statistics schema version'')
      else if total_scenarios spec = 0 \<or> kMaxScenarios < total_scenarios spec
      then Inl (Invalid_argument ''total_scenarios must be in [1, 2^40]'')
      else if num_time_steps spec = 0 \<or> kMaxTimeSteps < num_time_steps spec
      then Inl (Invalid_argument ''num_time_steps must be in [1, 2^24]'')
      else if \<not> finite_positive (maturity spec)
      then Inl (Invalid_argument ''maturity must be finite and positive'')
      else if \<not> finite_positive (spot spec)
      then Inl (Invalid_argument ''spot must be finite and positive'')
      else if \<not> finite_positive (strike spec)
      then Inl (Invalid_argument ''strike must be finite and positive'')
      else if \<not> isfinite (rate spec)
      then Inl (Invalid_argument ''rate must be finite'')
      else if antithetic spec \<and> total_scenarios spec mod 2 \<noteq> 0
      then Inl (Invalid_argument ''antithetic runs require an even scenario count'')
      else (case spec_payoff_type spec of
              Unknown_payoff b \<Rightarrow> Inl (Invalid_argument ''unsupported payoff type'')
            | _ \<Rightarrow> validate_model spec))"

text \<open>\<^verbatim>\<open>std::frexp\<close> and \<^verbatim>\<open>std::scalbn\<close> on finite nonzero numbers.\<close>

definition frexp_mantissa :: "double \<Rightarrow> double" where
  "frexp_mantissa d =
     (let u = mag_units (mag d)
      in mk_double (signbit d) (round_units (u * unit_scale) (2 ^ floorlog 2 u)))"

definition frexp_exponent :: "double \<Rightarrow> int" where
  "frexp_exponent d = int (floorlog 2 (mag_units (mag d))) - 1074"

definition scalbn :: "double \<Rightarrow> int \<Rightarrow> double" where
  "scalbn d e =
     (let u = mag_units (mag d)
      in if \<not> isfinite d then d
         else mk_double (signbit d)
                (if 0 \<le> e then round_units (u * 2 ^ nat e) 1 else round_units u (2 ^ nat (- e))))"

definition two64f :: double where
  "two64f = Double 0x4000000000000000"  \<comment> \<open>2.0\<close>

definition feller_ratio :: "heston_params \<Rightarrow> double" where
  "feller_ratio h =
     (if feq (volatility_of_variance h) zero64 then inf64
      else if feq (mean_reversion_rate h) zero64 \<or> feq (long_run_variance h) zero64 then zero64
      else if \<not> isfinite (mean_reversion_rate h) \<or> \<not> isfinite (long_run_variance h) \<or>
              \<not> isfinite (volatility_of_variance h) \<or> flt (mean_reversion_rate h) zero64 \<or>
              flt (long_run_variance h) zero64 \<or> flt (volatility_of_variance h) zero64
      then nan64
      else
        (let mantissa =
               fdiv (fmul (fmul two64f (frexp_mantissa (mean_reversion_rate h)))
                          (frexp_mantissa (long_run_variance h)))
                    (fmul (frexp_mantissa (volatility_of_variance h))
                          (frexp_mantissa (volatility_of_variance h)));
             exponent = frexp_exponent (mean_reversion_rate h)
                        + frexp_exponent (long_run_variance h)
                        - 2 * frexp_exponent (volatility_of_variance h)
         in scalbn mantissa exponent))"

datatype run_warning_code = HestonFellerConditionViolated

record run_warning =
  warning_code :: run_warning_code
  observed_value :: double
  warning_threshold :: double

definition run_warnings :: "run_spec \<Rightarrow> run_warning list result" where
  "run_warnings spec =
     rbind (validate_run_spec spec) (\<lambda>_.
       if spec_model_type spec \<noteq> Heston then Inr []
       else case heston spec of
              None \<Rightarrow> Inr []
            | Some h \<Rightarrow>
                (let ratio = feller_ratio h
                 in if flt ratio one64
                    then Inr [\<lparr>warning_code = HestonFellerConditionViolated,
                               observed_value = ratio, warning_threshold = one64\<rparr>]
                    else Inr []))"

fun payoff_to_string :: "payoff_type \<Rightarrow> string result" where
  "payoff_to_string EuropeanCall = Inr ''european_call''"
| "payoff_to_string AsianCall = Inr ''asian_call''"
| "payoff_to_string (Unknown_payoff b) = Inl (Invalid_argument ''unknown payoff type'')"

fun model_to_string :: "model_type \<Rightarrow> string result" where
  "model_to_string Gbm = Inr ''gbm''"
| "model_to_string Heston = Inr ''heston''"
| "model_to_string (Unknown_model b) = Inl (Invalid_argument ''unknown model type'')"

fun warning_to_string :: "run_warning_code \<Rightarrow> string" where
  "warning_to_string HestonFellerConditionViolated = ''heston_feller_condition_violated''"

section \<open>What validation guarantees\<close>

definition valid_spec :: "run_spec \<Rightarrow> bool" where
  "valid_spec spec \<longleftrightarrow> validate_run_spec spec = Inr ()"

lemma u64_even_iff: "(w :: u64) mod 2 = 0 \<longleftrightarrow> even (unat w)"
proof -
  have "unat (w mod 2) = unat w mod 2" by (simp add: unat_mod)
  then show ?thesis
    by (metis dvd_eq_mod_eq_0 unat_eq_0)
qed

lemma valid_spec_versions [mc_inv]:
  assumes "valid_spec spec"
  shows "engine_version spec = kEngineVersion" "rng_version spec = kRngVersion"
    "stats_schema_version spec = kStatsSchemaVersion"
  using assms by (auto simp: valid_spec_def validate_run_spec_def split: if_splits)

lemma valid_spec_bounds [mc_inv]:
  assumes "valid_spec spec"
  shows "0 < unat (total_scenarios spec)" "unat (total_scenarios spec) \<le> 2 ^ 40"
    "0 < unat (num_time_steps spec)" "unat (num_time_steps spec) \<le> 2 ^ 24"
    "antithetic spec \<Longrightarrow> even (unat (total_scenarios spec))"
proof -
  have t: "total_scenarios spec \<noteq> 0" "total_scenarios spec \<le> kMaxScenarios"
    and n: "num_time_steps spec \<noteq> 0" "num_time_steps spec \<le> kMaxTimeSteps"
    and e: "antithetic spec \<Longrightarrow> total_scenarios spec mod 2 = 0"
    using assms by (auto simp: valid_spec_def validate_run_spec_def split: if_splits)
  show "0 < unat (total_scenarios spec)" "0 < unat (num_time_steps spec)"
    using t n by (simp_all add: unat_gt_0)
  show "unat (total_scenarios spec) \<le> 2 ^ 40" "unat (num_time_steps spec) \<le> 2 ^ 24"
    using t n by (simp_all add: kMaxScenarios_def kMaxTimeSteps_def word_le_nat_alt)
  show "antithetic spec \<Longrightarrow> even (unat (total_scenarios spec))"
    using e by (simp add: u64_even_iff)
qed

lemma valid_spec_types [mc_inv]:
  assumes "valid_spec spec"
  shows "spec_payoff_type spec \<in> {EuropeanCall, AsianCall}"
    "spec_model_type spec = Gbm \<and> heston spec = None \<or>
     spec_model_type spec = Heston \<and> (\<exists>h. heston spec = Some h \<and> validate_heston h = Inr ())"
  using assms
  by (auto simp: valid_spec_def validate_run_spec_def validate_model_def
      split: if_splits payoff_type.splits model_type.splits option.splits)

lemma valid_spec_numbers [mc_inv]:
  assumes "valid_spec spec"
  shows "isfinite (maturity spec)" "0 < ord64 (maturity spec)"
    "isfinite (spot spec)" "0 < ord64 (spot spec)"
    "isfinite (strike spec)" "0 < ord64 (strike spec)" "isfinite (rate spec)"
proof -
  have "finite_positive (maturity spec) \<and> finite_positive (spot spec) \<and>
        finite_positive (strike spec) \<and> isfinite (rate spec)"
    using assms unfolding valid_spec_def validate_run_spec_def by (auto split: if_splits)
  then show "isfinite (maturity spec)" "0 < ord64 (maturity spec)"
    "isfinite (spot spec)" "0 < ord64 (spot spec)"
    "isfinite (strike spec)" "0 < ord64 (strike spec)" "isfinite (rate spec)"
    by (auto simp: finite_positive_def fle_def)
qed

lemma validate_heston_numbers:
  assumes "validate_heston h = Inr ()"
  shows "isfinite (mean_reversion_rate h)" "0 \<le> ord64 (mean_reversion_rate h)"
    "isfinite (long_run_variance h)" "0 \<le> ord64 (long_run_variance h)"
    "isfinite (volatility_of_variance h)" "0 \<le> ord64 (volatility_of_variance h)"
    "isfinite (initial_variance h)" "0 \<le> ord64 (initial_variance h)"
    "isfinite (correlation h)"
  using assms
  by (auto simp: validate_heston_def finite_nonnegative_def flt_def split: if_splits)

lemma model_code_roundtrip [simp]: "model_of_code (model_code m) = m \<longleftrightarrow> m \<noteq> Unknown_model 1 \<and> m \<noteq> Unknown_model 2"
  by (cases m) (auto simp: model_of_code_def)

lemma payoff_code_roundtrip [simp]: "payoff_of_code (payoff_code m) = m \<longleftrightarrow> m \<noteq> Unknown_payoff 1 \<and> m \<noteq> Unknown_payoff 2"
  by (cases m) (auto simp: payoff_of_code_def)

lemma default_run_spec_valid: "valid_spec default_run_spec"
  by (simp add: valid_spec_def validate_run_spec_def validate_model_def default_run_spec_def
      version_defs finite_positive_def fle_def one64_def isfinite_def isnan_def ord64_def
      mag_def signbit_def zero64_def mk_double_def)

end
