(* ===== verification/Philox_Rng.thy ===== *)
theory Philox_Rng
  imports Run_Spec
begin

text \<open>
  The counter-based random stream (\<^verbatim>\<open>include/mc/rng.hpp\<close>, \<^verbatim>\<open>src/rng/philox_rng.cpp\<close>):
  Philox4x32-10, the v1 counter layout, the 53-bit uniform conversion of RNG
  version 2 and Acklam's inverse normal approximation.  Every draw is a function of
  its logical coordinates alone.  The C library's \<^verbatim>\<open>log\<close> is a parameter: neither C++ nor
  IEEE-754 fixes its rounding.
\<close>

section \<open>Model\<close>

text \<open>The C library's transcendental functions; their rounding is up to the platform (the build
  identity records it).\<close>

record libm =
  m_exp :: "double \<Rightarrow> double"
  m_log :: "double \<Rightarrow> double"
  m_erfc :: "double \<Rightarrow> double"

type_synonym philox_counter = "u32 \<times> u32 \<times> u32 \<times> u32"
type_synonym philox_key = "u32 \<times> u32"

definition kPhiloxMultiplier0 :: u32 where "kPhiloxMultiplier0 = 0xD2511F53"
definition kPhiloxMultiplier1 :: u32 where "kPhiloxMultiplier1 = 0xCD9E8D57"
definition kPhiloxWeyl0 :: u32 where "kPhiloxWeyl0 = 0x9E3779B9"
definition kPhiloxWeyl1 :: u32 where "kPhiloxWeyl1 = 0xBB67AE85"

definition multiply_high_low :: "u32 \<Rightarrow> u32 \<Rightarrow> u32 \<times> u32" where
  "multiply_high_low left right =
     (let product = (ucast left :: u64) * (ucast right :: u64)
      in (ucast product, ucast (drop_bit 32 product)))"

definition philox_round :: "philox_counter \<Rightarrow> philox_key \<Rightarrow> philox_counter" where
  "philox_round counter key =
     (case counter of (c0, c1, c2, c3) \<Rightarrow>
      case key of (k0, k1) \<Rightarrow>
      case multiply_high_low kPhiloxMultiplier0 c0 of (low0, high0) \<Rightarrow>
      case multiply_high_low kPhiloxMultiplier1 c2 of (low1, high1) \<Rightarrow>
        (high1 XOR c1 XOR k0, low1, high0 XOR c3 XOR k1, low0))"

fun philox_rounds :: "nat \<Rightarrow> philox_counter \<Rightarrow> philox_key \<Rightarrow> philox_counter" where
  "philox_rounds 0 counter key = counter"
| "philox_rounds (Suc n) counter key =
     philox_rounds n (philox_round counter key)
       (fst key + kPhiloxWeyl0, snd key + kPhiloxWeyl1)"

definition philox4x32_10 :: "philox_counter \<Rightarrow> philox_key \<Rightarrow> philox_counter" where
  "philox4x32_10 counter key = philox_rounds 10 counter key"

definition kMax24BitValue :: u32 where "kMax24BitValue = 0xFFFFFF"

definition pack_counter_v1 :: "u64 \<Rightarrow> u32 \<Rightarrow> u32 \<Rightarrow> u32 \<Rightarrow> philox_counter result" where
  "pack_counter_v1 scenario_id time_step dimension draw_index =
     (if kMaxScenarios \<le> scenario_id
      then Inl (Out_of_range ''scenario_id exceeds RNG layout v1's 40-bit field'')
      else if kMax24BitValue < time_step
      then Inl (Out_of_range ''time_step exceeds RNG layout v1's 24-bit field'')
      else if 0xFF < dimension
      then Inl (Out_of_range ''dimension exceeds RNG layout v1's 8-bit field'')
      else if kMax24BitValue < draw_index
      then Inl (Out_of_range ''draw_index exceeds RNG layout v1's 24-bit field'')
      else Inr (ucast scenario_id,
                ucast (drop_bit 32 scenario_id OR push_bit 8 (ucast time_step :: u64)),
                dimension OR push_bit 8 draw_index,
                0))"

definition random_u64 :: "u64 \<Rightarrow> u64 \<Rightarrow> u32 \<Rightarrow> u32 \<Rightarrow> u32 \<Rightarrow> u64 result" where
  "random_u64 seed scenario_id time_step dimension draw_index =
     rbind (pack_counter_v1 scenario_id time_step dimension draw_index) (\<lambda>counter.
       (let key = (ucast seed, ucast (drop_bit 32 seed))
        in case philox4x32_10 counter key of (w0, w1, w2, w3) \<Rightarrow>
             Inr (push_bit 32 (ucast w0 :: u64) OR ucast w1)))"

text \<open>\<^verbatim>\<open>0x1.0p-54\<close> and \<^verbatim>\<open>0x1.0p-53\<close>.\<close>

definition two_pow_m54 :: double where "two_pow_m54 = Double 0x3C90000000000000"
definition two_pow_m53 :: double where "two_pow_m53 = Double 0x3CA0000000000000"

definition uniform_from_words_v2 :: "u32 \<Rightarrow> u32 \<Rightarrow> double" where
  "uniform_from_words_v2 high_word low_word =
     (let raw = push_bit 32 (ucast high_word :: u64) OR ucast low_word;
          retained = drop_bit 11 raw
      in if retained = 0 then two_pow_m54 else fmul (of_u64 retained) two_pow_m53)"

definition uniform_open01 :: "u64 \<Rightarrow> u64 \<Rightarrow> u32 \<Rightarrow> u32 \<Rightarrow> u32 \<Rightarrow> double result" where
  "uniform_open01 seed scenario_id time_step dimension draw_index =
     rbind (random_u64 seed scenario_id time_step dimension draw_index) (\<lambda>raw.
       Inr (uniform_from_words_v2 (ucast (drop_bit 32 raw)) (ucast raw)))"

text \<open>Acklam's coefficients \<^verbatim>\<open>a1..a6\<close>, \<^verbatim>\<open>b1..b5\<close>, \<^verbatim>\<open>c1..c6\<close>, \<^verbatim>\<open>d1..d4\<close>, and the Horner
  scheme of the source, which starts from the first coefficient.\<close>

definition acklam_a :: "double list" where
  "acklam_a = [Double 0xC043D931BC1E0525, Double 0x406B9E467034039B, Double 0xC0713EDB2DC53B99, Double 0x40614B72B40B401B, Double 0xC03EAA3034C08BCD, Double 0x40040D9320575479]"

definition acklam_b :: "double list" where
  "acklam_b = [Double 0xC04B3CF0CE3004C4, Double 0x406432BF2CF04277, Double 0xC063765E0B02D8D2, Double 0x4050B348B1A7E9BE, Double 0xC02A8FB57E147826]"

definition acklam_c :: "double list" where
  "acklam_c = [Double 0xBF7FE30D924ACFE0, Double 0xBFD4A224C0E881B8, Double 0xC00334C0C1701758, Double 0xC00465DA2C703A1A, Double 0x40117FA7F4EA4DC7, Double 0x4007815C1E3FCFA2]"

definition acklam_d :: "double list" where
  "acklam_d = [Double 0x3F7FE2D857AC9FD4, Double 0x3FD4A34D2B590364, Double 0x40038FA27C8AE616, Double 0x400E09076895B119]"

definition low_tail :: double where
  "low_tail = Double 0x3F98D4FDF3B645A2"  \<comment> \<open>0.02425\<close>

definition half64 :: double where
  "half64 = Double 0x3FE0000000000000"

definition minus_two64 :: double where
  "minus_two64 = Double 0xC000000000000000"

definition horner :: "double list \<Rightarrow> double \<Rightarrow> double" where
  "horner cs q = foldl (\<lambda>acc c. fadd (fmul acc q) c) (hd cs) (tl cs)"

definition inverse_normal_cdf :: "libm \<Rightarrow> double \<Rightarrow> double result" where
  "inverse_normal_cdf L probability =
     (if \<not> (flt zero64 probability \<and> flt probability one64)
      then Inl (Domain_error ''inverse_normal_cdf requires probability in (0, 1)'')
      else if flt probability low_tail
      then (let q = fsqrt (fmul minus_two64 (m_log L probability))
            in Inr (fdiv (horner acklam_c q) (horner (acklam_d @ [one64]) q)))
      else if fle probability (fsub one64 low_tail)
      then (let q = fsub probability half64; r = fmul q q
            in Inr (fdiv (fmul (horner acklam_a r) q) (horner (acklam_b @ [one64]) r)))
      else (let q = fsqrt (fmul minus_two64 (m_log L (fsub one64 probability)))
            in Inr (fdiv (fneg (horner acklam_c q)) (horner (acklam_d @ [one64]) q))))"

definition standard_normal :: "libm \<Rightarrow> u64 \<Rightarrow> u64 \<Rightarrow> u32 \<Rightarrow> u32 \<Rightarrow> u32 \<Rightarrow> double result" where
  "standard_normal L seed scenario_id time_step dimension draw_index =
     rbind (uniform_open01 seed scenario_id time_step dimension draw_index) (inverse_normal_cdf L)"

section \<open>Philox is a permutation of its counters\<close>

lemma multiply_low: "fst (multiply_high_low a b) = a * b"
proof -
  have "(ucast ((ucast a :: u64) * (ucast b :: u64)) :: u32) = a * b"
    by (transfer, simp add: take_bit_mult)
  then show ?thesis by (simp add: multiply_high_low_def Let_def)
qed

lemma mult_inverse_inj:
  fixes m :: u32
  assumes "minv * m = 1" and "m * a = m * b"
  shows "a = b"
proof -
  have "minv * (m * a) = minv * (m * b)" using assms(2) by simp
  then show ?thesis using assms(1) by (simp flip: mult.assoc)
qed

lemma multiplier0_inj: "kPhiloxMultiplier0 * a = kPhiloxMultiplier0 * b \<Longrightarrow> a = b"
  by (erule mult_inverse_inj [of "0x991A7CDB", rotated]) (simp add: kPhiloxMultiplier0_def)

lemma multiplier1_inj: "kPhiloxMultiplier1 * a = kPhiloxMultiplier1 * b \<Longrightarrow> a = b"
  by (erule mult_inverse_inj [of "0x6D7CAE67", rotated]) (simp add: kPhiloxMultiplier1_def)

lemma xor_cancel: "h XOR a XOR k = h XOR b XOR k \<longleftrightarrow> a = (b :: u32)"
  by (auto simp: bit_eq_iff bit_xor_iff)

lemma philox_round_inj:
  assumes "philox_round c key = philox_round c' key"
  shows "c = c'"
proof -
  obtain c0 c1 c2 c3 where c: "c = (c0, c1, c2, c3)" by (cases c)
  obtain c0' c1' c2' c3' where c': "c' = (c0', c1', c2', c3')" by (cases c')
  obtain k0 k1 where key: "key = (k0, k1)" by (cases key)
  let ?l0 = "\<lambda>x. fst (multiply_high_low kPhiloxMultiplier0 x)"
  let ?h0 = "\<lambda>x. snd (multiply_high_low kPhiloxMultiplier0 x)"
  let ?l1 = "\<lambda>x. fst (multiply_high_low kPhiloxMultiplier1 x)"
  let ?h1 = "\<lambda>x. snd (multiply_high_low kPhiloxMultiplier1 x)"
  have eqs: "?h1 c2 XOR c1 XOR k0 = ?h1 c2' XOR c1' XOR k0" "?l1 c2 = ?l1 c2'"
    "?h0 c0 XOR c3 XOR k1 = ?h0 c0' XOR c3' XOR k1" "?l0 c0 = ?l0 c0'"
    using assms by (simp_all add: c c' key philox_round_def split_beta)
  have "c2 = c2'" using eqs(2) by (simp add: multiply_low multiplier1_inj)
  moreover have "c0 = c0'" using eqs(4) by (simp add: multiply_low multiplier0_inj)
  ultimately have "c1 = c1'" "c3 = c3'"
    using eqs(1,3) by (simp_all add: xor_cancel)
  with \<open>c2 = c2'\<close> \<open>c0 = c0'\<close> show ?thesis by (simp add: c c')
qed

lemma philox_rounds_inj: "philox_rounds n c key = philox_rounds n c' key \<Longrightarrow> c = c'"
proof (induction n arbitrary: c c' key)
  case 0
  then show ?case by simp
next
  case (Suc n)
  then have "philox_round c key = philox_round c' key" by (simp only: philox_rounds.simps)
  then show ?case by (rule philox_round_inj)
qed

section \<open>The counter layout separates the logical coordinates\<close>

lemma not_bit_above:
  fixes w :: "'a::len word"
  assumes "unat w < 2 ^ k" "k \<le> n"
  shows "\<not> bit w n"
proof -
  have "(2::nat) ^ k \<le> 2 ^ n" using assms(2) by (simp add: power_increasing)
  then have "unat w < 2 ^ n" using assms(1) by linarith
  then have "unat w div 2 ^ n = 0" by simp
  then have "\<not> bit (unat w) n" by (simp add: bit_iff_odd)
  then show ?thesis by (simp add: bit_unsigned_iff bit_imp_le_length)
qed

lemma pack_counter_v1_Inr:
  assumes "pack_counter_v1 scenario_id time_step dimension draw_index = Inr c"
  shows "unat scenario_id < 2 ^ 40" "unat time_step < 2 ^ 24" "unat dimension < 2 ^ 8"
    "unat draw_index < 2 ^ 24"
    "c = (ucast scenario_id,
          ucast (drop_bit 32 scenario_id OR push_bit 8 (ucast time_step :: u64)),
          dimension OR push_bit 8 draw_index, 0)"
  using assms
  by (auto simp: pack_counter_v1_def kMaxScenarios_def kMax24BitValue_def word_le_nat_alt
      word_less_nat_alt split: if_splits)

lemma pack_counter_v1_bits:
  assumes "pack_counter_v1 s t d i = Inr (c0, c1, c2, c3)"
  shows "\<And>n. bit s n \<longleftrightarrow> (if n < 32 then bit c0 n else n < 40 \<and> bit c1 (n - 32))"
    "\<And>n. bit t n \<longleftrightarrow> n < 24 \<and> bit c1 (n + 8)"
    "\<And>n. bit d n \<longleftrightarrow> n < 8 \<and> bit c2 n"
    "\<And>n. bit i n \<longleftrightarrow> n < 24 \<and> bit c2 (n + 8)"
proof -
  note b = pack_counter_v1_Inr [OF assms]
  note ns = not_bit_above [OF b(1)] and nt = not_bit_above [OF b(2)]
    and nd = not_bit_above [OF b(3)] and ni = not_bit_above [OF b(4)]
  have c: "c0 = ucast s" "c1 = ucast (drop_bit 32 s OR push_bit 8 (ucast t :: u64))"
    "c2 = d OR push_bit 8 i"
    using b(5) by auto
  show "bit s n \<longleftrightarrow> (if n < 32 then bit c0 n else n < 40 \<and> bit c1 (n - 32))" for n
    using ns [of n]
    by (cases "n < 40") (auto simp: c bit_ucast_iff bit_or_iff bit_drop_bit_eq bit_push_bit_iff)
  show "bit t n \<longleftrightarrow> n < 24 \<and> bit c1 (n + 8)" for n
    using nt [of n] ns [of "n + 40"]
    by (cases "n < 24")
      (auto simp: c bit_ucast_iff bit_or_iff bit_drop_bit_eq bit_push_bit_iff add.commute)
  show "bit d n \<longleftrightarrow> n < 8 \<and> bit c2 n" for n
    using nd [of n] by (cases "n < 8") (auto simp: c bit_or_iff bit_push_bit_iff)
  show "bit i n \<longleftrightarrow> n < 24 \<and> bit c2 (n + 8)" for n
    using ni [of n] nd [of "n + 8"]
    by (cases "n < 24") (auto simp: c bit_or_iff bit_push_bit_iff)
qed

lemma pack_counter_v1_inj:
  assumes "pack_counter_v1 s t d i = Inr c" "pack_counter_v1 s' t' d' i' = Inr c"
  shows "s = s' \<and> t = t' \<and> d = d' \<and> i = i'"
proof -
  obtain c0 c1 c2 c3 where c: "c = (c0, c1, c2, c3)" by (cases c)
  note b = pack_counter_v1_bits [OF assms(1) [unfolded c]]
    and b' = pack_counter_v1_bits [OF assms(2) [unfolded c]]
  show ?thesis
    using b b' by (simp add: bit_eq_iff)
qed

section \<open>The uniform conversion is exact and stays inside the open unit interval\<close>

lemma of_u64_exact:
  assumes "unat n < 2 ^ 53"
  shows "mag_units (mag (of_u64 n)) = unat n * unit_scale" "\<not> signbit (of_u64 n)"
proof -
  obtain k where k: "mag_units k = unat n * unit_scale"
    using scaled_representable [OF assms, of 1074] by (auto simp: unit_scale_def)
  have R: "round_units (unat n * unit_scale) 1 = min inf_pattern k"
    using round_units_exact [of 1 k] by (simp add: k)
  moreover have "round_units (unat n * unit_scale) 1 < inf_pattern"
    using of_u64_bounds(1) [of n] by (simp add: of_u64_def isfinite_def)
  ultimately have "of_u64 n = mk_double False k" "k < inf_pattern"
    by (auto simp: of_u64_def min_def split: if_splits)
  then show "mag_units (mag (of_u64 n)) = unat n * unit_scale" "\<not> signbit (of_u64 n)"
    using k by simp_all
qed

lemma uniform_exact_units:
  assumes "0 < unat r" "unat r < 2 ^ 53"
  shows "isfinite (fmul (of_u64 r) two_pow_m53)"
    "units (fmul (of_u64 r) two_pow_m53) = int (unat r) * 2 ^ 1021"
proof -
  have h: "mag two_pow_m53 = 0x3CA0000000000000" "\<not> signbit two_pow_m53"
    by (simp_all add: two_pow_m53_def mag_def signbit_def)
  then have u: "mag_units (mag two_pow_m53) = 2 ^ 1021"
    by (simp add: mag_units_def mag_shift_def)
  obtain k where k: "mag_units k = unat r * 2 ^ 1021"
    using scaled_representable [OF assms(2), of 1021] by blast
  have "mag_units k < 2 ^ 53 * 2 ^ 1021"
    unfolding k using assms(2) by (intro mult_strict_right_mono) auto
  also have "(2::nat) ^ 53 * 2 ^ 1021 = mag_units 0x3FF0000000000000"
    by (simp add: mag_units_def mag_shift_def)
  finally have kb: "k < 0x3FF0000000000000" by (simp only: mag_units_less_iff)
  have "mag_units (mag (of_u64 r)) * mag_units (mag two_pow_m53) = mag_units k * unit_scale"
    by (simp only: of_u64_exact [OF assms(2)] u k ac_simps)
  then have "round_units (mag_units (mag (of_u64 r)) * mag_units (mag two_pow_m53)) unit_scale = k"
    using kb by (simp add: round_units_exact)
  moreover have "isfinite two_pow_m53" using h by (simp add: isfinite_def)
  ultimately have f: "fmul (of_u64 r) two_pow_m53 = mk_double False k"
    using of_u64_exact [OF assms(2)] of_u64_bounds(1) [of r] h by (simp add: fmul_def)
  show "isfinite (fmul (of_u64 r) two_pow_m53)"
    using kb unfolding f by (simp add: isfinite_def)
  show "units (fmul (of_u64 r) two_pow_m53) = int (unat r) * 2 ^ 1021"
    using kb unfolding f by (simp add: units_mk_double k)
qed

definition retained_bits :: "u32 \<Rightarrow> u32 \<Rightarrow> u64" where
  "retained_bits high_word low_word = drop_bit 11 (push_bit 32 (ucast high_word :: u64) OR ucast low_word)"

lemma retained_bits_bound: "unat (retained_bits h l) < 2 ^ 53"
proof -
  have "unat (drop_bit 11 w) < 2 ^ 53" for w :: u64
  proof -
    have "unat (drop_bit 11 w) = unat w div 2 ^ 11"
      by (simp add: drop_bit_eq_div unat_div)
    also have "\<dots> < 2 ^ 53"
      using unat_less_2_64 [of w] by (simp add: div_less_iff_less_mult)
    finally show ?thesis .
  qed
  then show ?thesis unfolding retained_bits_def .
qed

lemma uniform_units:
  "units (uniform_from_words_v2 h l) =
     (if retained_bits h l = 0 then 2 ^ 1020 else int (unat (retained_bits h l)) * 2 ^ 1021)"
  "isfinite (uniform_from_words_v2 h l)"
proof -
  let ?r = "retained_bits h l"
  have u: "uniform_from_words_v2 h l = (if ?r = 0 then two_pow_m54 else fmul (of_u64 ?r) two_pow_m53)"
    by (simp add: uniform_from_words_v2_def retained_bits_def Let_def)
  have "mag two_pow_m54 = 0x3C90000000000000" "\<not> signbit two_pow_m54"
    by (simp_all add: two_pow_m54_def mag_def signbit_def)
  then have z: "units two_pow_m54 = 2 ^ 1020" "isfinite two_pow_m54"
    by (simp_all add: units_def mag_units_def mag_shift_def isfinite_def)
  have nz: "?r \<noteq> 0 \<Longrightarrow> 0 < unat ?r" by (simp add: unat_gt_0)
  show "units (uniform_from_words_v2 h l) =
     (if ?r = 0 then 2 ^ 1020 else int (unat ?r) * 2 ^ 1021)"
    using z(1) uniform_exact_units(2) [OF nz retained_bits_bound] unfolding u by presburger
  show "isfinite (uniform_from_words_v2 h l)"
    using z(2) uniform_exact_units(1) [OF nz retained_bits_bound] unfolding u by presburger
qed

lemma val_units: "val d * real unit_scale = real_of_int (units d)"
  using unit_scale_pos by (simp add: val_def)

text \<open>Every draw at coordinates inside the layout succeeds, so the model's exceptions are exactly
  the range checks.\<close>

lemma pack_counter_v1_total:
  "unat s < 2 ^ 40 \<Longrightarrow> unat t < 2 ^ 24 \<Longrightarrow> unat d < 2 ^ 8 \<Longrightarrow> unat i < 2 ^ 24 \<Longrightarrow>
     \<exists>c. pack_counter_v1 s t d i = Inr c"
  by (auto simp: pack_counter_v1_def kMaxScenarios_def kMax24BitValue_def word_le_nat_alt
      word_less_nat_alt)

section \<open>Properties\<close>

text \<open>The published Random123 vector for the zero counter and key.\<close>

lemma philox_known_answer:
  "philox4x32_10 (0, 0, 0, 0) (0, 0) = (0x6627E8D5, 0xE169C58D, 0xBC57AC4C, 0x9B00DBD8)"
  by code_simp

text \<open>C19. Streams never overlap: for a fixed seed, the 128-bit Philox outputs of two draws whose
  coordinates fit the v1 layout are equal only when the scenario, the time step, the dimension and
  the draw index are all equal.\<close>

theorem philox_streams_disjoint:
  assumes "pack_counter_v1 s t d i = Inr c" "pack_counter_v1 s' t' d' i' = Inr c'"
    and "philox4x32_10 c key = philox4x32_10 c' key"
  shows "s = s' \<and> t = t' \<and> d = d' \<and> i = i'"
proof -
  have "c = c'" using assms(3) unfolding philox4x32_10_def by (rule philox_rounds_inj)
  then show ?thesis using assms(1,2) pack_counter_v1_inj by blast
qed

theorem philox_streams_disjoint_witness:
  "\<exists>c. pack_counter_v1 5 1 0 0 = Inr c \<and> (5 :: u64) = 5 \<and> (1 :: u32) = 1"
proof -
  obtain c where c: "pack_counter_v1 5 1 0 0 = Inr c"
    using pack_counter_v1_total [of 5 1 0 0] by auto
  from philox_streams_disjoint [OF c c refl] c show ?thesis by blast
qed

text \<open>C20. The uniform conversion of RNG version 2 is exact and open: the result is the retained
  53-bit integer divided by \<open>2\<^sup>5\<^sup>3\<close>, the half bin \<open>2\<^sup>-\<^sup>5\<^sup>4\<close> when that integer is zero, and always a
  finite number strictly between 0 and 1.\<close>

theorem uniform_open_interval:
  "val (uniform_from_words_v2 h l) =
     (if retained_bits h l = 0 then 1 / 2 ^ 54 else real (unat (retained_bits h l)) / 2 ^ 53)
   \<and> isfinite (uniform_from_words_v2 h l)
   \<and> 0 < val (uniform_from_words_v2 h l) \<and> val (uniform_from_words_v2 h l) < 1"
proof -
  let ?u = "uniform_from_words_v2 h l" and ?r = "retained_bits h l"
  have s: "real unit_scale = 2 ^ 1074" by (simp add: unit_scale_def)
  have v: "val ?u = (if ?r = 0 then 1 / 2 ^ 54 else real (unat ?r) / 2 ^ 53)"
  proof (cases "?r = 0")
    case True
    have "val ?u = 2 ^ 1020 / 2 ^ 1074"
      unfolding val_def s uniform_units(1) using True by simp
    then show ?thesis using True by simp
  next
    case False
    have "val ?u = real (unat ?r) * 2 ^ 1021 / 2 ^ 1074"
      unfolding val_def s uniform_units(1) using False by simp
    then show ?thesis using False by simp
  qed
  have "real (unat ?r) < 2 ^ 53"
    using retained_bits_bound [of h l] by (metis of_nat_less_iff of_nat_numeral of_nat_power)
  moreover have "?r \<noteq> 0 \<Longrightarrow> 0 < real (unat ?r)"
    using unat_gt_0 of_nat_0_less_iff by metis
  ultimately show ?thesis
    using v uniform_units(2) [of h l] by (auto simp: field_simps)
qed

end
