(* ===== verification/Model_Kernels.thy ===== *)
theory Model_Kernels
  imports Philox_Rng
begin

text \<open>
  The path kernels (\<^verbatim>\<open>include/mc/model.hpp\<close>, \<^verbatim>\<open>src/models/gbm.cpp\<close>, \<^verbatim>\<open>src/models/heston.cpp\<close>):
  geometric Brownian motion, full-truncation Euler for Heston, the payoffs, the
  antithetic pairs and the dispatch between the two models.  The theorems show that
  every payoff a kernel returns is finite and nonnegative, and that the fused
  antithetic pair computes exactly what two separate paths compute.
\<close>

section \<open>Geometric Brownian motion\<close>

record gbm_kernel =
  gbm_spec :: run_spec
  drift_per_step :: double
  diffusion_per_step :: double
  gbm_discount :: double

definition make_gbm_kernel :: "libm \<Rightarrow> run_spec \<Rightarrow> gbm_kernel result" where
  "make_gbm_kernel L spec =
     rbind (validate_run_spec spec) (\<lambda>_.
       if spec_model_type spec \<noteq> Gbm
       then Inl (Invalid_argument ''GBM kernel requires a GBM run specification'')
       else
         (let dt = fdiv (maturity spec) (of_u32 (num_time_steps spec));
              drift = fmul (fsub (rate spec) (fmul (fmul half64 (volatility spec)) (volatility spec))) dt;
              diffusion = fmul (volatility spec) (fsqrt dt);
              discount = m_exp L (fmul (fneg (rate spec)) (maturity spec))
          in if \<not> isfinite dt \<or> \<not> isfinite drift \<or> \<not> isfinite diffusion \<or>
                \<not> isfinite discount \<or> fle discount zero64
             then Inl (Invalid_argument
               ''GBM parameters produce non-finite or underflowed derived constants'')
             else Inr \<lparr>gbm_spec = spec, drift_per_step = drift, diffusion_per_step = diffusion,
                       gbm_discount = discount\<rparr>))"

definition gbm_payoff_from_path :: "gbm_kernel \<Rightarrow> double \<Rightarrow> double \<Rightarrow> double result" where
  "gbm_payoff_from_path k terminal_price running_sum =
     (case spec_payoff_type (gbm_spec k) of
        EuropeanCall \<Rightarrow> Inr (fmax (fsub terminal_price (strike (gbm_spec k))) zero64)
      | AsianCall \<Rightarrow>
          (let average = fdiv running_sum (of_u32 (num_time_steps (gbm_spec k)))
           in Inr (fmax (fsub average (strike (gbm_spec k))) zero64))
      | Unknown_payoff b \<Rightarrow> Inl (Logic_error ''unreachable payoff type''))"

text \<open>\<^verbatim>\<open>", step "\<close> and the coordinates that the numerical errors report.\<close>

definition at_coordinates :: "string \<Rightarrow> u64 \<Rightarrow> nat \<Rightarrow> exn" where
  "at_coordinates message scenario_id step =
     Domain_error (message @ '' at scenario '' @ decimal (unat scenario_id) @ '', step '' @ decimal step)"

text \<open>One iteration of the loop of \<^verbatim>\<open>GbmKernel::discounted_payoff\<close>.\<close>

definition gbm_step :: "libm \<Rightarrow> gbm_kernel \<Rightarrow> u64 \<Rightarrow> nat \<Rightarrow> double \<times> double \<Rightarrow> (double \<times> double) result" where
  "gbm_step L k scenario_id step st =
     (case st of (price, running_sum) \<Rightarrow>
      let spec = gbm_spec k;
          random_scenario = (if antithetic spec then scenario_id AND NOT 1 else scenario_id)
      in rbind (standard_normal L (global_seed spec) random_scenario (of_nat step) 0 0) (\<lambda>z.
        let normal = (if antithetic spec \<and> scenario_id mod 2 \<noteq> 0 then fneg z else z);
            exponent = fadd (drift_per_step k) (fmul (diffusion_per_step k) normal);
            next_price = fmul price (m_exp L exponent)
        in if \<not> isfinite exponent \<or> \<not> isfinite next_price \<or> fle next_price zero64
           then Inl (at_coordinates ''GBM path became numerically invalid'' scenario_id step)
           else if \<not> isfinite (fadd running_sum next_price)
           then Inl (at_coordinates ''GBM running sum overflowed'' scenario_id step)
           else Inr (next_price, fadd running_sum next_price)))"

definition gbm_discounted_payoff :: "libm \<Rightarrow> gbm_kernel \<Rightarrow> u64 \<Rightarrow> double result" where
  "gbm_discounted_payoff L k scenario_id =
     (if total_scenarios (gbm_spec k) \<le> scenario_id
      then Inl (Out_of_range ''scenario_id is outside the run specification'')
      else
        rbind (fold_result (gbm_step L k scenario_id) [0..<unat (num_time_steps (gbm_spec k))]
                 (spot (gbm_spec k), zero64)) (\<lambda>(price, running_sum).
        rbind (gbm_payoff_from_path k price running_sum) (\<lambda>payoff.
          let discounted = fmul (gbm_discount k) payoff
          in if \<not> isfinite discounted
             then Inl (Domain_error ''GBM simulation produced a non-finite payoff'')
             else Inr discounted)))"

text \<open>One iteration of the fused loop: both members of the pair from one normal.\<close>

definition gbm_pair_step ::
  "libm \<Rightarrow> gbm_kernel \<Rightarrow> u64 \<Rightarrow> nat \<Rightarrow> (double \<times> double) \<times> (double \<times> double)
     \<Rightarrow> ((double \<times> double) \<times> (double \<times> double)) result" where
  "gbm_pair_step L k scenario step st =
     (case st of ((positive_price, positive_sum), (negative_price, negative_sum)) \<Rightarrow>
      rbind (standard_normal L (global_seed (gbm_spec k)) scenario (of_nat step) 0 0) (\<lambda>normal.
        let positive_exponent = fadd (drift_per_step k) (fmul (diffusion_per_step k) normal);
            negative_exponent = fadd (drift_per_step k) (fmul (diffusion_per_step k) (fneg normal));
            next_positive = fmul positive_price (m_exp L positive_exponent);
            next_negative = fmul negative_price (m_exp L negative_exponent)
        in if \<not> isfinite positive_exponent \<or> \<not> isfinite negative_exponent \<or>
              \<not> isfinite next_positive \<or> \<not> isfinite next_negative \<or>
              fle next_positive zero64 \<or> fle next_negative zero64
           then Inl (at_coordinates ''antithetic GBM path became numerically invalid'' scenario step)
           else if \<not> isfinite (fadd positive_sum next_positive) \<or>
                   \<not> isfinite (fadd negative_sum next_negative)
           then Inl (at_coordinates ''antithetic GBM running sum overflowed'' scenario step)
           else Inr ((next_positive, fadd positive_sum next_positive),
                     (next_negative, fadd negative_sum next_negative))))"

definition gbm_antithetic_pair_mean :: "libm \<Rightarrow> gbm_kernel \<Rightarrow> u64 \<Rightarrow> double result" where
  "gbm_antithetic_pair_mean L k even_scenario_id =
     (let spec = gbm_spec k
      in if \<not> antithetic spec then Inl (Logic_error ''antithetic pair requested for a plain run'')
         else if even_scenario_id mod 2 \<noteq> 0 \<or> total_scenarios spec \<le> even_scenario_id + 1
         then Inl (Out_of_range ''antithetic pair must start at a valid even scenario'')
         else
           rbind (fold_result (gbm_pair_step L k even_scenario_id) [0..<unat (num_time_steps spec)]
                    ((spot spec, zero64), (spot spec, zero64)))
             (\<lambda>((positive_price, positive_sum), (negative_price, negative_sum)).
           rbind (gbm_payoff_from_path k positive_price positive_sum) (\<lambda>positive_payoff.
           rbind (gbm_payoff_from_path k negative_price negative_sum) (\<lambda>negative_payoff.
             let positive = fmul (gbm_discount k) positive_payoff;
                 negative = fmul (gbm_discount k) negative_payoff;
                 pair_mean = fmul half64 (fadd positive negative)
             in if \<not> isfinite pair_mean
                then Inl (Domain_error ''GBM simulation produced a non-finite pair mean'')
                else Inr pair_mean))))"

definition normal_cdf :: "libm \<Rightarrow> double \<Rightarrow> double" where
  "normal_cdf L v = fmul half64 (m_erfc L (fdiv (fneg v) (fsqrt two64f)))"

definition black_scholes_call_price ::
  "libm \<Rightarrow> double \<Rightarrow> double \<Rightarrow> double \<Rightarrow> double \<Rightarrow> double \<Rightarrow> double result" where
  "black_scholes_call_price L s0 k0 r vol mat =
     (if \<not> isfinite s0 \<or> \<not> isfinite k0 \<or> \<not> isfinite r \<or> \<not> isfinite vol \<or>
         \<not> isfinite mat \<or>
         \<not> (flt zero64 s0 \<and> flt zero64 k0 \<and> flt zero64 vol \<and> flt zero64 mat)
      then Inl (Invalid_argument
        ''Black-Scholes inputs must be finite and required values positive'')
      else
        (let scaled_volatility = fmul vol (fsqrt mat);
             d1 = fdiv (fadd (m_log L (fdiv s0 k0))
                             (fmul (fadd r (fmul (fmul half64 vol) vol)) mat))
                       scaled_volatility;
             d2 = fsub d1 scaled_volatility;
             res = fsub (fmul s0 (normal_cdf L d1))
                        (fmul (fmul k0 (m_exp L (fmul (fneg r) mat))) (normal_cdf L d2))
         in if \<not> isfinite res
            then Inl (Domain_error ''Black-Scholes calculation produced a non-finite price'')
            else Inr res))"

section \<open>Heston\<close>

record heston_kernel =
  heston_spec :: run_spec
  hk_dt :: double
  hk_sqrt_dt :: double
  rate_dt :: double
  mean_reversion_dt :: double
  volatility_of_variance_sqrt_dt :: double
  orthogonal_weight :: double
  heston_discount :: double

text \<open>\<^verbatim>\<open>*spec_.heston\<close>; a validated Heston specification always carries parameters.\<close>

definition heston_parameters :: "run_spec \<Rightarrow> heston_params" where
  "heston_parameters spec = the (heston spec)"

definition make_heston_kernel :: "libm \<Rightarrow> run_spec \<Rightarrow> heston_kernel result" where
  "make_heston_kernel L spec =
     rbind (validate_run_spec spec) (\<lambda>_.
       if spec_model_type spec \<noteq> Heston
       then Inl (Invalid_argument ''Heston kernel requires a Heston run specification'')
       else
         (let p = heston_parameters spec;
              dt = fdiv (maturity spec) (of_u32 (num_time_steps spec));
              sqrt_dt = fsqrt dt;
              r_dt = fmul (rate spec) dt;
              reversion_dt = fmul (mean_reversion_rate p) dt;
              vov_sqrt_dt = fmul (volatility_of_variance p) sqrt_dt;
              rho = correlation p;
              weight = fsqrt (fmax zero64 (fsub one64 (fmul rho rho)));
              discount = m_exp L (fmul (fneg (rate spec)) (maturity spec))
          in if \<not> isfinite dt \<or> fle dt zero64 \<or> \<not> isfinite sqrt_dt \<or> fle sqrt_dt zero64 \<or>
                \<not> isfinite r_dt \<or> \<not> isfinite reversion_dt \<or> \<not> isfinite vov_sqrt_dt \<or>
                \<not> isfinite (fmul reversion_dt (long_run_variance p)) \<or>
                \<not> isfinite (fmul (initial_variance p) dt) \<or>
                \<not> isfinite (fmul (fsqrt (initial_variance p)) sqrt_dt) \<or>
                \<not> isfinite (fmul (long_run_variance p) dt) \<or> \<not> isfinite weight \<or>
                \<not> isfinite discount \<or> fle discount zero64
             then Inl (Invalid_argument ''Heston parameters produce invalid derived constants'')
             else Inr \<lparr>heston_spec = spec, hk_dt = dt, hk_sqrt_dt = sqrt_dt, rate_dt = r_dt,
                       mean_reversion_dt = reversion_dt,
                       volatility_of_variance_sqrt_dt = vov_sqrt_dt,
                       orthogonal_weight = weight, heston_discount = discount\<rparr>))"

definition heston_payoff_from_path :: "heston_kernel \<Rightarrow> double \<Rightarrow> double \<Rightarrow> double result" where
  "heston_payoff_from_path k terminal_price running_sum =
     (case spec_payoff_type (heston_spec k) of
        EuropeanCall \<Rightarrow> Inr (fmax (fsub terminal_price (strike (heston_spec k))) zero64)
      | AsianCall \<Rightarrow>
          (let average = fdiv running_sum (of_u32 (num_time_steps (heston_spec k)))
           in Inr (fmax (fsub average (strike (heston_spec k))) zero64))
      | Unknown_payoff b \<Rightarrow> Inl (Logic_error ''unreachable payoff type''))"

text \<open>The state of a path: price, variance, running sum.\<close>

definition heston_step ::
  "libm \<Rightarrow> heston_kernel \<Rightarrow> u64 \<Rightarrow> double \<Rightarrow> nat \<Rightarrow> double \<times> double \<times> double
     \<Rightarrow> (double \<times> double \<times> double) result" where
  "heston_step L k scenario shock_sign step st =
     (case st of (price, variance, running_sum) \<Rightarrow>
      let spec = heston_spec k; p = heston_parameters spec
      in rbind (standard_normal L (global_seed spec) scenario (of_nat step) 0 0) (\<lambda>z_asset.
         rbind (standard_normal L (global_seed spec) scenario (of_nat step) 1 0) (\<lambda>z_orthogonal.
           let asset_shock = fmul shock_sign z_asset;
               variance_shock = fmul shock_sign
                 (fadd (fmul (correlation p) z_asset) (fmul (orthogonal_weight k) z_orthogonal));
               positive_variance = fmax variance zero64;
               sqrt_variance = fsqrt positive_variance;
               exponent = fadd (fsub (rate_dt k) (fmul (fmul half64 positive_variance) (hk_dt k)))
                               (fmul (fmul sqrt_variance (hk_sqrt_dt k)) asset_shock);
               next_price = fmul price (m_exp L exponent);
               next_variance =
                 fadd (fadd variance
                        (fmul (mean_reversion_dt k) (fsub (long_run_variance p) positive_variance)))
                      (fmul (fmul (volatility_of_variance_sqrt_dt k) sqrt_variance) variance_shock)
           in if \<not> isfinite exponent \<or> \<not> isfinite next_price \<or> fle next_price zero64 \<or>
                 \<not> isfinite next_variance
              then Inl (at_coordinates ''Heston path became numerically invalid'' scenario step)
              else if \<not> isfinite (fadd running_sum next_price)
              then Inl (at_coordinates ''Heston running sum overflowed'' scenario step)
              else Inr (next_price, next_variance, fadd running_sum next_price))))"

definition heston_discounted_payoff_with_sign ::
  "libm \<Rightarrow> heston_kernel \<Rightarrow> u64 \<Rightarrow> double \<Rightarrow> double result" where
  "heston_discounted_payoff_with_sign L k random_scenario_id shock_sign =
     (let spec = heston_spec k; p = heston_parameters spec
      in rbind (fold_result (heston_step L k random_scenario_id shock_sign)
                  [0..<unat (num_time_steps spec)] (spot spec, initial_variance p, zero64))
           (\<lambda>(price, variance, running_sum).
         rbind (heston_payoff_from_path k price running_sum) (\<lambda>payoff.
           let discounted = fmul (heston_discount k) payoff
           in if \<not> isfinite discounted
              then Inl (Domain_error ''Heston simulation produced a non-finite payoff'')
              else Inr discounted)))"

definition heston_discounted_payoff :: "libm \<Rightarrow> heston_kernel \<Rightarrow> u64 \<Rightarrow> double result" where
  "heston_discounted_payoff L k scenario_id =
     (let spec = heston_spec k
      in if total_scenarios spec \<le> scenario_id
         then Inl (Out_of_range ''scenario_id is outside the run specification'')
         else
           (let random_scenario = (if antithetic spec then scenario_id AND NOT 1 else scenario_id);
                sign = (if antithetic spec \<and> scenario_id mod 2 \<noteq> 0 then minus_one64 else one64)
            in heston_discounted_payoff_with_sign L k random_scenario sign))"

definition heston_pair_step ::
  "libm \<Rightarrow> heston_kernel \<Rightarrow> u64 \<Rightarrow> nat \<Rightarrow> (double \<times> double \<times> double) \<times> (double \<times> double \<times> double)
     \<Rightarrow> ((double \<times> double \<times> double) \<times> (double \<times> double \<times> double)) result" where
  "heston_pair_step L k scenario step st =
     (case st of ((positive_price, positive_variance, positive_sum),
                  (negative_price, negative_variance, negative_sum)) \<Rightarrow>
      let spec = heston_spec k; p = heston_parameters spec
      in rbind (standard_normal L (global_seed spec) scenario (of_nat step) 0 0) (\<lambda>z_asset.
         rbind (standard_normal L (global_seed spec) scenario (of_nat step) 1 0) (\<lambda>z_orthogonal.
           let correlated = fadd (fmul (correlation p) z_asset) (fmul (orthogonal_weight k) z_orthogonal);
               positive_v_plus = fmax positive_variance zero64;
               negative_v_plus = fmax negative_variance zero64;
               positive_sqrt_v = fsqrt positive_v_plus;
               negative_sqrt_v = fsqrt negative_v_plus;
               positive_exponent = fadd (fsub (rate_dt k) (fmul (fmul half64 positive_v_plus) (hk_dt k)))
                                        (fmul (fmul positive_sqrt_v (hk_sqrt_dt k)) z_asset);
               negative_exponent = fsub (fsub (rate_dt k) (fmul (fmul half64 negative_v_plus) (hk_dt k)))
                                        (fmul (fmul negative_sqrt_v (hk_sqrt_dt k)) z_asset);
               next_positive_price = fmul positive_price (m_exp L positive_exponent);
               next_negative_price = fmul negative_price (m_exp L negative_exponent);
               next_positive_variance =
                 fadd (fadd positive_variance
                        (fmul (mean_reversion_dt k) (fsub (long_run_variance p) positive_v_plus)))
                      (fmul (fmul (volatility_of_variance_sqrt_dt k) positive_sqrt_v) correlated);
               next_negative_variance =
                 fsub (fadd negative_variance
                        (fmul (mean_reversion_dt k) (fsub (long_run_variance p) negative_v_plus)))
                      (fmul (fmul (volatility_of_variance_sqrt_dt k) negative_sqrt_v) correlated)
           in if \<not> isfinite positive_exponent \<or> \<not> isfinite negative_exponent \<or>
                 \<not> isfinite next_positive_price \<or> \<not> isfinite next_negative_price \<or>
                 fle next_positive_price zero64 \<or> fle next_negative_price zero64 \<or>
                 \<not> isfinite next_positive_variance \<or> \<not> isfinite next_negative_variance
              then Inl (at_coordinates ''antithetic Heston path became numerically invalid'' scenario step)
              else if \<not> isfinite (fadd positive_sum next_positive_price) \<or>
                      \<not> isfinite (fadd negative_sum next_negative_price)
              then Inl (at_coordinates ''antithetic Heston running sum overflowed'' scenario step)
              else Inr ((next_positive_price, next_positive_variance, fadd positive_sum next_positive_price),
                        (next_negative_price, next_negative_variance,
                         fadd negative_sum next_negative_price)))))"

definition heston_antithetic_pair_mean :: "libm \<Rightarrow> heston_kernel \<Rightarrow> u64 \<Rightarrow> double result" where
  "heston_antithetic_pair_mean L k even_scenario_id =
     (let spec = heston_spec k; p = heston_parameters spec
      in if \<not> antithetic spec then Inl (Logic_error ''antithetic pair requested for a plain run'')
         else if even_scenario_id mod 2 \<noteq> 0 \<or> total_scenarios spec \<le> even_scenario_id + 1
         then Inl (Out_of_range ''antithetic pair must start at a valid even scenario'')
         else
           rbind (fold_result (heston_pair_step L k even_scenario_id) [0..<unat (num_time_steps spec)]
                    ((spot spec, initial_variance p, zero64), (spot spec, initial_variance p, zero64)))
             (\<lambda>((positive_price, positive_variance, positive_sum),
                (negative_price, negative_variance, negative_sum)).
           rbind (heston_payoff_from_path k positive_price positive_sum) (\<lambda>positive_payoff.
           rbind (heston_payoff_from_path k negative_price negative_sum) (\<lambda>negative_payoff.
             let positive = fmul (heston_discount k) positive_payoff;
                 negative = fmul (heston_discount k) negative_payoff;
                 pair_mean = fmul half64 (fadd positive negative)
             in if \<not> isfinite pair_mean
                then Inl (Domain_error ''Heston simulation produced a non-finite pair mean'')
                else Inr pair_mean))))"

section \<open>Dispatch\<close>

datatype model_kernel = GbmKernel gbm_kernel | HestonKernel heston_kernel

definition make_kernel :: "libm \<Rightarrow> run_spec \<Rightarrow> model_kernel result" where
  "make_kernel L spec =
     (case spec_model_type spec of
        Gbm \<Rightarrow> rbind (make_gbm_kernel L spec) (\<lambda>k. Inr (GbmKernel k))
      | Heston \<Rightarrow> rbind (make_heston_kernel L spec) (\<lambda>k. Inr (HestonKernel k))
      | Unknown_model b \<Rightarrow> Inl (Invalid_argument ''unsupported model type''))"

fun kernel_spec :: "model_kernel \<Rightarrow> run_spec" where
  "kernel_spec (GbmKernel k) = gbm_spec k"
| "kernel_spec (HestonKernel k) = heston_spec k"

fun kernel_discounted_payoff :: "libm \<Rightarrow> model_kernel \<Rightarrow> u64 \<Rightarrow> double result" where
  "kernel_discounted_payoff L (GbmKernel k) scenario_id = gbm_discounted_payoff L k scenario_id"
| "kernel_discounted_payoff L (HestonKernel k) scenario_id = heston_discounted_payoff L k scenario_id"

fun kernel_antithetic_pair_mean :: "libm \<Rightarrow> model_kernel \<Rightarrow> u64 \<Rightarrow> double result" where
  "kernel_antithetic_pair_mean L (GbmKernel k) s = gbm_antithetic_pair_mean L k s"
| "kernel_antithetic_pair_mean L (HestonKernel k) s = heston_antithetic_pair_mean L k s"

definition simulate_discounted_payoff :: "libm \<Rightarrow> run_spec \<Rightarrow> u64 \<Rightarrow> double result" where
  "simulate_discounted_payoff L spec scenario_id =
     rbind (make_kernel L spec) (\<lambda>k. kernel_discounted_payoff L k scenario_id)"

section \<open>Payoffs are finite and nonnegative\<close>

definition finite_nonneg :: "double \<Rightarrow> bool" where
  "finite_nonneg d \<longleftrightarrow> isfinite d \<and> 0 \<le> val d"

lemma fmul_commute: "fmul a b = fmul b a"
  by (cases "signbit a"; cases "signbit b") (auto simp: fmul_def Let_def mult.commute isinf_def)

lemma fsub_num: "\<not> isnan a \<Longrightarrow> isfinite b \<Longrightarrow> \<not> isnan (fsub a b)"
  using float_cases [of a] fsub_not_nan [of a b] by (cases "isfinite a") (auto simp: fsub_def fadd_def)

lemma fdiv_num: "isfinite a \<Longrightarrow> isfinite b \<Longrightarrow> 0 < ord64 b \<Longrightarrow> \<not> isnan (fdiv a b)"
  by simp

lemma unat_ucast_u32 [simp]: "unat (ucast (n :: u32) :: u64) = unat n"
  using unsigned_less [of n, where 'a = nat]
  by (simp add: unsigned_ucast_eq take_bit_nat_eq_self_iff)

lemma of_u32_u64: "of_u32 n = of_u64 (ucast n)"
  by (simp add: of_u32_def of_u64_def)

lemma of_u32_pos: "0 < unat n \<Longrightarrow> isfinite (of_u32 n) \<and> 0 < ord64 (of_u32 n)"
proof
  assume n: "0 < unat n"
  have "unat (ucast n :: u64) < 2 ^ 53"
    using unsigned_less [of n, where 'a = nat] by simp
  note e = of_u64_exact [OF this]
  show "isfinite (of_u32 n)" using of_u64_bounds(1) by (simp add: of_u32_u64)
  have "0 < mag_units (mag (of_u64 (ucast n)))" using n by (simp add: e)
  then show "0 < ord64 (of_u32 n)" using e(2) by (simp add: of_u32_u64 ord64_def)
qed

lemma call_payoff_nonneg:
  "\<not> isnan x \<Longrightarrow> isfinite k \<Longrightarrow> \<not> isnan (fmax (fsub x k) zero64) \<and> 0 \<le> ord64 (fmax (fsub x k) zero64)"
  using fsub_num [of x k] by (auto simp: fmax_def flt_def)

lemma discounted_nonneg:
  assumes "isfinite d" "0 < ord64 d" "\<not> isnan p" "0 \<le> ord64 p"
  shows "\<not> isnan (fmul d p) \<and> 0 \<le> ord64 (fmul d p)"
  using fmul_nonneg [of p d] assms by (simp add: fmul_commute)

lemma not_fle_zero: "isfinite d \<Longrightarrow> \<not> fle d zero64 \<longleftrightarrow> 0 < ord64 d"
  by (auto simp: fle_def)

definition gbm_ok :: "gbm_kernel \<Rightarrow> bool" where
  "gbm_ok k \<longleftrightarrow> valid_spec (gbm_spec k) \<and> isfinite (gbm_discount k) \<and> 0 < ord64 (gbm_discount k)"

definition heston_ok :: "heston_kernel \<Rightarrow> bool" where
  "heston_ok k \<longleftrightarrow> valid_spec (heston_spec k) \<and> isfinite (heston_discount k) \<and> 0 < ord64 (heston_discount k)"

lemma make_gbm_kernel_ok: "make_gbm_kernel L spec = Inr k \<Longrightarrow> gbm_ok k \<and> gbm_spec k = spec"
  by (auto simp: make_gbm_kernel_def Let_def gbm_ok_def valid_spec_def not_fle_zero split: if_splits)

lemma make_heston_kernel_ok: "make_heston_kernel L spec = Inr k \<Longrightarrow> heston_ok k \<and> heston_spec k = spec"
  by (auto simp: make_heston_kernel_def Let_def heston_ok_def valid_spec_def not_fle_zero split: if_splits)

lemma payoff_total:
  assumes "valid_spec spec" "isfinite x" "isfinite y"
  shows "\<exists>p. (case spec_payoff_type spec of
        EuropeanCall \<Rightarrow> Inr (fmax (fsub x (strike spec)) zero64)
      | AsianCall \<Rightarrow> Inr (fmax (fsub (fdiv y (of_u32 (num_time_steps spec))) (strike spec)) zero64)
      | Unknown_payoff b \<Rightarrow> Inl e) = Inr p \<and> \<not> isnan p \<and> 0 \<le> ord64 p"
  using valid_spec_types(1) [OF assms(1)] valid_spec_numbers(5) [OF assms(1)] assms
    of_u32_pos [OF valid_spec_bounds(3) [OF assms(1)]]
    call_payoff_nonneg [of x "strike spec"]
    call_payoff_nonneg [of "fdiv y (of_u32 (num_time_steps spec))" "strike spec"]
    fdiv_num [of y "of_u32 (num_time_steps spec)"]
  by auto

lemma gbm_payoff_total:
  "gbm_ok k \<Longrightarrow> isfinite x \<Longrightarrow> isfinite y \<Longrightarrow>
     \<exists>p. gbm_payoff_from_path k x y = Inr p \<and> \<not> isnan p \<and> 0 \<le> ord64 p"
  unfolding gbm_payoff_from_path_def Let_def by (rule payoff_total) (simp_all add: gbm_ok_def)

lemma heston_payoff_total:
  "heston_ok k \<Longrightarrow> isfinite x \<Longrightarrow> isfinite y \<Longrightarrow>
     \<exists>p. heston_payoff_from_path k x y = Inr p \<and> \<not> isnan p \<and> 0 \<le> ord64 p"
  unfolding heston_payoff_from_path_def Let_def by (rule payoff_total) (simp_all add: heston_ok_def)

lemma gbm_path_finite:
  assumes "gbm_ok k" "fold_result (gbm_step L k s) xs (spot (gbm_spec k), zero64) = Inr (p, r)"
  shows "isfinite p \<and> isfinite r"
proof -
  have "case (p, r) of (p, r) \<Rightarrow> isfinite p \<and> isfinite r"
    using assms(2)
  proof (rule fold_result_invariant)
    show "case (spot (gbm_spec k), zero64) of (p, r) \<Rightarrow> isfinite p \<and> isfinite r"
      using assms(1) valid_spec_numbers(3) by (simp add: gbm_ok_def)
  qed (auto simp: gbm_step_def Let_def split: if_splits)
  then show ?thesis by simp
qed

lemma heston_path_finite:
  assumes "heston_ok k" "fold_result (heston_step L k s sg) xs (spot (heston_spec k), v0, zero64) = Inr (p, v, r)"
  shows "isfinite p \<and> isfinite r"
proof -
  have "case (p, v, r) of (p, v, r) \<Rightarrow> isfinite p \<and> isfinite r"
    using assms(2)
  proof (rule fold_result_invariant)
    show "case (spot (heston_spec k), v0, zero64) of (p, v, r) \<Rightarrow> isfinite p \<and> isfinite r"
      using assms(1) valid_spec_numbers(3) by (simp add: heston_ok_def)
  qed (auto simp: heston_step_def Let_def split: if_splits)
  then show ?thesis by simp
qed

lemma gbm_payoff_nonneg:
  assumes "gbm_ok k" "gbm_discounted_payoff L k s = Inr d"
  shows "isfinite d \<and> 0 \<le> ord64 d"
proof -
  obtain p r q where f: "fold_result (gbm_step L k s) [0..<unat (num_time_steps (gbm_spec k))]
      (spot (gbm_spec k), zero64) = Inr (p, r)"
    and q: "gbm_payoff_from_path k p r = Inr q" and d: "d = fmul (gbm_discount k) q" "isfinite d"
    using assms(2) by (auto simp: gbm_discounted_payoff_def Let_def split: if_splits)
  from gbm_payoff_total [OF assms(1)] gbm_path_finite [OF assms(1) f] q
  have "\<not> isnan q \<and> 0 \<le> ord64 q" by fastforce
  then show ?thesis using d discounted_nonneg assms(1) by (simp add: gbm_ok_def)
qed

lemma heston_payoff_nonneg:
  assumes "heston_ok k" "heston_discounted_payoff_with_sign L k s sg = Inr d"
  shows "isfinite d \<and> 0 \<le> ord64 d"
proof -
  obtain p v r q where f: "fold_result (heston_step L k s sg) [0..<unat (num_time_steps (heston_spec k))]
      (spot (heston_spec k), initial_variance (heston_parameters (heston_spec k)), zero64) = Inr (p, v, r)"
    and q: "heston_payoff_from_path k p r = Inr q" and d: "d = fmul (heston_discount k) q" "isfinite d"
    using assms(2) by (auto simp: heston_discounted_payoff_with_sign_def Let_def split: if_splits)
  from heston_payoff_total [OF assms(1)] heston_path_finite [OF assms(1) f] q
  have "\<not> isnan q \<and> 0 \<le> ord64 q" by fastforce
  then show ?thesis using d discounted_nonneg assms(1) by (simp add: heston_ok_def)
qed

section \<open>The fused antithetic pair\<close>

lemma isnan_nan64 [simp]: "isnan nan64"
  by (simp add: nan64_def isnan_def)

lemma nan64_not_finite [simp]: "\<not> isfinite nan64"
  by (simp add: nan64_def isfinite_def)

lemma mag_units_one: "mag_units (mag one64) = unit_scale" "\<not> signbit one64"
  "mag_units (mag minus_one64) = unit_scale" "signbit minus_one64"
  by (simp_all add: one64_def minus_one64_def mag_def signbit_def mag_units_def mag_shift_def unit_scale_def)

lemma finite_minus_one [simp]: "isfinite minus_one64"
  by (simp add: minus_one64_def isfinite_def mag_def)

lemma mag_one_nz: "0 < mag one64" "0 < mag minus_one64"
  by (simp_all add: one64_def minus_one64_def mag_def)

lemma round_units_scale: "isfinite z \<Longrightarrow> round_units (unit_scale * mag_units (mag z)) unit_scale = mag z"
  using round_units_exact [of unit_scale "mag z"] by (simp add: mult.commute isfinite_def)

lemma fmul_one:
  assumes "\<not> isnan z"
  shows "fmul one64 z = z" "fmul minus_one64 z = fneg z"
proof -
  have i: "isinf z \<Longrightarrow> mk_double (signbit z) inf_pattern = z"
    using mk_double_signbit_mag [of z] by (simp add: isinf_def)
  show "fmul one64 z = z"
    using assms float_cases [of z] i mag_one_nz
    by (auto simp: fmul_def Let_def mag_units_one round_units_scale)
  have "isinf z \<Longrightarrow> mag z = inf_pattern" by (simp add: isinf_def)
  then show "fmul minus_one64 z = fneg z"
    using assms float_cases [of z] mag_one_nz
    by (auto simp: fmul_def fneg_def Let_def mag_units_one round_units_scale)
qed

lemma fmul_nan: "isnan z \<Longrightarrow> fmul x z = nan64" "isnan x \<Longrightarrow> fmul x z = nan64"
  by (simp_all add: fmul_def)

lemma fadd_nan: "isnan z \<Longrightarrow> fadd x z = nan64"
  by (simp add: fadd_def)

lemma fneg_mk_double: "k < two63 \<Longrightarrow> fneg (mk_double s k) = mk_double (\<not> s) k"
  by (simp add: fneg_def)

lemma fmul_fneg: "\<not> isnan (fmul x z) \<Longrightarrow> fmul x (fneg z) = fneg (fmul x z)"
  by (auto simp: fmul_def fneg_mk_double Let_def split: if_splits)

lemma isnan_fmul_fneg: "isnan (fmul x z) \<Longrightarrow> isnan (fmul x (fneg z))"
  by (auto simp: fmul_def Let_def isnan_def split: if_splits)

lemma fmul_fmul_one: "fmul x (fmul one64 z) = fmul x z"
  by (cases "isnan z") (simp_all add: fmul_one fmul_nan)

lemma fadd_fmul_minus: "fadd a (fmul x (fmul minus_one64 z)) = fsub a (fmul x z)"
proof (cases "isnan (fmul x z)")
  case True
  have "isnan (fmul x (fmul minus_one64 z))"
  proof (cases "isnan z")
    case False
    then show ?thesis using True isnan_fmul_fneg by (simp add: fmul_one)
  qed (simp add: fmul_nan)
  with True show ?thesis by (simp add: fsub_def fadd_nan)
next
  case False
  then have "\<not> isnan z" by (auto simp: fmul_nan)
  with False show ?thesis by (simp add: fmul_one fmul_fneg fsub_def)
qed

lemma even_pair:
  assumes "(s :: u64) mod 2 = 0"
  shows "s AND NOT 1 = s" "(s + 1) AND NOT 1 = s" "(s + 1) mod 2 \<noteq> 0"
proof -
  have "even s" using assms by (simp add: even_iff_mod_2_eq_zero)
  then have b: "\<not> bit s 0" by (simp add: bit_0)
  show "s AND NOT 1 = s"
    using b by (intro bit_word_eqI) (auto simp: bit_and_iff bit_not_iff bit_1_iff intro: gr0I)
  have "s + 1 = s OR 1" using \<open>even s\<close>
    by (metis and_one_eq disjunctive_add even_iff_mod_2_eq_zero bit_and_iff bit_0_eq bot_apply bot_bool_def)
  then show "(s + 1) AND NOT 1 = s"
    using b by (intro bit_word_eqI) (auto simp: bit_and_iff bit_not_iff bit_1_iff bit_or_iff intro: gr0I)
  show "(s + 1) mod 2 \<noteq> 0" using \<open>even s\<close> by (simp add: even_iff_mod_2_eq_zero [symmetric])
qed

lemma gbm_pair_step_iff:
  assumes "antithetic (gbm_spec k)" "s mod 2 = 0"
  shows "gbm_pair_step L k s i (a, b) = Inr (a', b') \<longleftrightarrow>
         gbm_step L k s i a = Inr a' \<and> gbm_step L k (s + 1) i b = Inr b'"
  using assms even_pair [OF assms(2)]
  by (cases "standard_normal L (global_seed (gbm_spec k)) s (of_nat i) 0 0"; cases a; cases b)
    (auto simp: gbm_pair_step_def gbm_step_def Let_def)

lemma heston_pair_step_iff:
  "heston_pair_step L k s i (a, b) = Inr (a', b') \<longleftrightarrow>
   heston_step L k s one64 i a = Inr a' \<and> heston_step L k s minus_one64 i b = Inr b'"
  by (cases "standard_normal L (global_seed (heston_spec k)) s (of_nat i) 0 0";
      cases "standard_normal L (global_seed (heston_spec k)) s (of_nat i) 1 0"; cases a; cases b)
    (auto simp: heston_pair_step_def heston_step_def Let_def fmul_fmul_one fadd_fmul_minus)

lemma half_finite: "mag half64 < inf_pattern" "0 < mag half64"
  by (simp_all add: half64_def mag_def)

lemma finite_half_sum:
  assumes "\<not> isnan p" "0 \<le> ord64 p" "\<not> isnan q" "0 \<le> ord64 q" "isfinite (fmul half64 (fadd p q))"
  shows "isfinite p \<and> isfinite q"
proof (rule ccontr)
  assume "\<not> (isfinite p \<and> isfinite q)"
  then have "isinf p \<or> isinf q" using assms float_cases by blast
  then have "isinf (fadd p q)"
    using assms nonneg_inf by (auto simp: fadd_def)
  then have "\<not> isfinite (fmul half64 (fadd p q))"
    using half_finite by (auto simp: fmul_def Let_def isinf_def isfinite_def isnan_def)
  with assms(5) show False by simp
qed

lemma pair_in_range:
  assumes "(s :: u64) mod 2 = 0" "\<not> t \<le> s + 1"
  shows "\<not> t \<le> s"
proof -
  have "s \<noteq> u64_max" using assms(1) by auto
  then have "unat s \<noteq> unat u64_max" by (metis word_unat_eq_iff)
  then have "unat s \<noteq> 18446744073709551615" by simp
  then have "unat s + 1 < 18446744073709551616" using unat_less_2_64 [of s] by linarith
  then have "unat s + unat (1 :: u64) < 2 ^ 64" by simp
  then have "unat (s + 1) = unat s + 1" by (subst unat_add_u64) auto
  with assms(2) show ?thesis by (simp add: word_le_nat_alt)
qed

text \<open>The last steps of a path and of a pair, for either model: \<open>payoff\<close> is total on what the loop
  delivers, and the discount factor is positive and finite.\<close>

lemma pair_of_discounted:
  assumes d: "isfinite d" "0 < ord64 d"
    and q: "\<not> isnan q" "0 \<le> ord64 q" and q': "\<not> isnan q'" "0 \<le> ord64 q'"
  shows "isfinite (fmul half64 (fadd (fmul d q) (fmul d q'))) \<longleftrightarrow>
    isfinite (fmul d q) \<and> isfinite (fmul d q') \<and> isfinite (fmul half64 (fadd (fmul d q) (fmul d q')))"
  using finite_half_sum [of "fmul d q" "fmul d q'"] discounted_nonneg [OF d q] discounted_nonneg [OF d q']
  by blast

lemma pair_exists:
  assumes d: "isfinite d" "0 < ord64 d"
    and A: "\<And>x q. A x \<Longrightarrow> P x = Inr q \<Longrightarrow> \<not> isnan q \<and> 0 \<le> ord64 q"
    and B: "\<And>x q. B x \<Longrightarrow> P x = Inr q \<Longrightarrow> \<not> isnan q \<and> 0 \<le> ord64 q"
  shows "(\<exists>x y q q'. A x \<and> B y \<and> P x = Inr q \<and> P y = Inr q' \<and>
            m = fmul half64 (fadd (fmul d q) (fmul d q')) \<and> isfinite m) \<longleftrightarrow>
    (\<exists>p n. (\<exists>x q. A x \<and> P x = Inr q \<and> p = fmul d q \<and> isfinite p) \<and>
           (\<exists>y q'. B y \<and> P y = Inr q' \<and> n = fmul d q' \<and> isfinite n) \<and>
           m = fmul half64 (fadd p n) \<and> isfinite m)" (is "?pair \<longleftrightarrow> ?paths")
proof
  assume ?pair
  then obtain x y q q' where x: "A x" "P x = Inr q" and y: "B y" "P y = Inr q'"
    and m: "m = fmul half64 (fadd (fmul d q) (fmul d q'))" "isfinite m" by blast
  have "isfinite (fmul d q) \<and> isfinite (fmul d q')"
    using pair_of_discounted [OF d, of q q'] A [OF x] B [OF y] m by blast
  with x y m show ?paths by blast
next
  assume ?paths
  then show ?pair by blast
qed

lemma gbm_pair_iff:
  assumes ok: "gbm_ok k" and a: "antithetic (gbm_spec k)"
    and s: "s mod 2 = 0" "\<not> total_scenarios (gbm_spec k) \<le> s + 1"
  shows "gbm_antithetic_pair_mean L k s = Inr m \<longleftrightarrow>
    (\<exists>p n. gbm_discounted_payoff L k s = Inr p \<and> gbm_discounted_payoff L k (s + 1) = Inr n \<and>
           m = fmul half64 (fadd p n) \<and> isfinite m)"
proof -
  let ?steps = "[0..<unat (num_time_steps (gbm_spec k))]" and ?init = "(spot (gbm_spec k), zero64)"
  let ?pay = "\<lambda>(p, r). gbm_payoff_from_path k p r"
  let ?run = "\<lambda>s. fold_result (gbm_step L k s) ?steps ?init"
  note s' = pair_in_range [OF s]
  have pair: "fold_result (gbm_pair_step L k s) ?steps (?init, ?init) = Inr (x, y) \<longleftrightarrow>
      ?run s = Inr x \<and> ?run (s + 1) = Inr y" for x y
    by (rule fold_result_pair) (rule gbm_pair_step_iff [OF a s(1)])
  have pay: "\<not> isnan q \<and> 0 \<le> ord64 q" if "?run u = Inr x" "?pay x = Inr q" for u x q
    using that gbm_path_finite [OF ok] gbm_payoff_total [OF ok] by (cases x) fastforce
  have d: "isfinite (gbm_discount k)" "0 < ord64 (gbm_discount k)" using ok by (auto simp: gbm_ok_def)
  have single: "gbm_discounted_payoff L k u = Inr v \<longleftrightarrow>
      (\<exists>x q. ?run u = Inr x \<and> ?pay x = Inr q \<and>
        v = fmul (gbm_discount k) q \<and> isfinite v)" if "\<not> total_scenarios (gbm_spec k) \<le> u" for u v
    using that by (auto simp: gbm_discounted_payoff_def Let_def split: if_splits)
  have both: "gbm_antithetic_pair_mean L k s = Inr m \<longleftrightarrow>
      (\<exists>x y q q'. ?run s = Inr x \<and> ?run (s + 1) = Inr y \<and> ?pay x = Inr q \<and> ?pay y = Inr q' \<and>
        m = fmul half64 (fadd (fmul (gbm_discount k) q) (fmul (gbm_discount k) q')) \<and> isfinite m)"
    using a s by (auto simp: gbm_antithetic_pair_mean_def Let_def pair split: if_splits)
  show ?thesis
    unfolding both single [OF s'] single [OF s(2)] by (rule pair_exists [OF d]) (fact pay)+
qed

lemma heston_pair_iff:
  assumes ok: "heston_ok k" and a: "antithetic (heston_spec k)"
    and s: "s mod 2 = 0" "\<not> total_scenarios (heston_spec k) \<le> s + 1"
  shows "heston_antithetic_pair_mean L k s = Inr m \<longleftrightarrow>
    (\<exists>p n. heston_discounted_payoff L k s = Inr p \<and> heston_discounted_payoff L k (s + 1) = Inr n \<and>
           m = fmul half64 (fadd p n) \<and> isfinite m)"
proof -
  let ?steps = "[0..<unat (num_time_steps (heston_spec k))]"
    and ?init = "(spot (heston_spec k), initial_variance (heston_parameters (heston_spec k)), zero64)"
  let ?pay = "\<lambda>(p, v, r). heston_payoff_from_path k p r"
  let ?run = "\<lambda>sg. fold_result (heston_step L k s sg) ?steps ?init"
  note s' = pair_in_range [OF s]
  have pair: "fold_result (heston_pair_step L k s) ?steps (?init, ?init) = Inr (x, y) \<longleftrightarrow>
      ?run one64 = Inr x \<and> ?run minus_one64 = Inr y" for x y
    by (rule fold_result_pair) (rule heston_pair_step_iff)
  have pay: "\<not> isnan q \<and> 0 \<le> ord64 q" if "?run sg = Inr x" "?pay x = Inr q" for sg x q
    using that heston_path_finite [OF ok] heston_payoff_total [OF ok] by (cases x) fastforce
  have d: "isfinite (heston_discount k)" "0 < ord64 (heston_discount k)"
    using ok by (auto simp: heston_ok_def)
  have sign: "heston_discounted_payoff_with_sign L k s sg = Inr w \<longleftrightarrow>
      (\<exists>x q. ?run sg = Inr x \<and> ?pay x = Inr q \<and>
        w = fmul (heston_discount k) q \<and> isfinite w)" for sg w
    by (auto simp: heston_discounted_payoff_with_sign_def Let_def split: if_splits)
  have single: "heston_discounted_payoff L k s = heston_discounted_payoff_with_sign L k s one64"
    "heston_discounted_payoff L k (s + 1) = heston_discounted_payoff_with_sign L k s minus_one64"
    using s s' a even_pair [OF s(1)] by (auto simp: heston_discounted_payoff_def Let_def)
  have both: "heston_antithetic_pair_mean L k s = Inr m \<longleftrightarrow>
      (\<exists>x y q q'. ?run one64 = Inr x \<and> ?run minus_one64 = Inr y \<and> ?pay x = Inr q \<and> ?pay y = Inr q' \<and>
        m = fmul half64 (fadd (fmul (heston_discount k) q) (fmul (heston_discount k) q')) \<and> isfinite m)"
    using a s by (auto simp: heston_antithetic_pair_mean_def Let_def pair split: if_splits)
  show ?thesis
    unfolding both single sign by (rule pair_exists [OF d]) (fact pay)+
qed

lemma make_kernel_cases:
  assumes "make_kernel L spec = Inr k"
  obtains (Gbm) g where "k = GbmKernel g" "gbm_ok g" "gbm_spec g = spec"
    | (Heston) h where "k = HestonKernel h" "heston_ok h" "heston_spec h = spec"
  using assms make_gbm_kernel_ok make_heston_kernel_ok
  by (auto simp: make_kernel_def split: model_type.splits)

lemma kernel_payoff_nonneg:
  assumes "make_kernel L spec = Inr k" "kernel_discounted_payoff L k s = Inr p"
  shows "isfinite p \<and> 0 \<le> ord64 p"
  using assms(1)
proof (cases rule: make_kernel_cases)
  case Gbm
  then show ?thesis using assms(2) gbm_payoff_nonneg by simp
next
  case Heston
  then show ?thesis using assms(2) heston_payoff_nonneg
    by (auto simp: heston_discounted_payoff_def Let_def split: if_splits)
qed

lemma kernel_pair_iff:
  assumes "make_kernel L spec = Inr k" "antithetic spec"
    and "s mod 2 = 0" "\<not> total_scenarios spec \<le> s + 1"
  shows "kernel_antithetic_pair_mean L k s = Inr m \<longleftrightarrow>
    (\<exists>p n. kernel_discounted_payoff L k s = Inr p \<and> kernel_discounted_payoff L k (s + 1) = Inr n \<and>
           m = fmul half64 (fadd p n) \<and> isfinite m)"
  using assms(1)
proof (cases rule: make_kernel_cases)
  case Gbm
  then show ?thesis using assms gbm_pair_iff by simp
next
  case Heston
  then show ?thesis using assms heston_pair_iff by simp
qed

section \<open>Exact operations\<close>


lemma isqrt_correct: "isqrt n * isqrt n \<le> n \<and> n < (isqrt n + 1) * (isqrt n + 1)"
proof (induction n rule: isqrt.induct)
  case (1 n)
  show ?case
  proof (cases "n = 0")
    case False
    let ?k = "isqrt (n div 4)"
    have IH: "?k * ?k \<le> n div 4" "n div 4 < (?k + 1) * (?k + 1)" using 1 False by blast+
    then have "4 * (?k * ?k) \<le> n" "n < 4 * ((?k + 1) * (?k + 1))" by linarith+
    then have "(2 * ?k) * (2 * ?k) \<le> n" "n < (2 * ?k + 2) * (2 * ?k + 2)" by (simp_all add: algebra_simps)
    then show ?thesis using False by (subst (1 2 3 4) isqrt.simps) (simp add: Let_def)
  qed (simp add: isqrt.simps)
qed

lemma isqrt_square: "isqrt (k * k) = k"
proof (rule antisym)
  show "isqrt (k * k) \<le> k" using isqrt_correct [of "k * k"] by (metis mult_strict_mono' not_le zero_le)
  show "k \<le> isqrt (k * k)" using isqrt_correct [of "k * k"] by (metis Suc_eq_plus1 less_Suc_eq_le mult_le_mono not_le)
qed

lemma fsqrt_one: "fsqrt one64 = one64"
proof -
  have g: "round_shift unit_scale = 1022" 
    by (rule round_shift_unique) (simp_all add: unit_scale_def)
  have q: "isqrt (unit_scale * unit_scale) = unit_scale" by (rule isqrt_square)
  have d: "unit_scale div 2 ^ 1022 = 2 ^ 52" by (simp add: unit_scale_def)
  have "4 * (unit_scale * unit_scale) < ((2 * 2 ^ 52 + 1) * 2 ^ 1022) * ((2 * 2 ^ 52 + 1) * 2 ^ 1022)"
    by (simp add: unit_scale_def)
  then have "round_sqrt (unit_scale * unit_scale) = 1022 * 2 ^ 52 + 2 ^ 52"
    unfolding round_sqrt_def q g Let_def d by (simp only: if_True simp_thms)
  moreover have "mk_double False (1022 * 2 ^ 52 + 2 ^ 52) = one64"
    by (simp add: mk_double_def one64_def)
  ultimately show ?thesis using mag_one_nz(1) mag_units_one(1,2)
    by (simp add: fsqrt_def one64_simps)
qed

lemma fadd_mag0:
  assumes "isfinite x" "mag x = 0" "isfinite a" "mag a \<noteq> 0"
  shows "fadd x a = a"
proof -
  have u: "units x = 0" "units a \<noteq> 0" using assms by (auto simp: units_def)
  have "ord64 (round_int (units a)) = ord64 a" using assms(3) by (rule round_int_units)
  then have "round_int (units a) = a"
    using assms(4) by (intro double_eqI) (auto simp: ord64_def split: if_splits)
  then show ?thesis unfolding fadd_def u(1) using assms u(2) by simp
qed

lemma zero_pattern: "mk_double False 0 = zero64"
  by (simp add: zero64_def)

lemma fadd_zero_zero: "fadd zero64 zero64 = zero64"
  by (simp add: fadd_def zero_pattern)

lemma fmul_mag0: "isfinite x \<Longrightarrow> isfinite z \<Longrightarrow> mag z = 0 \<Longrightarrow> isfinite (fmul x z) \<and> mag (fmul x z) = 0"
  by (simp add: fmul_def Let_def isfinite_def isnan_def isinf_def)

lemma horner_zero:
  assumes "isfinite z" "mag z = 0" "\<forall>c \<in> set (b # cs). isfinite c \<and> mag c \<noteq> 0"
  shows "horner (b # cs) z = last (b # cs)"
  using assms(3)
proof (induction cs arbitrary: b)
  case (Cons c cs)
  have "fadd (fmul b z) c = c"
    using Cons.prems fmul_mag0 [of b z] assms by (simp add: fadd_mag0)
  then show ?case using Cons by (simp add: horner_def)
qed (simp add: horner_def)

lemma one64_pos [simp]: "\<not> ord64 one64 \<le> 0"
  using one64_simps(2) by linarith

section \<open>A concrete run\<close>

text \<open>A library and a two-scenario antithetic specification on which everything can be computed by
  exact operations: with the seed 12 the first draw lies in the lower tail, and a constant
  logarithm makes the tail polynomial collapse to its last coefficient.\<close>

definition witness_libm :: libm where
  "witness_libm = \<lparr>m_exp = (\<lambda>_. one64), m_log = (\<lambda>_. zero64), m_erfc = (\<lambda>_. one64)\<rparr>"

definition witness_spec :: run_spec where
  "witness_spec = default_run_spec\<lparr>global_seed := 12, total_scenarios := 2, spot := one64,
     strike := one64, rate := half64, volatility := one64, antithetic := True\<rparr>"

definition witness_gbm :: gbm_kernel where
  "witness_gbm = \<lparr>gbm_spec = witness_spec, drift_per_step = zero64, diffusion_per_step = one64,
                  gbm_discount = one64\<rparr>"

lemma finite_half [simp]: "isfinite half64"
  by (simp add: half64_def isfinite_def mag_def)

lemma witness_spec_valid: "validate_run_spec witness_spec = Inr ()"
  by (simp add: validate_run_spec_def validate_model_def witness_spec_def default_run_spec_def
      version_defs finite_positive_def fle_def not_le)

lemma of_u32_one: "of_u32 1 = one64"
proof -
  have "mag_units (mag (of_u64 1)) = unit_scale" "\<not> signbit (of_u64 1)"
    using of_u64_exact [of 1] by simp_all
  then have "mag (of_u64 1) = mag one64" using mag_units_one(1) by (metis mag_units_eq_iff)
  then show ?thesis using \<open>\<not> signbit (of_u64 1)\<close> mag_units_one(2) by (simp add: of_u32_u64 double_eqI)
qed

lemma fdiv_one: "isfinite a \<Longrightarrow> fdiv a one64 = a"
  using mag_one_nz(1) round_units_exact [of unit_scale "mag a"]
    isfinite_not [OF one64_simps(1)]
  by (simp add: fdiv_def Let_def mag_units_one) (simp add: isfinite_def)

lemma fmul_one_right: "\<not> isnan a \<Longrightarrow> fmul a one64 = a"
  by (simp add: fmul_commute [of a] fmul_one)

lemma fsub_self: "isfinite a \<Longrightarrow> fsub a a = zero64"
  by (cases "signbit a") (simp_all add: fsub_def fadd_def zero_pattern)

lemmas exact_ops = fmul_one fmul_one_right fdiv_one fsqrt_one fsub_self fadd_zero_zero fadd_mag0 of_u32_one

lemma witness_kernel: "make_kernel witness_libm witness_spec = Inr (GbmKernel witness_gbm)"
proof -
  have c: "spec_model_type witness_spec = Gbm" "maturity witness_spec = one64"
    "num_time_steps witness_spec = 1" "rate witness_spec = half64" "volatility witness_spec = one64"
    by (simp_all add: witness_spec_def default_run_spec_def)
  show ?thesis
    by (simp add: make_kernel_def make_gbm_kernel_def c witness_spec_valid exact_ops witness_libm_def
        fle_def witness_gbm_def one64_pos)
qed

definition tail_normal :: double where "tail_normal = Double 0x4007815C1E3FCFA2"

lemma finite_tail [simp]: "isfinite tail_normal" "mag tail_normal \<noteq> 0"
  by (simp_all add: tail_normal_def isfinite_def mag_def)

lemma ucast_trunc: "(0x6b2eb7866e46d7 :: u32) = 0x866e46d7"
  by code_simp

lemma witness_draw: "standard_normal witness_libm 12 0 0 0 0 = Inr tail_normal"
proof -
  have r: "random_u64 12 0 0 0 0 = Inr 0x6b2eb7866e46d7" by code_simp
  let ?u = "uniform_from_words_v2 0x6b2eb7 0x866e46d7"
  have ret: "retained_bits 0x6b2eb7 0x866e46d7 = 0xd65d6f0cdc8"
    by (simp add: retained_bits_def)
  have u: "uniform_open01 12 0 0 0 0 = Inr ?u"
    by (simp add: uniform_open01_def r ucast_trunc)
  have units: "units ?u = 0xd65d6f0cdc8 * 2 ^ 1021" "isfinite ?u"
    using uniform_units [of "0x6b2eb7" "0x866e46d7"] unfolding ret by simp_all
  have pos: "flt zero64 ?u"
    using units units_less_iff [of zero64 ?u] by (simp add: flt_def del: units_less_iff)
  have "units low_tail = 0x18D4FDF3B645A2 * 2 ^ 1016" "isfinite low_tail"
    by (simp_all add: low_tail_def units_def mag_units_def mag_shift_def mag_def signbit_def isfinite_def)
  then have low: "flt ?u low_tail"
    using units units_less_iff [of ?u low_tail] by (simp add: flt_def del: units_less_iff)
  have "units one64 = 2 ^ 1074" using mag_units_one(1,2) by (simp add: units_def unit_scale_def)
  then have one: "flt ?u one64"
    using units units_less_iff [of ?u one64] by (simp add: flt_def del: units_less_iff)
  let ?q = "fsqrt (fmul minus_two64 zero64)"
  have m2: "isfinite minus_two64" by (simp add: minus_two64_def isfinite_def mag_def)
  have q: "isfinite ?q" "mag ?q = 0" using fmul_mag0 [OF m2, of zero64] by (simp_all add: fsqrt_def)
  have "horner acklam_c ?q = tail_normal"
    unfolding acklam_c_def
    by (subst horner_zero [OF q]) (simp_all add: tail_normal_def isfinite_def mag_def)
  moreover have "horner (acklam_d @ [one64]) ?q = one64"
    unfolding acklam_d_def append.simps
    by (subst horner_zero [OF q]) (simp_all add: isfinite_def mag_def one64_def)
  ultimately show ?thesis
    using pos low one
    by (simp add: standard_normal_def u inverse_normal_cdf_def Let_def witness_libm_def fdiv_one)
qed

lemma witness_payoffs:
  "gbm_discounted_payoff witness_libm witness_gbm 0 = Inr zero64"
  "gbm_discounted_payoff witness_libm witness_gbm 1 = Inr zero64"
proof -
  have c: "global_seed witness_spec = 12" "antithetic witness_spec" "num_time_steps witness_spec = 1"
    "spot witness_spec = one64" "strike witness_spec = one64" "total_scenarios witness_spec = 2"
    "spec_payoff_type witness_spec = EuropeanCall"
    by (simp_all add: witness_spec_def default_run_spec_def)
  have e: "m_exp witness_libm x = one64" for x by (simp add: witness_libm_def)
  have t: "fadd zero64 tail_normal = tail_normal" "fadd zero64 (fneg tail_normal) = fneg tail_normal"
    "fadd zero64 one64 = one64"
    using mag_one_nz(1) by (simp_all add: fadd_mag0)
  have s: "gbm_step witness_libm witness_gbm s 0 (one64, zero64) = Inr (one64, one64)" if "s = 0 \<or> s = 1" for s
  proof -
    have "fmul one64 tail_normal = tail_normal" "fmul one64 (fneg tail_normal) = fneg tail_normal"
      by (simp_all add: fmul_one)
    then show ?thesis using that
      by (auto simp del: rbind_eq_Inr simp: gbm_step_def witness_gbm_def c e exact_ops t Let_def fle_def
          witness_draw)
  qed
  have p: "gbm_payoff_from_path witness_gbm one64 one64 = Inr zero64"
    by (simp add: gbm_payoff_from_path_def witness_gbm_def c exact_ops fmax_def flt_def)
  show "gbm_discounted_payoff witness_libm witness_gbm 0 = Inr zero64"
    using s [of 0] p by (simp add: gbm_discounted_payoff_def witness_gbm_def c exact_ops upt_rec)
  show "gbm_discounted_payoff witness_libm witness_gbm 1 = Inr zero64"
    using s [of 1] p by (simp add: word_le_nat_alt gbm_discounted_payoff_def witness_gbm_def c exact_ops upt_rec)
qed

section \<open>Properties\<close>

lemma simulate_payoff_ok:
  assumes "simulate_discounted_payoff L spec s = Inr p"
  shows "valid_spec spec" "s < total_scenarios spec" "isfinite p" "0 \<le> ord64 p"
proof -
  obtain k where k: "make_kernel L spec = Inr k" "kernel_discounted_payoff L k s = Inr p"
    using assms by (auto simp: simulate_discounted_payoff_def)
  show "isfinite p" "0 \<le> ord64 p" using kernel_payoff_nonneg [OF k] by auto
  show "valid_spec spec" "s < total_scenarios spec"
    using k by (auto elim!: make_kernel_cases simp: gbm_ok_def heston_ok_def gbm_discounted_payoff_def
        heston_discounted_payoff_def Let_def split: if_splits)
qed

text \<open>C17. Whatever the C library's exponential and logarithm return, a discounted payoff the simulator
  delivers, for either model, comes from a validated specification and a scenario of the run, and
  is a finite nonnegative number.\<close>

theorem payoff_finite_nonneg:
  assumes "simulate_discounted_payoff L spec s = Inr p"
  shows "valid_spec spec \<and> s < total_scenarios spec \<and> isfinite p \<and> 0 \<le> val p"
  using simulate_payoff_ok [OF assms] by (simp add: val_nonneg_iff)

theorem payoff_finite_nonneg_witness:
  "simulate_discounted_payoff witness_libm witness_spec 1 = Inr zero64 \<and> isfinite zero64 \<and> 0 \<le> val zero64"
proof -
  have "simulate_discounted_payoff witness_libm witness_spec 1 = Inr zero64"
    by (simp only: simulate_discounted_payoff_def witness_kernel rbind_simps
        kernel_discounted_payoff.simps witness_payoffs)
  with payoff_finite_nonneg [OF this] show ?thesis by blast
qed

text \<open>C18. The fused antithetic pair is an optimisation, not a different estimator: for either model it
  returns a value exactly when both member paths, simulated separately, return one and their mean
  is finite, and then it returns that mean bit for bit.\<close>

theorem antithetic_pair_equivalence:
  assumes "make_kernel L spec = Inr k" "antithetic spec"
    and "s mod 2 = 0" "\<not> total_scenarios spec \<le> s + 1"
  shows "kernel_antithetic_pair_mean L k s = Inr m \<longleftrightarrow>
    (\<exists>p n. kernel_discounted_payoff L k s = Inr p \<and> kernel_discounted_payoff L k (s + 1) = Inr n \<and>
           m = fmul half64 (fadd p n) \<and> isfinite m)"
  by (rule kernel_pair_iff [OF assms])

lemma witness_spec_fields: "antithetic witness_spec" "\<not> total_scenarios witness_spec \<le> 0 + 1"
  by (simp_all add: witness_spec_def word_le_nat_alt)

lemma half_zero: "fmul half64 (fadd zero64 zero64) = zero64"
  by (simp add: fadd_zero_zero fmul_def Let_def) (simp add: half64_def signbit_def zero_pattern)

theorem antithetic_pair_equivalence_witness:
  "kernel_antithetic_pair_mean witness_libm (GbmKernel witness_gbm) 0 = Inr zero64"
  using antithetic_pair_equivalence [OF witness_kernel witness_spec_fields(1) _ witness_spec_fields(2),
      of zero64] witness_payoffs half_zero
  by simp

end
