(* ===== verification/Engine_Blocks.thy ===== *)
theory Engine_Blocks
  imports Model_Kernels
begin

text \<open>
  The deterministic part of the engine (\<^verbatim>\<open>include/mc/engine.hpp\<close>,
  \<^verbatim>\<open>src/runtime/engine.cpp\<close>): the configuration checks, the partition of the scenarios
  into blocks, the computation of one block, the fixed-position pairwise reduction
  and the confidence bounds.  The theorems show that the blocks partition the
  scenarios, that a computed block is a valid aggregate with the expected count, and
  that the level-by-level reduction evaluates the balanced tree over the block
  positions.
\<close>

section \<open>Model\<close>

record scenario_block =
  block_id :: u64
  start_scenario :: u64
  end_scenario :: u64
  run_incarnation :: u64
  lease_epoch :: u64

record engine_config =
  worker_count :: u64
  block_size :: u64
  assignment_queue_capacity :: u64
  completion_queue_capacity :: u64
  max_materialized_blocks :: u64

record run_result =
  result_aggregate :: aggregate_stats
  scenarios_processed :: u64
  block_count :: u64
  workers_used :: u64

definition kMinNormalConfidenceObservations :: u64 where "kMinNormalConfidenceObservations = 30"
definition kBlockPartitionVersion :: u32 where "kBlockPartitionVersion = 1"
definition kReductionTreeVersion :: u32 where "kReductionTreeVersion = 1"
definition kMaxWorkerThreads :: u64 where "kMaxWorkerThreads = 256"
definition kDefaultMaxMaterializedBlocks :: u64 where "kDefaultMaxMaterializedBlocks = 1000000"

definition default_engine_config :: engine_config where
  "default_engine_config = \<lparr>worker_count = 1, block_size = 2048, assignment_queue_capacity = 0,
     completion_queue_capacity = 0, max_materialized_blocks = kDefaultMaxMaterializedBlocks\<rparr>"

definition validate_engine_config :: "engine_config \<Rightarrow> run_spec \<Rightarrow> unit result" where
  "validate_engine_config config spec =
     (if worker_count config = 0 then Inl (Invalid_argument ''worker_count must be positive'')
      else if kMaxWorkerThreads < worker_count config
      then Inl (Invalid_argument ''worker_count exceeds the safety limit of 256'')
      else if block_size config = 0 then Inl (Invalid_argument ''block_size must be positive'')
      else if antithetic spec \<and> block_size config mod 2 \<noteq> 0
      then Inl (Invalid_argument ''antithetic runs require an even block size'')
      else if max_materialized_blocks config = 0
      then Inl (Invalid_argument ''max_materialized_blocks must be positive'')
      else Inr ())"

text \<open>\<^verbatim>\<open>1U + (spec.total_scenarios - 1U) / config.block_size\<close>.\<close>

definition blocks_needed :: "run_spec \<Rightarrow> engine_config \<Rightarrow> u64" where
  "blocks_needed spec config = 1 + (total_scenarios spec - 1) div block_size config"

definition make_block :: "run_spec \<Rightarrow> engine_config \<Rightarrow> u64 \<Rightarrow> scenario_block" where
  "make_block spec config bid =
     (let start = bid * block_size config
      in \<lparr>block_id = bid, start_scenario = start,
          end_scenario = start + min (block_size config) (total_scenarios spec - start),
          run_incarnation = 0, lease_epoch = 1\<rparr>)"

definition make_blocks :: "run_spec \<Rightarrow> engine_config \<Rightarrow> scenario_block list result" where
  "make_blocks spec config =
     rbind (validate_run_spec spec) (\<lambda>_.
     rbind (validate_engine_config config spec) (\<lambda>_.
       (let count = blocks_needed spec config
        in if max_materialized_blocks config < count \<or> u64_max < count
           then Inl (Length_error (''run requires '' @ decimal (unat count) @
             '' blocks, exceeding the host/materialization limit of '' @
             decimal (unat (max_materialized_blocks config))))
           else Inr (map (\<lambda>i. make_block spec config (of_nat i)) [0..<unat count]))))"

text \<open>The scenarios a loop \<^verbatim>\<open>for (s = start; s < end; s += stride)\<close> visits, and the loop
  that adds each observation to the aggregate.\<close>

definition visited_scenarios :: "u64 \<Rightarrow> u64 \<Rightarrow> nat \<Rightarrow> u64 list" where
  "visited_scenarios first limit stride =
     map (\<lambda>j. first + of_nat (stride * j)) [0..<(unat limit - unat first + stride - 1) div stride]"

definition observe_all :: "(u64 \<Rightarrow> double result) \<Rightarrow> u64 list \<Rightarrow> aggregate_stats result" where
  "observe_all observation scenarios =
     fold_result (\<lambda>s aggregate. rbind (observation s) (\<lambda>x. add_observation x aggregate))
       scenarios empty_stats"

definition compute_block_with_kernel :: "libm \<Rightarrow> model_kernel \<Rightarrow> scenario_block \<Rightarrow> aggregate_stats result" where
  "compute_block_with_kernel L k block =
     (let spec = kernel_spec k; first = start_scenario block; limit = end_scenario block
      in if limit \<le> first \<or> total_scenarios spec < limit
         then Inl (Invalid_argument ''invalid scenario block range'')
         else if antithetic spec \<and> (first mod 2 \<noteq> 0 \<or> limit mod 2 \<noteq> 0)
         then Inl (Invalid_argument ''antithetic block boundaries must be even'')
         else if antithetic spec
         then observe_all (kernel_antithetic_pair_mean L k) (visited_scenarios first limit 2)
         else observe_all (kernel_discounted_payoff L k) (visited_scenarios first limit 1))"

definition compute_block :: "libm \<Rightarrow> run_spec \<Rightarrow> scenario_block \<Rightarrow> aggregate_stats result" where
  "compute_block L spec block =
     rbind (make_kernel L spec) (\<lambda>k. compute_block_with_kernel L k block)"

text \<open>One pass of the reduction loop, and the loop.\<close>

fun merge_level :: "('a \<Rightarrow> 'a \<Rightarrow> 'a result) \<Rightarrow> 'a list \<Rightarrow> 'a list result" where
  "merge_level merge (a # b # rest) =
     rbind (merge a b) (\<lambda>c. rbind (merge_level merge rest) (\<lambda>cs. Inr (c # cs)))"
| "merge_level merge rest = Inr rest"

lemma merge_level_length: "merge_level merge xs = Inr ys \<Longrightarrow> length ys = (length xs + 1) div 2"
  by (induction merge xs arbitrary: ys rule: merge_level.induct) auto

function reduce_levels :: "('a \<Rightarrow> 'a \<Rightarrow> 'a result) \<Rightarrow> 'a list \<Rightarrow> 'a list result" where
  "reduce_levels merge level =
     (if 1 < length level then rbind (merge_level merge level) (\<lambda>next. reduce_levels merge next)
      else Inr level)"
  by pat_completeness auto
termination
  by (relation "measure (\<lambda>(merge, level). length level)") (auto dest: merge_level_length)

declare reduce_levels.simps [simp del]

definition reduce_block_results :: "aggregate_stats list \<Rightarrow> aggregate_stats result" where
  "reduce_block_results leaves =
     (if leaves = [] then Inr empty_stats
      else rbind (reduce_levels merge_stats leaves) (\<lambda>level. Inr (hd level)))"

definition confidence_bound :: "aggregate_stats \<Rightarrow> double \<Rightarrow> bool \<Rightarrow> double option result" where
  "confidence_bound aggregate z upper =
     (if \<not> isfinite z \<or> fle z zero64
      then Inl (Invalid_argument ''confidence critical value must be finite and positive'')
      else if stats_n aggregate < kMinNormalConfidenceObservations then Inr None
      else case standard_error aggregate of
             None \<Rightarrow> Inr None
           | Some err \<Rightarrow>
               (let half_width = fmul z err;
                    low = fsub (stats_mean aggregate) half_width;
                    high = fadd (stats_mean aggregate) half_width
                in if \<not> isfinite half_width \<or> \<not> isfinite low \<or> \<not> isfinite high then Inr None
                   else Inr (Some (if upper then high else low))))"

definition confidence_low :: "run_result \<Rightarrow> double \<Rightarrow> double option result" where
  "confidence_low r z = confidence_bound (result_aggregate r) z False"

definition confidence_high :: "run_result \<Rightarrow> double \<Rightarrow> double option result" where
  "confidence_high r z = confidence_bound (result_aggregate r) z True"

section \<open>The partition\<close>

lemma validate_engine_config_Inr:
  assumes "validate_engine_config config spec = Inr ()"
  shows "0 < unat (block_size config)" "antithetic spec \<Longrightarrow> even (unat (block_size config))"
    "0 < unat (worker_count config)" "unat (worker_count config) \<le> 256"
proof -
  have "block_size config \<noteq> 0" "worker_count config \<noteq> 0" "worker_count config \<le> kMaxWorkerThreads"
    using assms by (auto simp: validate_engine_config_def split: if_splits)
  then show "0 < unat (block_size config)" "0 < unat (worker_count config)"
    "unat (worker_count config) \<le> 256"
    by (auto simp: unat_gt_0 kMaxWorkerThreads_def word_le_nat_alt)
  show "antithetic spec \<Longrightarrow> even (unat (block_size config))"
    using assms by (simp add: validate_engine_config_def flip: u64_even_iff split: if_splits)
qed

lemma blocks_needed_unat:
  assumes "valid_spec spec" "validate_engine_config config spec = Inr ()"
  shows "unat (blocks_needed spec config) =
         1 + (unat (total_scenarios spec) - 1) div unat (block_size config)"
proof -
  note b = valid_spec_bounds [OF assms(1)]
  have "unat (total_scenarios spec - 1) = unat (total_scenarios spec) - 1"
    using b(1) by (subst unat_sub_u64) (auto simp: word_le_nat_alt)
  then have d: "unat ((total_scenarios spec - 1) div block_size config) =
      (unat (total_scenarios spec) - 1) div unat (block_size config)"
    by (simp add: unat_div)
  have "\<dots> \<le> unat (total_scenarios spec) - 1" by (rule div_le_dividend)
  then have "1 + (unat (total_scenarios spec) - 1) div unat (block_size config) < 18446744073709551616"
    using b(2) [simplified] by linarith
  then show ?thesis
    unfolding blocks_needed_def using d by (subst unat_add_u64) (simp_all)
qed

lemma block_start_less: "i < 1 + (t - 1) div b \<Longrightarrow> 0 < t \<Longrightarrow> 0 < b \<Longrightarrow> i * b < (t :: nat)"
proof -
  assume i: "i < 1 + (t - 1) div b" and t: "0 < t" and b: "0 < b"
  have "i * b \<le> (t - 1) div b * b" using i by (intro mult_le_mono1) simp
  also have "\<dots> \<le> t - 1" by simp
  finally show ?thesis using t by linarith
qed

lemma make_block_unat:
  assumes v: "valid_spec spec" "validate_engine_config config spec = Inr ()"
    and i: "i < unat (blocks_needed spec config)"
  defines "b \<equiv> unat (block_size config)" and "t \<equiv> unat (total_scenarios spec)"
  shows "unat (block_id (make_block spec config (of_nat i))) = i"
    "unat (start_scenario (make_block spec config (of_nat i))) = i * b"
    "unat (end_scenario (make_block spec config (of_nat i))) = min ((i + 1) * b) t"
    "i * b < t"
proof -
  note bounds = valid_spec_bounds [OF v(1)] and config = validate_engine_config_Inr [OF v(2)]
  have lt: "i * b < t"
    using block_start_less [of i t b] i bounds config by (simp add: blocks_needed_unat [OF v] b_def t_def)
  then show "i * b < t" .
  have t40: "t \<le> 2 ^ 40" using bounds by (simp add: t_def)
  have "i < 18446744073709551616" using i unat_less_2_64 [of "blocks_needed spec config"] by linarith
  then have ui: "unat (of_nat i :: u64) = i" by (intro unat_of_nat_u64) simp
  then show "unat (block_id (make_block spec config (of_nat i))) = i"
    by (simp add: make_block_def Let_def)
  have us: "unat (of_nat i * block_size config) = i * b"
    unfolding b_def using lt t40 ui by (subst unat_mult_u64) (simp_all add: b_def)
  then show "unat (start_scenario (make_block spec config (of_nat i))) = i * b"
    by (simp add: make_block_def Let_def)
  have "unat (total_scenarios spec - of_nat i * block_size config) = t - i * b"
    using us lt by (subst unat_sub_u64) (auto simp: word_le_nat_alt t_def)
  then have um: "unat (min (block_size config) (total_scenarios spec - of_nat i * block_size config)) =
      min b (t - i * b)"
    by (simp add: min_def word_le_nat_alt b_def)
  have "unat (of_nat i * block_size config +
      min (block_size config) (total_scenarios spec - of_nat i * block_size config)) = i * b + min b (t - i * b)"
    using us um lt t40 by (subst unat_add_u64) auto
  then show "unat (end_scenario (make_block spec config (of_nat i))) = min ((i + 1) * b) t"
    using lt by (simp add: make_block_def Let_def)
qed

lemma make_blocks_Inr:
  assumes "make_blocks spec config = Inr blocks"
  shows "valid_spec spec" "validate_engine_config config spec = Inr ()"
    "blocks = map (\<lambda>i. make_block spec config (of_nat i)) [0..<unat (blocks_needed spec config)]"
    "unat (blocks_needed spec config) \<le> unat (max_materialized_blocks config)"
  using assms
  by (auto simp: make_blocks_def Let_def valid_spec_def word_less_nat_alt split: if_splits)

definition block_range :: "scenario_block \<Rightarrow> nat list" where
  "block_range block = [unat (start_scenario block)..<unat (end_scenario block)]"

lemma blocks_prefix:
  assumes v: "valid_spec spec" "validate_engine_config config spec = Inr ()"
    and "n \<le> unat (blocks_needed spec config)"
  shows "concat (map (\<lambda>i. block_range (make_block spec config (of_nat i))) [0..<n]) =
         [0..<min (n * unat (block_size config)) (unat (total_scenarios spec))]"
  using assms(3)
proof (induction n)
  case (Suc n)
  let ?b = "unat (block_size config)" and ?t = "unat (total_scenarios spec)"
  have n: "n < unat (blocks_needed spec config)" using Suc.prems by simp
  note m = make_block_unat [OF v n]
  have "[0..<n * ?b] @ [n * ?b..<min ((n + 1) * ?b) ?t] = [0..<min ((n + 1) * ?b) ?t]"
    using m(4) upt_add_eq_append [of 0 "n * ?b" "min ((n + 1) * ?b) ?t - n * ?b"] by simp
  moreover have "min (n * ?b) ?t = n * ?b" using m(4) by simp
  ultimately show ?case using Suc by (simp add: block_range_def m)
qed simp

lemma blocks_cover:
  assumes v: "valid_spec spec" "validate_engine_config config spec = Inr ()"
  shows "unat (total_scenarios spec) \<le> unat (blocks_needed spec config) * unat (block_size config)"
proof -
  let ?b = "unat (block_size config)" and ?t = "unat (total_scenarios spec)"
  have "?t - 1 < (1 + (?t - 1) div ?b) * ?b"
    using validate_engine_config_Inr(1) [OF v(2)] by (simp add: dividend_less_div_times)
  then show ?thesis
    using valid_spec_bounds(1) [OF v(1)] by (simp add: blocks_needed_unat [OF v])
qed

lemma make_blocks_concat:
  assumes "make_blocks spec config = Inr blocks"
  shows "concat (map block_range blocks) = [0..<unat (total_scenarios spec)]"
  using blocks_prefix [OF make_blocks_Inr(1,2) [OF assms] order_refl]
    blocks_cover [OF make_blocks_Inr(1,2) [OF assms]] make_blocks_Inr(3) [OF assms]
  by (simp add: o_def)

lemma make_blocks_nth:
  assumes "make_blocks spec config = Inr blocks" "i < length blocks"
  shows "unat (block_id (blocks ! i)) = i"
    "start_scenario (blocks ! i) < end_scenario (blocks ! i)"
    "end_scenario (blocks ! i) \<le> total_scenarios spec"
    "antithetic spec \<Longrightarrow> even (unat (start_scenario (blocks ! i))) \<and> even (unat (end_scenario (blocks ! i)))"
    "run_incarnation (blocks ! i) = 0" "lease_epoch (blocks ! i) = 1"
proof -
  note b = make_blocks_Inr [OF assms(1)]
  have i: "i < unat (blocks_needed spec config)" using assms(2) b(3) by simp
  have bi: "blocks ! i = make_block spec config (of_nat i)" using i by (simp add: b(3))
  note m = make_block_unat [OF b(1,2) i]
  note c = validate_engine_config_Inr [OF b(2)]
  show "unat (block_id (blocks ! i)) = i" by (simp add: bi m)
  show "start_scenario (blocks ! i) < end_scenario (blocks ! i)"
    using m(4) c(1) by (simp add: bi m word_less_nat_alt)
  show "end_scenario (blocks ! i) \<le> total_scenarios spec" by (simp add: bi m word_le_nat_alt)
  show "antithetic spec \<Longrightarrow> even (unat (start_scenario (blocks ! i))) \<and> even (unat (end_scenario (blocks ! i)))"
    using valid_spec_bounds(5) [OF b(1)] c(2) by (simp add: bi m min_def)
  show "run_incarnation (blocks ! i) = 0" "lease_epoch (blocks ! i) = 1"
    by (simp_all add: bi make_block_def Let_def)
qed

section \<open>Computing a block\<close>

text \<open>What the block loop needs of a model: the observations it delivers are finite and
  nonnegative.  Whatever fails, fails as an exception.\<close>

locale observation_source =
  fixes observation :: "u64 \<Rightarrow> double result"
  assumes observation_Inr: "observation s = Inr x \<Longrightarrow> isfinite x \<and> 0 \<le> ord64 x"
begin

lemma observe_all_from:
  "fold_result (\<lambda>s aggregate. rbind (observation s) (\<lambda>x. add_observation x aggregate)) ss a = Inr t \<longleftrightarrow>
   (\<exists>xs. map observation ss = map Inr xs \<and> add_observations xs a = Inr t)"
proof (induction ss arbitrary: a)
  case (Cons s ss)
  have "(\<exists>xs. map observation (s # ss) = map Inr xs \<and> add_observations xs a = Inr t) \<longleftrightarrow>
    (\<exists>x b. observation s = Inr x \<and> add_observation x a = Inr b \<and>
      (\<exists>xs. map observation ss = map Inr xs \<and> add_observations xs b = Inr t))"
    by (auto simp: add_observations_def Cons_eq_map_conv)
  then show ?case using Cons by auto
qed (simp add: add_observations_def)

lemma observe_all_Inr:
  "observe_all observation ss = Inr t \<longleftrightarrow>
   (\<exists>xs. map observation ss = map Inr xs \<and> add_observations xs empty_stats = Inr t)"
  by (simp add: observe_all_def observe_all_from)

lemma observations_ok:
  assumes "map observation ss = map Inr xs" "x \<in> set xs"
  shows "isfinite x \<and> 0 \<le> ord64 x"
proof -
  have "Inr x \<in> set (map observation ss)" using assms by simp
  then obtain s where "observation s = Inr x" by auto
  then show ?thesis by (rule observation_Inr)
qed

lemma observe_all_total:
  assumes "ss \<noteq> []" "length ss < 2 ^ 64" "\<forall>s \<in> set ss. \<exists>x. observation s = Inr x"
  shows "\<exists>t xs. observe_all observation ss = Inr t \<and> map observation ss = map Inr xs \<and>
                run_ok (set xs) t \<and> unat (stats_n t) = length ss"
proof -
  have "\<exists>xs. map observation ss = map Inr xs"
    using assms(3) by (induction ss) (auto simp: Cons_eq_map_conv)
  then obtain xs where xs: "map observation ss = map Inr xs" by blast
  then have l: "length xs = length ss" by (metis length_map)
  then obtain t where "add_observations xs empty_stats = Inr t" "run_ok (set xs) t"
    "unat (stats_n t) = length xs"
    using add_observations_from_empty [of xs] assms observations_ok [OF xs] by fastforce
  then show ?thesis using xs l by (auto simp: observe_all_Inr)
qed

end

text \<open>The observation of a scenario: its discounted payoff, or the mean of the antithetic pair it
  starts.\<close>

definition observation :: "libm \<Rightarrow> run_spec \<Rightarrow> u64 \<Rightarrow> double result" where
  "observation L spec s =
     rbind (make_kernel L spec) (\<lambda>k.
       if antithetic spec then kernel_antithetic_pair_mean L k s else kernel_discounted_payoff L k s)"

lemma pair_mean_guards:
  assumes "make_kernel L spec = Inr k" "kernel_antithetic_pair_mean L k s = Inr m"
  shows "antithetic spec" "s mod 2 = 0" "\<not> total_scenarios spec \<le> s + 1"
  using assms(2)
  by (rule_tac [!] make_kernel_cases [OF assms(1)])
    (auto simp: gbm_antithetic_pair_mean_def heston_antithetic_pair_mean_def Let_def split: if_splits)

lemma pair_mean_nonneg:
  assumes "make_kernel L spec = Inr k" "kernel_antithetic_pair_mean L k s = Inr m"
  shows "isfinite m \<and> 0 \<le> ord64 m"
proof -
  obtain p n where pn: "kernel_discounted_payoff L k s = Inr p" "kernel_discounted_payoff L k (s + 1) = Inr n"
    and m: "m = fmul half64 (fadd p n)" "isfinite m"
    using kernel_pair_iff [OF assms(1) pair_mean_guards [OF assms]] assms(2) by blast
  have nonneg: "isfinite p" "0 \<le> ord64 p" "isfinite n" "0 \<le> ord64 n"
    using kernel_payoff_nonneg [OF assms(1)] pn by blast+
  then have "\<not> isnan (fadd p n)" "0 \<le> ord64 (fadd p n)"
    using fadd_nonneg [of p n] by auto
  moreover have "0 < ord64 half64" by (simp add: half64_def ord64_def signbit_def mag_def)
  ultimately have "0 \<le> ord64 m" using discounted_nonneg [of half64 "fadd p n"] m(1) by simp
  with m(2) show ?thesis by simp
qed

interpretation model: observation_source "observation L spec" for L spec
proof
  fix s x
  assume "observation L spec s = Inr x"
  then show "isfinite x \<and> 0 \<le> ord64 x"
    using pair_mean_nonneg kernel_payoff_nonneg by (auto simp: observation_def split: if_splits)
qed

definition stride :: "run_spec \<Rightarrow> nat" where
  "stride spec = (if antithetic spec then 2 else 1)"

lemma kernel_spec_make: "make_kernel L spec = Inr k \<Longrightarrow> kernel_spec k = spec"
  by (auto elim: make_kernel_cases)

lemma compute_block_observations:
  assumes "start_scenario b < end_scenario b" "end_scenario b \<le> total_scenarios spec"
    and "antithetic spec \<Longrightarrow> even (unat (start_scenario b)) \<and> even (unat (end_scenario b))"
    and k: "make_kernel L spec = Inr k"
  shows "compute_block L spec b =
    observe_all (observation L spec) (visited_scenarios (start_scenario b) (end_scenario b) (stride spec))"
proof -
  have "observation L spec =
      (if antithetic spec then kernel_antithetic_pair_mean L k else kernel_discounted_payoff L k)"
    by (auto simp: observation_def k)
  moreover have "\<not> end_scenario b \<le> start_scenario b" "\<not> total_scenarios spec < end_scenario b"
    "antithetic spec \<Longrightarrow> start_scenario b mod 2 = 0 \<and> end_scenario b mod 2 = 0"
    using assms(1-3) by (auto simp: u64_even_iff)
  ultimately show ?thesis
    using kernel_spec_make [OF k]
    by (auto simp: compute_block_def k compute_block_with_kernel_def Let_def stride_def)
qed

definition expected_observations :: "run_spec \<Rightarrow> scenario_block \<Rightarrow> nat" where
  "expected_observations spec b = (unat (end_scenario b) - unat (start_scenario b)) div stride spec"

lemma compute_block_ok:
  assumes rng: "start_scenario b < end_scenario b" "end_scenario b \<le> total_scenarios spec"
    and ev: "antithetic spec \<Longrightarrow> even (unat (start_scenario b)) \<and> even (unat (end_scenario b))"
    and t: "compute_block L spec b = Inr t"
  shows "stats_ok t" "unat (stats_n t) = expected_observations spec b" "0 \<le> ord64 (stats_mean t)"
proof -
  obtain k where k: "make_kernel L spec = Inr k"
    using t by (auto simp: compute_block_def)
  let ?ss = "visited_scenarios (start_scenario b) (end_scenario b) (stride spec)"
  have len: "length ?ss = expected_observations spec b"
    using ev rng(1) by (auto simp: visited_scenarios_def expected_observations_def stride_def elim!: evenE)
  have "0 < expected_observations spec b"
    using ev rng(1) by (auto simp: expected_observations_def stride_def word_less_nat_alt elim!: evenE)
  then have ne: "?ss \<noteq> []" using len by auto
  have lt: "length ?ss < 2 ^ 64"
  proof -
    have "length ?ss \<le> unat (end_scenario b)"
      unfolding len expected_observations_def by (meson diff_le_self div_le_dividend le_trans)
    then have "length ?ss < 18446744073709551616" using unat_less_2_64 [of "end_scenario b"] by linarith
    then show ?thesis by simp
  qed
  have o: "observe_all (observation L spec) ?ss = Inr t"
    using t compute_block_observations [OF rng ev k] by simp
  then have "\<forall>s \<in> set ?ss. \<exists>x. observation L spec s = Inr x"
    unfolding model.observe_all_Inr by (auto simp: list_eq_iff_nth_eq in_set_conv_nth)
  then obtain xs where "run_ok (set xs) t" "unat (stats_n t) = length ?ss"
    using model.observe_all_total [OF ne lt, of L spec] o by auto
  then show "stats_ok t" "unat (stats_n t) = expected_observations spec b" "0 \<le> ord64 (stats_mean t)"
    using len run_ok_mean_nonneg by (auto simp: run_ok_def)
qed

section \<open>The fixed reduction tree\<close>

text \<open>The specification: the perfect binary tree of height \<open>h\<close> over the positions
  \<open>0, \<dots>, 2\<^sup>h - 1\<close>, of which a right part may be missing.\<close>

fun fixed_tree :: "('a \<Rightarrow> 'a \<Rightarrow> 'a result) \<Rightarrow> nat \<Rightarrow> 'a list \<Rightarrow> 'a result" where
  "fixed_tree merge 0 xs = Inr (hd xs)"
| "fixed_tree merge (Suc h) xs =
     (if length xs \<le> 2 ^ h then fixed_tree merge h xs
      else rbind (fixed_tree merge h (take (2 ^ h) xs)) (\<lambda>l.
           rbind (fixed_tree merge h (drop (2 ^ h) xs)) (\<lambda>r. merge l r)))"

lemma merge_level_append:
  "even (length xs) \<Longrightarrow> merge_level merge (xs @ ys) =
     rbind (merge_level merge xs) (\<lambda>as. rbind (merge_level merge ys) (\<lambda>bs. Inr (as @ bs)))"
proof (induction merge xs rule: merge_level.induct)
  case (1 merge a b rest)
  then show ?case
    by (cases "merge a b"; cases "merge_level merge rest"; cases "merge_level merge ys") auto
qed (auto simp: rbind_def split: sum.splits)

lemma fixed_tree_level:
  "xs \<noteq> [] \<Longrightarrow> length xs \<le> 2 ^ Suc h \<Longrightarrow>
     fixed_tree merge (Suc h) xs = Inr t \<longleftrightarrow> (\<exists>ys. merge_level merge xs = Inr ys \<and> fixed_tree merge h ys = Inr t)"
proof (induction h arbitrary: xs t)
  case 0
  then consider a where "xs = [a]" | a b where "xs = [a, b]"
    by (cases xs; cases "tl xs") (auto simp: neq_Nil_conv)
  then show ?case by cases auto
next
  case (Suc h)
  show ?case
  proof (cases "length xs \<le> 2 ^ Suc h")
    case True
    have "length ys \<le> 2 ^ h" if "merge_level merge xs = Inr ys" for ys
      using merge_level_length [OF that] True by simp
    then show ?thesis using Suc True by auto
  next
    case False
    let ?l = "take (2 ^ Suc h) xs" and ?r = "drop (2 ^ Suc h) xs"
    have len: "length ?l = 2 ^ Suc h" "length ?r \<le> 2 ^ Suc h" "?l \<noteq> []" "?r \<noteq> []"
      using False Suc.prems by auto
    have IH: "fixed_tree merge (Suc h) ?l = Inr u \<longleftrightarrow> (\<exists>ys. merge_level merge ?l = Inr ys \<and> fixed_tree merge h ys = Inr u)"
      "fixed_tree merge (Suc h) ?r = Inr u \<longleftrightarrow> (\<exists>ys. merge_level merge ?r = Inr ys \<and> fixed_tree merge h ys = Inr u)"
      for u using Suc.IH [of ?l] Suc.IH [of ?r] len by simp_all
    have split: "merge_level merge xs =
        rbind (merge_level merge ?l) (\<lambda>as. rbind (merge_level merge ?r) (\<lambda>bs. Inr (as @ bs)))"
      using merge_level_append [of ?l merge ?r] len(1) by simp
    have join: "fixed_tree merge (Suc h) (as @ bs) =
        rbind (fixed_tree merge h as) (\<lambda>l. rbind (fixed_tree merge h bs) (merge l))"
      if "merge_level merge ?l = Inr as" "merge_level merge ?r = Inr bs" for as bs
      using merge_level_length [OF that(1)] merge_level_length [OF that(2)] len by auto
    have "fixed_tree merge (Suc (Suc h)) xs = Inr t \<longleftrightarrow>
        (\<exists>l r. fixed_tree merge (Suc h) ?l = Inr l \<and> fixed_tree merge (Suc h) ?r = Inr r \<and> merge l r = Inr t)"
      using False by (auto simp del: fixed_tree.simps simp: fixed_tree.simps(2) [of merge "Suc h"])
    also have "\<dots> \<longleftrightarrow> (\<exists>as bs. merge_level merge ?l = Inr as \<and> merge_level merge ?r = Inr bs \<and>
        (\<exists>l r. fixed_tree merge h as = Inr l \<and> fixed_tree merge h bs = Inr r \<and> merge l r = Inr t))"
      unfolding IH by blast
    also have "\<dots> \<longleftrightarrow> (\<exists>ys. merge_level merge xs = Inr ys \<and> fixed_tree merge (Suc h) ys = Inr t)"
      unfolding split using join by (auto simp del: fixed_tree.simps)
    finally show ?thesis .
  qed
qed

lemma reduce_levels_tree:
  "xs \<noteq> [] \<Longrightarrow> length xs \<le> 2 ^ h \<Longrightarrow>
     (\<exists>level. reduce_levels merge xs = Inr level \<and> hd level = t) \<longleftrightarrow> fixed_tree merge h xs = Inr t"
proof (induction h arbitrary: xs)
  case 0
  then have "length xs = 1" by (cases xs) auto
  then show ?case by (auto simp: reduce_levels.simps)
next
  case (Suc h)
  show ?case
  proof (cases "1 < length xs")
    case False
    then have "length xs \<le> 2 ^ h" "length xs = 1" using Suc.prems by (cases xs; auto)+
    then show ?thesis using Suc by simp
  next
    case True
    have step: "ys \<noteq> [] \<and> length ys \<le> 2 ^ h" if "merge_level merge xs = Inr ys" for ys
      using merge_level_length [OF that] True Suc.prems by (auto simp del: length_0_conv simp: length_0_conv [symmetric])
    have "(\<exists>level. reduce_levels merge xs = Inr level \<and> hd level = t) \<longleftrightarrow>
        (\<exists>ys. merge_level merge xs = Inr ys \<and> (\<exists>level. reduce_levels merge ys = Inr level \<and> hd level = t))"
      using True by (subst reduce_levels.simps) auto
    also have "\<dots> \<longleftrightarrow> (\<exists>ys. merge_level merge xs = Inr ys \<and> fixed_tree merge h ys = Inr t)"
      using Suc.IH step by blast
    also have "\<dots> \<longleftrightarrow> fixed_tree merge (Suc h) xs = Inr t"
      using fixed_tree_level [OF Suc.prems] by simp
    finally show ?thesis .
  qed
qed

text \<open>What a merge operation must promise for the reduction to be exact: an additive count and a
  validity that merging establishes.\<close>

locale counted_merge =
  fixes merge :: "'a \<Rightarrow> 'a \<Rightarrow> 'a result" and count :: "'a \<Rightarrow> nat" and valid :: "'a \<Rightarrow> bool"
  assumes count_merge: "merge l r = Inr t \<Longrightarrow> count t = count l + count r"
    and valid_merge: "merge l r = Inr t \<Longrightarrow> valid l \<and> valid r \<and> valid t"
begin

lemma fixed_tree_count:
  "xs \<noteq> [] \<Longrightarrow> length xs \<le> 2 ^ h \<Longrightarrow> fixed_tree merge h xs = Inr t \<Longrightarrow> count t = sum_list (map count xs)"
proof (induction h arbitrary: xs t)
  case 0
  then show ?case by (cases xs) auto
next
  case (Suc h)
  show ?case
  proof (cases "length xs \<le> 2 ^ h")
    case True
    then show ?thesis using Suc by simp
  next
    case False
    let ?l = "take (2 ^ h) xs" and ?r = "drop (2 ^ h) xs"
    obtain l r where lr: "fixed_tree merge h ?l = Inr l" "fixed_tree merge h ?r = Inr r" "merge l r = Inr t"
      using Suc.prems False by auto
    have "count l = sum_list (map count ?l)" "count r = sum_list (map count ?r)"
      using Suc.IH [OF _ _ lr(1)] Suc.IH [OF _ _ lr(2)] False Suc.prems by auto
    moreover have "sum_list (map count xs) = sum_list (map count ?l) + sum_list (map count ?r)"
      by (metis append_take_drop_id map_append sum_list_append)
    ultimately show ?thesis using count_merge [OF lr(3)] by simp
  qed
qed

lemma fixed_tree_valid:
  "1 < length xs \<Longrightarrow> length xs \<le> 2 ^ h \<Longrightarrow> fixed_tree merge h xs = Inr t \<Longrightarrow> valid t"
proof (induction h arbitrary: xs t)
  case (Suc h)
  then show ?case using valid_merge by (cases "length xs \<le> 2 ^ h") auto
qed simp

end

interpretation stats: counted_merge merge_stats "\<lambda>s. unat (stats_n s)" "\<lambda>s. invariant_error None s = None"
proof
  fix l r t
  assume m: "merge_stats l r = Inr t"
  show "unat (stats_n t) = unat (stats_n l) + unat (stats_n r)" using merge_stats_Inr(2) [OF m] .
  show "invariant_error None l = None \<and> invariant_error None r = None \<and> invariant_error None t = None"
    using m merge_stats_Inr(1) [OF m] by (auto simp: merge_stats_def split: option.splits)
qed

lemma reduce_block_results_tree:
  assumes "leaves \<noteq> []" "length leaves \<le> 2 ^ h"
  shows "reduce_block_results leaves = Inr t \<longleftrightarrow> fixed_tree merge_stats h leaves = Inr t"
  using reduce_levels_tree [OF assms, of merge_stats t] assms(1) by (auto simp: reduce_block_results_def)

lemma exists_height: "\<exists>h. n \<le> (2 :: nat) ^ h"
  by (meson less_exp less_imp_le)

lemma reduce_block_results_count:
  assumes "reduce_block_results leaves = Inr t"
  shows "unat (stats_n t) = sum_list (map (\<lambda>s. unat (stats_n s)) leaves)"
proof (cases "leaves = []")
  case True
  then show ?thesis using assms by (auto simp: reduce_block_results_def empty_stats_def)
next
  case False
  obtain h where h: "length leaves \<le> 2 ^ h" using exists_height by blast
  show ?thesis
    using stats.fixed_tree_count [OF False h] reduce_block_results_tree [OF False h] assms by blast
qed

lemma reduce_block_results_valid:
  assumes "reduce_block_results leaves = Inr t" "\<forall>s \<in> set leaves. invariant_error None s = None"
  shows "invariant_error None t = None"
proof -
  have empty: "invariant_error None empty_stats = None"
    by (simp add: invariant_error_def empty_stats_def feq_def)
  consider "leaves = []" | a where "leaves = [a]" | "1 < length leaves"
    by (cases leaves; cases "tl leaves") auto
  then show ?thesis
  proof cases
    case 3
    obtain h where h: "length leaves \<le> 2 ^ h" using exists_height by blast
    have "leaves \<noteq> []" using 3 by auto
    then show ?thesis using stats.fixed_tree_valid [OF 3 h] reduce_block_results_tree [OF _ h] assms(1) by blast
  qed (use assms empty in \<open>auto simp: reduce_block_results_def reduce_levels.simps\<close>)
qed

section \<open>Confidence bounds\<close>

lemma round_sqrt_bound:
  assumes "isfinite d"
  shows "round_sqrt (mag_units (mag d) * unit_scale) < inf_pattern"
proof -
  define n where "n = mag_units (mag d) * unit_scale"
  define q where "q = isqrt n"
  define g where "g = round_shift q"
  have "mag_units (mag d) < mag_units inf_pattern"
    using assms by (simp only: mag_units_less_iff isfinite_def)
  also have "mag_units inf_pattern = 2 ^ 2098" by (simp add: mag_units_def mag_shift_def)
  finally have "n < 2 ^ 2098 * unit_scale" unfolding n_def by (intro mult_strict_right_mono) auto
  also have "\<dots> = 2 ^ 1586 * 2 ^ 1586" by (simp add: unit_scale_def)
  finally have "q * q < 2 ^ 1586 * 2 ^ 1586" using isqrt_correct [of n] by (simp add: q_def)
  then have "q < 2 ^ 1586" by (metis mult_le_mono not_le)
  then have "g \<le> round_shift (2 ^ 1586)" unfolding g_def by (intro round_shift_mono) simp
  also have "round_shift (2 ^ 1586) = 1534" by (rule round_shift_unique) simp_all
  finally have g: "g \<le> 1534" .
  have "q < 2 ^ 53 * 2 ^ g" using round_shift_upper [of q] by (simp only: g_def)
  then have m: "q div 2 ^ g < 2 ^ 53" by (simp add: less_mult_imp_div_less)
  have "round_sqrt n \<le> g * 2 ^ 52 + (q div 2 ^ g + 1)"
    unfolding round_sqrt_def Let_def q_def [symmetric] g_def [symmetric] by simp
  also have "\<dots> \<le> 1534 * 2 ^ 52 + 2 ^ 53"
    using g m by (intro add_mono mult_right_mono) auto
  also have "\<dots> < inf_pattern" by simp
  finally show ?thesis by (simp only: n_def)
qed

lemma fsqrt_nonneg: "\<not> isnan (fsqrt d) \<Longrightarrow> 0 \<le> ord64 (fsqrt d)"
proof -
  assume n: "\<not> isnan (fsqrt d)"
  show "0 \<le> ord64 (fsqrt d)"
  proof (cases "isfinite d \<and> mag d \<noteq> 0 \<and> \<not> signbit d")
    case True
    then show ?thesis using round_sqrt_bound [of d] by (simp add: fsqrt_def)
  next
    case False
    then show ?thesis using n float_cases [of d] by (auto simp: fsqrt_def ord64_def split: if_splits)
  qed
qed

lemma confidence_bound_order:
  assumes lo: "confidence_bound a z False = Inr (Some lo)" and hi: "confidence_bound a z True = Inr (Some hi)"
  shows "ord64 lo \<le> ord64 (stats_mean a) \<and> ord64 (stats_mean a) \<le> ord64 hi"
proof -
  obtain err where err: "standard_error a = Some err"
    and lo': "lo = fsub (stats_mean a) (fmul z err)" "isfinite lo"
    and hi': "hi = fadd (stats_mean a) (fmul z err)" "isfinite hi"
    and hw: "isfinite (fmul z err)" and z: "isfinite z" "0 < ord64 z"
    using lo hi by (auto simp: confidence_bound_def Let_def not_fle_zero split: if_splits option.splits)
  have "\<not> isnan err" using hw isnan_nan64 isfinite_not(1) by (metis fmul_nan(1))
  then have "0 \<le> ord64 err" using err fsqrt_nonneg by (auto simp: standard_error_def split: option.splits)
  with \<open>\<not> isnan err\<close> have h: "0 \<le> ord64 (fmul z err)" "\<not> isnan (fmul z err)"
    using discounted_nonneg [OF z] by auto
  have m: "isfinite (stats_mean a)"
    using lo'(2) hw float_cases [of "stats_mean a"] unfolding lo'(1) by (auto simp: fsub_def fadd_def split: if_splits)
  show ?thesis
    using fsub_nonneg_le [OF m h(2,1)] fadd_nonneg_ge [OF m h(2,1)] lo' hi' by simp
qed
section \<open>Properties\<close>

text \<open>C14. The block partition: whenever \<^verbatim>\<open>make_blocks\<close> succeeds, the half-open ranges of the blocks,
  in block order, enumerate every scenario of the run exactly once; block \<open>i\<close> has the identifier
  \<open>i\<close>, is nonempty, no longer than the configured size, and its boundaries are even when the run is
  antithetic; and there are no more blocks than the configured limit.\<close>

theorem make_blocks_partition:
  assumes "make_blocks spec config = Inr blocks"
  shows "concat (map block_range blocks) = [0..<unat (total_scenarios spec)] \<and>
    length blocks \<le> unat (max_materialized_blocks config) \<and>
    (\<forall>i < length blocks.
       unat (block_id (blocks ! i)) = i \<and> start_scenario (blocks ! i) < end_scenario (blocks ! i) \<and>
       unat (end_scenario (blocks ! i)) \<le> unat (start_scenario (blocks ! i)) + unat (block_size config) \<and>
       (antithetic spec \<longrightarrow> even (unat (start_scenario (blocks ! i))) \<and> even (unat (end_scenario (blocks ! i)))))"
proof -
  note b = make_blocks_Inr [OF assms]
  have size: "unat (end_scenario (blocks ! i)) \<le> unat (start_scenario (blocks ! i)) + unat (block_size config)"
    if "i < length blocks" for i
    using that make_block_unat [OF b(1,2), of i] by (simp add: b(3))
  have "length blocks \<le> unat (max_materialized_blocks config)" using b(3,4) by simp
  then show ?thesis
    using make_blocks_concat [OF assms] make_blocks_nth [OF assms] size by blast
qed

definition witness_block :: scenario_block where
  "witness_block = \<lparr>block_id = 0, start_scenario = 0, end_scenario = 2, run_incarnation = 0, lease_epoch = 1\<rparr>"

lemma witness_config_valid: "validate_engine_config default_engine_config witness_spec = Inr ()"
  by (simp add: validate_engine_config_def default_engine_config_def kMaxWorkerThreads_def
      kDefaultMaxMaterializedBlocks_def witness_spec_def word_less_nat_alt)

lemma witness_blocks: "make_blocks witness_spec default_engine_config = Inr [witness_block]"
proof -
  have t: "total_scenarios witness_spec = 2" by (simp add: witness_spec_def)
  have "unat (blocks_needed witness_spec default_engine_config) = 1"
    using blocks_needed_unat [OF _ witness_config_valid] witness_spec_valid
    by (simp add: valid_spec_def t default_engine_config_def)
  then have n: "blocks_needed witness_spec default_engine_config = 1" by (intro u64_eqI) simp
  have "make_block witness_spec default_engine_config 0 = witness_block"
    by (simp add: make_block_def witness_block_def t default_engine_config_def min_def word_le_nat_alt)
  moreover have "max_materialized_blocks default_engine_config = 1000000"
    by (simp add: default_engine_config_def kDefaultMaxMaterializedBlocks_def)
  ultimately show ?thesis
    unfolding make_blocks_def witness_spec_valid witness_config_valid n Let_def rbind_simps
    by (simp add: word_less_nat_alt)
qed

theorem make_blocks_partition_witness:
  "make_blocks witness_spec default_engine_config = Inr [witness_block] \<and>
   concat (map block_range [witness_block]) = [0..<unat (total_scenarios witness_spec)]"
  using make_blocks_partition [OF witness_blocks] witness_blocks by blast

text \<open>C15. A block of the partition that the engine computes, for any C library, is a well-formed
  aggregate: it holds exactly one observation per scenario (per pair when antithetic), its mean
  lies between its extrema, and it passes the coordinator's semantic checks for that count exactly
  when its sum of squares is finite.\<close>

theorem compute_block_valid:
  assumes "make_blocks spec config = Inr blocks" "i < length blocks"
    and "compute_block L spec (blocks ! i) = Inr t"
  shows "unat (stats_n t) = (unat (end_scenario (blocks ! i)) - unat (start_scenario (blocks ! i)))
                              div (if antithetic spec then 2 else 1) \<and>
    val (stats_min t) \<le> val (stats_mean t) \<and> val (stats_mean t) \<le> val (stats_max t) \<and>
    (invariant_error (Some (stats_n t)) t = None \<longleftrightarrow> isfinite (stats_m2 t))"
proof -
  note b = make_blocks_nth [OF assms(1,2)]
  note ok = compute_block_ok [OF b(2,3) b(4) assms(3)]
  have nz: "stats_n t \<noteq> 0" using ok(1) by (simp add: stats_ok_def)
  have "invariant_error (Some (stats_n t)) t = None \<longleftrightarrow> isfinite (stats_m2 t)"
    using stats_ok_checks [OF ok(1)] invariant_error_finite [OF _ nz] by blast
  moreover have "val (stats_min t) \<le> val (stats_mean t)" "val (stats_mean t) \<le> val (stats_max t)"
    using ok(1) by (auto simp: val_le_iff stats_ok_def)
  ultimately show ?thesis using ok(2) by (simp add: expected_observations_def stride_def)
qed

definition witness_stats :: aggregate_stats where
  "witness_stats = \<lparr>stats_n = 1, stats_mean = zero64, stats_m2 = zero64, stats_min = zero64, stats_max = zero64\<rparr>"

lemma witness_pair: "kernel_antithetic_pair_mean witness_libm (GbmKernel witness_gbm) 0 = Inr zero64"
  using kernel_pair_iff [OF witness_kernel witness_spec_fields(1) _ witness_spec_fields(2), of zero64]
    witness_payoffs half_zero
  by simp

lemma witness_compute: "compute_block witness_libm witness_spec witness_block = Inr witness_stats"
proof -
  have v: "visited_scenarios 0 2 2 = [0]" by (simp add: visited_scenarios_def)
  have o: "observe_all (kernel_antithetic_pair_mean witness_libm (GbmKernel witness_gbm)) [0] = Inr witness_stats"
    unfolding observe_all_def fold_result.simps witness_pair rbind_simps
    by (simp add: add_observation_def empty_stats_def witness_stats_def del: rbind_eq_Inr)
  have f: "kernel_spec (GbmKernel witness_gbm) = witness_spec" "antithetic witness_spec"
    "total_scenarios witness_spec = 2" "start_scenario witness_block = 0" "end_scenario witness_block = 2"
    by (simp_all add: witness_gbm_def witness_spec_def witness_block_def)
  show ?thesis
    unfolding compute_block_def witness_kernel rbind_simps compute_block_with_kernel_def f Let_def v
    by (simp add: o word_le_nat_alt f(2))
qed

theorem compute_block_valid_witness:
  "compute_block witness_libm witness_spec witness_block = Inr witness_stats \<and>
   unat (stats_n witness_stats) = 1 \<and> isfinite (stats_m2 witness_stats) \<and>
   invariant_error (Some (stats_n witness_stats)) witness_stats = None"
proof -
  have s: "unat (stats_n witness_stats) = 1" "isfinite (stats_m2 witness_stats)"
    by (simp_all add: witness_stats_def)
  have "compute_block witness_libm witness_spec ([witness_block] ! 0) = Inr witness_stats"
    using witness_compute by simp
  moreover have "0 < length [witness_block]" by simp
  ultimately have "invariant_error (Some (stats_n witness_stats)) witness_stats = None"
    using compute_block_valid [OF witness_blocks, of 0 witness_libm witness_stats] s(2) by blast
  with s witness_compute show ?thesis by blast
qed

text \<open>C16. The level-by-level pairwise reduction computes the fixed binary tree over block positions:
  for any height that holds the leaves it returns exactly what the recursively defined tree
  returns, so the shape depends on the number of blocks alone.\<close>

theorem reduction_is_fixed_tree:
  assumes "leaves \<noteq> []" "length leaves \<le> 2 ^ h"
  shows "reduce_block_results leaves = Inr t \<longleftrightarrow> fixed_tree merge_stats h leaves = Inr t"
  by (rule reduce_block_results_tree [OF assms])

theorem reduction_is_fixed_tree_witness:
  "reduce_block_results [witness_stats] = Inr witness_stats \<longleftrightarrow>
   fixed_tree merge_stats 3 [witness_stats] = Inr witness_stats"
  by (rule reduction_is_fixed_tree) simp_all

text \<open>The reduction loses and invents no observation: the count of the reduced aggregate is the sum
  of the leaf counts, without wrap-around, and the result passes the semantic checks when the leaves do.\<close>

theorem reduction_counts:
  assumes "reduce_block_results leaves = Inr t" "\<forall>s \<in> set leaves. invariant_error None s = None"
  shows "unat (stats_n t) = sum_list (map (\<lambda>s. unat (stats_n s)) leaves) \<and> invariant_error None t = None"
  using reduce_block_results_count [OF assms(1)] reduce_block_results_valid [OF assms] by blast

theorem reduction_counts_witness:
  "reduce_block_results [empty_stats, sample_stats, empty_stats] = Inr sample_stats \<and>
   unat (stats_n sample_stats) = sum_list (map (\<lambda>s. unat (stats_n s)) [empty_stats, sample_stats, empty_stats])"
proof -
  have e: "invariant_error None empty_stats = None"
    by (simp add: invariant_error_def empty_stats_def feq_def)
  have m: "merge_stats empty_stats sample_stats = Inr sample_stats"
    "merge_stats sample_stats empty_stats = Inr sample_stats"
    by (simp_all add: merge_stats_def e sample_stats_ok) (simp_all add: empty_stats_def sample_stats_def)
  have r: "reduce_block_results [empty_stats, sample_stats, empty_stats] = Inr sample_stats"
    by (simp add: reduce_block_results_def reduce_levels.simps m)
  with reduction_counts [OF r] e sample_stats_ok show ?thesis by simp
qed

text \<open>Confidence bounds: when a lower and an upper bound are reported they enclose the mean, the
  run has at least thirty observations, and both are finite.\<close>

theorem confidence_bounds_enclose_mean:
  assumes "confidence_low r z = Inr (Some lo)" "confidence_high r z = Inr (Some hi)"
  shows "val lo \<le> val (stats_mean (result_aggregate r)) \<and> val (stats_mean (result_aggregate r)) \<le> val hi \<and>
    30 \<le> unat (stats_n (result_aggregate r)) \<and> isfinite lo \<and> isfinite hi"
proof -
  let ?a = "result_aggregate r"
  have lo: "confidence_bound ?a z False = Inr (Some lo)" and hi: "confidence_bound ?a z True = Inr (Some hi)"
    using assms by (simp_all add: confidence_low_def confidence_high_def)
  have "\<not> stats_n ?a < kMinNormalConfidenceObservations" "isfinite lo" "isfinite hi"
    using lo hi by (auto simp: confidence_bound_def Let_def split: if_splits option.splits)
  then show ?thesis
    using confidence_bound_order [OF lo hi]
    by (auto simp: val_le_iff kMinNormalConfidenceObservations_def word_less_nat_alt)
qed

definition witness_result :: run_result where
  "witness_result = \<lparr>result_aggregate = \<lparr>stats_n = 30, stats_mean = zero64, stats_m2 = zero64,
     stats_min = zero64, stats_max = zero64\<rparr>, scenarios_processed = 30, block_count = 1, workers_used = 1\<rparr>"

theorem confidence_bounds_enclose_mean_witness:
  "\<exists>lo hi. confidence_low witness_result one64 = Inr (Some lo) \<and> confidence_high witness_result one64 = Inr (Some hi) \<and>
     val lo \<le> 0 \<and> 0 \<le> val hi"
proof -
  have u: "isfinite (of_u64 n) \<and> mag (of_u64 n) \<noteq> 0 \<and> \<not> signbit (of_u64 n)" if "0 < unat n" "unat n < 2 ^ 53" for n
    using of_u64_exact [OF that(2)] of_u64_bounds(1) [of n] that(1) by (metis mag_units_0 mult_is_0 neq0_conv unit_scale_pos)
  have d: "fdiv zero64 (of_u64 n) = zero64" if "0 < unat n" "unat n < 2 ^ 53" for n
    using u [OF that] by (simp add: fdiv_def Let_def zero_pattern)
  have e: "standard_error (result_aggregate witness_result) = Some zero64"
    by (simp add: standard_error_def sample_variance_def witness_result_def d word_less_nat_alt fsqrt_def)
  have n: "fsub zero64 zero64 = zero64" by (simp add: fsub_self)
  have c: "confidence_bound (result_aggregate witness_result) one64 upper = Inr (Some zero64)" for upper
    using e by (simp add: confidence_bound_def fle_def kMinNormalConfidenceObservations_def fmul_one n
        fadd_zero_zero) (simp add: witness_result_def n fadd_zero_zero)
  have l: "confidence_low witness_result one64 = Inr (Some zero64)"
    and h: "confidence_high witness_result one64 = Inr (Some zero64)"
    by (simp_all add: confidence_low_def confidence_high_def c)
  from confidence_bounds_enclose_mean [OF l h] l h show ?thesis by (auto simp: val_def)
qed

end
