(* ===== verification/Number_Text.thy ===== *)
theory Number_Text
  imports Sha256_Hash Engine_Blocks
begin

text \<open>
  Numbers as text: \<^verbatim>\<open>std::from_chars\<close> as the sources use it, the strict integer parsers of
  \<^verbatim>\<open>src/parse.cpp\<close>, the fixed-width numbers and file names of \<^verbatim>\<open>src/run_store.cpp\<close>, and
  the hexadecimal fields of \<^verbatim>\<open>src/failure_injection.cpp\<close>, with the proof that printing and
  parsing are inverse to each other.
\<close>

section \<open>Digits\<close>

definition digit_value :: "nat \<Rightarrow> char \<Rightarrow> nat option" where
  "digit_value base c =
     (let n = of_char c :: nat;
          d = if 48 \<le> n \<and> n \<le> 57 then n - 48
              else if 97 \<le> n \<and> n \<le> 122 then n - 87
              else if 65 \<le> n \<and> n \<le> 90 then n - 55
              else base
      in if d < base then Some d else None)"

definition is_digit :: "nat \<Rightarrow> char \<Rightarrow> bool" where
  "is_digit base c \<longleftrightarrow> digit_value base c \<noteq> None"

definition text_value :: "nat \<Rightarrow> string \<Rightarrow> nat" where
  "text_value base ds = foldl (\<lambda>acc c. acc * base + the (digit_value base c)) 0 ds"

text \<open>\<^verbatim>\<open>std::from_chars\<close> into an unsigned 64-bit value: the longest prefix of digits, with the
  text after it.\<close>

datatype from_chars_result =
    Parsed u64 string
  | Result_out_of_range string
  | Not_a_number

definition from_chars :: "nat \<Rightarrow> string \<Rightarrow> from_chars_result" where
  "from_chars base text =
     (let ds = takeWhile (is_digit base) text; rest = dropWhile (is_digit base) text
      in if ds = [] then Not_a_number
         else if 18446744073709551616 \<le> text_value base ds then Result_out_of_range rest
         else Parsed (of_nat (text_value base ds)) rest)"

section \<open>Strict parsers\<close>

definition parse_error :: "string \<Rightarrow> string \<Rightarrow> exn" where
  "parse_error field_name detail = Invalid_argument (field_name @ '': '' @ detail)"

definition parse_u64 :: "string \<Rightarrow> string \<Rightarrow> u64 result" where
  "parse_u64 text field_name =
     (if text = [] \<or> hd text = CHR ''-'' \<or> hd text = CHR ''+''
      then Inl (parse_error field_name ''expected an unsigned base-10 integer'')
      else case from_chars 10 text of
             Result_out_of_range rest \<Rightarrow> Inl (parse_error field_name ''integer is out of range'')
           | Not_a_number \<Rightarrow>
               Inl (parse_error field_name ''expected an unsigned base-10 integer with no trailing text'')
           | Parsed v rest \<Rightarrow>
               if rest \<noteq> []
               then Inl (parse_error field_name ''expected an unsigned base-10 integer with no trailing text'')
               else Inr v)"

definition parse_size :: "string \<Rightarrow> string \<Rightarrow> u64 result" where
  "parse_size text field_name =
     rbind (parse_u64 text field_name) (\<lambda>v.
       if u64_max < v then Inl (parse_error field_name ''value does not fit size_t'') else Inr v)"

definition parse_hex_u64 :: "string \<Rightarrow> string \<Rightarrow> u64 result" where
  "parse_hex_u64 text field =
     (if length text \<noteq> 16
      then Inl (Runtime_error (field @ '' must contain 16 hexadecimal digits''))
      else case from_chars 16 text of
             Parsed v [] \<Rightarrow> Inr v
           | _ \<Rightarrow> Inl (Runtime_error (field @ '' is not canonical hexadecimal'')))"

definition parse_u8 :: "string \<Rightarrow> string \<Rightarrow> u8 result" where
  "parse_u8 text field =
     rbind (parse_u64 text field) (\<lambda>v.
       if 0xFF < v then Inl (Runtime_error (field @ '' exceeds uint8'')) else Inr (ucast v))"

definition parse_u32 :: "string \<Rightarrow> string \<Rightarrow> u32 result" where
  "parse_u32 text field =
     rbind (parse_u64 text field) (\<lambda>v.
       if 0xFFFFFFFF < v then Inl (Runtime_error (field @ '' exceeds uint32'')) else Inr (ucast v))"

fun parse_digest_bytes :: "string \<Rightarrow> string \<Rightarrow> bytes result" where
  "parse_digest_bytes field (a # b # rest) =
     (case from_chars 16 [a, b] of
        Parsed v [] \<Rightarrow> rbind (parse_digest_bytes field rest) (\<lambda>bs. Inr (ucast v # bs))
      | _ \<Rightarrow> Inl (Runtime_error (field @ '' is not canonical hexadecimal'')))"
| "parse_digest_bytes field _ = Inr []"

definition parse_digest :: "string \<Rightarrow> string \<Rightarrow> sha256_digest result" where
  "parse_digest text field =
     (if length text \<noteq> 64
      then Inl (Runtime_error (field @ '' must contain 64 hexadecimal digits''))
      else parse_digest_bytes field text)"

section \<open>Printing\<close>

text \<open>\<^verbatim>\<open>setw(20) << setfill('0')\<close> in front of a decimal number, and 16 hexadecimal digits.\<close>

definition padded_number :: "u64 \<Rightarrow> string" where
  "padded_number v = replicate (20 - length (decimal (unat v))) CHR ''0'' @ decimal (unat v)"

fun hexadecimal :: "nat \<Rightarrow> string" where
  "hexadecimal n =
     (if n < 16 then [hex_digits ! n] else hexadecimal (n div 16) @ [hex_digits ! (n mod 16)])"

declare hexadecimal.simps [simp del]

definition bits_hex :: "double \<Rightarrow> string" where
  "bits_hex d = (let text = hexadecimal (unat (bits_of d)) in replicate (16 - length text) CHR ''0'' @ text)"

section \<open>File names of the run store\<close>

definition manifest_name :: "u64 \<Rightarrow> string" where
  "manifest_name sequence = ''manifest_'' @ padded_number sequence @ ''.bin''"

definition block_name :: "scenario_block \<Rightarrow> string" where
  "block_name block =
     ''block_'' @ padded_number (block_id block) @ ''_inc_'' @ padded_number (run_incarnation block) @
     ''_epoch_'' @ padded_number (lease_epoch block) @ ''.bin''"

text \<open>\<^verbatim>\<open>name.compare(offset, text.size(), text) == 0\<close> for a name that is long enough.\<close>

definition has_at :: "nat \<Rightarrow> string \<Rightarrow> string \<Rightarrow> bool" where
  "has_at offset text name \<longleftrightarrow> take (length text) (drop offset name) = text"

definition parse_field :: "string \<Rightarrow> nat \<Rightarrow> u64 option" where
  "parse_field name offset =
     (case from_chars 10 (take 20 (drop offset name)) of Parsed v [] \<Rightarrow> Some v | _ \<Rightarrow> None)"

definition parse_manifest_sequence :: "string \<Rightarrow> u64 option" where
  "parse_manifest_sequence name =
     (if length name \<noteq> 9 + 20 + 4 \<or> \<not> has_at 0 ''manifest_'' name \<or> \<not> has_at (9 + 20) ''.bin'' name
      then None
      else parse_field name 9)"

definition parse_block_result_filename :: "string \<Rightarrow> scenario_block option" where
  "parse_block_result_filename name =
     (let digits = 20;
          incarnation_offset = 6 + digits;
          incarnation_digits = incarnation_offset + 5;
          epoch_offset = incarnation_digits + digits;
          epoch_digits = epoch_offset + 7;
          suffix_offset = epoch_digits + digits
      in if length name \<noteq> suffix_offset + 4 \<or> \<not> has_at 0 ''block_'' name \<or>
            \<not> has_at incarnation_offset ''_inc_'' name \<or> \<not> has_at epoch_offset ''_epoch_'' name \<or>
            \<not> has_at suffix_offset ''.bin'' name
         then None
         else case (parse_field name 6, parse_field name incarnation_digits, parse_field name epoch_digits) of
                (Some b, Some inc, Some epoch) \<Rightarrow>
                  Some \<lparr>block_id = b, start_scenario = 0, end_scenario = 0, run_incarnation = inc, lease_epoch = epoch\<rparr>
              | _ \<Rightarrow> None)"

section \<open>Fixed-width digit strings\<close>

fun pad :: "nat \<Rightarrow> nat \<Rightarrow> nat \<Rightarrow> string" where
  "pad base 0 x = []"
| "pad base (Suc n) x = pad base n (x div base) @ [hex_digits ! (x mod base)]"

lemma length_pad [simp]: "length (pad base n x) = n"
  by (induction n arbitrary: x) simp_all

lemma less_16: "(d :: nat) < 16 \<Longrightarrow>
    d = 0 \<or> d = 1 \<or> d = 2 \<or> d = 3 \<or> d = 4 \<or> d = 5 \<or> d = 6 \<or> d = 7 \<or> d = 8 \<or> d = 9 \<or> d = 10 \<or> d = 11 \<or>
    d = 12 \<or> d = 13 \<or> d = 14 \<or> d = 15"
  by arith

lemma digit_value_hex_digit: "d < base \<Longrightarrow> base \<le> 16 \<Longrightarrow> digit_value base (hex_digits ! d) = Some d"
  using less_16 [of d] by (auto simp: hex_digits_def digit_value_def)

lemma decimal_digit: "d < 10 \<Longrightarrow> char_of (48 + d) = hex_digits ! d"
  using less_16 [of d] by (auto simp: hex_digits_def char_of_def bit_0)

lemma pad_digits: "2 \<le> base \<Longrightarrow> base \<le> 16 \<Longrightarrow> c \<in> set (pad base n x) \<Longrightarrow> is_digit base c"
  by (induction n arbitrary: x) (auto simp: is_digit_def digit_value_hex_digit)

lemma text_value_snoc:
  "text_value base (ds @ [c]) = text_value base ds * base + the (digit_value base c)"
  by (simp add: text_value_def)

lemma text_value_pad: "2 \<le> base \<Longrightarrow> base \<le> 16 \<Longrightarrow> x < base ^ n \<Longrightarrow> text_value base (pad base n x) = x"
proof (induction n arbitrary: x)
  case (Suc n)
  have "x div base < base ^ n" using Suc.prems by (simp add: less_mult_imp_div_less mult.commute)
  then show ?case using Suc by (simp add: text_value_snoc digit_value_hex_digit)
qed (simp add: text_value_def)

lemma pad_0: "pad base n 0 = replicate n CHR ''0''"
proof (induction n)
  case (Suc n)
  then show ?case by (simp add: hex_digits_def replicate_append_same)
qed simp

lemma decimal_pad:
  "x < 10 ^ n \<Longrightarrow> 0 < n \<Longrightarrow> length (decimal x) \<le> n \<and> replicate (n - length (decimal x)) CHR ''0'' @ decimal x = pad 10 n x"
proof (induction n arbitrary: x)
  case (Suc n)
  show ?case
  proof (cases "x < 10")
    case True
    then show ?thesis by (simp add: decimal.simps [of x] decimal_digit pad_0)
  next
    case False
    then have "x div 10 < 10 ^ n" "0 < n" using Suc.prems by (auto simp: less_mult_imp_div_less intro: Nat.gr0I)
    from Suc.IH [OF this] False show ?thesis by (simp add: decimal.simps [of x] decimal_digit)
  qed
qed simp

lemma hexadecimal_pad:
  "x < 16 ^ n \<Longrightarrow> 0 < n \<Longrightarrow>
     length (hexadecimal x) \<le> n \<and> replicate (n - length (hexadecimal x)) CHR ''0'' @ hexadecimal x = pad 16 n x"
proof (induction n arbitrary: x)
  case (Suc n)
  show ?case
  proof (cases "x < 16")
    case True
    then show ?thesis by (simp add: hexadecimal.simps [of x] pad_0)
  next
    case False
    then have "x div 16 < 16 ^ n" "0 < n" using Suc.prems by (auto simp: less_mult_imp_div_less intro: Nat.gr0I)
    from Suc.IH [OF this] False show ?thesis by (simp add: hexadecimal.simps [of x])
  qed
qed simp

lemma padded_number_pad: "padded_number v = pad 10 20 (unat v)"
proof -
  have "unat v < 100000000000000000000" using unat_less_2_64 [of v] by linarith
  then show ?thesis using decimal_pad [of "unat v" 20] by (simp add: padded_number_def)
qed

lemma bits_hex_pad: "bits_hex d = pad 16 16 (unat (bits_of d))"
  using hexadecimal_pad [of "unat (bits_of d)" 16] le_less_trans [OF _ unat_less_2_64, of "unat (bits_of d)" "bits_of d"]
  by (simp add: bits_hex_def Let_def)

text \<open>A string of decimal digits is the fixed-width form of its value.\<close>

lemma decimal_digit_char: "digit_value 10 c = Some d \<Longrightarrow> c = hex_digits ! d"
proof -
  assume "digit_value 10 c = Some d"
  then have d: "d < 10" "of_char c = 48 + d"
    by (auto simp: digit_value_def Let_def split: if_splits)
  then have "c = char_of (48 + d)" by (metis char_of_char)
  then show ?thesis using decimal_digit [OF d(1)] by simp
qed

lemma digits_pad: "list_all (is_digit 10) ds \<Longrightarrow> ds = pad 10 (length ds) (text_value 10 ds)"
proof (induction ds rule: rev_induct)
  case (snoc c ds)
  obtain d where d: "digit_value 10 c = Some d" using snoc.prems by (auto simp: is_digit_def)
  then have "d < 10" by (auto simp: digit_value_def Let_def split: if_splits)
  then have q: "(text_value 10 ds * 10 + d) div 10 = text_value 10 ds" "(text_value 10 ds * 10 + d) mod 10 = d"
    by simp_all
  have v: "text_value 10 (ds @ [c]) = text_value 10 ds * 10 + d" by (simp add: text_value_snoc d)
  have "pad 10 (length (ds @ [c])) (text_value 10 (ds @ [c])) = pad 10 (length ds) (text_value 10 ds) @ [hex_digits ! d]"
    unfolding v by (simp only: length_append_singleton pad.simps q)
  also have "\<dots> = ds @ [c]" using snoc decimal_digit_char [OF d] by simp
  finally show ?case by (rule sym)
qed simp

section \<open>Parsing what was printed\<close>

lemma from_chars_all:
  "from_chars base ds = Parsed v [] \<longleftrightarrow>
     ds \<noteq> [] \<and> list_all (is_digit base) ds \<and> text_value base ds = unat v"
proof (cases "list_all (is_digit base) ds")
  case True
  then have t: "takeWhile (is_digit base) ds = ds" by (simp add: list_all_iff)
  then have "dropWhile (is_digit base) ds = []" using takeWhile_dropWhile_id [of "is_digit base" ds] by simp
  moreover have "\<not> 18446744073709551616 \<le> unat v" using unat_less_2_64 [of v] by linarith
  ultimately show ?thesis using True by (auto simp: from_chars_def Let_def t unat_of_nat_u64)
next
  case False
  then have "dropWhile (is_digit base) ds \<noteq> []" by (simp add: list_all_iff)
  then show ?thesis using False by (auto simp: from_chars_def Let_def)
qed

lemma parse_u64_Inr:
  "parse_u64 text f = Inr v \<longleftrightarrow> text \<noteq> [] \<and> list_all (is_digit 10) text \<and> text_value 10 text = unat v"
proof -
  have "from_chars 10 text = Parsed v [] \<Longrightarrow> hd text \<noteq> CHR ''-'' \<and> hd text \<noteq> CHR ''+''"
    by (cases "text") (auto simp: from_chars_all is_digit_def digit_value_def)
  then show ?thesis
    unfolding parse_u64_def from_chars_all [symmetric]
    by (cases "from_chars 10 text") (auto simp: from_chars_def split: if_splits)
qed

lemma is_digit_hex_digit: "d < base \<Longrightarrow> base \<le> 16 \<Longrightarrow> is_digit base (hex_digits ! d)"
  by (simp add: is_digit_def digit_value_hex_digit)

lemma decimal_digits: "decimal n \<noteq> [] \<and> list_all (is_digit 10) (decimal n) \<and> text_value 10 (decimal n) = n"
proof (induction n rule: decimal.induct)
  case (1 n)
  show ?case
  proof (cases "n < 10")
    case True
    then show ?thesis
      by (simp add: decimal.simps [of n] decimal_digit is_digit_hex_digit digit_value_hex_digit text_value_def)
  next
    case False
    then have "list_all (is_digit 10) (decimal (n div 10))" "text_value 10 (decimal (n div 10)) = n div 10"
      using 1 by auto
    then show ?thesis using False
      by (simp add: decimal.simps [of n] decimal_digit is_digit_hex_digit digit_value_hex_digit text_value_snoc)
  qed
qed

lemma parse_u64_decimal [simp]: "parse_u64 (decimal (unat v)) f = Inr v"
  using decimal_digits [of "unat v"] by (simp add: parse_u64_Inr)

lemma parse_size_decimal [simp]: "parse_size (decimal (unat v)) f = Inr v"
proof -
  have "\<not> u64_max < v" using u64_le_max [of v] by (simp add: not_less)
  then show ?thesis by (simp add: parse_size_def)
qed

lemma parse_u32_decimal [simp]: "parse_u32 (decimal (unat (w :: u32))) f = Inr w"
proof -
  note w = widen_u32(1) [of w]
  have "unat w \<le> 4294967295" using unsigned_less [of w, where 'a = nat] by simp
  then have "\<not> 0xFFFFFFFF < (ucast w :: u64)" by (simp add: word_less_nat_alt w)
  moreover have "parse_u64 (decimal (unat w)) f = Inr (ucast w)" using parse_u64_decimal [of "ucast w" f] by (simp add: w)
  ultimately show ?thesis by (simp add: parse_u32_def widen_u32)
qed

lemma parse_u8_decimal [simp]: "parse_u8 (decimal (unat (w :: u8))) f = Inr w"
proof -
  note w = widen_u8(1) [of w]
  have "unat w \<le> 255" using unsigned_less [of w, where 'a = nat] by simp
  then have "\<not> 0xFF < (ucast w :: u64)" by (simp add: word_less_nat_alt w)
  moreover have "parse_u64 (decimal (unat w)) f = Inr (ucast w)" using parse_u64_decimal [of "ucast w" f] by (simp add: w)
  ultimately show ?thesis by (simp add: parse_u8_def widen_u8)
qed

lemma parse_pad:
  assumes "2 \<le> base" "base \<le> 16" "x < base ^ n" "0 < n" "x < 18446744073709551616"
  shows "from_chars base (pad base n x) = Parsed (of_nat x) []"
proof -
  have "pad base n x \<noteq> []" using assms(4) length_pad [of base n x] by fastforce
  moreover have "list_all (is_digit base) (pad base n x)" using pad_digits assms(1,2) by (simp add: list_all_iff)
  ultimately show ?thesis using assms by (simp add: from_chars_all text_value_pad)
qed

lemma parse_bits_hex [simp]: "parse_hex_u64 (bits_hex d) f = Inr (bits_of d)"
proof -
  have "unat (bits_of d) < 18446744073709551616" by simp
  then have "from_chars 16 (pad 16 16 (unat (bits_of d))) = Parsed (bits_of d) []"
    using parse_pad [of 16 "unat (bits_of d)" 16] by simp
  then show ?thesis by (simp add: parse_hex_u64_def bits_hex_pad)
qed

lemma hex_byte: "from_chars 16 [hex_digits ! unat (drop_bit 4 b), hex_digits ! unat (b AND 0x0F)] = Parsed (ucast (b :: u8)) []"
proof -
  have lo: "unat (b AND 0x0F) = unat b mod 16"
    using take_bit_eq_mask [of 4 b] unsigned_take_bit_eq [of 4 b, where 'a = nat]
    by (simp add: mask_eq_exp_minus_1 take_bit_eq_mod)
  have hi: "unat (drop_bit 4 b) = unat b div 16" unfolding unat_drop_bit_eq by (simp add: drop_bit_eq_div)
  have b: "unat b < 256" using unsigned_less [of b, where 'a = nat] by simp
  then have "[hex_digits ! unat (drop_bit 4 b), hex_digits ! unat (b AND 0x0F)] = pad 16 2 (unat b)"
    by (simp add: lo hi numeral_2_eq_2)
  moreover have "of_nat (unat b) = (ucast b :: u64)" by (simp add: widen_u8(1) [symmetric])
  ultimately show ?thesis using parse_pad [of 16 "unat b" 2] b by simp
qed

lemma length_to_hex: "length (to_hex bs) = 2 * length bs"
  by (induction bs) (simp_all add: to_hex_def)

lemma parse_to_hex [simp]: "length d = 32 \<Longrightarrow> parse_digest (to_hex d) f = Inr d"
proof -
  have "parse_digest_bytes f (to_hex bs) = Inr bs" for bs
    by (induction bs) (simp_all add: to_hex_def hex_byte widen_u8)
  then show "length d = 32 \<Longrightarrow> ?thesis" by (simp add: parse_digest_def length_to_hex)
qed

section \<open>File names and identities correspond one to one\<close>

lemma parse_twenty_digits:
  assumes "length ds = 20"
  shows "from_chars 10 ds = Parsed v [] \<longleftrightarrow> ds = padded_number v"
proof
  assume "from_chars 10 ds = Parsed v []"
  then have "list_all (is_digit 10) ds" "text_value 10 ds = unat v" by (auto simp: from_chars_all)
  then show "ds = padded_number v" using digits_pad [of ds] assms by (simp add: padded_number_pad)
next
  assume ds: "ds = padded_number v"
  have "unat v < 18446744073709551616" by simp
  then show "from_chars 10 ds = Parsed v []"
    unfolding ds padded_number_pad using parse_pad [of 10 "unat v" 20] by simp
qed

lemma length_padded_number [simp]: "length (padded_number v) = 20"
  by (simp add: padded_number_pad)

lemma parse_field_Some:
  assumes "offset + 20 \<le> length name"
  shows "parse_field name offset = Some v \<longleftrightarrow> take 20 (drop offset name) = padded_number v"
  using parse_twenty_digits [of "take 20 (drop offset name)" v] assms
  by (auto simp: parse_field_def split: from_chars_result.splits list.splits)

lemma has_at_literals:
  "has_at k ''manifest_'' name \<longleftrightarrow> take 9 (drop k name) = ''manifest_''"
  "has_at k ''.bin'' name \<longleftrightarrow> take 4 (drop k name) = ''.bin''"
  "has_at k ''block_'' name \<longleftrightarrow> take 6 (drop k name) = ''block_''"
  "has_at k ''_inc_'' name \<longleftrightarrow> take 5 (drop k name) = ''_inc_''"
  "has_at k ''_epoch_'' name \<longleftrightarrow> take 7 (drop k name) = ''_epoch_''"
  by (simp_all add: has_at_def numeral_eq_Suc)

lemma cut: "name = take k name @ drop k name" "drop j (drop k name) = drop (k + j) name"
  by (simp_all add: add.commute)

lemma manifest_name_iff: "parse_manifest_sequence name = Some s \<longleftrightarrow> name = manifest_name s"
proof
  assume p: "parse_manifest_sequence name = Some s"
  then have l: "length name = 33" and h: "take 9 name = ''manifest_''" "take 4 (drop 29 name) = ''.bin''"
    by (auto simp: parse_manifest_sequence_def has_at_literals split: if_splits)
  have f: "take 20 (drop 9 name) = padded_number s"
    using p l by (auto simp: parse_manifest_sequence_def parse_field_Some split: if_splits)
  have "name = take 9 name @ drop 9 name" by (rule cut)
  also have "drop 9 name = take 20 (drop 9 name) @ drop 29 name" using cut(1) [of "drop 9 name" 20] by (simp add: cut(2))
  also have "drop 29 name = take 4 (drop 29 name)" using l by simp
  finally show "name = manifest_name s" unfolding h f by (simp add: manifest_name_def)
next
  assume n: "name = manifest_name s"
  show "parse_manifest_sequence name = Some s"
    by (simp add: n parse_manifest_sequence_def has_at_def manifest_name_def parse_field_Some)
qed

lemma block_name_iff:
  "parse_block_result_filename name = Some b \<longleftrightarrow>
     name = block_name b \<and> start_scenario b = 0 \<and> end_scenario b = 0"
proof
  assume p: "parse_block_result_filename name = Some b"
  then have l: "length name = 82"
    and h: "take 6 name = ''block_''" "take 5 (drop 26 name) = ''_inc_''" "take 7 (drop 51 name) = ''_epoch_''"
      "take 4 (drop 78 name) = ''.bin''"
    by (auto simp: parse_block_result_filename_def has_at_literals Let_def split: if_splits)
  have f: "take 20 (drop 6 name) = padded_number (block_id b)" "take 20 (drop 31 name) = padded_number (run_incarnation b)"
      "take 20 (drop 58 name) = padded_number (lease_epoch b)" "start_scenario b = 0" "end_scenario b = 0"
    using p l by (auto simp: parse_block_result_filename_def parse_field_Some Let_def split: if_splits option.splits)
  have "name = take 6 name @ drop 6 name" by (rule cut)
  also have "drop 6 name = take 20 (drop 6 name) @ drop 26 name" using cut(1) [of "drop 6 name" 20] by (simp add: cut(2))
  also have "drop 26 name = take 5 (drop 26 name) @ drop 31 name" using cut(1) [of "drop 26 name" 5] by (simp add: cut(2))
  also have "drop 31 name = take 20 (drop 31 name) @ drop 51 name" using cut(1) [of "drop 31 name" 20] by (simp add: cut(2))
  also have "drop 51 name = take 7 (drop 51 name) @ drop 58 name" using cut(1) [of "drop 51 name" 7] by (simp add: cut(2))
  also have "drop 58 name = take 20 (drop 58 name) @ drop 78 name" using cut(1) [of "drop 58 name" 20] by (simp add: cut(2))
  also have "drop 78 name = take 4 (drop 78 name)" using l by simp
  finally have "name = block_name b" unfolding h f by (simp add: block_name_def)
  then show "name = block_name b \<and> start_scenario b = 0 \<and> end_scenario b = 0" using f by simp
next
  assume n: "name = block_name b \<and> start_scenario b = 0 \<and> end_scenario b = 0"
  then have l: "length name = 82" by (simp add: block_name_def)
  have "parse_field name 6 = Some (block_id b)" "parse_field name 31 = Some (run_incarnation b)"
    "parse_field name 58 = Some (lease_epoch b)"
    using n l by (simp_all add: parse_field_Some block_name_def)
  moreover have "has_at 0 ''block_'' name" "has_at 26 ''_inc_'' name" "has_at 51 ''_epoch_'' name" "has_at 78 ''.bin'' name"
    using n by (simp_all add: has_at_def block_name_def)
  ultimately show "parse_block_result_filename name = Some b"
    using n l by (simp add: parse_block_result_filename_def Let_def)
qed

section \<open>Properties\<close>

text \<open>The unsigned parser accepts exactly the non-empty strings of decimal digits whose value fits
  64 bits, and returns that value; in particular it reads back every printed number.\<close>

theorem parse_u64_exact:
  "(parse_u64 txt field = Inr v \<longleftrightarrow> txt \<noteq> [] \<and> list_all (is_digit 10) txt \<and> text_value 10 txt = unat v) \<and>
   parse_u64 (decimal (unat v)) field = Inr v"
  by (simp add: parse_u64_Inr parse_u64_decimal decimal_digits)

text \<open>The names of manifest and block-result files determine, and are determined by, the sequence
  number and the block, incarnation and lease they stand for: the parsers recognise exactly the names
  the store writes.\<close>

theorem file_names_one_to_one:
  "(parse_manifest_sequence name = Some s \<longleftrightarrow> name = manifest_name s) \<and>
   (parse_block_result_filename name = Some b \<longleftrightarrow>
      name = block_name b \<and> start_scenario b = 0 \<and> end_scenario b = 0)"
  using manifest_name_iff block_name_iff by blast

end
