(* ===== verification/Codec.thy ===== *)
theory Codec
  imports Engine_Blocks Sha256_Hash
begin

text \<open>
  The canonical little-endian encoders and the content hashes built on them
  (\<^verbatim>\<open>include/mc/codec.hpp\<close>, \<^verbatim>\<open>src/codec.cpp\<close>), and the byte reader of
  \<^verbatim>\<open>src/persistence_codec.cpp\<close> that inverts the primitive encoders.  A reader is a
  function from the remaining bytes to a value and the bytes after it.
\<close>

section \<open>Encoders\<close>

definition append_u32 :: "bytes \<Rightarrow> u32 \<Rightarrow> bytes" where
  "append_u32 bs v = bs @ map (\<lambda>i. ucast (drop_bit (8 * i) v)) [0..<4]"

definition append_u64 :: "bytes \<Rightarrow> u64 \<Rightarrow> bytes" where
  "append_u64 bs v = bs @ map (\<lambda>i. ucast (drop_bit (8 * i) v)) [0..<8]"

definition append_u8 :: "bytes \<Rightarrow> u8 \<Rightarrow> bytes" where
  "append_u8 bs v = bs @ [v]"

definition append_double :: "bytes \<Rightarrow> double \<Rightarrow> bytes" where
  "append_double bs v = append_u64 bs (bits_of v)"

definition append_digest :: "bytes \<Rightarrow> sha256_digest \<Rightarrow> bytes" where
  "append_digest bs digest = bs @ digest"

text \<open>The model-specific tail of the payload.\<close>

definition append_model_tail :: "bytes \<Rightarrow> run_spec \<Rightarrow> bytes" where
  "append_model_tail bs spec =
     (case spec_model_type spec of
        Gbm \<Rightarrow> append_double bs (volatility spec)
      | Heston \<Rightarrow>
          (let p = heston_parameters spec;
               bs = append_u32 bs (discretization_version p);
               bs = append_double bs (initial_variance p);
               bs = append_double bs (mean_reversion_rate p);
               bs = append_double bs (long_run_variance p);
               bs = append_double bs (volatility_of_variance p)
           in append_double bs (correlation p))
      | Unknown_model b \<Rightarrow> bs)"

definition encode_run_spec_payload :: "run_spec \<Rightarrow> bytes result" where
  "encode_run_spec_payload spec =
     rbind (validate_run_spec spec) (\<lambda>_.
       (let bs = append_u32 [] kRunSpecSchemaVersion;
            bs = append_u64 bs (engine_version spec);
            bs = append_u64 bs (rng_version spec);
            bs = append_u32 bs (stats_schema_version spec);
            bs = append_u8 bs (model_code (spec_model_type spec));
            bs = append_u8 bs (payoff_code (spec_payoff_type spec));
            bs = append_u8 bs (if antithetic spec then 1 else 0);
            bs = append_u8 bs 0;
            bs = append_u64 bs (global_seed spec);
            bs = append_u64 bs (total_scenarios spec);
            bs = append_u32 bs (num_time_steps spec);
            bs = append_double bs (maturity spec);
            bs = append_double bs (spot spec);
            bs = append_double bs (strike spec);
            bs = append_double bs (rate spec)
        in Inr (append_model_tail bs spec)))"

definition encode_aggregate_payload :: "aggregate_stats \<Rightarrow> u32 \<Rightarrow> bytes result" where
  "encode_aggregate_payload aggregate schema =
     (if schema \<noteq> kStatsSchemaVersion
      then Inl (Invalid_argument ''unsupported aggregate statistics schema'')
      else case invariant_error None aggregate of
             Some err \<Rightarrow> Inl (Invalid_argument err)
           | None \<Rightarrow>
               (let bs = append_u32 [] 1;
                    bs = append_u32 bs schema;
                    bs = append_u64 bs (stats_n aggregate);
                    bs = append_double bs (stats_mean aggregate);
                    bs = append_double bs (stats_m2 aggregate);
                    bs = append_double bs (stats_min aggregate)
                in Inr (append_double bs (stats_max aggregate))))"

definition run_spec_hash :: "run_spec \<Rightarrow> sha256_digest result" where
  "run_spec_hash spec = rbind (encode_run_spec_payload spec) (\<lambda>bs. Inr (sha256 bs))"

definition encode_execution_layout_payload :: "run_spec \<Rightarrow> engine_config \<Rightarrow> bytes result" where
  "encode_execution_layout_payload spec config =
     rbind (validate_run_spec spec) (\<lambda>_.
     rbind (validate_engine_config config spec) (\<lambda>_.
       (let count = blocks_needed spec config
        in if max_materialized_blocks config < count
           then Inl (Length_error ''execution layout exceeds max_materialized_blocks'')
           else
             rbind (run_spec_hash spec) (\<lambda>digest.
               (let bs = append_digest [] digest;
                    bs = append_u32 bs kBlockPartitionVersion;
                    bs = append_u32 bs kReductionTreeVersion;
                    bs = append_u64 bs (block_size config)
                in Inr (append_u64 bs count))))))"

definition aggregate_payload_hash :: "aggregate_stats \<Rightarrow> u32 \<Rightarrow> sha256_digest result" where
  "aggregate_payload_hash aggregate schema =
     rbind (encode_aggregate_payload aggregate schema) (\<lambda>bs. Inr (sha256 bs))"

definition execution_layout_hash :: "run_spec \<Rightarrow> engine_config \<Rightarrow> sha256_digest result" where
  "execution_layout_hash spec config =
     rbind (encode_execution_layout_payload spec config) (\<lambda>bs. Inr (sha256 bs))"

section \<open>The reader\<close>

type_synonym 'a reader = "bytes \<Rightarrow> ('a \<times> bytes) result"

definition reader_require :: "nat \<Rightarrow> bytes \<Rightarrow> unit result" where
  "reader_require count bs =
     throw_if (length bs < count) (Runtime_error ''durable payload is truncated'')"

definition read_u8 :: "u8 reader" where
  "read_u8 bs = rbind (reader_require 1 bs) (\<lambda>_. Inr (hd bs, tl bs))"

definition read_u32 :: "u32 reader" where
  "read_u32 bs =
     rbind (reader_require 4 bs) (\<lambda>_.
       Inr (fold (\<lambda>i v. v OR push_bit (8 * i) (ucast (bs ! i))) [0..<4] 0, drop 4 bs))"

definition read_u64 :: "u64 reader" where
  "read_u64 bs =
     rbind (reader_require 8 bs) (\<lambda>_.
       Inr (fold (\<lambda>i v. v OR push_bit (8 * i) (ucast (bs ! i))) [0..<8] 0, drop 8 bs))"

definition read_binary64 :: "double reader" where
  "read_binary64 bs = rbind (read_u64 bs) (\<lambda>(w, bs). Inr (Double w, bs))"

definition read_digest :: "sha256_digest reader" where
  "read_digest bs = rbind (reader_require 32 bs) (\<lambda>_. Inr (take 32 bs, drop 32 bs))"

definition read_bytes :: "nat \<Rightarrow> bytes reader" where
  "read_bytes count bs = rbind (reader_require count bs) (\<lambda>_. Inr (take count bs, drop count bs))"

text \<open>\<^verbatim>\<open>std::string\<close> and its bytes.\<close>

definition string_bytes :: "string \<Rightarrow> bytes" where
  "string_bytes s = map (\<lambda>c. of_nat (of_char c)) s"

definition bytes_string :: "bytes \<Rightarrow> string" where
  "bytes_string bs = map (\<lambda>b. char_of (unat b)) bs"

definition read_string :: "u32 \<Rightarrow> string reader" where
  "read_string maximum_size bs =
     rbind (read_u32 bs) (\<lambda>(count, bs).
       if maximum_size < count
       then Inl (Runtime_error ''durable string exceeds its schema limit'')
       else rbind (read_bytes (unat count) bs) (\<lambda>(raw, bs). Inr (bytes_string raw, bs)))"

definition reader_finish :: "bytes \<Rightarrow> unit result" where
  "reader_finish bs = throw_if (bs \<noteq> []) (Runtime_error ''durable payload has trailing bytes'')"

section \<open>Readers invert encoders\<close>

definition le32 :: "u32 \<Rightarrow> bytes" where
  "le32 v = map (\<lambda>i. ucast (drop_bit (8 * i) v)) [0..<4]"

definition le64 :: "u64 \<Rightarrow> bytes" where
  "le64 v = map (\<lambda>i. ucast (drop_bit (8 * i) v)) [0..<8]"

lemma append_le:
  "append_u32 bs v = bs @ le32 v" "append_u64 bs w = bs @ le64 w" "append_u8 bs b = bs @ [b]"
  "append_double bs d = bs @ le64 (bits_of d)" "append_digest bs digest = bs @ digest"
  by (simp_all add: append_u32_def append_u64_def append_u8_def append_double_def append_digest_def
      le32_def le64_def)

lemma length_le [simp]: "length (le32 v) = 4" "length (le64 w) = 8"
  by (simp_all add: le32_def le64_def)

text \<open>The bits of the assembled value are the bits of its bytes, and conversely.\<close>

lemma byte_bit: "bit (b :: u8) m \<Longrightarrow> m < 8"
  using bit_imp_le_length [of b m] by simp

lemma bit_assembled:
  "bit (fold (\<lambda>i v. v OR push_bit (8 * i) (ucast (bs ! i :: u8))) [0..<k] 0 :: 'w::len word) n \<longleftrightarrow>
   n < LENGTH('w) \<and> n div 8 < k \<and> bit (bs ! (n div 8)) (n mod 8)"
proof (induction k)
  case (Suc k)
  have "8 * k \<le> n \<and> bit (bs ! k) (n - 8 * k) \<longleftrightarrow> n div 8 = k \<and> bit (bs ! (n div 8)) (n mod 8)"
  proof
    assume a: "8 * k \<le> n \<and> bit (bs ! k) (n - 8 * k)"
    then have "n - 8 * k < 8" using byte_bit by blast
    then have "n div 8 = k" "n mod 8 = n - 8 * k" using a by (auto simp: div_nat_eqI modulo_nat_def)
    then show "n div 8 = k \<and> bit (bs ! (n div 8)) (n mod 8)" using a by simp
  next
    assume a: "n div 8 = k \<and> bit (bs ! (n div 8)) (n mod 8)"
    then show "8 * k \<le> n \<and> bit (bs ! k) (n - 8 * k)" by (auto simp: minus_div_mult_eq_mod [symmetric] mult.commute)
  qed
  then show ?case
    using Suc by (auto simp: bit_or_iff bit_push_bit_iff bit_ucast_iff less_Suc_eq)
qed simp

lemma assembled_le:
  assumes "LENGTH('w::len) = 8 * k"
  shows "fold (\<lambda>i v. v OR push_bit (8 * i) (ucast ((map (\<lambda>i. ucast (drop_bit (8 * i) w)) [0..<k] @ rest) ! i :: u8)))
           [0..<k] 0 = (w :: 'w word)"
proof (rule bit_word_eqI)
  fix n
  assume n: "n < LENGTH('w)"
  then have "n div 8 < k" using assms by simp
  moreover have "8 * (n div 8) + n mod 8 = n" by simp
  ultimately show "bit (fold (\<lambda>i v. v OR push_bit (8 * i)
      (ucast ((map (\<lambda>i. ucast (drop_bit (8 * i) w)) [0..<k] @ rest) ! i :: u8))) [0..<k] 0 :: 'w word) n = bit w n"
    using n unfolding bit_assembled by (simp add: nth_append bit_ucast_iff bit_drop_bit_eq)
qed

lemma le_assembled:
  assumes "LENGTH('w::len) = 8 * k" "k \<le> length bs"
  shows "map (\<lambda>j. ucast (drop_bit (8 * j) (fold (\<lambda>i v. v OR push_bit (8 * i) (ucast (bs ! i :: u8))) [0..<k] 0 :: 'w word)))
           [0..<k] = take k bs"
proof (rule nth_equalityI)
  fix j
  assume "j < length (map (\<lambda>j. ucast (drop_bit (8 * j) (fold (\<lambda>i v. v OR push_bit (8 * i) (ucast (bs ! i :: u8)))
      [0..<k] 0 :: 'w word)) :: u8) [0..<k])"
  then have j: "j < k" by simp
  have "bit (ucast (drop_bit (8 * j) (fold (\<lambda>i v. v OR push_bit (8 * i) (ucast (bs ! i :: u8))) [0..<k] 0 :: 'w word)) :: u8) m
        = bit (bs ! j) m" if "m < 8" for m
    using that j assms(1) by (auto simp: bit_ucast_iff bit_drop_bit_eq bit_assembled)
  then show "map (\<lambda>j. ucast (drop_bit (8 * j) (fold (\<lambda>i v. v OR push_bit (8 * i) (ucast (bs ! i :: u8)))
      [0..<k] 0 :: 'w word))) [0..<k] ! j = take k bs ! j"
    using j assms(2) by (auto intro: bit_word_eqI)
qed (use assms in simp)

section \<open>Leaf codecs\<close>

text \<open>What every leaf codec promises: reading after writing gives the value back and leaves the
  rest, and the bytes read determine and are determined by the value.\<close>

locale leaf_codec =
  fixes enc :: "'a \<Rightarrow> bytes" and dec :: "'a reader" and ok :: "'a \<Rightarrow> bool"
  assumes dec_enc: "ok x \<Longrightarrow> dec (enc x @ rest) = Inr (x, rest)"
    and enc_dec: "dec bs = Inr (x, rest) \<Longrightarrow> ok x \<and> bs = enc x @ rest"
begin

lemma dec_enc_end: "ok x \<Longrightarrow> dec (enc x) = Inr (x, [])"
  using dec_enc [of x "[]"] by simp

lemma enc_inj: "ok x \<Longrightarrow> ok y \<Longrightarrow> enc x @ r = enc y @ q \<Longrightarrow> x = y \<and> r = q"
  using dec_enc [of x r] dec_enc [of y q] by (metis prod.inject sum.inject(2))

end

interpretation u8: leaf_codec "\<lambda>b. [b]" read_u8 "\<lambda>_. True"
proof
  show "read_u8 ([x] @ rest) = Inr (x, rest)" for x rest
    by (simp add: read_u8_def reader_require_def)
  show "True \<and> bs = [x] @ rest" if "read_u8 bs = Inr (x, rest)" for bs x rest
    using that by (cases bs) (auto simp: read_u8_def reader_require_def)
qed

interpretation u32: leaf_codec le32 read_u32 "\<lambda>_. True"
proof
  show "read_u32 (le32 x @ rest) = Inr (x, rest)" for x rest
    using assembled_le [of 4 x rest] by (simp add: read_u32_def reader_require_def le32_def)
  show "True \<and> bs = le32 x @ rest" if "read_u32 bs = Inr (x, rest)" for bs x rest
    using that le_assembled [where 'w = 32, of 4 bs]
    by (auto simp: read_u32_def reader_require_def le32_def)
qed

interpretation u64: leaf_codec le64 read_u64 "\<lambda>_. True"
proof
  show "read_u64 (le64 x @ rest) = Inr (x, rest)" for x rest
    using assembled_le [of 8 x rest] by (simp add: read_u64_def reader_require_def le64_def)
  show "True \<and> bs = le64 x @ rest" if "read_u64 bs = Inr (x, rest)" for bs x rest
    using that le_assembled [where 'w = 64, of 8 bs]
    by (auto simp: read_u64_def reader_require_def le64_def)
qed

interpretation binary64: leaf_codec "\<lambda>d. le64 (bits_of d)" read_binary64 "\<lambda>_. True"
proof
  show "read_binary64 (le64 (bits_of x) @ rest) = Inr (x, rest)" for x rest
    by (simp add: read_binary64_def u64.dec_enc)
  show "True \<and> bs = le64 (bits_of x) @ rest" if "read_binary64 bs = Inr (x, rest)" for bs x rest
    using that u64.enc_dec by (auto simp: read_binary64_def)
qed

interpretation digest: leaf_codec "\<lambda>d. d" read_digest "\<lambda>d. length d = 32"
proof
  show "read_digest (x @ rest) = Inr (x, rest)" if "length x = 32" for x rest
    using that by (simp add: read_digest_def reader_require_def)
  show "length x = 32 \<and> bs = x @ rest" if "read_digest bs = Inr (x, rest)" for bs x rest
    using that by (auto simp: read_digest_def reader_require_def)
qed

lemma read_bytes_append [simp]: "read_bytes (length xs) (xs @ rest) = Inr (xs, rest)"
  by (simp add: read_bytes_def reader_require_def)

lemma read_bytes_Inr: "read_bytes n bs = Inr (xs, rest) \<Longrightarrow> length xs = n \<and> bs = xs @ rest"
  by (auto simp: read_bytes_def reader_require_def)

lemma string_bytes_inverse [simp]: "bytes_string (string_bytes s) = s"
proof -
  have "char_of (unat (of_nat (of_char c) :: u8)) = c" for c
  proof -
    have "of_char c < (256 :: nat)" by simp
    then have "unat (of_nat (of_char c) :: u8) = of_char c"
      by (simp add: unsigned_of_nat take_bit_nat_eq_self)
    then show ?thesis by simp
  qed
  then show ?thesis by (simp add: bytes_string_def string_bytes_def o_def)
qed

lemma bytes_string_inverse [simp]: "string_bytes (bytes_string bs) = bs"
proof -
  have "of_nat (of_char (char_of (unat b))) = (b :: u8)" for b
  proof -
    have "unat b < 256" using unsigned_less [of b, where 'a = nat] by simp
    then have "of_char (char_of (unat b)) = unat b" by (simp add: of_char_of)
    then show ?thesis by simp
  qed
  then show ?thesis by (simp add: bytes_string_def string_bytes_def o_def)
qed

lemma length_string_bytes [simp]: "length (string_bytes s) = length s" "length (bytes_string bs) = length bs"
  by (simp_all add: string_bytes_def bytes_string_def)

interpretation string: leaf_codec "\<lambda>s. le32 (of_nat (length s)) @ string_bytes s" "read_string limit"
  "\<lambda>s. length s \<le> unat limit" for limit
proof
  fix s :: string and rest :: bytes
  assume s: "length s \<le> unat limit"
  then have "length s < 2 ^ 32" using unsigned_less [of limit, where 'a = nat] by simp
  then have "unat (of_nat (length s) :: u32) = length s"
    by (simp add: unsigned_of_nat take_bit_nat_eq_self)
  then show "read_string limit ((le32 (of_nat (length s)) @ string_bytes s) @ rest) = Inr (s, rest)"
    using s read_bytes_append [of "string_bytes s" rest]
    by (simp add: read_string_def u32.dec_enc word_less_nat_alt)
next
  fix bs :: bytes and s :: string and rest :: bytes
  assume "read_string limit bs = Inr (s, rest)"
  then obtain n raw mid where n: "read_u32 bs = Inr (n, mid)" "\<not> limit < n"
    and r: "read_bytes (unat n) mid = Inr (raw, rest)" "s = bytes_string raw"
    by (auto simp: read_string_def split: if_splits)
  have "bs = le32 n @ mid" "length raw = unat n" "mid = raw @ rest"
    using u32.enc_dec [OF n(1)] read_bytes_Inr [OF r(1)] by auto
  then show "length s \<le> unat limit \<and> bs = (le32 (of_nat (length s)) @ string_bytes s) @ rest"
    using n(2) r(2) by (auto simp: word_less_nat_alt)
qed

lemma reader_finish_Inr [simp]: "reader_finish bs = Inr u \<longleftrightarrow> bs = []"
  by (simp add: reader_finish_def)

text \<open>Inversion of a read that succeeded, used to invert the decoders.\<close>

lemmas read_Inr =
  u8.enc_dec u32.enc_dec u64.enc_dec binary64.enc_dec digest.enc_dec string.enc_dec read_bytes_Inr

lemmas reads [simp] =
  u8.dec_enc u32.dec_enc u64.dec_enc binary64.dec_enc
  u8.dec_enc_end u32.dec_enc_end u64.dec_enc_end binary64.dec_enc_end

end
