(* ===== verification/Coordinator.thy ===== *)
theory Coordinator
  imports Codec "HOL-Library.Multiset"
begin

text \<open>
  The build identity (\<^verbatim>\<open>src/identity.cpp\<close>) and the coordinator
  (\<^verbatim>\<open>include/mc/coordinator.hpp\<close>, \<^verbatim>\<open>src/runtime/coordinator.cpp\<close>): the checks of the
  block universe, the classification of a worker's result and its commit.  The
  theorems show that classification never throws on a constructed coordinator, that
  a block is committed at most once and never overwritten, and that the committed
  state does not depend on the order in which results arrive.
\<close>

section \<open>Build identity\<close>

text \<open>What the preprocessor and the operating system say about the build.\<close>

datatype compiler_macro = Clang_version string | Gnuc_version string | Msc_ver nat | No_compiler_macro
datatype stdlib_macro = Libcpp_version nat | Glibcxx_date nat | No_stdlib_macro
datatype arch_macro = Arch_arm64 | Arch_x86_64 | Arch_x86 | No_arch_macro
datatype clib_macro = Glibc_version string | Apple_clib | No_clib_macro

record build_env =
  env_compiler :: compiler_macro
  env_stdlib :: stdlib_macro
  env_arch :: arch_macro
  env_cplusplus :: nat
  env_fp_contract :: string
  env_fast_math :: bool
  env_optimize :: bool
  env_source :: string
  env_build_flags :: string
  env_build_config :: string
  env_cpu_policy :: string
  env_features :: "string list"
  env_uname :: "(string \<times> string \<times> string) option"
  env_clib :: clib_macro

fun compiler_string :: "compiler_macro \<Rightarrow> string" where
  "compiler_string (Clang_version v) = ''clang-'' @ v"
| "compiler_string (Gnuc_version v) = ''gcc-'' @ v"
| "compiler_string (Msc_ver v) = ''msvc-'' @ decimal v"
| "compiler_string No_compiler_macro = ''unknown-compiler''"

fun stdlib_string :: "stdlib_macro \<Rightarrow> string" where
  "stdlib_string (Libcpp_version v) = ''libc++-'' @ decimal v"
| "stdlib_string (Glibcxx_date v) = ''libstdc++-'' @ decimal v"
| "stdlib_string No_stdlib_macro = ''unknown-standard-library''"

fun arch_string :: "arch_macro \<Rightarrow> string" where
  "arch_string Arch_arm64 = ''arm64''"
| "arch_string Arch_x86_64 = ''x86_64''"
| "arch_string Arch_x86 = ''x86''"
| "arch_string No_arch_macro = ''unknown-architecture''"

fun clib_string :: "clib_macro \<Rightarrow> string" where
  "clib_string (Glibc_version v) = ''glibc-'' @ v"
| "clib_string Apple_clib = ''libSystem''"
| "clib_string No_clib_macro = ''unknown-c-library''"

record build_identity =
  build_description :: string
  build_hash :: sha256_digest

definition current_build_identity :: "build_env \<Rightarrow> build_identity" where
  "current_build_identity env =
     (let features = concat (map (\<lambda>f. '','' @ f)
            (filter (\<lambda>f. f \<in> set (env_features env)) [''avx512f'', ''avx2'', ''avx'', ''fma'', ''arm-fma'']));
          runtime_platform = (case env_uname env of
              Some (sysname, release, machine) \<Rightarrow> sysname @ ''-'' @ release @ ''-'' @ machine
            | None \<Rightarrow> ''unknown-runtime-platform'');
          description =
            ''engine='' @ decimal (unat kEngineVersion) @ '';compiler='' @ compiler_string (env_compiler env) @
            '';stdlib='' @ stdlib_string (env_stdlib env) @ '';arch='' @ arch_string (env_arch env) @
            '';cxx='' @ decimal (env_cplusplus env) @
            '';fp_contract='' @ env_fp_contract env @
            '';fast_math='' @ (if env_fast_math env then ''on'' else ''off'') @
            '';optimizer='' @ (if env_optimize env then ''on'' else ''off'') @
            '';source='' @ env_source env @ '';build_flags='' @ env_build_flags env @
            '';build_config='' @ env_build_config env @
            '';cpu_policy='' @ env_cpu_policy env @ '';cpu_features='' @ ''baseline'' @ features @
            '';runtime='' @ runtime_platform @ '';clib='' @ clib_string (env_clib env)
      in \<lparr>build_description = description, build_hash = sha256 (string_bytes description)\<rparr>)"

section \<open>The coordinator\<close>

record block_result =
  res_block :: scenario_block
  res_aggregate :: aggregate_stats
  res_run_spec_hash :: sha256_digest
  res_execution_layout_hash :: sha256_digest
  res_build_fingerprint :: sha256_digest
  res_payload_checksum :: sha256_digest
  res_rng_version :: u64
  res_stats_schema_version :: u32
  res_worker_id :: u64

datatype validation_status =
    Accepted
  | Duplicate
  | InvalidRun
  | ExecutionLayoutMismatch
  | BuildMismatch
  | StaleIncarnation
  | RngVersionMismatch
  | StatsSchemaMismatch
  | InvalidAggregate
  | CorruptPayload
  | InvalidBlock
  | StaleLease
  | DeterminismError

type_synonym validation = "validation_status \<times> string"

record coordinator_state =
  cs_run_spec_hash :: sha256_digest
  cs_execution_layout_hash :: sha256_digest
  cs_build_fingerprint :: sha256_digest
  cs_run_incarnation :: u64
  cs_rng_version :: u64
  cs_stats_schema_version :: u32
  cs_antithetic :: bool
  cs_blocks :: "scenario_block list"
  cs_committed_payloads :: "sha256_digest option list"

text \<open>One iteration of the loop that checks the block universe; the state is the start expected
  of the next block.\<close>

definition check_universe_block ::
  "run_spec \<Rightarrow> engine_config \<Rightarrow> u64 \<Rightarrow> nat \<times> scenario_block \<Rightarrow> u64 \<Rightarrow> u64 result" where
  "check_universe_block spec config incarnation = (\<lambda>(index, block) expected_start.
     (let expected_end = expected_start + min (block_size config) (total_scenarios spec - expected_start)
      in if block_id block \<noteq> of_nat index \<or> start_scenario block \<noteq> expected_start \<or>
            end_scenario block \<noteq> expected_end \<or> end_scenario block \<le> start_scenario block
         then Inl (Invalid_argument ''coordinator block universe is not contiguous and canonical'')
         else if run_incarnation block \<noteq> incarnation \<or> lease_epoch block = 0
         then Inl (Invalid_argument ''coordinator block universe has inconsistent lease identity'')
         else if antithetic spec \<and> (start_scenario block mod 2 \<noteq> 0 \<or> end_scenario block mod 2 \<noteq> 0)
         then Inl (Invalid_argument ''coordinator block universe splits an antithetic pair'')
         else Inr expected_end))"

definition make_coordinator_state ::
  "build_env \<Rightarrow> run_spec \<Rightarrow> engine_config \<Rightarrow> scenario_block list \<Rightarrow> coordinator_state result" where
  "make_coordinator_state env spec config blocks =
     rbind (validate_run_spec spec) (\<lambda>_.
     rbind (validate_engine_config config spec) (\<lambda>_.
       if length blocks \<noteq> unat (blocks_needed spec config)
       then Inl (Invalid_argument ''coordinator block universe has the wrong size'')
       else if blocks = []
       then Inl (Invalid_argument ''coordinator block universe must not be empty'')
       else
         (let incarnation = run_incarnation (hd blocks)
          in rbind (fold_result (check_universe_block spec config incarnation)
                      (enumerate 0 blocks) 0) (\<lambda>expected_start.
             if expected_start \<noteq> total_scenarios spec
             then Inl (Invalid_argument ''coordinator block universe does not cover every scenario'')
             else
               rbind (run_spec_hash spec) (\<lambda>spec_hash.
               rbind (execution_layout_hash spec config) (\<lambda>layout_hash.
                 Inr \<lparr>cs_run_spec_hash = spec_hash, cs_execution_layout_hash = layout_hash,
                      cs_build_fingerprint = build_hash (current_build_identity env),
                      cs_run_incarnation = incarnation, cs_rng_version = rng_version spec,
                      cs_stats_schema_version = stats_schema_version spec,
                      cs_antithetic = antithetic spec, cs_blocks = blocks,
                      cs_committed_payloads = replicate (length blocks) None\<rparr>))))))"

definition validate_result :: "block_result \<Rightarrow> coordinator_state \<Rightarrow> validation result" where
  "validate_result r s =
     (if res_run_spec_hash r \<noteq> cs_run_spec_hash s
      then Inr (InvalidRun, ''run specification hash mismatch'')
      else if res_execution_layout_hash r \<noteq> cs_execution_layout_hash s
      then Inr (ExecutionLayoutMismatch, ''execution layout hash mismatch'')
      else if res_build_fingerprint r \<noteq> cs_build_fingerprint s
      then Inr (BuildMismatch, ''build fingerprint mismatch'')
      else if run_incarnation (res_block r) \<noteq> cs_run_incarnation s
      then Inr (StaleIncarnation, ''run incarnation is stale'')
      else if res_rng_version r \<noteq> cs_rng_version s
      then Inr (RngVersionMismatch, ''RNG version mismatch'')
      else if res_stats_schema_version r \<noteq> cs_stats_schema_version s
      then Inr (StatsSchemaMismatch, ''statistics schema version mismatch'')
      else if length (cs_blocks s) \<le> unat (block_id (res_block r))
      then Inr (InvalidBlock, ''block ID is outside the run'')
      else
        (let block_index = unat (block_id (res_block r));
             expected = cs_blocks s ! block_index
         in if start_scenario (res_block r) \<noteq> start_scenario expected \<or>
               end_scenario (res_block r) \<noteq> end_scenario expected
            then Inr (InvalidBlock, ''block scenario range mismatch'')
            else
              (let scenario_count = end_scenario expected - start_scenario expected;
                   observations = (if cs_antithetic s then scenario_count div 2 else scenario_count)
               in case invariant_error (Some observations) (res_aggregate r) of
                    Some err \<Rightarrow> Inr (InvalidAggregate, err)
                  | None \<Rightarrow>
                    rbind (aggregate_payload_hash (res_aggregate r) (res_stats_schema_version r)) (\<lambda>computed.
                      if computed \<noteq> res_payload_checksum r
                      then Inr (CorruptPayload, ''aggregate payload does not match its SHA-256 checksum'')
                      else case cs_committed_payloads s ! block_index of
                             Some committed \<Rightarrow>
                               (if committed = res_payload_checksum r
                                then Inr (Duplicate, ''matching block payload is already committed'')
                                else Inr (DeterminismError, ''committed block has a conflicting payload checksum''))
                           | None \<Rightarrow>
                               (if lease_epoch (res_block r) \<noteq> lease_epoch expected
                                then Inr (StaleLease, ''block lease epoch is stale'')
                                else Inr (Accepted, ''result is valid''))))))"

definition commit_result :: "block_result \<Rightarrow> coordinator_state \<Rightarrow> (validation \<times> coordinator_state) result" where
  "commit_result r s =
     rbind (validate_result r s) (\<lambda>validation.
       if fst validation = Accepted
       then Inr (validation, s\<lparr>cs_committed_payloads :=
              (cs_committed_payloads s)[unat (block_id (res_block r)) := Some (res_payload_checksum r)]\<rparr>)
       else Inr (validation, s))"

fun is_benign_rejection :: "validation_status \<Rightarrow> bool" where
  "is_benign_rejection status \<longleftrightarrow> status = Duplicate \<or> status = StaleIncarnation \<or> status = StaleLease"

fun status_to_string :: "validation_status \<Rightarrow> string" where
  "status_to_string Accepted = ''accepted''"
| "status_to_string Duplicate = ''duplicate''"
| "status_to_string InvalidRun = ''invalid_run''"
| "status_to_string ExecutionLayoutMismatch = ''execution_layout_mismatch''"
| "status_to_string BuildMismatch = ''build_mismatch''"
| "status_to_string StaleIncarnation = ''stale_incarnation''"
| "status_to_string RngVersionMismatch = ''rng_version_mismatch''"
| "status_to_string StatsSchemaMismatch = ''stats_schema_mismatch''"
| "status_to_string InvalidAggregate = ''invalid_aggregate''"
| "status_to_string CorruptPayload = ''corrupt_payload''"
| "status_to_string InvalidBlock = ''invalid_block''"
| "status_to_string StaleLease = ''stale_lease''"
| "status_to_string DeterminismError = ''determinism_error''"

text \<open>What a worker of the engine puts around a computed aggregate.\<close>

definition build_block_result ::
  "run_spec \<Rightarrow> coordinator_state \<Rightarrow> scenario_block \<Rightarrow> aggregate_stats \<Rightarrow> u64 \<Rightarrow> block_result result" where
  "build_block_result spec s block aggregate worker_index =
     rbind (aggregate_payload_hash aggregate (stats_schema_version spec)) (\<lambda>checksum.
       Inr \<lparr>res_block = block, res_aggregate = aggregate, res_run_spec_hash = cs_run_spec_hash s,
            res_execution_layout_hash = cs_execution_layout_hash s,
            res_build_fingerprint = cs_build_fingerprint s, res_payload_checksum = checksum,
            res_rng_version = rng_version spec, res_stats_schema_version = stats_schema_version spec,
            res_worker_id = worker_index\<rparr>)"

section \<open>Invariant\<close>

definition coordinator_ok :: "coordinator_state \<Rightarrow> bool" where
  "coordinator_ok s \<longleftrightarrow>
     cs_stats_schema_version s = kStatsSchemaVersion \<and>
     length (cs_committed_payloads s) = length (cs_blocks s)"

lemma make_coordinator_state_ok: "make_coordinator_state env spec config blocks = Inr s \<Longrightarrow> coordinator_ok s"
  using valid_spec_versions(3) [of spec]
  by (auto simp: make_coordinator_state_def Let_def coordinator_ok_def valid_spec_def split: if_splits)

lemma invariant_error_None_weaken: "invariant_error (Some n) a = None \<Longrightarrow> invariant_error None a = None"
  by (simp add: invariant_error_def split: if_splits)

lemma payload_hash_total:
  "invariant_error (Some n) a = None \<Longrightarrow> \<exists>h. aggregate_payload_hash a kStatsSchemaVersion = Inr h \<and> length h = 32"
  using invariant_error_None_weaken [of n a]
  by (auto simp: aggregate_payload_hash_def encode_aggregate_payload_def Let_def)

text \<open>A result that belongs to the run: every identity check passes, its aggregate is valid for the
  block's count and its checksum is the hash of that aggregate.\<close>

definition expected_count :: "coordinator_state \<Rightarrow> nat \<Rightarrow> u64" where
  "expected_count s i =
     (let b = cs_blocks s ! i; n = end_scenario b - start_scenario b in if cs_antithetic s then n div 2 else n)"

definition belongs :: "block_result \<Rightarrow> coordinator_state \<Rightarrow> bool" where
  "belongs r s \<longleftrightarrow>
     (let i = unat (block_id (res_block r)); b = cs_blocks s ! i
      in res_run_spec_hash r = cs_run_spec_hash s \<and>
         res_execution_layout_hash r = cs_execution_layout_hash s \<and>
         res_build_fingerprint r = cs_build_fingerprint s \<and>
         run_incarnation (res_block r) = cs_run_incarnation s \<and>
         res_rng_version r = cs_rng_version s \<and> res_stats_schema_version r = cs_stats_schema_version s \<and>
         i < length (cs_blocks s) \<and>
         start_scenario (res_block r) = start_scenario b \<and> end_scenario (res_block r) = end_scenario b \<and>
         invariant_error (Some (expected_count s i)) (res_aggregate r) = None \<and>
         aggregate_payload_hash (res_aggregate r) (res_stats_schema_version r) = Inr (res_payload_checksum r))"

definition committed :: "coordinator_state \<Rightarrow> block_result \<Rightarrow> sha256_digest option" where
  "committed s r = cs_committed_payloads s ! unat (block_id (res_block r))"

definition lease_current :: "block_result \<Rightarrow> coordinator_state \<Rightarrow> bool" where
  "lease_current r s \<longleftrightarrow> lease_epoch (res_block r) = lease_epoch (cs_blocks s ! unat (block_id (res_block r)))"

lemma validate_belongs:
  assumes "belongs r s"
  shows "validate_result r s =
    (case committed s r of
       Some c \<Rightarrow>
         (if c = res_payload_checksum r
          then Inr (Duplicate, ''matching block payload is already committed'')
          else Inr (DeterminismError, ''committed block has a conflicting payload checksum''))
     | None \<Rightarrow>
         (if \<not> lease_current r s then Inr (StaleLease, ''block lease epoch is stale'')
          else Inr (Accepted, ''result is valid'')))"
proof -
  have h: "aggregate_payload_hash (res_aggregate r) (cs_stats_schema_version s) = Inr (res_payload_checksum r)"
    and i: "invariant_error (Some (expected_count s (unat (block_id (res_block r))))) (res_aggregate r) = None"
    using assms by (auto simp: belongs_def Let_def)
  show ?thesis
    using assms i unfolding validate_result_def Let_def committed_def lease_current_def
    by (simp add: belongs_def Let_def h expected_count_def)
qed

lemma validate_not_belongs:
  assumes ok: "coordinator_ok s" and n: "\<not> belongs r s"
  obtains st msg where "validate_result r s = Inr (st, msg)"
    "st \<notin> {Accepted, Duplicate, DeterminismError, StaleLease}"
proof -
  let ?i = "unat (block_id (res_block r))"
  have h: "\<exists>h. aggregate_payload_hash (res_aggregate r) kStatsSchemaVersion = Inr h"
    if "invariant_error (Some (expected_count s ?i)) (res_aggregate r) = None"
    using payload_hash_total [OF that] by blast
  have "\<exists>st msg. validate_result r s = Inr (st, msg) \<and> st \<notin> {Accepted, Duplicate, DeterminismError, StaleLease}"
  proof (cases "res_run_spec_hash r = cs_run_spec_hash s \<and>
      res_execution_layout_hash r = cs_execution_layout_hash s \<and>
      res_build_fingerprint r = cs_build_fingerprint s \<and>
      run_incarnation (res_block r) = cs_run_incarnation s \<and>
      res_rng_version r = cs_rng_version s \<and> res_stats_schema_version r = cs_stats_schema_version s")
    case ids: True
    show ?thesis
    proof (cases "?i < length (cs_blocks s) \<and> start_scenario (res_block r) = start_scenario (cs_blocks s ! ?i) \<and>
        end_scenario (res_block r) = end_scenario (cs_blocks s ! ?i)")
      case rng: True
      show ?thesis
      proof (cases "invariant_error (Some (expected_count s ?i)) (res_aggregate r)")
        case None
        with h obtain c where c: "aggregate_payload_hash (res_aggregate r) kStatsSchemaVersion = Inr c" by blast
        have "c \<noteq> res_payload_checksum r"
          using n ids rng None c ok by (auto simp: belongs_def Let_def coordinator_ok_def)
        then show ?thesis
          using ids rng None c ok
          by (simp add: validate_result_def Let_def expected_count_def coordinator_ok_def)
      next
        case (Some e)
        then show ?thesis using ids rng by (simp add: validate_result_def Let_def expected_count_def)
      qed
    qed (use ids in \<open>auto simp: validate_result_def Let_def\<close>)
  qed (auto simp: validate_result_def)
  then show thesis using that by blast
qed

lemma validate_result_total: "coordinator_ok s \<Longrightarrow> \<exists>v. validate_result r s = Inr v"
proof (cases "belongs r s")
  case True
  then show ?thesis using validate_belongs [OF True] by (simp split: option.split)
next
  case False
  assume "coordinator_ok s"
  from validate_not_belongs [OF this False] show ?thesis by blast
qed

lemma accepted_iff:
  assumes "coordinator_ok s"
  shows "(\<exists>msg. validate_result r s = Inr (Accepted, msg)) \<longleftrightarrow>
         belongs r s \<and> committed s r = None \<and> lease_current r s"
proof (cases "belongs r s")
  case True
  then show ?thesis using validate_belongs [OF True] by (auto split: option.splits if_splits)
next
  case False
  obtain st msg where "validate_result r s = Inr (st, msg)" "st \<noteq> Accepted"
    using validate_not_belongs [OF assms False] by blast
  with False show ?thesis by simp
qed

section \<open>Commits refine a write-once ledger\<close>

text \<open>The abstract ledger: a map from block identifiers to payload digests that is written at most
  once per block.\<close>

type_synonym ledger = "nat \<rightharpoonup> sha256_digest"

definition ledger_commit :: "nat \<Rightarrow> sha256_digest \<Rightarrow> ledger \<Rightarrow> validation_status \<times> ledger" where
  "ledger_commit i c m =
     (case m i of
        None \<Rightarrow> (Accepted, m(i \<mapsto> c))
      | Some d \<Rightarrow> (if d = c then Duplicate else DeterminismError, m))"

definition ledger_of :: "coordinator_state \<Rightarrow> ledger" where
  "ledger_of s i = (if i < length (cs_committed_payloads s) then cs_committed_payloads s ! i else None)"

definition record_payload :: "block_result \<Rightarrow> coordinator_state \<Rightarrow> coordinator_state" where
  "record_payload r s = s\<lparr>cs_committed_payloads :=
     (cs_committed_payloads s)[unat (block_id (res_block r)) := Some (res_payload_checksum r)]\<rparr>"

lemma record_payload_simps [simp]:
  "cs_blocks (record_payload r s) = cs_blocks s"
  "cs_run_spec_hash (record_payload r s) = cs_run_spec_hash s"
  "cs_execution_layout_hash (record_payload r s) = cs_execution_layout_hash s"
  "cs_build_fingerprint (record_payload r s) = cs_build_fingerprint s"
  "cs_run_incarnation (record_payload r s) = cs_run_incarnation s"
  "cs_rng_version (record_payload r s) = cs_rng_version s"
  "cs_stats_schema_version (record_payload r s) = cs_stats_schema_version s"
  "cs_antithetic (record_payload r s) = cs_antithetic s"
  "length (cs_committed_payloads (record_payload r s)) = length (cs_committed_payloads s)"
  by (simp_all add: record_payload_def)

lemma record_payload_keeps [simp]:
  "belongs r' (record_payload r s) = belongs r' s"
  "lease_current r' (record_payload r s) = lease_current r' s"
  "coordinator_ok (record_payload r s) = coordinator_ok s"
  by (simp_all add: belongs_def lease_current_def coordinator_ok_def expected_count_def Let_def)

lemma belongs_index: "coordinator_ok s \<Longrightarrow> belongs r s \<Longrightarrow> unat (block_id (res_block r)) < length (cs_committed_payloads s)"
  by (simp add: belongs_def coordinator_ok_def Let_def)

lemma ledger_record:
  "coordinator_ok s \<Longrightarrow> belongs r s \<Longrightarrow>
     ledger_of (record_payload r s) = (ledger_of s)(unat (block_id (res_block r)) \<mapsto> res_payload_checksum r)"
  using belongs_index [of s r] by (auto simp: ledger_of_def record_payload_def fun_eq_iff)

lemma commit_result_cases:
  assumes "coordinator_ok s"
  obtains st msg where "commit_result r s = Inr ((st, msg), if st = Accepted then record_payload r s else s)"
    "validate_result r s = Inr (st, msg)"
proof -
  obtain st msg where v: "validate_result r s = Inr (st, msg)" using validate_result_total [OF assms] by fastforce
  moreover have "commit_result r s = Inr ((st, msg), if st = Accepted then record_payload r s else s)"
    by (simp add: commit_result_def v record_payload_def)
  ultimately show thesis using that by blast
qed

lemma commit_accepts:
  assumes "coordinator_ok s" "belongs r s" "ledger_of s (unat (block_id (res_block r))) = None" "lease_current r s"
  shows "commit_result r s = Inr ((Accepted, ''result is valid''), record_payload r s)"
proof -
  have "committed s r = None"
    using assms(3) belongs_index [OF assms(1,2)] by (simp add: ledger_of_def committed_def)
  then show ?thesis
    using validate_belongs [OF assms(2)] assms(4) by (simp add: commit_result_def record_payload_def)
qed

text \<open>The consumer of a parallel run: commit, and fail on anything but acceptance.\<close>

definition accept_result :: "block_result \<Rightarrow> coordinator_state \<Rightarrow> coordinator_state result" where
  "accept_result r s =
     rbind (commit_result r s) (\<lambda>((status, reason), s').
       if status \<noteq> Accepted
       then Inl (Runtime_error (''coordinator rejected block result as '' @ status_to_string status @
                                '': '' @ reason))
       else Inr s')"

definition fresh_results :: "block_result list \<Rightarrow> coordinator_state \<Rightarrow> bool" where
  "fresh_results rs s \<longleftrightarrow>
     distinct (map (\<lambda>r. block_id (res_block r)) rs) \<and>
     (\<forall>r \<in> set rs. belongs r s \<and> lease_current r s \<and> ledger_of s (unat (block_id (res_block r))) = None)"

lemma accept_fresh:
  "coordinator_ok s \<Longrightarrow> fresh_results (r # rs) s \<Longrightarrow>
     accept_result r s = Inr (record_payload r s) \<and> fresh_results rs (record_payload r s)"
proof -
  assume ok: "coordinator_ok s" and f: "fresh_results (r # rs) s"
  have "unat (block_id (res_block q)) \<noteq> unat (block_id (res_block r))" if "q \<in> set rs" for q
  proof -
    have "block_id (res_block q) \<noteq> block_id (res_block r)"
      using f imageI [OF that, of "\<lambda>r. block_id (res_block r)"] by (auto simp: fresh_results_def)
    then show ?thesis by (simp add: word_unat_eq_iff)
  qed
  then show ?thesis
    using commit_accepts [of s r] ledger_record [of s r] ok f
    by (simp add: fresh_results_def accept_result_def)
qed

lemma accept_all_fresh:
  "coordinator_ok s \<Longrightarrow> fresh_results rs s \<Longrightarrow> fold_result accept_result rs s = Inr (fold record_payload rs s)"
  using accept_fresh by (induction rs arbitrary: s) auto

lemma record_payload_commute:
  "block_id (res_block r) \<noteq> block_id (res_block q) \<Longrightarrow>
     record_payload r (record_payload q s) = record_payload q (record_payload r s)"
  by (simp add: record_payload_def list_update_swap word_unat_eq_iff)

lemma fold_record_perm:
  assumes "distinct (map (\<lambda>r. block_id (res_block r)) rs)" "mset rs = mset qs"
  shows "fold record_payload rs s = fold record_payload qs s"
proof -
  have "record_payload r \<circ> record_payload q = record_payload q \<circ> record_payload r"
    if "r \<in> set rs" "q \<in> set rs" for r q
    using that assms(1) record_payload_commute [of r q]
    by (cases "r = q") (auto simp: distinct_map fun_eq_iff dest: inj_onD)
  then have "fold record_payload rs = fold record_payload qs"
    using assms(2) by (intro fold_multiset_equiv) auto
  then show ?thesis by simp
qed

section \<open>The engine's partition is an accepted universe\<close>

lemma check_universe_prefix:
  assumes v: "valid_spec spec" "validate_engine_config config spec = Inr ()"
    and n: "n \<le> unat (blocks_needed spec config)"
  shows "fold_result (check_universe_block spec config 0)
      (enumerate 0 (map (\<lambda>i. make_block spec config (of_nat i)) [0..<n])) 0 =
    Inr (of_nat (min (n * unat (block_size config)) (unat (total_scenarios spec))))"
  using n
proof (induction n)
  case (Suc n)
  let ?b = "unat (block_size config)" and ?t = "unat (total_scenarios spec)"
  let ?blk = "make_block spec config (of_nat n)"
  have n: "n < unat (blocks_needed spec config)" using Suc.prems by simp
  note m = make_block_unat [OF v n]
  have w: "of_nat (unat x) = x" for x :: u64 by simp
  have start: "start_scenario ?blk = of_nat (n * ?b)" by (metis m(2) w)
  have end': "end_scenario ?blk = of_nat (min ((n + 1) * ?b) ?t)" by (metis m(3) w)
  have id: "block_id ?blk = of_nat n" by (metis m(1) w)
  have "end_scenario ?blk = start_scenario ?blk +
      min (block_size config) (total_scenarios spec - start_scenario ?blk)"
    "run_incarnation ?blk = 0" "lease_epoch ?blk = 1"
    by (simp_all add: make_block_def Let_def)
  moreover have "\<not> end_scenario ?blk \<le> start_scenario ?blk"
    using m validate_engine_config_Inr(1) [OF v(2)] by (simp add: word_le_nat_alt)
  moreover have "antithetic spec \<Longrightarrow> start_scenario ?blk mod 2 = 0 \<and> end_scenario ?blk mod 2 = 0"
    using m validate_engine_config_Inr(2) [OF v(2)] valid_spec_bounds(5) [OF v(1)]
    by (simp add: u64_even_iff min_def)
  ultimately have "check_universe_block spec config 0 (n, ?blk) (of_nat (n * ?b)) = Inr (end_scenario ?blk)"
    using start id unfolding check_universe_block_def prod.case Let_def by auto
  moreover have "min (n * ?b) ?t = n * ?b" using m(4) by simp
  ultimately show ?case
    using Suc end' by (simp add: enumerate_append_eq fold_result_append del: rbind_eq_Inr of_nat_mult)
qed simp

lemma make_coordinator_state_total:
  assumes "make_blocks spec config = Inr blocks"
  shows "\<exists>s. make_coordinator_state env spec config blocks = Inr s \<and> cs_blocks s = blocks \<and>
    cs_run_incarnation s = 0 \<and> cs_rng_version s = rng_version spec \<and>
    cs_stats_schema_version s = stats_schema_version spec \<and> cs_antithetic s = antithetic spec \<and>
    cs_committed_payloads s = replicate (length blocks) None"
proof -
  note b = make_blocks_Inr [OF assms]
  note nth = make_blocks_nth [OF assms]
  let ?N = "unat (blocks_needed spec config)"
  have len: "length blocks = ?N" using b(3) by simp
  have "0 < ?N" using blocks_needed_unat [OF b(1,2)] by simp
  then have ne1: "blocks \<noteq> []" and "run_incarnation (blocks ! 0) = 0"
    using len nth(5) [of 0] by auto
  then have ne: "blocks \<noteq> []" "run_incarnation (hd blocks) = 0" by (simp_all add: hd_conv_nth [OF ne1])
  have u: "fold_result (check_universe_block spec config 0) (enumerate 0 blocks) 0 = Inr (total_scenarios spec)"
    using check_universe_prefix [OF b(1,2) order_refl] blocks_cover [OF b(1,2)] by (simp add: b(3))
  have m: "\<not> max_materialized_blocks config < blocks_needed spec config"
    using b(4) by (simp add: word_less_nat_alt)
  have v: "validate_run_spec spec = Inr ()" using b(1) by (simp add: valid_spec_def)
  obtain p where p: "encode_run_spec_payload spec = Inr p"
    unfolding encode_run_spec_payload_def v rbind_simps Let_def by blast
  obtain h where h: "execution_layout_hash spec config = Inr h"
    unfolding execution_layout_hash_def encode_execution_layout_payload_def v b(2) rbind_simps Let_def
      run_spec_hash_def p
    using m by simp
  show ?thesis
    unfolding make_coordinator_state_def v b(2) rbind_simps Let_def ne(2) u h run_spec_hash_def p
    using len ne(1) by simp
qed

lemma invariant_error_count:
  "invariant_error None a = None \<Longrightarrow> invariant_error (Some (stats_n a)) a = None"
  by (simp add: invariant_error_def)

lemma expected_count_unat:
  assumes "start_scenario (cs_blocks s ! i) < end_scenario (cs_blocks s ! i)"
  shows "unat (expected_count s i) =
    (unat (end_scenario (cs_blocks s ! i)) - unat (start_scenario (cs_blocks s ! i)))
      div (if cs_antithetic s then 2 else 1)"
  using assms by (simp add: expected_count_def Let_def unat_div unat_sub_u64 less_imp_le)

text \<open>What a worker makes of a block of the universe is accepted, whatever the incarnation and the
  leases of the universe are.\<close>

definition universe_of :: "run_spec \<Rightarrow> scenario_block list \<Rightarrow> coordinator_state \<Rightarrow> bool" where
  "universe_of spec blocks s \<longleftrightarrow>
     length (cs_blocks s) = length blocks \<and>
     (\<forall>i < length blocks. block_id (cs_blocks s ! i) = block_id (blocks ! i) \<and>
        start_scenario (cs_blocks s ! i) = start_scenario (blocks ! i) \<and>
        end_scenario (cs_blocks s ! i) = end_scenario (blocks ! i) \<and>
        run_incarnation (cs_blocks s ! i) = cs_run_incarnation s) \<and>
     cs_rng_version s = rng_version spec \<and> cs_stats_schema_version s = stats_schema_version spec \<and>
     cs_antithetic s = antithetic spec"

lemma universe_result_belongs:
  assumes b: "make_blocks spec config = Inr blocks" and u: "universe_of spec blocks s"
    and i: "i < length blocks" and a: "compute_block L spec (cs_blocks s ! i) = Inr a"
    and r: "build_block_result spec s (cs_blocks s ! i) a w = Inr r"
  shows "belongs r s \<and> lease_current r s \<and> res_block r = cs_blocks s ! i \<and> res_aggregate r = a"
proof -
  note nth = make_blocks_nth [OF b i]
  have s: "block_id (cs_blocks s ! i) = block_id (blocks ! i)" "start_scenario (cs_blocks s ! i) = start_scenario (blocks ! i)"
    "end_scenario (cs_blocks s ! i) = end_scenario (blocks ! i)" "run_incarnation (cs_blocks s ! i) = cs_run_incarnation s"
    "length (cs_blocks s) = length blocks" "cs_rng_version s = rng_version spec"
    "cs_stats_schema_version s = stats_schema_version spec" "cs_antithetic s = antithetic spec"
    using u i by (simp_all add: universe_of_def)
  obtain c where c: "aggregate_payload_hash a (stats_schema_version spec) = Inr c"
    and r': "r = \<lparr>res_block = cs_blocks s ! i, res_aggregate = a, res_run_spec_hash = cs_run_spec_hash s,
            res_execution_layout_hash = cs_execution_layout_hash s,
            res_build_fingerprint = cs_build_fingerprint s, res_payload_checksum = c,
            res_rng_version = rng_version spec, res_stats_schema_version = stats_schema_version spec,
            res_worker_id = w\<rparr>"
    using r by (auto simp: build_block_result_def)
  have valid: "invariant_error None a = None"
    using c by (auto simp: aggregate_payload_hash_def encode_aggregate_payload_def split: if_splits option.splits)
  have "compute_block L spec (blocks ! i) = Inr a"
    using a s(2,3) by (simp add: compute_block_def compute_block_with_kernel_def)
  then have "unat (expected_count s i) = unat (stats_n a)"
    using expected_count_unat [of s i] compute_block_ok(2) [OF nth(2,3) nth(4)] nth(2) s
    by (simp add: expected_observations_def stride_def)
  then have "expected_count s i = stats_n a" by (rule u64_eqI)
  then have "invariant_error (Some (expected_count s i)) a = None"
    using invariant_error_count [OF valid] by simp
  then show ?thesis
    using c i nth(1) s by (simp add: r' belongs_def lease_current_def Let_def)
qed

lemma make_blocks_universe:
  assumes "make_blocks spec config = Inr blocks" "cs_blocks s = blocks" "cs_run_incarnation s = 0"
    "cs_rng_version s = rng_version spec" "cs_stats_schema_version s = stats_schema_version spec"
    "cs_antithetic s = antithetic spec"
  shows "universe_of spec blocks s"
  using assms(2-) make_blocks_nth(5) [OF assms(1)] by (simp add: universe_of_def)

lemma worker_result_belongs:
  assumes b: "make_blocks spec config = Inr blocks"
    and s: "cs_blocks s = blocks" "cs_run_incarnation s = 0" "cs_rng_version s = rng_version spec"
      "cs_stats_schema_version s = stats_schema_version spec" "cs_antithetic s = antithetic spec"
    and i: "i < length blocks" and a: "compute_block L spec (blocks ! i) = Inr a"
    and r: "build_block_result spec s (blocks ! i) a w = Inr r"
  shows "belongs r s \<and> lease_current r s \<and> res_block r = blocks ! i \<and> res_aggregate r = a"
  using universe_result_belongs [OF b make_blocks_universe [OF b s] i] a r s(1) by simp

section \<open>Properties\<close>

text \<open>The reference classification: an ordered list of what can be wrong with a result, the first match deciding,
  and the ledger for a result that belongs to the run.\<close>

definition mismatches :: "block_result \<Rightarrow> coordinator_state \<Rightarrow> (bool \<times> validation_status) list" where
  "mismatches r s =
     (let i = unat (block_id (res_block r)); b = cs_blocks s ! i
      in [(res_run_spec_hash r \<noteq> cs_run_spec_hash s, InvalidRun),
          (res_execution_layout_hash r \<noteq> cs_execution_layout_hash s, ExecutionLayoutMismatch),
          (res_build_fingerprint r \<noteq> cs_build_fingerprint s, BuildMismatch),
          (run_incarnation (res_block r) \<noteq> cs_run_incarnation s, StaleIncarnation),
          (res_rng_version r \<noteq> cs_rng_version s, RngVersionMismatch),
          (res_stats_schema_version r \<noteq> cs_stats_schema_version s, StatsSchemaMismatch),
          (length (cs_blocks s) \<le> i, InvalidBlock),
          (start_scenario (res_block r) \<noteq> start_scenario b \<or> end_scenario (res_block r) \<noteq> end_scenario b, InvalidBlock),
          (invariant_error (Some (expected_count s i)) (res_aggregate r) \<noteq> None, InvalidAggregate),
          (aggregate_payload_hash (res_aggregate r) (cs_stats_schema_version s) \<noteq> Inr (res_payload_checksum r), CorruptPayload)])"

definition ledger_status :: "block_result \<Rightarrow> coordinator_state \<Rightarrow> validation_status" where
  "ledger_status r s =
     (if committed s r = Some (res_payload_checksum r) then Duplicate
      else if committed s r \<noteq> None then DeterminismError
      else if lease_current r s then Accepted
      else StaleLease)"

lemma belongs_no_mismatch: "belongs r s \<longleftrightarrow> find fst (mismatches r s) = None"
  by (auto simp: belongs_def mismatches_def Let_def find_None_iff not_le)

lemma validate_first_mismatch:
  assumes ok: "coordinator_ok s"
  shows "\<exists>msg. validate_result r s =
    Inr (case find fst (mismatches r s) of Some (_, status) \<Rightarrow> status | None \<Rightarrow> ledger_status r s, msg)"
proof (cases "belongs r s")
  case True
  then show ?thesis
    using validate_belongs [OF True] unfolding belongs_no_mismatch
    by (auto simp: ledger_status_def split: option.splits if_splits)
next
  case False
  have hash: "\<exists>h. aggregate_payload_hash (res_aggregate r) kStatsSchemaVersion = Inr h"
    if "invariant_error (Some (expected_count s (unat (block_id (res_block r))))) (res_aggregate r) = None"
    using payload_hash_total [OF that] by blast
  have schema: "cs_stats_schema_version s = kStatsSchemaVersion" using ok by (simp add: coordinator_ok_def)
  from False obtain bad status where "find fst (mismatches r s) = Some (bad, status)"
    unfolding belongs_no_mismatch by auto
  moreover from this have "\<exists>msg. validate_result r s = Inr (status, msg)"
    using hash unfolding validate_result_def mismatches_def Let_def expected_count_def schema
    by (auto split: if_splits option.splits)
  ultimately show ?thesis by auto
qed

text \<open>C10. Classification is total and exact: on a coordinator with any results committed, no result makes
  \<^verbatim>\<open>validate_result\<close> throw.  The first mismatch of an identity, the block, the aggregate or its checksum
  decides the status, each with its own; a result without a mismatch is a duplicate when the same payload is
  committed for its block, a determinism error when another payload is, a stale lease when nothing is committed
  and its lease epoch is old, and accepted otherwise.\<close>

theorem validation_classifies:
  assumes "make_coordinator_state env spec config blocks = Inr s0"
    and "s = fold record_payload earlier s0"
  shows "(\<exists>msg. validate_result r s =
      Inr (case find fst (mismatches r s) of Some (_, status) \<Rightarrow> status | None \<Rightarrow> ledger_status r s, msg)) \<and>
    ((\<exists>msg. validate_result r s = Inr (Accepted, msg)) \<longleftrightarrow>
     belongs r s \<and> committed s r = None \<and> lease_current r s)"
proof -
  have "coordinator_ok (fold record_payload earlier u)" if "coordinator_ok u" for u
    using that by (induction earlier arbitrary: u) auto
  then have "coordinator_ok s" using make_coordinator_state_ok [OF assms(1)] assms(2) by blast
  then show ?thesis using validate_first_mismatch accepted_iff by blast
qed

definition witness_env :: build_env where
  "witness_env = \<lparr>env_compiler = Gnuc_version ''13.2.0'', env_stdlib = Glibcxx_date 20230801,
     env_arch = Arch_x86_64, env_cplusplus = 202002, env_fp_contract = ''off'', env_fast_math = False,
     env_optimize = True, env_source = ''untracked-source'', env_build_flags = ''untracked-build-flags'',
     env_build_config = ''Release'', env_cpu_policy = ''portable'', env_features = [],
     env_uname = Some (''Linux'', ''6.1.0'', ''x86_64''), env_clib = Glibc_version ''2.39''\<rparr>"

theorem validation_classifies_witness:
  "\<exists>s. make_coordinator_state witness_env witness_spec default_engine_config [witness_block] = Inr s \<and>
     (\<forall>r. res_run_spec_hash r \<noteq> cs_run_spec_hash s \<longrightarrow> (\<exists>msg. validate_result r s = Inr (InvalidRun, msg)))"
proof -
  obtain s where s: "make_coordinator_state witness_env witness_spec default_engine_config [witness_block] = Inr s"
    using make_coordinator_state_total [OF witness_blocks] by blast
  have same: "s = fold record_payload [] s" by simp
  have "\<exists>msg. validate_result r s = Inr (InvalidRun, msg)" if "res_run_spec_hash r \<noteq> cs_run_spec_hash s" for r
  proof -
    have "find fst (mismatches r s) = Some (True, InvalidRun)" using that by (simp add: mismatches_def Let_def)
    then show ?thesis using validation_classifies [OF s same, of r, THEN conjunct1] by simp
  qed
  with s show ?thesis by blast
qed

text \<open>C11. A commit refines the write-once ledger: for a result of the run with a current lease, the
  status and the new set of committed payloads are what the abstract ledger answers, so a committed
  payload is never overwritten, an equal resubmission is a duplicate and a different one is a
  determinism error.  Any other result is rejected without changing the state.\<close>

theorem commit_refines_ledger:
  assumes "coordinator_ok s" "commit_result r s = Inr ((st, msg), s')"
  shows "(belongs r s \<and> lease_current r s \<longrightarrow>
      (st, ledger_of s') = ledger_commit (unat (block_id (res_block r))) (res_payload_checksum r) (ledger_of s)) \<and>
    (\<not> (belongs r s \<and> lease_current r s) \<longrightarrow> st \<noteq> Accepted \<and> s' = s) \<and> coordinator_ok s'"
proof -
  obtain st' msg' where c: "commit_result r s = Inr ((st', msg'), if st' = Accepted then record_payload r s else s)"
    "validate_result r s = Inr (st', msg')"
    using commit_result_cases [OF assms(1)] by blast
  then have s': "s' = (if st = Accepted then record_payload r s else s)" "validate_result r s = Inr (st, msg)"
    using assms(2) by auto
  have rejected: "st \<noteq> Accepted" if "\<not> (belongs r s \<and> lease_current r s)"
    using that accepted_iff [OF assms(1), of r] s'(2) by auto
  have "(st, ledger_of s') = ledger_commit (unat (block_id (res_block r))) (res_payload_checksum r) (ledger_of s)"
    if b: "belongs r s" "lease_current r s"
  proof (cases "committed s r")
    case None
    then show ?thesis
      using b s' validate_belongs [OF b(1)] ledger_record [OF assms(1) b(1)] belongs_index [OF assms(1) b(1)]
      by (simp add: ledger_commit_def ledger_of_def committed_def)
  next
    case (Some d)
    then show ?thesis
      using b s' validate_belongs [OF b(1)] belongs_index [OF assms(1) b(1)]
      by (auto simp: ledger_commit_def ledger_of_def committed_def split: if_splits)
  qed
  with rejected s' assms(1) show ?thesis by auto
qed

definition witness_payload :: "bytes" where
  "witness_payload = le32 1 @ le32 kStatsSchemaVersion @ le64 1 @ le64 (bits_of zero64) @ le64 (bits_of zero64) @
     le64 (bits_of zero64) @ le64 (bits_of zero64)"

lemma witness_stats_valid: "invariant_error None witness_stats = None"
  by (rule stats_ok_checks) (simp_all add: witness_stats_def stats_ok_def)

lemma witness_payload_hash: "aggregate_payload_hash witness_stats kStatsSchemaVersion = Inr (sha256 witness_payload)"
  by (simp add: aggregate_payload_hash_def encode_aggregate_payload_def witness_stats_valid append_le
      witness_payload_def) (simp add: witness_stats_def)

lemma witness_result_exists:
  "\<exists>s r. coordinator_ok s \<and> belongs r s \<and> lease_current r s \<and> ledger_of s (unat (block_id (res_block r))) = None"
proof -
  obtain s where s: "make_coordinator_state witness_env witness_spec default_engine_config [witness_block] = Inr s"
    "cs_blocks s = [witness_block]" "cs_run_incarnation s = 0" "cs_rng_version s = rng_version witness_spec"
    "cs_stats_schema_version s = stats_schema_version witness_spec" "cs_antithetic s = antithetic witness_spec"
    "cs_committed_payloads s = replicate (length [witness_block]) None"
    using make_coordinator_state_total [OF witness_blocks] by blast
  have v: "stats_schema_version witness_spec = kStatsSchemaVersion"
    by (simp add: witness_spec_def default_run_spec_def)
  obtain r where r: "build_block_result witness_spec s ([witness_block] ! 0) witness_stats 0 = Inr r"
    by (simp add: build_block_result_def v witness_payload_hash del: rbind_eq_Inr)
  have "belongs r s \<and> lease_current r s \<and> res_block r = [witness_block] ! 0"
    using worker_result_belongs [OF witness_blocks s(2-6) _ _ r] witness_compute by simp
  moreover from this have "ledger_of s (unat (block_id (res_block r))) = None"
    using s(7) by (simp add: ledger_of_def witness_block_def)
  ultimately show ?thesis using make_coordinator_state_ok [OF s(1)] by blast
qed

theorem commit_refines_ledger_witness:
  "\<exists>s r s'. coordinator_ok s \<and> commit_result r s = Inr ((Accepted, ''result is valid''), s') \<and>
     ledger_of s' (unat (block_id (res_block r))) = Some (res_payload_checksum r)"
proof -
  obtain s r where sr: "coordinator_ok s" "belongs r s" "lease_current r s"
    "ledger_of s (unat (block_id (res_block r))) = None"
    using witness_result_exists by blast
  note c = commit_accepts [OF sr(1,2,4,3)]
  from commit_refines_ledger [OF sr(1) c] sr
  have "ledger_of (record_payload r s) = (ledger_of s)(unat (block_id (res_block r)) \<mapsto> res_payload_checksum r)"
    by (simp add: ledger_commit_def)
  with c sr(1) show ?thesis by fastforce
qed

text \<open>Arrival order does not matter: committing fresh results of distinct blocks succeeds in every
  order and leads to the same coordinator state.\<close>

theorem commit_order_independent:
  assumes "coordinator_ok s" "fresh_results rs s" "mset rs = mset qs"
  shows "fold_result accept_result rs s = fold_result accept_result qs s \<and>
         is_Inr (fold_result accept_result rs s)"
proof -
  have "mset (map (\<lambda>r. block_id (res_block r)) qs) = mset (map (\<lambda>r. block_id (res_block r)) rs)"
    using assms(3) by simp
  then have "fresh_results qs s"
    using assms(2,3) mset_eq_setD [OF assms(3)] mset_eq_imp_distinct_iff by (fastforce simp: fresh_results_def)
  then show ?thesis
    using accept_all_fresh [OF assms(1)] assms fold_record_perm [of rs qs s] by (auto simp: fresh_results_def)
qed

theorem commit_order_independent_witness:
  "\<exists>s r. coordinator_ok s \<and> fresh_results [r] s \<and> is_Inr (fold_result accept_result [r] s)"
proof -
  obtain s r where sr: "coordinator_ok s" "belongs r s" "lease_current r s"
    "ledger_of s (unat (block_id (res_block r))) = None"
    using witness_result_exists by blast
  then have f: "fresh_results [r] s" by (simp add: fresh_results_def)
  from commit_order_independent [OF sr(1) f refl] sr(1) f show ?thesis by blast
qed

end
