(* ===== verification/Crc32c.thy ===== *)
theory Crc32c
  imports Codec
begin

text \<open>
  The CRC32C checksum of \<^verbatim>\<open>src/persistence_codec.cpp\<close>: the table generator, the
  table-driven loop over the bytes, its equivalence with the bit-by-bit polynomial division,
  and the burst errors it detects.
\<close>

section \<open>The table and the loop\<close>

text \<open>One round of the table generator; \<^verbatim>\<open>mask\<close> is all ones or zero.\<close>

definition crc_bit :: "u32 \<Rightarrow> u32" where
  "crc_bit value = (let mask = 0 - (value AND 1) in drop_bit 1 value XOR (0x82F63B78 AND mask))"

definition make_crc32c_table :: "u32 list" where
  "make_crc32c_table = map (\<lambda>index. (crc_bit ^^ 8) (of_nat index)) [0..<256]"

definition kCrc32cTable :: "u32 list" where
  "kCrc32cTable = make_crc32c_table"

definition crc_step :: "u8 \<Rightarrow> u32 \<Rightarrow> u32" where
  "crc_step b crc =
     (let table_index = ucast (crc XOR ucast b) :: u8
      in kCrc32cTable ! unat table_index XOR drop_bit 8 crc)"

definition crc32c_range :: "bytes \<Rightarrow> u32" where
  "crc32c_range data = NOT (fold crc_step data 0xFFFFFFFF)"

definition crc32c :: "bytes \<Rightarrow> u32" where
  "crc32c bs = crc32c_range bs"

section \<open>Algebra of the register\<close>

text \<open>The register update is linear over exclusive or and injective.\<close>

lemma crc_bit_cases: "crc_bit v = (if bit v 0 then drop_bit 1 v XOR 0x82F63B78 else drop_bit 1 v)"
proof -
  have "v AND 1 = (if bit v 0 then 1 else 0)"
    by (rule bit_word_eqI) (auto simp: bit_and_iff bit_1_iff intro: Nat.gr0I)
  then show ?thesis by (simp add: crc_bit_def Let_def)
qed

lemma xor_cancel_right: "((a :: u32) XOR p) XOR p = a"
  by (simp add: xor.assoc)

lemma xor_both: "((a :: u32) XOR p) XOR (b XOR p) = a XOR b"
  by (rule bit_word_eqI) (auto simp: bit_xor_iff)

lemma xor_one: "((a :: u32) XOR p) XOR b = (a XOR b) XOR p"
  by (rule bit_word_eqI) (auto simp: bit_xor_iff)

lemma crc_bit_xor: "crc_bit (a XOR b) = crc_bit a XOR crc_bit b"
proof (cases "bit a 0"; cases "bit b 0")
  assume "bit a 0" "bit b 0"
  then show ?thesis unfolding crc_bit_cases by (simp only: bit_xor_iff drop_bit_xor xor_both if_True if_False simp_thms)
next
  assume "bit a 0" "\<not> bit b 0"
  then show ?thesis unfolding crc_bit_cases by (simp only: bit_xor_iff drop_bit_xor xor_one if_True if_False simp_thms)
next
  assume "\<not> bit a 0" "bit b 0"
  then show ?thesis
    unfolding crc_bit_cases by (simp only: bit_xor_iff drop_bit_xor xor.assoc if_True if_False simp_thms)
next
  assume "\<not> bit a 0" "\<not> bit b 0"
  then show ?thesis unfolding crc_bit_cases by (simp only: bit_xor_iff drop_bit_xor if_True if_False simp_thms)
qed

lemma crc_bit_0 [simp]: "crc_bit 0 = 0"
  by (simp add: crc_bit_cases)

lemma crc_bit_eq_0: "crc_bit v = 0 \<Longrightarrow> v = 0"
proof -
  assume z: "crc_bit v = 0"
  have top: "\<not> bit (drop_bit 1 v) 31" using bit_imp_le_length [of v 32] by (auto simp: bit_drop_bit_eq)
  have "bit (0x82F63B78 :: u32) 31" by simp
  then have "\<not> bit v 0" using z top by (auto simp: crc_bit_cases bit_xor_iff dest!: arg_cong [where f = "\<lambda>w. bit w 31"] split: if_splits)
  moreover have "drop_bit 1 v = 0" using z calculation by (simp add: crc_bit_cases)
  then have "bit v n = False" if "0 < n" for n
    using that by (cases n) (auto dest!: arg_cong [where f = "\<lambda>w. bit w (n - 1)"] simp: bit_drop_bit_eq)
  ultimately show "v = 0" by (intro bit_word_eqI) (metis bit_0_eq bot_apply gr0I bot_bool_def)
qed

lemma crc_bits_xor: "(crc_bit ^^ n) (a XOR b) = (crc_bit ^^ n) a XOR (crc_bit ^^ n) b"
  by (induction n) (simp_all add: crc_bit_xor)

lemma crc_bits_inj: "(crc_bit ^^ n) a = (crc_bit ^^ n) b \<Longrightarrow> a = b"
proof (induction n)
  case (Suc n)
  then have "crc_bit ((crc_bit ^^ n) a XOR (crc_bit ^^ n) b) = 0" by (simp add: crc_bit_xor)
  then have "(crc_bit ^^ n) a XOR (crc_bit ^^ n) b = 0" by (rule crc_bit_eq_0)
  then have "(crc_bit ^^ n) a = (crc_bit ^^ n) b" using xor_cancel_right [of "(crc_bit ^^ n) a" "(crc_bit ^^ n) b"] by simp
  then show ?case using Suc.IH by simp
qed simp

text \<open>Shifting out zero bits is a plain shift.\<close>

lemma crc_bits_shift:
  "(\<And>i. i < n \<Longrightarrow> \<not> bit v i) \<Longrightarrow> (crc_bit ^^ n) v = drop_bit n v"
proof (induction n)
  case (Suc n)
  then show ?case by (simp add: crc_bit_cases bit_drop_bit_eq)
qed simp

lemma crc_bits_pushed: "(crc_bit ^^ n) (push_bit n v) = drop_bit n (push_bit n v)"
  by (rule crc_bits_shift) (simp add: bit_push_bit_iff)

section \<open>Table-driven and bit-by-bit division agree\<close>

lemma low_high: "(v :: u32) = ucast (ucast v :: u8) XOR push_bit 8 (drop_bit 8 v)"
  by (rule bit_word_eqI) (auto simp: bit_xor_iff bit_ucast_iff bit_push_bit_iff bit_drop_bit_eq)

lemma table_entry: "kCrc32cTable ! unat (b :: u8) = (crc_bit ^^ 8) (ucast b)"
proof -
  have "unat b < 256" using unsigned_less [of b, where 'a = nat] by simp
  then show ?thesis
    unfolding kCrc32cTable_def make_crc32c_table_def by (simp del: funpow.simps upt_Suc add: unsigned_ucast_eq)
qed

lemma crc_step_bits: "crc_step b crc = (crc_bit ^^ 8) (crc XOR ucast b)"
proof -
  let ?v = "crc XOR ucast b"
  have "drop_bit 8 (push_bit 8 (drop_bit 8 w)) = drop_bit 8 w" for w :: u32
    by (rule bit_word_eqI) (auto simp: bit_push_bit_iff bit_drop_bit_eq dest: bit_imp_le_length)
  from this [of ?v] have "drop_bit 8 (push_bit 8 (drop_bit 8 ?v)) = drop_bit 8 ?v" .
  moreover have "drop_bit 8 ?v = drop_bit 8 crc"
    by (rule bit_word_eqI) (auto simp: bit_xor_iff bit_ucast_iff bit_drop_bit_eq dest: bit_imp_le_length)
  ultimately have "(crc_bit ^^ 8) (push_bit 8 (drop_bit 8 ?v)) = drop_bit 8 crc"
    using crc_bits_pushed [of 8 "drop_bit 8 ?v"] by (simp only:)
  then have "(crc_bit ^^ 8) ?v = (crc_bit ^^ 8) (ucast (ucast ?v :: u8)) XOR drop_bit 8 crc"
    by (subst low_high [of ?v]) (simp only: crc_bits_xor)
  then show ?thesis by (simp add: crc_step_def table_entry del: funpow.simps)
qed

text \<open>The reference: polynomial division over GF(2) by the reflected Castagnoli polynomial, one message
  bit at a time, least significant bit first.\<close>

definition message_bits :: "bytes \<Rightarrow> bool list" where
  "message_bits data = concat (map (\<lambda>b. map (bit b) [0..<8]) data)"

definition lfsr_step :: "bool \<Rightarrow> u32 \<Rightarrow> u32" where
  "lfsr_step x crc = (if bit crc 0 \<noteq> x then drop_bit 1 crc XOR 0x82F63B78 else drop_bit 1 crc)"

definition crc32c_reference :: "bytes \<Rightarrow> u32" where
  "crc32c_reference data = NOT (fold lfsr_step (message_bits data) 0xFFFFFFFF)"

lemma lfsr_step_bit: "lfsr_step x crc = crc_bit (crc XOR (if x then 1 else 0))"
proof -
  have "drop_bit 1 (1 :: u32) = 0" by (simp add: drop_bit_eq_div)
  then show ?thesis by (auto simp: lfsr_step_def crc_bit_cases bit_xor_iff)
qed

lemma crc_bits_unit: "n < 32 \<Longrightarrow> (crc_bit ^^ n) (push_bit n 1) = 1"
  unfolding crc_bits_pushed
  by (rule bit_word_eqI) (auto simp: bit_drop_bit_eq bit_push_bit_iff bit_1_iff bit_exp_iff)

lemma crc_bits_0 [simp]: "(crc_bit ^^ n) 0 = 0"
  by (induction n) simp_all

lemma take_bit_split:
  "take_bit (Suc n) (v :: u32) = take_bit n v XOR push_bit n (if bit v n then 1 else 0)"
  by (rule bit_word_eqI)
    (auto simp: bit_xor_iff bit_take_bit_iff bit_push_bit_iff bit_1_iff less_Suc_eq split: if_splits)

lemma lfsr_bits:
  assumes "n \<le> 32"
  shows "fold lfsr_step (map (bit (v :: u32)) [0..<n]) crc = (crc_bit ^^ n) (crc XOR take_bit n v)"
  using assms
proof (induction n)
  case (Suc n)
  let ?u = "if bit v n then 1 else 0 :: u32"
  have u: "?u = (crc_bit ^^ n) (push_bit n ?u)"
    using Suc.prems crc_bits_unit [of n] by simp
  have "fold lfsr_step (map (bit v) [0..<Suc n]) crc = crc_bit ((crc_bit ^^ n) (crc XOR take_bit n v) XOR ?u)"
    using Suc by (simp add: lfsr_step_bit [of "bit v n"])
  also have "\<dots> = crc_bit ((crc_bit ^^ n) ((crc XOR take_bit n v) XOR push_bit n ?u))"
    by (subst u) (simp only: crc_bits_xor)
  also have "\<dots> = (crc_bit ^^ Suc n) (crc XOR take_bit (Suc n) v)"
    by (simp only: take_bit_split xor.assoc funpow.simps o_apply)
  finally show ?case .
qed simp

lemma crc_step_lfsr: "crc_step b crc = fold lfsr_step (map (bit b) [0..<8]) crc"
proof -
  have "map (bit b) [0..<8] = map (bit (ucast b :: u32)) [0..<8]"
    by (auto simp: bit_ucast_iff)
  moreover have "take_bit 8 (ucast b :: u32) = ucast b"
    by (rule bit_word_eqI) (auto simp: bit_take_bit_iff bit_ucast_iff dest: bit_imp_le_length)
  ultimately show ?thesis by (simp only: crc_step_bits lfsr_bits numeral_le_iff semiring_norm)
qed

lemma fold_crc_step_lfsr: "fold crc_step data crc = fold lfsr_step (message_bits data) crc"
  by (induction data arbitrary: crc) (simp_all add: message_bits_def crc_step_lfsr del: upt_Suc)

section \<open>Burst errors\<close>

lemma take_bit_byte_split:
  "take_bit (8 * Suc k) (w :: u32) = take_bit (8 * k) w XOR push_bit (8 * k) (ucast (ucast (drop_bit (8 * k) w) :: u8))"
  by (rule bit_word_eqI)
    (auto simp: bit_xor_iff bit_take_bit_iff bit_push_bit_iff bit_ucast_iff bit_drop_bit_eq)

lemma byte_position:
  assumes "k < 4"
  shows "(crc_bit ^^ (8 * k)) (push_bit (8 * k) (ucast (b :: u8))) = ucast b"
  unfolding crc_bits_pushed using assms
  by (intro bit_word_eqI) (auto simp: bit_drop_bit_eq bit_push_bit_iff bit_ucast_iff dest: bit_imp_le_length)

lemma crc_word_prefix:
  "k \<le> 4 \<Longrightarrow> fold crc_step (map (\<lambda>i. ucast (drop_bit (8 * i) w)) [0..<k]) crc =
     (crc_bit ^^ (8 * k)) (crc XOR take_bit (8 * k) (w :: u32))"
proof (induction k)
  case (Suc k)
  let ?b = "ucast (drop_bit (8 * k) w) :: u8"
  have b: "ucast ?b = (crc_bit ^^ (8 * k)) (push_bit (8 * k) (ucast ?b))"
    using Suc.prems by (intro byte_position [symmetric]) simp
  have "fold crc_step (map (\<lambda>i. ucast (drop_bit (8 * i) w)) [0..<Suc k]) crc =
      (crc_bit ^^ 8) ((crc_bit ^^ (8 * k)) (crc XOR take_bit (8 * k) w) XOR ucast ?b)"
    using Suc by (simp add: crc_step_bits [of ?b])
  also have "\<dots> = (crc_bit ^^ 8) ((crc_bit ^^ (8 * k)) (crc XOR take_bit (8 * Suc k) w))"
    by (subst b) (simp only: crc_bits_xor take_bit_byte_split xor.assoc)
  also have "\<dots> = (crc_bit ^^ (8 + 8 * k)) (crc XOR take_bit (8 * Suc k) w)"
    by (simp only: funpow_add o_apply)
  finally show ?case by (simp only: mult_Suc_right)
qed simp

lemma crc_word: "fold crc_step (le32 w) crc = (crc_bit ^^ 32) (crc XOR w)"
proof -
  have "take_bit (8 * 4) w = w" by (rule bit_word_eqI) (auto simp: bit_take_bit_iff)
  then show ?thesis using crc_word_prefix [of 4 w crc] by (simp add: le32_def del: funpow.simps)
qed

lemma crc_fold_inj: "fold crc_step data a = fold crc_step data b \<Longrightarrow> a = b"
proof (induction data arbitrary: a b)
  case (Cons d data)
  from Cons.prems have "fold crc_step data (crc_step d a) = fold crc_step data (crc_step d b)" by simp
  then have "crc_step d a = crc_step d b" by (rule Cons.IH)
  then have "a XOR ucast d = b XOR ucast d" unfolding crc_step_bits by (rule crc_bits_inj)
  then have "(a XOR ucast d) XOR ucast d = (b XOR ucast d) XOR ucast d" by (rule arg_cong)
  then show ?case by (simp only: xor_cancel_right)
qed simp

lemma four_bytes: "length u = 4 \<Longrightarrow> \<exists>w. u = le32 w"
  using u32.enc_dec [of u _ "[]"] by (auto simp: read_u32_def reader_require_def)

lemma crc_window:
  assumes "length u = 4" "length v = 4"
    and "fold crc_step (xs @ u @ ys) crc = fold crc_step (xs @ v @ ys) crc"
  shows "u = v"
proof -
  obtain w z where w: "u = le32 w" and z: "v = le32 z" using four_bytes assms(1,2) by blast
  let ?s = "fold crc_step xs crc"
  from assms(3) have "fold crc_step ys (fold crc_step u ?s) = fold crc_step ys (fold crc_step v ?s)" by simp
  then have "fold crc_step u ?s = fold crc_step v ?s" by (rule crc_fold_inj)
  then have "?s XOR w = ?s XOR z" unfolding w z crc_word by (rule crc_bits_inj)
  then have "(w XOR ?s) XOR ?s = (z XOR ?s) XOR ?s" by (simp only: xor.commute)
  then have "w = z" by (simp only: xor_cancel_right)
  then show ?thesis using w z by simp
qed

text \<open>Appending the checksum leaves a register that does not depend on the data.\<close>

lemma crc_residue: "fold crc_step (data @ le32 (crc32c data)) 0xFFFFFFFF = (crc_bit ^^ 32) (NOT 0)"
proof -
  let ?s = "fold crc_step data 0xFFFFFFFF"
  have "?s XOR NOT ?s = NOT 0" by (rule bit_word_eqI) (simp add: bit_xor_iff bit_not_iff)
  then show ?thesis by (simp add: crc_word crc32c_def crc32c_range_def del: funpow.simps)
qed

lemma checksummed_burst:
  assumes "data @ le32 (crc32c data) = xs @ u @ ys" "data' @ le32 (crc32c data') = xs @ v @ ys"
    and "length u = 4" "length v = 4"
  shows "u = v"
proof (rule crc_window [OF assms(3,4)])
  show "fold crc_step (xs @ u @ ys) 0xFFFFFFFF = fold crc_step (xs @ v @ ys) 0xFFFFFFFF"
    unfolding assms(1,2) [symmetric] by (simp only: crc_residue)
qed

lemma crc32c_reference_eq: "crc32c data = crc32c_reference data"
  by (simp add: crc32c_def crc32c_range_def crc32c_reference_def fold_crc_step_lfsr)

text \<open>The published check value, the checksum of \<^verbatim>\<open>"123456789"\<close>.\<close>

lemma crc32c_known_answer:
  "crc32c [0x31, 0x32, 0x33, 0x34, 0x35, 0x36, 0x37, 0x38, 0x39] = 0xE3069283"
  unfolding crc32c_reference_eq by code_simp

section \<open>Properties\<close>

text \<open>C26. The table-driven checksum of the storage envelopes is CRC-32C: for every byte string it equals
  the bit-by-bit division by the reflected Castagnoli polynomial.\<close>

theorem crc32c_is_polynomial_division: "crc32c data = crc32c_reference data"
  by (rule crc32c_reference_eq)

end
