(* ===== verification/Persistence_Codec.thy ===== *)
theory Persistence_Codec
  imports Coordinator Crc32c
begin

text \<open>
  The durable records and their binary format (\<^verbatim>\<open>include/mc/persistence.hpp\<close>,
  \<^verbatim>\<open>src/persistence_codec.cpp\<close>): the checksummed envelope, and the encoder and decoder of run
  metadata, block records and manifests.  The two directions are proved to be mutually inverse:
  what an encoder writes is read back, and what a decoder accepts is the encoding of what it
  returns, byte for byte.
\<close>

section \<open>Records\<close>

definition kStorageSchemaVersion :: u32 where "kStorageSchemaVersion = 1"

datatype durable_run_status = Running | Complete | Failed

fun durable_status_code :: "durable_run_status \<Rightarrow> u8" where
  "durable_status_code Running = 1"
| "durable_status_code Complete = 2"
| "durable_status_code Failed = 3"

record run_metadata =
  md_run_id :: sha256_digest
  md_spec :: run_spec
  md_block_size :: u64
  md_block_count :: u64
  md_run_spec_hash :: sha256_digest
  md_execution_layout_hash :: sha256_digest
  md_build_fingerprint :: sha256_digest
  md_build_description :: string

record durable_block_record =
  br_run_id :: sha256_digest
  br_result :: block_result

record manifest_entry =
  me_block_id :: u64
  me_result_incarnation :: u64
  me_lease_epoch :: u64
  me_payload_checksum :: sha256_digest

record failure_record =
  fr_status :: validation_status
  fr_block_id :: u64
  fr_run_incarnation :: u64
  fr_lease_epoch :: u64
  fr_observed_checksum :: sha256_digest
  fr_committed_checksum :: sha256_digest
  fr_reason :: string

record run_manifest =
  mf_run_id :: sha256_digest
  mf_run_spec_hash :: sha256_digest
  mf_execution_layout_hash :: sha256_digest
  mf_build_fingerprint :: sha256_digest
  mf_sequence :: u64
  mf_status :: durable_run_status
  mf_run_incarnation :: u64
  mf_rng_version :: u64
  mf_stats_schema_version :: u32
  mf_block_count :: u64
  mf_lease_epochs :: "u64 list"
  mf_committed_blocks :: "manifest_entry list"
  mf_committed_aggregate :: aggregate_stats
  mf_failure :: "failure_record option"

section \<open>The envelope\<close>

definition kMetadataMagic :: bytes where "kMetadataMagic = string_bytes ''MCR2META''"
definition kBlockMagic :: bytes where "kBlockMagic = string_bytes ''MCR2BLK_''"
definition kManifestMagic :: bytes where "kManifestMagic = string_bytes ''MCR2MAN_''"
definition kMaxMetadataBytes :: u64 where "kMaxMetadataBytes = 1024 * 1024"
definition kMaxBlockRecordBytes :: u64 where "kMaxBlockRecordBytes = 4096"
definition kMaxBuildDescriptionBytes :: u32 where "kMaxBuildDescriptionBytes = 64 * 1024"
definition kMaxFailureReasonBytes :: u32 where "kMaxFailureReasonBytes = 4096"

definition append_string :: "bytes \<Rightarrow> string \<Rightarrow> u32 \<Rightarrow> bytes result" where
  "append_string bs s maximum_size =
     (if unat maximum_size < length s \<or> 0xFFFFFFFF < length s
      then Inl (Length_error ''durable string exceeds its schema limit'')
      else Inr (append_u32 bs (of_nat (length s)) @ string_bytes s))"

definition make_envelope :: "bytes \<Rightarrow> bytes \<Rightarrow> bytes" where
  "make_envelope magic payload =
     (let bs = append_u32 magic kStorageSchemaVersion;
          bs = append_u64 bs (of_nat (length payload));
          bs = bs @ payload
      in append_u32 bs (crc32c bs))"

definition envelope_overhead :: nat where
  "envelope_overhead = 8 + 4 + 8 + 4"

definition open_envelope :: "bytes \<Rightarrow> bytes \<Rightarrow> u64 \<Rightarrow> bytes result" where
  "open_envelope bs expected_magic maximum_size =
     (if length bs < envelope_overhead \<or> unat maximum_size < length bs
      then Inl (Runtime_error ''durable envelope size is invalid'')
      else if take (length expected_magic) bs \<noteq> expected_magic
      then Inl (Runtime_error ''durable envelope magic mismatch'')
      else rbind (read_bytes 8 bs) (\<lambda>(_, r).
           rbind (read_u32 r) (\<lambda>(schema, r).
             if schema \<noteq> kStorageSchemaVersion
             then Inl (Runtime_error ''unsupported durable storage schema version'')
             else rbind (read_u64 r) (\<lambda>(payload_size, r).
               if maximum_size < payload_size \<or> unat payload_size \<noteq> length bs - envelope_overhead
               then Inl (Runtime_error ''durable envelope payload length mismatch'')
               else rbind (read_bytes (unat payload_size) r) (\<lambda>(_, r).
                    rbind (read_u32 r) (\<lambda>(stored_crc, r).
                    rbind (reader_finish r) (\<lambda>_.
                      if stored_crc \<noteq> crc32c_range (take (length bs - 4) bs)
                      then Inl (Runtime_error ''durable envelope CRC32C mismatch'')
                      else Inr (drop (8 + 4 + 8) (take (length bs - 4) bs)))))))))"

section \<open>Payload decoders\<close>

text \<open>The decoder starts from a default-constructed specification, so a field the payload does not
  carry keeps its default.\<close>

definition decode_model_tail :: "run_spec \<Rightarrow> bytes \<Rightarrow> (run_spec \<times> bytes) result" where
  "decode_model_tail spec bs =
     (case spec_model_type spec of
        Gbm \<Rightarrow> rbind (read_binary64 bs) (\<lambda>(v, bs). Inr (spec\<lparr>volatility := v\<rparr>, bs))
      | Heston \<Rightarrow>
          rbind (read_u32 bs) (\<lambda>(version, bs).
          rbind (read_binary64 bs) (\<lambda>(v0, bs).
          rbind (read_binary64 bs) (\<lambda>(kappa, bs).
          rbind (read_binary64 bs) (\<lambda>(theta, bs).
          rbind (read_binary64 bs) (\<lambda>(sigma, bs).
          rbind (read_binary64 bs) (\<lambda>(rho, bs).
            Inr (spec\<lparr>heston := Some \<lparr>initial_variance = v0, mean_reversion_rate = kappa,
                   long_run_variance = theta, volatility_of_variance = sigma, correlation = rho,
                   discretization_version = version\<rparr>\<rparr>, bs)))))))
      | Unknown_model b \<Rightarrow> Inl (Runtime_error ''persisted RunSpec model is unsupported''))"

definition decode_run_spec_payload :: "bytes \<Rightarrow> run_spec result" where
  "decode_run_spec_payload bs =
     rbind (read_u32 bs) (\<lambda>(schema, bs).
     if schema \<noteq> kRunSpecSchemaVersion
     then Inl (Runtime_error ''unsupported persisted RunSpec schema'')
     else
       rbind (read_u64 bs) (\<lambda>(engine, bs).
       rbind (read_u64 bs) (\<lambda>(rng, bs).
       rbind (read_u32 bs) (\<lambda>(stats, bs).
       rbind (read_u8 bs) (\<lambda>(model, bs).
       rbind (read_u8 bs) (\<lambda>(payoff, bs).
       rbind (read_u8 bs) (\<lambda>(anti, bs).
       if 1 < anti then Inl (Runtime_error ''persisted RunSpec flags are invalid'')
       else rbind (read_u8 bs) (\<lambda>(reserved, bs).
       if reserved \<noteq> 0 then Inl (Runtime_error ''persisted RunSpec flags are invalid'')
       else
         rbind (read_u64 bs) (\<lambda>(seed, bs).
         rbind (read_u64 bs) (\<lambda>(total, bs).
         rbind (read_u32 bs) (\<lambda>(steps, bs).
         rbind (read_binary64 bs) (\<lambda>(mat, bs).
         rbind (read_binary64 bs) (\<lambda>(s0, bs).
         rbind (read_binary64 bs) (\<lambda>(k, bs).
         rbind (read_binary64 bs) (\<lambda>(r, bs).
         rbind (decode_model_tail (default_run_spec\<lparr>engine_version := engine, rng_version := rng,
             stats_schema_version := stats, spec_model_type := model_of_code model,
             spec_payoff_type := payoff_of_code payoff, antithetic := (anti = 1),
             global_seed := seed, total_scenarios := total, num_time_steps := steps,
             maturity := mat, spot := s0, strike := k, rate := r\<rparr>) bs) (\<lambda>(spec, bs).
         rbind (reader_finish bs) (\<lambda>_.
         rbind (validate_run_spec spec) (\<lambda>_. Inr spec))))))))))))))))))"

definition decode_aggregate_payload :: "bytes \<Rightarrow> u32 \<Rightarrow> aggregate_stats result" where
  "decode_aggregate_payload bs expected_schema =
     rbind (read_u32 bs) (\<lambda>(version, bs).
     if version \<noteq> 1 then Inl (Runtime_error ''persisted aggregate schema mismatch'')
     else rbind (read_u32 bs) (\<lambda>(schema, bs).
     if schema \<noteq> expected_schema then Inl (Runtime_error ''persisted aggregate schema mismatch'')
     else
       rbind (read_u64 bs) (\<lambda>(n, bs).
       rbind (read_binary64 bs) (\<lambda>(mean, bs).
       rbind (read_binary64 bs) (\<lambda>(m2, bs).
       rbind (read_binary64 bs) (\<lambda>(mn, bs).
       rbind (read_binary64 bs) (\<lambda>(mx, bs).
       rbind (reader_finish bs) (\<lambda>_.
         (let aggregate = \<lparr>stats_n = n, stats_mean = mean, stats_m2 = m2, stats_min = mn, stats_max = mx\<rparr>
          in case invariant_error None aggregate of
               Some err \<Rightarrow> Inl (Runtime_error (''invalid persisted aggregate: '' @ err))
             | None \<Rightarrow> Inr aggregate)))))))))"

fun status_code :: "validation_status \<Rightarrow> u32" where
  "status_code Accepted = 0"
| "status_code Duplicate = 1"
| "status_code InvalidRun = 2"
| "status_code ExecutionLayoutMismatch = 3"
| "status_code BuildMismatch = 4"
| "status_code StaleIncarnation = 5"
| "status_code RngVersionMismatch = 6"
| "status_code StatsSchemaMismatch = 7"
| "status_code InvalidAggregate = 8"
| "status_code CorruptPayload = 9"
| "status_code InvalidBlock = 10"
| "status_code StaleLease = 11"
| "status_code DeterminismError = 12"

definition decode_validation_status :: "u32 \<Rightarrow> validation_status result" where
  "decode_validation_status code =
     (if code = 0 then Inr Accepted
      else if code = 1 then Inr Duplicate
      else if code = 2 then Inr InvalidRun
      else if code = 3 then Inr ExecutionLayoutMismatch
      else if code = 4 then Inr BuildMismatch
      else if code = 5 then Inr StaleIncarnation
      else if code = 6 then Inr RngVersionMismatch
      else if code = 7 then Inr StatsSchemaMismatch
      else if code = 8 then Inr InvalidAggregate
      else if code = 9 then Inr CorruptPayload
      else if code = 10 then Inr InvalidBlock
      else if code = 11 then Inr StaleLease
      else if code = 12 then Inr DeterminismError
      else Inl (Runtime_error ''persisted failure has an unknown status code''))"

definition durable_status :: "u8 \<Rightarrow> durable_run_status result" where
  "durable_status code =
     (if code = durable_status_code Running then Inr Running
      else if code = durable_status_code Complete then Inr Complete
      else if code = durable_status_code Failed then Inr Failed
      else Inl (Runtime_error ''persisted manifest has an unknown run status''))"

section \<open>Run metadata\<close>

definition durable_run_id :: "sha256_digest \<Rightarrow> sha256_digest \<Rightarrow> sha256_digest" where
  "durable_run_id spec_hash layout_hash =
     sha256 (append_digest (append_digest (string_bytes ''mc-durable-run-v1'') spec_hash) layout_hash)"

definition encode_run_metadata :: "run_metadata \<Rightarrow> bytes result" where
  "encode_run_metadata m =
     rbind (validate_run_spec (md_spec m)) (\<lambda>_.
     if md_block_size m = 0 \<or> md_block_count m = 0
     then Inl (Invalid_argument ''run metadata has an empty execution layout'')
     else rbind (run_spec_hash (md_spec m)) (\<lambda>h.
     if md_run_spec_hash m \<noteq> h \<or>
        md_run_id m \<noteq> durable_run_id (md_run_spec_hash m) (md_execution_layout_hash m)
     then Inl (Invalid_argument ''run metadata identity is inconsistent'')
     else if md_build_description m = [] \<or>
        sha256 (string_bytes (md_build_description m)) \<noteq> md_build_fingerprint m
     then Inl (Invalid_argument ''run metadata build identity is inconsistent'')
     else rbind (encode_run_spec_payload (md_spec m)) (\<lambda>spec_bytes.
       (let bs = append_digest [] (md_run_id m);
            bs = append_u32 bs (of_nat (length spec_bytes));
            bs = bs @ spec_bytes;
            bs = append_u64 bs (md_block_size m);
            bs = append_u64 bs (md_block_count m);
            bs = append_digest bs (md_run_spec_hash m);
            bs = append_digest bs (md_execution_layout_hash m);
            bs = append_digest bs (md_build_fingerprint m)
        in rbind (append_string bs (md_build_description m) kMaxBuildDescriptionBytes) (\<lambda>payload.
             Inr (make_envelope kMetadataMagic payload))))))"

definition decode_run_metadata :: "bytes \<Rightarrow> run_metadata result" where
  "decode_run_metadata bs =
     rbind (open_envelope bs kMetadataMagic kMaxMetadataBytes) (\<lambda>payload.
     rbind (read_digest payload) (\<lambda>(run_id, r).
     rbind (read_u32 r) (\<lambda>(spec_size, r).
     rbind (read_bytes (unat spec_size) r) (\<lambda>(spec_bytes, r).
     rbind (decode_run_spec_payload spec_bytes) (\<lambda>spec.
     rbind (read_u64 r) (\<lambda>(bsize, r).
     rbind (read_u64 r) (\<lambda>(bcount, r).
     rbind (read_digest r) (\<lambda>(spec_hash, r).
     rbind (read_digest r) (\<lambda>(layout_hash, r).
     rbind (read_digest r) (\<lambda>(fingerprint, r).
     rbind (read_string kMaxBuildDescriptionBytes r) (\<lambda>(description, r).
     rbind (reader_finish r) (\<lambda>_.
     if bsize = 0 \<or> bcount = 0
     then Inl (Runtime_error ''persisted run metadata identity is inconsistent'')
     else rbind (run_spec_hash spec) (\<lambda>h.
     if spec_hash \<noteq> h \<or> run_id \<noteq> durable_run_id spec_hash layout_hash
     then Inl (Runtime_error ''persisted run metadata identity is inconsistent'')
     else if bcount \<noteq> 1 + (total_scenarios spec - 1) div bsize
     then Inl (Runtime_error ''persisted run metadata block count is invalid'')
     else rbind (execution_layout_hash spec
                   (default_engine_config\<lparr>block_size := bsize, max_materialized_blocks := bcount\<rparr>)) (\<lambda>lh.
     if layout_hash \<noteq> lh
     then Inl (Runtime_error ''persisted execution-layout identity is invalid'')
     else if description = [] \<or> fingerprint \<noteq> sha256 (string_bytes description)
     then Inl (Runtime_error ''persisted build identity is invalid'')
     else Inr \<lparr>md_run_id = run_id, md_spec = spec, md_block_size = bsize, md_block_count = bcount,
            md_run_spec_hash = spec_hash, md_execution_layout_hash = layout_hash,
            md_build_fingerprint = fingerprint, md_build_description = description\<rparr>))))))))))))))"

section \<open>Block records\<close>

definition encode_block_record :: "durable_block_record \<Rightarrow> bytes result" where
  "encode_block_record rec =
     (let res = br_result rec; block = res_block res;
          bad = Inl (Invalid_argument ''block record has inconsistent payload identity'')
      in if lease_epoch block = 0 then bad
         else rbind (aggregate_payload_hash (res_aggregate res) (res_stats_schema_version res)) (\<lambda>h.
           if res_payload_checksum res \<noteq> h then bad
           else
             (let bs = append_digest [] (br_run_id rec);
                  bs = append_digest bs (res_run_spec_hash res);
                  bs = append_digest bs (res_execution_layout_hash res);
                  bs = append_digest bs (res_build_fingerprint res);
                  bs = append_u64 bs (block_id block);
                  bs = append_u64 bs (start_scenario block);
                  bs = append_u64 bs (end_scenario block);
                  bs = append_u64 bs (run_incarnation block);
                  bs = append_u64 bs (lease_epoch block);
                  bs = append_u64 bs (res_rng_version res);
                  bs = append_u32 bs (res_stats_schema_version res);
                  bs = append_u64 bs (res_worker_id res)
              in rbind (encode_aggregate_payload (res_aggregate res) (res_stats_schema_version res)) (\<lambda>agg.
                   (let bs = append_u32 bs (of_nat (length agg));
                        bs = bs @ agg;
                        bs = append_digest bs (res_payload_checksum res)
                    in Inr (make_envelope kBlockMagic bs))))))"

definition decode_block_record :: "bytes \<Rightarrow> durable_block_record result" where
  "decode_block_record bs =
     rbind (open_envelope bs kBlockMagic kMaxBlockRecordBytes) (\<lambda>payload.
     rbind (read_digest payload) (\<lambda>(run_id, r).
     rbind (read_digest r) (\<lambda>(spec_hash, r).
     rbind (read_digest r) (\<lambda>(layout_hash, r).
     rbind (read_digest r) (\<lambda>(fingerprint, r).
     rbind (read_u64 r) (\<lambda>(bid, r).
     rbind (read_u64 r) (\<lambda>(start, r).
     rbind (read_u64 r) (\<lambda>(stop, r).
     rbind (read_u64 r) (\<lambda>(inc, r).
     rbind (read_u64 r) (\<lambda>(epoch, r).
     rbind (read_u64 r) (\<lambda>(rng, r).
     rbind (read_u32 r) (\<lambda>(schema, r).
     rbind (read_u64 r) (\<lambda>(worker, r).
     rbind (read_u32 r) (\<lambda>(agg_size, r).
     rbind (read_bytes (unat agg_size) r) (\<lambda>(agg_bytes, r).
     rbind (decode_aggregate_payload agg_bytes schema) (\<lambda>agg.
     rbind (read_digest r) (\<lambda>(checksum, r).
     rbind (reader_finish r) (\<lambda>_.
     if epoch = 0 then Inl (Runtime_error ''persisted block payload identity is invalid'')
     else rbind (aggregate_payload_hash agg schema) (\<lambda>h.
     if checksum \<noteq> h then Inl (Runtime_error ''persisted block payload identity is invalid'')
     else Inr \<lparr>br_run_id = run_id, br_result =
            \<lparr>res_block = \<lparr>block_id = bid, start_scenario = start, end_scenario = stop,
                run_incarnation = inc, lease_epoch = epoch\<rparr>,
             res_aggregate = agg, res_run_spec_hash = spec_hash,
             res_execution_layout_hash = layout_hash, res_build_fingerprint = fingerprint,
             res_payload_checksum = checksum, res_rng_version = rng,
             res_stats_schema_version = schema, res_worker_id = worker\<rparr>\<rparr>)))))))))))))))))))"

section \<open>Manifests\<close>

text \<open>The check both directions make of a committed entry; \<^verbatim>\<open>previous\<close> is the block id of the
  entry before it.  The lease table has an entry for every block id that passed the first test.\<close>

definition entry_not_canonical :: "run_manifest \<Rightarrow> u64 option \<Rightarrow> manifest_entry \<Rightarrow> bool" where
  "entry_not_canonical m previous entry \<longleftrightarrow>
     mf_block_count m \<le> me_block_id entry \<or>
     me_result_incarnation entry = 0 \<or> me_lease_epoch entry = 0 \<or>
     mf_run_incarnation m < me_result_incarnation entry \<or>
     mf_lease_epochs m ! unat (me_block_id entry) < me_lease_epoch entry \<or>
     (me_result_incarnation entry = mf_run_incarnation m \<and>
      me_lease_epoch entry \<noteq> mf_lease_epochs m ! unat (me_block_id entry)) \<or>
     (case previous of None \<Rightarrow> False | Some p \<Rightarrow> me_block_id entry \<le> p)"

fun entries_canonical :: "run_manifest \<Rightarrow> u64 option \<Rightarrow> manifest_entry list \<Rightarrow> bool" where
  "entries_canonical m previous [] = True"
| "entries_canonical m previous (entry # rest) =
     (\<not> entry_not_canonical m previous entry \<and> entries_canonical m (Some (me_block_id entry)) rest)"

definition append_entry :: "manifest_entry \<Rightarrow> bytes \<Rightarrow> bytes" where
  "append_entry entry bs =
     append_digest (append_u64 (append_u64 (append_u64 bs (me_block_id entry))
       (me_result_incarnation entry)) (me_lease_epoch entry)) (me_payload_checksum entry)"

definition append_failure :: "bytes \<Rightarrow> failure_record option \<Rightarrow> bytes result" where
  "append_failure bs failure =
     (case failure of
        None \<Rightarrow> Inr (append_u8 bs 0)
      | Some f \<Rightarrow>
          (let bs = append_u8 bs 1;
               bs = append_u32 bs (status_code (fr_status f));
               bs = append_u64 bs (fr_block_id f);
               bs = append_u64 bs (fr_run_incarnation f);
               bs = append_u64 bs (fr_lease_epoch f);
               bs = append_digest bs (fr_observed_checksum f);
               bs = append_digest bs (fr_committed_checksum f)
           in append_string bs (fr_reason f) kMaxFailureReasonBytes))"

definition encode_manifest :: "run_manifest \<Rightarrow> bytes result" where
  "encode_manifest m =
     (if mf_run_incarnation m = 0 \<or> mf_block_count m = 0 \<or>
         length (mf_lease_epochs m) \<noteq> unat (mf_block_count m)
      then Inl (Invalid_argument ''manifest block/lease universe is invalid'')
      else if list_ex (\<lambda>epoch. epoch = 0) (mf_lease_epochs m)
      then Inl (Invalid_argument ''manifest contains a zero lease epoch'')
      else if mf_status m = Failed \<and> mf_failure m = None
      then Inl (Invalid_argument ''failed manifest is missing failure details'')
      else if mf_status m \<noteq> Failed \<and> mf_failure m \<noteq> None
      then Inl (Invalid_argument ''non-failed manifest contains failure details'')
      else if mf_status m = Complete \<and> length (mf_committed_blocks m) \<noteq> unat (mf_block_count m)
      then Inl (Invalid_argument ''complete manifest is missing committed blocks'')
      else if \<not> entries_canonical m None (mf_committed_blocks m)
      then Inl (Invalid_argument ''manifest entries are not canonical'')
      else case invariant_error None (mf_committed_aggregate m) of
        Some err \<Rightarrow> Inl (Invalid_argument (''manifest aggregate is invalid: '' @ err))
      | None \<Rightarrow>
          (let bs = append_digest [] (mf_run_id m);
               bs = append_digest bs (mf_run_spec_hash m);
               bs = append_digest bs (mf_execution_layout_hash m);
               bs = append_digest bs (mf_build_fingerprint m);
               bs = append_u64 bs (mf_sequence m);
               bs = append_u8 bs (durable_status_code (mf_status m));
               bs = fold (\<lambda>_ bs. append_u8 bs 0) [0..<7] bs;
               bs = append_u64 bs (mf_run_incarnation m);
               bs = append_u64 bs (mf_rng_version m);
               bs = append_u32 bs (mf_stats_schema_version m);
               bs = append_u32 bs 0;
               bs = append_u64 bs (mf_block_count m);
               bs = append_u64 bs (of_nat (length (mf_lease_epochs m)));
               bs = fold (\<lambda>epoch bs. append_u64 bs epoch) (mf_lease_epochs m) bs;
               bs = append_u64 bs (of_nat (length (mf_committed_blocks m)));
               bs = fold append_entry (mf_committed_blocks m) bs
           in rbind (encode_aggregate_payload (mf_committed_aggregate m) (mf_stats_schema_version m)) (\<lambda>agg.
                (let bs = append_u32 bs (of_nat (length agg));
                     bs = bs @ agg
                 in rbind (append_failure bs (mf_failure m)) (\<lambda>payload.
                      Inr (make_envelope kManifestMagic payload))))))"

fun read_reserved :: "nat \<Rightarrow> bytes \<Rightarrow> bytes result" where
  "read_reserved 0 r = Inr r"
| "read_reserved (Suc n) r =
     rbind (read_u8 r) (\<lambda>(b, r).
       if b \<noteq> 0 then Inl (Runtime_error ''manifest reserved status bytes are nonzero'')
       else read_reserved n r)"

fun read_lease_epochs :: "nat \<Rightarrow> u64 list reader" where
  "read_lease_epochs 0 r = Inr ([], r)"
| "read_lease_epochs (Suc n) r =
     rbind (read_u64 r) (\<lambda>(epoch, r).
       if epoch = 0 then Inl (Runtime_error ''manifest contains a zero lease epoch'')
       else rbind (read_lease_epochs n r) (\<lambda>(epochs, r). Inr (epoch # epochs, r)))"

definition read_entry :: "manifest_entry reader" where
  "read_entry r =
     rbind (read_u64 r) (\<lambda>(bid, r).
     rbind (read_u64 r) (\<lambda>(inc, r).
     rbind (read_u64 r) (\<lambda>(epoch, r).
     rbind (read_digest r) (\<lambda>(checksum, r).
       Inr (\<lparr>me_block_id = bid, me_result_incarnation = inc, me_lease_epoch = epoch,
             me_payload_checksum = checksum\<rparr>, r)))))"

fun read_entries :: "run_manifest \<Rightarrow> nat \<Rightarrow> u64 option \<Rightarrow> manifest_entry list reader" where
  "read_entries m 0 previous r = Inr ([], r)"
| "read_entries m (Suc n) previous r =
     rbind (read_entry r) (\<lambda>(entry, r).
       if entry_not_canonical m previous entry
       then Inl (Runtime_error ''manifest entries are not canonical'')
       else rbind (read_entries m n (Some (me_block_id entry)) r) (\<lambda>(rest, r). Inr (entry # rest, r)))"

definition read_failure :: "failure_record option reader" where
  "read_failure r =
     rbind (read_u8 r) (\<lambda>(has_failure, r).
     if 1 < has_failure then Inl (Runtime_error ''manifest failure flag is invalid'')
     else if has_failure = 1
     then
       rbind (read_u32 r) (\<lambda>(code, r).
       rbind (decode_validation_status code) (\<lambda>status.
       rbind (read_u64 r) (\<lambda>(bid, r).
       rbind (read_u64 r) (\<lambda>(inc, r).
       rbind (read_u64 r) (\<lambda>(epoch, r).
       rbind (read_digest r) (\<lambda>(observed, r).
       rbind (read_digest r) (\<lambda>(committed, r).
       rbind (read_string kMaxFailureReasonBytes r) (\<lambda>(reason, r).
         Inr (Some \<lparr>fr_status = status, fr_block_id = bid, fr_run_incarnation = inc,
                fr_lease_epoch = epoch, fr_observed_checksum = observed,
                fr_committed_checksum = committed, fr_reason = reason\<rparr>, r)))))))))
     else Inr (None, r))"

definition run_state_inconsistent ::
  "run_manifest \<Rightarrow> manifest_entry list \<Rightarrow> failure_record option \<Rightarrow> bool" where
  "run_state_inconsistent m entries failure \<longleftrightarrow>
     mf_run_incarnation m = 0 \<or> (mf_status m = Failed) \<noteq> (failure \<noteq> None) \<or>
     (mf_status m = Complete \<and> length entries \<noteq> unat (mf_block_count m))"

text \<open>The committed table and what follows it; \<^verbatim>\<open>m\<close> is the manifest with the fields read so far.\<close>

definition decode_committed_part :: "run_manifest \<Rightarrow> bytes \<Rightarrow> run_manifest result" where
  "decode_committed_part m r =
     rbind (read_u64 r) (\<lambda>(committed_count, r).
     if mf_block_count m < committed_count \<or> length r div (8 + 8 + 8 + 32) < unat committed_count
     then Inl (Runtime_error ''manifest committed table size is invalid'')
     else
       rbind (read_entries m (unat committed_count) None r) (\<lambda>(entries, r).
       rbind (read_u32 r) (\<lambda>(agg_size, r).
       rbind (read_bytes (unat agg_size) r) (\<lambda>(agg_bytes, r).
       rbind (decode_aggregate_payload agg_bytes (mf_stats_schema_version m)) (\<lambda>agg.
       rbind (read_failure r) (\<lambda>(failure, r).
       rbind (reader_finish r) (\<lambda>_.
       if run_state_inconsistent m entries failure
       then Inl (Runtime_error ''manifest run state is inconsistent'')
       else Inr (m\<lparr>mf_committed_blocks := entries, mf_committed_aggregate := agg,
                   mf_failure := failure\<rparr>))))))))"

definition decode_manifest :: "bytes \<Rightarrow> u64 \<Rightarrow> run_manifest result" where
  "decode_manifest bs max_manifest_bytes =
     (if max_manifest_bytes < 256 \<or> u64_max < max_manifest_bytes
      then Inl (Invalid_argument ''max_manifest_bytes is outside host limits'')
      else
        rbind (open_envelope bs kManifestMagic max_manifest_bytes) (\<lambda>payload.
        rbind (read_digest payload) (\<lambda>(run_id, r).
        rbind (read_digest r) (\<lambda>(spec_hash, r).
        rbind (read_digest r) (\<lambda>(layout_hash, r).
        rbind (read_digest r) (\<lambda>(fingerprint, r).
        rbind (read_u64 r) (\<lambda>(seq, r).
        rbind (read_u8 r) (\<lambda>(code, r).
        rbind (durable_status code) (\<lambda>status.
        rbind (read_reserved 7 r) (\<lambda>r.
        rbind (read_u64 r) (\<lambda>(inc, r).
        rbind (read_u64 r) (\<lambda>(rng, r).
        rbind (read_u32 r) (\<lambda>(schema, r).
        rbind (read_u32 r) (\<lambda>(reserved, r).
        if reserved \<noteq> 0 then Inl (Runtime_error ''manifest reserved schema field is nonzero'')
        else
          rbind (read_u64 r) (\<lambda>(count, r).
          rbind (read_u64 r) (\<lambda>(lease_count, r).
          if count = 0 \<or> lease_count \<noteq> count \<or> length r div 8 < unat lease_count
          then Inl (Runtime_error ''manifest lease table size is invalid'')
          else
            rbind (read_lease_epochs (unat lease_count) r) (\<lambda>(epochs, r).
              decode_committed_part
                \<lparr>mf_run_id = run_id, mf_run_spec_hash = spec_hash, mf_execution_layout_hash = layout_hash,
                 mf_build_fingerprint = fingerprint, mf_sequence = seq, mf_status = status,
                 mf_run_incarnation = inc, mf_rng_version = rng, mf_stats_schema_version = schema,
                 mf_block_count = count, mf_lease_epochs = epochs, mf_committed_blocks = [],
                 mf_committed_aggregate = empty_stats, mf_failure = None\<rparr> r)))))))))))))))))"

section \<open>The envelope is canonical\<close>

lemma magic_length [simp]:
  "length kMetadataMagic = 8" "length kBlockMagic = 8" "length kManifestMagic = 8"
  by (simp_all add: kMetadataMagic_def kBlockMagic_def kManifestMagic_def)

lemma make_envelope_layout:
  "make_envelope magic payload =
     (let bs = magic @ le32 kStorageSchemaVersion @ le64 (of_nat (length payload)) @ payload
      in bs @ le32 (crc32c bs))"
  by (simp add: make_envelope_def append_le Let_def)

lemma length_make_envelope [simp]:
  "length magic = 8 \<Longrightarrow> length (make_envelope magic payload) = length payload + envelope_overhead"
  by (simp add: make_envelope_layout Let_def envelope_overhead_def)

lemma open_make_envelope:
  assumes "length magic = 8" "length (make_envelope magic payload) \<le> unat limit"
  shows "open_envelope (make_envelope magic payload) magic limit = Inr payload"
proof -
  let ?head = "magic @ le32 kStorageSchemaVersion @ le64 (of_nat (length payload)) @ payload"
  let ?env = "make_envelope magic payload"
  have env: "?env = ?head @ le32 (crc32c ?head)" by (simp add: make_envelope_layout Let_def)
  have "length payload + 24 \<le> unat limit" using assms by (simp add: envelope_overhead_def)
  then have p: "length payload < 18446744073709551616" using unat_less_2_64 [of limit] by linarith
  then have "unat (of_nat (length payload) :: u64) = length payload" by simp
  then have n: "\<not> limit < of_nat (length payload)"
    using assms by (simp add: envelope_overhead_def word_less_nat_alt)
  have body: "take (length ?env - 4) ?env = ?head" unfolding env by simp
  have "take (length magic) ?env = magic" unfolding env by simp
  moreover have "read_bytes 8 ?env = Inr (magic, drop 8 ?env)" 
    using read_bytes_append [of magic "drop 8 ?env"] assms(1) unfolding env by simp
  ultimately show ?thesis
    unfolding open_envelope_def body
    using assms p n by (simp add: env reader_finish_def crc32c_def envelope_overhead_def)
qed

lemma open_envelope_Inr:
  assumes "open_envelope bs magic limit = Inr payload" "length magic = 8"
  shows "bs = make_envelope magic payload" "length bs \<le> unat limit"
proof -
  obtain m r schema r2 n r3 body r4 crc where
    r: "read_bytes 8 bs = Inr (m, r)" "read_u32 r = Inr (schema, r2)" "read_u64 r2 = Inr (n, r3)"
      "read_bytes (unat n) r3 = Inr (body, r4)" "read_u32 r4 = Inr (crc, [])"
    and c: "take (length magic) bs = magic" "schema = kStorageSchemaVersion"
      "crc = crc32c_range (take (length bs - 4) bs)" "payload = drop 20 (take (length bs - 4) bs)"
      "length bs \<le> unat limit"
    using assms(1) unfolding open_envelope_def by (auto split: if_splits)
  have bs: "bs = m @ le32 schema @ le64 n @ body @ le32 crc" "length m = 8" "unat n = length body"
    using read_bytes_Inr [OF r(1)] u32.enc_dec [OF r(2)] u64.enc_dec [OF r(3)] read_bytes_Inr [OF r(4)]
      u32.enc_dec [OF r(5)] by simp_all
  have m: "m = magic" using c(1) assms(2) unfolding bs(1) by (simp add: bs(2))
  have head: "take (length bs - 4) bs = m @ le32 schema @ le64 n @ body" unfolding bs(1) by simp
  have "crc = crc32c (m @ le32 schema @ le64 n @ body)" unfolding crc32c_def head [symmetric] by (rule c(3))
  moreover have p: "payload = body" unfolding c(4) head by (simp add: bs(2))
  moreover have "of_nat (length body) = n" unfolding bs(3) [symmetric] by simp
  ultimately show "bs = make_envelope magic payload"
    unfolding bs(1) by (simp add: make_envelope_layout Let_def m c(2))
  show "length bs \<le> unat limit" by (rule c(5))
qed

section \<open>Payloads: encoders and decoders are mutually inverse\<close>

lemma encode_aggregate_Inr:
  "encode_aggregate_payload a schema = Inr bs \<longleftrightarrow>
     schema = kStatsSchemaVersion \<and> invariant_error None a = None \<and>
     bs = le32 1 @ le32 schema @ le64 (stats_n a) @ le64 (bits_of (stats_mean a)) @
       le64 (bits_of (stats_m2 a)) @ le64 (bits_of (stats_min a)) @ le64 (bits_of (stats_max a))"
  by (auto simp: encode_aggregate_payload_def append_le Let_def split: option.splits)

lemma length_aggregate_payload: "encode_aggregate_payload a schema = Inr bs \<Longrightarrow> length bs = 48"
  by (simp add: encode_aggregate_Inr)

lemma decode_aggregate_iff:
  "schema = kStatsSchemaVersion \<Longrightarrow>
     decode_aggregate_payload bs schema = Inr a \<longleftrightarrow> encode_aggregate_payload a schema = Inr bs"
proof
  assume "schema = kStatsSchemaVersion" "decode_aggregate_payload bs schema = Inr a"
  then show "encode_aggregate_payload a schema = Inr bs"
    unfolding encode_aggregate_Inr decode_aggregate_payload_def
    by (auto dest!: read_Inr simp: Let_def split: if_splits option.splits)
next
  assume "encode_aggregate_payload a schema = Inr bs"
  then show "decode_aggregate_payload bs schema = Inr a"
    by (cases a) (simp add: encode_aggregate_Inr decode_aggregate_payload_def Let_def reader_finish_def)
qed

lemma decode_aggregate_bytes:
  "decode_aggregate_payload bs schema = Inr a \<Longrightarrow> encode_aggregate_payload a schema = Inr bs' \<Longrightarrow> bs = bs'"
  using decode_aggregate_iff [of schema bs a] by (simp add: encode_aggregate_Inr)

text \<open>A Heston specification is stored without the unused GBM volatility.\<close>

definition spec_storable :: "run_spec \<Rightarrow> bool" where
  "spec_storable spec \<longleftrightarrow> (spec_model_type spec = Heston \<longrightarrow> volatility spec = volatility default_run_spec)"

lemma encode_spec_Inr:
  "encode_run_spec_payload spec = Inr bs \<longleftrightarrow>
     valid_spec spec \<and>
     bs = le32 kRunSpecSchemaVersion @ le64 (engine_version spec) @ le64 (rng_version spec) @
       le32 (stats_schema_version spec) @ [model_code (spec_model_type spec),
       payoff_code (spec_payoff_type spec), if antithetic spec then 1 else 0, 0] @
       le64 (global_seed spec) @ le64 (total_scenarios spec) @ le32 (num_time_steps spec) @
       le64 (bits_of (maturity spec)) @ le64 (bits_of (spot spec)) @ le64 (bits_of (strike spec)) @
       le64 (bits_of (rate spec)) @ append_model_tail [] spec"
proof -
  have "append_model_tail xs spec = xs @ append_model_tail [] spec" for xs
    by (simp add: append_model_tail_def append_le Let_def split: model_type.splits)
  note tail = this [of "_ @ _"]
  show ?thesis
    unfolding encode_run_spec_payload_def Let_def append_le valid_spec_def
    by (cases "validate_run_spec spec") (auto simp: tail)
qed

lemma decode_tail:
  assumes "valid_spec spec" "spec_storable spec"
  shows "decode_model_tail (default_run_spec\<lparr>engine_version := engine_version spec, rng_version := rng_version spec,
             stats_schema_version := stats_schema_version spec, spec_model_type := spec_model_type spec,
             spec_payoff_type := spec_payoff_type spec, antithetic := antithetic spec,
             global_seed := global_seed spec, total_scenarios := total_scenarios spec,
             num_time_steps := num_time_steps spec, maturity := maturity spec, spot := spot spec,
             strike := strike spec, rate := rate spec\<rparr>) (append_model_tail [] spec) = Inr (spec, [])"
  using valid_spec_types(2) [OF assms(1)]
proof
  assume "spec_model_type spec = Gbm \<and> heston spec = None"
  then show ?thesis
    by (cases spec) (simp add: decode_model_tail_def append_model_tail_def append_le default_run_spec_def)
next
  assume "spec_model_type spec = Heston \<and> (\<exists>h. heston spec = Some h \<and> validate_heston h = Inr ())"
  then obtain h where "spec_model_type spec = Heston" "heston spec = Some h" by blast
  then show ?thesis using assms(2)
    by (cases spec; cases h) (simp add: decode_model_tail_def append_model_tail_def append_le Let_def
        heston_parameters_def spec_storable_def default_run_spec_def)
qed

lemma decode_encode_spec:
  assumes "encode_run_spec_payload spec = Inr bs" "spec_storable spec"
  shows "decode_run_spec_payload bs = Inr spec"
proof -
  have v: "valid_spec spec" using assms(1) by (simp add: encode_spec_Inr)
  have t: "payoff_of_code (payoff_code (spec_payoff_type spec)) = spec_payoff_type spec"
    "model_of_code (model_code (spec_model_type spec)) = spec_model_type spec"
    using valid_spec_types [OF v] by auto
  have a: "((if antithetic spec then 1 else 0 :: u8) = 1) = antithetic spec"
    "\<not> 1 < (if antithetic spec then 1 else 0 :: u8)" by auto
  have bs: "bs = le32 kRunSpecSchemaVersion @ le64 (engine_version spec) @ le64 (rng_version spec) @
       le32 (stats_schema_version spec) @ [model_code (spec_model_type spec)] @
       [payoff_code (spec_payoff_type spec)] @ [if antithetic spec then 1 else 0] @ [0] @
       le64 (global_seed spec) @ le64 (total_scenarios spec) @ le32 (num_time_steps spec) @
       le64 (bits_of (maturity spec)) @ le64 (bits_of (spot spec)) @ le64 (bits_of (strike spec)) @
       le64 (bits_of (rate spec)) @ append_model_tail [] spec"
    using assms(1) by (simp add: encode_spec_Inr)
  show ?thesis
    using v unfolding bs decode_run_spec_payload_def
    by (simp only: reads prod.case rbind_simps t a decode_tail [OF v assms(2)] if_False reader_finish_def
        throw_if_simps valid_spec_def simp_thms)
qed

lemma decode_spec_Inr:
  assumes "decode_run_spec_payload bs = Inr spec"
  shows "encode_run_spec_payload spec = Inr bs" "spec_storable spec"
proof -
  obtain engine rng stats model payoff anti seed total steps mat s0 k r tail where
    bs: "bs = le32 kRunSpecSchemaVersion @ le64 engine @ le64 rng @ le32 stats @ [model, payoff, anti, 0] @
       le64 seed @ le64 total @ le32 steps @ le64 (bits_of mat) @ le64 (bits_of s0) @
       le64 (bits_of k) @ le64 (bits_of r) @ tail" "\<not> 1 < anti"
    and tail: "decode_model_tail (default_run_spec\<lparr>engine_version := engine, rng_version := rng,
             stats_schema_version := stats, spec_model_type := model_of_code model,
             spec_payoff_type := payoff_of_code payoff, antithetic := (anti = 1),
             global_seed := seed, total_scenarios := total, num_time_steps := steps,
             maturity := mat, spot := s0, strike := k, rate := r\<rparr>) tail = Inr (spec, [])"
    and v: "validate_run_spec spec = Inr ()"
    using assms unfolding decode_run_spec_payload_def
    by (auto dest!: read_Inr split: if_splits)
  have codes: "payoff_code (payoff_of_code payoff) = payoff" "model_code (model_of_code model) = model"
    by (simp_all add: payoff_of_code_def model_of_code_def)
  have flag: "anti = (if anti = 1 then 1 else 0)"
    using bs(2) by (auto simp: word_less_nat_alt word_unat_eq_iff)
  consider "model_of_code model = Gbm" | "model_of_code model = Heston"
    using tail by (cases "model_of_code model") (auto simp: decode_model_tail_def)
  then have "encode_run_spec_payload spec = Inr bs \<and> spec_storable spec"
    using tail v codes flag
    by cases (auto dest!: read_Inr simp: encode_spec_Inr decode_model_tail_def append_model_tail_def
        append_le Let_def heston_parameters_def spec_storable_def valid_spec_def bs)
  then show "encode_run_spec_payload spec = Inr bs" "spec_storable spec" by auto
qed

lemma decode_spec_iff:
  "decode_run_spec_payload bs = Inr spec \<longleftrightarrow> encode_run_spec_payload spec = Inr bs \<and> spec_storable spec"
  using decode_encode_spec decode_spec_Inr by blast

section \<open>Block records\<close>

definition block_record_digests :: "durable_block_record \<Rightarrow> bool" where
  "block_record_digests rec \<longleftrightarrow>
     length (br_run_id rec) = 32 \<and> length (res_run_spec_hash (br_result rec)) = 32 \<and>
     length (res_execution_layout_hash (br_result rec)) = 32 \<and>
     length (res_build_fingerprint (br_result rec)) = 32"

definition block_payload :: "durable_block_record \<Rightarrow> bytes \<Rightarrow> bytes" where
  "block_payload rec agg =
     br_run_id rec @ res_run_spec_hash (br_result rec) @ res_execution_layout_hash (br_result rec) @
     res_build_fingerprint (br_result rec) @ le64 (block_id (res_block (br_result rec))) @
     le64 (start_scenario (res_block (br_result rec))) @ le64 (end_scenario (res_block (br_result rec))) @
     le64 (run_incarnation (res_block (br_result rec))) @ le64 (lease_epoch (res_block (br_result rec))) @
     le64 (res_rng_version (br_result rec)) @ le32 (res_stats_schema_version (br_result rec)) @
     le64 (res_worker_id (br_result rec)) @ le32 (of_nat (length agg)) @ agg @
     res_payload_checksum (br_result rec)"

lemma encode_block_Inr:
  "encode_block_record rec = Inr bs \<longleftrightarrow>
     lease_epoch (res_block (br_result rec)) \<noteq> 0 \<and>
     (\<exists>agg. encode_aggregate_payload (res_aggregate (br_result rec))
              (res_stats_schema_version (br_result rec)) = Inr agg \<and>
            res_payload_checksum (br_result rec) = sha256 agg \<and>
            bs = make_envelope kBlockMagic (block_payload rec agg))"
  unfolding encode_block_record_def Let_def append_le aggregate_payload_hash_def block_payload_def
  by (cases "encode_aggregate_payload (res_aggregate (br_result rec)) (res_stats_schema_version (br_result rec))")
    auto

lemma decode_encode_block:
  assumes "encode_block_record rec = Inr bs" "block_record_digests rec"
  shows "decode_block_record bs = Inr rec"
proof -
  let ?res = "br_result rec"
  obtain agg where agg: "encode_aggregate_payload (res_aggregate ?res) (res_stats_schema_version ?res) = Inr agg"
    and c: "res_payload_checksum ?res = sha256 agg" "bs = make_envelope kBlockMagic (block_payload rec agg)"
      "lease_epoch (res_block ?res) \<noteq> 0"
    using assms(1) by (auto simp: encode_block_Inr)
  have schema: "res_stats_schema_version ?res = kStatsSchemaVersion" using agg by (simp add: encode_aggregate_Inr)
  have l: "length agg = 48" by (rule length_aggregate_payload [OF agg])
  have d: "length (br_run_id rec) = 32" "length (res_run_spec_hash ?res) = 32"
    "length (res_execution_layout_hash ?res) = 32" "length (res_build_fingerprint ?res) = 32"
    using assms(2) by (auto simp: block_record_digests_def)
  have "open_envelope bs kBlockMagic kMaxBlockRecordBytes = Inr (block_payload rec agg)"
    unfolding c(2) by (rule open_make_envelope)
      (simp_all add: block_payload_def d l c(1) envelope_overhead_def kMaxBlockRecordBytes_def)
  moreover have "read_bytes 48 (agg @ r) = Inr (agg, r)" for r
    using read_bytes_append [of agg r] l by simp
  moreover have "decode_aggregate_payload agg (res_stats_schema_version ?res) = Inr (res_aggregate ?res)"
    using agg by (simp add: decode_aggregate_iff schema)
  moreover have "aggregate_payload_hash (res_aggregate ?res) (res_stats_schema_version ?res) = Inr (sha256 agg)"
    by (simp add: aggregate_payload_hash_def agg)
  ultimately show ?thesis
    using c(3) unfolding decode_block_record_def
    by (simp add: block_payload_def d l c(1) digest.dec_enc digest.dec_enc_end reader_finish_def del: rbind_eq_Inr)
qed

lemma decode_block_Inr:
  assumes "decode_block_record bs = Inr rec"
  shows "encode_block_record rec = Inr bs" "block_record_digests rec"
proof -
  obtain payload where p: "open_envelope bs kBlockMagic kMaxBlockRecordBytes = Inr payload"
    using assms by (auto simp: decode_block_record_def)
  have bs: "bs = make_envelope kBlockMagic payload" by (rule open_envelope_Inr(1) [OF p]) simp
  obtain agg_bytes where e: "encode_aggregate_payload (res_aggregate (br_result rec))
              (res_stats_schema_version (br_result rec)) = Inr agg_bytes"
    and r: "payload = block_payload rec agg_bytes" "lease_epoch (res_block (br_result rec)) \<noteq> 0"
      "res_payload_checksum (br_result rec) = sha256 agg_bytes" "block_record_digests rec"
    using assms unfolding decode_block_record_def p rbind_simps
    by (auto dest!: read_Inr dest: decode_aggregate_bytes split: if_splits
        simp: aggregate_payload_hash_def block_payload_def block_record_digests_def)
  then show "encode_block_record rec = Inr bs" "block_record_digests rec"
    unfolding encode_block_Inr bs by auto
qed

section \<open>Run metadata\<close>

text \<open>What the decoder checks beyond the encoder: the block count and the layout hash are those of the
  stored specification and block size.\<close>

definition metadata_consistent :: "run_metadata \<Rightarrow> bool" where
  "metadata_consistent m \<longleftrightarrow>
     spec_storable (md_spec m) \<and>
     md_block_count m = 1 + (total_scenarios (md_spec m) - 1) div md_block_size m \<and>
     execution_layout_hash (md_spec m)
       (default_engine_config\<lparr>block_size := md_block_size m, max_materialized_blocks := md_block_count m\<rparr>) =
       Inr (md_execution_layout_hash m)"

definition metadata_payload :: "run_metadata \<Rightarrow> bytes \<Rightarrow> bytes" where
  "metadata_payload m spec_bytes =
     md_run_id m @ le32 (of_nat (length spec_bytes)) @ spec_bytes @ le64 (md_block_size m) @
     le64 (md_block_count m) @ md_run_spec_hash m @ md_execution_layout_hash m @ md_build_fingerprint m @
     le32 (of_nat (length (md_build_description m))) @ string_bytes (md_build_description m)"

lemma append_string_Inr:
  "append_string bs s limit = Inr out \<longleftrightarrow>
     length s \<le> unat limit \<and> out = bs @ le32 (of_nat (length s)) @ string_bytes s"
  using unsigned_less [of limit, where 'a = nat] by (auto simp: append_string_def append_le)

lemma length_spec_payload:
  assumes "encode_run_spec_payload spec = Inr bs"
  shows "length bs \<le> 124"
  using assms valid_spec_types(2) [of spec]
  by (auto simp: encode_spec_Inr append_model_tail_def append_le Let_def split: model_type.splits)

lemma encode_metadata_Inr:
  "encode_run_metadata m = Inr bs \<longleftrightarrow>
     md_block_size m \<noteq> 0 \<and> md_block_count m \<noteq> 0 \<and>
     md_run_id m = durable_run_id (md_run_spec_hash m) (md_execution_layout_hash m) \<and>
     md_build_description m \<noteq> [] \<and> length (md_build_description m) \<le> 65536 \<and>
     md_build_fingerprint m = sha256 (string_bytes (md_build_description m)) \<and>
     (\<exists>spec_bytes. encode_run_spec_payload (md_spec m) = Inr spec_bytes \<and>
        md_run_spec_hash m = sha256 spec_bytes \<and>
        bs = make_envelope kMetadataMagic (metadata_payload m spec_bytes))"
proof (cases "encode_run_spec_payload (md_spec m)")
  case (Inl e)
  then show ?thesis by (simp add: encode_run_metadata_def run_spec_hash_def)
next
  case (Inr spec_bytes)
  then have "validate_run_spec (md_spec m) = Inr ()" by (simp add: encode_spec_Inr valid_spec_def)
  then show ?thesis
    unfolding encode_run_metadata_def run_spec_hash_def Inr Let_def append_le metadata_payload_def
    by (auto simp: append_string_Inr kMaxBuildDescriptionBytes_def)
qed

lemma layout_hash_length:
  "execution_layout_hash spec config = Inr h \<Longrightarrow> length h = 32"
  by (auto simp: execution_layout_hash_def)

lemma length_durable_run_id [simp]: "length (durable_run_id a b) = 32"
  by (simp add: durable_run_id_def)

lemma decode_encode_metadata:
  assumes "encode_run_metadata m = Inr bs" "metadata_consistent m"
  shows "decode_run_metadata bs = Inr m"
proof -
  obtain sb where sb: "encode_run_spec_payload (md_spec m) = Inr sb" "md_run_spec_hash m = sha256 sb"
    and bs: "bs = make_envelope kMetadataMagic (metadata_payload m sb)"
    and c: "md_block_size m \<noteq> 0" "md_block_count m \<noteq> 0"
      "md_run_id m = durable_run_id (md_run_spec_hash m) (md_execution_layout_hash m)"
      "md_build_description m \<noteq> []" "length (md_build_description m) \<le> 65536"
      "md_build_fingerprint m = sha256 (string_bytes (md_build_description m))"
    using assms(1) by (auto simp: encode_metadata_Inr)
  have k: "md_block_count m = 1 + (total_scenarios (md_spec m) - 1) div md_block_size m"
    and lh: "execution_layout_hash (md_spec m) (default_engine_config\<lparr>block_size := md_block_size m,
        max_materialized_blocks := md_block_count m\<rparr>) = Inr (md_execution_layout_hash m)"
    and storable: "spec_storable (md_spec m)"
    using assms(2) by (auto simp: metadata_consistent_def)
  have l: "length (md_run_id m) = 32" "length (md_run_spec_hash m) = 32"
    "length (md_execution_layout_hash m) = 32" "length (md_build_fingerprint m) = 32"
    using layout_hash_length [OF lh] by (simp_all add: c(3,6) sb(2))
  have small: "length sb \<le> 124" by (rule length_spec_payload [OF sb(1)])
  then have n: "unat (of_nat (length sb) :: u32) = length sb" by (simp add: unat_of_nat take_bit_nat_eq_self)
  have "open_envelope bs kMetadataMagic kMaxMetadataBytes = Inr (metadata_payload m sb)"
    unfolding bs by (rule open_make_envelope)
      (use small c(5) in \<open>simp_all add: metadata_payload_def l envelope_overhead_def kMaxMetadataBytes_def\<close>)
  moreover have "read_bytes (length sb) (sb @ r) = Inr (sb, r)" for r by simp
  moreover have "decode_run_spec_payload sb = Inr (md_spec m)" using sb(1) storable by (rule decode_encode_spec)
  moreover have "run_spec_hash (md_spec m) = Inr (md_run_spec_hash m)" by (simp add: run_spec_hash_def sb)
  moreover have "read_string kMaxBuildDescriptionBytes
      (le32 (of_nat (length (md_build_description m))) @ string_bytes (md_build_description m)) =
      Inr (md_build_description m, [])"
    using string.dec_enc_end [of "md_build_description m" kMaxBuildDescriptionBytes] c(5)
    by (simp add: kMaxBuildDescriptionBytes_def)
  ultimately show ?thesis
    using c(1,2,4)
    unfolding decode_run_metadata_def metadata_payload_def
    by (simp add: l n lh digest.dec_enc reader_finish_def c(3,6) [symmetric] k [symmetric] del: rbind_eq_Inr)
qed

lemma decode_metadata_Inr:
  assumes "decode_run_metadata bs = Inr m"
  shows "encode_run_metadata m = Inr bs" "metadata_consistent m"
proof -
  obtain payload where p: "open_envelope bs kMetadataMagic kMaxMetadataBytes = Inr payload"
    using assms by (auto simp: decode_run_metadata_def)
  have bs: "bs = make_envelope kMetadataMagic payload" by (rule open_envelope_Inr(1) [OF p]) simp
  have "encode_run_metadata m = Inr (make_envelope kMetadataMagic payload) \<and> metadata_consistent m"
    using assms unfolding decode_run_metadata_def p rbind_simps
    by (auto dest!: read_Inr simp: encode_metadata_Inr metadata_payload_def metadata_consistent_def
        decode_spec_iff run_spec_hash_def kMaxBuildDescriptionBytes_def split: if_splits)
  then show "encode_run_metadata m = Inr bs" "metadata_consistent m" unfolding bs by auto
qed

section \<open>Manifests\<close>

definition entry_bytes :: "manifest_entry \<Rightarrow> bytes" where
  "entry_bytes entry = le64 (me_block_id entry) @ le64 (me_result_incarnation entry) @
     le64 (me_lease_epoch entry) @ me_payload_checksum entry"

definition failure_bytes :: "failure_record option \<Rightarrow> bytes" where
  "failure_bytes failure =
     (case failure of
        None \<Rightarrow> [0]
      | Some f \<Rightarrow> [1] @ le32 (status_code (fr_status f)) @ le64 (fr_block_id f) @
          le64 (fr_run_incarnation f) @ le64 (fr_lease_epoch f) @ fr_observed_checksum f @
          fr_committed_checksum f @ le32 (of_nat (length (fr_reason f))) @ string_bytes (fr_reason f))"

definition failure_storable :: "failure_record option \<Rightarrow> bool" where
  "failure_storable failure \<longleftrightarrow>
     (case failure of
        None \<Rightarrow> True
      | Some f \<Rightarrow> length (fr_observed_checksum f) = 32 \<and> length (fr_committed_checksum f) = 32 \<and>
          length (fr_reason f) \<le> unat kMaxFailureReasonBytes)"

lemma status_code_roundtrip: "decode_validation_status c = Inr s \<longleftrightarrow> c = status_code s"
  by (cases s) (auto simp: decode_validation_status_def split: if_splits)

lemma durable_status_roundtrip: "durable_status c = Inr s \<longleftrightarrow> c = durable_status_code s"
  by (cases s) (auto simp: durable_status_def split: if_splits)

interpretation entry: leaf_codec entry_bytes read_entry "\<lambda>e. length (me_payload_checksum e) = 32"
proof
  show "read_entry (entry_bytes e @ rest) = Inr (e, rest)" if "length (me_payload_checksum e) = 32" for e rest
    using that by (simp add: read_entry_def entry_bytes_def digest.dec_enc del: rbind_eq_Inr)
  show "length (me_payload_checksum e) = 32 \<and> bs = entry_bytes e @ rest" if "read_entry bs = Inr (e, rest)" for bs e rest
    using that by (auto simp: read_entry_def entry_bytes_def dest!: read_Inr)
qed

interpretation failure: leaf_codec failure_bytes read_failure failure_storable
proof
  fix failure :: "failure_record option" and rest :: bytes
  assume ok: "failure_storable failure"
  show "read_failure (failure_bytes failure @ rest) = Inr (failure, rest)"
  proof (cases failure)
    case None
    then show ?thesis using u8.dec_enc [of 0 rest] by (simp add: read_failure_def failure_bytes_def)
  next
    case (Some f)
    have "read_string kMaxFailureReasonBytes (le32 (of_nat (length (fr_reason f))) @ string_bytes (fr_reason f) @ rest) =
        Inr (fr_reason f, rest)"
      using string.dec_enc [of "fr_reason f" kMaxFailureReasonBytes rest] ok Some by (simp add: failure_storable_def)
    then show ?thesis
      using ok u8.dec_enc [of 1 "x :: bytes" for x] by (simp add: Some read_failure_def failure_bytes_def failure_storable_def digest.dec_enc
          status_code_roundtrip [THEN iffD2] del: rbind_eq_Inr)
  qed
next
  fix bs rest :: bytes and failure
  assume r: "read_failure bs = Inr (failure, rest)"
  show "failure_storable failure \<and> bs = failure_bytes failure @ rest"
  proof (cases failure)
    case None
    have "b = 0" if "\<not> 1 < b" "b \<noteq> 1" for b :: u8 using that by (auto simp: word_less_nat_alt word_unat_eq_iff)
    then show ?thesis using r None
      by (auto simp: read_failure_def failure_storable_def failure_bytes_def dest!: read_Inr split: if_splits)
  next
    case (Some f)
    then show ?thesis using r
      by (auto simp: read_failure_def failure_storable_def failure_bytes_def status_code_roundtrip
          dest!: read_Inr split: if_splits)
  qed
qed

lemma append_tables:
  "fold (\<lambda>epoch bs. append_u64 bs epoch) es bs = bs @ concat (map le64 es)"
  "fold append_entry entries bs = bs @ concat (map entry_bytes entries)"
proof -
  show "fold (\<lambda>epoch bs. append_u64 bs epoch) es bs = bs @ concat (map le64 es)"
    by (induction es arbitrary: bs) (simp_all add: append_le)
  show "fold append_entry entries bs = bs @ concat (map entry_bytes entries)"
    by (induction entries arbitrary: bs) (simp_all add: append_le append_entry_def entry_bytes_def)
qed

lemma append_failure_Inr:
  "append_failure bs failure = Inr out \<longleftrightarrow>
     (case failure of None \<Rightarrow> True | Some f \<Rightarrow> length (fr_reason f) \<le> unat kMaxFailureReasonBytes) \<and>
     out = bs @ failure_bytes failure"
  by (auto simp: append_failure_def failure_bytes_def append_le Let_def append_string_Inr split: option.splits)

lemma read_reserved_iff: "read_reserved n bs = Inr r \<longleftrightarrow> bs = replicate n 0 @ r"
proof (induction n arbitrary: bs)
  case (Suc n)
  show ?case
    using Suc by (cases bs) (auto simp: read_u8_def reader_require_def split: if_splits)
qed auto

lemma read_epochs_iff:
  "read_lease_epochs n bs = Inr (es, r) \<longleftrightarrow> length es = n \<and> 0 \<notin> set es \<and> bs = concat (map le64 es) @ r"
proof (induction n arbitrary: bs es)
  case (Suc n)
  show ?case
  proof
    assume "read_lease_epochs (Suc n) bs = Inr (es, r)"
    then show "length es = Suc n \<and> 0 \<notin> set es \<and> bs = concat (map le64 es) @ r"
      using Suc by (auto dest!: read_Inr split: if_splits)
  next
    assume "length es = Suc n \<and> 0 \<notin> set es \<and> bs = concat (map le64 es) @ r"
    then show "read_lease_epochs (Suc n) bs = Inr (es, r)"
      using Suc by (cases es) auto
  qed
qed auto

lemma read_entries_iff:
  "read_entries m n prev bs = Inr (es, r) \<longleftrightarrow>
     length es = n \<and> entries_canonical m prev es \<and> (\<forall>e \<in> set es. length (me_payload_checksum e) = 32) \<and>
     bs = concat (map entry_bytes es) @ r"
proof (induction n arbitrary: bs es prev)
  case (Suc n)
  show ?case
  proof
    assume "read_entries m (Suc n) prev bs = Inr (es, r)"
    then show "length es = Suc n \<and> entries_canonical m prev es \<and>
        (\<forall>e \<in> set es. length (me_payload_checksum e) = 32) \<and> bs = concat (map entry_bytes es) @ r"
      using Suc by (auto dest!: entry.enc_dec split: if_splits)
  next
    assume "length es = Suc n \<and> entries_canonical m prev es \<and>
        (\<forall>e \<in> set es. length (me_payload_checksum e) = 32) \<and> bs = concat (map entry_bytes es) @ r"
    then show "read_entries m (Suc n) prev bs = Inr (es, r)"
      using Suc by (cases es) (auto simp: entry.dec_enc)
  qed
qed auto

lemma canonical_entries_fit:
  "entries_canonical m prev es \<Longrightarrow> (case prev of None \<Rightarrow> True | Some p \<Rightarrow> p < mf_block_count m) \<Longrightarrow>
     length es + (case prev of None \<Rightarrow> 0 | Some p \<Rightarrow> Suc (unat p)) \<le> unat (mf_block_count m)"
proof (induction es arbitrary: prev)
  case Nil
  then show ?case by (auto simp: word_less_nat_alt split: option.splits)
next
  case (Cons e es)
  then have "me_block_id e < mf_block_count m" by (auto simp: entry_not_canonical_def not_le)
  then have "length es + Suc (unat (me_block_id e)) \<le> unat (mf_block_count m)"
    using Cons.IH [of "Some (me_block_id e)"] Cons.prems(1) by simp
  then show ?case
    using Cons.prems(1) by (cases prev) (auto simp: entry_not_canonical_def not_le word_less_nat_alt)
qed

lemma entries_canonical_cong:
  "mf_block_count m = mf_block_count m' \<Longrightarrow> mf_run_incarnation m = mf_run_incarnation m' \<Longrightarrow>
     mf_lease_epochs m = mf_lease_epochs m' \<Longrightarrow> entries_canonical m prev es = entries_canonical m' prev es"
  by (induction es arbitrary: prev) (simp_all add: entry_not_canonical_def)

definition manifest_digests :: "run_manifest \<Rightarrow> bool" where
  "manifest_digests m \<longleftrightarrow>
     length (mf_run_id m) = 32 \<and> length (mf_run_spec_hash m) = 32 \<and>
     length (mf_execution_layout_hash m) = 32 \<and> length (mf_build_fingerprint m) = 32 \<and>
     list_all (\<lambda>e. length (me_payload_checksum e) = 32) (mf_committed_blocks m) \<and>
     (case mf_failure m of None \<Rightarrow> True
      | Some f \<Rightarrow> length (fr_observed_checksum f) = 32 \<and> length (fr_committed_checksum f) = 32)"

definition manifest_well_formed :: "run_manifest \<Rightarrow> bool" where
  "manifest_well_formed m \<longleftrightarrow>
     mf_run_incarnation m \<noteq> 0 \<and> mf_block_count m \<noteq> 0 \<and>
     length (mf_lease_epochs m) = unat (mf_block_count m) \<and> 0 \<notin> set (mf_lease_epochs m) \<and>
     (mf_status m = Failed \<longleftrightarrow> mf_failure m \<noteq> None) \<and>
     (mf_status m = Complete \<longrightarrow> length (mf_committed_blocks m) = unat (mf_block_count m)) \<and>
     entries_canonical m None (mf_committed_blocks m) \<and>
     (case mf_failure m of None \<Rightarrow> True | Some f \<Rightarrow> length (fr_reason f) \<le> unat kMaxFailureReasonBytes)"

definition committed_bytes :: "run_manifest \<Rightarrow> bytes \<Rightarrow> bytes" where
  "committed_bytes m agg =
     le64 (of_nat (length (mf_committed_blocks m))) @ concat (map entry_bytes (mf_committed_blocks m)) @
     le32 (of_nat (length agg)) @ agg @ failure_bytes (mf_failure m)"

definition manifest_payload :: "run_manifest \<Rightarrow> bytes \<Rightarrow> bytes" where
  "manifest_payload m agg =
     mf_run_id m @ mf_run_spec_hash m @ mf_execution_layout_hash m @ mf_build_fingerprint m @
     le64 (mf_sequence m) @ [durable_status_code (mf_status m)] @ replicate 7 0 @
     le64 (mf_run_incarnation m) @ le64 (mf_rng_version m) @ le32 (mf_stats_schema_version m) @ le32 0 @
     le64 (mf_block_count m) @ le64 (of_nat (length (mf_lease_epochs m))) @
     concat (map le64 (mf_lease_epochs m)) @ committed_bytes m agg"

lemma reserved_bytes: "fold (\<lambda>_ bs. append_u8 bs 0) [0..<7] bs = bs @ replicate 7 0"
  by (simp add: append_le upt_rec numeral_eq_Suc)

lemma encode_manifest_Inr:
  "encode_manifest m = Inr bs \<longleftrightarrow>
     manifest_well_formed m \<and>
     (\<exists>agg. encode_aggregate_payload (mf_committed_aggregate m) (mf_stats_schema_version m) = Inr agg \<and>
            bs = make_envelope kManifestMagic (manifest_payload m agg))"
proof -
  have z: "list_ex (\<lambda>epoch. epoch = 0) es \<longleftrightarrow> 0 \<in> set es" for es :: "u64 list"
    by (induction es) auto
  have i: "encode_aggregate_payload (mf_committed_aggregate m) (mf_stats_schema_version m) = Inr agg \<Longrightarrow>
      invariant_error None (mf_committed_aggregate m) = None" for agg
    by (simp add: encode_aggregate_Inr)
  show ?thesis
    unfolding encode_manifest_def Let_def append_tables reserved_bytes
    unfolding append_le manifest_well_formed_def manifest_payload_def committed_bytes_def z
    by (cases "invariant_error None (mf_committed_aggregate m)")
      (auto simp: append_failure_Inr dest: i)
qed

lemma decode_committed_iff:
  assumes "mf_stats_schema_version m = kStatsSchemaVersion" "mf_block_count m \<noteq> 0"
  shows "decode_committed_part m bs = Inr m' \<longleftrightarrow>
    (\<exists>agg entries a failure.
       m' = m\<lparr>mf_committed_blocks := entries, mf_committed_aggregate := a, mf_failure := failure\<rparr> \<and>
       encode_aggregate_payload a (mf_stats_schema_version m) = Inr agg \<and>
       bs = le64 (of_nat (length entries)) @ concat (map entry_bytes entries) @ le32 (of_nat (length agg)) @
         agg @ failure_bytes failure \<and>
       entries_canonical m None entries \<and> (\<forall>e \<in> set entries. length (me_payload_checksum e) = 32) \<and>
       failure_storable failure \<and> mf_run_incarnation m \<noteq> 0 \<and> (mf_status m = Failed \<longleftrightarrow> failure \<noteq> None) \<and>
       (mf_status m = Complete \<longrightarrow> length entries = unat (mf_block_count m)))"
    (is "?L \<longleftrightarrow> ?R")
proof
  assume ?L
  then obtain n r entries r2 agg_size r3 agg r4 a failure where
    r: "read_u64 bs = Inr (n, r)" "read_entries m (unat n) None r = Inr (entries, r2)"
      "read_u32 r2 = Inr (agg_size, r3)" "read_bytes (unat agg_size) r3 = Inr (agg, r4)"
      "decode_aggregate_payload agg (mf_stats_schema_version m) = Inr a" "read_failure r4 = Inr (failure, [])"
    and g: "\<not> run_state_inconsistent m entries failure"
      "m' = m\<lparr>mf_committed_blocks := entries, mf_committed_aggregate := a, mf_failure := failure\<rparr>"
    unfolding decode_committed_part_def by (auto split: if_splits)
  have "of_nat (length entries) = n" "of_nat (length agg) = agg_size"
    using r(2) read_bytes_Inr [OF r(4)] by (simp_all add: read_entries_iff)
  then have "bs = le64 (of_nat (length entries)) @ concat (map entry_bytes entries) @ le32 (of_nat (length agg)) @
         agg @ failure_bytes failure"
    using u64.enc_dec [OF r(1)] r(2) u32.enc_dec [OF r(3)] read_bytes_Inr [OF r(4)] failure.enc_dec [OF r(6)]
    by (simp add: read_entries_iff)
  moreover have "encode_aggregate_payload a (mf_stats_schema_version m) = Inr agg"
    using r(5) assms by (simp add: decode_aggregate_iff)
  moreover have "entries_canonical m None entries \<and> (\<forall>e \<in> set entries. length (me_payload_checksum e) = 32)"
    using r(2) by (simp add: read_entries_iff)
  moreover have "failure_storable failure" using failure.enc_dec [OF r(6)] by simp
  moreover have "mf_run_incarnation m \<noteq> 0" "mf_status m = Failed \<longleftrightarrow> failure \<noteq> None"
      "mf_status m = Complete \<longrightarrow> length entries = unat (mf_block_count m)"
    using g(1) by (auto simp: run_state_inconsistent_def)
  ultimately show ?R using g(2) by blast
next
  assume ?R
  then obtain agg entries a failure where
    m': "m' = m\<lparr>mf_committed_blocks := entries, mf_committed_aggregate := a, mf_failure := failure\<rparr>"
    and agg: "encode_aggregate_payload a (mf_stats_schema_version m) = Inr agg"
    and bs: "bs = le64 (of_nat (length entries)) @ concat (map entry_bytes entries) @ le32 (of_nat (length agg)) @
         agg @ failure_bytes failure"
    and e: "entries_canonical m None entries" "\<forall>e \<in> set entries. length (me_payload_checksum e) = 32"
    and f: "failure_storable failure"
    and g: "mf_run_incarnation m \<noteq> 0" "mf_status m = Failed \<longleftrightarrow> failure \<noteq> None"
       "mf_status m = Complete \<longrightarrow> length entries = unat (mf_block_count m)"
    by blast
  have fit: "length entries \<le> unat (mf_block_count m)" using canonical_entries_fit [OF e(1)] by simp
  then have n: "unat (of_nat (length entries) :: u64) = length entries"
    by (rule unat_of_nat_le)
  have "length (concat (map entry_bytes es)) = 56 * length es"
    if "\<forall>e \<in> set es. length (me_payload_checksum e) = 32" for es
    using that by (induction es) (simp_all add: entry_bytes_def)
  from this [OF e(2)] have size: "length (concat (map entry_bytes entries)) = 56 * length entries" .
  have l: "length agg = 48" by (rule length_aggregate_payload [OF agg])
  let ?r = "concat (map entry_bytes entries) @ le32 (of_nat (length agg)) @ agg @ failure_bytes failure"
  have "read_u64 bs = Inr (of_nat (length entries), ?r)" unfolding bs by simp
  moreover have "\<not> (mf_block_count m < of_nat (length entries) \<or>
      length ?r div (8 + 8 + 8 + 32) < unat (of_nat (length entries) :: u64))"
    using fit by (simp add: n word_less_nat_alt size)
  moreover have "read_entries m (unat (of_nat (length entries) :: u64)) None ?r =
      Inr (entries, le32 (of_nat (length agg)) @ agg @ failure_bytes failure)"
    unfolding n read_entries_iff using e by simp
  moreover have "read_bytes (unat (of_nat (length agg) :: u32)) (agg @ failure_bytes failure) = Inr (agg, failure_bytes failure)"
    using read_bytes_append [of agg "failure_bytes failure"] by (simp add: l)
  moreover have "decode_aggregate_payload agg (mf_stats_schema_version m) = Inr a"
    using agg assms by (simp add: decode_aggregate_iff)
  moreover have "\<not> run_state_inconsistent m entries failure" using g by (auto simp: run_state_inconsistent_def)
  ultimately show ?L
    unfolding decode_committed_part_def m'
    by (simp only: rbind_simps prod.case if_False reads failure.dec_enc_end [OF f] reader_finish_def simp_thms throw_if_simps)
qed

lemma decode_encode_manifest:
  assumes enc: "encode_manifest m = Inr bs" and d: "manifest_digests m"
    and limit: "length bs \<le> unat limit" "256 \<le> limit"
  shows "decode_manifest bs limit = Inr m"
proof -
  obtain agg where wf: "manifest_well_formed m"
    and agg: "encode_aggregate_payload (mf_committed_aggregate m) (mf_stats_schema_version m) = Inr agg"
    and bs: "bs = make_envelope kManifestMagic (manifest_payload m agg)"
    using enc by (auto simp: encode_manifest_Inr)
  have schema: "mf_stats_schema_version m = kStatsSchemaVersion" using agg by (simp add: encode_aggregate_Inr)
  have dig: "length (mf_run_id m) = 32" "length (mf_run_spec_hash m) = 32"
    "length (mf_execution_layout_hash m) = 32" "length (mf_build_fingerprint m) = 32"
    using d by (auto simp: manifest_digests_def)
  have "open_envelope bs kManifestMagic limit = Inr (manifest_payload m agg)"
    unfolding bs using limit(1) by (intro open_make_envelope) (simp_all add: bs)
  moreover have guard: "\<not> (limit < 256 \<or> u64_max < limit)"
    using limit(2) by (simp add: not_less u64_le_max)
  let ?r = "concat (map le64 (mf_lease_epochs m)) @ committed_bytes m agg"
  have count: "mf_block_count m \<noteq> 0" "length (mf_lease_epochs m) = unat (mf_block_count m)"
    "0 \<notin> set (mf_lease_epochs m)" using wf by (auto simp: manifest_well_formed_def)
  have size: "length (concat (map le64 es)) = 8 * length es" for es by (induction es) auto
  have lg: "\<not> (mf_block_count m = 0 \<or> of_nat (length (mf_lease_epochs m)) \<noteq> mf_block_count m \<or>
      length ?r div 8 < unat (of_nat (length (mf_lease_epochs m)) :: u64))"
    using count by (simp add: size)
  have le: "read_lease_epochs (unat (of_nat (length (mf_lease_epochs m)) :: u64)) ?r =
      Inr (mf_lease_epochs m, committed_bytes m agg)"
    using count by (simp add: read_epochs_iff)
  let ?m = "m\<lparr>mf_committed_blocks := [], mf_committed_aggregate := empty_stats, mf_failure := None\<rparr>"
  have part: "decode_committed_part ?m (committed_bytes m agg) = Inr m"
  proof (subst decode_committed_iff)
    show "mf_stats_schema_version ?m = kStatsSchemaVersion" "mf_block_count ?m \<noteq> 0" using schema count by simp_all
    have "entries_canonical ?m None (mf_committed_blocks m)"
      using wf by (simp add: manifest_well_formed_def cong: entries_canonical_cong)
    moreover have "failure_storable (mf_failure m)"
      using d wf by (auto simp: manifest_digests_def manifest_well_formed_def failure_storable_def split: option.splits)
    ultimately show "\<exists>agg' entries a failure.
       m = ?m\<lparr>mf_committed_blocks := entries, mf_committed_aggregate := a, mf_failure := failure\<rparr> \<and>
       encode_aggregate_payload a (mf_stats_schema_version ?m) = Inr agg' \<and>
       committed_bytes m agg = le64 (of_nat (length entries)) @ concat (map entry_bytes entries) @
         le32 (of_nat (length agg')) @ agg' @ failure_bytes failure \<and>
       entries_canonical ?m None entries \<and> (\<forall>e \<in> set entries. length (me_payload_checksum e) = 32) \<and>
       failure_storable failure \<and> mf_run_incarnation ?m \<noteq> 0 \<and> (mf_status ?m = Failed \<longleftrightarrow> failure \<noteq> None) \<and>
       (mf_status ?m = Complete \<longrightarrow> length entries = unat (mf_block_count ?m))"
      using agg d wf
      by (intro exI [of _ agg] exI [of _ "mf_committed_blocks m"] exI [of _ "mf_committed_aggregate m"]
          exI [of _ "mf_failure m"] conjI)
        (auto simp: committed_bytes_def manifest_digests_def manifest_well_formed_def list_all_iff)
  qed
  have res: "read_reserved 7 (replicate 7 0 @ r) = Inr r" for r by (simp add: read_reserved_iff)
  have st: "durable_status (durable_status_code (mf_status m)) = Inr (mf_status m)"
    by (simp add: durable_status_roundtrip)
  have m: "\<lparr>mf_run_id = mf_run_id m, mf_run_spec_hash = mf_run_spec_hash m,
      mf_execution_layout_hash = mf_execution_layout_hash m, mf_build_fingerprint = mf_build_fingerprint m,
      mf_sequence = mf_sequence m, mf_status = mf_status m, mf_run_incarnation = mf_run_incarnation m,
      mf_rng_version = mf_rng_version m, mf_stats_schema_version = mf_stats_schema_version m,
      mf_block_count = mf_block_count m, mf_lease_epochs = mf_lease_epochs m, mf_committed_blocks = [],
      mf_committed_aggregate = empty_stats, mf_failure = None\<rparr> = ?m" by simp
  ultimately show ?thesis
    unfolding decode_manifest_def
    by (simp only: manifest_payload_def guard if_False rbind_simps prod.case digest.dec_enc [OF dig(1)]
        digest.dec_enc [OF dig(2)] digest.dec_enc [OF dig(3)] digest.dec_enc [OF dig(4)] reads res st lg le m part
        simp_thms)
qed

lemma decode_manifest_Inr:
  assumes dec: "decode_manifest bs limit = Inr m" and schema: "mf_stats_schema_version m = kStatsSchemaVersion"
  shows "encode_manifest m = Inr bs" "manifest_digests m" "length bs \<le> unat limit" "256 \<le> limit"
proof -
  show g: "256 \<le> limit" using dec by (auto simp: decode_manifest_def split: if_splits)
  obtain payload where p: "open_envelope bs kManifestMagic limit = Inr payload"
    using dec by (auto simp: decode_manifest_def split: if_splits)
  have bs: "bs = make_envelope kManifestMagic payload" "length bs \<le> unat limit"
    using open_envelope_Inr [OF p] by simp_all
  show "length bs \<le> unat limit" by (rule bs(2))
  obtain a b c d seq st inc rng schema' count epochs r where
    pl: "payload = a @ b @ c @ d @ le64 seq @ [durable_status_code st] @ replicate 7 0 @ le64 inc @ le64 rng @
      le32 schema' @ le32 0 @ le64 count @ le64 count @ concat (map le64 epochs) @ r"
    and l: "length a = 32" "length b = 32" "length c = 32" "length d = 32"
      "count \<noteq> 0" "length epochs = unat count" "0 \<notin> set epochs"
    and part: "decode_committed_part \<lparr>mf_run_id = a, mf_run_spec_hash = b, mf_execution_layout_hash = c,
      mf_build_fingerprint = d, mf_sequence = seq, mf_status = st, mf_run_incarnation = inc, mf_rng_version = rng,
      mf_stats_schema_version = schema', mf_block_count = count, mf_lease_epochs = epochs,
      mf_committed_blocks = [], mf_committed_aggregate = empty_stats, mf_failure = None\<rparr> r = Inr m"
    using dec p unfolding decode_manifest_def
    by (simp split: if_splits)
       (auto dest!: read_Inr simp: read_reserved_iff durable_status_roundtrip read_epochs_iff split: if_splits)
  have s: "schema' = kStatsSchemaVersion"
    using part schema by (auto simp: decode_committed_part_def split: if_splits)
  obtain agg entries g failure where
    m: "m = \<lparr>mf_run_id = a, mf_run_spec_hash = b, mf_execution_layout_hash = c, mf_build_fingerprint = d,
      mf_sequence = seq, mf_status = st, mf_run_incarnation = inc, mf_rng_version = rng,
      mf_stats_schema_version = schema', mf_block_count = count, mf_lease_epochs = epochs,
      mf_committed_blocks = entries, mf_committed_aggregate = g, mf_failure = failure\<rparr>"
    and agg: "encode_aggregate_payload g schema' = Inr agg"
    and r: "r = le64 (of_nat (length entries)) @ concat (map entry_bytes entries) @ le32 (of_nat (length agg)) @
         agg @ failure_bytes failure"
    and e: "\<forall>e \<in> set entries. length (me_payload_checksum e) = 32" "failure_storable failure" "inc \<noteq> 0"
      "st = Failed \<longleftrightarrow> failure \<noteq> None" "st = Complete \<longrightarrow> length entries = unat count"
    and can: "entries_canonical \<lparr>mf_run_id = a, mf_run_spec_hash = b, mf_execution_layout_hash = c,
      mf_build_fingerprint = d, mf_sequence = seq, mf_status = st, mf_run_incarnation = inc, mf_rng_version = rng,
      mf_stats_schema_version = schema', mf_block_count = count, mf_lease_epochs = epochs,
      mf_committed_blocks = [], mf_committed_aggregate = empty_stats, mf_failure = None\<rparr> None entries"
    using part by (subst (asm) decode_committed_iff) (simp_all add: s l, blast)
  have can': "entries_canonical m None entries" 
    by (rule entries_canonical_cong [THEN iffD1, OF _ _ _ can]) (simp_all add: m)
  have "manifest_well_formed m"
    using can' l e by (auto simp: m manifest_well_formed_def failure_storable_def split: option.splits)
  then show "encode_manifest m = Inr bs"
    using agg by (simp add: encode_manifest_Inr bs(1) pl r m manifest_payload_def committed_bytes_def l)
  show "manifest_digests m"
    using l e by (auto simp: m manifest_digests_def failure_storable_def list_all_iff split: option.splits)
qed

section \<open>Record codecs\<close>

text \<open>
  The contract the run store relies on: decoding what was encoded gives the record back, and bytes
  that decode to a record are the only encoding of it.  \<^verbatim>\<open>supported\<close> excludes records of
  foreign schema versions, which can be read but are never written.
\<close>

locale record_codec =
  fixes enc :: "'a \<Rightarrow> bytes result" and dec :: "bytes \<Rightarrow> 'a result" and ok supported :: "'a \<Rightarrow> bool"
  assumes dec_enc: "ok x \<Longrightarrow> enc x = Inr bs \<Longrightarrow> dec bs = Inr x"
    and enc_dec: "dec bs = Inr x \<Longrightarrow> supported x \<Longrightarrow> ok x \<and> enc x = Inr bs"
begin

lemma dec_inj: "dec bs = Inr x \<Longrightarrow> dec bs' = Inr x \<Longrightarrow> supported x \<Longrightarrow> bs = bs'"
  using enc_dec [of bs x] enc_dec [of bs' x] by simp

lemma enc_inj: "ok x \<Longrightarrow> ok y \<Longrightarrow> enc x = Inr bs \<Longrightarrow> enc y = Inr bs \<Longrightarrow> x = y"
  using dec_enc [of x bs] dec_enc [of y bs] by simp

lemma dec_iff: "supported x \<Longrightarrow> dec bs = Inr x \<longleftrightarrow> ok x \<and> enc x = Inr bs"
  using dec_enc enc_dec by blast

end

interpretation aggregate_payload: record_codec "\<lambda>a. encode_aggregate_payload a kStatsSchemaVersion"
  "\<lambda>bs. decode_aggregate_payload bs kStatsSchemaVersion" "\<lambda>_. True" "\<lambda>_. True"
  by unfold_locales (simp_all add: decode_aggregate_iff)

interpretation spec_payload: record_codec encode_run_spec_payload decode_run_spec_payload spec_storable "\<lambda>_. True"
  by unfold_locales (simp_all add: decode_spec_iff)

interpretation metadata: record_codec encode_run_metadata decode_run_metadata metadata_consistent "\<lambda>_. True"
  by unfold_locales (rule decode_encode_metadata, assumption+, intro conjI decode_metadata_Inr, assumption+)

interpretation block_record: record_codec encode_block_record decode_block_record block_record_digests "\<lambda>_. True"
  by unfold_locales (rule decode_encode_block, assumption+, intro conjI decode_block_Inr, assumption+)

definition manifest_storable :: "u64 \<Rightarrow> run_manifest \<Rightarrow> bool" where
  "manifest_storable limit m \<longleftrightarrow>
     manifest_digests m \<and> 256 \<le> limit \<and>
     (case encode_manifest m of Inl e \<Rightarrow> True | Inr bs \<Rightarrow> length bs \<le> unat limit)"

interpretation manifest: record_codec encode_manifest "\<lambda>bs. decode_manifest bs limit" "manifest_storable limit"
  "\<lambda>m. mf_stats_schema_version m = kStatsSchemaVersion" for limit
proof
  show "decode_manifest bs limit = Inr m" if "manifest_storable limit m" "encode_manifest m = Inr bs" for m bs
    using that by (intro decode_encode_manifest) (auto simp: manifest_storable_def)
  show "manifest_storable limit m \<and> encode_manifest m = Inr bs"
    if "decode_manifest bs limit = Inr m" "mf_stats_schema_version m = kStatsSchemaVersion" for m bs
    using decode_manifest_Inr [OF that] by (simp add: manifest_storable_def)
qed

section \<open>Corrupted envelopes\<close>

lemma envelope_header:
  assumes "length magic = 8"
  shows "take 8 (drop 12 (make_envelope magic payload)) = le64 (of_nat (length payload))"
  using assms by (simp add: make_envelope_layout Let_def)

lemma opened_length:
  assumes "open_envelope bs magic limit = Inr p" "length magic = 8"
    and "take 8 (drop 12 bs) = le64 (of_nat n)" "n \<le> unat limit"
  shows "length bs = n + envelope_overhead"
proof -
  have bs: "bs = make_envelope magic p" "length bs \<le> unat limit" using open_envelope_Inr [OF assms(1,2)] by auto
  then have "length p \<le> unat limit" using assms(2) by simp
  moreover have "le64 (of_nat (length p)) = le64 (of_nat n)"
    using assms(3) envelope_header [OF assms(2), of p] bs(1) by simp
  then have "(of_nat (length p) :: u64) = of_nat n" using u64.enc_inj [where r = "[]" and q = "[]"] by simp
  ultimately have "length p = n" using assms(4) unat_of_nat_le by metis
  then show ?thesis using bs(1) assms(2) by simp
qed

section \<open>Properties\<close>

text \<open>Run metadata: the decoder accepts exactly the bytes the encoder writes for a record whose
  block count and layout hash fit its specification, and returns that record.\<close>

theorem metadata_roundtrip:
  "decode_run_metadata bs = Inr m \<longleftrightarrow> metadata_consistent m \<and> encode_run_metadata m = Inr bs"
  by (rule metadata.dec_iff) simp

text \<open>Block records: the decoder accepts exactly the bytes the encoder writes, and returns the
  record with its aggregate bit for bit.\<close>

theorem block_record_roundtrip:
  "decode_block_record bs = Inr rec \<longleftrightarrow> block_record_digests rec \<and> encode_block_record rec = Inr bs"
  by (rule block_record.dec_iff) simp

text \<open>C23. Manifests: for the current statistics schema the decoder accepts exactly the bytes the
  encoder writes, within the configured size limit, and returns that manifest: lease table,
  committed entries, aggregate and failure record included.\<close>

theorem manifest_roundtrip:
  assumes "mf_stats_schema_version m = kStatsSchemaVersion"
  shows "decode_manifest bs limit = Inr m \<longleftrightarrow>
    encode_manifest m = Inr bs \<and> manifest_digests m \<and> length bs \<le> unat limit \<and> 256 \<le> limit"
  using manifest.dec_iff [of m bs limit] assms by (auto simp: manifest_storable_def)

definition sample_manifest :: run_manifest where
  "sample_manifest = \<lparr>mf_run_id = replicate 32 1, mf_run_spec_hash = replicate 32 2,
     mf_execution_layout_hash = replicate 32 3, mf_build_fingerprint = replicate 32 4, mf_sequence = 7,
     mf_status = Failed, mf_run_incarnation = 2, mf_rng_version = kRngVersion,
     mf_stats_schema_version = kStatsSchemaVersion, mf_block_count = 2, mf_lease_epochs = [1, 3],
     mf_committed_blocks = [\<lparr>me_block_id = 1, me_result_incarnation = 2, me_lease_epoch = 3,
       me_payload_checksum = replicate 32 5\<rparr>],
     mf_committed_aggregate = empty_stats,
     mf_failure = Some \<lparr>fr_status = DeterminismError, fr_block_id = 0, fr_run_incarnation = 2,
       fr_lease_epoch = 1, fr_observed_checksum = replicate 32 6, fr_committed_checksum = replicate 32 7,
       fr_reason = ''conflict''\<rparr>\<rparr>"

lemma sample_manifest_encodes:
  "\<exists>bs. encode_manifest sample_manifest = Inr bs \<and> length bs \<le> 4096"
proof -
  have "\<exists>agg. encode_aggregate_payload (mf_committed_aggregate sample_manifest)
      (mf_stats_schema_version sample_manifest) = Inr agg \<and> length agg = 48"
    by (simp add: sample_manifest_def encode_aggregate_Inr invariant_error_def empty_stats_def
        isfinite_def zero64_def mk_double_def feq_def isnan_def ord64_def mag_def signbit_def)
  then obtain agg where agg: "encode_aggregate_payload (mf_committed_aggregate sample_manifest)
      (mf_stats_schema_version sample_manifest) = Inr agg" "length agg = 48" by blast
  have "manifest_well_formed sample_manifest"
    by (simp add: sample_manifest_def manifest_well_formed_def entry_not_canonical_def kMaxFailureReasonBytes_def
        word_le_nat_alt)
  moreover have "length (make_envelope kManifestMagic (manifest_payload sample_manifest agg)) \<le> 4096"
    by (simp add: manifest_payload_def committed_bytes_def failure_bytes_def entry_bytes_def sample_manifest_def
        agg(2) envelope_overhead_def)
  ultimately show ?thesis using agg(1) by (auto simp: encode_manifest_Inr)
qed

theorem manifest_roundtrip_witness:
  "\<exists>bs. encode_manifest sample_manifest = Inr bs \<and> decode_manifest bs 4096 = Inr sample_manifest"
proof -
  obtain bs where bs: "encode_manifest sample_manifest = Inr bs" "length bs \<le> 4096"
    using sample_manifest_encodes by blast
  have "mf_stats_schema_version sample_manifest = kStatsSchemaVersion" "manifest_digests sample_manifest"
    by (simp_all add: sample_manifest_def manifest_digests_def)
  then have "decode_manifest bs 4096 = Inr sample_manifest"
    using manifest_roundtrip [of sample_manifest bs 4096] bs by simp
  then show ?thesis using bs by blast
qed

text \<open>Run specifications: the decoder accepts exactly the canonical payload of a valid
  specification.  A Heston specification comes back with the default GBM volatility, which no
  Heston path reads.\<close>

theorem run_spec_payload_roundtrip:
  "decode_run_spec_payload bs = Inr spec \<longleftrightarrow> spec_storable spec \<and> encode_run_spec_payload spec = Inr bs"
  by (rule spec_payload.dec_iff) simp

text \<open>C24. Corruption: when at most four consecutive bytes of a durable envelope change, header,
  payload and checksum included, the envelope is rejected.\<close>

theorem burst_corruption_detected:
  assumes "length magic = 8" "make_envelope magic payload = xs @ u @ ys"
    and "length u = 4" "length v = 4" "u \<noteq> v"
  shows "\<exists>e. open_envelope (xs @ v @ ys) magic limit = Inl e"
proof (rule ccontr)
  assume "\<not> ?thesis"
  then obtain p where "open_envelope (xs @ v @ ys) magic limit = Inr p"
    by (cases "open_envelope (xs @ v @ ys) magic limit") auto
  from open_envelope_Inr(1) [OF this assms(1)] have "make_envelope magic p = xs @ v @ ys" by (rule sym)
  then have "v = u"
    using assms(2) unfolding make_envelope_layout Let_def by (rule checksummed_burst [OF _ _ assms(4,3)])
  then show False using assms(5) by simp
qed

theorem burst_corruption_detected_witness:
  "\<exists>e. open_envelope (kBlockMagic @ le32 kStorageSchemaVersion @ le64 4 @ le32 9 @
      le32 (crc32c (kBlockMagic @ le32 kStorageSchemaVersion @ le64 4 @ le32 7)))
      kBlockMagic kMaxBlockRecordBytes = Inl e"
proof -
  let ?xs = "kBlockMagic @ le32 kStorageSchemaVersion @ le64 4"
  have "make_envelope kBlockMagic (le32 7) = ?xs @ le32 7 @
      le32 (crc32c (kBlockMagic @ le32 kStorageSchemaVersion @ le64 4 @ le32 7))"
    by (simp add: make_envelope_layout)
  moreover have "le32 7 \<noteq> le32 9" using u32.enc_inj [of 7 "[]" 9 "[]"] by auto
  ultimately show ?thesis using burst_corruption_detected [of kBlockMagic "le32 7" ?xs "le32 7" _ "le32 9"] by simp
qed

text \<open>C25. Torn writes: a proper prefix of a durable envelope, and an envelope followed by further
  bytes, are rejected.\<close>

theorem torn_write_detected:
  assumes "length magic = 8" "length (make_envelope magic payload) \<le> unat limit"
    and "bs = take k (make_envelope magic payload) \<and> k < length (make_envelope magic payload) \<or>
         bs = make_envelope magic payload @ extra \<and> extra \<noteq> []"
  shows "\<exists>e. open_envelope bs magic limit = Inl e"
proof (rule ccontr)
  assume "\<not> ?thesis"
  then obtain p where p: "open_envelope bs magic limit = Inr p" by (cases "open_envelope bs magic limit") auto
  have "length bs = length p + envelope_overhead"
    by (subst open_envelope_Inr(1) [OF p assms(1)]) (rule length_make_envelope [OF assms(1)])
  then have long: "24 \<le> length bs" by (simp add: envelope_overhead_def)
  let ?env = "make_envelope magic payload"
  have env: "24 \<le> length ?env" by (simp add: envelope_overhead_def assms(1))
  have "take 8 (drop 12 bs) = take 8 (drop 12 ?env)"
    using assms(3)
  proof
    assume b: "bs = take k ?env \<and> k < length ?env"
    then have "24 \<le> k" using long by simp
    then show ?thesis using b by (simp add: drop_take)
  next
    assume "bs = ?env @ extra \<and> extra \<noteq> []"
    then show ?thesis using env by simp
  qed
  also have "\<dots> = le64 (of_nat (length payload))" by (rule envelope_header [OF assms(1)])
  finally have "take 8 (drop 12 bs) = le64 (of_nat (length payload))" .
  then have "length bs = length payload + envelope_overhead"
    by (rule opened_length [OF p assms(1)]) (use assms(1,2) in simp)
  then show False using assms(1,3) by auto
qed

theorem torn_write_detected_witness:
  "\<exists>e. open_envelope (take 30 (make_envelope kBlockMagic (le64 5))) kBlockMagic kMaxBlockRecordBytes = Inl e"
  by (rule torn_write_detected [of _ "le64 5" _ _ 30])
    (simp_all add: envelope_overhead_def kMaxBlockRecordBytes_def)

end
