(* ===== verification/Failure_Injection.thy ===== *)
theory Failure_Injection
  imports Number_Text Persistence_Codec
begin

text \<open>
  The failure-injection harness (\<^verbatim>\<open>include/mc/failure_injection.hpp\<close>,
  \<^verbatim>\<open>src/failure_injection.cpp\<close>): the named failure points, the seeded choice of one, the injector
  that counts hits and decides when the process dies, and the text format of replay descriptors
  with its encoder and strict decoder.
\<close>

section \<open>Failure points and configuration\<close>

definition kReplayDescriptorVersion :: u32 where "kReplayDescriptorVersion = 2"
definition kMaxReplayDescriptorBytes :: nat where "kMaxReplayDescriptorBytes = 64 * 1024"
definition kMaxReplayDescriptorLineBytes :: nat where "kMaxReplayDescriptorLineBytes = 4 * 1024"
definition kMaxReplayDescriptorFields :: nat where "kMaxReplayDescriptorFields = 64"
definition kNoFailureContext :: u64 where "kNoFailureContext = u64_max"
definition kReplayMagic :: string where "kReplayMagic = ''mc-r3-replay-v2''"
definition kReplayV1Prefix :: string where "kReplayV1Prefix = ''format=mc-r3-replay-v1'' @ [CHR 0x0A]"

datatype failure_point =
    ResultBeforeFileFsync
  | ResultAfterFileFsync
  | ResultBeforeRename
  | ResultAfterRename
  | ManifestBeforeFileFsync
  | ManifestAfterFileFsync
  | ManifestBeforeRename
  | ManifestAfterRename
  | ManifestAfterInstallBeforeMemory

fun failure_point_code :: "failure_point \<Rightarrow> u8" where
  "failure_point_code ResultBeforeFileFsync = 1"
| "failure_point_code ResultAfterFileFsync = 2"
| "failure_point_code ResultBeforeRename = 3"
| "failure_point_code ResultAfterRename = 4"
| "failure_point_code ManifestBeforeFileFsync = 5"
| "failure_point_code ManifestAfterFileFsync = 6"
| "failure_point_code ManifestBeforeRename = 7"
| "failure_point_code ManifestAfterRename = 8"
| "failure_point_code ManifestAfterInstallBeforeMemory = 9"

definition kFailurePoints :: "failure_point list" where
  "kFailurePoints = [ResultBeforeFileFsync, ResultAfterFileFsync, ResultBeforeRename, ResultAfterRename,
     ManifestBeforeFileFsync, ManifestAfterFileFsync, ManifestBeforeRename, ManifestAfterRename,
     ManifestAfterInstallBeforeMemory]"

fun failure_point_name :: "failure_point \<Rightarrow> string" where
  "failure_point_name ResultBeforeFileFsync = ''result.before_file_fsync''"
| "failure_point_name ResultAfterFileFsync = ''result.after_file_fsync''"
| "failure_point_name ResultBeforeRename = ''result.before_rename''"
| "failure_point_name ResultAfterRename = ''result.after_rename''"
| "failure_point_name ManifestBeforeFileFsync = ''manifest.before_file_fsync''"
| "failure_point_name ManifestAfterFileFsync = ''manifest.after_file_fsync''"
| "failure_point_name ManifestBeforeRename = ''manifest.before_rename''"
| "failure_point_name ManifestAfterRename = ''manifest.after_rename''"
| "failure_point_name ManifestAfterInstallBeforeMemory = ''manifest.after_install_before_memory''"

definition parse_failure_point :: "string \<Rightarrow> failure_point result" where
  "parse_failure_point name =
     (case List.find (\<lambda>p. name = failure_point_name p) kFailurePoints of
        Some p \<Rightarrow> Inr p
      | None \<Rightarrow> Inl (Invalid_argument (''unknown R3 failure point: '' @ name)))"

record failure_injection_config =
  fic_selected_point :: failure_point
  fic_selected_occurrence :: u64
  fic_failure_seed :: u64
  fic_deterministic_scheduler_seed :: u64
  fic_replay_descriptor_path :: string

definition default_failure_injection :: failure_injection_config where
  "default_failure_injection = \<lparr>fic_selected_point = ResultBeforeFileFsync, fic_selected_occurrence = 1,
     fic_failure_seed = 0, fic_deterministic_scheduler_seed = 0, fic_replay_descriptor_path = []\<rparr>"

definition validate_failure_injection :: "failure_injection_config \<Rightarrow> unit result" where
  "validate_failure_injection c =
     rbind (parse_failure_point (failure_point_name (fic_selected_point c))) (\<lambda>_.
     rbind (throw_if (fic_selected_occurrence c = 0)
       (Invalid_argument ''failure occurrence must be positive'')) (\<lambda>_.
     rbind (throw_if (fic_replay_descriptor_path c = [])
       (Invalid_argument ''failure injection requires a replay path'')) (\<lambda>_.
     throw_if (fic_deterministic_scheduler_seed c \<noteq> 0)
       (Invalid_argument (''replay schema v2 requires deterministic_scheduler_seed=0 until '' @
          ''multi-worker scheduling replay is implemented'')))))"

text \<open>The store configuration (\<^verbatim>\<open>RunStoreConfig\<close>).\<close>

record run_store_config =
  rsc_run_directory :: string
  rsc_checkpoint_interval_blocks :: u64
  rsc_max_storage_bytes :: u64
  rsc_max_storage_files :: u64
  rsc_min_free_space_bytes :: u64
  rsc_max_manifest_bytes :: u64
  rsc_failure_injection :: "failure_injection_config option"

definition validate_run_store_config :: "run_store_config \<Rightarrow> unit result" where
  "validate_run_store_config c =
     (if rsc_run_directory c = [] then Inl (Invalid_argument ''run_directory must not be empty'')
      else if rsc_max_storage_bytes c = 0 \<or> rsc_max_storage_files c = 0
      then Inl (Invalid_argument ''durable storage limits must be positive'')
      else if rsc_max_manifest_bytes c < 256 \<or> rsc_max_storage_bytes c < rsc_max_manifest_bytes c
      then Inl (Invalid_argument ''max_manifest_bytes must be at least 256 and no larger than storage'')
      else case rsc_failure_injection c of None \<Rightarrow> Inr () | Some f \<Rightarrow> validate_failure_injection f)"

text \<open>The SplitMix64 finalizer.\<close>

definition split_mix :: "u64 \<Rightarrow> u64" where
  "split_mix seed =
     (let mixed = seed + 0x9E3779B97F4A7C15;
          mixed = (mixed XOR drop_bit 30 mixed) * 0xBF58476D1CE4E5B9;
          mixed = (mixed XOR drop_bit 27 mixed) * 0x94D049BB133111EB
      in mixed XOR drop_bit 31 mixed)"

definition failure_injection_from_seed :: "u64 \<Rightarrow> string \<Rightarrow> failure_injection_config" where
  "failure_injection_from_seed failure_seed path =
     (let mixed = split_mix failure_seed
      in default_failure_injection\<lparr>
           fic_selected_point := kFailurePoints ! unat (mixed mod of_nat (length kFailurePoints)),
           fic_selected_occurrence := 1 + (drop_bit 8 mixed AND 1),
           fic_failure_seed := failure_seed,
           fic_replay_descriptor_path := path\<rparr>)"

section \<open>Replay descriptors\<close>

record replay_descriptor =
  rp_version :: u32
  rp_spec :: run_spec
  rp_engine_config :: engine_config
  rp_checkpoint_interval_blocks :: u64
  rp_injection :: failure_injection_config
  rp_run_spec_hash :: sha256_digest
  rp_build_fingerprint :: sha256_digest
  rp_max_storage_bytes :: u64
  rp_max_storage_files :: u64
  rp_min_free_space_bytes :: u64
  rp_max_manifest_bytes :: u64
  rp_observed_trace_hash :: sha256_digest
  rp_observed_trace_events :: u64
  rp_run_incarnation :: u64
  rp_block_id :: u64
  rp_checkpoint_sequence :: u64

definition default_replay_descriptor :: replay_descriptor where
  "default_replay_descriptor = \<lparr>rp_version = kReplayDescriptorVersion, rp_spec = default_run_spec,
     rp_engine_config = default_engine_config, rp_checkpoint_interval_blocks = 0,
     rp_injection = default_failure_injection, rp_run_spec_hash = replicate 32 0,
     rp_build_fingerprint = replicate 32 0, rp_max_storage_bytes = 0, rp_max_storage_files = 0,
     rp_min_free_space_bytes = 0, rp_max_manifest_bytes = 0, rp_observed_trace_hash = replicate 32 0,
     rp_observed_trace_events = 0, rp_run_incarnation = kNoFailureContext,
     rp_block_id = kNoFailureContext, rp_checkpoint_sequence = kNoFailureContext\<rparr>"

record failure_context =
  fc_run_incarnation :: u64
  fc_block_id :: u64
  fc_checkpoint_sequence :: u64

definition encode_trace_event :: "failure_point \<Rightarrow> failure_context \<Rightarrow> bytes" where
  "encode_trace_event point ctx =
     (let bs = append_u8 [] (failure_point_code point);
          bs = append_u64 bs (fc_run_incarnation ctx);
          bs = append_u64 bs (fc_block_id ctx)
      in append_u64 bs (fc_checkpoint_sequence ctx))"

text \<open>A line of the descriptor, \<^verbatim>\<open>name=value\<close>.\<close>

definition field_line :: "string \<times> string \<Rightarrow> string" where
  "field_line f = fst f @ ''='' @ snd f @ [CHR 0x0A]"

abbreviation dec64 :: "u64 \<Rightarrow> string" where "dec64 v \<equiv> decimal (unat v)"
abbreviation dec32 :: "u32 \<Rightarrow> string" where "dec32 v \<equiv> decimal (unat v)"
abbreviation dec8 :: "u8 \<Rightarrow> string" where "dec8 v \<equiv> decimal (unat v)"

definition model_fields :: "run_spec \<Rightarrow> (string \<times> string) list" where
  "model_fields spec =
     (case spec_model_type spec of
        Gbm \<Rightarrow> [(''volatility_bits'', bits_hex (volatility spec))]
      | Heston \<Rightarrow>
          (let h = heston_parameters spec
           in [(''heston_discretization_version'', dec32 (discretization_version h)),
               (''heston_initial_variance_bits'', bits_hex (initial_variance h)),
               (''heston_mean_reversion_rate_bits'', bits_hex (mean_reversion_rate h)),
               (''heston_long_run_variance_bits'', bits_hex (long_run_variance h)),
               (''heston_volatility_of_variance_bits'', bits_hex (volatility_of_variance h)),
               (''heston_correlation_bits'', bits_hex (correlation h))])
      | Unknown_model b \<Rightarrow> [])"

definition spec_fields :: "run_spec \<Rightarrow> (string \<times> string) list" where
  "spec_fields spec =
     [(''engine_version'', dec64 (engine_version spec)),
      (''rng_version'', dec64 (rng_version spec)),
      (''stats_schema_version'', dec32 (stats_schema_version spec)),
      (''model_type'', dec8 (model_code (spec_model_type spec))),
      (''payoff_type'', dec8 (payoff_code (spec_payoff_type spec))),
      (''antithetic'', decimal (if antithetic spec then 1 else 0)),
      (''global_seed'', dec64 (global_seed spec)),
      (''total_scenarios'', dec64 (total_scenarios spec)),
      (''num_time_steps'', dec32 (num_time_steps spec)),
      (''maturity_bits'', bits_hex (maturity spec)),
      (''spot_bits'', bits_hex (spot spec)),
      (''strike_bits'', bits_hex (strike spec)),
      (''rate_bits'', bits_hex (rate spec))] @ model_fields spec"

definition policy_fields :: "replay_descriptor \<Rightarrow> (string \<times> string) list" where
  "policy_fields d =
     [(''worker_count'', dec64 (worker_count (rp_engine_config d))),
      (''block_size'', dec64 (block_size (rp_engine_config d))),
      (''assignment_queue_capacity'', dec64 (assignment_queue_capacity (rp_engine_config d))),
      (''completion_queue_capacity'', dec64 (completion_queue_capacity (rp_engine_config d))),
      (''max_materialized_blocks'', dec64 (max_materialized_blocks (rp_engine_config d))),
      (''checkpoint_interval_blocks'', dec64 (rp_checkpoint_interval_blocks d)),
      (''max_storage_bytes'', dec64 (rp_max_storage_bytes d)),
      (''max_storage_files'', dec64 (rp_max_storage_files d)),
      (''min_free_space_bytes'', dec64 (rp_min_free_space_bytes d)),
      (''max_manifest_bytes'', dec64 (rp_max_manifest_bytes d)),
      (''failure_seed'', dec64 (fic_failure_seed (rp_injection d))),
      (''deterministic_scheduler_seed'', dec64 (fic_deterministic_scheduler_seed (rp_injection d))),
      (''selected_failure_point'', failure_point_name (fic_selected_point (rp_injection d))),
      (''selected_occurrence'', dec64 (fic_selected_occurrence (rp_injection d))),
      (''observed_trace_hash'', to_hex (rp_observed_trace_hash d)),
      (''observed_trace_events'', dec64 (rp_observed_trace_events d)),
      (''run_incarnation'', dec64 (rp_run_incarnation d)),
      (''block_id'', dec64 (rp_block_id d)),
      (''checkpoint_sequence'', dec64 (rp_checkpoint_sequence d))]"

definition descriptor_fields :: "replay_descriptor \<Rightarrow> (string \<times> string) list" where
  "descriptor_fields d =
     [(''format'', kReplayMagic),
      (''version'', dec32 (rp_version d)),
      (''run_spec_hash'', to_hex (rp_run_spec_hash d)),
      (''build_fingerprint'', to_hex (rp_build_fingerprint d))] @ spec_fields (rp_spec d) @ policy_fields d"

definition encode_descriptor_body :: "replay_descriptor \<Rightarrow> string" where
  "encode_descriptor_body d = concat (map field_line (descriptor_fields d))"

definition encode_descriptor :: "replay_descriptor \<Rightarrow> string" where
  "encode_descriptor d =
     (let body = encode_descriptor_body d
      in body @ ''descriptor_sha256='' @ to_hex (sha256 (string_bytes body)) @ [CHR 0x0A])"

section \<open>Reading a descriptor\<close>

text \<open>\<^verbatim>\<open>read_descriptor_bytes\<close> on the contents of the file.\<close>

definition check_descriptor_bytes :: "string \<Rightarrow> string result" where
  "check_descriptor_bytes content =
     (if kMaxReplayDescriptorBytes < length content
      then Inl (Length_error ''replay descriptor exceeds 64 KiB limit'')
      else if content = [] \<or> last content \<noteq> CHR 0x0A
      then Inl (Runtime_error ''replay descriptor must be nonempty and newline-terminated'')
      else Inr content)"

lemma rest_shorter: "xs \<noteq> [] \<Longrightarrow> length (dropWhile P xs) - Suc 0 < length xs"
  using length_dropWhile_le [of P xs] length_greater_0_conv [of xs] by linarith

function read_fields :: "nat \<Rightarrow> string \<Rightarrow> (string \<times> string) list result" where
  "read_fields seen content =
     (if content = [] then Inr []
      else
        (let line = takeWhile (\<lambda>c. c \<noteq> CHR 0x0A) content;
             rest = dropWhile (\<lambda>c. c \<noteq> CHR 0x0A) content
         in if rest = [] then Inl (Runtime_error ''replay descriptor must be newline-terminated'')
            else if kMaxReplayDescriptorLineBytes < length line
            then Inl (Length_error ''replay descriptor line exceeds 4 KiB limit'')
            else if CHR ''='' \<notin> set line \<or> hd line = CHR ''=''
            then Inl (Runtime_error ''malformed replay descriptor line'')
            else if seen = kMaxReplayDescriptorFields
            then Inl (Length_error ''replay descriptor exceeds the 64-field schema limit'')
            else rbind (read_fields (Suc seen) (tl rest)) (\<lambda>parsed.
              Inr ((takeWhile (\<lambda>c. c \<noteq> CHR ''='') line, tl (dropWhile (\<lambda>c. c \<noteq> CHR ''='') line)) # parsed))))"
  by pat_completeness auto

termination
  by (relation "measure (length \<circ> snd)") (simp_all add: rest_shorter)

declare read_fields.simps [simp del]

definition verify_descriptor_checksum :: "string \<Rightarrow> sha256_digest result" where
  "verify_descriptor_checksum content =
     (let body = butlast content;
          final_line = rev (takeWhile (\<lambda>c. c \<noteq> CHR 0x0A) (rev body));
          final_line_start = length body - length final_line;
          prefix = ''descriptor_sha256=''
      in if take (length prefix) final_line \<noteq> prefix
         then Inl (Runtime_error ''replay descriptor is missing its final SHA-256 checksum'')
         else rbind (parse_digest (drop (length prefix) final_line) ''descriptor_sha256'') (\<lambda>recorded.
           if sha256 (string_bytes (take final_line_start content)) \<noteq> recorded
           then Inl (Runtime_error ''replay descriptor SHA-256 mismatch'')
           else Inr recorded))"

definition take_field :: "string \<Rightarrow> (string \<times> string) list \<Rightarrow> (string \<times> (string \<times> string) list) result" where
  "take_field expected_name fs =
     (case fs of
        (name, v) # rest \<Rightarrow>
          if name \<noteq> expected_name
          then Inl (Runtime_error (''replay descriptor field order/name mismatch: '' @ expected_name))
          else Inr (v, rest)
      | [] \<Rightarrow> Inl (Runtime_error (''replay descriptor field order/name mismatch: '' @ expected_name)))"

definition fields_finish :: "(string \<times> string) list \<Rightarrow> unit result" where
  "fields_finish fs = throw_if (fs \<noteq> []) (Runtime_error ''replay descriptor has trailing fields'')"

text \<open>\<^verbatim>\<open>parse(reader.take(name), name)\<close>.\<close>

definition take_parse ::
  "(string \<Rightarrow> string \<Rightarrow> 'a result) \<Rightarrow> string \<Rightarrow> (string \<times> string) list \<Rightarrow> ('a \<times> (string \<times> string) list) result" where
  "take_parse parse name fs =
     rbind (take_field name fs) (\<lambda>(txt, fs).
     rbind (parse txt name) (\<lambda>v. Inr (v, fs)))"

definition parse_bits :: "string \<Rightarrow> string \<Rightarrow> double result" where
  "parse_bits txt field = rbind (parse_hex_u64 txt field) (\<lambda>w. Inr (Double w))"

definition read_model_fields ::
  "run_spec \<Rightarrow> (string \<times> string) list \<Rightarrow> (run_spec \<times> (string \<times> string) list) result" where
  "read_model_fields spec fs =
     (case spec_model_type spec of
        Gbm \<Rightarrow> rbind (take_parse parse_bits ''volatility_bits'' fs) (\<lambda>(v, fs). Inr (spec\<lparr>volatility := v\<rparr>, fs))
      | Heston \<Rightarrow>
          rbind (take_parse parse_u32 ''heston_discretization_version'' fs) (\<lambda>(version, fs).
          rbind (take_parse parse_bits ''heston_initial_variance_bits'' fs) (\<lambda>(v0, fs).
          rbind (take_parse parse_bits ''heston_mean_reversion_rate_bits'' fs) (\<lambda>(kappa, fs).
          rbind (take_parse parse_bits ''heston_long_run_variance_bits'' fs) (\<lambda>(theta, fs).
          rbind (take_parse parse_bits ''heston_volatility_of_variance_bits'' fs) (\<lambda>(sigma, fs).
          rbind (take_parse parse_bits ''heston_correlation_bits'' fs) (\<lambda>(rho, fs).
            Inr (spec\<lparr>heston := Some \<lparr>initial_variance = v0, mean_reversion_rate = kappa,
                   long_run_variance = theta, volatility_of_variance = sigma, correlation = rho,
                   discretization_version = version\<rparr>\<rparr>, fs)))))))
      | Unknown_model b \<Rightarrow>
          Inl (Runtime_error ''replay descriptor contains an unsupported model type''))"

definition read_spec_fields :: "(string \<times> string) list \<Rightarrow> (run_spec \<times> (string \<times> string) list) result" where
  "read_spec_fields fs =
     rbind (take_parse parse_u64 ''engine_version'' fs) (\<lambda>(engine, fs).
     rbind (take_parse parse_u64 ''rng_version'' fs) (\<lambda>(rng, fs).
     rbind (take_parse parse_u32 ''stats_schema_version'' fs) (\<lambda>(stats, fs).
     rbind (take_parse parse_u8 ''model_type'' fs) (\<lambda>(model, fs).
     rbind (take_parse parse_u8 ''payoff_type'' fs) (\<lambda>(payoff, fs).
     rbind (take_parse parse_u64 ''antithetic'' fs) (\<lambda>(anti, fs).
     if 1 < anti then Inl (Runtime_error ''antithetic flag is invalid'')
     else
       rbind (take_parse parse_u64 ''global_seed'' fs) (\<lambda>(seed, fs).
       rbind (take_parse parse_u64 ''total_scenarios'' fs) (\<lambda>(total, fs).
       rbind (take_parse parse_u32 ''num_time_steps'' fs) (\<lambda>(steps, fs).
       rbind (take_parse parse_bits ''maturity_bits'' fs) (\<lambda>(mat, fs).
       rbind (take_parse parse_bits ''spot_bits'' fs) (\<lambda>(s0, fs).
       rbind (take_parse parse_bits ''strike_bits'' fs) (\<lambda>(k, fs).
       rbind (take_parse parse_bits ''rate_bits'' fs) (\<lambda>(r, fs).
         read_model_fields (default_run_spec\<lparr>engine_version := engine, rng_version := rng,
             stats_schema_version := stats, spec_model_type := model_of_code model,
             spec_payoff_type := payoff_of_code payoff, antithetic := (anti = 1),
             global_seed := seed, total_scenarios := total, num_time_steps := steps,
             maturity := mat, spot := s0, strike := k, rate := r\<rparr>) fs)))))))))))))"

definition parse_point :: "string \<Rightarrow> string \<Rightarrow> failure_point result" where
  "parse_point txt field = parse_failure_point txt"

text \<open>The fields after the specification; \<^verbatim>\<open>d\<close> is the descriptor with the fields read so far.\<close>

definition read_policy_fields ::
  "replay_descriptor \<Rightarrow> (string \<times> string) list \<Rightarrow> (replay_descriptor \<times> (string \<times> string) list) result" where
  "read_policy_fields d fs =
     rbind (take_parse parse_size ''worker_count'' fs) (\<lambda>(workers, fs).
     rbind (take_parse parse_u64 ''block_size'' fs) (\<lambda>(bsize, fs).
     rbind (take_parse parse_size ''assignment_queue_capacity'' fs) (\<lambda>(aq, fs).
     rbind (take_parse parse_size ''completion_queue_capacity'' fs) (\<lambda>(cq, fs).
     rbind (take_parse parse_u64 ''max_materialized_blocks'' fs) (\<lambda>(mat, fs).
     rbind (take_parse parse_u64 ''checkpoint_interval_blocks'' fs) (\<lambda>(interval, fs).
     rbind (take_parse parse_u64 ''max_storage_bytes'' fs) (\<lambda>(msb, fs).
     rbind (take_parse parse_u64 ''max_storage_files'' fs) (\<lambda>(msf, fs).
     rbind (take_parse parse_u64 ''min_free_space_bytes'' fs) (\<lambda>(mfs, fs).
     rbind (take_parse parse_u64 ''max_manifest_bytes'' fs) (\<lambda>(mmb, fs).
     rbind (take_parse parse_u64 ''failure_seed'' fs) (\<lambda>(seed, fs).
     rbind (take_parse parse_u64 ''deterministic_scheduler_seed'' fs) (\<lambda>(sched, fs).
     rbind (take_parse parse_point ''selected_failure_point'' fs) (\<lambda>(point, fs).
     rbind (take_parse parse_u64 ''selected_occurrence'' fs) (\<lambda>(occ, fs).
     rbind (take_parse parse_digest ''observed_trace_hash'' fs) (\<lambda>(th, fs).
     rbind (take_parse parse_u64 ''observed_trace_events'' fs) (\<lambda>(te, fs).
     rbind (take_parse parse_u64 ''run_incarnation'' fs) (\<lambda>(inc, fs).
     rbind (take_parse parse_u64 ''block_id'' fs) (\<lambda>(bid, fs).
     rbind (take_parse parse_u64 ''checkpoint_sequence'' fs) (\<lambda>(cseq, fs).
       Inr (d\<lparr>rp_engine_config := \<lparr>worker_count = workers, block_size = bsize, assignment_queue_capacity = aq,
                completion_queue_capacity = cq, max_materialized_blocks = mat\<rparr>,
              rp_checkpoint_interval_blocks := interval, rp_max_storage_bytes := msb,
              rp_max_storage_files := msf, rp_min_free_space_bytes := mfs, rp_max_manifest_bytes := mmb,
              rp_injection := (rp_injection d)\<lparr>fic_failure_seed := seed, fic_deterministic_scheduler_seed := sched,
                fic_selected_point := point, fic_selected_occurrence := occ\<rparr>,
              rp_observed_trace_hash := th, rp_observed_trace_events := te, rp_run_incarnation := inc,
              rp_block_id := bid, rp_checkpoint_sequence := cseq\<rparr>, fs))))))))))))))))))))"

definition read_replay_descriptor :: "string \<Rightarrow> string \<Rightarrow> replay_descriptor result" where
  "read_replay_descriptor path content =
     rbind (check_descriptor_bytes content) (\<lambda>bs.
     if take (length kReplayV1Prefix) bs = kReplayV1Prefix
     then Inl (Runtime_error (''replay descriptor schema v1 is unsupported; regenerate it with '' @
            ''the schema-v2 failure harness''))
     else
       rbind (verify_descriptor_checksum bs) (\<lambda>verified.
       rbind (read_fields 0 bs) (\<lambda>fs.
       rbind (take_field ''format'' fs) (\<lambda>(magic, fs).
       if magic \<noteq> kReplayMagic then Inl (Runtime_error ''unsupported replay descriptor format'')
       else
         rbind (take_parse parse_u32 ''version'' fs) (\<lambda>(version, fs).
         if version \<noteq> kReplayDescriptorVersion
         then Inl (Runtime_error ''unsupported replay descriptor version'')
         else
           rbind (take_parse parse_digest ''run_spec_hash'' fs) (\<lambda>(spec_hash, fs).
           rbind (take_parse parse_digest ''build_fingerprint'' fs) (\<lambda>(fingerprint, fs).
           rbind (read_spec_fields fs) (\<lambda>(spec, fs).
           rbind (read_policy_fields (default_replay_descriptor\<lparr>rp_version := version,
               rp_run_spec_hash := spec_hash, rp_build_fingerprint := fingerprint, rp_spec := spec\<rparr>) fs) (\<lambda>(d, fs).
           rbind (take_parse parse_digest ''descriptor_sha256'' fs) (\<lambda>(parsed, fs).
           rbind (fields_finish fs) (\<lambda>_.
           if parsed \<noteq> verified then Inl (Runtime_error ''replay descriptor checksum field mismatch'')
           else
             rbind (validate_run_spec (rp_spec d)) (\<lambda>_.
             rbind (validate_engine_config (rp_engine_config d) (rp_spec d)) (\<lambda>_.
             if worker_count (rp_engine_config d) \<noteq> 1
             then Inl (Runtime_error ''R3 replay v2 requires the recorded single-worker scheduler'')
             else if rp_checkpoint_interval_blocks d = 0 \<or> rp_max_storage_bytes d = 0 \<or>
                rp_max_storage_files d = 0 \<or> rp_max_manifest_bytes d < 256 \<or>
                rp_max_storage_bytes d < rp_max_manifest_bytes d
             then Inl (Runtime_error ''replay descriptor contains invalid durable-store policy'')
             else rbind (run_spec_hash (rp_spec d)) (\<lambda>h.
               if h \<noteq> rp_run_spec_hash d then Inl (Runtime_error ''replay descriptor RunSpec hash mismatch'')
               else if encode_descriptor d \<noteq> bs
               then Inl (Runtime_error ''replay descriptor is not canonical schema v2'')
               else
                 (let injection = (rp_injection d)\<lparr>fic_replay_descriptor_path := path\<rparr>
                  in rbind (validate_failure_injection injection) (\<lambda>_.
                       Inr (d\<lparr>rp_injection := injection\<rparr>)))))))))))))))))"

section \<open>The injector\<close>

record failure_injector =
  fj_descriptor :: replay_descriptor
  fj_trace_hasher :: sha256_hasher
  fj_enabled :: bool
  fj_selected_hits :: u64

definition idle_injector :: failure_injector where
  "idle_injector = \<lparr>fj_descriptor = default_replay_descriptor, fj_trace_hasher = new_hasher,
     fj_enabled = False, fj_selected_hits = 0\<rparr>"

text \<open>\<^verbatim>\<open>hit\<close>: the updated injector, and whether the selected point is reached, where the code
  writes the descriptor and ends the process.\<close>

definition injector_hit ::
  "failure_point \<Rightarrow> failure_context \<Rightarrow> failure_injector \<Rightarrow> failure_injector \<times> bool" where
  "injector_hit point ctx fj =
     (if \<not> fj_enabled fj then (fj, False)
      else
        (let d = fj_descriptor fj;
             fj = fj\<lparr>fj_trace_hasher := hasher_update (encode_trace_event point ctx) (fj_trace_hasher fj),
                      fj_descriptor := d\<lparr>rp_observed_trace_events := rp_observed_trace_events d + 1\<rparr>\<rparr>
         in if point \<noteq> fic_selected_point (rp_injection d) then (fj, False)
            else
              (let fj = fj\<lparr>fj_selected_hits := fj_selected_hits fj + 1\<rparr>
               in if fj_selected_hits fj \<noteq> fic_selected_occurrence (rp_injection d) then (fj, False)
                  else (fj\<lparr>fj_descriptor := (fj_descriptor fj)\<lparr>
                          rp_observed_trace_hash := hasher_finalize (fj_trace_hasher fj),
                          rp_run_incarnation := fc_run_incarnation ctx,
                          rp_block_id := fc_block_id ctx,
                          rp_checkpoint_sequence := fc_checkpoint_sequence ctx\<rparr>\<rparr>, True))))"

text \<open>\<^verbatim>\<open>path_is_within\<close> on the components of the two weakly canonical paths.\<close>

fun path_is_within :: "string list \<Rightarrow> string list \<Rightarrow> bool" where
  "path_is_within candidate [] = True"
| "path_is_within [] (directory_part # directory) = False"
| "path_is_within (candidate_part # candidate) (directory_part # directory) =
     (candidate_part = directory_part \<and> path_is_within candidate directory)"

text \<open>The constructor.  \<^verbatim>\<open>canonical\<close> stands for \<^verbatim>\<open>std::filesystem::weakly_canonical\<close> and
  \<^verbatim>\<open>exists\<close> for \<^verbatim>\<open>std::filesystem::exists\<close> on the replay path, an error code as a value.\<close>

definition make_failure_injector ::
  "build_env \<Rightarrow> (string \<Rightarrow> string list) \<Rightarrow> (string \<Rightarrow> string + bool) \<Rightarrow>
   run_spec \<Rightarrow> engine_config \<Rightarrow> run_store_config \<Rightarrow> failure_injector result" where
  "make_failure_injector env canonical exists spec config store =
     (case rsc_failure_injection store of
        None \<Rightarrow> Inr idle_injector
      | Some c \<Rightarrow>
          if worker_count config \<noteq> 1
          then Inl (Invalid_argument ''deterministic failure replay currently requires one worker'')
          else rbind (validate_failure_injection c) (\<lambda>_.
            if path_is_within (canonical (fic_replay_descriptor_path c)) (canonical (rsc_run_directory store))
            then Inl (Invalid_argument ''replay descriptor must be outside the injected run directory'')
            else case exists (fic_replay_descriptor_path c) of
              Inr True \<Rightarrow> Inl (Invalid_argument (''replay descriptor already exists and is immutable: '' @
                     fic_replay_descriptor_path c))
            | Inl message \<Rightarrow> Inl (Runtime_error (''cannot inspect replay descriptor path: '' @ message))
            | Inr False \<Rightarrow> rbind (run_spec_hash spec) (\<lambda>h.
                Inr (idle_injector\<lparr>fj_enabled := True,
                  fj_descriptor := default_replay_descriptor\<lparr>rp_spec := spec, rp_engine_config := config,
                    rp_checkpoint_interval_blocks := rsc_checkpoint_interval_blocks store,
                    rp_max_storage_bytes := rsc_max_storage_bytes store,
                    rp_max_storage_files := rsc_max_storage_files store,
                    rp_min_free_space_bytes := rsc_min_free_space_bytes store,
                    rp_max_manifest_bytes := rsc_max_manifest_bytes store,
                    rp_injection := c, rp_run_spec_hash := h,
                    rp_build_fingerprint := build_hash (current_build_identity env)\<rparr>\<rparr>))))"

section \<open>The descriptor format round trips\<close>

lemma parse_failure_point_name [simp]: "parse_failure_point (failure_point_name p) = Inr p"
  by (cases p) (simp_all add: parse_failure_point_def kFailurePoints_def)

lemma parse_failure_point_Inr: "parse_failure_point name = Inr p \<longleftrightarrow> name = failure_point_name p"
proof
  assume "parse_failure_point name = Inr p"
  then have "List.find (\<lambda>p. name = failure_point_name p) kFailurePoints = Some p"
    by (simp add: parse_failure_point_def split: option.splits)
  then show "name = failure_point_name p" unfolding find_Some_iff by blast
qed simp

lemma validate_failure_injection_Inr:
  "validate_failure_injection c = Inr () \<longleftrightarrow> fic_selected_occurrence c \<noteq> 0 \<and>
     fic_replay_descriptor_path c \<noteq> [] \<and> fic_deterministic_scheduler_seed c = 0"
  by (simp add: validate_failure_injection_def)

text \<open>A field that survives the line format.\<close>

definition plain_field :: "string \<times> string \<Rightarrow> bool" where
  "plain_field f \<longleftrightarrow> fst f \<noteq> [] \<and> CHR ''='' \<notin> set (fst f) \<and> CHR 0x0A \<notin> set (fst f) \<and>
     CHR 0x0A \<notin> set (snd f) \<and> length (fst f) + length (snd f) < kMaxReplayDescriptorLineBytes"

lemma split_before:
  assumes "c \<notin> set xs"
  shows "takeWhile (\<lambda>x. x \<noteq> c) (xs @ c # ys) = xs" "dropWhile (\<lambda>x. x \<noteq> c) (xs @ c # ys) = c # ys"
  using assms by (induction xs) auto

lemma read_fields_lines:
  "list_all plain_field fs \<Longrightarrow> seen + length fs \<le> kMaxReplayDescriptorFields \<Longrightarrow>
     read_fields seen (concat (map field_line fs)) = Inr fs"
proof (induction fs arbitrary: seen)
  case Nil
  then show ?case by (simp add: read_fields.simps)
next
  case (Cons f fs)
  obtain n v where f: "f = (n, v)" by (cases f)
  let ?rest = "concat (map field_line fs)" and ?line = "n @ CHR ''='' # v"
  have p: "n \<noteq> []" "CHR ''='' \<notin> set n" "CHR 0x0A \<notin> set ?line" "\<not> kMaxReplayDescriptorLineBytes < length ?line"
    using Cons.prems(1) by (auto simp: plain_field_def f)
  have content: "concat (map field_line (f # fs)) = ?line @ CHR 0x0A # ?rest"
    by (simp add: field_line_def f)
  have h: "\<not> (CHR ''='' \<notin> set ?line \<or> hd ?line = CHR ''='')" using p(1,2) by (cases n) auto
  have ih: "read_fields (Suc seen) ?rest = Inr fs" using Cons by simp
  have room: "seen \<noteq> kMaxReplayDescriptorFields" using Cons.prems(2) by simp
  note line = split_before [OF p(3), of ?rest] and field = split_before [OF p(2), of v]
  show ?case
    unfolding content read_fields.simps [of seen "?line @ CHR 0x0A # ?rest"] Let_def line
    unfolding field
    using p(4) h room by (simp only: ih if_False list.sel rbind_simps f) simp
qed

text \<open>Every value the encoder prints is short and has no newline.\<close>

definition short_value :: "string \<Rightarrow> bool" where
  "short_value v \<longleftrightarrow> CHR 0x0A \<notin> set v \<and> length v \<le> 64"

lemma is_digit_not_newline: "is_digit base c \<Longrightarrow> c \<noteq> CHR 0x0A"
  by (auto simp: is_digit_def digit_value_def)

lemma short_pad: "2 \<le> base \<Longrightarrow> base \<le> 16 \<Longrightarrow> n \<le> 64 \<Longrightarrow> short_value (pad base n x)"
  using pad_digits is_digit_not_newline by (fastforce simp: short_value_def)

lemma short_decimal: "n < 10 ^ 20 \<Longrightarrow> short_value (decimal n)"
  using decimal_pad [of n 20] decimal_digits [of n] is_digit_not_newline
  by (fastforce simp: short_value_def list_all_iff)

lemma short_printed [simp]:
  "short_value (dec64 a)" "short_value (dec32 b)" "short_value (dec8 c)"
  "short_value (decimal 0)" "short_value (decimal 1)" "short_value (decimal (Suc 0))"
  "short_value (bits_hex x)" "short_value (failure_point_name p)"
proof -
  have "unat a < 100000000000000000000" using unat_less_2_64 [of a] by linarith
  then have "unat a < 10 ^ 20" "unat b < 10 ^ 20" "unat c < 10 ^ 20"
    using unsigned_less [of b, where 'a = nat] unsigned_less [of c, where 'a = nat] by simp_all
  then show "short_value (dec64 a)" "short_value (dec32 b)" "short_value (dec8 c)" by (simp_all add: short_decimal)
  show "short_value (decimal 0)" "short_value (decimal 1)" "short_value (decimal (Suc 0))"
    using short_decimal by simp_all
  show "short_value (bits_hex x)" by (simp add: bits_hex_pad short_pad)
  show "short_value (failure_point_name p)" by (cases p) (simp_all add: short_value_def)
qed

lemma short_to_hex [simp]: "length d = 32 \<Longrightarrow> short_value (to_hex d)"
proof -
  have "is_digit 16 c" if "c \<in> set (to_hex bs)" for bs c
    using that
  proof (induction bs)
    case (Cons b bs)
    have "unat (drop_bit 4 b) < 16" "unat (b AND 0x0F) < 16"
      using unsigned_less [of b, where 'a = nat] word_and_le1 [of b "0x0F"] unat_drop_bit_eq [of 4 b]
      by (simp_all add: drop_bit_eq_div word_le_nat_alt less_mult_imp_div_less del: unat_drop_bit_eq)
    then show ?case using Cons by (auto simp: to_hex_def is_digit_hex_digit)
  qed (simp add: to_hex_def)
  then show "length d = 32 \<Longrightarrow> ?thesis"
    using is_digit_not_newline by (fastforce simp: short_value_def length_to_hex)
qed

definition short_field :: "string \<times> string \<Rightarrow> bool" where
  "short_field f \<longleftrightarrow> fst f \<noteq> [] \<and> CHR ''='' \<notin> set (fst f) \<and> CHR 0x0A \<notin> set (fst f) \<and> length (fst f) \<le> 40 \<and>
     short_value (snd f)"

lemma short_field_plain: "short_field f \<Longrightarrow> plain_field f"
  by (auto simp: short_field_def plain_field_def short_value_def kMaxReplayDescriptorLineBytes_def)

lemma length_short_fields:
  "list_all short_field fs \<Longrightarrow> length (concat (map field_line fs)) \<le> 106 * length fs"
  by (induction fs) (auto simp: short_field_def short_value_def field_line_def)

definition descriptor_digests :: "replay_descriptor \<Rightarrow> bool" where
  "descriptor_digests d \<longleftrightarrow> length (rp_run_spec_hash d) = 32 \<and> length (rp_build_fingerprint d) = 32 \<and>
     length (rp_observed_trace_hash d) = 32"

lemma short_descriptor_fields:
  assumes "descriptor_digests d"
  shows "list_all short_field (descriptor_fields d)" "length (descriptor_fields d) \<le> 63"
proof -
  have m: "list_all short_field (model_fields s)" "length (model_fields s) \<le> 6" for s
    by (cases "spec_model_type s"; simp add: model_fields_def Let_def short_field_def)+
  have "short_field (''format'', kReplayMagic)"
    by (simp add: short_field_def short_value_def kReplayMagic_def)
  then show "list_all short_field (descriptor_fields d)"
    using assms m(1) by (simp add: descriptor_fields_def spec_fields_def policy_fields_def
        descriptor_digests_def short_field_def)
  show "length (descriptor_fields d) \<le> 63"
    using m(2) [of "rp_spec d"] by (simp add: descriptor_fields_def spec_fields_def policy_fields_def)
qed

text \<open>Taking the fields back, one component at a time.\<close>

lemma take_parse_Cons [simp]: "take_parse p n ((n, v) # fs) = rbind (p v n) (\<lambda>x. Inr (x, fs))"
  by (simp add: take_parse_def take_field_def)

lemma take_parse_Inr: "take_parse p n fs = Inr r \<longleftrightarrow> (\<exists>v x rest. fs = (n, v) # rest \<and> p v n = Inr x \<and> r = (x, rest))"
  by (cases fs) (auto simp: take_parse_def take_field_def split: if_splits)

lemma parse_bits_bits_hex [simp]: "parse_bits (bits_hex d) f = Inr d"
  by (simp add: parse_bits_def)

lemma parse_point_name [simp]: "parse_point (failure_point_name p) f = Inr p"
  by (simp add: parse_point_def)

lemma parse_flag [simp]: "parse_u64 (decimal (if b then 1 else 0)) f = Inr (if b then 1 else 0)"
  using parse_u64_decimal [of 1 f] parse_u64_decimal [of 0 f] by simp

lemma length_parse_digest: "parse_digest v f = Inr d \<Longrightarrow> length d = 32"
proof -
  have "length ds = length cs div 2" if "parse_digest_bytes f cs = Inr ds" for cs ds
    using that by (induction f cs arbitrary: ds rule: parse_digest_bytes.induct)
      (auto split: from_chars_result.splits list.splits if_splits)
  then show "parse_digest v f = Inr d \<Longrightarrow> ?thesis" by (fastforce simp: parse_digest_def split: if_splits)
qed

lemma read_spec_fields_spec:
  assumes "valid_spec spec" "spec_storable spec"
  shows "read_spec_fields (spec_fields spec @ rest) = Inr (spec, rest)"
proof -
  have t: "payoff_of_code (payoff_code (spec_payoff_type spec)) = spec_payoff_type spec"
    "model_of_code (model_code (spec_model_type spec)) = spec_model_type spec"
    using valid_spec_types [OF assms(1)] by auto
  have flag: "\<not> 1 < (if antithetic spec then 1 else 0 :: u64)"
    "((if antithetic spec then 1 else 0 :: u64) = 1) = antithetic spec" by auto
  note take = read_spec_fields_def spec_fields_def append_Cons append_Nil append_assoc take_parse_Cons parse_flag
    rbind_simps parse_u64_decimal parse_u32_decimal parse_u8_decimal parse_bits_bits_hex prod.case t flag if_False
  show ?thesis using valid_spec_types(2) [OF assms(1)]
  proof
    assume "spec_model_type spec = Gbm \<and> heston spec = None"
    then show ?thesis
      unfolding take by (cases spec) (simp add: read_model_fields_def model_fields_def default_run_spec_def)
  next
    assume "spec_model_type spec = Heston \<and> (\<exists>h. heston spec = Some h \<and> validate_heston h = Inr ())"
    then obtain h where "spec_model_type spec = Heston" "heston spec = Some h" by blast
    then show ?thesis using assms(2) unfolding take
      by (cases spec; cases h) (simp add: read_model_fields_def model_fields_def Let_def
          heston_parameters_def spec_storable_def default_run_spec_def)
  qed
qed

lemma read_spec_fields_storable: "read_spec_fields fs = Inr (spec, rest) \<Longrightarrow> spec_storable spec"
proof -
  have "spec_storable s'" if "read_model_fields s xs = Inr (s', ys)" "volatility s = volatility default_run_spec" for s xs s' ys
    using that by (auto simp: read_model_fields_def spec_storable_def take_parse_Inr split: model_type.splits)
  then show "read_spec_fields fs = Inr (spec, rest) \<Longrightarrow> ?thesis"
    unfolding read_spec_fields_def by (force split: prod.splits if_splits)
qed

lemma read_policy_fields_policy:
  assumes "length (rp_observed_trace_hash d) = 32"
  shows "read_policy_fields d0 (policy_fields d @ rest) =
     Inr (d\<lparr>rp_version := rp_version d0, rp_spec := rp_spec d0, rp_run_spec_hash := rp_run_spec_hash d0,
            rp_build_fingerprint := rp_build_fingerprint d0,
            rp_injection := (rp_injection d)\<lparr>fic_replay_descriptor_path :=
              fic_replay_descriptor_path (rp_injection d0)\<rparr>\<rparr>, rest)"
  unfolding read_policy_fields_def policy_fields_def append_Cons append_Nil take_parse_Cons
    rbind_simps parse_u64_decimal parse_size_decimal parse_to_hex [OF assms] parse_point_name prod.case
  by (cases d; cases d0; cases "rp_engine_config d"; cases "rp_injection d"; cases "rp_injection d0") simp

lemma read_policy_fields_kept:
  "read_policy_fields d0 fs = Inr (d, rest) \<Longrightarrow>
     rp_version d = rp_version d0 \<and> rp_spec d = rp_spec d0 \<and> rp_run_spec_hash d = rp_run_spec_hash d0 \<and>
     rp_build_fingerprint d = rp_build_fingerprint d0 \<and> length (rp_observed_trace_hash d) = 32"
  unfolding read_policy_fields_def
  by (auto simp: take_parse_Inr split: prod.splits dest: length_parse_digest)

lemma checksum_line:
  assumes "body = b @ [CHR 0x0A]" "length h = 32" "sha256 (string_bytes body) = h"
  shows "verify_descriptor_checksum (body @ ''descriptor_sha256='' @ to_hex h @ [CHR 0x0A]) = Inr h"
proof -
  let ?line = "''descriptor_sha256='' @ to_hex h" and ?content = "body @ ''descriptor_sha256='' @ to_hex h @ [CHR 0x0A]"
  have nl: "CHR 0x0A \<notin> set (rev ?line)" using short_to_hex [OF assms(2)] by (simp add: short_value_def)
  have content: "?content = (body @ ?line) @ [CHR 0x0A]" by simp
  have "takeWhile (\<lambda>c. c \<noteq> CHR 0x0A) (rev (body @ ?line)) = rev ?line"
    using split_before(1) [OF nl, of "rev b"] unfolding assms(1) by simp
  then have line: "rev (takeWhile (\<lambda>c. c \<noteq> CHR 0x0A) (rev (body @ ?line))) = ?line"
    by (simp only: rev_rev_ident)
  have body: "take (length (body @ ?line) - length ?line) ((body @ ?line) @ [CHR 0x0A]) = body" by simp
  show ?thesis
    unfolding content verify_descriptor_checksum_def Let_def butlast_snoc line body assms(3)
    using assms(2) by simp
qed

definition replayable :: "replay_descriptor \<Rightarrow> bool" where
  "replayable d \<longleftrightarrow>
     rp_version d = kReplayDescriptorVersion \<and> descriptor_digests d \<and>
     valid_spec (rp_spec d) \<and> spec_storable (rp_spec d) \<and>
     validate_engine_config (rp_engine_config d) (rp_spec d) = Inr () \<and> worker_count (rp_engine_config d) = 1 \<and>
     \<not> (rp_checkpoint_interval_blocks d = 0 \<or> rp_max_storage_bytes d = 0 \<or>
        rp_max_storage_files d = 0 \<or> rp_max_manifest_bytes d < 256 \<or>
        rp_max_storage_bytes d < rp_max_manifest_bytes d) \<and>
     run_spec_hash (rp_spec d) = Inr (rp_run_spec_hash d) \<and>
     validate_failure_injection (rp_injection d) = Inr ()"

lemma encode_descriptor_path [simp]:
  "encode_descriptor (d\<lparr>rp_injection := (rp_injection d)\<lparr>fic_replay_descriptor_path := p\<rparr>\<rparr>) = encode_descriptor d"
  by (simp add: encode_descriptor_def encode_descriptor_body_def descriptor_fields_def policy_fields_def)

lemma body_ends: "\<exists>b. encode_descriptor_body d = b @ [CHR 0x0A]"
proof -
  have "\<exists>fs f. descriptor_fields d = fs @ [f]"
    by (metis append_butlast_last_id append_is_Nil_conv descriptor_fields_def list.distinct(1))
  then show ?thesis by (auto simp: encode_descriptor_body_def field_line_def)
qed

text \<open>The lines of an encoded descriptor.\<close>

lemma encoded_lines:
  fixes d :: replay_descriptor
  defines "h \<equiv> sha256 (string_bytes (encode_descriptor_body d))"
  assumes "descriptor_digests d"
  shows "verify_descriptor_checksum (encode_descriptor d) = Inr h"
    and "read_fields 0 (encode_descriptor d) = Inr (descriptor_fields d @ [(''descriptor_sha256'', to_hex h)])"
    and "check_descriptor_bytes (encode_descriptor d) = Inr (encode_descriptor d)"
    and "take (length kReplayV1Prefix) (encode_descriptor d) \<noteq> kReplayV1Prefix"
proof -
  obtain b where b: "encode_descriptor_body d = b @ [CHR 0x0A]" using body_ends by blast
  have "length h = 32" by (simp add: h_def)
  from checksum_line [OF b this] show "verify_descriptor_checksum (encode_descriptor d) = Inr h"
    by (simp add: encode_descriptor_def Let_def h_def)
  let ?fs = "descriptor_fields d @ [(''descriptor_sha256'', to_hex h)]"
  have e: "encode_descriptor d = concat (map field_line ?fs)"
    by (simp add: encode_descriptor_def Let_def encode_descriptor_body_def field_line_def h_def)
  have short: "list_all short_field ?fs" "length ?fs \<le> 64"
    using short_descriptor_fields [OF assms(2)] \<open>length h = 32\<close> by (simp_all add: short_field_def)
  then have "list_all plain_field ?fs" using short_field_plain by (auto simp: list_all_iff)
  then show "read_fields 0 (encode_descriptor d) = Inr ?fs"
    unfolding e using short(2) by (intro read_fields_lines) (simp_all add: kMaxReplayDescriptorFields_def)
  have "length (encode_descriptor d) \<le> 6784"
    using length_short_fields [OF short(1)] short(2) unfolding e by linarith
  then show "check_descriptor_bytes (encode_descriptor d) = Inr (encode_descriptor d)"
    by (simp add: check_descriptor_bytes_def kMaxReplayDescriptorBytes_def encode_descriptor_def Let_def)
  show "take (length kReplayV1Prefix) (encode_descriptor d) \<noteq> kReplayV1Prefix"
    by (simp add: encode_descriptor_def Let_def encode_descriptor_body_def descriptor_fields_def field_line_def
        kReplayMagic_def kReplayV1Prefix_def)
qed

lemma read_encode_descriptor:
  assumes "replayable d"
  shows "read_replay_descriptor (fic_replay_descriptor_path (rp_injection d)) (encode_descriptor d) = Inr d"
proof -
  note r = assms [unfolded replayable_def, THEN conjunct1]
    assms [unfolded replayable_def, THEN conjunct2, THEN conjunct1]
  have v: "valid_spec (rp_spec d)" "spec_storable (rp_spec d)" "worker_count (rp_engine_config d) = 1"
    "validate_engine_config (rp_engine_config d) (rp_spec d) = Inr ()"
    "run_spec_hash (rp_spec d) = Inr (rp_run_spec_hash d)"
    "validate_failure_injection (rp_injection d) = Inr ()"
    using assms by (simp_all add: replayable_def)
  have policy: "\<not> (rp_checkpoint_interval_blocks d = 0 \<or> rp_max_storage_bytes d = 0 \<or>
        rp_max_storage_files d = 0 \<or> rp_max_manifest_bytes d < 256 \<or>
        rp_max_storage_bytes d < rp_max_manifest_bytes d)"
    using assms by (simp add: replayable_def)
  have digests: "length (rp_run_spec_hash d) = 32" "length (rp_build_fingerprint d) = 32"
    "length (rp_observed_trace_hash d) = 32"
    using r(2) by (simp_all add: descriptor_digests_def)
  let ?h = "sha256 (string_bytes (encode_descriptor_body d))"
  let ?read = "d\<lparr>rp_injection := (rp_injection d)\<lparr>fic_replay_descriptor_path := []\<rparr>\<rparr>"
  have parsed: "read_policy_fields (default_replay_descriptor\<lparr>rp_version := rp_version d,
       rp_run_spec_hash := rp_run_spec_hash d, rp_build_fingerprint := rp_build_fingerprint d, rp_spec := rp_spec d\<rparr>)
       (policy_fields d @ rest) = Inr (?read, rest)" for rest
    unfolding read_policy_fields_policy [OF digests(3)]
    by (simp add: default_replay_descriptor_def default_failure_injection_def)
  note lines = encoded_lines [OF r(2)]
  have format: "take_field ''format'' ((''format'', kReplayMagic) # fs) = Inr (kReplayMagic, fs)" for fs
    by (simp add: take_field_def)
  show ?thesis
    unfolding read_replay_descriptor_def lines(1,2,3) rbind_simps if_not_P [OF lines(4)]
    unfolding descriptor_fields_def append_Cons append_Nil append_assoc format take_parse_Cons parse_u32_decimal
      parse_to_hex [OF digests(1)] parse_to_hex [OF digests(2)] rbind_simps prod.case
      read_spec_fields_spec [OF v(1,2)] parsed parse_to_hex [OF length_sha256]
    using v policy r(1) by (simp add: fields_finish_def valid_spec_def)
qed

lemma read_replay_descriptor_Inr:
  assumes "read_replay_descriptor path content = Inr d"
  shows "replayable d" "fic_replay_descriptor_path (rp_injection d) = path" "content = encode_descriptor d"
proof -
  obtain spec d0 fs1 fs2 fs3 h f where
    spec: "read_spec_fields fs1 = Inr (spec, fs2)"
    and hash: "length h = 32" "length f = 32"
    and pol: "read_policy_fields (default_replay_descriptor\<lparr>rp_version := kReplayDescriptorVersion,
        rp_run_spec_hash := h, rp_build_fingerprint := f, rp_spec := spec\<rparr>) fs2 = Inr (d0, fs3)"
    and checks: "validate_run_spec (rp_spec d0) = Inr ()"
      "validate_engine_config (rp_engine_config d0) (rp_spec d0) = Inr ()" "worker_count (rp_engine_config d0) = 1"
      "\<not> (rp_checkpoint_interval_blocks d0 = 0 \<or> rp_max_storage_bytes d0 = 0 \<or>
        rp_max_storage_files d0 = 0 \<or> rp_max_manifest_bytes d0 < 256 \<or>
        rp_max_storage_bytes d0 < rp_max_manifest_bytes d0)"
      "run_spec_hash (rp_spec d0) = Inr (rp_run_spec_hash d0)" "encode_descriptor d0 = content"
      "validate_failure_injection ((rp_injection d0)\<lparr>fic_replay_descriptor_path := path\<rparr>) = Inr ()"
      "d = d0\<lparr>rp_injection := (rp_injection d0)\<lparr>fic_replay_descriptor_path := path\<rparr>\<rparr>"
    using assms unfolding read_replay_descriptor_def Let_def
    by (auto simp: take_parse_Inr check_descriptor_bytes_def split: prod.splits if_splits dest!: length_parse_digest)
  show "replayable d" "fic_replay_descriptor_path (rp_injection d) = path" "content = encode_descriptor d"
    using checks read_spec_fields_storable [OF spec] read_policy_fields_kept [OF pol] hash
    by (auto simp: replayable_def descriptor_digests_def valid_spec_def)
qed

text \<open>C27. The text format of replay descriptors: the strict reader accepts exactly the canonical encodings of
  replayable descriptors (valid specification and engine, one worker, a satisfiable store policy, matching
  hashes), and gives back the descriptor with the path it was read from.\<close>

theorem replay_descriptor_roundtrip:
  "read_replay_descriptor path content = Inr d \<longleftrightarrow>
     replayable d \<and> fic_replay_descriptor_path (rp_injection d) = path \<and> content = encode_descriptor d"
  using read_encode_descriptor read_replay_descriptor_Inr by metis

section \<open>The injector dies at the selected occurrence\<close>

text \<open>The injector over a sequence of hits, up to the one that ends the process.\<close>

fun injector_run :: "(failure_point \<times> failure_context) list \<Rightarrow> failure_injector \<Rightarrow> failure_injector \<times> bool" where
  "injector_run [] fj = (fj, False)"
| "injector_run ((point, ctx) # events) fj =
     (case injector_hit point ctx fj of (fj', died) \<Rightarrow> if died then (fj', True) else injector_run events fj')"

definition trace_bytes :: "(failure_point \<times> failure_context) list \<Rightarrow> bytes" where
  "trace_bytes events = concat (map (\<lambda>(point, ctx). encode_trace_event point ctx) events)"

definition point_hits :: "failure_point \<Rightarrow> (failure_point \<times> failure_context) list \<Rightarrow> nat" where
  "point_hits point events = length (filter (\<lambda>e. fst e = point) events)"

lemmas trace_simps = trace_bytes_def point_hits_def

text \<open>An armed injector that has seen \<^verbatim>\<open>pre\<close> and not died.\<close>

definition armed :: "(failure_point \<times> failure_context) list \<Rightarrow> failure_injector \<Rightarrow> bool" where
  "armed pre fj \<longleftrightarrow>
     (let d = fj_descriptor fj; c = rp_injection d
      in fj_enabled fj \<and> hasher_fed (trace_bytes pre) (fj_trace_hasher fj) \<and>
         rp_observed_trace_events d = of_nat (length pre) \<and>
         fj_selected_hits fj = of_nat (point_hits (fic_selected_point c) pre) \<and>
         point_hits (fic_selected_point c) pre < unat (fic_selected_occurrence c))"

text \<open>What the descriptor of a dead injector says of the trace up to its death.\<close>

definition died_after :: "(failure_point \<times> failure_context) list \<Rightarrow> failure_context \<Rightarrow> failure_injector \<Rightarrow> bool" where
  "died_after pre ctx fj \<longleftrightarrow>
     (let d = fj_descriptor fj; c = rp_injection d; observed = pre @ [(fic_selected_point c, ctx)]
      in Suc (point_hits (fic_selected_point c) pre) = unat (fic_selected_occurrence c) \<and>
         rp_observed_trace_hash d = sha256 (trace_bytes observed) \<and>
         rp_observed_trace_events d = of_nat (length observed) \<and>
         rp_run_incarnation d = fc_run_incarnation ctx \<and> rp_block_id d = fc_block_id ctx \<and>
         rp_checkpoint_sequence d = fc_checkpoint_sequence ctx)"

lemma injector_hit_armed:
  assumes "armed pre fj"
  defines "c \<equiv> rp_injection (fj_descriptor fj)"
  shows "case injector_hit point ctx fj of (fj', died) \<Rightarrow>
     rp_injection (fj_descriptor fj') = c \<and>
     (died \<longleftrightarrow> point = fic_selected_point c \<and> Suc (point_hits point pre) = unat (fic_selected_occurrence c)) \<and>
     (if died then died_after pre ctx fj' else armed (pre @ [(point, ctx)]) fj')"
proof -
  let ?occ = "fic_selected_occurrence c" and ?n = "point_hits (fic_selected_point c) pre"
  have fed: "hasher_fed (trace_bytes (pre @ [(point, ctx)]))
      (hasher_update (encode_trace_event point ctx) (fj_trace_hasher fj))"
    using assms hasher_update_fed by (simp add: armed_def Let_def trace_bytes_def)
  have n: "?n < unat ?occ" "fj_selected_hits fj = of_nat ?n" using assms by (simp_all add: armed_def Let_def)
  have "unat (of_nat (Suc ?n) :: u64) = Suc ?n" using n(1) by (intro unat_of_nat_le [of _ ?occ]) simp
  then have count: "(of_nat ?n + 1 = ?occ) = (Suc ?n = unat ?occ)"
    by (metis add.commute of_nat_Suc u64_eqI)
  show ?thesis
    using assms n fed count finalize_fed [OF fed]
    by (auto simp: injector_hit_def armed_def died_after_def Let_def c_def point_hits_def sha256_spec_eq add.commute)
qed

lemma injector_run_armed:
  assumes "armed pre fj" "c = rp_injection (fj_descriptor fj)"
  shows "(snd (injector_run events fj) \<longleftrightarrow> unat (fic_selected_occurrence c) \<le> point_hits (fic_selected_point c) (pre @ events)) \<and>
    (snd (injector_run events fj) \<longrightarrow> (\<exists>seen ctx unseen. pre @ events = seen @ (fic_selected_point c, ctx) # unseen \<and>
       rp_injection (fj_descriptor (fst (injector_run events fj))) = c \<and>
       died_after seen ctx (fst (injector_run events fj))))"
  using assms
proof (induction events arbitrary: pre fj)
  case Nil
  then show ?case by (simp add: armed_def Let_def)
next
  case (Cons e events)
  obtain point ctx where e: "e = (point, ctx)" by (cases e)
  obtain fj' died where hit: "injector_hit point ctx fj = (fj', died)" by (cases "injector_hit point ctx fj")
  note step = injector_hit_armed [OF Cons.prems(1), of point ctx, unfolded hit prod.case, folded Cons.prems(2)]
  show ?case
  proof (cases died)
    case True
    then have run: "injector_run (e # events) fj = (fj', True)" by (simp add: e hit)
    have point: "point = fic_selected_point c" and hits: "Suc (point_hits point pre) = unat (fic_selected_occurrence c)"
      and dead: "rp_injection (fj_descriptor fj') = c" "died_after pre ctx fj'"
      using step True by auto
    have "pre @ e # events = pre @ (fic_selected_point c, ctx) # events" by (simp add: e point)
    then show ?thesis unfolding run fst_conv snd_conv using dead hits by (auto simp: point_hits_def e point)
  next
    case False
    then have "armed (pre @ [(point, ctx)]) fj'" "c = rp_injection (fj_descriptor fj')" using step by auto
    from Cons.IH [OF this] show ?thesis using False by (simp add: e hit)
  qed
qed

text \<open>C28. Failure injection: an injector armed by its constructor ends the process exactly at the selected occurrence
  of the selected point, never before, and the descriptor it then writes counts and hashes the trace up to
  that hit and carries the run, block and checkpoint of the hit.\<close>

theorem injected_failure_exact:
  assumes "make_failure_injector env canonical exists spec config store = Inr fj"
    and "rsc_failure_injection store = Some c"
  shows "(snd (injector_run events fj) \<longleftrightarrow>
            unat (fic_selected_occurrence c) \<le> point_hits (fic_selected_point c) events) \<and>
         (snd (injector_run events fj) \<longrightarrow>
            (\<exists>seen ctx unseen. events = seen @ (fic_selected_point c, ctx) # unseen \<and>
               rp_injection (fj_descriptor (fst (injector_run events fj))) = c \<and>
               died_after seen ctx (fst (injector_run events fj))))"
proof -
  have "validate_failure_injection c = Inr ()"
    using assms by (auto simp: make_failure_injector_def split: if_splits)
  then have "0 < unat (fic_selected_occurrence c)"
    by (auto simp: validate_failure_injection_def unat_gt_0)
  then have "armed [] fj" "c = rp_injection (fj_descriptor fj)"
    using assms new_hasher_fed
    by (auto simp: make_failure_injector_def armed_def Let_def idle_injector_def trace_simps
        default_replay_descriptor_def split: if_splits sum.splits bool.splits)
  from injector_run_armed [OF this] show ?thesis by simp
qed

definition sample_injection :: failure_injection_config where
  "sample_injection = default_failure_injection\<lparr>fic_selected_point := ManifestAfterRename,
     fic_selected_occurrence := 2, fic_replay_descriptor_path := ''replay.txt''\<rparr>"

definition sample_store :: run_store_config where
  "sample_store = \<lparr>rsc_run_directory = ''run'', rsc_checkpoint_interval_blocks = 1, rsc_max_storage_bytes = 4096,
     rsc_max_storage_files = 16, rsc_min_free_space_bytes = 0, rsc_max_manifest_bytes = 1024,
     rsc_failure_injection = Some sample_injection\<rparr>"

theorem injected_failure_exact_witness:
  "\<exists>env fj. make_failure_injector env (\<lambda>p. [p]) (\<lambda>p. Inr False) default_run_spec
       (default_engine_config\<lparr>worker_count := 1\<rparr>) sample_store = Inr fj \<and>
     (\<forall>a b. snd (injector_run [(ManifestAfterRename, a), (ResultAfterRename, b), (ManifestAfterRename, b)] fj) \<and>
           \<not> snd (injector_run [(ManifestAfterRename, a), (ResultAfterRename, b)] fj))"
proof -
  fix env :: build_env
  obtain bs where "encode_run_spec_payload default_run_spec = Inr bs"
    using encode_spec_Inr default_run_spec_valid by blast
  moreover have "validate_failure_injection sample_injection = Inr ()"
    "fic_replay_descriptor_path sample_injection \<noteq> ''run''"
    by (simp_all add: validate_failure_injection_Inr sample_injection_def default_failure_injection_def)
  ultimately have "\<exists>fj. make_failure_injector env (\<lambda>p. [p]) (\<lambda>p. Inr False) default_run_spec
       (default_engine_config\<lparr>worker_count := 1\<rparr>) sample_store = Inr fj"
    by (simp add: make_failure_injector_def sample_store_def run_spec_hash_def)
  then obtain fj where fj: "make_failure_injector env (\<lambda>p. [p]) (\<lambda>p. Inr False) default_run_spec
       (default_engine_config\<lparr>worker_count := 1\<rparr>) sample_store = Inr fj" ..
  have c: "rsc_failure_injection sample_store = Some sample_injection" by (simp add: sample_store_def)
  have "snd (injector_run events fj) \<longleftrightarrow> 2 \<le> point_hits ManifestAfterRename events" for events
    using injected_failure_exact [OF fj c, of events] by (simp add: sample_injection_def)
  then have "snd (injector_run [(ManifestAfterRename, a), (ResultAfterRename, b), (ManifestAfterRename, b)] fj) \<and>
           \<not> snd (injector_run [(ManifestAfterRename, a), (ResultAfterRename, b)] fj)" for a b
    unfolding point_hits_def by (simp del: injector_run.simps)
  with fj show ?thesis by blast
qed

text \<open>A seed always selects a valid failure: one of the nine points, at its first or second occurrence.\<close>

lemma seeded_failure_valid:
  "validate_failure_injection (failure_injection_from_seed seed path) = Inr () \<longleftrightarrow> path \<noteq> []"
proof -
  have "drop_bit 8 (split_mix seed) AND 1 = 0 \<or> drop_bit 8 (split_mix seed) AND 1 = (1 :: u64)"
    by (simp add: and_one_eq mod_2_eq_odd)
  then have "1 + (drop_bit 8 (split_mix seed) AND 1) \<noteq> (0 :: u64)" by auto
  then show ?thesis
    by (simp add: validate_failure_injection_Inr failure_injection_from_seed_def Let_def default_failure_injection_def)
qed

end
