(* ===== verification/Durable_Files.thy ===== *)
theory Durable_Files
  imports Failure_Injection
begin

text \<open>
  The file-system layer of the run store (\<^verbatim>\<open>src/run_store.cpp\<close>, lines 45 to 727): reading with size
  limits, the preflight checks of the storage policy, and the atomic installation protocol
  (exclusive temporary file, complete write, \<^verbatim>\<open>fsync\<close>, close, \<^verbatim>\<open>rename\<close>, directory \<^verbatim>\<open>fsync\<close>) with its
  failure points and its cleanup.  The operating system is a list of answers, one per call: a call
  succeeds, fails with an error, is interrupted, transfers fewer bytes, or the process is killed
  there.  Every theorem holds for every list of answers, so for every error and every crash.
\<close>

section \<open>The state of the run directory\<close>

text \<open>A path below the run directory, as its components.\<close>

type_synonym path = "string list"

definition kRunSpecFilename :: path where "kRunSpecFilename = [''run_spec.bin'']"
definition kManifestDirectory :: path where "kManifestDirectory = [''manifests'']"
definition kBlockDirectory :: path where "kBlockDirectory = [''block_results'']"
definition kTemporaryDirectory :: path where "kTemporaryDirectory = [''tmp'']"
definition kLockFilename :: path where "kLockFilename = [''.run.lock'']"

lemmas directory_defs =
  kRunSpecFilename_def kManifestDirectory_def kBlockDirectory_def kTemporaryDirectory_def kLockFilename_def

datatype os_answer =
    Success
  | Failure string      \<comment> \<open>the call fails with this \<^verbatim>\<open>strerror\<close> text\<close>
  | Retry               \<comment> \<open>\<^verbatim>\<open>EINTR\<close>\<close>
  | Short nat           \<comment> \<open>a transfer or a directory scan ends after so many bytes or entries\<close>
  | Space u64           \<comment> \<open>the free space reported\<close>
  | Kill                \<comment> \<open>the process ends at this call\<close>

text \<open>The regular files below the run directory in directory order; the files whose contents and the
  entries that would not survive a loss of power; the answers to come; the state the process keeps
  across calls.  \<^verbatim>\<open>w_log\<close> is a history: every file renamed into place so far.\<close>

record world =
  w_root :: string
  w_files :: "(path \<times> bytes) list"
  w_volatile :: "path list"
  w_unsynced :: "path list"
  w_log :: "(path \<times> bytes) list"
  w_answers :: "os_answer list"
  w_pid :: u64
  w_nonce :: u64
  w_injector :: failure_injector

definition path_text :: "world \<Rightarrow> path \<Rightarrow> string" where
  "path_text w p = w_root w @ concat (map (\<lambda>part. ''/'' @ part) p)"

abbreviation file_at :: "world \<Rightarrow> path \<Rightarrow> bytes option" where
  "file_at w p \<equiv> map_of (w_files w) p"

definition put_file :: "path \<Rightarrow> bytes \<Rightarrow> world \<Rightarrow> world" where
  "put_file p bs w = w\<lparr>w_files := filter (\<lambda>f. fst f \<noteq> p) (w_files w) @ [(p, bs)]\<rparr>"

definition drop_file :: "path \<Rightarrow> world \<Rightarrow> world" where
  "drop_file p w = w\<lparr>w_files := filter (\<lambda>f. fst f \<noteq> p) (w_files w)\<rparr>"

lemma map_of_filter_fst: "map_of (filter (\<lambda>f. fst f \<noteq> p) fs) q = (if q = p then None else map_of fs q)"
  by (induction fs) auto

section \<open>Programs with effects\<close>

datatype 'a outcome = Returned 'a | Raised exn | Killed

type_synonym 'a io = "world \<Rightarrow> 'a outcome \<times> world"

definition io_return :: "'a \<Rightarrow> 'a io" where "io_return x w = (Returned x, w)"

definition io_raise :: "exn \<Rightarrow> 'a io" where "io_raise e w = (Raised e, w)"

definition io_bind :: "'a io \<Rightarrow> ('a \<Rightarrow> 'b io) \<Rightarrow> 'b io" where
  "io_bind m f w = (case m w of
      (Returned x, w') \<Rightarrow> f x w'
    | (Raised e, w') \<Rightarrow> (Raised e, w')
    | (Killed, w') \<Rightarrow> (Killed, w'))"

definition io_result :: "'a result \<Rightarrow> 'a io" where
  "io_result r = (case r of Inl e \<Rightarrow> io_raise e | Inr x \<Rightarrow> io_return x)"

definition io_update :: "(world \<Rightarrow> world) \<Rightarrow> unit io" where "io_update f w = (Returned (), f w)"

definition io_gets :: "(world \<Rightarrow> 'a) \<Rightarrow> 'a io" where "io_gets f w = (Returned (f w), w)"

text \<open>\<^verbatim>\<open>try { body } catch (...) { cleanup; throw; }\<close>.\<close>

definition io_cleanup :: "'a io \<Rightarrow> unit io \<Rightarrow> 'a io" where
  "io_cleanup body cleanup w = (case body w of
      (Raised e, w') \<Rightarrow> (case cleanup w' of (Killed, w'') \<Rightarrow> (Killed, w'') | (_, w'') \<Rightarrow> (Raised e, w''))
    | r \<Rightarrow> r)"

text \<open>\<^verbatim>\<open>try { body } catch (const std::exception& e) { handler }\<close>.\<close>

definition io_catch :: "'a io \<Rightarrow> (exn \<Rightarrow> 'a io) \<Rightarrow> 'a io" where
  "io_catch body handler w = (case body w of (Raised e, w') \<Rightarrow> handler e w' | r \<Rightarrow> r)"

fun io_fold :: "('a \<Rightarrow> 's \<Rightarrow> 's io) \<Rightarrow> 'a list \<Rightarrow> 's \<Rightarrow> 's io" where
  "io_fold f [] s = io_return s"
| "io_fold f (x # xs) s = io_bind (f x s) (io_fold f xs)"

definition next_answer :: "world \<Rightarrow> os_answer \<times> world" where
  "next_answer w = (case w_answers w of [] \<Rightarrow> (Success, w) | a # rest \<Rightarrow> (a, w\<lparr>w_answers := rest\<rparr>))"

text \<open>A call that takes effect or throws \<^verbatim>\<open>system_error(operation, path)\<close>.\<close>

definition os_call :: "string \<Rightarrow> path \<Rightarrow> (world \<Rightarrow> world) \<Rightarrow> unit io" where
  "os_call operation p effect w =
     (case next_answer w of
        (Kill, w') \<Rightarrow> (Killed, w')
      | (Failure msg, w') \<Rightarrow> (Raised (Runtime_error (operation @ '' '' @ path_text w p @ '': '' @ msg)), w')
      | (_, w') \<Rightarrow> (Returned (), effect w'))"

text \<open>A call whose failure is a value for the caller.\<close>

definition os_try :: "(world \<Rightarrow> world) \<Rightarrow> string option io" where
  "os_try effect w =
     (case next_answer w of
        (Kill, w') \<Rightarrow> (Killed, w')
      | (Failure msg, w') \<Rightarrow> (Returned (Some msg), w')
      | (_, w') \<Rightarrow> (Returned None, effect w'))"

section \<open>Reading\<close>

datatype size_limit_kind = Schema | OperatorPolicy
datatype durable_artifact_kind = Metadata | BlockResult | Manifest

record durable_write_context =
  dw_kind :: durable_artifact_kind
  dw_failure :: failure_context

definition no_failure_context :: failure_context where
  "no_failure_context = \<lparr>fc_run_incarnation = kNoFailureContext, fc_block_id = kNoFailureContext,
     fc_checkpoint_sequence = kNoFailureContext\<rparr>"

text \<open>Filling the buffer from the stream: a short read, or one that meets more bytes than the size
  said, is an invalid artifact.\<close>

definition read_stream :: "string \<Rightarrow> bytes \<Rightarrow> bytes io" where
  "read_stream name bs w =
     (let short = Raised (Invalid_durable_artifact (''short or changing durable file read: '' @ name))
      in case next_answer w of
           (Kill, w') \<Rightarrow> (Killed, w')
         | (Failure msg, w') \<Rightarrow> (short, w')
         | (Short n, w') \<Rightarrow> (if n < length bs then short else Returned bs, w')
         | (_, w') \<Rightarrow> (Returned bs, w'))"

definition read_file :: "path \<Rightarrow> u64 \<Rightarrow> size_limit_kind \<Rightarrow> bytes io" where
  "read_file p maximum_size kind =
     io_bind (os_try id) (\<lambda>stat_error.
     io_bind (io_gets (\<lambda>w. (file_at w p, path_text w p))) (\<lambda>(content, name).
     case stat_error of
       Some msg \<Rightarrow> io_raise (Runtime_error (''cannot stat durable file '' @ name @ '': '' @ msg))
     | None \<Rightarrow> (case content of
         None \<Rightarrow> io_raise (Invalid_durable_artifact (''durable file is missing: '' @ name))
       | Some bs \<Rightarrow>
           if unat maximum_size < length bs
           then io_raise (if kind = OperatorPolicy
                  then Length_error (''durable file exceeds the operator-supplied size limit: '' @ name)
                  else Invalid_durable_artifact (''durable file exceeds its storage-schema size limit: '' @ name))
           else io_bind (os_try id) (\<lambda>open_error.
             if open_error \<noteq> None
             then io_raise (Runtime_error (''cannot open durable file for reading: '' @ name))
             else read_stream name bs))))"

text \<open>A call of the file-system library that throws \<^verbatim>\<open>std::filesystem::filesystem_error\<close>.\<close>

definition fs_call :: "(world \<Rightarrow> 'a) \<Rightarrow> 'a io" where
  "fs_call answer =
     io_bind (os_try id) (\<lambda>failed. case failed of
       Some msg \<Rightarrow> io_raise (Runtime_error (''filesystem error: '' @ msg))
     | None \<Rightarrow> io_gets answer)"

definition available_space :: "u64 io" where
  "available_space w =
     (case next_answer w of
        (Kill, w') \<Rightarrow> (Killed, w')
      | (Failure msg, w') \<Rightarrow> (Raised (Runtime_error (''filesystem error: '' @ msg)), w')
      | (Space n, w') \<Rightarrow> (Returned n, w')
      | (_, w') \<Rightarrow> (Returned u64_max, w'))"

text \<open>A scan of a directory.  An error while the iterator is constructed or advanced leaves the end
  iterator, so the scan ends early and the loop never looks at the error code.\<close>

definition list_directory :: "path \<Rightarrow> path list io" where
  "list_directory d w =
     (let entries = filter (\<lambda>p. butlast p = d) (map fst (w_files w))
      in case next_answer w of
        (Kill, w') \<Rightarrow> (Killed, w')
      | (Failure msg, w') \<Rightarrow> (Returned [], w')
      | (Short n, w') \<Rightarrow> (Returned (take n entries), w')
      | (_, w') \<Rightarrow> (Returned entries, w'))"

section \<open>The storage policy\<close>

definition checked_add :: "u64 \<Rightarrow> u64 \<Rightarrow> string \<Rightarrow> u64 result" where
  "checked_add left right label =
     (if u64_max - right < left then Inl (Length_error (label @ '' estimate overflow'')) else Inr (left + right))"

definition checked_multiply :: "u64 \<Rightarrow> u64 \<Rightarrow> string \<Rightarrow> u64 result" where
  "checked_multiply left right label =
     (if left \<noteq> 0 \<and> u64_max div left < right then Inl (Length_error (label @ '' estimate overflow''))
      else Inr (left * right))"

definition kMinimumAutomaticCheckpointBlocks :: u64 where "kMinimumAutomaticCheckpointBlocks = 1024"
definition kMaximumAutomaticPeriodicManifests :: u64 where "kMaximumAutomaticPeriodicManifests = 1024"

definition resolve_checkpoint_cadence :: "run_store_config \<Rightarrow> u64 \<Rightarrow> run_store_config" where
  "resolve_checkpoint_cadence requested n =
     (if rsc_checkpoint_interval_blocks requested \<noteq> 0 then requested
      else requested\<lparr>rsc_checkpoint_interval_blocks :=
        max kMinimumAutomaticCheckpointBlocks (1 + (n - 1) div kMaximumAutomaticPeriodicManifests)\<rparr>)"

text \<open>The part of \<^verbatim>\<open>preflight_run_completion\<close> before the free space is asked for; the value is the
  free space required.\<close>

definition completion_estimate ::
  "run_store_config \<Rightarrow> u64 \<Rightarrow> u64 \<Rightarrow> u64 \<Rightarrow> u64 \<Rightarrow> u64 \<Rightarrow> u64 \<Rightarrow> u64 \<Rightarrow> u64 result" where
  "completion_estimate config current_bytes current_files n missing_blocks additional_manifests fixed_bytes fixed_files =
     rbind (checked_multiply n 64 ''manifest size'') (\<lambda>entries.
     rbind (checked_add 512 entries ''manifest size'') (\<lambda>maximum_manifest.
     if rsc_max_manifest_bytes config < maximum_manifest
     then Inl (Length_error ''the complete full-snapshot manifest would exceed max_manifest_bytes'')
     else
       rbind (checked_multiply missing_blocks 512 ''block-result storage'') (\<lambda>blocks.
       rbind (checked_multiply additional_manifests maximum_manifest ''manifest storage'') (\<lambda>manifests.
       rbind (checked_add blocks manifests ''durable completion storage'') (\<lambda>additional.
       rbind (checked_add additional fixed_bytes ''durable completion storage'') (\<lambda>additional_bytes.
       rbind (checked_add missing_blocks additional_manifests ''durable completion file count'') (\<lambda>counted.
       rbind (checked_add counted fixed_files ''durable completion file count'') (\<lambda>additional_files.
       if rsc_max_storage_bytes config < current_bytes \<or>
          rsc_max_storage_bytes config - current_bytes < additional_bytes
       then Inl (Length_error ''estimated durable completion size exceeds max_storage_bytes'')
       else if rsc_max_storage_files config < current_files \<or>
          rsc_max_storage_files config - current_files < additional_files
       then Inl (Length_error ''estimated durable completion file count exceeds max_storage_files'')
       else Inr additional_bytes))))))))"

definition preflight_run_completion ::
  "run_store_config \<Rightarrow> u64 \<Rightarrow> u64 \<Rightarrow> u64 \<Rightarrow> u64 \<Rightarrow> u64 \<Rightarrow> u64 \<Rightarrow> u64 \<Rightarrow> unit io" where
  "preflight_run_completion config current_bytes current_files n missing_blocks additional_manifests fixed_bytes fixed_files =
     io_bind (io_result (completion_estimate config current_bytes current_files n missing_blocks
       additional_manifests fixed_bytes fixed_files)) (\<lambda>additional_bytes.
     io_bind available_space (\<lambda>available.
     io_bind (io_result (checked_add additional_bytes (rsc_min_free_space_bytes config)
       ''durable completion free-space'')) (\<lambda>required.
     io_result (throw_if (available < required)
       (Length_error ''estimated durable completion size exceeds available free space policy'')))))"

definition preflight_write :: "run_store_config \<Rightarrow> u64 \<Rightarrow> u64 \<Rightarrow> nat \<Rightarrow> unit io" where
  "preflight_write config current_bytes current_files next_bytes =
     (if unat u64_max < next_bytes then io_raise (Runtime_error ''durable write size exceeds host limits'')
      else
        (let next = of_nat next_bytes
         in if rsc_max_storage_bytes config < next \<or> rsc_max_storage_bytes config - next < current_bytes
            then io_raise (Runtime_error ''durable write would exceed max_storage_bytes'')
            else if rsc_max_storage_files config \<le> current_files
            then io_raise (Runtime_error ''durable write would exceed max_storage_files'')
            else io_bind available_space (\<lambda>available.
              (let required = next + rsc_min_free_space_bytes config
               in io_result (throw_if (required < rsc_min_free_space_bytes config \<or> available < required)
                    (Runtime_error ''durable write would violate min_free_space_bytes''))))))"

section \<open>Atomic installation\<close>

definition append_file :: "path \<Rightarrow> bytes \<Rightarrow> world \<Rightarrow> world" where
  "append_file p bs w =
     (put_file p (case file_at w p of None \<Rightarrow> bs | Some old \<Rightarrow> old @ bs) w)\<lparr>w_volatile := List.insert p (w_volatile w)\<rparr>"

text \<open>\<^verbatim>\<open>::open(path, O_WRONLY | O_CREAT | O_EXCL)\<close>.\<close>

definition create_exclusive :: "path \<Rightarrow> unit io" where
  "create_exclusive p w =
     (if file_at w p \<noteq> None
      then (Raised (Runtime_error (''cannot create durable temporary file '' @ path_text w p @ '': File exists'')), w)
      else os_call ''cannot create durable temporary file'' p (append_file p []) w)"

text \<open>The loop of \<^verbatim>\<open>write_all\<close>; a single \<^verbatim>\<open>write\<close> transfers at most \<^verbatim>\<open>SSIZE_MAX\<close> bytes.\<close>

definition write_chunk :: "bytes \<Rightarrow> nat" where
  "write_chunk bs = min (length bs) 0x7FFFFFFFFFFFFFFF"

lemma write_chunk_shrinks: "bs \<noteq> [] \<Longrightarrow> length bs - write_chunk bs < length bs"
  by (simp add: write_chunk_def)

lemma answers_after:
  "next_answer w = (a, w') \<Longrightarrow> length (w_answers w') \<le> length (w_answers w) \<and>
     (a \<noteq> Success \<longrightarrow> length (w_answers w') < length (w_answers w))"
  by (auto simp: next_answer_def split: list.splits)

lemma answers_append [simp]: "w_answers (append_file p bs w) = w_answers w"
  by (simp add: append_file_def put_file_def)

function write_all :: "path \<Rightarrow> bytes \<Rightarrow> unit io" where
  "write_all p bs w =
     (if bs = [] then (Returned (), w)
      else case next_answer w of
        (Kill, w') \<Rightarrow> (Killed, w')
      | (Failure msg, w') \<Rightarrow>
          (Raised (Runtime_error (''cannot write durable temporary file '' @ path_text w p @ '': '' @ msg)), w')
      | (Retry, w') \<Rightarrow> write_all p bs w'
      | (Short n, w') \<Rightarrow>
          if n = 0 then (Raised (Runtime_error (''zero-length durable write: '' @ path_text w p)), w')
          else write_all p (drop (min n (write_chunk bs)) bs) (append_file p (take (min n (write_chunk bs)) bs) w')
      | (_, w') \<Rightarrow> write_all p (drop (write_chunk bs) bs) (append_file p (take (write_chunk bs) bs) w'))"
  by pat_completeness auto
termination
proof (relation "measure (\<lambda>(p, bs, w). length (w_answers w) + length bs)")
qed (auto dest!: sym [of _ "next_answer _"] answers_after intro: add_le_less_mono write_chunk_shrinks)

declare write_all.simps [simp del]

definition sync_directory :: "path \<Rightarrow> unit io" where
  "sync_directory d =
     io_bind (os_call ''cannot open directory for fsync'' d id) (\<lambda>_.
     io_bind (os_call ''cannot fsync directory'' d (\<lambda>w. w\<lparr>w_unsynced := filter (\<lambda>p. butlast p \<noteq> d) (w_unsynced w)\<rparr>)) (\<lambda>_.
     os_call ''cannot close directory'' d id))"

definition rename_file :: "path \<Rightarrow> path \<Rightarrow> world \<Rightarrow> world" where
  "rename_file src dst w =
     (case file_at w src of
        None \<Rightarrow> w
      | Some bs \<Rightarrow>
          (put_file dst bs (drop_file src w))\<lparr>
            w_volatile := (if src \<in> set (w_volatile w) then List.insert dst else removeAll dst) (removeAll src (w_volatile w)),
            w_unsynced := List.insert dst (w_unsynced w),
            w_log := w_log w @ [(dst, bs)]\<rparr>)"

text \<open>\<^verbatim>\<open>hit_write_failure\<close>.  At the selected hit the descriptor is written and the process ends; if
  the descriptor cannot be written, that error is thrown.\<close>

definition io_hit :: "failure_point \<Rightarrow> failure_context \<Rightarrow> unit io" where
  "io_hit point ctx w =
     (case injector_hit point ctx (w_injector w) of (fj, died) \<Rightarrow>
        if died
        then (case next_answer (w\<lparr>w_injector := fj\<rparr>) of
                (Failure msg, w') \<Rightarrow> (Raised (Runtime_error msg), w')
              | (_, w') \<Rightarrow> (Killed, w'))
        else (Returned (), w\<lparr>w_injector := fj\<rparr>))"

definition hit_write_failure :: "durable_write_context \<Rightarrow> failure_point \<Rightarrow> failure_point \<Rightarrow> unit io" where
  "hit_write_failure ctx result_point manifest_point =
     (case dw_kind ctx of
        Metadata \<Rightarrow> io_return ()
      | BlockResult \<Rightarrow> io_hit result_point (dw_failure ctx)
      | Manifest \<Rightarrow> io_hit manifest_point (dw_failure ctx))"

definition temporary_path :: "path \<Rightarrow> u64 \<Rightarrow> u64 \<Rightarrow> path" where
  "temporary_path final pid nonce =
     kTemporaryDirectory @ [last final @ ''.tmp.'' @ decimal (unat pid) @ ''.'' @ decimal (unat nonce)]"

text \<open>The body of the \<^verbatim>\<open>try\<close> block.\<close>

definition install_steps :: "path \<Rightarrow> path \<Rightarrow> bytes \<Rightarrow> durable_write_context \<Rightarrow> unit io" where
  "install_steps tmp final bs ctx =
     io_bind (write_all tmp bs) (\<lambda>_.
     io_bind (hit_write_failure ctx ResultBeforeFileFsync ManifestBeforeFileFsync) (\<lambda>_.
     io_bind (os_call ''cannot fsync durable temporary file'' tmp
       (\<lambda>w. w\<lparr>w_volatile := removeAll tmp (w_volatile w)\<rparr>)) (\<lambda>_.
     io_bind (hit_write_failure ctx ResultAfterFileFsync ManifestAfterFileFsync) (\<lambda>_.
     io_bind (os_call ''cannot close durable temporary file'' tmp id) (\<lambda>_.
     io_bind (hit_write_failure ctx ResultBeforeRename ManifestBeforeRename) (\<lambda>_.
     io_bind (os_call ''cannot atomically install durable file'' final (rename_file tmp final)) (\<lambda>_.
     io_bind (hit_write_failure ctx ResultAfterRename ManifestAfterRename) (\<lambda>_.
     io_bind (sync_directory (butlast final)) (\<lambda>_.
     if butlast final \<noteq> kTemporaryDirectory then sync_directory kTemporaryDirectory else io_return ())))))))))"

text \<open>The two halves of \<^verbatim>\<open>atomic_write\<close>: a destination that exists must already hold the bytes, and a
  new one is installed through a temporary file, which is removed when a step throws.\<close>

definition check_existing :: "path \<Rightarrow> bytes \<Rightarrow> unit io" where
  "check_existing final bs =
     io_bind (read_file final (of_nat (length bs) + 1) Schema) (\<lambda>existing.
     if existing = bs then io_return ()
     else io_bind (io_gets (\<lambda>w. path_text w final)) (\<lambda>name.
       io_raise (Runtime_error (''immutable durable file already exists with different bytes: '' @ name))))"

definition install_new :: "path \<Rightarrow> bytes \<Rightarrow> durable_write_context \<Rightarrow> unit io" where
  "install_new final bs ctx =
     io_bind (io_gets (\<lambda>w. temporary_path final (w_pid w) (w_nonce w))) (\<lambda>tmp.
     io_bind (io_update (\<lambda>w. w\<lparr>w_nonce := w_nonce w + 1\<rparr>)) (\<lambda>_.
     io_bind (create_exclusive tmp) (\<lambda>_.
     io_cleanup (install_steps tmp final bs ctx)
       (io_bind (os_try (drop_file tmp)) (\<lambda>_. io_return ())))))"

text \<open>The storage counters are passed in and returned.\<close>

definition atomic_write ::
  "run_store_config \<Rightarrow> path \<Rightarrow> bytes \<Rightarrow> u64 \<times> u64 \<Rightarrow> durable_write_context \<Rightarrow> (u64 \<times> u64) io" where
  "atomic_write config final bs = (\<lambda>(current_bytes, current_files) ctx.
     io_bind (fs_call (\<lambda>w. file_at w final \<noteq> None)) (\<lambda>present.
     if present
     then io_bind (check_existing final bs) (\<lambda>_. io_return (current_bytes, current_files))
     else
       io_bind (preflight_write config current_bytes current_files (length bs)) (\<lambda>_.
       io_bind (install_new final bs ctx) (\<lambda>_.
         io_return (current_bytes + of_nat (length bs), current_files + 1)))))"

section \<open>Reasoning about programs with effects\<close>

text \<open>From every state satisfying \<open>P\<close>, a normal return satisfies \<open>Q\<close> and an exception or a crash
  satisfies \<open>R\<close>.\<close>

definition io_spec :: "(world \<Rightarrow> bool) \<Rightarrow> 'a io \<Rightarrow> ('a \<Rightarrow> world \<Rightarrow> bool) \<Rightarrow> (world \<Rightarrow> bool) \<Rightarrow> bool" where
  "io_spec P m Q R \<longleftrightarrow>
     (\<forall>w. P w \<longrightarrow> (case m w of (Returned x, w') \<Rightarrow> Q x w' | (Raised e, w') \<Rightarrow> R w' | (Killed, w') \<Rightarrow> R w'))"

named_theorems io_rules \<open>programs that stay within what installation may change\<close>

lemma io_specI: "(\<And>w. P w \<Longrightarrow> case m w of (Returned x, w') \<Rightarrow> Q x w' | (Raised e, w') \<Rightarrow> R w' | (Killed, w') \<Rightarrow> R w') \<Longrightarrow> io_spec P m Q R"
  by (simp add: io_spec_def)

lemma io_specD:
  assumes "io_spec P m Q R" "P w"
  shows "m w = (Returned x, w') \<Longrightarrow> Q x w'" "m w = (Raised e, w') \<Longrightarrow> R w'" "m w = (Killed, w') \<Longrightarrow> R w'"
proof -
  have "case m w of (Returned x, w') \<Rightarrow> Q x w' | (Raised e, w') \<Rightarrow> R w' | (Killed, w') \<Rightarrow> R w'"
    using assms by (simp add: io_spec_def)
  then show "m w = (Returned x, w') \<Longrightarrow> Q x w'" "m w = (Raised e, w') \<Longrightarrow> R w'" "m w = (Killed, w') \<Longrightarrow> R w'" by auto
qed

lemma io_spec_snd:
  assumes "io_spec I m (\<lambda>_. I) I" "I w"
  shows "I (snd (m w))"
proof -
  have "case m w of (Returned x, w') \<Rightarrow> I w' | (Raised e, w') \<Rightarrow> I w' | (Killed, w') \<Rightarrow> I w'"
    using assms by (simp add: io_spec_def)
  then show ?thesis by (simp split: prod.splits outcome.splits)
qed

lemma io_spec_post:
  "io_spec P m Q R \<Longrightarrow> (\<And>w. P' w \<Longrightarrow> P w) \<Longrightarrow> (\<And>x w. Q x w \<Longrightarrow> Q' x w) \<Longrightarrow> (\<And>w. R w \<Longrightarrow> R' w) \<Longrightarrow> io_spec P' m Q' R'"
  unfolding io_spec_def by (fastforce split: prod.splits outcome.splits)

lemma io_spec_Returned:
  assumes "io_spec P m Q R" "\<And>w x w'. P w \<Longrightarrow> m w = (Returned x, w') \<Longrightarrow> Q x w' \<Longrightarrow> Q' x w'"
  shows "io_spec P m Q' R"
proof (rule io_specI)
  fix w assume "P w"
  then have "case m w of (Returned x, w') \<Rightarrow> Q x w' | (Raised e, w') \<Rightarrow> R w' | (Killed, w') \<Rightarrow> R w'"
    using assms(1) by (simp add: io_spec_def)
  then show "case m w of (Returned x, w') \<Rightarrow> Q' x w' | (Raised e, w') \<Rightarrow> R w' | (Killed, w') \<Rightarrow> R w'"
    using assms(2) [OF \<open>P w\<close>] by (auto split: prod.splits outcome.splits)
qed

lemma io_spec_bind:
  "io_spec P m Q R \<Longrightarrow> (\<And>x. io_spec (Q x) (f x) Q' R) \<Longrightarrow> io_spec P (io_bind m f) Q' R"
  unfolding io_spec_def io_bind_def by (fastforce split: prod.splits outcome.splits)

lemma io_spec_return: "(\<And>w. P w \<Longrightarrow> Q x w) \<Longrightarrow> io_spec P (io_return x) Q R"
  by (simp add: io_spec_def io_return_def)

lemma io_spec_raise: "(\<And>w. P w \<Longrightarrow> R w) \<Longrightarrow> io_spec P (io_raise e) Q R"
  by (simp add: io_spec_def io_raise_def)

lemma io_spec_result:
  "(\<And>w x. P w \<Longrightarrow> r = Inr x \<Longrightarrow> Q x w) \<Longrightarrow> (\<And>w. P w \<Longrightarrow> R w) \<Longrightarrow> io_spec P (io_result r) Q R"
  by (cases r) (auto simp: io_result_def intro: io_spec_return io_spec_raise)

lemma io_spec_gets: "(\<And>w. P w \<Longrightarrow> Q (f w) w) \<Longrightarrow> io_spec P (io_gets f) Q R"
  by (simp add: io_spec_def io_gets_def)

lemma io_spec_update: "(\<And>w. P w \<Longrightarrow> Q () (f w)) \<Longrightarrow> io_spec P (io_update f) Q R"
  by (simp add: io_spec_def io_update_def)

lemma io_spec_catch:
  "io_spec P m Q R \<Longrightarrow> (\<And>e. io_spec R (h e) Q R) \<Longrightarrow> io_spec P (io_catch m h) Q R"
  unfolding io_spec_def io_catch_def by (fastforce split: prod.splits outcome.splits)

lemma io_spec_cleanup:
  assumes "io_spec P m Q R" "io_spec R c (\<lambda>_. R) R"
  shows "io_spec P (io_cleanup m c) Q R"
proof (rule io_specI)
  fix w assume "P w"
  note body = io_specD [OF assms(1) this]
  note final = io_spec_snd [OF assms(2)]
  show "case io_cleanup m c w of (Returned x, w') \<Rightarrow> Q x w' | (Raised e, w') \<Rightarrow> R w' | (Killed, w') \<Rightarrow> R w'"
  proof (cases "m w")
    case (Pair r w')
    show ?thesis
    proof (cases r)
      case (Raised e)
      have "R (snd (c w'))" using final body(2) Pair Raised by blast
      then show ?thesis
        by (cases "c w'"; cases "fst (c w')") (auto simp: io_cleanup_def Pair Raised)
    qed (use body Pair in \<open>simp_all add: io_cleanup_def\<close>)
  qed
qed

lemma io_spec_fold:
  assumes "\<And>x s. x \<in> set xs \<Longrightarrow> io_spec (I s) (f x s) I R"
  shows "io_spec (I s) (io_fold f xs s) I R"
  using assms
proof (induction xs arbitrary: s)
  case (Cons x xs)
  have "io_spec (I s) (f x s) I R" using Cons.prems by simp
  moreover have "io_spec (I t) (io_fold f xs t) I R" for t using Cons by simp
  ultimately show ?case by (simp add: io_spec_bind)
qed (simp add: io_spec_return)

text \<open>Assertions that consuming answers does not affect.\<close>

definition answer_free :: "(world \<Rightarrow> bool) \<Rightarrow> bool" where
  "answer_free P \<longleftrightarrow> (\<forall>w a. P w \<longrightarrow> P (w\<lparr>w_answers := a\<rparr>))"

lemma answer_free_next: "answer_free P \<Longrightarrow> P w \<Longrightarrow> next_answer w = (a, w') \<Longrightarrow> P w'"
  by (auto simp: answer_free_def next_answer_def split: list.splits)

lemma io_spec_os_call:
  assumes "answer_free P" "\<And>w. P w \<Longrightarrow> Q () (effect w)" "\<And>w. P w \<Longrightarrow> R w"
  shows "io_spec P (os_call op p effect) Q R"
  using assms answer_free_next [OF assms(1)]
  by (intro io_specI) (fastforce simp: os_call_def split: prod.splits os_answer.splits)

lemma io_spec_os_try:
  assumes "answer_free P" "\<And>w. P w \<Longrightarrow> Q None (effect w)" "\<And>w m. P w \<Longrightarrow> Q (Some m) w" "\<And>w. P w \<Longrightarrow> R w"
  shows "io_spec P (os_try effect) Q R"
  using assms answer_free_next [OF assms(1)]
  by (intro io_specI) (fastforce simp: os_try_def split: prod.splits os_answer.splits)

section \<open>What installation may change\<close>

text \<open>Every path but the private temporary files and the lock.\<close>

definition final_path :: "path \<Rightarrow> bool" where
  "final_path p \<longleftrightarrow> butlast p \<noteq> kTemporaryDirectory \<and> p \<noteq> kLockFilename"

text \<open>The specification of the layer: between two states only complete files \<open>(p, bs)\<close> with \<open>ok p bs\<close>
  appeared, each by one renaming and with its contents on the device, a file that was there kept its
  bytes unless \<open>rm\<close> allows removing it, and nothing else changed.\<close>

definition evolves :: "(path \<Rightarrow> bytes \<Rightarrow> bool) \<Rightarrow> (path \<Rightarrow> bool) \<Rightarrow> world \<Rightarrow> world \<Rightarrow> bool" where
  "evolves ok rm w w' \<longleftrightarrow>
     (\<exists>new. w_log w' = w_log w @ new \<and>
        (\<forall>(p, bs) \<in> set new. final_path p \<and> ok p bs) \<and>
        (\<forall>p bs. final_path p \<longrightarrow> file_at w' p = Some bs \<longrightarrow> file_at w p = Some bs \<or> (p, bs) \<in> set new)) \<and>
     (\<forall>p bs. final_path p \<longrightarrow> \<not> rm p \<longrightarrow> file_at w p = Some bs \<longrightarrow> file_at w' p = Some bs) \<and>
     (\<forall>p. final_path p \<longrightarrow> p \<in> set (w_volatile w') \<longrightarrow> p \<in> set (w_volatile w))"

lemma evolves_refl [intro, simp]: "evolves ok rm w w"
  by (simp add: evolves_def)

lemma evolves_trans [trans]:
  assumes "evolves ok rm w w'" "evolves ok rm w' w''"
  shows "evolves ok rm w w''"
proof -
  obtain new where n: "w_log w' = w_log w @ new" "\<forall>(p, bs) \<in> set new. final_path p \<and> ok p bs"
    "\<And>p bs. final_path p \<Longrightarrow> file_at w' p = Some bs \<Longrightarrow> file_at w p = Some bs \<or> (p, bs) \<in> set new"
    using assms(1) unfolding evolves_def by blast
  obtain new' where n': "w_log w'' = w_log w' @ new'" "\<forall>(p, bs) \<in> set new'. final_path p \<and> ok p bs"
    "\<And>p bs. final_path p \<Longrightarrow> file_at w'' p = Some bs \<Longrightarrow> file_at w' p = Some bs \<or> (p, bs) \<in> set new'"
    using assms(2) unfolding evolves_def by blast
  have "w_log w'' = w_log w @ (new @ new')" "\<forall>(p, bs) \<in> set (new @ new'). final_path p \<and> ok p bs"
    "\<forall>p bs. final_path p \<longrightarrow> file_at w'' p = Some bs \<longrightarrow> file_at w p = Some bs \<or> (p, bs) \<in> set (new @ new')"
    using n n' by (auto, blast)
  moreover have "\<forall>p bs. final_path p \<longrightarrow> \<not> rm p \<longrightarrow> file_at w p = Some bs \<longrightarrow> file_at w'' p = Some bs"
    "\<forall>p. final_path p \<longrightarrow> p \<in> set (w_volatile w'') \<longrightarrow> p \<in> set (w_volatile w)"
    using assms unfolding evolves_def by blast+
  ultimately show ?thesis unfolding evolves_def by blast
qed

lemma evolves_weaken:
  assumes "evolves ok rm w w'" "\<And>p bs. ok p bs \<Longrightarrow> ok' p bs" "\<And>p. rm p \<Longrightarrow> rm' p"
  shows "evolves ok' rm' w w'"
proof -
  obtain new where n: "w_log w' = w_log w @ new" "\<forall>(p, bs) \<in> set new. final_path p \<and> ok p bs"
    "\<forall>p bs. final_path p \<longrightarrow> file_at w' p = Some bs \<longrightarrow> file_at w p = Some bs \<or> (p, bs) \<in> set new"
    using assms(1) unfolding evolves_def by blast
  have "\<forall>(p, bs) \<in> set new. final_path p \<and> ok' p bs" using n(2) assms(2) by auto
  then show ?thesis using assms(1,3) n unfolding evolves_def by blast
qed

lemma file_at_put [simp]: "map_of (w_files (put_file p bs w)) q = (if q = p then Some bs else file_at w q)"
  by (simp add: put_file_def map_add_def map_of_filter_fst split: option.splits)

lemma file_at_drop [simp]: "map_of (w_files (drop_file p w)) q = (if q = p then None else file_at w q)"
  by (simp add: drop_file_def map_of_filter_fst)

lemma evolves_private:
  assumes "evolves ok rm w0 w" "w_log w' = w_log w" "\<And>p. final_path p \<Longrightarrow> file_at w' p = file_at w p"
    "\<And>p. final_path p \<Longrightarrow> p \<in> set (w_volatile w') \<Longrightarrow> p \<in> set (w_volatile w)"
  shows "evolves ok rm w0 w'"
  using assms(1) by (rule evolves_trans) (use assms(2-) in \<open>auto simp: evolves_def\<close>)

lemma evolves_update [simp]:
  "evolves ok rm w0 (w\<lparr>w_answers := a\<rparr>) = evolves ok rm w0 w"
  "evolves ok rm w0 (w\<lparr>w_nonce := n\<rparr>) = evolves ok rm w0 w"
  "evolves ok rm w0 (w\<lparr>w_injector := j\<rparr>) = evolves ok rm w0 w"
  "evolves ok rm w0 (w\<lparr>w_unsynced := u\<rparr>) = evolves ok rm w0 w"
  by (simp_all add: evolves_def)

definition io_within :: "(path \<Rightarrow> bytes \<Rightarrow> bool) \<Rightarrow> (path \<Rightarrow> bool) \<Rightarrow> 'a io \<Rightarrow> bool" where
  "io_within ok rm m \<longleftrightarrow> (\<forall>w. evolves ok rm w (snd (m w)))"

lemma io_withinD: "io_within ok rm m \<Longrightarrow> m w = (r, w') \<Longrightarrow> evolves ok rm w w'"
  unfolding io_within_def by (metis snd_conv)

lemma evolves_next: "next_answer w = (a, w') \<Longrightarrow> evolves ok rm w0 w' = evolves ok rm w0 w"
  by (auto simp: next_answer_def split: list.splits)

lemma next_answer_within: "next_answer w = (a, w') \<Longrightarrow> evolves ok rm w w'"
  using evolves_next [of w a w' ok rm w] by simp

lemma within_pure [io_rules]:
  "io_within ok rm (io_return x)" "io_within ok rm (io_raise e)" "io_within ok rm (io_gets f)" "io_within ok rm (io_result r)"
  by (auto simp: io_within_def io_return_def io_raise_def io_gets_def io_result_def split: sum.splits)

lemma within_bind [io_rules]:
  assumes "io_within ok rm m" "\<And>x. io_within ok rm (f x)"
  shows "io_within ok rm (io_bind m f)"
  unfolding io_within_def
proof
  fix w
  show "evolves ok rm w (snd (io_bind m f w))"
  proof (cases "m w")
    case (Pair r w')
    then have "evolves ok rm w w'" by (rule io_withinD [OF assms(1)])
    moreover have "evolves ok rm w' (snd (f x w'))" for x using assms(2) by (simp add: io_within_def)
    ultimately show ?thesis
      by (cases r) (auto simp: io_bind_def Pair intro: evolves_trans)
  qed
qed

lemma within_catch [io_rules]:
  assumes "io_within ok rm m" "\<And>e. io_within ok rm (h e)"
  shows "io_within ok rm (io_catch m h)"
  unfolding io_within_def
proof
  fix w
  show "evolves ok rm w (snd (io_catch m h w))"
  proof (cases "m w")
    case (Pair r w')
    then have "evolves ok rm w w'" by (rule io_withinD [OF assms(1)])
    moreover have "evolves ok rm w' (snd (h e w'))" for e using assms(2) by (simp add: io_within_def)
    ultimately show ?thesis
      by (cases r) (auto simp: io_catch_def Pair intro: evolves_trans)
  qed
qed

lemma within_fold [io_rules]: "(\<And>x s. x \<in> set xs \<Longrightarrow> io_within ok rm (f x s)) \<Longrightarrow> io_within ok rm (io_fold f xs s)"
  by (induction xs arbitrary: s) (auto intro!: io_rules)

lemma within_update [io_rules]: "(\<And>w. evolves ok rm w (f w)) \<Longrightarrow> io_within ok rm (io_update f)"
  by (simp add: io_within_def io_update_def)

lemma within_os_call [io_rules]: "(\<And>w. evolves ok rm w (effect w)) \<Longrightarrow> io_within ok rm (os_call op p effect)"
  by (auto simp: io_within_def os_call_def intro: evolves_trans [OF next_answer_within] next_answer_within
      split: prod.splits os_answer.splits)

lemma within_os_try [io_rules]: "(\<And>w. evolves ok rm w (effect w)) \<Longrightarrow> io_within ok rm (os_try effect)"
  by (auto simp: io_within_def os_try_def intro: evolves_trans [OF next_answer_within] next_answer_within
      split: prod.splits os_answer.splits)

lemma within_answer [io_rules]:
  "io_within ok rm available_space" "io_within ok rm (list_directory d)"
  by (auto simp: io_within_def available_space_def list_directory_def Let_def intro: next_answer_within
      split: prod.splits os_answer.splits)

lemma within_read_file [io_rules]: "io_within ok rm (read_file p n kind)"
proof -
  have "io_within ok rm (read_stream name bs)" for name bs
    by (auto simp: io_within_def read_stream_def Let_def intro: next_answer_within split: prod.splits os_answer.splits)
  then show ?thesis
    unfolding read_file_def by (auto intro!: io_rules split: prod.splits option.splits)
qed

lemma within_checks [io_rules]:
  "io_within ok rm (fs_call f)"
  "io_within ok rm (preflight_run_completion config a b c d e g h)"
  "io_within ok rm (preflight_write config a b n)"
  "io_within ok rm (sync_directory dir)"
  unfolding fs_call_def preflight_run_completion_def preflight_write_def sync_directory_def Let_def
  by (auto intro!: io_rules split: option.splits)

lemma within_hit [io_rules]: "io_within ok rm (io_hit point ctx)" "io_within ok rm (hit_write_failure c p q)"
proof -
  show hit: "io_within ok rm (io_hit point ctx)" for point ctx
    by (auto simp: io_within_def io_hit_def evolves_next split: prod.splits os_answer.splits)
  show "io_within ok rm (hit_write_failure c p q)"
    unfolding hit_write_failure_def by (auto intro!: io_rules hit split: durable_artifact_kind.splits)
qed

section \<open>Installation is atomic\<close>

text \<open>The part of the state that is on the file system, and the programs that leave it alone.\<close>

definition disk :: "world \<Rightarrow> (path \<times> bytes) list \<times> path list \<times> path list \<times> (path \<times> bytes) list" where
  "disk w = (w_files w, w_volatile w, w_unsynced w, w_log w)"

lemma disk_eq:
  "disk w = disk w' \<longleftrightarrow> w_files w = w_files w' \<and> w_volatile w = w_volatile w' \<and> w_unsynced w = w_unsynced w' \<and> w_log w = w_log w'"
  by (simp add: disk_def)

definition disk_assertion :: "(world \<Rightarrow> bool) \<Rightarrow> bool" where
  "disk_assertion P \<longleftrightarrow> (\<forall>w w'. disk w = disk w' \<longrightarrow> P w \<longrightarrow> P w')"

lemma disk_assertion_evolves: "disk_assertion (evolves ok rm w0)"
  by (auto simp: disk_assertion_def disk_eq evolves_def)

lemma disk_assertion_basic:
  "disk_assertion (\<lambda>w. Q (w_files w))" "disk_assertion (\<lambda>w. V (w_volatile w))" "disk_assertion (\<lambda>w. U (w_unsynced w))"
  by (simp_all add: disk_assertion_def disk_eq)

lemma disk_assertion_conj: "disk_assertion P \<Longrightarrow> disk_assertion Q \<Longrightarrow> disk_assertion (\<lambda>w. P w \<and> Q w)"
  unfolding disk_assertion_def by blast

lemmas disk_assertions = disk_assertion_conj disk_assertion_evolves disk_assertion_basic

lemma disk_next: "next_answer w = (a, w') \<Longrightarrow> disk w' = disk w"
  by (auto simp: next_answer_def disk_def split: list.splits)

lemma disk_assertion_next: "disk_assertion P \<Longrightarrow> P w \<Longrightarrow> next_answer w = (a, w') \<Longrightarrow> P w'"
  using disk_next unfolding disk_assertion_def by metis

lemma disk_answer_free: "disk_assertion P \<Longrightarrow> answer_free P"
  unfolding disk_assertion_def answer_free_def by (simp add: disk_def)

definition io_quiet :: "'a io \<Rightarrow> bool" where
  "io_quiet m \<longleftrightarrow> (\<forall>w. disk (snd (m w)) = disk w)"

lemma io_spec_quiet: "io_quiet m \<Longrightarrow> disk_assertion P \<Longrightarrow> io_spec P m (\<lambda>_. P) P"
proof (rule io_specI)
  fix w
  assume "io_quiet m" "disk_assertion P" "P w"
  then have "P (snd (m w))" unfolding io_quiet_def disk_assertion_def by metis
  then show "case m w of (Returned x, w') \<Rightarrow> P w' | (Raised e, w') \<Rightarrow> P w' | (Killed, w') \<Rightarrow> P w'"
    by (auto split: prod.splits outcome.splits)
qed

lemma quiet_hit: "io_quiet (hit_write_failure c p q)"
proof -
  have "io_quiet (io_hit p ctx)" for p ctx
    by (auto simp: io_quiet_def io_hit_def disk_def next_answer_def split: prod.splits os_answer.splits list.splits)
  then show ?thesis
    by (auto simp: hit_write_failure_def io_quiet_def io_return_def split: durable_artifact_kind.splits)
qed

lemma file_at_append [simp]:
  "map_of (w_files (append_file p bs w)) q =
     (if q = p then Some (case file_at w p of None \<Rightarrow> bs | Some old \<Rightarrow> old @ bs) else file_at w q)"
  by (simp add: append_file_def)

text \<open>\<^verbatim>\<open>write_all\<close> returns only when the file holds all the bytes, however the writes were split.\<close>

lemma write_all_appends:
  assumes "disk_assertion E" "\<And>w bs. E w \<Longrightarrow> E (append_file p bs w)" "E w" "file_at w p = Some pre"
  shows "case write_all p bs w of (Returned x, w') \<Rightarrow> E w' \<and> file_at w' p = Some (pre @ bs)
      | (Raised e, w') \<Rightarrow> E w' | (Killed, w') \<Rightarrow> E w'"
  using assms(2-)
proof (induction p bs w arbitrary: pre rule: write_all.induct)
  case (1 p bs w)
  obtain a w' where n: "next_answer w = (a, w')" by (cases "next_answer w")
  have E: "E w'" by (rule disk_assertion_next [OF assms(1) 1(6) n])
  have f: "file_at w' p = Some pre" using disk_next [OF n] 1(7) by (simp add: disk_eq)
  have step: "E (append_file p bs' w')" "file_at (append_file p bs' w') p = Some (pre @ bs')" for bs'
    using f E 1(5) by simp_all
  show ?case
  proof (cases "bs = []")
    case True
    then show ?thesis using 1(6,7) by (simp add: write_all.simps [of p "[]" w])
  next
    case False
    note unfold = write_all.simps [of p bs w, unfolded n prod.case if_not_P [OF False]]
    show ?thesis
    proof (cases a)
      case Retry
      then show ?thesis unfolding unfold using 1(2) [OF False n [symmetric] Retry 1(5) E f] by simp
    next
      case (Short k)
      show ?thesis
      proof (cases "k = 0")
        case False
        then show ?thesis
          using 1(3) [OF \<open>bs \<noteq> []\<close> n [symmetric] Short False 1(5) step]
          unfolding append_assoc append_take_drop_id by (simp add: unfold Short)
      qed (use E in \<open>simp add: unfold Short\<close>)
    next
      case Success
      then show ?thesis using 1(1) [OF False n [symmetric] Success 1(5) step]
        unfolding append_assoc append_take_drop_id by (simp add: unfold)
    next
      case (Space x)
      then show ?thesis using 1(4) [OF False n [symmetric] Space 1(5) step]
        unfolding append_assoc append_take_drop_id by (simp add: unfold)
    qed (use E unfold in simp_all)
  qed
qed

text \<open>Frame: a program that installs and removes nothing leaves a final file as it is.\<close>

lemma evolves_nothing:
  assumes "evolves (\<lambda>_ _. False) (\<lambda>_. False) w w'" "final_path p"
  shows "file_at w' p = file_at w p"
proof -
  obtain new where n: "\<forall>(p, bs) \<in> set new. final_path p \<and> False"
    "\<forall>p bs. final_path p \<longrightarrow> file_at w' p = Some bs \<longrightarrow> file_at w p = Some bs \<or> (p, bs) \<in> set new"
    using assms(1) unfolding evolves_def by blast
  have "file_at w p = Some bs \<longleftrightarrow> file_at w' p = Some bs" for bs
  proof
    show "file_at w p = Some bs \<Longrightarrow> file_at w' p = Some bs" using assms unfolding evolves_def by blast
    show "file_at w' p = Some bs \<Longrightarrow> file_at w p = Some bs" using n assms(2) by blast
  qed
  then show ?thesis by (metis option.exhaust)
qed

lemma temporary_not_final: "\<not> final_path (temporary_path p a b)"
  by (simp add: final_path_def temporary_path_def kTemporaryDirectory_def)

lemma evolves_append: "\<not> final_path p \<Longrightarrow> evolves ok rm w0 w \<Longrightarrow> evolves ok rm w0 (append_file p bs w)"
  by (rule evolves_private) (auto simp: append_file_def put_file_def map_of_filter_fst map_add_def split: option.splits)

lemma evolves_drop: "\<not> final_path p \<Longrightarrow> evolves ok rm w0 w \<Longrightarrow> evolves ok rm w0 (drop_file p w)"
  by (erule evolves_private) (auto simp: drop_file_def map_of_filter_fst)

lemma evolves_fsync: "evolves ok rm w0 w \<Longrightarrow> evolves ok rm w0 (w\<lparr>w_volatile := removeAll p (w_volatile w)\<rparr>)"
  by (erule evolves_private) auto

lemma evolves_rename:
  assumes "evolves ok rm w0 w" "final_path dst" "\<not> final_path src" "file_at w src = Some bs"
    "src \<notin> set (w_volatile w)" "file_at w dst = None" "ok dst bs"
  shows "evolves ok rm w0 (rename_file src dst w)"
proof -
  have f: "file_at (rename_file src dst w) p = (if p = dst then Some bs else if p = src then None else file_at w p)" for p
    using assms(4) by (simp add: rename_file_def)
  have l: "w_log (rename_file src dst w) = w_log w @ [(dst, bs)]"
    "set (w_volatile (rename_file src dst w)) \<subseteq> set (w_volatile w)"
    using assms(4,5) by (auto simp: rename_file_def)
  have "evolves ok rm w (rename_file src dst w)"
    unfolding evolves_def f l(1) using assms(2-3,6-7) l(2) by auto
  with assms(1) show ?thesis by (rule evolves_trans)
qed

lemma install_steps_spec:
  assumes tmp: "\<not> final_path tmp" and fin: "final_path final" and ok: "ok final bs"
  shows "io_spec (\<lambda>w. evolves ok rm w0 w \<and> file_at w final = None \<and> file_at w tmp = Some [])
    (install_steps tmp final bs ctx)
    (\<lambda>_ w. evolves ok rm w0 w \<and> file_at w final = Some bs \<and> final \<notin> set (w_unsynced w))
    (evolves ok rm w0)"
proof -
  let ?E = "\<lambda>w. evolves ok rm w0 w \<and> file_at w final = None"
  let ?full = "\<lambda>w. ?E w \<and> file_at w tmp = Some bs"
  let ?synced = "\<lambda>w. ?full w \<and> tmp \<notin> set (w_volatile w)"
  let ?there = "\<lambda>w. evolves ok rm w0 w \<and> file_at w final = Some bs"
  let ?R = "evolves ok rm w0"
  have ne: "tmp \<noteq> final" using tmp fin by blast
  let ?installed = "\<lambda>w. ?there w \<and> final \<notin> set (w_unsynced w)"
  have E: "disk_assertion ?E" "disk_assertion ?full" "disk_assertion ?synced" "disk_assertion ?there" "disk_assertion ?installed"
    by (intro disk_assertions)+
  have written: "io_spec (\<lambda>w. ?E w \<and> file_at w tmp = Some []) (write_all tmp bs) (\<lambda>_. ?full) ?R"
  proof (rule io_specI)
    fix w assume "?E w \<and> file_at w tmp = Some []"
    then show "case write_all tmp bs w of (Returned x, w') \<Rightarrow> ?full w' | (Raised e, w') \<Rightarrow> ?R w' | (Killed, w') \<Rightarrow> ?R w'"
      using write_all_appends [OF E(1), of tmp w "[]" bs] ne evolves_append [OF tmp]
      by (auto split: prod.splits outcome.splits)
  qed
  have hit: "io_spec P (hit_write_failure ctx a b) (\<lambda>_. P) ?R" if "disk_assertion P" "\<And>w. P w \<Longrightarrow> ?R w" for P a b
    by (rule io_spec_post [OF io_spec_quiet [OF quiet_hit that(1)]]) (use that(2) in auto)
  have call: "io_spec P (os_call op p f) (\<lambda>_. Q) ?R"
    if "disk_assertion P" "\<And>w. P w \<Longrightarrow> Q (f w)" "\<And>w. P w \<Longrightarrow> ?R w" for P op p f Q
    by (rule io_spec_os_call [OF disk_answer_free [OF that(1)]]) (use that in auto)
  have sync: "io_spec ?installed (sync_directory d) (\<lambda>_. ?installed) ?R" for d
    unfolding sync_directory_def
    by (rule io_spec_bind [OF call [where Q = ?installed, OF E(5)]], simp, simp)+
      (rule call [OF E(5)], simp_all)
  have sync_final: "io_spec ?there (sync_directory (butlast final)) (\<lambda>_. ?installed) ?R"
    unfolding sync_directory_def
  proof (intro io_spec_bind)
    show "io_spec ?there (os_call ''cannot open directory for fsync'' (butlast final) id) (\<lambda>_. ?there) ?R"
      by (intro call E(4)) auto
    show "io_spec ?there (os_call ''cannot fsync directory'' (butlast final)
        (\<lambda>w. w\<lparr>w_unsynced := filter (\<lambda>p. butlast p \<noteq> butlast final) (w_unsynced w)\<rparr>)) (\<lambda>_. ?installed) ?R"
      by (intro call E(4)) auto
    show "io_spec ?installed (os_call ''cannot close directory'' (butlast final) id) (\<lambda>_. ?installed) ?R"
      by (intro call E(5)) auto
  qed
  have fsync: "io_spec ?full (os_call ''cannot fsync durable temporary file'' tmp
      (\<lambda>w. w\<lparr>w_volatile := removeAll tmp (w_volatile w)\<rparr>)) (\<lambda>_. ?synced) ?R"
    by (intro call E(2)) (auto intro: evolves_fsync)
  have rename: "io_spec ?synced (os_call ''cannot atomically install durable file'' final (rename_file tmp final)) (\<lambda>_. ?there) ?R"
  proof (intro call E(3))
    show "?synced w \<Longrightarrow> ?there (rename_file tmp final w)" for w
      using evolves_rename [OF _ fin tmp, of ok rm w0 w bs] ok by (auto simp: rename_file_def)
  qed auto
  have last: "io_spec ?installed (if butlast final \<noteq> kTemporaryDirectory then sync_directory kTemporaryDirectory else io_return ())
      (\<lambda>_. ?installed) ?R"
    using sync by (auto intro: io_spec_return)
  have close: "io_spec ?synced (os_call ''cannot close durable temporary file'' tmp id) (\<lambda>_. ?synced) ?R"
    by (intro call E(3)) auto
  have pre: "(\<lambda>w. evolves ok rm w0 w \<and> file_at w final = None \<and> file_at w tmp = Some []) =
      (\<lambda>w. ?E w \<and> file_at w tmp = Some [])" and post: "(\<lambda>_ w. evolves ok rm w0 w \<and> file_at w final = Some bs \<and> final \<notin> set (w_unsynced w)) = (\<lambda>_ :: unit. ?installed)"
    by auto
  show ?thesis
    unfolding install_steps_def pre post
    by (intro io_spec_bind [OF written] io_spec_bind [OF hit [OF E(2)]] io_spec_bind [OF fsync]
        io_spec_bind [OF close] io_spec_bind [OF hit [OF E(3)]] io_spec_bind [OF rename]
        io_spec_bind [OF hit [OF E(4)]] io_spec_bind [OF sync_final] last) auto
qed

named_theorems quiet_rules \<open>programs that leave the file system alone\<close>

lemma quiet_pure [quiet_rules]:
  "io_quiet (io_return x)" "io_quiet (io_raise e)" "io_quiet (io_gets f)" "io_quiet (io_result r)"
  by (auto simp: io_quiet_def io_return_def io_raise_def io_gets_def io_result_def split: sum.splits)

lemma quiet_bind [quiet_rules]: "io_quiet m \<Longrightarrow> (\<And>x. io_quiet (f x)) \<Longrightarrow> io_quiet (io_bind m f)"
  unfolding io_quiet_def io_bind_def by (auto split: prod.splits outcome.splits) (metis snd_conv)+

lemma quiet_calls [quiet_rules]:
  "io_quiet (os_try id)" "io_quiet available_space" "io_quiet (list_directory d)"
  by (auto simp: io_quiet_def os_try_def available_space_def list_directory_def Let_def dest: disk_next
      split: prod.splits os_answer.splits)

lemma quiet_read_file [quiet_rules]: "io_quiet (read_file p n kind)"
proof -
  have "io_quiet (read_stream name bs)" for name bs
    by (auto simp: io_quiet_def read_stream_def Let_def dest: disk_next split: prod.splits os_answer.splits)
  then show ?thesis
    unfolding read_file_def by (auto intro!: quiet_rules split: prod.splits option.splits)
qed

lemma quiet_checks [quiet_rules]:
  "io_quiet (fs_call f)"
  "io_quiet (preflight_run_completion config a b c d e g h)"
  "io_quiet (preflight_write config a b n)"
  unfolding fs_call_def preflight_run_completion_def preflight_write_def Let_def
  by (auto intro!: quiet_rules split: option.splits)

lemma quietD: "io_quiet m \<Longrightarrow> m w = (r, w') \<Longrightarrow> disk w' = disk w"
  unfolding io_quiet_def by (metis snd_conv)

lemma io_bind_Returned:
  "io_bind m f w = (Returned y, w') \<longleftrightarrow> (\<exists>x w1. m w = (Returned x, w1) \<and> f x w1 = (Returned y, w'))"
  by (auto simp: io_bind_def split: prod.splits outcome.splits)

lemma os_try_disk: "os_try id w = (x, w') \<Longrightarrow> disk w' = disk w"
  by (rule quietD [OF quiet_calls(1)])

lemma fs_call_Returned: "fs_call f w = (Returned x, w') \<Longrightarrow> disk w' = disk w \<and> x = f w'"
  unfolding fs_call_def
  by (auto simp: io_bind_Returned io_gets_def io_raise_def dest: os_try_disk split: option.splits)

lemma read_stream_Returned: "read_stream name bs w = (Returned x, w') \<Longrightarrow> x = bs"
  by (auto simp: read_stream_def Let_def split: prod.splits os_answer.splits if_splits)

lemma read_file_Returned:
  assumes "read_file p n kind w = (Returned bs, w')"
  shows "disk w' = disk w" "file_at w p = Some bs" "length bs \<le> unat n"
proof -
  show "disk w' = disk w" using assms by (rule quietD [OF quiet_read_file])
  show "file_at w p = Some bs" "length bs \<le> unat n"
    using assms unfolding read_file_def
    by (auto simp: io_bind_Returned io_gets_def io_raise_def disk_eq dest!: os_try_disk read_stream_Returned
        split: option.splits if_splits)
qed

text \<open>What one call of \<^verbatim>\<open>atomic_write\<close> may do, whatever the operating system answers.\<close>

definition installed :: "path \<Rightarrow> bytes \<Rightarrow> path \<Rightarrow> bytes \<Rightarrow> bool" where
  "installed final bs = (\<lambda>p content. p = final \<and> content = bs)"

lemma same_disk: "disk w = disk w0 \<Longrightarrow> evolves ok rm w0 w"
  by (simp add: disk_eq evolves_def)

lemma disk_assertion_disk: "disk_assertion (\<lambda>w. disk w = d)"
  by (simp add: disk_assertion_def)

lemma quiet_spec:
  "io_quiet m \<Longrightarrow> io_spec (\<lambda>w. disk w = disk w0) m (\<lambda>_ w. disk w = disk w0) (evolves ok rm w0)"
  by (rule io_spec_post [OF io_spec_quiet [OF _ disk_assertion_disk]]) (auto intro: same_disk)

lemma create_exclusive_spec:
  assumes "\<not> final_path tmp" "final_path final" "file_at w0 final = None"
  shows "io_spec (\<lambda>w. disk w = disk w0) (create_exclusive tmp)
    (\<lambda>_ w. evolves ok rm w0 w \<and> file_at w final = None \<and> file_at w tmp = Some []) (evolves ok rm w0)"
proof (rule io_specI)
  fix w assume w: "disk w = disk w0"
  let ?P = "\<lambda>w. disk w = disk w0 \<and> file_at w tmp = None"
  have ne: "tmp \<noteq> final" using assms by blast
  have "disk_assertion ?P" by (intro disk_assertion_conj disk_assertion_disk disk_assertion_basic)
  then have "io_spec ?P (os_call op p (append_file tmp []))
      (\<lambda>_ w. evolves ok rm w0 w \<and> file_at w final = None \<and> file_at w tmp = Some []) (evolves ok rm w0)" for op p
    by (intro io_spec_os_call disk_answer_free)
      (use assms(3) ne same_disk evolves_append [OF assms(1)] in \<open>auto simp: disk_eq\<close>)
  then show "case create_exclusive tmp w of
      (Returned x, w') \<Rightarrow> evolves ok rm w0 w' \<and> file_at w' final = None \<and> file_at w' tmp = Some []
    | (Raised e, w') \<Rightarrow> evolves ok rm w0 w' | (Killed, w') \<Rightarrow> evolves ok rm w0 w'"
    using w same_disk [OF w] by (simp add: create_exclusive_def io_spec_def)
qed

lemma install_new_spec:
  assumes "final_path final" "file_at w0 final = None"
  shows "io_spec (\<lambda>w. disk w = disk w0) (install_new final bs ctx)
    (\<lambda>_ w. evolves (installed final bs) (\<lambda>_. False) w0 w \<and> file_at w final = Some bs \<and> final \<notin> set (w_unsynced w))
    (evolves (installed final bs) (\<lambda>_. False) w0)" (is "io_spec ?start _ (\<lambda>_. ?good) ?ev")
  unfolding install_new_def
proof (rule io_spec_bind [where Q = "\<lambda>tmp w. ?start w \<and> \<not> final_path tmp"])
  fix tmp :: path
  let ?Q = "\<lambda>w. ?start w \<and> \<not> final_path tmp"
  show "io_spec ?Q (io_bind (io_update (\<lambda>w. w\<lparr>w_nonce := w_nonce w + 1\<rparr>)) (\<lambda>_.
     io_bind (create_exclusive tmp) (\<lambda>_. io_cleanup (install_steps tmp final bs ctx)
       (io_bind (os_try (drop_file tmp)) (\<lambda>_. io_return ()))))) (\<lambda>_. ?good) ?ev"
  proof (cases "final_path tmp")
    case False
    let ?empty = "\<lambda>w. ?ev w \<and> file_at w final = None \<and> file_at w tmp = Some []"
    have nonce: "io_spec ?Q (io_update (\<lambda>w. w\<lparr>w_nonce := w_nonce w + 1\<rparr>)) (\<lambda>_. ?start) ?ev"
      by (rule io_spec_update) (simp add: disk_def)
    have remove: "io_spec ?ev (io_bind (os_try (drop_file tmp)) (\<lambda>_. io_return ())) (\<lambda>_. ?ev) ?ev"
      by (rule io_spec_bind [where Q = "\<lambda>_. ?ev"], rule io_spec_os_try)
        (auto intro: disk_answer_free disk_assertion_evolves evolves_drop [OF False] io_spec_return)
    have steps: "io_spec ?empty (install_steps tmp final bs ctx) (\<lambda>_. ?good) ?ev"
      by (rule install_steps_spec [OF False assms(1)]) (simp add: installed_def)
    show ?thesis
      by (rule io_spec_bind [OF nonce io_spec_bind [OF create_exclusive_spec [OF False assms]
            io_spec_cleanup [OF steps remove]]])
  qed (simp add: io_spec_def)
qed (auto intro!: io_spec_gets simp: temporary_not_final)

lemma check_existing_spec:
  "io_spec (\<lambda>w. disk w = disk w0) (check_existing final bs)
    (\<lambda>_ w. disk w = disk w0 \<and> file_at w final = Some bs) (evolves ok rm w0)"
  unfolding check_existing_def
proof (rule io_spec_bind [where Q = "\<lambda>existing w. disk w = disk w0 \<and> file_at w final = Some existing"])
  show "io_spec (\<lambda>w. disk w = disk w0) (read_file final (of_nat (length bs) + 1) Schema)
      (\<lambda>existing w. disk w = disk w0 \<and> file_at w final = Some existing) (evolves ok rm w0)"
    by (rule io_spec_Returned [OF quiet_spec [OF quiet_read_file]]) (auto simp: disk_eq dest: read_file_Returned(2))
next
  fix existing
  let ?P = "\<lambda>w. disk w = disk w0 \<and> file_at w final = Some existing"
  have "io_spec ?P (io_bind (io_gets f) (\<lambda>x. io_raise (g x))) (\<lambda>_. Q) (evolves ok rm w0)" for f :: "world \<Rightarrow> string" and g Q
    by (rule io_spec_bind [where Q = "\<lambda>_. ?P"]) (auto intro: io_spec_gets io_spec_raise same_disk)
  then show "io_spec ?P (if existing = bs then io_return ()
     else io_bind (io_gets (\<lambda>w. path_text w final)) (\<lambda>name.
       io_raise (Runtime_error (''immutable durable file already exists with different bytes: '' @ name))))
     (\<lambda>_ w. disk w = disk w0 \<and> file_at w final = Some bs) (evolves ok rm w0)"
    by (auto intro: io_spec_return)
qed

lemma atomic_write_spec:
  assumes "final_path final"
  shows "io_spec (\<lambda>w. disk w = disk w0) (atomic_write config final bs usage ctx)
    (\<lambda>_ w. evolves (installed final bs) (\<lambda>_. False) w0 w \<and> file_at w final = Some bs \<and>
       (file_at w0 final = None \<longrightarrow> final \<notin> set (w_unsynced w)))
    (evolves (installed final bs) (\<lambda>_. False) w0)" (is "io_spec ?start _ (\<lambda>_. ?good) ?ev")
proof -
  let ?Q = "\<lambda>x w. ?start w \<and> x = (file_at w0 final \<noteq> None)"
  have exists: "io_spec ?start (fs_call (\<lambda>w. file_at w final \<noteq> None)) ?Q ?ev"
    by (rule io_spec_Returned [OF quiet_spec [OF quiet_checks(1)]]) (auto simp: disk_eq dest: fs_call_Returned)
  have old: "io_spec (\<lambda>w. ?start w \<and> file_at w0 final \<noteq> None) (check_existing final bs) (\<lambda>_. ?good) ?ev"
    by (rule io_spec_post [OF check_existing_spec]) (auto simp: disk_eq evolves_def)
  have new: "io_spec (\<lambda>w. ?start w \<and> file_at w0 final = None) (install_new final bs ctx) (\<lambda>_. ?good) ?ev"
  proof (cases "file_at w0 final")
    case None
    show ?thesis by (rule io_spec_post [OF install_new_spec [OF assms None]]) auto
  qed (simp add: io_spec_def)
  have room: "io_spec (\<lambda>w. ?start w \<and> file_at w0 final = None) (preflight_write config a b n)
      (\<lambda>_ w. ?start w \<and> file_at w0 final = None) ?ev" for a b n
    using quiet_spec [OF quiet_checks(3), of w0 config a b n] by (cases "file_at w0 final") (simp_all add: io_spec_def)
  show ?thesis
    unfolding atomic_write_def
    by (cases usage, simp only: prod.case, rule io_spec_bind [OF exists])
      (use io_spec_bind [OF old io_spec_return] io_spec_bind [OF room io_spec_bind [OF new io_spec_return]] in auto)
qed

lemma atomic_write_cases:
  assumes "final_path final" "atomic_write config final bs usage ctx w = (out, w')"
  shows "evolves (installed final bs) (\<lambda>_. False) w w'"
    "out = Returned u \<Longrightarrow> file_at w' final = Some bs \<and> (file_at w final = None \<longrightarrow> final \<notin> set (w_unsynced w'))"
proof -
  have "case (out, w') of
      (Returned x, w') \<Rightarrow> evolves (installed final bs) (\<lambda>_. False) w w' \<and> file_at w' final = Some bs \<and>
        (file_at w final = None \<longrightarrow> final \<notin> set (w_unsynced w'))
    | (Raised e, w') \<Rightarrow> evolves (installed final bs) (\<lambda>_. False) w w'
    | (Killed, w') \<Rightarrow> evolves (installed final bs) (\<lambda>_. False) w w'"
    using atomic_write_spec [OF assms(1), of w config bs usage ctx, unfolded io_spec_def, rule_format, OF refl]
    unfolding assms(2) .
  then show "evolves (installed final bs) (\<lambda>_. False) w w'"
    "out = Returned u \<Longrightarrow> file_at w' final = Some bs \<and> (file_at w final = None \<longrightarrow> final \<notin> set (w_unsynced w'))"
    by (auto split: outcome.splits)
qed

lemma within_atomic_write [io_rules]:
  assumes "final_path final" "ok final bs"
  shows "io_within ok rm (atomic_write config final bs usage ctx)"
  unfolding io_within_def
proof
  fix w
  obtain out w' where o: "atomic_write config final bs usage ctx w = (out, w')"
    by (cases "atomic_write config final bs usage ctx w")
  have "evolves ok rm w w'"
    by (rule evolves_weaken [OF atomic_write_cases(1) [OF assms(1) o]]) (use assms(2) in \<open>auto simp: installed_def\<close>)
  then show "evolves ok rm w (snd (atomic_write config final bs usage ctx w))" by (simp add: o)
qed

text \<open>Loss of power: files keep their bytes if their contents and their directory entry were synced; an
  entry that was not may be gone, an entry whose removal was not may be back, and only contents that
  were never synced can be anything.\<close>

definition power_loss :: "world \<Rightarrow> world \<Rightarrow> bool" where
  "power_loss w w' \<longleftrightarrow>
     w_log w' = w_log w \<and> w_volatile w' = [] \<and> w_unsynced w' = [] \<and>
     (\<forall>p bs. final_path p \<longrightarrow> file_at w' p = Some bs \<longrightarrow> p \<in> set (w_volatile w) \<or> (p, bs) \<in> set (w_log w)) \<and>
     (\<forall>p bs. final_path p \<longrightarrow> file_at w p = Some bs \<longrightarrow> p \<notin> set (w_volatile w) \<longrightarrow> p \<notin> set (w_unsynced w) \<longrightarrow>
        file_at w' p = Some bs)"

lemma evolves_other:
  assumes "evolves (installed final bs) (\<lambda>_. False) w w'" "final_path p"
  shows "p \<noteq> final \<Longrightarrow> file_at w' p = file_at w p"
    "file_at w' p = file_at w p \<or> file_at w p = None \<and> file_at w' p = Some bs"
proof -
  obtain new where n: "\<forall>(p, c) \<in> set new. final_path p \<and> installed final bs p c"
    "\<forall>p c. final_path p \<longrightarrow> file_at w' p = Some c \<longrightarrow> file_at w p = Some c \<or> (p, c) \<in> set new"
    using assms(1) unfolding evolves_def by blast
  have kept: "file_at w p = Some c \<Longrightarrow> file_at w' p = Some c" for c
    using assms unfolding evolves_def by blast
  have new: "file_at w' p = Some c \<Longrightarrow> file_at w p = Some c \<or> p = final \<and> c = bs" for c
    using n assms(2) by (auto simp: installed_def)
  show "p \<noteq> final \<Longrightarrow> file_at w' p = file_at w p" using kept new by (metis option.exhaust)
  show "file_at w' p = file_at w p \<or> file_at w p = None \<and> file_at w' p = Some bs"
    using kept new by (metis option.exhaust)
qed

section \<open>Properties\<close>

text \<open>C29. Installation is atomic and files are immutable: whatever the operating system answers, and wherever the
  process is killed, \<^verbatim>\<open>atomic_write\<close> changes no other file, never changes a file that exists, and shows
  the new file with all its bytes or not at all, with all of them when it returns; and the same holds
  after a loss of power at that point.\<close>

theorem atomic_write_all_or_nothing:
  assumes "final_path p" "atomic_write config p bs usage ctx w = (out, w')"
  shows "(\<forall>q. final_path q \<and> q \<noteq> p \<longrightarrow> file_at w' q = file_at w q) \<and>
    (file_at w' p = file_at w p \<or> file_at w p = None \<and> file_at w' p = Some bs) \<and>
    (\<forall>u. out = Returned u \<longrightarrow> file_at w' p = Some bs) \<and>
    (\<forall>w''. p \<notin> fst ` set (w_log w) \<and> p \<notin> set (w_volatile w) \<and> file_at w p = None \<and> power_loss w' w'' \<longrightarrow>
       (file_at w'' p = None \<or> file_at w'' p = Some bs) \<and> (\<forall>u. out = Returned u \<longrightarrow> file_at w'' p = Some bs))"
proof -
  note e = atomic_write_cases(1) [OF assms] and r = atomic_write_cases(2) [OF assms]
  obtain new where n: "w_log w' = w_log w @ new" "\<forall>(q, c) \<in> set new. final_path q \<and> installed p bs q c"
    using e unfolding evolves_def by blast
  have v: "p \<in> set (w_volatile w') \<Longrightarrow> p \<in> set (w_volatile w)" using e assms(1) unfolding evolves_def by blast
  have lost: "(file_at w'' p = None \<or> file_at w'' p = Some bs) \<and> (\<forall>u. out = Returned u \<longrightarrow> file_at w'' p = Some bs)"
    if l: "p \<notin> fst ` set (w_log w)" "p \<notin> set (w_volatile w)" "file_at w p = None" "power_loss w' w''" for w''
  proof
    have "c = bs" if "file_at w'' p = Some c" for c
    proof -
      have "(p, c) \<in> set (w_log w')" using l(2,4) v assms(1) that unfolding power_loss_def by blast
      then show ?thesis using n l(1) by (force simp: installed_def)
    qed
    then show "file_at w'' p = None \<or> file_at w'' p = Some bs" by (cases "file_at w'' p") auto
    show "\<forall>u. out = Returned u \<longrightarrow> file_at w'' p = Some bs"
      using r l(2-4) v assms(1) unfolding power_loss_def by blast
  qed
  have "\<forall>q. final_path q \<and> q \<noteq> p \<longrightarrow> file_at w' q = file_at w q" using evolves_other(1) [OF e] by blast
  then show ?thesis using evolves_other(2) [OF e assms(1)] r lost by blast
qed

definition sample_world :: world where
  "sample_world = \<lparr>w_root = ''run'', w_files = [], w_volatile = [], w_unsynced = [], w_log = [],
     w_answers = [Success, Success, Success, Retry, Short 1], w_pid = 7, w_nonce = 0, w_injector = idle_injector\<rparr>"

definition sample_path :: path where
  "sample_path = [''manifests'', ''manifest_00000000000000000000.bin'']"

lemma sample_write:
  "fst (atomic_write sample_store sample_path [1, 2, 3] (0, 0) \<lparr>dw_kind = Metadata, dw_failure = no_failure_context\<rparr>
     sample_world) = Returned (3, 1)"
proof -
  have [simp]: "write_all p [] w = (Returned (), w)" for p w by (simp add: write_all.simps)
  have [simp]: "write_all p (b # bs) w = (case next_answer w of
      (Kill, w') \<Rightarrow> (Killed, w')
    | (Failure msg, w') \<Rightarrow>
        (Raised (Runtime_error (''cannot write durable temporary file '' @ path_text w p @ '': '' @ msg)), w')
    | (Retry, w') \<Rightarrow> write_all p (b # bs) w'
    | (Short n, w') \<Rightarrow>
        if n = 0 then (Raised (Runtime_error (''zero-length durable write: '' @ path_text w p)), w')
        else write_all p (drop (min n (write_chunk (b # bs))) (b # bs)) (append_file p (take (min n (write_chunk (b # bs))) (b # bs)) w')
    | (_, w') \<Rightarrow> write_all p (drop (write_chunk (b # bs)) (b # bs)) (append_file p (take (write_chunk (b # bs)) (b # bs)) w'))" for p b bs w
    by (simp add: write_all.simps [of p "b # bs"])
  show ?thesis
    by (simp add: atomic_write_def install_new_def install_steps_def fs_call_def io_bind_def io_gets_def io_update_def
        io_return_def io_cleanup_def os_try_def os_call_def next_answer_def create_exclusive_def
        preflight_write_def available_space_def io_result_def sync_directory_def hit_write_failure_def
        sample_world_def sample_path_def sample_store_def temporary_path_def directory_defs append_file_def
        put_file_def drop_file_def rename_file_def write_chunk_def)
qed

theorem atomic_write_all_or_nothing_witness:
  "\<exists>w'. atomic_write sample_store sample_path [1, 2, 3] (0, 0) \<lparr>dw_kind = Metadata, dw_failure = no_failure_context\<rparr>
     sample_world = (Returned (3, 1), w') \<and> file_at w' sample_path = Some [1, 2, 3] \<and>
     (\<forall>w''. power_loss w' w'' \<longrightarrow> file_at w'' sample_path = Some [1, 2, 3])"
proof -
  let ?run = "atomic_write sample_store sample_path [1, 2, 3] (0, 0)
     \<lparr>dw_kind = Metadata, dw_failure = no_failure_context\<rparr> sample_world"
  have r: "?run = (Returned (3, 1), snd ?run)" using sample_write by (metis prod.collapse)
  have "final_path sample_path" by (simp add: final_path_def sample_path_def directory_defs)
  from atomic_write_all_or_nothing [OF this r] show ?thesis
    using r by (intro exI [of _ "snd ?run"]) (simp add: sample_world_def)
qed

end
