(* ===== verification/Bounded_Queue.thy ===== *)
theory Bounded_Queue
  imports Mc_Prelude
begin

text \<open>
  The bounded queue between the engine's threads (\<^verbatim>\<open>include/mc/bounded_queue.hpp\<close>).  Every
  operation runs under the queue's mutex, so it is one atomic transition; an
  operation whose wait predicate does not hold yet is blocked (\<^term>\<open>None\<close>) and changes
  nothing.  The client's view is the locale of a closable FIFO channel.
\<close>

section \<open>Model\<close>

record 'a bounded_queue =
  bq_queue :: "'a list"
  bq_capacity :: nat
  bq_closed :: bool
  bq_max_observed_depth :: "nat option"

definition new_bounded_queue :: "nat \<Rightarrow> nat option \<Rightarrow> 'a bounded_queue result" where
  "new_bounded_queue capacity max_observed_depth =
     (if capacity = 0 then Inl (Invalid_argument ''bounded queue capacity must be positive'')
      else Inr \<lparr>bq_queue = [], bq_capacity = capacity, bq_closed = False,
                bq_max_observed_depth = max_observed_depth\<rparr>)"

text \<open>\<^verbatim>\<open>push\<close>: blocked until the queue is closed or has room; the flag is its result.\<close>

definition bq_push :: "'a \<Rightarrow> 'a bounded_queue \<Rightarrow> (bool \<times> 'a bounded_queue) option" where
  "bq_push item q =
     (if \<not> (bq_closed q \<or> length (bq_queue q) < bq_capacity q) then None
      else if bq_closed q then Some (False, q)
      else
        (let queue = bq_queue q @ [item]
         in Some (True, q\<lparr>bq_queue := queue,
              bq_max_observed_depth := map_option (\<lambda>d. max d (length queue)) (bq_max_observed_depth q)\<rparr>)))"

text \<open>\<^verbatim>\<open>pop\<close>: blocked until the queue is closed or nonempty; no item means the result false.\<close>

definition bq_pop :: "'a bounded_queue \<Rightarrow> ('a option \<times> 'a bounded_queue) option" where
  "bq_pop q =
     (if \<not> (bq_closed q \<or> bq_queue q \<noteq> []) then None
      else case bq_queue q of
             [] \<Rightarrow> Some (None, q)
           | item # rest \<Rightarrow> Some (Some item, q\<lparr>bq_queue := rest\<rparr>))"

definition bq_close :: "'a bounded_queue \<Rightarrow> 'a bounded_queue" where
  "bq_close q = q\<lparr>bq_closed := True\<rparr>"

text \<open>\<^verbatim>\<open>record_blocked_time\<close>: what it stores for a caller that asked, given the elapsed
  nanoseconds the clock shows.\<close>

definition record_blocked_time :: "bool \<Rightarrow> int \<Rightarrow> u64" where
  "record_blocked_time blocked elapsed =
     (if \<not> blocked then 0 else if 0 < elapsed then of_int elapsed else 1)"

section \<open>The channel interface\<close>

locale closable_channel =
  fixes push :: "'a \<Rightarrow> 'q \<Rightarrow> (bool \<times> 'q) option"
    and pop :: "'q \<Rightarrow> ('a option \<times> 'q) option"
    and close :: "'q \<Rightarrow> 'q"
    and items :: "'q \<Rightarrow> 'a list" and closed :: "'q \<Rightarrow> bool" and room :: "'q \<Rightarrow> bool"
  assumes push_open: "\<not> closed q \<Longrightarrow> room q \<Longrightarrow>
      \<exists>q'. push x q = Some (True, q') \<and> items q' = items q @ [x] \<and> \<not> closed q'"
    and push_closed: "closed q \<Longrightarrow> push x q = Some (False, q)"
    and push_full: "\<not> closed q \<Longrightarrow> \<not> room q \<Longrightarrow> push x q = None"
    and pop_item: "items q = x # xs \<Longrightarrow> \<exists>q'. pop q = Some (Some x, q') \<and> items q' = xs \<and> closed q' = closed q"
    and pop_closed: "items q = [] \<Longrightarrow> closed q \<Longrightarrow> pop q = Some (None, q)"
    and pop_empty: "items q = [] \<Longrightarrow> \<not> closed q \<Longrightarrow> pop q = None"
    and close_items: "items (close q) = items q" and close_closed: "closed (close q)"
begin

lemma push_pushed: "push x q = Some (True, q') \<Longrightarrow> items q' = items q @ [x] \<and> \<not> closed q \<and> \<not> closed q'"
  using push_open [of q x] push_closed [of q x] push_full [of q x] by (cases "closed q"; cases "room q") auto

lemma push_rejected: "push x q = Some (False, q') \<Longrightarrow> closed q \<and> q' = q"
  using push_open [of q x] push_closed [of q x] push_full [of q x] by (cases "closed q"; cases "room q") auto

lemma push_blocked: "push x q = None \<longleftrightarrow> \<not> closed q \<and> \<not> room q"
  using push_open [of q x] push_closed [of q x] push_full [of q x] by (cases "closed q"; cases "room q") auto

lemma pop_popped: "pop q = Some (Some x, q') \<Longrightarrow> items q = x # items q' \<and> closed q' = closed q"
  using pop_item [of q] pop_closed [of q] pop_empty [of q]
  by (cases "items q"; cases "closed q") fastforce+

lemma pop_drained: "pop q = Some (None, q') \<Longrightarrow> items q = [] \<and> closed q \<and> q' = q"
  using pop_item [of q] pop_closed [of q] pop_empty [of q]
  by (cases "items q"; cases "closed q") fastforce+

lemma pop_blocked: "pop q = None \<longleftrightarrow> items q = [] \<and> \<not> closed q"
  using pop_item [of q] pop_closed [of q] pop_empty [of q]
  by (cases "items q"; cases "closed q") fastforce+

lemmas outcomes = push_pushed push_rejected pop_popped pop_drained

end

definition has_room :: "'a bounded_queue \<Rightarrow> bool" where
  "has_room q \<longleftrightarrow> length (bq_queue q) < bq_capacity q"

interpretation bq: closable_channel bq_push bq_pop bq_close bq_queue bq_closed has_room
  by unfold_locales (auto simp: bq_push_def bq_pop_def bq_close_def has_room_def Let_def split: list.splits)

section \<open>Capacity\<close>

definition bq_ok :: "'a bounded_queue \<Rightarrow> bool" where
  "bq_ok q \<longleftrightarrow> 0 < bq_capacity q \<and> length (bq_queue q) \<le> bq_capacity q"

lemma new_bounded_queue_ok: "new_bounded_queue c d = Inr q \<Longrightarrow> bq_ok q \<and> bq_queue q = [] \<and> \<not> bq_closed q"
  by (auto simp: new_bounded_queue_def bq_ok_def split: if_splits)

lemma bq_push_ok: "bq_ok q \<Longrightarrow> bq_push x q = Some (b, q') \<Longrightarrow> bq_ok q'"
  by (auto simp: bq_push_def bq_ok_def Let_def split: if_splits)

lemma bq_pop_ok: "bq_ok q \<Longrightarrow> bq_pop q = Some (x, q') \<Longrightarrow> bq_ok q'"
  by (auto simp: bq_pop_def bq_ok_def split: if_splits list.splits)

lemma bq_close_ok: "bq_ok q \<Longrightarrow> bq_ok (bq_close q)"
  by (simp add: bq_close_def bq_ok_def)

lemma bq_ok_empty_room: "bq_ok q \<Longrightarrow> bq_queue q = [] \<Longrightarrow> has_room q"
  by (simp add: bq_ok_def has_room_def)

section \<open>Histories\<close>

text \<open>Any sequence of operations on a queue, with what was taken out and what was put in.\<close>

datatype 'a queue_op = Push 'a | Pop | Close

fun run_queue_op :: "'a queue_op \<Rightarrow> 'a bounded_queue \<times> 'a list \<times> 'a list \<Rightarrow> 'a bounded_queue \<times> 'a list \<times> 'a list" where
  "run_queue_op (Push x) (q, ins, outs) =
     (case bq_push x q of None \<Rightarrow> (q, ins, outs) | Some (b, q') \<Rightarrow> (q', if b then ins @ [x] else ins, outs))"
| "run_queue_op Pop (q, ins, outs) =
     (case bq_pop q of None \<Rightarrow> (q, ins, outs)
      | Some (y, q') \<Rightarrow> (q', ins, case y of None \<Rightarrow> outs | Some x \<Rightarrow> outs @ [x]))"
| "run_queue_op Close (q, ins, outs) = (bq_close q, ins, outs)"

lemma run_queue_op_fifo:
  assumes "run_queue_op oper (q, ins, outs) = (q', ins', outs')" "ins = outs @ bq_queue q" "bq_ok q"
  shows "ins' = outs' @ bq_queue q' \<and> bq_ok q'"
  using assms
  by (cases oper)
    (auto simp: bq_close_ok bq.close_items split: option.splits prod.splits if_splits
      dest: bq_push_ok bq_pop_ok bq.outcomes)

section \<open>Properties\<close>

text \<open>The state after a sequence of operations on a new queue.\<close>

definition queue_history :: "'a bounded_queue \<Rightarrow> 'a queue_op list \<Rightarrow> 'a bounded_queue \<times> 'a list \<times> 'a list" where
  "queue_history q0 ops = fold run_queue_op ops (q0, [], [])"

lemma run_queue_op_closed:
  assumes "run_queue_op oper (q, ins, outs) = (q', ins', outs')"
  shows "bq_closed q' \<longleftrightarrow> bq_closed q \<or> oper = Close" "bq_closed q \<Longrightarrow> ins' = ins" "bq_capacity q' = bq_capacity q"
  using assms
  by (cases oper; auto simp: bq_push_def bq_pop_def bq_close_def Let_def split: option.splits prod.splits if_splits list.splits)+

lemma run_queue_ops:
  assumes "fold run_queue_op ops (u, i, k) = (q, ins, outs)" "i = k @ bq_queue u" "bq_ok u"
  shows "ins = outs @ bq_queue q" "bq_ok q" "bq_closed q \<longleftrightarrow> bq_closed u \<or> Close \<in> set ops"
    "bq_closed u \<Longrightarrow> ins = i" "bq_capacity q = bq_capacity u"
proof -
  have "ins = outs @ bq_queue q \<and> bq_ok q \<and> (bq_closed q \<longleftrightarrow> bq_closed u \<or> Close \<in> set ops) \<and>
      (bq_closed u \<longrightarrow> ins = i) \<and> bq_capacity q = bq_capacity u"
    using assms
  proof (induction ops arbitrary: u i k)
    case (Cons oper ops)
    obtain u' i' k' where r: "run_queue_op oper (u, i, k) = (u', i', k')" by (metis prod_cases3)
    then have "i' = k' @ bq_queue u'" "bq_ok u'" using run_queue_op_fifo [OF r] Cons.prems by blast+
    moreover have "fold run_queue_op ops (u', i', k') = (q, ins, outs)" using Cons.prems(1) r by simp
    ultimately show ?case using Cons.IH [of u' i' k'] run_queue_op_closed [OF r] by auto
  qed simp
  then show "ins = outs @ bq_queue q" "bq_ok q" "bq_closed q \<longleftrightarrow> bq_closed u \<or> Close \<in> set ops"
    "bq_closed u \<Longrightarrow> ins = i" "bq_capacity q = bq_capacity u" by blast+
qed

text \<open>C22. FIFO, bounded and closable: after any interleaving of pushes, pops and closes on a new queue, the items
  accepted are the items delivered followed by the items still queued, in order, and the queue never
  exceeds the capacity it was made with.  The queue is closed exactly when a close has happened; nothing is
  accepted after the first close, a push on the closed queue is refused at once and leaves it as it is, and a
  pop on it never waits: it delivers the next item or reports the end.  On the open queue a push waits exactly
  while the queue is full and a pop exactly while it is empty.\<close>

theorem queue_fifo_bounded:
  assumes "new_bounded_queue c d = Inr q0" "queue_history q0 ops = (q, ins, outs)"
  shows "ins = outs @ bq_queue q \<and> length (bq_queue q) \<le> c \<and> (bq_closed q \<longleftrightarrow> Close \<in> set ops) \<and>
    (\<forall>before after. ops = before @ Close # after \<longrightarrow> ins = fst (snd (queue_history q0 before))) \<and>
    (bq_closed q \<longrightarrow> (\<forall>x. bq_push x q = Some (False, q)) \<and>
       bq_pop q = Some (case bq_queue q of [] \<Rightarrow> (None, q) | x # rest \<Rightarrow> (Some x, q\<lparr>bq_queue := rest\<rparr>))) \<and>
    (\<not> bq_closed q \<longrightarrow> (\<forall>x. bq_push x q = None \<longleftrightarrow> length (bq_queue q) = c) \<and> (bq_pop q = None \<longleftrightarrow> bq_queue q = []))"
proof -
  have new: "bq_ok q0" "bq_queue q0 = []" "\<not> bq_closed q0" "bq_capacity q0 = c"
    using new_bounded_queue_ok [OF assms(1)] assms(1) by (auto simp: new_bounded_queue_def split: if_splits)
  have start: "[] = [] @ bq_queue q0" using new(2) by simp
  note run = run_queue_ops [OF assms(2) [unfolded queue_history_def] start new(1)]
  have len: "length (bq_queue q) \<le> c" using run(2,5) new(4) by (simp add: bq_ok_def)
  have stop: "ins = fst (snd (queue_history q0 before))" if ops: "ops = before @ Close # after" for before after
  proof -
    obtain u i k where b: "fold run_queue_op before (q0, [], []) = (u, i, k)" by (metis prod_cases3)
    note at = run_queue_ops [OF b start new(1)]
    have "fold run_queue_op after (bq_close u, i, k) = (q, ins, outs)"
      using assms(2) b by (simp add: queue_history_def ops)
    moreover have "i = k @ bq_queue (bq_close u)" "bq_ok (bq_close u)" "bq_closed (bq_close u)"
      using at(1,2) by (simp_all add: bq_close_ok bq.close_items bq.close_closed)
    ultimately have "ins = i" using run_queue_ops(4) by blast
    then show ?thesis by (simp add: queue_history_def b)
  qed
  have shut: "bq_pop q = Some (case bq_queue q of [] \<Rightarrow> (None, q) | x # rest \<Rightarrow> (Some x, q\<lparr>bq_queue := rest\<rparr>))" if "bq_closed q"
    using that by (simp add: bq_pop_def split: list.splits)
  have full: "bq_push x q = None \<longleftrightarrow> length (bq_queue q) = c" if "\<not> bq_closed q" for x
    using that len run(5) new(4) by (auto simp: bq.push_blocked has_room_def)
  show ?thesis
    using run(1,3) new(3) len stop shut full bq.push_closed [of q] bq.pop_blocked [of q] by blast
qed

theorem queue_fifo_bounded_witness:
  "\<exists>q0 q :: nat bounded_queue. new_bounded_queue 2 None = Inr q0 \<and>
     queue_history q0 [Push 7, Push 8, Push 9, Pop, Close, Push 10, Pop] = (q, [7, 8], [7, 8]) \<and>
     bq_queue q = [] \<and> bq_closed q \<and> bq_push 11 q = Some (False, q)"
proof -
  define q0 :: "nat bounded_queue" where
    "q0 = \<lparr>bq_queue = [], bq_capacity = 2, bq_closed = False, bq_max_observed_depth = None\<rparr>"
  have n: "new_bounded_queue 2 None = Inr q0" by (simp add: new_bounded_queue_def q0_def)
  have r: "queue_history q0 [Push 7, Push 8, Push 9, Pop, Close, Push 10, Pop] =
      (q0\<lparr>bq_closed := True\<rparr>, [7, 8], [7, 8])"
    by (simp add: queue_history_def q0_def bq_push_def bq_pop_def bq_close_def)
  from queue_fifo_bounded [OF n r] n r show ?thesis by auto
qed

end
