(* ===== verification/Parallel_Execution.thy ===== *)
theory Parallel_Execution
  imports Bounded_Queue "HOL-Library.Multiset"
begin

text \<open>
  The threads of \<^verbatim>\<open>execute_missing_blocks\<close> (\<^verbatim>\<open>src/runtime/engine.cpp\<close>) as a step relation: the
  scheduler that feeds the assignment queue, the workers that pop, compute and push,
  and the coordinating thread that drains the completion queue.  A step is one
  atomic action of one thread: a queue operation under its mutex, the update of
  \<^verbatim>\<open>first_error\<close> under its mutex, the atomic decrement of \<^verbatim>\<open>workers_remaining\<close>.  The relation
  is generic in the work items, so the theorems are about every interleaving of every
  program of this shape.
\<close>

section \<open>Model\<close>

text \<open>The three actions of \<^verbatim>\<open>record_error\<close>, in order.\<close>

datatype err_pc = Record_error exn | Close_assignments | Close_completions

datatype 'r worker_pc =
    W_start
  | W_idle
  | W_holding 'r
  | W_error err_pc
  | W_exit
  | W_last
  | W_stopped

datatype scheduler_pc = S_push | S_close | S_done
datatype coordinator_pc = C_pop | C_error err_pc | C_done

record ('b, 'r, 'c) exec_program =
  prog_start :: "unit result"                          \<comment> \<open>construction of the worker's kernel\<close>
  prog_work :: "nat \<Rightarrow> 'b \<Rightarrow> 'r result"                \<comment> \<open>what worker \<open>w\<close> makes of a block\<close>
  prog_consume :: "'r \<Rightarrow> 'c \<Rightarrow> 'c \<times> exn option"        \<comment> \<open>\<^verbatim>\<open>consume_result\<close>: the new state, and what it throws\<close>

record ('b, 'r, 'c) exec_state =
  ex_pending :: "'b list"
  ex_assignments :: "'b bounded_queue"
  ex_completions :: "'r bounded_queue"
  ex_workers :: "'r worker_pc list"
  ex_remaining :: nat
  ex_scheduler :: scheduler_pc
  ex_coordinator :: coordinator_pc
  ex_consumer :: 'c
  ex_history :: "'r list"                              \<comment> \<open>results consumed so far, in order\<close>
  ex_first_error :: "exn option"

type_synonym ('b, 'r, 'c) exec_update = "('b, 'r, 'c) exec_state \<Rightarrow> ('b, 'r, 'c) exec_state"

definition set_worker :: "nat \<Rightarrow> 'r worker_pc \<Rightarrow> ('b, 'r, 'c) exec_update" where
  "set_worker w pc st = st\<lparr>ex_workers := (ex_workers st)[w := pc]\<rparr>"

definition note_error :: "exn \<Rightarrow> ('b, 'r, 'c) exec_update" where
  "note_error e st = st\<lparr>ex_first_error := (case ex_first_error st of None \<Rightarrow> Some e | Some f \<Rightarrow> Some f)\<rparr>"

definition close_assignments :: "('b, 'r, 'c) exec_update" where
  "close_assignments st = st\<lparr>ex_assignments := bq_close (ex_assignments st)\<rparr>"

definition close_completions :: "('b, 'r, 'c) exec_update" where
  "close_completions st = st\<lparr>ex_completions := bq_close (ex_completions st)\<rparr>"

definition at_worker :: "('b, 'r, 'c) exec_state \<Rightarrow> nat \<Rightarrow> 'r worker_pc \<Rightarrow> bool" where
  "at_worker st w pc \<longleftrightarrow> w < length (ex_workers st) \<and> ex_workers st ! w = pc"

inductive exec_step :: "('b, 'r, 'c) exec_program \<Rightarrow> ('b, 'r, 'c) exec_state \<Rightarrow> ('b, 'r, 'c) exec_state \<Rightarrow> bool"
  for P where
  sched_push: "ex_scheduler st = S_push \<Longrightarrow> ex_pending st = b # bs \<Longrightarrow>
     bq_push b (ex_assignments st) = Some (True, q) \<Longrightarrow>
     exec_step P st (st\<lparr>ex_assignments := q, ex_pending := bs\<rparr>)"
| sched_rejected: "ex_scheduler st = S_push \<Longrightarrow> ex_pending st = b # bs \<Longrightarrow>
     bq_push b (ex_assignments st) = Some (False, q) \<Longrightarrow> exec_step P st (st\<lparr>ex_scheduler := S_close\<rparr>)"
| sched_finished: "ex_scheduler st = S_push \<Longrightarrow> ex_pending st = [] \<Longrightarrow>
     exec_step P st (st\<lparr>ex_scheduler := S_close\<rparr>)"
| sched_close: "ex_scheduler st = S_close \<Longrightarrow>
     exec_step P st (close_assignments (st\<lparr>ex_scheduler := S_done\<rparr>))"
| work_start: "at_worker st w W_start \<Longrightarrow> prog_start P = Inr u \<Longrightarrow> exec_step P st (set_worker w W_idle st)"
| work_start_error: "at_worker st w W_start \<Longrightarrow> prog_start P = Inl e \<Longrightarrow>
     exec_step P st (set_worker w (W_error (Record_error e)) st)"
| work_pop: "at_worker st w W_idle \<Longrightarrow> bq_pop (ex_assignments st) = Some (Some b, q) \<Longrightarrow>
     prog_work P w b = Inr r \<Longrightarrow> exec_step P st (set_worker w (W_holding r) (st\<lparr>ex_assignments := q\<rparr>))"
| work_pop_error: "at_worker st w W_idle \<Longrightarrow> bq_pop (ex_assignments st) = Some (Some b, q) \<Longrightarrow>
     prog_work P w b = Inl e \<Longrightarrow>
     exec_step P st (set_worker w (W_error (Record_error e)) (st\<lparr>ex_assignments := q\<rparr>))"
| work_drained: "at_worker st w W_idle \<Longrightarrow> bq_pop (ex_assignments st) = Some (None, q) \<Longrightarrow>
     exec_step P st (set_worker w W_exit st)"
| work_push: "at_worker st w (W_holding r) \<Longrightarrow> bq_push r (ex_completions st) = Some (True, q) \<Longrightarrow>
     exec_step P st (set_worker w W_idle (st\<lparr>ex_completions := q\<rparr>))"
| work_rejected: "at_worker st w (W_holding r) \<Longrightarrow> bq_push r (ex_completions st) = Some (False, q) \<Longrightarrow>
     exec_step P st (set_worker w W_exit st)"
| work_record: "at_worker st w (W_error (Record_error e)) \<Longrightarrow>
     exec_step P st (set_worker w (W_error Close_assignments) (note_error e st))"
| work_close_assignments: "at_worker st w (W_error Close_assignments) \<Longrightarrow>
     exec_step P st (set_worker w (W_error Close_completions) (close_assignments st))"
| work_close_completions: "at_worker st w (W_error Close_completions) \<Longrightarrow>
     exec_step P st (set_worker w W_exit (close_completions st))"
| work_exit: "at_worker st w W_exit \<Longrightarrow> ex_remaining st \<noteq> 1 \<Longrightarrow>
     exec_step P st (set_worker w W_stopped (st\<lparr>ex_remaining := ex_remaining st - 1\<rparr>))"
| work_exit_last: "at_worker st w W_exit \<Longrightarrow> ex_remaining st = 1 \<Longrightarrow>
     exec_step P st (set_worker w W_last (st\<lparr>ex_remaining := 0\<rparr>))"
| work_last: "at_worker st w W_last \<Longrightarrow> exec_step P st (set_worker w W_stopped (close_completions st))"
| coord_pop: "ex_coordinator st = C_pop \<Longrightarrow> bq_pop (ex_completions st) = Some (Some r, q) \<Longrightarrow>
     prog_consume P r (ex_consumer st) = (c, None) \<Longrightarrow>
     exec_step P st (st\<lparr>ex_completions := q, ex_consumer := c, ex_history := ex_history st @ [r]\<rparr>)"
| coord_pop_error: "ex_coordinator st = C_pop \<Longrightarrow> bq_pop (ex_completions st) = Some (Some r, q) \<Longrightarrow>
     prog_consume P r (ex_consumer st) = (c, Some e) \<Longrightarrow>
     exec_step P st (st\<lparr>ex_completions := q, ex_consumer := c, ex_coordinator := C_error (Record_error e)\<rparr>)"
| coord_drained: "ex_coordinator st = C_pop \<Longrightarrow> bq_pop (ex_completions st) = Some (None, q) \<Longrightarrow>
     exec_step P st (st\<lparr>ex_coordinator := C_done\<rparr>)"
| coord_record: "ex_coordinator st = C_error (Record_error e) \<Longrightarrow>
     exec_step P st (note_error e (st\<lparr>ex_coordinator := C_error Close_assignments\<rparr>))"
| coord_close_assignments: "ex_coordinator st = C_error Close_assignments \<Longrightarrow>
     exec_step P st (close_assignments (st\<lparr>ex_coordinator := C_error Close_completions\<rparr>))"
| coord_close_completions: "ex_coordinator st = C_error Close_completions \<Longrightarrow>
     exec_step P st (close_completions (st\<lparr>ex_coordinator := C_done\<rparr>))"

definition exec_terminal :: "('b, 'r, 'c) exec_state \<Rightarrow> bool" where
  "exec_terminal st \<longleftrightarrow>
     ex_scheduler st = S_done \<and> ex_coordinator st = C_done \<and> (\<forall>pc \<in> set (ex_workers st). pc = W_stopped)"

definition exec_initial :: "nat \<Rightarrow> 'b bounded_queue \<Rightarrow> 'r bounded_queue \<Rightarrow> 'b list \<Rightarrow> 'c \<Rightarrow> ('b, 'r, 'c) exec_state" where
  "exec_initial worker_count assignments completions items consumer =
     \<lparr>ex_pending = items, ex_assignments = assignments, ex_completions = completions,
      ex_workers = replicate worker_count W_start, ex_remaining = worker_count, ex_scheduler = S_push,
      ex_coordinator = C_pop, ex_consumer = consumer, ex_history = [], ex_first_error = None\<rparr>"

text \<open>A consumer that changes nothing when it throws, and the consumer as a function that forgets the
  state left behind by an exception.\<close>

definition throwing :: "('r \<Rightarrow> 'c \<Rightarrow> 'c result) \<Rightarrow> 'r \<Rightarrow> 'c \<Rightarrow> 'c \<times> exn option" where
  "throwing f r c = (case f r c of Inl e \<Rightarrow> (c, Some e) | Inr c' \<Rightarrow> (c', None))"

definition consume_step :: "('b, 'r, 'c) exec_program \<Rightarrow> 'r \<Rightarrow> 'c \<Rightarrow> 'c result" where
  "consume_step P r c = (case prog_consume P r c of (c', None) \<Rightarrow> Inr c' | (c', Some e) \<Rightarrow> Inl e)"

section \<open>Every execution ends\<close>

fun err_weight :: "err_pc \<Rightarrow> nat" where
  "err_weight (Record_error e) = 3"
| "err_weight Close_assignments = 2"
| "err_weight Close_completions = 1"

fun worker_weight :: "'r worker_pc \<Rightarrow> nat" where
  "worker_weight W_start = 8"
| "worker_weight W_idle = 7"
| "worker_weight (W_holding r) = 10"
| "worker_weight (W_error pc) = 3 + err_weight pc"
| "worker_weight W_exit = 2"
| "worker_weight W_last = 1"
| "worker_weight W_stopped = 0"

fun scheduler_weight :: "scheduler_pc \<Rightarrow> nat" where
  "scheduler_weight S_push = 2"
| "scheduler_weight S_close = 1"
| "scheduler_weight S_done = 0"

fun coordinator_weight :: "coordinator_pc \<Rightarrow> nat" where
  "coordinator_weight C_pop = 4"
| "coordinator_weight (C_error pc) = err_weight pc"
| "coordinator_weight C_done = 0"

definition exec_weight :: "('b, 'r, 'c) exec_state \<Rightarrow> nat" where
  "exec_weight st =
     5 * length (ex_pending st) + 4 * length (bq_queue (ex_assignments st)) +
     2 * length (bq_queue (ex_completions st)) + sum_list (map worker_weight (ex_workers st)) +
     scheduler_weight (ex_scheduler st) + coordinator_weight (ex_coordinator st)"

lemma sum_list_update_nat:
  "w < length xs \<Longrightarrow> sum_list (map f (xs[w := y])) + f (xs ! w) = sum_list (map f xs) + (f y :: nat)"
  by (induction xs arbitrary: w) (auto split: nat.splits)

lemma at_worker_sum:
  fixes f :: "'r worker_pc \<Rightarrow> nat"
  assumes "at_worker st w pc"
  shows "\<exists>rest. sum_list (map f (ex_workers st)) = rest + f pc \<and>
    (\<forall>pc'. sum_list (map f ((ex_workers st)[w := pc'])) = rest + f pc')"
proof -
  have w: "w < length (ex_workers st)" "ex_workers st ! w = pc" using assms by (auto simp: at_worker_def)
  let ?rest = "sum_list (map f (ex_workers st)) - f pc"
  have "f pc \<le> sum_list (map f (ex_workers st))"
    using w elem_le_sum_list [of w "map f (ex_workers st)"] by simp
  moreover have "sum_list (map f ((ex_workers st)[w := pc'])) = ?rest + f pc'" for pc'
    using sum_list_update_nat [of w "ex_workers st" f pc'] w calculation by simp
  ultimately show ?thesis by (intro exI [of _ ?rest]) simp
qed

lemma set_worker_fields [simp]:
  "ex_pending (set_worker w pc st) = ex_pending st"
  "ex_assignments (set_worker w pc st) = ex_assignments st"
  "ex_completions (set_worker w pc st) = ex_completions st"
  "ex_remaining (set_worker w pc st) = ex_remaining st"
  "ex_scheduler (set_worker w pc st) = ex_scheduler st"
  "ex_coordinator (set_worker w pc st) = ex_coordinator st"
  "ex_consumer (set_worker w pc st) = ex_consumer st"
  "ex_history (set_worker w pc st) = ex_history st"
  "ex_first_error (set_worker w pc st) = ex_first_error st"
  "ex_workers (set_worker w pc st) = (ex_workers st)[w := pc]"
  by (simp_all add: set_worker_def)

lemma note_error_fields [simp]:
  "ex_pending (note_error e st) = ex_pending st"
  "ex_assignments (note_error e st) = ex_assignments st"
  "ex_completions (note_error e st) = ex_completions st"
  "ex_remaining (note_error e st) = ex_remaining st"
  "ex_scheduler (note_error e st) = ex_scheduler st"
  "ex_coordinator (note_error e st) = ex_coordinator st"
  "ex_consumer (note_error e st) = ex_consumer st"
  "ex_history (note_error e st) = ex_history st"
  "ex_workers (note_error e st) = ex_workers st"
  "ex_first_error (note_error e st) \<noteq> None"
  by (simp_all add: note_error_def split: option.split)

lemma close_fields [simp]:
  "ex_pending (close_assignments st) = ex_pending st" "ex_pending (close_completions st) = ex_pending st"
  "ex_completions (close_assignments st) = ex_completions st"
  "ex_assignments (close_completions st) = ex_assignments st"
  "bq_queue (ex_assignments (close_assignments st)) = bq_queue (ex_assignments st)"
  "bq_queue (ex_completions (close_completions st)) = bq_queue (ex_completions st)"
  "bq_closed (ex_assignments (close_assignments st))" "bq_closed (ex_completions (close_completions st))"
  "ex_remaining (close_assignments st) = ex_remaining st" "ex_remaining (close_completions st) = ex_remaining st"
  "ex_scheduler (close_assignments st) = ex_scheduler st" "ex_scheduler (close_completions st) = ex_scheduler st"
  "ex_coordinator (close_assignments st) = ex_coordinator st"
  "ex_coordinator (close_completions st) = ex_coordinator st"
  "ex_consumer (close_assignments st) = ex_consumer st" "ex_consumer (close_completions st) = ex_consumer st"
  "ex_history (close_assignments st) = ex_history st" "ex_history (close_completions st) = ex_history st"
  "ex_first_error (close_assignments st) = ex_first_error st"
  "ex_first_error (close_completions st) = ex_first_error st"
  "ex_workers (close_assignments st) = ex_workers st" "ex_workers (close_completions st) = ex_workers st"
  by (simp_all add: close_assignments_def close_completions_def bq_close_def)

lemma exec_step_weight: "exec_step P st st' \<Longrightarrow> exec_weight st' < exec_weight st"
proof (induction rule: exec_step.induct)
qed (auto simp: exec_weight_def dest!: bq.outcomes at_worker_sum [where f = worker_weight])

section \<open>No execution gets stuck\<close>

fun running :: "'r worker_pc \<Rightarrow> nat" where
  "running W_last = 0"
| "running W_stopped = 0"
| "running _ = 1"

fun leaving :: "'r worker_pc \<Rightarrow> bool" where
  "leaving (W_error Close_completions) = True"
| "leaving W_exit = True"
| "leaving W_last = True"
| "leaving W_stopped = True"
| "leaving _ = False"

definition inv_queues :: "('b, 'r, 'c) exec_state \<Rightarrow> bool" where
  "inv_queues st \<longleftrightarrow> bq_ok (ex_assignments st) \<and> bq_ok (ex_completions st)"

definition inv_count :: "('b, 'r, 'c) exec_state \<Rightarrow> bool" where
  "inv_count st \<longleftrightarrow> sum_list (map running (ex_workers st)) = ex_remaining st"

definition inv_closed :: "('b, 'r, 'c) exec_state \<Rightarrow> bool" where
  "inv_closed st \<longleftrightarrow>
     (bq_closed (ex_completions st) \<or> (\<exists>i < length (ex_workers st). leaving (ex_workers st ! i)) \<or>
      ex_coordinator st = C_error Close_completions \<or> ex_scheduler st = S_done
      \<longrightarrow> bq_closed (ex_assignments st))"

definition inv_last :: "('b, 'r, 'c) exec_state \<Rightarrow> bool" where
  "inv_last st \<longleftrightarrow>
     (ex_remaining st = 0 \<longrightarrow> W_last \<in> set (ex_workers st) \<or> bq_closed (ex_completions st)) \<and>
     (ex_coordinator st = C_done \<longrightarrow> bq_closed (ex_completions st))"

lemma inv_queues_step: "exec_step P st st' \<Longrightarrow> inv_queues st \<Longrightarrow> inv_queues st'"
  by (induction rule: exec_step.induct)
    (auto simp: inv_queues_def close_assignments_def close_completions_def bq_close_ok
      dest: bq_push_ok bq_pop_ok)

lemma inv_count_update:
  assumes "inv_count st" "at_worker st w pc"
  shows "sum_list (map running ((ex_workers st)[w := pc'])) = ex_remaining st - running pc + running pc'"
    "running pc \<le> ex_remaining st"
  using at_worker_sum [OF assms(2), of running] assms(1) by (auto simp: inv_count_def)

lemma inv_count_set_worker:
  assumes "inv_count st" "at_worker st w pc" "ex_workers st' = ex_workers st"
    and "ex_remaining st' = ex_remaining st - running pc + running pc'"
  shows "inv_count (set_worker w pc' st')"
  unfolding inv_count_def using inv_count_update(1) [OF assms(1,2)] assms(3,4) by simp

lemma inv_count_same:
  assumes "inv_count st" "at_worker st w pc" "ex_workers st' = ex_workers st"
    and "ex_remaining st' = ex_remaining st" "running pc = running pc'"
  shows "inv_count (set_worker w pc' st')"
  using inv_count_set_worker [OF assms(1-3)] inv_count_update(2) [OF assms(1,2)] assms(4,5) by simp

lemma inv_count_other:
  "inv_count st \<Longrightarrow> ex_workers st' = ex_workers st \<Longrightarrow> ex_remaining st' = ex_remaining st \<Longrightarrow> inv_count st'"
  by (simp add: inv_count_def)

lemma inv_count_step: "exec_step P st st' \<Longrightarrow> inv_count st \<Longrightarrow> inv_count st'"
proof (induction rule: exec_step.induct)
  case (work_exit st w)
  then show ?case by (intro inv_count_set_worker [OF work_exit(3,1)]) simp_all
next
  case (work_exit_last st w)
  then show ?case by (intro inv_count_set_worker [OF work_exit_last(3,1)]) simp_all
next
  case (work_last st w)
  then show ?case by (intro inv_count_same [OF work_last(2,1)]) simp_all
qed (erule inv_count_same, assumption, simp, simp, simp | erule inv_count_other, simp, simp)+

lemma update_ex_nth:
  "(\<exists>i < length (xs[w := y]). p (xs[w := y] ! i)) \<Longrightarrow> w < length xs \<Longrightarrow>
     p y \<or> (\<exists>i < length xs. p (xs ! i))"
  by (auto simp: nth_list_update split: if_splits)

lemma inv_closed_step: "exec_step P st st' \<Longrightarrow> inv_closed st \<Longrightarrow> inv_closed st'"
proof (induction rule: exec_step.induct)
  case (work_last st w)
  then show ?case
    by (auto simp: inv_closed_def at_worker_def nth_list_update split: if_splits)
next
  case (work_close_completions st w)
  then show ?case
    by (auto simp: inv_closed_def at_worker_def nth_list_update split: if_splits)
next
  case (work_exit st w)
  then show ?case
    by (auto simp: inv_closed_def at_worker_def nth_list_update split: if_splits)
next
  case (work_exit_last st w)
  then show ?case
    by (auto simp: inv_closed_def at_worker_def nth_list_update split: if_splits)
qed (auto simp: inv_closed_def at_worker_def nth_list_update split: if_splits dest!: bq.outcomes)

lemma set_update_keeps: "x \<in> set xs \<Longrightarrow> w < length xs \<Longrightarrow> xs ! w \<noteq> x \<Longrightarrow> x \<in> set (xs[w := y])"
  by (metis in_set_conv_nth length_list_update nth_list_update_neq)

lemma inv_last_step:
  "exec_step P st st' \<Longrightarrow> inv_count st \<Longrightarrow> inv_last st \<Longrightarrow> inv_last st'"
proof (induction rule: exec_step.induct)
  case (work_exit st w)
  then have "1 \<le> ex_remaining st" using at_worker_sum [OF work_exit(1), of running] by (auto simp: inv_count_def)
  with work_exit show ?case by (auto simp: inv_last_def at_worker_def)
qed (auto simp: inv_last_def at_worker_def set_update_memI
      dest!: bq.outcomes intro: set_update_keeps)

lemma scheduler_enabled:
  assumes "ex_scheduler st \<noteq> S_done" "bq_closed (ex_assignments st) \<or> has_room (ex_assignments st)"
  shows "\<exists>st'. exec_step P st st'"
proof (cases "ex_scheduler st")
  case S_push
  show ?thesis
  proof (cases "ex_pending st")
    case Nil
    with S_push show ?thesis by (blast intro: sched_finished)
  next
    case (Cons b bs)
    obtain f q where "bq_push b (ex_assignments st) = Some (f, q)"
      using assms(2) bq.push_blocked [of b "ex_assignments st"] by fastforce
    with S_push Cons show ?thesis by (cases f) (auto intro: sched_push sched_rejected)
  qed
qed (use assms in \<open>auto intro: exec_step.intros\<close>)

lemma worker_enabled:
  assumes "at_worker st w pc" "pc \<noteq> W_stopped"
    and "pc = W_idle \<Longrightarrow> bq_closed (ex_assignments st) \<or> bq_queue (ex_assignments st) \<noteq> []"
    and "\<And>r. pc = W_holding r \<Longrightarrow> bq_closed (ex_completions st) \<or> has_room (ex_completions st)"
  shows "\<exists>st'. exec_step P st st'"
proof (cases pc)
  case W_start
  then show ?thesis using assms(1) by (cases "prog_start P") (blast intro: work_start work_start_error)+
next
  case W_idle
  obtain x q where x: "bq_pop (ex_assignments st) = Some (x, q)"
    using assms(3) [OF W_idle] bq.pop_blocked [of "ex_assignments st"] by fastforce
  show ?thesis
  proof (cases x)
    case None
    then show ?thesis using W_idle assms(1) x by (blast intro: work_drained)
  next
    case (Some b)
    then show ?thesis using W_idle assms(1) x
      by (cases "prog_work P w b") (blast intro: work_pop work_pop_error)+
  qed
next
  case (W_holding r)
  obtain f q where "bq_push r (ex_completions st) = Some (f, q)"
    using assms(4) [OF W_holding] bq.push_blocked [of r "ex_completions st"] by fastforce
  with W_holding assms(1) show ?thesis by (cases f) (auto intro: work_push work_rejected)
next
  case (W_error e)
  then show ?thesis using assms(1)
    by (cases e) (blast intro: work_record work_close_assignments work_close_completions)+
next
  case W_exit
  then show ?thesis using assms(1) by (cases "ex_remaining st = 1") (blast intro: work_exit work_exit_last)+
qed (use assms in \<open>auto intro: work_last\<close>)

lemma coordinator_enabled:
  assumes "ex_coordinator st \<noteq> C_done"
    and "ex_coordinator st = C_pop \<Longrightarrow> bq_closed (ex_completions st) \<or> bq_queue (ex_completions st) \<noteq> []"
  shows "\<exists>st'. exec_step P st st'"
proof (cases "ex_coordinator st")
  case C_pop
  obtain x q where x: "bq_pop (ex_completions st) = Some (x, q)"
    using assms(2) [OF C_pop] bq.pop_blocked [of "ex_completions st"] by fastforce
  show ?thesis
  proof (cases x)
    case None
    then show ?thesis using C_pop x by (blast intro: coord_drained)
  next
    case (Some r)
    obtain c thrown where "prog_consume P r (ex_consumer st) = (c, thrown)" by fastforce
    then show ?thesis using C_pop x Some
      by (cases thrown) (blast intro: coord_pop coord_pop_error)+
  qed
next
  case (C_error e)
  then show ?thesis
    by (cases e) (blast intro: coord_record coord_close_assignments coord_close_completions)+
qed (use assms in simp)

definition exec_inv :: "('b, 'r, 'c) exec_state \<Rightarrow> bool" where
  "exec_inv st \<longleftrightarrow> inv_queues st \<and> inv_count st \<and> inv_closed st \<and> inv_last st \<and> ex_workers st \<noteq> []"

lemma exec_inv_step: "exec_step P st st' \<Longrightarrow> exec_inv st \<Longrightarrow> exec_inv st'"
proof -
  assume s: "exec_step P st st'" and i: "exec_inv st"
  have "ex_workers st' \<noteq> []"
    using s i by (induction rule: exec_step.induct) (auto simp: exec_inv_def)
  then show "exec_inv st'"
    using s i inv_queues_step inv_count_step inv_closed_step inv_last_step unfolding exec_inv_def by blast
qed

lemma stopped_workers:
  assumes "inv_count st" "inv_last st" "\<forall>pc \<in> set (ex_workers st). pc = W_stopped"
  shows "bq_closed (ex_completions st)"
proof -
  have "sum_list (map running (ex_workers st)) = 0" using assms(3) by auto
  then have "ex_remaining st = 0" using assms(1) by (simp only: inv_count_def)
  then show ?thesis using assms(2,3) by (auto simp: inv_last_def)
qed

lemma exec_progress:
  assumes inv: "exec_inv st" and t: "\<not> exec_terminal st"
  shows "\<exists>st'. exec_step P st st'"
proof (rule ccontr)
  assume stuck: "\<nexists>st'. exec_step P st st'"
  let ?A = "ex_assignments st" and ?K = "ex_completions st"
  have q: "bq_ok ?A" "bq_ok ?K" using inv by (auto simp: exec_inv_def inv_queues_def)
  have closed: "bq_closed ?A"
    if "bq_closed ?K \<or> (\<exists>i < length (ex_workers st). leaving (ex_workers st ! i)) \<or> ex_scheduler st = S_done"
    using inv that by (auto simp: exec_inv_def inv_closed_def)
  have idle: "bq_closed ?A \<or> bq_queue ?A \<noteq> []"
  proof (rule ccontr)
    assume "\<not> (bq_closed ?A \<or> bq_queue ?A \<noteq> [])"
    then have "ex_scheduler st \<noteq> S_done" "has_room ?A"
      using closed bq_ok_empty_room [OF q(1)] by auto
    then show False using scheduler_enabled stuck by blast
  qed
  have "bq_closed ?K"
  proof (rule ccontr)
    assume o: "\<not> bq_closed ?K"
    then have "ex_coordinator st \<noteq> C_done" using inv by (auto simp: exec_inv_def inv_last_def)
    then have "bq_queue ?K = []" using coordinator_enabled [of st P] stuck by blast
    then have room: "has_room ?K" by (rule bq_ok_empty_room [OF q(2)])
    have "\<not> (\<forall>pc \<in> set (ex_workers st). pc = W_stopped)"
      using o stopped_workers inv by (auto simp: exec_inv_def)
    then obtain w pc where "at_worker st w pc" "pc \<noteq> W_stopped"
      by (metis at_worker_def in_set_conv_nth)
    then show False using worker_enabled [of st w pc P] idle room stuck by blast
  qed
  then have fin: "ex_coordinator st = C_done" "ex_scheduler st = S_done"
    using coordinator_enabled [of st P] scheduler_enabled [of st P] closed stuck by blast+
  have "pc = W_stopped" if m: "pc \<in> set (ex_workers st)" for pc
  proof -
    obtain w where "w < length (ex_workers st)" "ex_workers st ! w = pc"
      using m by (auto simp: in_set_conv_nth)
    then have "at_worker st w pc" by (simp add: at_worker_def)
    then show ?thesis using worker_enabled [of st w pc P] idle \<open>bq_closed ?K\<close> stuck by blast
  qed
  with fin t show False by (simp add: exec_terminal_def)
qed

lemma exec_initial_inv:
  assumes "0 < n" "bq_ok a" "bq_ok k" "\<not> bq_closed k"
  shows "exec_inv (exec_initial n a k items c)"
proof -
  have "sum_list (map running (replicate n (W_start :: 'b worker_pc))) = n"
    by (simp add: sum_list_replicate)
  then show ?thesis
    using assms by (auto simp: exec_inv_def inv_queues_def inv_count_def inv_closed_def inv_last_def
        exec_initial_def)
qed

text \<open>Hence every execution that goes on as long as it can reaches a terminal state.\<close>

lemma exec_reaches_terminal:
  "exec_inv st \<Longrightarrow> \<exists>st'. (exec_step P)\<^sup>*\<^sup>* st st' \<and> exec_terminal st'"
proof (induction "exec_weight st" arbitrary: st rule: less_induct)
  case less
  show ?case
  proof (cases "exec_terminal st")
    case False
    obtain u where u: "exec_step P st u" using exec_progress [OF less.prems False] by blast
    with less.hyps [OF exec_step_weight [OF u] exec_inv_step [OF u less.prems]]
    show ?thesis by (meson converse_rtranclp_into_rtranclp)
  qed blast
qed

section \<open>Every item is processed exactly once\<close>

definition clean :: "('b, 'r, 'c) exec_state \<Rightarrow> bool" where
  "clean st \<longleftrightarrow>
     ex_first_error st = None \<and> (\<forall>w e. \<not> at_worker st w (W_error e)) \<and> (\<forall>e. ex_coordinator st \<noteq> C_error e)"

definition inv_error :: "('b, 'r, 'c) exec_state \<Rightarrow> bool" where
  "inv_error st \<longleftrightarrow>
     ((\<exists>w. at_worker st w (W_error Close_assignments) \<or> at_worker st w (W_error Close_completions)) \<or>
      ex_coordinator st = C_error Close_assignments \<or> ex_coordinator st = C_error Close_completions
      \<longrightarrow> ex_first_error st \<noteq> None)"

fun holding :: "'r worker_pc \<Rightarrow> 'r multiset" where
  "holding (W_holding r) = {#r#}"
| "holding _ = {#}"

definition held :: "('b, 'r, 'c) exec_state \<Rightarrow> 'r multiset" where
  "held st = sum_list (map holding (ex_workers st))"

definition results_in_flight :: "('b, 'r, 'c) exec_state \<Rightarrow> 'r multiset" where
  "results_in_flight st = held st + mset (bq_queue (ex_completions st)) + mset (ex_history st)"

definition in_flight :: "('r \<Rightarrow> 'b) \<Rightarrow> ('b, 'r, 'c) exec_state \<Rightarrow> 'b multiset" where
  "in_flight src st =
     mset (ex_pending st) + mset (bq_queue (ex_assignments st)) + image_mset src (results_in_flight st)"

lemma at_worker_set [simp]:
  "at_worker (set_worker w pc st) v pc' \<longleftrightarrow>
     v < length (ex_workers st) \<and> (if v = w then pc' = pc else at_worker st v pc')"
  by (auto simp: at_worker_def nth_list_update)

lemma at_worker_other [simp]:
  "at_worker (note_error e st) v pc = at_worker st v pc"
  "at_worker (close_assignments st) v pc = at_worker st v pc"
  "at_worker (close_completions st) v pc = at_worker st v pc"
  "at_worker (st\<lparr>ex_assignments := a\<rparr>) v pc = at_worker st v pc"
  "at_worker (st\<lparr>ex_completions := k\<rparr>) v pc = at_worker st v pc"
  "at_worker (st\<lparr>ex_pending := bs\<rparr>) v pc = at_worker st v pc"
  "at_worker (st\<lparr>ex_remaining := n\<rparr>) v pc = at_worker st v pc"
  "at_worker (st\<lparr>ex_scheduler := sc\<rparr>) v pc = at_worker st v pc"
  "at_worker (st\<lparr>ex_coordinator := co\<rparr>) v pc = at_worker st v pc"
  "at_worker (st\<lparr>ex_consumer := c\<rparr>) v pc = at_worker st v pc"
  "at_worker (st\<lparr>ex_history := h\<rparr>) v pc = at_worker st v pc"
  by (simp_all add: at_worker_def)

lemma at_worker_fun:
  "at_worker st w pc \<Longrightarrow> at_worker st w pc' \<Longrightarrow> pc = pc'"
  "at_worker st w pc \<Longrightarrow> w < length (ex_workers st)"
  by (simp_all add: at_worker_def)

lemma at_worker_cong: "ex_workers st = ex_workers st' \<Longrightarrow> at_worker st w pc = at_worker st' w pc"
  by (simp add: at_worker_def)

lemma inv_error_step: "exec_step P st st' \<Longrightarrow> inv_error st \<Longrightarrow> inv_error st'"
  by (erule exec_step.cases)
    (auto simp: inv_error_def at_worker_def nth_list_update split: if_splits)

lemma clean_step_back:
  assumes "exec_step P st st'" "inv_error st" "clean st'"
  shows "clean st"
  using assms
  by (cases rule: exec_step.cases)
    (auto simp: clean_def inv_error_def at_worker_def nth_list_update split: if_splits)

lemma sum_list_update_mset:
  "w < length xs \<Longrightarrow> sum_list (map f (xs[w := y])) + f (xs ! w) = sum_list (map f xs) + (f y :: 'm multiset)"
  by (induction xs arbitrary: w) (auto split: nat.splits simp: ac_simps)

lemma held_set_worker:
  assumes "at_worker st w pc" "ex_workers st' = ex_workers st"
  shows "held (set_worker w pc' st') + holding pc = held st + holding pc'"
  using sum_list_update_mset [of w "ex_workers st" holding pc'] assms
  by (simp add: held_def at_worker_def)

lemma held_other: "ex_workers st' = ex_workers st \<Longrightarrow> held st' = held st"
  by (simp add: held_def)

text \<open>While nothing has gone wrong: only the scheduler closes the assignment queue, after its last
  item; workers leave only when that queue is drained; the completion queue is closed by the last
  worker; and the coordinator stops only when it is drained.\<close>

definition inv_clean :: "('b, 'r, 'c) exec_state \<Rightarrow> bool" where
  "inv_clean st \<longleftrightarrow>
     (bq_closed (ex_assignments st) \<longrightarrow> ex_scheduler st = S_done) \<and>
     (ex_scheduler st \<noteq> S_push \<longrightarrow> ex_pending st = []) \<and>
     ((\<exists>w pc. at_worker st w pc \<and> leaving pc) \<longrightarrow> bq_queue (ex_assignments st) = []) \<and>
     ((\<exists>w. at_worker st w W_last) \<or> bq_closed (ex_completions st) \<longrightarrow> ex_remaining st = 0) \<and>
     (ex_coordinator st = C_done \<longrightarrow> bq_queue (ex_completions st) = [])"

lemma leaving_closed:
  "inv_closed st \<Longrightarrow> at_worker st w pc \<Longrightarrow> leaving pc \<Longrightarrow> bq_closed (ex_assignments st)"
  by (auto simp: inv_closed_def at_worker_def)

lemma at_worker_remaining: "inv_count st \<Longrightarrow> at_worker st w pc \<Longrightarrow> running pc = 1 \<Longrightarrow> ex_remaining st \<noteq> 0"
  using inv_count_update(2) [of st w pc] by auto

lemma inv_clean_step:
  assumes "exec_step P st st'" "exec_inv st" "clean st" "clean st'" "inv_clean st"
  shows "inv_clean st'"
proof -
  note inv = assms(2) [unfolded exec_inv_def]
  from assms(1) show ?thesis
  proof cases
    case (sched_push b bs q)
    then have o: "\<not> bq_closed (ex_assignments st)" "\<not> bq_closed q" by (auto dest: bq.push_pushed)
    then have "\<not> (\<exists>w pc. at_worker st w pc \<and> leaving pc)" using inv leaving_closed by blast
    moreover have eq: "at_worker st' w pc = at_worker st w pc" for w pc
      by (simp add: sched_push(1) at_worker_def)
    moreover have "(\<exists>w. at_worker st w W_last) \<or> bq_closed (ex_completions st) \<longrightarrow> ex_remaining st = 0"
      "ex_coordinator st = C_done \<longrightarrow> bq_queue (ex_completions st) = []"
      using assms(5) by (simp_all add: inv_clean_def)
    ultimately show ?thesis unfolding inv_clean_def eq using o(2) by (simp add: sched_push(1,2)) blast
  next
    case (sched_rejected b bs q)
    have "bq_closed (ex_assignments st)" using bq.push_rejected [OF sched_rejected(4)] by simp
    with sched_rejected assms(5) show ?thesis by (auto simp: inv_clean_def)
  next
    case (work_pop w b q r)
    then show ?thesis using assms(5) bq.pop_popped [OF work_pop(3)]
      by (auto simp: inv_clean_def split: if_splits)
  next
    case (work_drained w q)
    then show ?thesis using assms(5) bq.pop_drained [OF work_drained(3)]
      by (auto simp: inv_clean_def split: if_splits)
  next
    case (work_push w r q)
    then have "\<not> bq_closed (ex_completions st)" "\<not> bq_closed q" by (auto dest: bq.push_pushed)
    moreover have "ex_coordinator st \<noteq> C_done" using calculation inv by (auto simp: inv_last_def)
    ultimately show ?thesis using work_push assms(5) by (auto simp: inv_clean_def split: if_splits)
  next
    case (work_rejected w r q)
    have "bq_closed (ex_completions st)" using bq.push_rejected [OF work_rejected(3)] by simp
    then have "ex_remaining st = 0" using assms(5) by (auto simp: inv_clean_def)
    then show ?thesis using at_worker_remaining [OF _ work_rejected(2)] inv by simp
  next
    case (work_exit w)
    have "leaving (W_exit :: 'b worker_pc)" by simp
    then have "bq_queue (ex_assignments st) = []" using assms(5) work_exit(2) unfolding inv_clean_def by blast
    moreover have "at_worker st' v W_last \<Longrightarrow> at_worker st v W_last" for v
      unfolding work_exit(1) by (auto split: if_splits)
    moreover have "(\<exists>w. at_worker st w W_last) \<or> bq_closed (ex_completions st) \<Longrightarrow> ex_remaining st = 0"
      using assms(5) unfolding inv_clean_def by blast
    moreover have "ex_assignments st' = ex_assignments st" "ex_completions st' = ex_completions st"
      "ex_scheduler st' = ex_scheduler st" "ex_coordinator st' = ex_coordinator st"
      "ex_pending st' = ex_pending st" "ex_remaining st' = ex_remaining st - 1"
      by (simp_all add: work_exit(1))
    ultimately show ?thesis using assms(5) unfolding inv_clean_def by (intro conjI impI) auto
  next
    case (coord_pop r q c)
    then show ?thesis using assms(5) bq.pop_popped [OF coord_pop(3)]
      by (auto simp: inv_clean_def at_worker_def)
  next
    case (coord_drained q)
    then show ?thesis using assms(5) bq.pop_drained [OF coord_drained(3)]
      by (auto simp: inv_clean_def at_worker_def)
  qed (use assms in \<open>auto simp: inv_clean_def clean_def at_worker_def nth_list_update split: if_splits\<close>)
qed

definition produced :: "('b, 'r, 'c) exec_program \<Rightarrow> ('r \<Rightarrow> 'b) \<Rightarrow> 'r \<Rightarrow> bool" where
  "produced P src r \<longleftrightarrow> (\<exists>w. prog_work P w (src r) = Inr r)"

text \<open>A program whose results name the item they come from.\<close>

locale traced_program =
  fixes P :: "('b, 'r, 'c) exec_program" and src :: "'r \<Rightarrow> 'b"
  assumes src_work: "prog_work P w b = Inr r \<Longrightarrow> src r = b"
begin

lemma in_flight_step:
  assumes "exec_step P st st'" "inv_error st" "clean st'" "inv_clean st" "exec_inv st"
  shows "in_flight src st' = in_flight src st"
proof -
  have c: "clean st" using clean_step_back [OF assms(1-3)] .
  from assms(1) show ?thesis
  proof cases
    case (sched_push b bs q)
    then show ?thesis using bq.push_pushed [OF sched_push(4)] held_other [of st' st]
      by (simp add: in_flight_def results_in_flight_def)
  next
    case (work_start w u)
    then show ?thesis using held_set_worker [OF work_start(2), of st W_idle]
      by (simp add: in_flight_def results_in_flight_def)
  next
    case (work_pop w b q r)
    have "held st' = held st + {#r#}"
      using held_set_worker [OF work_pop(2), of "st\<lparr>ex_assignments := q\<rparr>" "W_holding r"] work_pop(1) by simp
    then show ?thesis using bq.pop_popped [OF work_pop(3)] src_work [OF work_pop(4)] work_pop(1)
      by (simp add: in_flight_def results_in_flight_def)
  next
    case (work_drained w q)
    then show ?thesis using held_set_worker [OF work_drained(2), of st W_exit]
      by (simp add: in_flight_def results_in_flight_def)
  next
    case (work_push w r q)
    have "held st' + {#r#} = held st"
      using held_set_worker [OF work_push(2), of "st\<lparr>ex_completions := q\<rparr>" W_idle] work_push(1) by simp
    from this [symmetric] have "image_mset src (held st) = image_mset src (held st') + {#src r#}" by simp
    then show ?thesis using bq.push_pushed [OF work_push(3)] work_push(1)
      by (simp add: in_flight_def results_in_flight_def)
  next
    case (work_rejected w r q)
    have "bq_closed (ex_completions st)" using bq.push_rejected [OF work_rejected(3)] by simp
    then have "ex_remaining st = 0" using assms(4) by (auto simp: inv_clean_def)
    then show ?thesis using at_worker_remaining [OF _ work_rejected(2)] assms(5) by (simp add: exec_inv_def)
  next
    case (work_exit w)
    then show ?thesis using held_set_worker [OF work_exit(2), of "st\<lparr>ex_remaining := ex_remaining st - 1\<rparr>" W_stopped]
      by (simp add: in_flight_def results_in_flight_def)
  next
    case (work_exit_last w)
    then show ?thesis using held_set_worker [OF work_exit_last(2), of "st\<lparr>ex_remaining := 0\<rparr>" W_last]
      by (simp add: in_flight_def results_in_flight_def)
  next
    case (work_last w)
    then show ?thesis using held_set_worker [OF work_last(2), of "close_completions st" W_stopped]
      by (simp add: in_flight_def results_in_flight_def)
  next
    case (coord_pop r q c)
    then show ?thesis using bq.pop_popped [OF coord_pop(3)] held_other [of st' st]
      by (simp add: in_flight_def results_in_flight_def)
  qed (use assms(3) c in \<open>auto simp: in_flight_def results_in_flight_def held_def clean_def at_worker_def\<close>)
qed

lemma produced_set_worker:
  assumes "at_worker st w pc" "ex_workers st' = ex_workers st" "holding pc' = {#}"
    "bq_queue (ex_completions st') = bq_queue (ex_completions st)" "ex_history st' = ex_history st"
    "\<forall>r \<in># results_in_flight st. Q r"
  shows "\<forall>r \<in># results_in_flight (set_worker w pc' st'). Q r"
proof -
  have "held (set_worker w pc' st') \<subseteq># held st"
    using held_set_worker [OF assms(1,2), of pc'] assms(3) by (metis add.right_neutral mset_subset_eq_add_left)
  then have "set_mset (held (set_worker w pc' st')) \<subseteq> set_mset (held st)" by (rule set_mset_mono)
  then show ?thesis using assms(4-6) by (auto simp: results_in_flight_def)
qed

lemma produced_other:
  assumes "\<forall>r \<in># results_in_flight st. Q r" "ex_workers st' = ex_workers st"
    "set (bq_queue (ex_completions st')) \<union> set (ex_history st') \<subseteq>
     set (bq_queue (ex_completions st)) \<union> set (ex_history st)"
  shows "\<forall>r \<in># results_in_flight st'. Q r"
  using assms held_other [OF assms(2)] by (auto simp: results_in_flight_def)

lemma produced_step:
  "exec_step P st st' \<Longrightarrow> \<forall>r \<in># results_in_flight st. produced P src r \<Longrightarrow>
     \<forall>r \<in># results_in_flight st'. produced P src r"
proof (induction rule: exec_step.induct)
  case (work_pop st w b q r)
  have "produced P src r" using work_pop(3) src_work by (auto simp: produced_def)
  moreover have "held (set_worker w (W_holding r) (st\<lparr>ex_assignments := q\<rparr>)) = held st + {#r#}"
    using held_set_worker [OF work_pop(1), of "st\<lparr>ex_assignments := q\<rparr>" "W_holding r"] by simp
  ultimately show ?case using work_pop(4) by (simp add: results_in_flight_def)
next
  case (work_push st w r q)
  have "held (set_worker w W_idle (st\<lparr>ex_completions := q\<rparr>)) + {#r#} = held st"
    using held_set_worker [OF work_push(1), of "st\<lparr>ex_completions := q\<rparr>" W_idle] by simp
  from this [symmetric] show ?case
    using work_push(3) bq.push_pushed [OF work_push(2)] by (simp add: results_in_flight_def)
next
  case (coord_pop st r q c)
  then show ?case using bq.pop_popped [OF coord_pop(2)] by (intro produced_other [OF coord_pop(4)]) auto
next
  case (coord_pop_error st r q c e)
  then show ?case using bq.pop_popped [OF coord_pop_error(2)] by (intro produced_other [OF coord_pop_error(4)]) auto
qed (erule produced_set_worker, simp, simp, simp, simp, assumption | erule produced_other, simp, simp)+

lemma consumed_step:
  assumes "exec_step P st st'" "clean st'" "fold_result (consume_step P) (ex_history st) c0 = Inr (ex_consumer st)"
  shows "fold_result (consume_step P) (ex_history st') c0 = Inr (ex_consumer st')"
  using assms by (cases rule: exec_step.cases) (auto simp: fold_result_append consume_step_def clean_def)

definition traced_inv :: "'b list \<Rightarrow> 'c \<Rightarrow> ('b, 'r, 'c) exec_state \<Rightarrow> bool" where
  "traced_inv items c0 st \<longleftrightarrow>
     exec_inv st \<and> inv_error st \<and>
     (clean st \<longrightarrow> inv_clean st \<and> in_flight src st = mset items \<and>
        fold_result (consume_step P) (ex_history st) c0 = Inr (ex_consumer st)) \<and>
     (\<forall>r \<in># results_in_flight st. produced P src r)"

lemma traced_inv_step:
  assumes "exec_step P st st'" "traced_inv items c0 st"
  shows "traced_inv items c0 st'"
proof -
  note i = assms(2) [unfolded traced_inv_def]
  have "inv_clean st' \<and> in_flight src st' = mset items \<and>
      fold_result (consume_step P) (ex_history st') c0 = Inr (ex_consumer st')" if c: "clean st'"
  proof -
    have "clean st" using clean_step_back assms(1) i c by blast
    then show ?thesis
      using inv_clean_step [OF assms(1) _ _ c] in_flight_step [OF assms(1) _ c] consumed_step [OF assms(1) c] i by simp
  qed
  then show ?thesis
    unfolding traced_inv_def
    using exec_inv_step [OF assms(1)] inv_error_step [OF assms(1)] produced_step [OF assms(1)] i
    by blast
qed

lemma traced_inv_initial:
  assumes "0 < n" "bq_ok a" "bq_ok k" "\<not> bq_closed a" "\<not> bq_closed k" "bq_queue a = []" "bq_queue k = []"
  shows "traced_inv items c0 (exec_initial n a k items c0)"
proof -
  have h: "held (exec_initial n a k items c0 :: ('b, 'r, 'c) exec_state) = {#}"
    by (induction n) (simp_all add: held_def exec_initial_def)
  have "at_worker (exec_initial n a k items c0 :: ('b, 'r, 'c) exec_state) w pc \<Longrightarrow> pc = W_start" for w pc
    by (auto simp: at_worker_def exec_initial_def)
  then have "inv_error (exec_initial n a k items c0 :: ('b, 'r, 'c) exec_state)"
    "inv_clean (exec_initial n a k items c0 :: ('b, 'r, 'c) exec_state)"
    using assms by (fastforce simp: inv_error_def inv_clean_def exec_initial_def)+
  then show ?thesis
    using exec_initial_inv assms h
    by (simp add: traced_inv_def in_flight_def results_in_flight_def) (simp add: exec_initial_def)
qed

lemma traced_inv_reachable:
  "(exec_step P)\<^sup>*\<^sup>* st st' \<Longrightarrow> traced_inv items c0 st \<Longrightarrow> traced_inv items c0 st'"
  by (induction rule: rtranclp_induct) (auto intro: traced_inv_step)

lemma terminal_exactly_once:
  assumes i: "traced_inv items c0 st" and t: "exec_terminal st" and e: "ex_first_error st = None"
  shows "image_mset src (mset (ex_history st)) = mset items"
    "\<forall>r \<in> set (ex_history st). produced P src r"
    "fold_result (consume_step P) (ex_history st) c0 = Inr (ex_consumer st)"
proof -
  note i' = i [unfolded traced_inv_def]
  have stopped: "at_worker st w pc \<Longrightarrow> pc = W_stopped" for w pc
    using t by (auto simp: at_worker_def exec_terminal_def)
  then have c: "clean st" using t e by (fastforce simp: clean_def exec_terminal_def)
  have "ex_workers st \<noteq> []" using i' by (simp add: exec_inv_def)
  then have "at_worker st 0 W_stopped" using t by (simp add: at_worker_def exec_terminal_def)
  then have "\<exists>w pc. at_worker st w pc \<and> leaving pc" by (meson leaving.simps(4))
  then have q: "ex_pending st = []" "bq_queue (ex_assignments st) = []" "bq_queue (ex_completions st) = []"
    using i' c t unfolding inv_clean_def exec_terminal_def by auto
  have "held st = {#}"
  proof -
    have "sum_list (map holding ws) = {#}" if "\<forall>pc \<in> set ws. pc = W_stopped" for ws :: "'r worker_pc list"
      using that by (induction ws) auto
    then show ?thesis using t by (simp add: held_def exec_terminal_def)
  qed
  then show "image_mset src (mset (ex_history st)) = mset items"
    using i' c q by (simp add: in_flight_def results_in_flight_def)
  show "\<forall>r \<in> set (ex_history st). produced P src r" using i' by (simp add: results_in_flight_def)
  show "fold_result (consume_step P) (ex_history st) c0 = Inr (ex_consumer st)" using i' c by blast
qed

definition cannot_fail :: "'b list \<Rightarrow> 'c \<Rightarrow> bool" where
  "cannot_fail items c0 \<longleftrightarrow>
     is_Inr (prog_start P) \<and> (\<forall>w. \<forall>b \<in> set items. is_Inr (prog_work P w b)) \<and>
     (\<forall>rs. image_mset src (mset rs) \<subseteq># mset items \<and> (\<forall>r \<in> set rs. produced P src r)
        \<longrightarrow> is_Inr (fold_result (consume_step P) rs c0))"

lemma clean_step:
  assumes "exec_step P st st'" "traced_inv items c0 st" "cannot_fail items c0" "clean st"
  shows "clean st'"
proof -
  note i = assms(2) [unfolded traced_inv_def] and ok = assms(3) [unfolded cannot_fail_def]
  have fl: "in_flight src st = mset items" using i assms(4) by blast
  from assms(1) show ?thesis
  proof cases
    case (work_start_error w e)
    then show ?thesis using ok by simp
  next
    case (work_pop_error w b q e)
    have "b \<in># in_flight src st" using bq.pop_popped [OF work_pop_error(3)] by (simp add: in_flight_def)
    then have "b \<in> set items" by (simp add: fl)
    then show ?thesis using ok work_pop_error(4) by (metis is_Inr_simps(2))
  next
    case (coord_pop_error r q c e)
    have "bq_queue (ex_completions st) = r # bq_queue q" using bq.pop_popped [OF coord_pop_error(3)] by simp
    then have "image_mset src (mset (ex_history st @ [r])) \<subseteq># in_flight src st"
      and "\<forall>x \<in> set (ex_history st @ [r]). produced P src x"
      using i by (auto simp: in_flight_def results_in_flight_def)
    then have "is_Inr (fold_result (consume_step P) (ex_history st @ [r]) c0)" using ok fl by auto
    then show ?thesis using i assms(4) coord_pop_error(4) by (simp add: fold_result_append consume_step_def)
  qed (use assms(4) in \<open>auto simp: clean_def at_worker_fun split: if_splits\<close>)
qed

text \<open>Errors or not, only items and results of items are ever under way.\<close>

definition tracked :: "'b list \<Rightarrow> ('b, 'r, 'c) exec_state \<Rightarrow> bool" where
  "tracked items st \<longleftrightarrow>
     set (ex_pending st) \<union> set (bq_queue (ex_assignments st)) \<subseteq> set items \<and>
     (\<forall>r \<in># results_in_flight st. produced P src r \<and> src r \<in> set items)"

lemma tracked_other:
  assumes "tracked items st" "ex_workers st' = ex_workers st"
    "set (ex_pending st') \<union> set (bq_queue (ex_assignments st')) \<subseteq> set (ex_pending st) \<union> set (bq_queue (ex_assignments st))"
    "set (bq_queue (ex_completions st')) \<union> set (ex_history st') \<subseteq>
     set (bq_queue (ex_completions st)) \<union> set (ex_history st)"
  shows "tracked items st'"
  using produced_other [of st "\<lambda>r. produced P src r \<and> src r \<in> set items" st'] assms by (auto simp: tracked_def)

lemma tracked_set_worker:
  assumes "at_worker st w pc" "tracked items st" "holding pc' = {#}" "ex_workers st' = ex_workers st"
    "set (ex_pending st') \<union> set (bq_queue (ex_assignments st')) \<subseteq> set (ex_pending st) \<union> set (bq_queue (ex_assignments st))"
    "bq_queue (ex_completions st') = bq_queue (ex_completions st)" "ex_history st' = ex_history st"
  shows "tracked items (set_worker w pc' st')"
  using produced_set_worker [OF assms(1,4,3,6,7), of "\<lambda>r. produced P src r \<and> src r \<in> set items"] assms(2,5)
  by (auto simp: tracked_def)

lemma tracked_step: "exec_step P st st' \<Longrightarrow> tracked items st \<Longrightarrow> tracked items st'"
proof (induction rule: exec_step.induct)
  case (work_pop st w b q r)
  have "produced P src r" "src r \<in> set items"
    using work_pop src_work [OF work_pop(3)] bq.pop_popped [OF work_pop(2)] by (auto simp: produced_def tracked_def)
  moreover have "held (set_worker w (W_holding r) (st\<lparr>ex_assignments := q\<rparr>)) = held st + {#r#}"
    using held_set_worker [OF work_pop(1), of "st\<lparr>ex_assignments := q\<rparr>" "W_holding r"] by simp
  ultimately show ?case using work_pop(4) bq.pop_popped [OF work_pop(2)] by (simp add: tracked_def results_in_flight_def)
next
  case (work_push st w r q)
  have "held (set_worker w W_idle (st\<lparr>ex_completions := q\<rparr>)) + {#r#} = held st"
    using held_set_worker [OF work_push(1), of "st\<lparr>ex_completions := q\<rparr>" W_idle] by simp
  from this [symmetric] show ?case
    using work_push(3) bq.push_pushed [OF work_push(2)] by (simp add: tracked_def results_in_flight_def)
next
  case (coord_pop st r q c)
  have "bq_queue (ex_completions st) = r # bq_queue q" using bq.pop_popped [OF coord_pop(2)] by simp
  then show ?case by (intro tracked_other [OF coord_pop(4)]) auto
next
  case (coord_pop_error st r q c e)
  have "bq_queue (ex_completions st) = r # bq_queue q" using bq.pop_popped [OF coord_pop_error(2)] by simp
  then show ?case by (intro tracked_other [OF coord_pop_error(4)]) auto
next
  case (sched_push st b bs q)
  have "bq_queue q = bq_queue (ex_assignments st) @ [b]" using bq.push_pushed [OF sched_push(3)] by simp
  then show ?case using sched_push(2) by (intro tracked_other [OF sched_push(4)]) auto
next
  case (work_pop_error st w b q e)
  have "bq_queue (ex_assignments st) = b # bq_queue q" using bq.pop_popped [OF work_pop_error(2)] by simp
  then show ?case by (intro tracked_set_worker [OF work_pop_error(1,4)]) auto
qed (rule tracked_set_worker, assumption, assumption, simp, simp, simp, simp, simp | erule tracked_other, simp, simp, simp)+

lemma tracked_initial: "bq_queue a = [] \<Longrightarrow> bq_queue k = [] \<Longrightarrow> tracked items (exec_initial n a k items c0)"
proof -
  assume "bq_queue a = []" "bq_queue k = []"
  moreover have "held (exec_initial n a k items c0 :: ('b, 'r, 'c) exec_state) = {#}"
    by (induction n) (simp_all add: held_def exec_initial_def)
  ultimately show ?thesis
    by (simp add: tracked_def results_in_flight_def) (simp add: exec_initial_def)
qed

text \<open>An invariant of the consumer: \<open>I\<close> as long as it does not throw, \<open>J\<close> also when it does.\<close>

lemma consumer_invariant:
  assumes consume: "\<And>r c. I c \<Longrightarrow> produced P src r \<Longrightarrow> src r \<in> set items \<Longrightarrow>
      case prog_consume P r c of (c', None) \<Rightarrow> I c' | (c', Some e) \<Rightarrow> J c'"
    and weak: "\<And>c. I c \<Longrightarrow> J c"
    and reach: "(exec_step P)\<^sup>*\<^sup>* (exec_initial n a k items c0) st"
    and start: "bq_queue a = []" "bq_queue k = []" "I c0"
  shows "J (ex_consumer st)" "exec_terminal st \<Longrightarrow> ex_first_error st = None \<Longrightarrow> I (ex_consumer st)"
proof -
  let ?inv = "\<lambda>st :: ('b, 'r, 'c) exec_state. tracked items st \<and> inv_error st \<and> J (ex_consumer st) \<and>
    (ex_coordinator st = C_pop \<or> clean st \<longrightarrow> I (ex_consumer st))"
  let ?init = "exec_initial n a k items c0 :: ('b, 'r, 'c) exec_state"
  have "at_worker ?init w pc \<Longrightarrow> pc = W_start" for w pc by (auto simp: at_worker_def exec_initial_def)
  then have "inv_error ?init" by (fastforce simp: inv_error_def exec_initial_def)
  then have init: "?inv ?init" using tracked_initial start weak by (simp add: exec_initial_def)
  have preserved: "?inv st'" if s: "exec_step P u st'" and u: "?inv u" for u st'
  proof -
    have t: "tracked items st'" "inv_error st'" using tracked_step inv_error_step s u by blast+
    have backwards: "clean st' \<Longrightarrow> clean u" using clean_step_back s u by blast
    from s have "J (ex_consumer st') \<and> (ex_coordinator st' = C_pop \<or> clean st' \<longrightarrow> I (ex_consumer st'))"
    proof cases
      case (coord_pop r q c)
      have "r \<in># results_in_flight u" using bq.pop_popped [OF coord_pop(3)] by (simp add: results_in_flight_def)
      then have "produced P src r" "src r \<in> set items" using u by (auto simp: tracked_def)
      then have "I c" using consume [of "ex_consumer u" r] u coord_pop by simp
      then show ?thesis using weak coord_pop by simp
    next
      case (coord_pop_error r q c e)
      have "r \<in># results_in_flight u" using bq.pop_popped [OF coord_pop_error(3)] by (simp add: results_in_flight_def)
      then have "produced P src r" "src r \<in> set items" using u by (auto simp: tracked_def)
      then have "J c" using consume [of "ex_consumer u" r] u coord_pop_error by simp
      then show ?thesis using coord_pop_error by (simp add: clean_def)
    qed (use u backwards in auto)
    then show ?thesis using t by blast
  qed
  from reach have inv: "?inv st"
  proof (induction rule: rtranclp_induct)
    case base
    show ?case by (rule init)
  next
    case (step u v)
    show ?case by (rule preserved [OF step(2,3)])
  qed
  then show "J (ex_consumer st)" by blast
  assume t: "exec_terminal st" and e: "ex_first_error st = None"
  have "at_worker st w pc \<Longrightarrow> pc = W_stopped" for w pc
    using t by (auto simp: at_worker_def exec_terminal_def)
  then have "clean st" using t e by (fastforce simp: clean_def exec_terminal_def)
  then show "I (ex_consumer st)" using inv by blast
qed

lemma reachable_clean:
  assumes "(exec_step P)\<^sup>*\<^sup>* st st'" "traced_inv items c0 st" "cannot_fail items c0" "clean st"
  shows "clean st'"
  using assms
proof (induction rule: rtranclp_induct)
  case (step u v)
  then show ?case using clean_step traced_inv_reachable by blast
qed

end

section \<open>Properties\<close>

text \<open>C8. No deadlock and no endless run: from the initial state on, as long as not all threads have
  stopped some thread can take a step, whatever the work items, errors included, and every step
  strictly decreases a natural number.\<close>

theorem threads_never_stuck:
  assumes "0 < n" "new_bounded_queue x None = Inr a" "new_bounded_queue y None = Inr k"
    and "(exec_step P)\<^sup>*\<^sup>* (exec_initial n a k items c0) st"
  shows "(exec_terminal st \<or> (\<exists>st'. exec_step P st st')) \<and>
    (\<forall>st'. exec_step P st st' \<longrightarrow> exec_weight st' < exec_weight st)"
proof -
  have "exec_inv (exec_initial n a k items c0)"
    using assms(1) new_bounded_queue_ok [OF assms(2)] new_bounded_queue_ok [OF assms(3)]
    by (intro exec_initial_inv) auto
  with assms(4) have "exec_inv st" by (induction rule: rtranclp_induct) (auto intro: exec_inv_step)
  then show ?thesis using exec_progress exec_step_weight by blast
qed

theorem threads_never_stuck_witness:
  "\<exists>(a :: nat bounded_queue) (k :: nat bounded_queue) st'.
     new_bounded_queue 1 None = Inr a \<and> new_bounded_queue 1 None = Inr k \<and>
     exec_step \<lparr>prog_start = Inr (), prog_work = (\<lambda>w b. Inr b), prog_consume = (\<lambda>r c. (c + r, None))\<rparr>
       (exec_initial 2 a k [5, 6, 7] (0 :: nat)) st'"
proof -
  let ?P = "\<lparr>prog_start = Inr (), prog_work = (\<lambda>w b. Inr b), prog_consume = (\<lambda>r c. (c + r, None))\<rparr>
    :: (nat, nat, nat) exec_program"
  obtain a :: "nat bounded_queue" where a: "new_bounded_queue 1 None = Inr a"
    by (simp add: new_bounded_queue_def)
  have n: "(0 :: nat) < 2" by simp
  let ?st = "exec_initial 2 a a [5, 6, 7] (0 :: nat)"
  have "exec_terminal ?st \<or> (\<exists>st'. exec_step ?P ?st st')"
    using threads_never_stuck [OF n a a rtranclp.rtrancl_refl, of "[5, 6, 7]" 0 ?P] by (rule conjunct1)
  moreover have "\<not> exec_terminal ?st" by (simp add: exec_terminal_def exec_initial_def)
  ultimately show ?thesis using a by blast
qed

end
