(* ===== verification/Engine_Run.thy ===== *)
theory Engine_Run
  imports Coordinator Parallel_Execution
begin

text \<open>
  The parallel run (\<^verbatim>\<open>execute_missing_blocks\<close> and \<^verbatim>\<open>run_parallel\<close> of \<^verbatim>\<open>src/runtime/engine.cpp\<close>):
  the step relation of \<open>Parallel_Execution\<close> on the engine's own workers and
  consumer.  Its outcome is a relation, because the interleaving is not determined;
  the theorems show that the result nevertheless is: whatever the interleaving, the
  number of workers and the queue capacities, a run returns exactly what the
  sequential computation of the blocks returns.
\<close>

section \<open>Model\<close>

text \<open>The body of a worker thread and the caller's consumer.\<close>

definition engine_program ::
  "libm \<Rightarrow> run_spec \<Rightarrow> coordinator_state \<Rightarrow> (block_result \<Rightarrow> 'c \<Rightarrow> 'c \<times> exn option)
     \<Rightarrow> (scenario_block, block_result, 'c) exec_program" where
  "engine_program L spec coordinator consume =
     \<lparr>prog_start = rbind (make_kernel L spec) (\<lambda>_. Inr ()),
      prog_work = (\<lambda>w block.
        rbind (make_kernel L spec) (\<lambda>k.
        rbind (compute_block_with_kernel L k block) (\<lambda>aggregate.
          build_block_result spec coordinator block aggregate (of_nat w)))),
      prog_consume = consume\<rparr>"

definition pending_indices :: "bool list \<Rightarrow> nat list" where
  "pending_indices received = filter (\<lambda>i. \<not> received ! i) [0..<length received]"

definition actual_worker_count :: "engine_config \<Rightarrow> nat \<Rightarrow> nat" where
  "actual_worker_count config missing_count = min (unat (worker_count config)) missing_count"

definition queue_capacity :: "u64 \<Rightarrow> nat \<Rightarrow> nat" where
  "queue_capacity configured workers = (if configured = 0 then max 1 (workers * 2) else unat configured)"

text \<open>The outcomes of \<^verbatim>\<open>execute_missing_blocks\<close>: the number of workers or the first recorded error,
  and the state in which the consumer was left.\<close>

definition execute_missing_blocks ::
  "libm \<Rightarrow> run_spec \<Rightarrow> engine_config \<Rightarrow> scenario_block list \<Rightarrow> bool list \<Rightarrow> coordinator_state
     \<Rightarrow> (block_result \<Rightarrow> 'c \<Rightarrow> 'c \<times> exn option) \<Rightarrow> 'c \<Rightarrow> nat result \<Rightarrow> 'c \<Rightarrow> bool" where
  "execute_missing_blocks L spec config blocks already_received coordinator consume c0 out c \<longleftrightarrow>
     (if length already_received \<noteq> length blocks
      then out = Inl (Invalid_argument ''received bitmap does not match block universe'') \<and> c = c0
      else
        (let pending = pending_indices already_received;
             workers = actual_worker_count config (length pending)
         in if pending = [] then out = Inr 0 \<and> c = c0
            else \<exists>assignments completions st.
              new_bounded_queue (queue_capacity (assignment_queue_capacity config) workers) None = Inr assignments \<and>
              new_bounded_queue (queue_capacity (completion_queue_capacity config) workers) None = Inr completions \<and>
              (exec_step (engine_program L spec coordinator consume))\<^sup>*\<^sup>*
                (exec_initial workers assignments completions (map (\<lambda>i. blocks ! i) pending) c0) st \<and>
              exec_terminal st \<and>
              out = (case ex_first_error st of Some e \<Rightarrow> Inl e | None \<Rightarrow> Inr workers) \<and> c = ex_consumer st))"

text \<open>The consumer of \<^verbatim>\<open>run_parallel\<close>: commit, then store the leaf at the block's position.\<close>

definition consume_leaf ::
  "block_result \<Rightarrow> coordinator_state \<times> aggregate_stats list \<times> bool list
     \<Rightarrow> (coordinator_state \<times> aggregate_stats list \<times> bool list) result" where
  "consume_leaf completed = (\<lambda>(coordinator, leaves, received).
     rbind (accept_result completed coordinator) (\<lambda>coordinator'.
       (let leaf = unat (block_id (res_block completed))
        in Inr (coordinator', leaves[leaf := res_aggregate completed], received[leaf := True]))))"

definition finish_run ::
  "run_spec \<Rightarrow> nat \<Rightarrow> coordinator_state \<times> aggregate_stats list \<times> bool list \<Rightarrow> nat \<Rightarrow> run_result result" where
  "finish_run spec blocks = (\<lambda>(coordinator, leaves, received) workers.
     if False \<in> set received
     then Inl (Runtime_error ''parallel run ended before every block completed'')
     else
       rbind (reduce_block_results leaves) (\<lambda>aggregate.
         Inr \<lparr>result_aggregate = aggregate, scenarios_processed = total_scenarios spec,
              block_count = of_nat blocks, workers_used = of_nat workers\<rparr>))"

definition run_parallel :: "libm \<Rightarrow> build_env \<Rightarrow> run_spec \<Rightarrow> engine_config \<Rightarrow> run_result result \<Rightarrow> bool" where
  "run_parallel L env spec config out \<longleftrightarrow>
     (case make_blocks spec config of
        Inl e \<Rightarrow> out = Inl e
      | Inr blocks \<Rightarrow>
          (case make_coordinator_state env spec config blocks of
             Inl e \<Rightarrow> out = Inl e
           | Inr coordinator \<Rightarrow>
               \<exists>x c. execute_missing_blocks L spec config blocks (replicate (length blocks) False) coordinator
                     (throwing consume_leaf)
                     (coordinator, replicate (length blocks) empty_stats, replicate (length blocks) False) x c \<and>
                   out = rbind x (finish_run spec (length blocks) c)))"

section \<open>The sequential reference\<close>

fun map_result :: "('a \<Rightarrow> 'b result) \<Rightarrow> 'a list \<Rightarrow> 'b list result" where
  "map_result f [] = Inr []"
| "map_result f (x # xs) = rbind (f x) (\<lambda>y. rbind (map_result f xs) (\<lambda>ys. Inr (y # ys)))"

lemma map_result_Inr: "map_result f xs = Inr ys \<longleftrightarrow> length xs = length ys \<and> (\<forall>i < length xs. f (xs ! i) = Inr (ys ! i))"
proof (induction xs arbitrary: ys)
  case (Cons x xs)
  show ?case
  proof (cases ys)
    case (Cons y ys')
    then show ?thesis using Cons.IH by (auto simp: All_less_Suc2)
  qed auto
qed auto

text \<open>One thread, one block after the other: compute, check that the aggregate can be hashed, reduce
  by position.\<close>

definition block_leaf :: "libm \<Rightarrow> run_spec \<Rightarrow> scenario_block \<Rightarrow> aggregate_stats result" where
  "block_leaf L spec block =
     rbind (compute_block L spec block) (\<lambda>a.
     rbind (aggregate_payload_hash a (stats_schema_version spec)) (\<lambda>_. Inr a))"

definition sequential_run :: "libm \<Rightarrow> run_spec \<Rightarrow> engine_config \<Rightarrow> run_result result" where
  "sequential_run L spec config =
     rbind (make_blocks spec config) (\<lambda>blocks.
     rbind (map_result (block_leaf L spec) blocks) (\<lambda>leaves.
     rbind (reduce_block_results leaves) (\<lambda>aggregate.
       Inr \<lparr>result_aggregate = aggregate, scenarios_processed = total_scenarios spec,
            block_count = of_nat (length blocks),
            workers_used = of_nat (actual_worker_count config (length blocks))\<rparr>)))"

section \<open>Workers\<close>

lemma prog_work_Inr:
  "prog_work (engine_program L spec s consume) w b = Inr r \<longleftrightarrow>
   (\<exists>a. compute_block L spec b = Inr a \<and> build_block_result spec s b a (of_nat w) = Inr r)"
  by (auto simp: engine_program_def compute_block_def)

lemma build_block_result_fields:
  "build_block_result spec s b a w = Inr r \<Longrightarrow>
     res_block r = b \<and> res_aggregate r = a \<and> aggregate_payload_hash a (stats_schema_version spec) = Inr (res_payload_checksum r)"
  by (auto simp: build_block_result_def)

interpretation engine: traced_program "engine_program L spec s consume" res_block for L spec s consume
  by unfold_locales (auto simp: prog_work_Inr dest: build_block_result_fields)

lemma consume_step_throwing [simp]: "consume_step (engine_program L spec s (throwing f)) = f"
  by (auto simp: fun_eq_iff consume_step_def engine_program_def throwing_def split: sum.splits)

lemma produced_engine:
  "produced (engine_program L spec s consume) res_block r \<Longrightarrow>
     compute_block L spec (res_block r) = Inr (res_aggregate r) \<and> block_leaf L spec (res_block r) = Inr (res_aggregate r)"
  by (auto simp: produced_def prog_work_Inr block_leaf_def dest!: build_block_result_fields)

lemma block_leaf_work:
  "block_leaf L spec b = Inr a \<Longrightarrow> is_Inr (prog_work (engine_program L spec s consume) w b)"
  by (auto simp: is_Inr_def prog_work_Inr block_leaf_def build_block_result_def)

lemma prog_start_ok:
  "compute_block L spec b = Inr a \<Longrightarrow> is_Inr (prog_start (engine_program L spec s consume))"
  by (auto simp: is_Inr_def engine_program_def compute_block_def)

text \<open>An invariant of the consumer of \<^verbatim>\<open>execute_missing_blocks\<close>: it is only ever given what a block of
  the run computes.\<close>

lemma execute_missing_invariant:
  assumes x: "execute_missing_blocks L spec config blocks received s consume c0 out c"
    and consume: "\<And>r c. I c \<Longrightarrow> block_leaf L spec (res_block r) = Inr (res_aggregate r) \<Longrightarrow> res_block r \<in> set blocks \<Longrightarrow>
      case consume r c of (c', None) \<Rightarrow> I c' | (c', Some e) \<Rightarrow> J c'"
    and weak: "\<And>c. I c \<Longrightarrow> J c" and start: "I c0"
  shows "J c" "out = Inr n \<Longrightarrow> I c"
proof -
  let ?P = "engine_program L spec s consume"
  let ?items = "map (\<lambda>i. blocks ! i) (pending_indices received)"
  have "J c \<and> (\<forall>n. out = Inr n \<longrightarrow> I c)"
  proof (cases "length received \<noteq> length blocks \<or> pending_indices received = []")
    case True
    then show ?thesis using x start weak by (auto simp: execute_missing_blocks_def Let_def split: if_splits)
  next
    case False
    obtain a k st where q: "new_bounded_queue (queue_capacity (assignment_queue_capacity config)
          (actual_worker_count config (length (pending_indices received)))) None = Inr a"
        "new_bounded_queue (queue_capacity (completion_queue_capacity config)
          (actual_worker_count config (length (pending_indices received)))) None = Inr k"
      and st: "(exec_step ?P)\<^sup>*\<^sup>*
          (exec_initial (actual_worker_count config (length (pending_indices received))) a k ?items c0) st"
        "exec_terminal st"
      and out: "out = (case ex_first_error st of Some e \<Rightarrow> Inl e
          | None \<Rightarrow> Inr (actual_worker_count config (length (pending_indices received))))" "c = ex_consumer st"
      using x False unfolding execute_missing_blocks_def Let_def by auto
    have items: "set ?items \<subseteq> set blocks" using False by (auto simp: pending_indices_def)
    have step: "case prog_consume ?P r c of (c', None) \<Rightarrow> I c' | (c', Some e) \<Rightarrow> J c'"
      if "I c" "produced ?P res_block r" "res_block r \<in> set ?items" for r c
      using consume [of c r] produced_engine [OF that(2)] that items by (auto simp: engine_program_def)
    note inv = engine.consumer_invariant [where I = I and J = J, OF step weak st(1) _ _ start]
    have "bq_queue a = []" "bq_queue k = []" using new_bounded_queue_ok [OF q(1)] new_bounded_queue_ok [OF q(2)] by auto
    then show ?thesis using inv st(2) out by (auto split: option.splits)
  qed
  then show "J c" "out = Inr n \<Longrightarrow> I c" by blast+
qed

section \<open>Leaves\<close>

abbreviation leaf_index :: "block_result \<Rightarrow> nat" where
  "leaf_index r \<equiv> unat (block_id (res_block r))"

lemma consume_leaves:
  "fold_result consume_leaf rs (s, leaves, received) = Inr (s', leaves', received') \<longleftrightarrow>
     fold_result accept_result rs s = Inr s' \<and>
     leaves' = fold (\<lambda>r l. l[leaf_index r := res_aggregate r]) rs leaves \<and>
     received' = fold (\<lambda>r l. l[leaf_index r := True]) rs received"
  by (induction rs arbitrary: s leaves received) (auto simp: consume_leaf_def Let_def)

lemma length_fold_update [simp]: "length (fold (\<lambda>r l. l[f r := g r]) rs l) = length l"
  by (induction rs arbitrary: l) auto

lemma fold_update_nth:
  assumes "i < length l" "\<exists>r \<in> set rs. f r = i" "\<forall>r \<in> set rs. f r = i \<longrightarrow> g r = v"
  shows "fold (\<lambda>r l. l[f r := g r]) rs l ! i = v"
  using assms
proof (induction rs rule: rev_induct)
  case (snoc r rs)
  show ?case
  proof (cases "f r = i")
    case False
    then have "\<exists>r \<in> set rs. f r = i" using snoc.prems by auto
    then show ?thesis using snoc False by simp
  qed (use snoc in simp)
qed simp

section \<open>Every outcome is the sequential result\<close>

lemma universe_ids:
  assumes "make_blocks spec config = Inr blocks" "universe_of spec blocks s" "i < length (cs_blocks s)"
  shows "unat (block_id (cs_blocks s ! i)) = i"
  using make_blocks_nth(1) [OF assms(1)] assms(2,3) by (simp add: universe_of_def)

lemma fresh_produced:
  assumes b: "make_blocks spec config = Inr blocks" and u: "universe_of spec blocks s"
    and none: "cs_committed_payloads s = replicate (length blocks) None"
    and rs: "image_mset res_block (mset rs) \<subseteq># mset (cs_blocks s)"
      "\<forall>r \<in> set rs. produced (engine_program L spec s consume) res_block r"
  shows "fresh_results rs s"
proof -
  let ?blocks = "cs_blocks s"
  have nth: "i < length ?blocks \<Longrightarrow> unat (block_id (?blocks ! i)) = i" for i by (rule universe_ids [OF b u])
  have "distinct (map block_id ?blocks)"
    unfolding distinct_conv_nth by (metis length_map nth nth_map)
  then have "count (mset (map block_id ?blocks)) x \<le> 1" for x
    using distinct_count_atmost_1 [of "map block_id ?blocks"] by (auto split: if_splits)
  moreover have "image_mset block_id (image_mset res_block (mset rs)) \<subseteq># image_mset block_id (mset ?blocks)"
    by (rule image_mset_subseteq_mono [OF rs(1)])
  then have "mset (map (\<lambda>r. block_id (res_block r)) rs) \<subseteq># mset (map block_id ?blocks)"
    by (simp add: multiset.map_comp o_def)
  ultimately have "count (mset (map (\<lambda>r. block_id (res_block r)) rs)) x \<le> 1" for x
    by (meson le_trans mset_subset_eq_count)
  then have d: "distinct (map (\<lambda>r. block_id (res_block r)) rs)"
    unfolding distinct_count_atmost_1
    by (metis One_nat_def count_eq_zero_iff le_Suc_eq le_zero_eq set_mset_mset)
  have "belongs r s \<and> lease_current r s \<and> ledger_of s (leaf_index r) = None" if r: "r \<in> set rs" for r
  proof -
    have "res_block r \<in># image_mset res_block (mset rs)" using r by simp
    then have "res_block r \<in> set ?blocks" using mset_subset_eqD [OF rs(1)] by fastforce
    then obtain i where i: "i < length ?blocks" "res_block r = ?blocks ! i" by (metis in_set_conv_nth)
    obtain w a where "compute_block L spec (?blocks ! i) = Inr a"
      "build_block_result spec s (?blocks ! i) a (of_nat w) = Inr r"
      using rs(2) r i(2) by (auto simp: produced_def prog_work_Inr)
    then have "belongs r s \<and> lease_current r s"
      using universe_result_belongs [OF b u] i(1) u by (simp add: universe_of_def)
    moreover have "ledger_of s (leaf_index r) = None" using none by (simp add: ledger_of_def)
    ultimately show ?thesis by blast
  qed
  with d show ?thesis by (simp add: fresh_results_def)
qed

lemma covered_leaves:
  assumes ids: "\<And>i. i < length blocks \<Longrightarrow> unat (block_id (blocks ! i)) = i"
    and h: "image_mset res_block (mset rs) = mset blocks"
      "\<forall>r \<in> set rs. produced (engine_program L spec s consume) res_block r"
    and i: "i < length blocks"
  shows "block_leaf L spec (blocks ! i) =
      Inr (fold (\<lambda>r l. l[leaf_index r := res_aggregate r]) rs (replicate (length blocks) empty_stats) ! i)"
    "fold (\<lambda>r l. l[leaf_index r := True]) rs (replicate (length blocks) False) ! i"
proof -
  have members: "res_block ` set rs = set blocks" using arg_cong [OF h(1), of set_mset] by simp
  then obtain r where r: "r \<in> set rs" "res_block r = blocks ! i" using i by (metis imageE nth_mem)
  have same: "res_block q = blocks ! i" if q: "q \<in> set rs" "leaf_index q = i" for q
  proof -
    obtain j where "j < length blocks" "res_block q = blocks ! j"
      using q(1) members by (metis imageI in_set_conv_nth)
    moreover have "unat (block_id (blocks ! j)) = j" using ids calculation(1) by simp
    ultimately show ?thesis using q(2) by simp
  qed
  have leaf: "block_leaf L spec (blocks ! i) = Inr (res_aggregate q)" if "q \<in> set rs" "leaf_index q = i" for q
    using same [OF that] produced_engine [of L spec s consume q] h(2) that(1) by simp
  have ex: "\<exists>q \<in> set rs. leaf_index q = i" using r ids [OF i]
    by (intro bexI [of _ r]) simp_all
  have "\<forall>q \<in> set rs. leaf_index q = i \<longrightarrow> res_aggregate q = res_aggregate r"
    using leaf r ids [OF i] by (metis sum.inject(2))
  then have "fold (\<lambda>r l. l[leaf_index r := res_aggregate r]) rs (replicate (length blocks) empty_stats) ! i = res_aggregate r"
    using i ex by (intro fold_update_nth) auto
  then show "block_leaf L spec (blocks ! i) =
      Inr (fold (\<lambda>r l. l[leaf_index r := res_aggregate r]) rs (replicate (length blocks) empty_stats) ! i)"
    using leaf [OF r(1)] r(2) ids [OF i] by simp
  show "fold (\<lambda>r l. l[leaf_index r := True]) rs (replicate (length blocks) False) ! i"
    using i ex fold_update_nth [of i "replicate (length blocks) False" rs leaf_index "\<lambda>_. True" True] by auto
qed

text \<open>What a successful execution leaves behind: the leaves of the sequential computation, all
  received.\<close>

lemma finished_execution:
  assumes b: "make_blocks spec config = Inr blocks"
    and h: "image_mset res_block (mset rs) = mset blocks"
      "\<forall>r \<in> set rs. produced (engine_program L spec s consume) res_block r"
    and c: "fold_result consume_leaf rs (s, replicate (length blocks) empty_stats, replicate (length blocks) False) =
      Inr (s', leaves, received)"
  shows "map_result (block_leaf L spec) blocks = Inr leaves" "False \<notin> set received"
proof -
  note l = c [unfolded consume_leaves]
  note cov = covered_leaves [OF make_blocks_nth(1) [OF b] h]
  show "map_result (block_leaf L spec) blocks = Inr leaves"
    using cov(1) l by (simp add: map_result_Inr)
  show "False \<notin> set received"
    using cov(2) l by (auto simp: in_set_conv_nth)
qed

lemma pending_all: "pending_indices (replicate n False) = [0..<n]"
  by (simp add: pending_indices_def)

lemma queue_capacity_pos: "0 < queue_capacity c n"
  by (simp add: queue_capacity_def unat_gt_0 less_max_iff_disj)

lemma new_queue_total: "\<exists>q. new_bounded_queue (queue_capacity c n) None = Inr q"
  using queue_capacity_pos [of c n] by (simp add: new_bounded_queue_def)

text \<open>The whole run, given the partition and the coordinator.\<close>

lemma run_parallel_unfold:
  assumes b: "make_blocks spec config = Inr blocks"
    and s: "make_coordinator_state env spec config blocks = Inr s"
  shows "run_parallel L env spec config out \<longleftrightarrow>
    (\<exists>a k st.
       new_bounded_queue (queue_capacity (assignment_queue_capacity config)
         (actual_worker_count config (length blocks))) None = Inr a \<and>
       new_bounded_queue (queue_capacity (completion_queue_capacity config)
         (actual_worker_count config (length blocks))) None = Inr k \<and>
       (exec_step (engine_program L spec s (throwing consume_leaf)))\<^sup>*\<^sup>*
         (exec_initial (actual_worker_count config (length blocks)) a k blocks
           (s, replicate (length blocks) empty_stats, replicate (length blocks) False)) st \<and>
       exec_terminal st \<and>
       out = rbind (case ex_first_error st of Some e \<Rightarrow> Inl e
                    | None \<Rightarrow> Inr (actual_worker_count config (length blocks)))
               (finish_run spec (length blocks) (ex_consumer st)))"
proof -
  have "0 < length blocks"
    using make_blocks_Inr(3) [OF b] blocks_needed_unat [OF make_blocks_Inr(1,2) [OF b]] by simp
  then have "[0..<length blocks] \<noteq> []" by simp
  moreover have "map (\<lambda>i. blocks ! i) [0..<length blocks] = blocks" by (simp add: map_nth)
  ultimately have x: "execute_missing_blocks L spec config blocks (replicate (length blocks) False) s (throwing consume_leaf) c0 x c \<longleftrightarrow>
    (\<exists>a k st.
       new_bounded_queue (queue_capacity (assignment_queue_capacity config)
         (actual_worker_count config (length blocks))) None = Inr a \<and>
       new_bounded_queue (queue_capacity (completion_queue_capacity config)
         (actual_worker_count config (length blocks))) None = Inr k \<and>
       (exec_step (engine_program L spec s (throwing consume_leaf)))\<^sup>*\<^sup>*
         (exec_initial (actual_worker_count config (length blocks)) a k blocks c0) st \<and>
       exec_terminal st \<and>
       x = (case ex_first_error st of Some e \<Rightarrow> Inl e
            | None \<Rightarrow> Inr (actual_worker_count config (length blocks))) \<and> c = ex_consumer st)" for x c0 c
    unfolding execute_missing_blocks_def pending_all Let_def length_upt minus_nat.diff_0 by simp
  show ?thesis
    unfolding run_parallel_def b s sum.case x by blast
qed

lemma workers_positive:
  assumes "make_blocks spec config = Inr blocks"
  shows "0 < actual_worker_count config (length blocks)"
  using make_blocks_Inr(3) [OF assms] blocks_needed_unat [OF make_blocks_Inr(1,2) [OF assms]]
    validate_engine_config_Inr(3) [OF make_blocks_Inr(2) [OF assms]]
  by (simp add: actual_worker_count_def)

lemma initial_traced:
  assumes "make_blocks spec config = Inr blocks"
    "new_bounded_queue x None = Inr a" "new_bounded_queue y None = Inr k"
  shows "engine.traced_inv L spec s consume blocks c0
    (exec_initial (actual_worker_count config (length blocks)) a k blocks c0)"
  using workers_positive [OF assms(1)] new_bounded_queue_ok [OF assms(2)] new_bounded_queue_ok [OF assms(3)]
  by (intro engine.traced_inv_initial) auto

lemma run_parallel_sequential:
  assumes r: "run_parallel L env spec config out"
  shows "out = Inr x \<longleftrightarrow> sequential_run L spec config = Inr x"
proof (cases "make_blocks spec config")
  case (Inl e)
  then show ?thesis using r by (auto simp: run_parallel_def sequential_run_def)
next
  case b: (Inr blocks)
  obtain s where s: "make_coordinator_state env spec config blocks = Inr s"
    "cs_blocks s = blocks" "cs_run_incarnation s = 0" "cs_rng_version s = rng_version spec"
    "cs_stats_schema_version s = stats_schema_version spec" "cs_antithetic s = antithetic spec"
    "cs_committed_payloads s = replicate (length blocks) None"
    using make_coordinator_state_total [OF b] by blast
  let ?n = "actual_worker_count config (length blocks)"
  let ?P = "engine_program L spec s (throwing consume_leaf)"
  let ?c0 = "(s, replicate (length blocks) empty_stats, replicate (length blocks) False)"
  obtain a k st where q: "new_bounded_queue (queue_capacity (assignment_queue_capacity config) ?n) None = Inr a"
      "new_bounded_queue (queue_capacity (completion_queue_capacity config) ?n) None = Inr k"
    and st: "(exec_step ?P)\<^sup>*\<^sup>* (exec_initial ?n a k blocks ?c0) st" "exec_terminal st"
    and out: "out = rbind (case ex_first_error st of Some e \<Rightarrow> Inl e | None \<Rightarrow> Inr ?n)
               (finish_run spec (length blocks) (ex_consumer st))"
    using r run_parallel_unfold [OF b s(1)] by blast
  note i0 = initial_traced [OF b q, of L s "throwing consume_leaf" ?c0]
  note i = engine.traced_inv_reachable [OF st(1) i0]
  have success: "out = sequential_run L spec config" if e: "ex_first_error st = None"
  proof -
    note t = engine.terminal_exactly_once [OF i st(2) e]
    obtain s' leaves received where c: "ex_consumer st = (s', leaves, received)" by (cases "ex_consumer st")
    have "fold_result consume_leaf (ex_history st) ?c0 = Inr (s', leaves, received)"
      using t(3) c by simp
    note f = finished_execution [OF b t(1,2) this]
    show ?thesis
      unfolding out e sequential_run_def b f(1) c finish_run_def rbind_simps option.case prod.case
      using f(2) by simp
  qed
  show ?thesis
  proof
    assume "out = Inr x"
    then have "ex_first_error st = None" unfolding out by (cases "ex_first_error st") auto
    with success \<open>out = Inr x\<close> show "sequential_run L spec config = Inr x" by simp
  next
    assume seq: "sequential_run L spec config = Inr x"
    then obtain leaves where l: "map_result (block_leaf L spec) blocks = Inr leaves"
      by (auto simp: sequential_run_def b)
    have leaf: "\<exists>v. block_leaf L spec blk = Inr v" if "blk \<in> set blocks" for blk
      using l that by (auto simp: map_result_Inr in_set_conv_nth)
    have "blocks \<noteq> []" using workers_positive [OF b] by (auto simp: actual_worker_count_def)
    then obtain v where "block_leaf L spec (hd blocks) = Inr v" using leaf by fastforce
    then have start: "is_Inr (prog_start ?P)" using prog_start_ok by (auto simp: block_leaf_def)
    have consume: "is_Inr (fold_result (consume_step ?P) rs ?c0)"
      if "image_mset res_block (mset rs) \<subseteq># mset blocks" "\<forall>r \<in> set rs. produced ?P res_block r" for rs
    proof -
      have "fresh_results rs s"
        using fresh_produced [OF b make_blocks_universe [OF b s(2-6)] s(7)] that s(2) by blast
      then have "fold_result accept_result rs s = Inr (fold record_payload rs s)"
        using accept_all_fresh make_coordinator_state_ok [OF s(1)] by blast
      then show ?thesis
        using consume_leaves [of rs s] by (fastforce simp: is_Inr_def)
    qed
    have "engine.cannot_fail L spec s (throwing consume_leaf) blocks ?c0"
      unfolding engine.cannot_fail_def using start leaf block_leaf_work consume by blast
    moreover have "clean (exec_initial ?n a k blocks ?c0 :: (scenario_block, block_result, _) exec_state)"
      by (auto simp: clean_def exec_initial_def at_worker_def)
    ultimately have "clean st" using engine.reachable_clean [OF st(1) i0] by blast
    then show "out = Inr x" using success seq by (simp add: clean_def)
  qed
qed

lemma run_parallel_ends: "\<exists>out. run_parallel L env spec config out"
proof (cases "make_blocks spec config")
  case (Inl e)
  then show ?thesis by (simp add: run_parallel_def)
next
  case b: (Inr blocks)
  obtain s where s: "make_coordinator_state env spec config blocks = Inr s"
    using make_coordinator_state_total [OF b] by blast
  let ?n = "actual_worker_count config (length blocks)"
  obtain a :: "scenario_block bounded_queue" and k :: "block_result bounded_queue"
    where q: "new_bounded_queue (queue_capacity (assignment_queue_capacity config) ?n) None = Inr a"
      "new_bounded_queue (queue_capacity (completion_queue_capacity config) ?n) None = Inr k"
    using new_queue_total [of "assignment_queue_capacity config" ?n]
      new_queue_total [of "completion_queue_capacity config" ?n] by auto
  let ?init = "exec_initial ?n a k blocks (s, replicate (length blocks) empty_stats, replicate (length blocks) False)"
  have "exec_inv ?init"
    using workers_positive [OF b] new_bounded_queue_ok [OF q(1)] new_bounded_queue_ok [OF q(2)]
    by (intro exec_initial_inv) auto
  then obtain st where "(exec_step (engine_program L spec s (throwing consume_leaf)))\<^sup>*\<^sup>* ?init st" "exec_terminal st"
    using exec_reaches_terminal by blast
  then show ?thesis using q unfolding run_parallel_unfold [OF b s] by blast
qed

section \<open>Properties\<close>

text \<open>C3. The parallel run is deterministic: whatever the interleaving of the threads, a run that ends
  returns a result exactly when the sequential computation of the blocks returns one, and then it is
  the same result, bit for bit.\<close>

theorem parallel_run_deterministic:
  assumes "run_parallel L env spec config out"
  shows "out = Inr x \<longleftrightarrow> sequential_run L spec config = Inr x"
  by (rule run_parallel_sequential [OF assms])

definition witness_run_result :: run_result where
  "witness_run_result = \<lparr>result_aggregate = witness_stats, scenarios_processed = 2, block_count = 1, workers_used = 1\<rparr>"

lemma witness_sequential: "sequential_run witness_libm witness_spec default_engine_config = Inr witness_run_result"
proof -
  have v: "stats_schema_version witness_spec = kStatsSchemaVersion" "total_scenarios witness_spec = 2"
    by (simp_all add: witness_spec_def default_run_spec_def)
  have l: "block_leaf witness_libm witness_spec witness_block = Inr witness_stats"
    unfolding block_leaf_def witness_compute v witness_payload_hash rbind_simps ..
  have r: "reduce_block_results [witness_stats] = Inr witness_stats"
    by (simp add: reduce_block_results_def reduce_levels.simps)
  have w: "actual_worker_count default_engine_config (length [witness_block]) = 1"
    by (simp add: actual_worker_count_def default_engine_config_def)
  show ?thesis
    unfolding sequential_run_def witness_blocks rbind_simps map_result.simps l r w v
    by (simp add: witness_run_result_def)
qed

theorem parallel_run_deterministic_witness:
  "\<exists>out. run_parallel witness_libm witness_env witness_spec default_engine_config out \<and> out = Inr witness_run_result"
proof -
  obtain out where out: "run_parallel witness_libm witness_env witness_spec default_engine_config out"
    using run_parallel_ends by blast
  with parallel_run_deterministic [OF out] witness_sequential show ?thesis by blast
qed

text \<open>A parallel run always comes to an end: for every specification, configuration and C library
  some execution of the threads reaches a state in which all of them have stopped.\<close>

theorem parallel_run_ends: "\<exists>out. run_parallel L env spec config out"
  by (rule run_parallel_ends)

text \<open>The worker count and the queue capacities are performance parameters only: two runs of the
  same specification with the same block size, even with different build environments, return the
  same aggregate.\<close>

theorem worker_count_irrelevant:
  assumes "run_parallel L env spec config (Inr x)" "run_parallel L env' spec config' (Inr y)"
    and "block_size config = block_size config'"
  shows "result_aggregate x = result_aggregate y \<and> block_count x = block_count y"
proof -
  have x: "sequential_run L spec config = Inr x" and y: "sequential_run L spec config' = Inr y"
    using run_parallel_sequential assms(1,2) by blast+
  obtain bs bs' where bs: "make_blocks spec config = Inr bs" and bs': "make_blocks spec config' = Inr bs'"
    using x y by (auto simp: sequential_run_def)
  have "make_block spec config i = make_block spec config' i" for i
    using assms(3) by (simp add: make_block_def)
  moreover have "blocks_needed spec config = blocks_needed spec config'"
    using assms(3) by (simp add: blocks_needed_def)
  ultimately have "bs = bs'" using make_blocks_Inr(3) [OF bs] make_blocks_Inr(3) [OF bs'] by simp
  then show ?thesis using x y bs bs' by (auto simp: sequential_run_def)
qed

definition eight_workers :: engine_config where
  "eight_workers = default_engine_config\<lparr>worker_count := 8, completion_queue_capacity := 3\<rparr>"

lemma eight_workers_sequential: "sequential_run witness_libm witness_spec eight_workers = Inr witness_run_result"
proof -
  have v: "validate_engine_config eight_workers witness_spec = Inr ()"
    by (simp add: validate_engine_config_def eight_workers_def default_engine_config_def kMaxWorkerThreads_def
        kDefaultMaxMaterializedBlocks_def witness_spec_def word_less_nat_alt)
  have "blocks_needed witness_spec eight_workers = blocks_needed witness_spec default_engine_config"
    "max_materialized_blocks eight_workers = max_materialized_blocks default_engine_config"
    "make_block witness_spec eight_workers = make_block witness_spec default_engine_config"
    by (simp_all add: fun_eq_iff blocks_needed_def make_block_def eight_workers_def default_engine_config_def)
  then have "make_blocks witness_spec eight_workers = make_blocks witness_spec default_engine_config"
    by (simp only: make_blocks_def v witness_config_valid)
  moreover have "actual_worker_count eight_workers (length [witness_block]) =
      actual_worker_count default_engine_config (length [witness_block])"
    by (simp add: actual_worker_count_def eight_workers_def default_engine_config_def)
  ultimately have "sequential_run witness_libm witness_spec eight_workers =
      sequential_run witness_libm witness_spec default_engine_config"
    unfolding sequential_run_def using witness_blocks by (simp only: rbind_simps)
  then show ?thesis using witness_sequential by simp
qed

lemma run_parallel_returns:
  "sequential_run L spec config = Inr x \<Longrightarrow> run_parallel L env spec config (Inr x)"
  using run_parallel_ends [of L env spec config] run_parallel_sequential [of L env spec config] by metis

theorem worker_count_irrelevant_witness:
  "\<exists>x y. run_parallel witness_libm witness_env witness_spec default_engine_config (Inr x) \<and>
     run_parallel witness_libm witness_env witness_spec eight_workers (Inr y) \<and>
     result_aggregate x = result_aggregate y"
proof -
  have s: "block_size default_engine_config = block_size eight_workers" by (simp add: eight_workers_def)
  note x = run_parallel_returns [OF witness_sequential, of witness_env]
    and y = run_parallel_returns [OF eight_workers_sequential, of witness_env]
  from worker_count_irrelevant [OF x y s] x y show ?thesis by blast
qed

text \<open>C9. Exactly once: when the threads of a run have stopped without an error, the results handed to
  the consumer are, as a multiset of blocks, precisely the blocks of the run, and each is what its
  block computes.\<close>

theorem each_block_consumed_once:
  assumes "0 < n" "new_bounded_queue x None = Inr a" "new_bounded_queue y None = Inr k"
    and "(exec_step (engine_program L spec s (throwing consume)))\<^sup>*\<^sup>* (exec_initial n a k blocks c0) st"
    and "exec_terminal st" "ex_first_error st = None"
  shows "image_mset res_block (mset (ex_history st)) = mset blocks \<and>
    (\<forall>r \<in> set (ex_history st). compute_block L spec (res_block r) = Inr (res_aggregate r)) \<and>
    fold_result consume (ex_history st) c0 = Inr (ex_consumer st)"
proof -
  have "engine.traced_inv L spec s (throwing consume) blocks c0 (exec_initial n a k blocks c0)"
    using assms(1) new_bounded_queue_ok [OF assms(2)] new_bounded_queue_ok [OF assms(3)]
    by (intro engine.traced_inv_initial) auto
  note t = engine.terminal_exactly_once [OF engine.traced_inv_reachable [OF assms(4) this] assms(5,6)]
  have "fold_result consume (ex_history st) c0 = Inr (ex_consumer st)"
    using t(3) by simp
  then show ?thesis using t produced_engine by blast
qed

lemma witness_execution:
  "\<exists>a k s st. new_bounded_queue 2 None = Inr a \<and> new_bounded_queue 2 None = Inr k \<and>
     (exec_step (engine_program witness_libm witness_spec s (throwing (\<lambda>r c. Inr (c + 1)))))\<^sup>*\<^sup>*
       (exec_initial 1 a k [witness_block] (0 :: nat)) st \<and>
     exec_terminal st \<and> ex_first_error st = None"
proof -
  obtain s :: coordinator_state where True by blast
  let ?P = "engine_program witness_libm witness_spec s (throwing (\<lambda>r c. Inr (c + 1 :: nat)))"
  obtain a where a: "new_bounded_queue 2 None = Inr (a :: scenario_block bounded_queue)"
    by (simp add: new_bounded_queue_def)
  obtain k where k: "new_bounded_queue 2 None = Inr (k :: block_result bounded_queue)"
    by (simp add: new_bounded_queue_def)
  let ?init = "exec_initial 1 a k [witness_block] (0 :: nat)"
  note qa = new_bounded_queue_ok [OF a] and qk = new_bounded_queue_ok [OF k]
  have inv: "exec_inv ?init" using qa qk by (intro exec_initial_inv) auto
  obtain st where st: "(exec_step ?P)\<^sup>*\<^sup>* ?init st" "exec_terminal st"
    using exec_reaches_terminal [OF inv] by blast
  have i: "engine.traced_inv witness_libm witness_spec s (throwing (\<lambda>r c. Inr (c + 1))) [witness_block] 0 ?init"
    using qa qk by (intro engine.traced_inv_initial) auto
  have v: "stats_schema_version witness_spec = kStatsSchemaVersion"
    by (simp add: witness_spec_def default_run_spec_def)
  have l: "block_leaf witness_libm witness_spec witness_block = Inr witness_stats"
    unfolding block_leaf_def witness_compute v witness_payload_hash rbind_simps ..
  have total: "is_Inr (fold_result (\<lambda>r c. Inr (c + 1 :: nat)) rs c)" for rs :: "block_result list" and c
    by (induction rs arbitrary: c) auto
  have "engine.cannot_fail witness_libm witness_spec s (throwing (\<lambda>r c. Inr (c + 1))) [witness_block] (0 :: nat)"
    unfolding engine.cannot_fail_def
    using prog_start_ok [OF witness_compute] block_leaf_work [OF l] total by (simp add: prog_start_ok [OF witness_compute] block_leaf_work [OF l])
  moreover have "clean ?init" by (auto simp: clean_def exec_initial_def at_worker_def)
  ultimately have "clean st" using engine.reachable_clean [OF st(1) i] by blast
  then show ?thesis using a k st by (auto simp: clean_def)
qed

theorem each_block_consumed_once_witness:
  "\<exists>a k s. \<exists>st :: (scenario_block, block_result, nat) exec_state.
     new_bounded_queue 2 None = Inr a \<and> new_bounded_queue 2 None = Inr k \<and>
     (exec_step (engine_program witness_libm witness_spec s (throwing (\<lambda>r c. Inr (c + 1)))))\<^sup>*\<^sup>*
       (exec_initial 1 a k [witness_block] 0) st \<and>
     exec_terminal st \<and> ex_first_error st = None \<and> image_mset res_block (mset (ex_history st)) = mset [witness_block]"
proof -
  obtain a k s and st :: "(scenario_block, block_result, nat) exec_state"
    where w: "new_bounded_queue 2 None = Inr a" "new_bounded_queue 2 None = Inr k"
      "(exec_step (engine_program witness_libm witness_spec s (throwing (\<lambda>r c. Inr (c + 1)))))\<^sup>*\<^sup>*
         (exec_initial 1 a k [witness_block] 0) st"
      "exec_terminal st" "ex_first_error st = None"
    using witness_execution by blast
  have "(0 :: nat) < 1" by simp
  from each_block_consumed_once [OF this w] w show ?thesis by blast
qed

end
