(* ===== verification/Run_Store.thy ===== *)
theory Run_Store
  imports Durable_Files Engine_Run
begin

text \<open>
  The durable run store (\<^verbatim>\<open>src/run_store.cpp\<close>): scanning and cleaning the run directory, compatibility
  with the persisted identity, validation of a manifest against the block results it names,
  selection of the newest valid snapshot, and the three operations of \<^verbatim>\<open>DurableRunStore\<close>: \<^verbatim>\<open>open\<close>,
  \<^verbatim>\<open>record_result\<close> and \<^verbatim>\<open>checkpoint\<close>.  The timing fields of \<^verbatim>\<open>RuntimeMetrics\<close> are left out.
\<close>

section \<open>Scanning and cleaning\<close>

text \<open>A call whose failure is thrown with a message of the caller's.\<close>

definition os_require :: "string \<Rightarrow> (world \<Rightarrow> world) \<Rightarrow> unit io" where
  "os_require message effect =
     io_bind (os_try effect) (\<lambda>failed. case failed of
       Some msg \<Rightarrow> io_raise (Runtime_error (message @ msg))
     | None \<Rightarrow> io_return ())"

text \<open>A recursive scan of the run directory; unlike the flat scans it checks the error of the
  iterator's constructor.\<close>

definition list_run_directory :: "string \<Rightarrow> path list io" where
  "list_run_directory message w =
     (let entries = map fst (w_files w)
      in case next_answer w of
        (Kill, w') \<Rightarrow> (Killed, w')
      | (Failure msg, w') \<Rightarrow> (Raised (Runtime_error (message @ msg)), w')
      | (Short n, w') \<Rightarrow> (Returned (take n entries), w')
      | (_, w') \<Rightarrow> (Returned entries, w'))"

definition count_file :: "path \<Rightarrow> u64 \<times> u64 \<Rightarrow> (u64 \<times> u64) io" where
  "count_file p = (\<lambda>(total, files).
     io_bind (os_require ''cannot inspect run-store entry: '' id) (\<lambda>_.
     io_bind (os_try id) (\<lambda>failed.
     io_bind (io_gets (\<lambda>w. case file_at w p of None \<Rightarrow> 0 | Some bs \<Rightarrow> length bs)) (\<lambda>file_bytes.
     if failed \<noteq> None \<or> unat u64_max < file_bytes \<or> u64_max - of_nat file_bytes < total
     then io_raise (Runtime_error ''run-store size cannot be represented safely'')
     else if files = u64_max then io_raise (Runtime_error ''run-store file count overflow'')
     else io_return (total + of_nat file_bytes, files + 1)))))"

definition storage_usage :: "(u64 \<times> u64) io" where
  "storage_usage =
     io_bind (list_run_directory ''cannot scan run directory: '') (\<lambda>entries. io_fold count_file entries (0, 0))"

fun payload_in :: "path list \<Rightarrow> bool io" where
  "payload_in [] = io_return False"
| "payload_in (p # ps) =
     io_bind (os_require ''cannot inspect prospective run-store entry: '' id) (\<lambda>_.
     if p = kLockFilename then payload_in ps else io_return True)"

text \<open>Here too the constructor's error is never looked at.\<close>

definition has_existing_run_payload :: "bool io" where
  "has_existing_run_payload w =
     (let entries = map fst (w_files w)
      in case next_answer w of
        (Kill, w') \<Rightarrow> (Killed, w')
      | (Failure msg, w') \<Rightarrow> payload_in [] w'
      | (Short n, w') \<Rightarrow> payload_in (take n entries) w'
      | (_, w') \<Rightarrow> payload_in entries w')"

definition has_substring :: "string \<Rightarrow> string \<Rightarrow> bool" where
  "has_substring sub name \<longleftrightarrow> list_ex (\<lambda>k. take (length sub) (drop k name) = sub) [0..<Suc (length name)]"

definition remove_stale_file :: "path \<Rightarrow> bool \<Rightarrow> bool io" where
  "remove_stale_file p removed =
     (if \<not> has_substring ''.bin.tmp.'' (last p) \<and> \<not> has_substring ''run_spec.bin.tmp.'' (last p)
      then io_return removed
      else
        io_bind (os_require ''cannot inspect stale durable temp file: '' id) (\<lambda>_.
        io_bind (os_require ''cannot remove stale durable temp file: '' (drop_file p)) (\<lambda>_. io_return True)))"

definition remove_stale_temporary_files :: "unit io" where
  "remove_stale_temporary_files =
     io_bind (list_directory kTemporaryDirectory) (\<lambda>entries.
     io_bind (io_fold remove_stale_file entries False) (\<lambda>removed.
     if removed then sync_directory kTemporaryDirectory else io_return ()))"

definition result_referenced :: "block_result option list \<Rightarrow> scenario_block \<Rightarrow> bool" where
  "result_referenced committed_results named =
     (unat (block_id named) < length committed_results \<and>
      (case committed_results ! unat (block_id named) of
         None \<Rightarrow> False
       | Some r \<Rightarrow> run_incarnation (res_block r) = run_incarnation named \<and> lease_epoch (res_block r) = lease_epoch named))"

definition remove_orphan_file :: "block_result option list \<Rightarrow> path \<Rightarrow> bool \<Rightarrow> bool io" where
  "remove_orphan_file committed_results p removed =
     io_bind (os_require ''cannot inspect block-result file: '' id) (\<lambda>_.
     case parse_block_result_filename (last p) of
       None \<Rightarrow> io_return removed
     | Some named \<Rightarrow>
         if result_referenced committed_results named then io_return removed
         else io_bind (os_require ''cannot remove orphan block result: '' (drop_file p)) (\<lambda>_. io_return True))"

definition remove_orphan_block_results :: "block_result option list \<Rightarrow> unit io" where
  "remove_orphan_block_results committed_results =
     io_bind (list_directory kBlockDirectory) (\<lambda>entries.
     io_bind (io_fold (remove_orphan_file committed_results) entries False) (\<lambda>removed.
     if removed then sync_directory kBlockDirectory else io_return ()))"

section \<open>Identity\<close>

definition aggregates_equal :: "aggregate_stats \<Rightarrow> aggregate_stats \<Rightarrow> bool" where
  "aggregates_equal a b \<longleftrightarrow>
     stats_n a = stats_n b \<and> bits_of (stats_mean a) = bits_of (stats_mean b) \<and> bits_of (stats_m2 a) = bits_of (stats_m2 b) \<and>
     bits_of (stats_min a) = bits_of (stats_min b) \<and> bits_of (stats_max a) = bits_of (stats_max b)"

definition expected_metadata :: "build_env \<Rightarrow> run_spec \<Rightarrow> engine_config \<Rightarrow> run_metadata result" where
  "expected_metadata env spec config =
     rbind (validate_run_spec spec) (\<lambda>_.
     rbind (validate_engine_config config spec) (\<lambda>_.
     (let n = blocks_needed spec config
      in if max_materialized_blocks config < n \<or> u64_max < n
         then Inl (Length_error ''durable run exceeds max_materialized_blocks'')
         else
           (let build = current_build_identity env
            in rbind (run_spec_hash spec) (\<lambda>spec_hash.
               rbind (execution_layout_hash spec config) (\<lambda>layout_hash.
                 Inr \<lparr>md_run_id = durable_run_id spec_hash layout_hash, md_spec = spec,
                      md_block_size = block_size config, md_block_count = n, md_run_spec_hash = spec_hash,
                      md_execution_layout_hash = layout_hash, md_build_fingerprint = build_hash build,
                      md_build_description = build_description build\<rparr>))))))"

definition require_compatible :: "run_metadata \<Rightarrow> run_metadata \<Rightarrow> unit result" where
  "require_compatible persisted expected =
     (if md_run_spec_hash persisted \<noteq> md_run_spec_hash expected
      then Inl (Runtime_error ''run directory contains an incompatible run specification'')
      else if md_execution_layout_hash persisted \<noteq> md_execution_layout_hash expected \<or>
              md_block_size persisted \<noteq> md_block_size expected \<or> md_block_count persisted \<noteq> md_block_count expected
      then Inl (Runtime_error ''run directory contains an incompatible execution layout'')
      else if md_build_fingerprint persisted \<noteq> md_build_fingerprint expected \<or>
              md_build_description persisted \<noteq> md_build_description expected
      then Inl (Runtime_error ''run directory was created by an incompatible build/runtime identity'')
      else if md_run_id persisted \<noteq> md_run_id expected
      then Inl (Runtime_error ''run directory contains an incompatible run ID'')
      else Inr ())"

section \<open>Snapshots\<close>

record loaded_manifest =
  lm_manifest :: run_manifest
  lm_results :: "block_result option list"

text \<open>The identity checks on a manifest, and on a block record named by an entry.\<close>

definition manifest_incompatible :: "run_manifest \<Rightarrow> run_metadata \<Rightarrow> bool" where
  "manifest_incompatible m metadata \<longleftrightarrow>
     mf_run_id m \<noteq> md_run_id metadata \<or> mf_run_spec_hash m \<noteq> md_run_spec_hash metadata \<or>
     mf_execution_layout_hash m \<noteq> md_execution_layout_hash metadata \<or>
     mf_build_fingerprint m \<noteq> md_build_fingerprint metadata \<or> mf_rng_version m \<noteq> rng_version (md_spec metadata) \<or>
     mf_stats_schema_version m \<noteq> stats_schema_version (md_spec metadata) \<or> mf_block_count m \<noteq> md_block_count metadata"

definition record_incompatible ::
  "run_manifest \<Rightarrow> run_metadata \<Rightarrow> scenario_block \<Rightarrow> manifest_entry \<Rightarrow> durable_block_record \<Rightarrow> bool" where
  "record_incompatible m metadata canonical entry rec \<longleftrightarrow>
     (let r = br_result rec
      in br_run_id rec \<noteq> md_run_id metadata \<or> res_run_spec_hash r \<noteq> md_run_spec_hash metadata \<or>
         res_execution_layout_hash r \<noteq> md_execution_layout_hash metadata \<or>
         res_build_fingerprint r \<noteq> md_build_fingerprint metadata \<or>
         res_rng_version r \<noteq> rng_version (md_spec metadata) \<or>
         res_stats_schema_version r \<noteq> stats_schema_version (md_spec metadata) \<or>
         block_id (res_block r) \<noteq> me_block_id entry \<or>
         start_scenario (res_block r) \<noteq> start_scenario canonical \<or> end_scenario (res_block r) \<noteq> end_scenario canonical \<or>
         run_incarnation (res_block r) \<noteq> me_result_incarnation entry \<or>
         lease_epoch (res_block r) \<noteq> me_lease_epoch entry \<or>
         mf_run_incarnation m < run_incarnation (res_block r) \<or>
         res_payload_checksum r \<noteq> me_payload_checksum entry)"

abbreviation observations_of :: "bool \<Rightarrow> scenario_block \<Rightarrow> u64" where
  "observations_of anti block \<equiv>
     (let scenario_count = end_scenario block - start_scenario block in if anti then scenario_count div 2 else scenario_count)"

definition block_path_for :: "scenario_block \<Rightarrow> path" where
  "block_path_for block = kBlockDirectory @ [block_name block]"

definition manifest_path_for :: "u64 \<Rightarrow> path" where
  "manifest_path_for sequence = kManifestDirectory @ [manifest_name sequence]"

text \<open>Reading the record an entry names.  Whatever the read throws, an I/O error included, becomes an
  invalid artifact.\<close>

definition load_block_record :: "path \<Rightarrow> durable_block_record io" where
  "load_block_record p =
     io_catch (io_bind (read_file p 4096 Schema) (\<lambda>bs. io_result (decode_block_record bs)))
       (\<lambda>e. case e of
          Invalid_durable_artifact msg \<Rightarrow> io_raise e
        | _ \<Rightarrow> io_raise (Invalid_durable_artifact (''manifest references an invalid block result: '' @ exn_what e)))"

definition accept_record ::
  "run_manifest \<Rightarrow> run_metadata \<Rightarrow> scenario_block list \<Rightarrow> manifest_entry \<Rightarrow> block_result option list \<Rightarrow>
   durable_block_record \<Rightarrow> block_result option list result" where
  "accept_record m metadata canonical entry results rec =
     (let index = unat (me_block_id entry); block = canonical ! index; r = br_result rec
      in if record_incompatible m metadata block entry rec
         then Inl (Invalid_durable_artifact ''manifest references a block with incompatible internal metadata'')
         else if run_incarnation (res_block r) = mf_run_incarnation m \<and>
                 lease_epoch (res_block r) \<noteq> mf_lease_epochs m ! index
         then Inl (Invalid_durable_artifact ''manifest lease high-water mark moved behind a committed result'')
         else case invariant_error (Some (observations_of (antithetic (md_spec metadata)) block)) (res_aggregate r) of
                Some err \<Rightarrow> Inl (Invalid_durable_artifact (''manifest references an invalid aggregate: '' @ err))
              | None \<Rightarrow> Inr (results[index := Some r]))"

definition validate_entry ::
  "run_manifest \<Rightarrow> run_metadata \<Rightarrow> scenario_block list \<Rightarrow> manifest_entry \<Rightarrow> block_result option list \<Rightarrow>
   block_result option list io" where
  "validate_entry m metadata canonical entry results =
     io_bind (load_block_record (block_path_for ((canonical ! unat (me_block_id entry))\<lparr>
         run_incarnation := me_result_incarnation entry, lease_epoch := me_lease_epoch entry\<rparr>))) (\<lambda>rec.
     io_result (accept_record m metadata canonical entry results rec))"

text \<open>The leaves of the reduction: a block without a result contributes the empty aggregate.\<close>

definition result_leaves :: "block_result option list \<Rightarrow> aggregate_stats list" where
  "result_leaves results = map (\<lambda>r. case r of None \<Rightarrow> empty_stats | Some x \<Rightarrow> res_aggregate x) results"

definition validate_manifest_snapshot ::
  "run_manifest \<Rightarrow> run_metadata \<Rightarrow> engine_config \<Rightarrow> loaded_manifest io" where
  "validate_manifest_snapshot m metadata config =
     (if manifest_incompatible m metadata
      then io_raise (Invalid_durable_artifact ''manifest is incompatible with run metadata'')
      else
        io_bind (io_result (make_blocks (md_spec metadata) config)) (\<lambda>canonical.
        io_bind (io_fold (validate_entry m metadata canonical) (mf_committed_blocks m)
          (replicate (length canonical) None)) (\<lambda>results.
        io_bind (io_result (reduce_block_results (result_leaves results))) (\<lambda>reduced.
        if \<not> aggregates_equal reduced (mf_committed_aggregate m)
        then io_raise (Invalid_durable_artifact ''manifest aggregate does not match its fixed-tree block reduction'')
        else if mf_status m = Complete \<and> None \<in> set results
        then io_raise (Invalid_durable_artifact ''complete manifest is missing a block result'')
        else io_return \<lparr>lm_manifest = m, lm_results = results\<rparr>))))"

definition load_candidate :: "run_metadata \<Rightarrow> engine_config \<Rightarrow> run_store_config \<Rightarrow> u64 \<Rightarrow> path \<Rightarrow> loaded_manifest io" where
  "load_candidate metadata config store filename_sequence p =
     io_bind (read_file p (rsc_max_manifest_bytes store) OperatorPolicy) (\<lambda>bs.
     case decode_manifest bs (rsc_max_manifest_bytes store) of
       Inl e \<Rightarrow> io_raise (Invalid_durable_artifact (''manifest envelope is invalid: '' @ exn_what e))
     | Inr m \<Rightarrow>
         if mf_sequence m \<noteq> filename_sequence
         then io_raise (Invalid_durable_artifact ''manifest filename/internal sequence mismatch'')
         else validate_manifest_snapshot m metadata config)"

fun try_candidates ::
  "run_metadata \<Rightarrow> engine_config \<Rightarrow> run_store_config \<Rightarrow> (u64 \<times> path) list \<Rightarrow> string \<Rightarrow>
   (loaded_manifest option \<times> string) io" where
  "try_candidates metadata config store [] last_error = io_return (None, last_error)"
| "try_candidates metadata config store ((sequence, p) # rest) last_error =
     io_catch (io_bind (load_candidate metadata config store sequence p) (\<lambda>loaded. io_return (Some loaded, last_error)))
       (\<lambda>e. case e of
          Invalid_durable_artifact msg \<Rightarrow> try_candidates metadata config store rest (last p @ '': '' @ msg)
        | _ \<Rightarrow> io_raise e)"

text \<open>Collecting the candidates: \<^verbatim>\<open>is_regular_file()\<close> throws, the numbered names are kept.\<close>

definition note_candidate :: "path \<Rightarrow> (u64 \<times> path) list \<Rightarrow> (u64 \<times> path) list io" where
  "note_candidate p candidates =
     io_bind (fs_call (\<lambda>_. True)) (\<lambda>_.
     case parse_manifest_sequence (last p) of
       None \<Rightarrow> io_return candidates
     | Some sequence \<Rightarrow> io_return (candidates @ [(sequence, p)]))"

record manifest_search =
  ms_loaded :: "loaded_manifest option"
  ms_saw_manifest_file :: bool
  ms_highest_sequence_seen :: u64
  ms_last_error :: string

definition load_latest_valid_manifest ::
  "run_metadata \<Rightarrow> engine_config \<Rightarrow> run_store_config \<Rightarrow> manifest_search io" where
  "load_latest_valid_manifest metadata config store =
     io_bind (list_directory kManifestDirectory) (\<lambda>entries.
     io_bind (io_fold note_candidate entries []) (\<lambda>candidates.
     io_bind (try_candidates metadata config store (rev (sort_key fst candidates)) []) (\<lambda>(loaded, last_error).
     io_return \<lparr>ms_loaded = loaded, ms_saw_manifest_file = (candidates \<noteq> []),
       ms_highest_sequence_seen = fold (\<lambda>c. max (fst c)) candidates 0, ms_last_error = last_error\<rparr>)))"

definition entry_of :: "block_result \<Rightarrow> manifest_entry" where
  "entry_of r = \<lparr>me_block_id = block_id (res_block r), me_result_incarnation = run_incarnation (res_block r),
     me_lease_epoch = lease_epoch (res_block r), me_payload_checksum = res_payload_checksum r\<rparr>"

definition make_manifest_from_results ::
  "run_metadata \<Rightarrow> u64 \<Rightarrow> u64 \<Rightarrow> durable_run_status \<Rightarrow> scenario_block list \<Rightarrow> block_result option list \<Rightarrow>
   failure_record option \<Rightarrow> run_manifest result" where
  "make_manifest_from_results metadata sequence incarnation status blocks results failure =
     rbind (reduce_block_results (result_leaves (take (length blocks) results))) (\<lambda>aggregate.
       Inr \<lparr>mf_run_id = md_run_id metadata, mf_run_spec_hash = md_run_spec_hash metadata,
            mf_execution_layout_hash = md_execution_layout_hash metadata,
            mf_build_fingerprint = md_build_fingerprint metadata, mf_sequence = sequence, mf_status = status,
            mf_run_incarnation = incarnation, mf_rng_version = rng_version (md_spec metadata),
            mf_stats_schema_version = stats_schema_version (md_spec metadata), mf_block_count = md_block_count metadata,
            mf_lease_epochs = map lease_epoch blocks,
            mf_committed_blocks = concat (map (\<lambda>r. case r of None \<Rightarrow> [] | Some x \<Rightarrow> [entry_of x]) (take (length blocks) results)),
            mf_committed_aggregate = aggregate, mf_failure = failure\<rparr>)"

section \<open>Opening a store\<close>

record durable_recovery_state =
  rec_manifest_sequence :: u64
  rec_run_incarnation :: u64
  rec_status :: durable_run_status
  rec_resumed :: bool
  rec_blocks :: "scenario_block list"
  rec_committed_results :: "block_result option list"

record durable_run_store =
  st_spec :: run_spec
  st_engine_config :: engine_config
  st_store_config :: run_store_config
  st_metadata :: run_metadata
  st_recovery_state :: durable_recovery_state
  st_durable_results :: "block_result option list"
  st_storage_bytes :: u64
  st_storage_files :: u64

text \<open>The directories, the lock and the check that they share a file system.\<close>

definition acquire_run_lock :: "unit io" where
  "acquire_run_lock =
     io_bind (os_call ''cannot open run-store lock'' kLockFilename
       (\<lambda>w. if file_at w kLockFilename = None then put_file kLockFilename [] w else w)) (\<lambda>_.
     io_bind (os_try id) (\<lambda>failed. io_bind (io_gets (\<lambda>w. path_text w kLockFilename)) (\<lambda>name.
     case failed of
       None \<Rightarrow> io_return ()
     | Some msg \<Rightarrow>
         if msg = ''Resource temporarily unavailable''
         then io_raise (Runtime_error ''run directory is already owned by another coordinator'')
         else io_raise (Runtime_error (''cannot lock run store '' @ name @ '': '' @ msg)))))"

definition require_same_filesystem :: "path \<Rightarrow> path \<Rightarrow> unit io" where
  "require_same_filesystem first second =
     io_bind (os_call ''cannot stat directory'' first id) (\<lambda>_.
     io_bind (os_call ''cannot stat directory'' second id) (\<lambda>_.
     io_bind (os_try id) (\<lambda>differs.
     if differs \<noteq> None
     then io_raise (Runtime_error ''durable tmp and destination directories are on different filesystems'')
     else io_return ())))"

definition prepare_run_directory :: "unit io" where
  "prepare_run_directory =
     io_bind (os_require ''cannot create durable run directory: '' id) (\<lambda>_.
     io_bind (os_require ''cannot create run-store directory: '' id) (\<lambda>_.
     io_bind (os_require ''cannot create run-store directory: '' id) (\<lambda>_.
     io_bind (os_require ''cannot create run-store directory: '' id) (\<lambda>_.
     io_bind acquire_run_lock (\<lambda>_.
     io_bind (require_same_filesystem kTemporaryDirectory kManifestDirectory) (\<lambda>_.
     require_same_filesystem kTemporaryDirectory kBlockDirectory))))))"

definition manifest_context :: "run_manifest \<Rightarrow> durable_write_context" where
  "manifest_context m = \<lparr>dw_kind = Manifest, dw_failure = \<lparr>fc_run_incarnation = mf_run_incarnation m,
     fc_block_id = kNoFailureContext, fc_checkpoint_sequence = mf_sequence m\<rparr>\<rparr>"

definition install_manifest :: "run_store_config \<Rightarrow> run_manifest \<Rightarrow> u64 \<times> u64 \<Rightarrow> (u64 \<times> u64) io" where
  "install_manifest config m usage =
     io_bind (io_result (encode_manifest m)) (\<lambda>bs.
     atomic_write config (manifest_path_for (mf_sequence m)) bs usage (manifest_context m))"

definition checkpoint_count :: "run_store_config \<Rightarrow> u64 \<Rightarrow> u64" where
  "checkpoint_count config n = 1 + (n - 1) div rsc_checkpoint_interval_blocks config"

text \<open>The persisted metadata, or the caller's installed into an empty directory; the flag says that
  the completion preflight has been done.\<close>

definition open_metadata ::
  "run_store_config \<Rightarrow> run_metadata \<Rightarrow> bool \<Rightarrow> u64 \<times> u64 \<Rightarrow> (run_metadata \<times> bool \<times> u64 \<times> u64) io" where
  "open_metadata config expected existed usage =
     (if existed
      then io_bind (read_file kRunSpecFilename (1024 * 1024) Schema) (\<lambda>bs.
           io_bind (io_result (decode_run_metadata bs)) (\<lambda>metadata.
           io_bind (io_result (require_compatible metadata expected)) (\<lambda>_.
             io_return (metadata, False, usage))))
      else io_bind (io_result (encode_run_metadata expected)) (\<lambda>bs.
           io_bind (preflight_run_completion config (fst usage) (snd usage) (md_block_count expected)
             (md_block_count expected) (checkpoint_count config (md_block_count expected) + 2)
             (of_nat (length bs)) 1) (\<lambda>_.
           io_bind (atomic_write config kRunSpecFilename bs usage
             \<lparr>dw_kind = Metadata, dw_failure = no_failure_context\<rparr>) (\<lambda>usage'.
             io_return (expected, True, usage')))))"

text \<open>A run without a manifest starts at incarnation 1 with every lease at 1.\<close>

definition open_fresh ::
  "run_store_config \<Rightarrow> run_metadata \<Rightarrow> bool \<Rightarrow> u64 \<times> u64 \<Rightarrow> durable_recovery_state \<Rightarrow>
   (durable_recovery_state \<times> u64 \<times> u64) io" where
  "open_fresh config metadata preflighted usage recovery =
     io_bind (if preflighted then io_return ()
       else preflight_run_completion config (fst usage) (snd usage) (md_block_count metadata)
         (md_block_count metadata) (checkpoint_count config (md_block_count metadata) + 2) 0 0) (\<lambda>_.
     (let blocks = map (\<lambda>b. b\<lparr>run_incarnation := 1, lease_epoch := 1\<rparr>) (rec_blocks recovery)
      in io_bind (io_result (make_manifest_from_results metadata 0 1 Running blocks
           (rec_committed_results recovery) None)) (\<lambda>initial.
         io_bind (install_manifest config initial usage) (\<lambda>_.
         io_bind (remove_orphan_block_results (rec_committed_results recovery)) (\<lambda>_.
         io_bind storage_usage (\<lambda>usage'.
           io_return (recovery\<lparr>rec_blocks := blocks, rec_manifest_sequence := 0, rec_run_incarnation := 1,
             rec_status := Running\<rparr>, usage')))))))"

text \<open>A running snapshot is recovered under a new incarnation, with every lease advanced, and the
  recovery is durable before any work is scheduled.\<close>

definition recover_running ::
  "run_store_config \<Rightarrow> run_metadata \<Rightarrow> u64 \<Rightarrow> u64 \<times> u64 \<Rightarrow> durable_recovery_state \<Rightarrow> durable_recovery_state io" where
  "recover_running config metadata highest_sequence_seen usage recovery =
     (if rec_run_incarnation recovery = u64_max \<or> highest_sequence_seen = u64_max
      then io_raise (Overflow_error ''durable recovery identity overflow'')
      else
        (let missing_blocks = of_nat (length (filter (\<lambda>r. r = None) (rec_committed_results recovery)));
             checkpoints = (if missing_blocks = 0 then 0 else checkpoint_count config missing_blocks)
         in io_bind (preflight_run_completion config (fst usage) (snd usage) (md_block_count metadata)
              missing_blocks (checkpoints + 2) 0 0) (\<lambda>_.
            (let incarnation = max (rec_run_incarnation recovery + 1) (highest_sequence_seen + 1);
                 sequence = highest_sequence_seen + 1
             in if \<exists>b \<in> set (rec_blocks recovery). lease_epoch b = u64_max
                then io_raise (Overflow_error ''durable lease epoch overflow'')
                else
                  (let blocks = map (\<lambda>b. b\<lparr>run_incarnation := incarnation, lease_epoch := lease_epoch b + 1\<rparr>)
                         (rec_blocks recovery)
                   in io_bind (io_result (make_manifest_from_results metadata sequence incarnation Running
                        blocks (rec_committed_results recovery) None)) (\<lambda>m.
                      io_bind (install_manifest config m usage) (\<lambda>_.
                        io_return (recovery\<lparr>rec_run_incarnation := incarnation, rec_manifest_sequence := sequence,
                          rec_blocks := blocks\<rparr>))))))))"

definition open_loaded ::
  "run_store_config \<Rightarrow> run_metadata \<Rightarrow> loaded_manifest \<Rightarrow> u64 \<Rightarrow> u64 \<times> u64 \<Rightarrow> durable_recovery_state \<Rightarrow>
   (durable_recovery_state \<times> u64 \<times> u64) io" where
  "open_loaded config metadata loaded highest_sequence_seen usage recovery =
     (let m = lm_manifest loaded;
          recovery = recovery\<lparr>rec_manifest_sequence := mf_sequence m, rec_run_incarnation := mf_run_incarnation m,
            rec_status := mf_status m, rec_committed_results := lm_results loaded,
            rec_blocks := map (\<lambda>(b, epoch). b\<lparr>run_incarnation := mf_run_incarnation m, lease_epoch := epoch\<rparr>)
              (zip (rec_blocks recovery) (mf_lease_epochs m))\<rparr>
      in io_bind (if rec_status recovery = Running
             then recover_running config metadata highest_sequence_seen usage recovery
             else io_return recovery) (\<lambda>recovery.
         io_bind (remove_orphan_block_results (rec_committed_results recovery)) (\<lambda>_.
         io_bind storage_usage (\<lambda>usage'. io_return (recovery, usage')))))"

definition open_recovery ::
  "run_store_config \<Rightarrow> run_spec \<Rightarrow> engine_config \<Rightarrow> run_metadata \<Rightarrow> bool \<Rightarrow> bool \<Rightarrow> u64 \<times> u64 \<Rightarrow>
   (durable_recovery_state \<times> u64 \<times> u64) io" where
  "open_recovery config spec engine metadata existed preflighted usage =
     io_bind (load_latest_valid_manifest metadata engine config) (\<lambda>found.
     if ms_loaded found = None \<and> ms_saw_manifest_file found
     then io_raise (Runtime_error (''no valid compatible manifest remains; last error: '' @ ms_last_error found))
     else
       io_bind (io_result (make_blocks spec engine)) (\<lambda>blocks.
       (let recovery = \<lparr>rec_manifest_sequence = 0, rec_run_incarnation = 1, rec_status = Running,
              rec_resumed = existed, rec_blocks = blocks, rec_committed_results = replicate (length blocks) None\<rparr>
        in case ms_loaded found of
             None \<Rightarrow> open_fresh config metadata preflighted usage recovery
           | Some loaded \<Rightarrow> open_loaded config metadata loaded (ms_highest_sequence_seen found) usage recovery)))"

text \<open>\<^verbatim>\<open>DurableRunStore::open\<close>.  \<^verbatim>\<open>canonical\<close> and \<^verbatim>\<open>exists\<close> are the file-system functions the injector's
  constructor asks about the replay path, which lies outside the run directory.\<close>

definition store_open ::
  "build_env \<Rightarrow> (string \<Rightarrow> string list) \<Rightarrow> (string \<Rightarrow> string + bool) \<Rightarrow>
   run_spec \<Rightarrow> engine_config \<Rightarrow> run_store_config \<Rightarrow> durable_run_store io" where
  "store_open env canonical exists spec engine requested =
     io_bind (io_result (validate_run_store_config requested)) (\<lambda>_.
     io_bind (io_result (expected_metadata env spec engine)) (\<lambda>expected.
     (let config = resolve_checkpoint_cadence requested (md_block_count expected)
      in io_bind (io_result (make_failure_injector env canonical exists spec engine config)) (\<lambda>injector.
         io_bind (io_update (\<lambda>w. w\<lparr>w_injector := injector\<rparr>)) (\<lambda>_.
         io_bind prepare_run_directory (\<lambda>_.
         io_bind remove_stale_temporary_files (\<lambda>_.
         io_bind storage_usage (\<lambda>usage.
         if rsc_max_storage_bytes config < fst usage \<or> rsc_max_storage_files config < snd usage
         then io_raise (Runtime_error ''existing run store exceeds configured limits'')
         else
           io_bind (fs_call (\<lambda>w. file_at w kRunSpecFilename \<noteq> None)) (\<lambda>existed.
           io_bind (if existed then io_return False else has_existing_run_payload) (\<lambda>payload.
           if \<not> existed \<and> payload
           then io_raise (Runtime_error (''run_spec.bin is missing from a nonempty run directory; refusing '' @
                  ''to install caller-supplied metadata over existing durable state''))
           else
             io_bind (open_metadata config expected existed usage) (\<lambda>(metadata, preflighted, usage).
             io_bind (open_recovery config spec engine metadata existed preflighted usage) (\<lambda>(recovery, usage).
               io_return \<lparr>st_spec = spec, st_engine_config = engine, st_store_config = config,
                 st_metadata = metadata, st_recovery_state = recovery,
                 st_durable_results = rec_committed_results recovery,
                 st_storage_bytes = fst usage, st_storage_files = snd usage\<rparr>))))))))))))"

section \<open>Recording results and checkpointing\<close>

text \<open>The checks of \<^verbatim>\<open>record_result\<close> before anything is written: whether the result is already
  recorded.\<close>

definition check_result :: "durable_run_store \<Rightarrow> block_result \<Rightarrow> bool result" where
  "check_result st r =
     (if rec_status (st_recovery_state st) \<noteq> Running
      then Inl (Runtime_error ''cannot record a result for a non-running store'')
      else if length (rec_blocks (st_recovery_state st)) \<le> unat (block_id (res_block r))
      then Inl (Invalid_argument ''durable block ID is outside the run'')
      else
        (let index = unat (block_id (res_block r)); expected = rec_blocks (st_recovery_state st) ! index;
             bad = Inl (Invalid_argument ''durable block result metadata is invalid'')
         in if res_run_spec_hash r \<noteq> md_run_spec_hash (st_metadata st) \<or>
               res_execution_layout_hash r \<noteq> md_execution_layout_hash (st_metadata st) \<or>
               res_build_fingerprint r \<noteq> md_build_fingerprint (st_metadata st) \<or>
               res_rng_version r \<noteq> rng_version (st_spec st) \<or>
               res_stats_schema_version r \<noteq> stats_schema_version (st_spec st) \<or>
               start_scenario (res_block r) \<noteq> start_scenario expected \<or>
               end_scenario (res_block r) \<noteq> end_scenario expected \<or>
               run_incarnation (res_block r) \<noteq> run_incarnation expected \<or>
               lease_epoch (res_block r) \<noteq> lease_epoch expected
            then bad
            else rbind (aggregate_payload_hash (res_aggregate r) (res_stats_schema_version r)) (\<lambda>payload_hash.
              if res_payload_checksum r \<noteq> payload_hash then bad
              else case invariant_error (Some (observations_of (antithetic (st_spec st)) expected)) (res_aggregate r) of
                     Some err \<Rightarrow> Inl (Invalid_argument (''durable block aggregate is invalid: '' @ err))
                   | None \<Rightarrow>
                       (case st_durable_results st ! index of
                          None \<Rightarrow> Inr False
                        | Some old \<Rightarrow>
                            if res_payload_checksum old = res_payload_checksum r \<and>
                               run_incarnation (res_block old) = run_incarnation (res_block r) \<and>
                               lease_epoch (res_block old) = lease_epoch (res_block r)
                            then Inr True
                            else Inl (Runtime_error ''conflicting durable result exists for the same block'')))))"

definition record_result :: "block_result \<Rightarrow> durable_run_store \<Rightarrow> durable_run_store io" where
  "record_result r st =
     io_bind (io_result (check_result st r)) (\<lambda>already.
     if already then io_return st
     else
       io_bind (io_result (encode_block_record \<lparr>br_run_id = md_run_id (st_metadata st), br_result = r\<rparr>)) (\<lambda>bs.
       io_bind (atomic_write (st_store_config st) (block_path_for (res_block r)) bs
         (st_storage_bytes st, st_storage_files st)
         \<lparr>dw_kind = BlockResult, dw_failure = \<lparr>fc_run_incarnation = run_incarnation (res_block r),
           fc_block_id = block_id (res_block r), fc_checkpoint_sequence = kNoFailureContext\<rparr>\<rparr>) (\<lambda>usage.
         io_return (st\<lparr>st_durable_results := (st_durable_results st)[unat (block_id (res_block r)) := Some r],
           st_storage_bytes := fst usage, st_storage_files := snd usage\<rparr>))))"

text \<open>One iteration of the loop over the received blocks: the entry and whether it is newly
  committed.\<close>

definition checkpoint_entry ::
  "durable_run_store \<Rightarrow> coordinator_state \<Rightarrow> aggregate_stats list \<Rightarrow> nat \<Rightarrow> manifest_entry result" where
  "checkpoint_entry st coordinator leaves index =
     (case st_durable_results st ! index of
        None \<Rightarrow> Inl (Runtime_error ''checkpoint names a block without matching durable evidence'')
      | Some r \<Rightarrow>
          if cs_committed_payloads coordinator ! index \<noteq> Some (res_payload_checksum r) \<or>
             \<not> aggregates_equal (leaves ! index) (res_aggregate r)
          then Inl (Runtime_error ''checkpoint names a block without matching durable evidence'')
          else Inr (entry_of r))"

definition checkpoint_entries ::
  "durable_run_store \<Rightarrow> coordinator_state \<Rightarrow> aggregate_stats list \<Rightarrow> bool list \<Rightarrow> manifest_entry list result" where
  "checkpoint_entries st coordinator leaves received =
     map_result (checkpoint_entry st coordinator leaves) (filter (\<lambda>i. received ! i) [0..<length received])"

definition checkpoint_universe_incompatible ::
  "durable_run_store \<Rightarrow> coordinator_state \<Rightarrow> aggregate_stats list \<Rightarrow> bool list \<Rightarrow> bool" where
  "checkpoint_universe_incompatible st coordinator leaves received \<longleftrightarrow>
     (let metadata = st_metadata st; n = unat (md_block_count metadata)
      in cs_run_spec_hash coordinator \<noteq> md_run_spec_hash metadata \<or>
         cs_execution_layout_hash coordinator \<noteq> md_execution_layout_hash metadata \<or>
         cs_build_fingerprint coordinator \<noteq> md_build_fingerprint metadata \<or>
         cs_run_incarnation coordinator \<noteq> rec_run_incarnation (st_recovery_state st) \<or>
         length (cs_blocks coordinator) \<noteq> n \<or> length leaves \<noteq> n \<or> length received \<noteq> n)"

text \<open>The manifest a checkpoint writes.\<close>

definition checkpoint_manifest ::
  "durable_run_store \<Rightarrow> coordinator_state \<Rightarrow> aggregate_stats list \<Rightarrow> bool list \<Rightarrow> durable_run_status \<Rightarrow>
   failure_record option \<Rightarrow> run_manifest result" where
  "checkpoint_manifest st coordinator leaves received status failure =
     (let metadata = st_metadata st; recovery = st_recovery_state st
      in if rec_status recovery \<noteq> Running then Inl (Runtime_error ''cannot checkpoint a non-running store'')
         else if checkpoint_universe_incompatible st coordinator leaves received
         then Inl (Invalid_argument ''checkpoint coordinator universe is incompatible'')
         else if status = Complete \<and> False \<in> set received
         then Inl (Invalid_argument ''cannot complete a run with missing blocks'')
         else if (status = Failed) \<noteq> (failure \<noteq> None)
         then Inl (Invalid_argument ''checkpoint failure state/details mismatch'')
         else
           rbind (checkpoint_entries st coordinator leaves received) (\<lambda>entries.
           if rec_manifest_sequence recovery = u64_max then Inl (Overflow_error ''manifest sequence overflow'')
           else
             rbind (reduce_block_results leaves) (\<lambda>aggregate.
               Inr \<lparr>mf_run_id = md_run_id metadata, mf_run_spec_hash = md_run_spec_hash metadata,
                    mf_execution_layout_hash = md_execution_layout_hash metadata,
                    mf_build_fingerprint = md_build_fingerprint metadata,
                    mf_sequence = rec_manifest_sequence recovery + 1, mf_status = status,
                    mf_run_incarnation = rec_run_incarnation recovery,
                    mf_rng_version = rng_version (md_spec metadata),
                    mf_stats_schema_version = stats_schema_version (md_spec metadata),
                    mf_block_count = md_block_count metadata, mf_lease_epochs = map lease_epoch (cs_blocks coordinator),
                    mf_committed_blocks = entries, mf_committed_aggregate = aggregate, mf_failure = failure\<rparr>)))"

definition store_checkpoint ::
  "coordinator_state \<Rightarrow> aggregate_stats list \<Rightarrow> bool list \<Rightarrow> durable_run_status \<Rightarrow> failure_record option \<Rightarrow>
   durable_run_store \<Rightarrow> durable_run_store io" where
  "store_checkpoint coordinator leaves received status failure st =
     io_bind (io_result (checkpoint_manifest st coordinator leaves received status failure)) (\<lambda>m.
     io_bind (io_result (encode_manifest m)) (\<lambda>bs.
     if unat (rsc_max_manifest_bytes (st_store_config st)) < length bs
     then io_raise (Runtime_error ''manifest exceeds max_manifest_bytes'')
     else
       io_bind (atomic_write (st_store_config st) (manifest_path_for (mf_sequence m)) bs
         (st_storage_bytes st, st_storage_files st) (manifest_context m)) (\<lambda>usage.
       io_bind (io_hit ManifestAfterInstallBeforeMemory (dw_failure (manifest_context m))) (\<lambda>_.
         io_return (st\<lparr>st_storage_bytes := fst usage, st_storage_files := snd usage,
           st_recovery_state := (st_recovery_state st)\<lparr>rec_manifest_sequence := mf_sequence m, rec_status := status,
             rec_committed_results := map (\<lambda>i.
               if received ! i \<and> rec_committed_results (st_recovery_state st) ! i = None
               then st_durable_results st ! i else rec_committed_results (st_recovery_state st) ! i)
               [0..<length received]\<rparr>\<rparr>)))))"

section \<open>What the operations may change on disk\<close>

text \<open>Cleaning removes temporary files and block results, nothing else.\<close>

definition removable :: "path \<Rightarrow> bool" where
  "removable p \<longleftrightarrow> butlast p = kBlockDirectory"

lemma evolves_remove: "evolves ok removable w (drop_file p w)" if "\<not> final_path p \<or> removable p"
  using that by (auto simp: evolves_def drop_file_def map_of_filter_fst)

lemma within_require [io_rules]: "(\<And>w. evolves ok rm w (f w)) \<Longrightarrow> io_within ok rm (os_require m f)"
  unfolding os_require_def by (auto intro!: io_rules split: option.splits)

lemma within_scan [io_rules]: "io_within ok rm (list_run_directory m)" "io_within ok rm (payload_in ps)"
  "io_within ok rm has_existing_run_payload"
proof -
  show "io_within ok rm (list_run_directory m)"
    by (auto simp: io_within_def list_run_directory_def Let_def intro: next_answer_within split: prod.splits os_answer.splits)
  show p: "io_within ok rm (payload_in ps)" for ps
    by (induction ps) (auto intro!: io_rules)
  have "evolves ok rm w0 (snd (payload_in ps w))" if "evolves ok rm w0 w" for w0 w ps
    using p [of ps] that unfolding io_within_def by (blast intro: evolves_trans)
  then show "io_within ok rm has_existing_run_payload"
    by (auto simp: io_within_def has_existing_run_payload_def Let_def simp del: payload_in.simps dest!: next_answer_within [of _ _ _ ok rm]
        split: prod.splits os_answer.splits)
qed

lemma within_usage [io_rules]: "io_within ok rm storage_usage"
  unfolding storage_usage_def count_file_def by (auto intro!: io_rules split: prod.splits)

lemma list_directory_entries: "list_directory d w = (Returned ps, w') \<Longrightarrow> p \<in> set ps \<Longrightarrow> butlast p = d"
  by (auto simp: list_directory_def Let_def dest: in_set_takeD split: prod.splits os_answer.splits)

text \<open>Programs over the entries of one directory.\<close>

lemma within_list_directory:
  assumes "\<And>ps. \<forall>p \<in> set ps. butlast p = d \<Longrightarrow> io_within ok rm (f ps)"
  shows "io_within ok rm (io_bind (list_directory d) f)"
  unfolding io_within_def
proof
  fix w
  obtain r w' where l: "list_directory d w = (r, w')" by (cases "list_directory d w")
  have e: "evolves ok rm w w'" by (rule io_withinD [OF within_answer(2) l])
  show "evolves ok rm w (snd (io_bind (list_directory d) f w))"
  proof (cases r)
    case (Returned ps)
    then have "io_within ok rm (f ps)" using assms list_directory_entries l by blast
    then show ?thesis using e by (auto simp: io_bind_def l Returned io_within_def intro: evolves_trans)
  qed (use e in \<open>simp_all add: io_bind_def l\<close>)
qed

lemma within_stale [io_rules]: "io_within ok removable remove_stale_temporary_files"
  unfolding remove_stale_temporary_files_def remove_stale_file_def
  by (rule within_list_directory) (auto intro!: io_rules evolves_remove simp: final_path_def)

lemma within_orphans [io_rules]: "io_within ok removable (remove_orphan_block_results results)"
  unfolding remove_orphan_block_results_def remove_orphan_file_def
  by (rule within_list_directory) (auto intro!: io_rules evolves_remove simp: removable_def split: option.splits)

lemma within_lock [io_rules]: "io_within ok rm prepare_run_directory"
proof -
  have "evolves ok rm w (if file_at w kLockFilename = None then put_file kLockFilename [] w else w)" for w
    by (auto simp: evolves_def put_file_def final_path_def map_of_filter_fst map_add_def split: option.splits)
  then show ?thesis
    unfolding prepare_run_directory_def acquire_run_lock_def require_same_filesystem_def
    by (auto intro!: io_rules split: option.splits)
qed

lemma within_load [io_rules]: "io_within ok rm (load_latest_valid_manifest metadata config store)"
proof -
  have entry: "io_within ok rm (validate_entry m metadata canonical e results)" for m canonical e results
    unfolding validate_entry_def load_block_record_def Let_def
    by (auto intro!: io_rules split: exn.splits option.splits)
  have "io_within ok rm (load_candidate metadata config store q p)" for q p
    unfolding load_candidate_def validate_manifest_snapshot_def
    by (auto intro!: io_rules entry split: sum.splits)
  then have "io_within ok rm (try_candidates metadata config store cs err)" for cs err
    by (induction metadata config store cs err rule: try_candidates.induct)
      (auto intro!: io_rules split: exn.splits)
  then show ?thesis
    unfolding load_latest_valid_manifest_def note_candidate_def
    by (auto intro!: io_rules split: option.splits)
qed

lemma final_paths [simp]:
  "final_path kRunSpecFilename" "final_path (manifest_path_for n)" "final_path (block_path_for b)"
  by (simp_all add: final_path_def directory_defs manifest_path_for_def block_path_for_def)

lemma within_bind_result:
  "(\<And>x. r = Inr x \<Longrightarrow> io_within ok rm (f x)) \<Longrightarrow> io_within ok rm (io_bind (io_result r) f)"
  by (cases r) (auto simp: io_within_def io_bind_def io_result_def io_raise_def io_return_def)

lemma within_install [io_rules]:
  "(\<And>bs. encode_manifest m = Inr bs \<Longrightarrow> ok (manifest_path_for (mf_sequence m)) bs) \<Longrightarrow>
     io_within ok rm (install_manifest config m usage)"
  unfolding install_manifest_def by (rule within_bind_result) (auto intro: io_rules)

text \<open>\<^verbatim>\<open>open\<close> installs at most the run metadata and one manifest.\<close>

definition open_installs :: "build_env \<Rightarrow> run_spec \<Rightarrow> engine_config \<Rightarrow> path \<Rightarrow> bytes \<Rightarrow> bool" where
  "open_installs env spec engine p bs \<longleftrightarrow>
     p = kRunSpecFilename \<and> (\<exists>m. expected_metadata env spec engine = Inr m \<and> encode_run_metadata m = Inr bs) \<or>
     butlast p = kManifestDirectory"

lemma manifest_installs [simp]: "open_installs env spec engine (manifest_path_for n) bs"
  by (simp add: open_installs_def manifest_path_for_def)

lemma within_recovery [io_rules]:
  "io_within (open_installs env spec engine) removable (open_recovery config spec' engine' metadata existed pre usage)"
  unfolding open_recovery_def open_fresh_def open_loaded_def recover_running_def Let_def
  by (auto intro!: io_rules split: option.splits)

lemma within_open: "io_within (open_installs env spec engine) removable (store_open env canonical exists spec engine requested)"
proof -
  have "io_within (open_installs env spec engine) removable (open_metadata config expected existed usage)"
    if "expected_metadata env spec engine = Inr expected" for config expected existed usage
    unfolding open_metadata_def
    by (auto intro!: io_rules within_bind_result [of "encode_run_metadata expected"])
      (simp add: open_installs_def that)
  then show ?thesis
    unfolding store_open_def Let_def
    by (intro within_bind [OF within_pure(4)] within_bind_result [of "expected_metadata env spec engine"])
      (auto intro!: io_rules split: prod.splits)
qed

section \<open>The evidence on disk\<close>

text \<open>What every file ever installed satisfies: a block result holds what its block computes, and the
  metadata describes this run's scenarios.\<close>

definition block_evidence :: "libm \<Rightarrow> run_spec \<Rightarrow> path \<Rightarrow> bytes \<Rightarrow> bool" where
  "block_evidence L spec p bs \<longleftrightarrow>
     (butlast p = kBlockDirectory \<longrightarrow> (\<forall>rec. decode_block_record bs = Inr rec \<longrightarrow>
        block_leaf L spec (res_block (br_result rec)) = Inr (res_aggregate (br_result rec)))) \<and>
     (p = kRunSpecFilename \<longrightarrow> (\<forall>m. decode_run_metadata bs = Inr m \<longrightarrow>
        total_scenarios (md_spec m) = total_scenarios spec))"

definition evidence :: "libm \<Rightarrow> run_spec \<Rightarrow> world \<Rightarrow> bool" where
  "evidence L spec w \<longleftrightarrow>
     (\<forall>p bs. final_path p \<longrightarrow> (p, bs) \<in> set (w_log w) \<or> file_at w p = Some bs \<longrightarrow> block_evidence L spec p bs) \<and>
     (\<forall>p. final_path p \<longrightarrow> p \<notin> set (w_volatile w))"

lemma evidence_evolves:
  assumes "evidence L spec w" "evolves ok rm w w'" "\<And>p bs. ok p bs \<Longrightarrow> block_evidence L spec p bs"
  shows "evidence L spec w'"
proof -
  obtain new where n: "w_log w' = w_log w @ new" "\<forall>(p, bs) \<in> set new. final_path p \<and> ok p bs"
    "\<forall>p bs. final_path p \<longrightarrow> file_at w' p = Some bs \<longrightarrow> file_at w p = Some bs \<or> (p, bs) \<in> set new"
    using assms(2) unfolding evolves_def by blast
  have "block_evidence L spec p bs" if "final_path p" "(p, bs) \<in> set (w_log w') \<or> file_at w' p = Some bs" for p bs
  proof (cases "(p, bs) \<in> set new")
    case True
    then show ?thesis using n(2) assms(3) by blast
  next
    case False
    then have "(p, bs) \<in> set (w_log w) \<or> file_at w p = Some bs" using that n by auto
    then show ?thesis using assms(1) that(1) unfolding evidence_def by blast
  qed
  moreover have "\<forall>p. final_path p \<longrightarrow> p \<notin> set (w_volatile w')"
    using assms(1,2) unfolding evidence_def evolves_def by blast
  ultimately show ?thesis unfolding evidence_def by blast
qed

lemma evidence_power_loss: "evidence L spec w \<Longrightarrow> power_loss w w' \<Longrightarrow> evidence L spec w'"
  unfolding evidence_def power_loss_def by auto

lemma evidence_spec:
  assumes "io_within ok rm m" "\<And>p bs. ok p bs \<Longrightarrow> block_evidence L spec p bs"
  shows "io_spec (evidence L spec) m (\<lambda>_. evidence L spec) (evidence L spec)"
proof (rule io_specI)
  fix w assume "evidence L spec w"
  then have "evidence L spec (snd (m w))"
    using assms unfolding io_within_def by (blast intro: evidence_evolves)
  then show "case m w of (Returned x, w') \<Rightarrow> evidence L spec w' | (Raised e, w') \<Rightarrow> evidence L spec w'
      | (Killed, w') \<Rightarrow> evidence L spec w'"
    by (auto split: prod.splits outcome.splits)
qed

lemma make_envelope_inj:
  assumes "make_envelope magic p = make_envelope magic q" "length magic = 8"
  shows "p = q"
proof -
  have l: "length p = length q"
    using arg_cong [OF assms(1), of length] by (simp add: assms(2))
  then have "p @ x = q @ y \<Longrightarrow> p = q" for x y by (simp add: append_eq_append_conv)
  then show ?thesis using assms(1) unfolding make_envelope_layout Let_def l by (simp only: append_assoc same_append_eq)
qed

text \<open>The scenario count sits at a fixed place of the metadata.\<close>

lemma metadata_total_bytes:
  assumes "encode_run_metadata m = Inr bs"
  shows "\<exists>payload. bs = make_envelope kMetadataMagic payload \<and> take 8 (drop 72 payload) = le64 (total_scenarios (md_spec m))"
proof -
  obtain sb where sb: "encode_run_spec_payload (md_spec m) = Inr sb" "bs = make_envelope kMetadataMagic (metadata_payload m sb)"
    and id: "length (md_run_id m) = 32"
    using assms by (auto simp: encode_metadata_Inr)
  have "take 8 (drop 72 (metadata_payload m sb)) = le64 (total_scenarios (md_spec m))"
    using sb(1) by (auto simp: metadata_payload_def id encode_spec_Inr)
  then show ?thesis using sb(2) by blast
qed

lemma encode_metadata_total:
  assumes "encode_run_metadata m = Inr bs" "encode_run_metadata m' = Inr bs"
  shows "total_scenarios (md_spec m) = total_scenarios (md_spec m')"
proof -
  obtain p where p: "bs = make_envelope kMetadataMagic p" "take 8 (drop 72 p) = le64 (total_scenarios (md_spec m))"
    using metadata_total_bytes [OF assms(1)] by blast
  obtain q where q: "bs = make_envelope kMetadataMagic q" "take 8 (drop 72 q) = le64 (total_scenarios (md_spec m'))"
    using metadata_total_bytes [OF assms(2)] by blast
  have "p = q" using make_envelope_inj [of kMetadataMagic p q] p(1) q(1) by simp
  then show ?thesis using p(2) q(2) u64.enc_inj [where r = "[]" and q = "[]"] by simp
qed

lemma open_installs_evidence: "open_installs env spec engine p bs \<Longrightarrow> block_evidence L spec p bs"
proof -
  assume o: "open_installs env spec engine p bs"
  then have "butlast p \<noteq> kBlockDirectory"
    by (auto simp: open_installs_def directory_defs)
  moreover have "total_scenarios (md_spec m) = total_scenarios spec"
    if "p = kRunSpecFilename" "decode_run_metadata bs = Inr m" for m
  proof -
    have "butlast p \<noteq> kManifestDirectory" unfolding that(1) by (simp add: directory_defs)
    then obtain m' where m': "expected_metadata env spec engine = Inr m'" "encode_run_metadata m' = Inr bs"
      using o unfolding open_installs_def by blast
    have "encode_run_metadata m = Inr bs" using metadata.enc_dec [OF that(2)] by simp
    then have "total_scenarios (md_spec m) = total_scenarios (md_spec m')" using m'(2) by (rule encode_metadata_total)
    also have "md_spec m' = spec" using m'(1) by (auto simp: expected_metadata_def Let_def split: if_splits)
    finally show ?thesis .
  qed
  ultimately show ?thesis by (simp add: block_evidence_def)
qed

section \<open>What a recovered store knows\<close>

text \<open>A block computes the same leaf whatever its incarnation and lease.\<close>

lemma block_leaf_range:
  "start_scenario a = start_scenario b \<Longrightarrow> end_scenario a = end_scenario b \<Longrightarrow> block_leaf L spec a = block_leaf L spec b"
  by (simp add: block_leaf_def compute_block_def compute_block_with_kernel_def)

definition same_ranges :: "scenario_block list \<Rightarrow> scenario_block list \<Rightarrow> bool" where
  "same_ranges xs ys \<longleftrightarrow> list_all2 (\<lambda>a b. block_id a = block_id b \<and> start_scenario a = start_scenario b \<and>
     end_scenario a = end_scenario b) xs ys"

text \<open>Results held in memory are the leaves of their blocks.\<close>

definition results_ok :: "libm \<Rightarrow> run_spec \<Rightarrow> scenario_block list \<Rightarrow> block_result option list \<Rightarrow> bool" where
  "results_ok L spec blocks results \<longleftrightarrow>
     list_all2 (\<lambda>b r. \<forall>x. r = Some x \<longrightarrow> block_leaf L spec b = Inr (res_aggregate x)) blocks results"

lemma results_ok_none: "results_ok L spec blocks (replicate (length blocks) None)"
  by (simp add: results_ok_def list_all2_conv_all_nth)

lemma results_ok_update:
  assumes "results_ok L spec blocks results" "block_leaf L spec (blocks ! i) = Inr (res_aggregate x)"
  shows "results_ok L spec blocks (results[i := Some x])"
  unfolding results_ok_def list_all2_conv_all_nth
proof (intro conjI allI impI)
  show "length blocks = length (results[i := Some x])"
    using assms(1) by (simp add: results_ok_def list_all2_lengthD)
  fix j y assume "j < length blocks" "results[i := Some x] ! j = Some y"
  then show "block_leaf L spec (blocks ! j) = Inr (res_aggregate y)"
    using assms by (cases "i = j") (auto simp: results_ok_def list_all2_conv_all_nth)
qed

lemma results_ok_ranges: "results_ok L spec blocks results \<Longrightarrow> same_ranges blocks blocks' \<Longrightarrow> results_ok L spec blocks' results"
  using block_leaf_range unfolding results_ok_def same_ranges_def list_all2_conv_all_nth by metis

lemma make_blocks_total:
  assumes "make_blocks spec config = Inr bs" "make_blocks spec' config = Inr bs'" "total_scenarios spec = total_scenarios spec'"
  shows "bs = bs'"
  using assms by (auto simp: make_blocks_def blocks_needed_def make_block_def Let_def split: if_splits)

text \<open>Validation of a snapshot returns only results found on disk.\<close>

lemma load_block_record_spec:
  assumes "butlast p = kBlockDirectory"
  shows "io_spec (evidence L spec) (load_block_record p)
    (\<lambda>rec w. evidence L spec w \<and> block_leaf L spec (res_block (br_result rec)) = Inr (res_aggregate (br_result rec)))
    (evidence L spec)"
proof -
  have fin: "final_path p" using assms by (auto simp: final_path_def directory_defs)
  have "io_within (\<lambda>_ _. False) (\<lambda>_. False) (load_block_record p)"
    unfolding load_block_record_def by (auto intro!: io_rules split: exn.splits)
  then have "io_spec (evidence L spec) (load_block_record p) (\<lambda>_. evidence L spec) (evidence L spec)"
    by (rule evidence_spec) simp
  then show ?thesis
  proof (rule io_spec_Returned)
    fix w rec w'
    assume e: "evidence L spec w" "evidence L spec w'" and r: "load_block_record p w = (Returned rec, w')"
    obtain bs w1 where "read_file p 4096 Schema w = (Returned bs, w1)" "decode_block_record bs = Inr rec"
      using r by (auto simp: load_block_record_def io_catch_def io_bind_def io_result_def io_raise_def io_return_def
          split: prod.splits outcome.splits sum.splits exn.splits)
    moreover have "file_at w p = Some bs" using read_file_Returned(2) calculation(1) .
    ultimately have "block_leaf L spec (res_block (br_result rec)) = Inr (res_aggregate (br_result rec))"
      using e(1) fin assms unfolding evidence_def block_evidence_def by blast
    then show "evidence L spec w' \<and> block_leaf L spec (res_block (br_result rec)) = Inr (res_aggregate (br_result rec))"
      using e(2) by blast
  qed
qed

lemma accept_record_ok:
  assumes "accept_record m metadata canonical e results rec = Inr results'" "results_ok L spec canonical results"
    and "block_leaf L spec (res_block (br_result rec)) = Inr (res_aggregate (br_result rec))"
  shows "results_ok L spec canonical results'"
  using assms block_leaf_range [of "res_block (br_result rec)" "canonical ! unat (me_block_id e)" L spec]
  by (auto simp: accept_record_def record_incompatible_def Let_def intro!: results_ok_update split: if_splits option.splits)

lemma validate_entry_spec:
  "io_spec (\<lambda>w. evidence L spec w \<and> results_ok L spec canonical results) (validate_entry m metadata canonical e results)
    (\<lambda>results w. evidence L spec w \<and> results_ok L spec canonical results) (evidence L spec)"
  unfolding validate_entry_def
proof (rule io_spec_bind)
  let ?p = "block_path_for ((canonical ! unat (me_block_id e))\<lparr>run_incarnation := me_result_incarnation e,
    lease_epoch := me_lease_epoch e\<rparr>)"
  let ?leaf = "\<lambda>rec. block_leaf L spec (res_block (br_result rec)) = Inr (res_aggregate (br_result rec))"
  have "butlast ?p = kBlockDirectory" by (simp add: block_path_for_def)
  from load_block_record_spec [OF this]
  show "io_spec (\<lambda>w. evidence L spec w \<and> results_ok L spec canonical results) (load_block_record ?p)
    (\<lambda>rec w. evidence L spec w \<and> results_ok L spec canonical results \<and> ?leaf rec) (evidence L spec)"
    by (cases "results_ok L spec canonical results") (simp_all add: io_spec_def)
qed (auto intro!: io_spec_result intro: accept_record_ok)

lemma decode_manifest_leases:
  assumes "decode_manifest bs limit = Inr m"
  shows "length (mf_lease_epochs m) = unat (mf_block_count m)"
  using assms unfolding decode_manifest_def
  by (auto simp: decode_committed_part_def read_epochs_iff split: if_splits)

text \<open>A snapshot that was loaded, for this specification and these blocks.\<close>

definition loaded_ok :: "libm \<Rightarrow> run_spec \<Rightarrow> scenario_block list \<Rightarrow> loaded_manifest \<Rightarrow> bool" where
  "loaded_ok L spec blocks loaded \<longleftrightarrow>
     results_ok L spec blocks (lm_results loaded) \<and>
     (mf_status (lm_manifest loaded) = Complete \<longrightarrow> None \<notin> set (lm_results loaded)) \<and>
     length (mf_lease_epochs (lm_manifest loaded)) = length blocks"

lemma validate_snapshot_spec:
  assumes "make_blocks spec engine = Inr blocks" "total_scenarios (md_spec metadata) = total_scenarios spec"
    and "unat (md_block_count metadata) = length blocks" "length (mf_lease_epochs m) = unat (mf_block_count m)"
  shows "io_spec (evidence L spec) (validate_manifest_snapshot m metadata engine)
    (\<lambda>loaded w. evidence L spec w \<and> loaded_ok L spec blocks loaded) (evidence L spec)"
proof (cases "manifest_incompatible m metadata")
  case True
  then show ?thesis unfolding validate_manifest_snapshot_def by (simp add: io_spec_raise)
next
  case False
  then have n: "length (mf_lease_epochs m) = length blocks"
    using assms(3,4) by (simp add: manifest_incompatible_def)
  let ?I = "\<lambda>results w. evidence L spec w \<and> results_ok L spec blocks results"
  have start: "io_spec (evidence L spec) (io_result (make_blocks (md_spec metadata) engine))
      (\<lambda>canonical w. evidence L spec w \<and> canonical = blocks) (evidence L spec)"
    by (rule io_spec_result) (use make_blocks_total assms in blast)+
  have entries: "io_spec (?I results) (io_fold (validate_entry m metadata blocks) es results) ?I (evidence L spec)" for es results
    by (rule io_spec_fold [where I = ?I]) (rule validate_entry_spec)
  have none: "io_spec (evidence L spec) (io_fold (validate_entry m metadata blocks) es (replicate (length blocks) None))
      ?I (evidence L spec)" for es
    by (rule io_spec_post [OF entries]) (auto simp: results_ok_none)
  let ?finish = "\<lambda>results. io_bind (io_result (reduce_block_results (result_leaves results))) (\<lambda>reduced.
        if \<not> aggregates_equal reduced (mf_committed_aggregate m)
        then io_raise (Invalid_durable_artifact ''manifest aggregate does not match its fixed-tree block reduction'')
        else if mf_status m = Complete \<and> None \<in> set results
        then io_raise (Invalid_durable_artifact ''complete manifest is missing a block result'')
        else io_return \<lparr>lm_manifest = m, lm_results = results\<rparr>)"
  let ?post = "\<lambda>loaded w. evidence L spec w \<and> loaded_ok L spec blocks loaded"
  have last: "io_spec (?I results) (?finish results) ?post (evidence L spec)" for results
    by (rule io_spec_bind [where Q = "\<lambda>_. ?I results"])
      (auto intro: io_spec_result io_spec_return io_spec_raise simp: loaded_ok_def n)
  have rest: "io_spec (\<lambda>w. evidence L spec w \<and> canonical = blocks)
      (io_bind (io_fold (validate_entry m metadata canonical) (mf_committed_blocks m) (replicate (length canonical) None)) ?finish)
      ?post (evidence L spec)" for canonical
    using io_spec_bind [OF none last] by (cases "canonical = blocks") (simp_all add: io_spec_def)
  show ?thesis
    unfolding validate_manifest_snapshot_def using False by (simp add: io_spec_bind [OF start rest])
qed

lemma load_candidate_spec:
  assumes "make_blocks spec engine = Inr blocks" "total_scenarios (md_spec metadata) = total_scenarios spec"
    and "unat (md_block_count metadata) = length blocks"
  shows "io_spec (evidence L spec) (load_candidate metadata engine config q p)
    (\<lambda>loaded w. evidence L spec w \<and> loaded_ok L spec blocks loaded) (evidence L spec)"
proof -
  have within: "io_within (\<lambda>_ _. False) (\<lambda>_. False) (read_file p n kind)" for n kind by (intro io_rules)
  have read: "io_spec (evidence L spec) (read_file p n kind) (\<lambda>_. evidence L spec) (evidence L spec)" for n kind
    by (rule evidence_spec [OF within]) simp
  show ?thesis
    unfolding load_candidate_def
    by (rule io_spec_bind [OF read])
      (auto intro: io_spec_raise validate_snapshot_spec [OF assms decode_manifest_leases] split: sum.splits)
qed

lemma try_candidates_spec:
  assumes "make_blocks spec engine = Inr blocks" "total_scenarios (md_spec metadata) = total_scenarios spec"
    and "unat (md_block_count metadata) = length blocks"
  shows "io_spec (evidence L spec) (try_candidates metadata engine config cs err)
    (\<lambda>(loaded, _) w. evidence L spec w \<and> (\<forall>x. loaded = Some x \<longrightarrow> loaded_ok L spec blocks x)) (evidence L spec)"
proof (induction cs arbitrary: err)
  case (Cons c cs)
  obtain q p where c: "c = (q, p)" by (cases c)
  have found: "io_spec (evidence L spec) (io_bind (load_candidate metadata engine config q p) (\<lambda>loaded. io_return (Some loaded, err)))
    (\<lambda>(loaded, _) w. evidence L spec w \<and> (\<forall>x. loaded = Some x \<longrightarrow> loaded_ok L spec blocks x)) (evidence L spec)"
    by (rule io_spec_bind [OF load_candidate_spec [OF assms]]) (auto intro: io_spec_return)
  show ?case
    unfolding c try_candidates.simps
    by (rule io_spec_catch [OF found]) (use Cons.IH in \<open>auto intro: io_spec_raise split: exn.splits\<close>)
qed (auto intro: io_spec_return)

end
