(* ===== verification/Store_Recovery.thy ===== *)
theory Store_Recovery
  imports Run_Store
begin

text \<open>
  What \<^verbatim>\<open>DurableRunStore::open\<close>, \<^verbatim>\<open>record_result\<close> and \<^verbatim>\<open>checkpoint\<close> (\<open>Run_Store\<close>) guarantee together: on a
  directory whose block results were computed by this program, a store that opens holds only
  results of its own blocks, complete ones when it is complete, and every operation leaves such a
  directory behind, whether it returns, throws or is killed.
\<close>

section \<open>Opening\<close>

lemma returned_simps:
  "io_return x w = (Returned y, w') \<longleftrightarrow> y = x \<and> w' = w"
  "io_raise e w = (Returned y, w') \<longleftrightarrow> False"
  "io_result r w = (Returned y, w') \<longleftrightarrow> r = Inr y \<and> w' = w"
  by (auto simp: io_return_def io_raise_def io_result_def split: sum.splits)

lemma io_bind_result [simp]: "io_bind (io_result (Inr x)) f = f x"
  by (simp add: fun_eq_iff io_bind_def io_result_def io_return_def)

lemmas returned = io_bind_Returned returned_simps

lemma expected_metadata_cases:
  assumes "expected_metadata env spec engine = Inr E"
  obtains "validate_run_spec spec = Inr ()" "validate_engine_config engine spec = Inr ()"
    "\<not> max_materialized_blocks engine < blocks_needed spec engine" "md_block_count E = blocks_needed spec engine"
    "md_spec E = spec" "run_spec_hash spec = Inr (md_run_spec_hash E)"
    "execution_layout_hash spec engine = Inr (md_execution_layout_hash E)"
    "md_run_id E = durable_run_id (md_run_spec_hash E) (md_execution_layout_hash E)"
    "md_build_fingerprint E = build_hash (current_build_identity env)" "md_block_size E = block_size engine"
    "md_build_description E = build_description (current_build_identity env)"
  using assms unfolding expected_metadata_def Let_def
  by (cases "validate_run_spec spec"; cases "validate_engine_config engine spec"; cases "run_spec_hash spec";
      cases "execution_layout_hash spec engine") (auto split: if_splits)

lemma spec_hash_length: "run_spec_hash spec = Inr h \<Longrightarrow> length h = 32"
  by (auto simp: run_spec_hash_def)

lemma expected_metadata_Inr:
  assumes "expected_metadata env spec engine = Inr E"
  shows "\<exists>blocks. make_blocks spec engine = Inr blocks \<and> unat (md_block_count E) = length blocks"
    "length (md_run_id E) = 32" "length (md_run_spec_hash E) = 32"
    "length (md_execution_layout_hash E) = 32" "length (md_build_fingerprint E) = 32"
proof -
  note c = expected_metadata_cases [OF assms]
  show "\<exists>blocks. make_blocks spec engine = Inr blocks \<and> unat (md_block_count E) = length blocks"
    by (rule c) (simp add: make_blocks_def Let_def leD [OF u64_le_max])
  show "length (md_run_id E) = 32" by (rule c) simp
  show "length (md_run_spec_hash E) = 32" by (rule c) (rule spec_hash_length)
  show "length (md_execution_layout_hash E) = 32" by (rule c) (rule layout_hash_length)
  show "length (md_build_fingerprint E) = 32" by (rule c) (simp add: current_build_identity_def Let_def)
qed

text \<open>Two descriptions of the same run.\<close>

definition same_run :: "run_metadata \<Rightarrow> run_metadata \<Rightarrow> bool" where
  "same_run a b \<longleftrightarrow>
     md_run_id a = md_run_id b \<and> md_run_spec_hash a = md_run_spec_hash b \<and>
     md_execution_layout_hash a = md_execution_layout_hash b \<and> md_build_fingerprint a = md_build_fingerprint b \<and>
     md_block_size a = md_block_size b \<and> md_block_count a = md_block_count b"

lemma require_compatible_Inr: "require_compatible a b = Inr x \<Longrightarrow> same_run a b"
  by (auto simp: require_compatible_def same_run_def split: if_splits)

lemma within_evidence:
  assumes "io_within (open_installs env spec engine) removable m"
  shows "io_spec (evidence L spec) m (\<lambda>_. evidence L spec) (evidence L spec)"
  using assms by (rule evidence_spec) (rule open_installs_evidence)

lemma open_metadata_Returned:
  assumes "open_metadata config E existed usage w = (Returned (metadata, x), w')"
  shows "same_run metadata E" "metadata = E \<or> (\<exists>bs. file_at w kRunSpecFilename = Some bs \<and> decode_run_metadata bs = Inr metadata)"
  using assms unfolding open_metadata_def
  by (auto simp: returned same_run_def split: if_splits dest: require_compatible_Inr read_file_Returned(2))

lemma open_metadata_spec:
  assumes "expected_metadata env spec engine = Inr E"
  shows "io_spec (evidence L spec) (open_metadata config E existed usage)
    (\<lambda>x w. evidence L spec w \<and> same_run (fst x) E \<and> total_scenarios (md_spec (fst x)) = total_scenarios spec)
    (evidence L spec)"
proof (rule io_spec_Returned [OF within_evidence])
  show "io_within (open_installs env spec engine) removable (open_metadata config E existed usage)"
    unfolding open_metadata_def
    by (auto intro!: io_rules within_bind_result [of "encode_run_metadata E"]) (simp add: open_installs_def assms)
next
  fix w x w'
  assume e: "evidence L spec w" "evidence L spec w'" and "open_metadata config E existed usage w = (Returned x, w')"
  then have r: "open_metadata config E existed usage w = (Returned (fst x, snd x), w')" by simp
  have "total_scenarios (md_spec (fst x)) = total_scenarios spec"
    using open_metadata_Returned(2) [OF r]
  proof
    assume "fst x = E"
    then show ?thesis using expected_metadata_cases [OF assms] by metis
  next
    assume "\<exists>bs. file_at w kRunSpecFilename = Some bs \<and> decode_run_metadata bs = Inr (fst x)"
    moreover have "final_path kRunSpecFilename" by simp
    ultimately show ?thesis using e(1) unfolding evidence_def block_evidence_def by blast
  qed
  then show "evidence L spec w' \<and> same_run (fst x) E \<and> total_scenarios (md_spec (fst x)) = total_scenarios spec"
    using e(2) open_metadata_Returned(1) [OF r] by blast
qed

lemma load_latest_spec:
  assumes "make_blocks spec engine = Inr blocks" "total_scenarios (md_spec metadata) = total_scenarios spec"
    and "unat (md_block_count metadata) = length blocks"
  shows "io_spec (evidence L spec) (load_latest_valid_manifest metadata engine config)
    (\<lambda>found w. evidence L spec w \<and> (\<forall>x. ms_loaded found = Some x \<longrightarrow> loaded_ok L spec blocks x)) (evidence L spec)"
proof -
  have w: "io_within (\<lambda>_ _. False) (\<lambda>_. False) (list_directory kManifestDirectory)"
    "io_within (\<lambda>_ _. False) (\<lambda>_. False) (io_fold note_candidate entries cs)" for entries cs
    unfolding note_candidate_def by (auto intro!: io_rules split: option.splits)
  note scan = evidence_spec [OF w(1), of L spec] evidence_spec [OF w(2), of L spec]
  show ?thesis
    unfolding load_latest_valid_manifest_def
    by (rule io_spec_bind [OF scan(1)], simp, rule io_spec_bind [OF scan(2)], simp,
        rule io_spec_bind [OF try_candidates_spec [OF assms]]) (auto intro: io_spec_return)
qed


text \<open>What the recovery state has to do with the blocks of the run.\<close>

definition recovery_ok :: "libm \<Rightarrow> run_spec \<Rightarrow> scenario_block list \<Rightarrow> durable_recovery_state \<Rightarrow> bool" where
  "recovery_ok L spec blocks R \<longleftrightarrow>
     same_ranges blocks (rec_blocks R) \<and> results_ok L spec blocks (rec_committed_results R) \<and>
     (rec_status R = Complete \<longrightarrow> None \<notin> set (rec_committed_results R))"

lemma same_ranges_refl [simp]: "same_ranges blocks blocks"
  by (simp add: same_ranges_def list_all2_refl)

lemma same_ranges_map:
  "(\<And>b. block_id (f b) = block_id b \<and> start_scenario (f b) = start_scenario b \<and> end_scenario (f b) = end_scenario b) \<Longrightarrow>
     same_ranges blocks (map f bs) = same_ranges blocks bs"
  by (simp add: same_ranges_def list_all2_conv_all_nth) (metis nth_map)

lemma same_ranges_zip:
  "length epochs = length bs \<Longrightarrow>
     same_ranges blocks (map (\<lambda>(b, epoch). b\<lparr>run_incarnation := i, lease_epoch := epoch\<rparr>) (zip bs epochs)) = same_ranges blocks bs"
  by (auto simp: same_ranges_def list_all2_conv_all_nth)

lemma open_fresh_Returned:
  assumes "open_fresh config metadata preflighted usage recovery w = (Returned (R, u), w')"
    and "same_ranges blocks (rec_blocks recovery)" "results_ok L spec blocks (rec_committed_results recovery)"
  shows "recovery_ok L spec blocks R"
  using assms unfolding open_fresh_def Let_def
  by (auto simp: returned recovery_ok_def same_ranges_map)

lemma recover_running_Returned:
  assumes "recover_running config metadata h usage recovery w = (Returned R, w')"
  shows "rec_committed_results R = rec_committed_results recovery" "rec_status R = rec_status recovery"
    "same_ranges blocks (rec_blocks R) = same_ranges blocks (rec_blocks recovery)"
  using assms unfolding recover_running_def Let_def
  by (auto simp: returned same_ranges_map split: if_splits)

lemma open_loaded_Returned:
  assumes r: "open_loaded config metadata loaded h usage recovery w = (Returned (R, u), w')"
    and ok: "loaded_ok L spec blocks loaded" and b: "rec_blocks recovery = blocks"
  shows "recovery_ok L spec blocks R"
proof -
  let ?m = "lm_manifest loaded"
  let ?R = "recovery\<lparr>rec_manifest_sequence := mf_sequence ?m, rec_run_incarnation := mf_run_incarnation ?m,
            rec_status := mf_status ?m, rec_committed_results := lm_results loaded,
            rec_blocks := map (\<lambda>(b, epoch). b\<lparr>run_incarnation := mf_run_incarnation ?m, lease_epoch := epoch\<rparr>)
              (zip (rec_blocks recovery) (mf_lease_epochs ?m))\<rparr>"
  have "recovery_ok L spec blocks ?R"
    using ok b by (auto simp: recovery_ok_def loaded_ok_def same_ranges_zip)
  moreover have "R = ?R \<or> (\<exists>w w'. recover_running config metadata h usage ?R w = (Returned R, w'))"
    using r unfolding open_loaded_def Let_def by (auto simp: returned split: if_splits)
  ultimately show ?thesis
    using recover_running_Returned [of config metadata h usage ?R] unfolding recovery_ok_def by (metis (no_types, lifting))
qed

lemma open_recovery_spec:
  assumes "make_blocks spec engine = Inr blocks" "total_scenarios (md_spec metadata) = total_scenarios spec"
    and "unat (md_block_count metadata) = length blocks"
  shows "io_spec (evidence L spec) (open_recovery config spec engine metadata existed preflighted usage)
    (\<lambda>x w. evidence L spec w \<and> recovery_ok L spec blocks (fst x)) (evidence L spec)"
proof -
  let ?init = "\<lparr>rec_manifest_sequence = 0, rec_run_incarnation = 1, rec_status = Running,
              rec_resumed = existed, rec_blocks = blocks, rec_committed_results = replicate (length blocks) None\<rparr>"
  let ?post = "\<lambda>x w. evidence L spec w \<and> recovery_ok L spec blocks (fst x)"
  have w: "io_within (open_installs env spec engine) removable (open_fresh config metadata preflighted usage R)"
    "io_within (open_installs env spec engine) removable (open_loaded config metadata loaded h usage R)" for env R loaded h
    unfolding open_fresh_def open_loaded_def recover_running_def Let_def
    by (auto intro!: io_rules split: option.splits)
  note ev = within_evidence [OF w(1)] within_evidence [OF w(2)]
  have fresh: "io_spec (evidence L spec) (open_fresh config metadata preflighted usage ?init) ?post (evidence L spec)"
    by (rule io_spec_Returned [OF ev(1)])
      (auto intro!: open_fresh_Returned results_ok_none)
  have loaded: "io_spec (evidence L spec) (open_loaded config metadata loaded h usage ?init) ?post (evidence L spec)"
    if "loaded_ok L spec blocks loaded" for loaded h
    by (rule io_spec_Returned [OF ev(2)]) (auto intro!: open_loaded_Returned that)
  have pre: "io_spec (\<lambda>w. evidence L spec w \<and> c) m Q R" if "c \<Longrightarrow> io_spec (evidence L spec) m Q R" for c m Q R
    using that by (cases c) (simp_all add: io_spec_def)
  show ?thesis
    unfolding open_recovery_def assms(1) io_bind_result Let_def
    by (rule io_spec_bind [OF load_latest_spec [OF assms]], rule pre)
      (auto intro: fresh loaded io_spec_raise split: option.splits)
qed


text \<open>A store that is open for this run.\<close>

definition store_ok :: "libm \<Rightarrow> build_env \<Rightarrow> run_spec \<Rightarrow> engine_config \<Rightarrow> scenario_block list \<Rightarrow> durable_run_store \<Rightarrow> bool" where
  "store_ok L env spec engine blocks st \<longleftrightarrow>
     make_blocks spec engine = Inr blocks \<and>
     (\<exists>E. expected_metadata env spec engine = Inr E \<and> same_run (st_metadata st) E) \<and>
     st_spec st = spec \<and> recovery_ok L spec blocks (st_recovery_state st) \<and>
     results_ok L spec blocks (st_durable_results st)"

lemma store_open_spec:
  assumes b: "make_blocks spec engine = Inr blocks"
  shows "io_spec (evidence L spec) (store_open env canonical exists spec engine requested)
    (\<lambda>st w. evidence L spec w \<and> store_ok L env spec engine blocks st) (evidence L spec)"
proof (cases "expected_metadata env spec engine")
  case (Inl e)
  then have "store_open env canonical exists spec engine requested w = (Returned st, w') \<Longrightarrow> False" for w st w'
    by (auto simp: store_open_def returned)
  then show ?thesis
    by (intro io_spec_Returned [OF within_evidence [OF within_open]]) blast
next
  case (Inr E)
  have n: "unat (md_block_count E) = length blocks" using expected_metadata_Inr(1) [OF Inr] b by auto
  let ?post = "\<lambda>st w. evidence L spec w \<and> store_ok L env spec engine blocks st"
  have recovered: "io_spec (\<lambda>w. evidence L spec w \<and> same_run (fst x) E \<and> total_scenarios (md_spec (fst x)) = total_scenarios spec)
      (case x of (metadata, preflighted, usage) \<Rightarrow>
        io_bind (open_recovery config spec engine metadata existed preflighted usage) (\<lambda>(recovery, usage).
          io_return \<lparr>st_spec = spec, st_engine_config = engine, st_store_config = config,
            st_metadata = metadata, st_recovery_state = recovery, st_durable_results = rec_committed_results recovery,
            st_storage_bytes = fst usage, st_storage_files = snd usage\<rparr>)) ?post (evidence L spec)" for config existed x
  proof (cases "same_run (fst x) E \<and> total_scenarios (md_spec (fst x)) = total_scenarios spec")
    case True
    obtain metadata preflighted usage where x: "x = (metadata, preflighted, usage)" by (cases x)
    have "unat (md_block_count metadata) = length blocks" using True n by (simp add: x same_run_def)
    note rec = open_recovery_spec [OF b _ this, of L config existed preflighted usage]
    show ?thesis
      using True unfolding x
      by (auto intro!: io_spec_bind [OF rec] io_spec_return simp: store_ok_def b Inr recovery_ok_def)
  qed (auto simp: io_spec_def)
  note within = within_evidence [of env spec engine _ L]
  note step = io_spec_bind [OF within]
  show ?thesis
    unfolding store_open_def
    apply (rule step, rule within_pure)
    apply (unfold Inr io_bind_result Let_def)
    apply (rule step, rule within_pure)
    apply (rule step, rule within_update, simp)
    apply (rule step, rule io_rules)
    apply (rule step, rule io_rules)
    apply (rule step, rule io_rules)
    apply (simp add: io_spec_raise)
    apply (intro impI)
    apply (rule step, rule io_rules)
    apply (rule step, auto intro!: io_rules)[1]
    apply (auto intro!: io_spec_raise io_spec_bind [OF open_metadata_spec [OF Inr] recovered])
    done
qed


section \<open>Recording and checkpointing\<close>

lemma results_ok_nth:
  "results_ok L spec blocks results \<Longrightarrow> i < length blocks \<Longrightarrow> results ! i = Some r \<Longrightarrow>
     block_leaf L spec (blocks ! i) = Inr (res_aggregate r)"
  by (auto simp: results_ok_def list_all2_conv_all_nth)

lemma results_ok_length: "results_ok L spec blocks results \<Longrightarrow> length results = length blocks"
  by (simp add: results_ok_def list_all2_lengthD)

text \<open>What passing the checks of \<^verbatim>\<open>record_result\<close> says of a result.\<close>

lemma check_result_Inr:
  assumes "check_result st r = Inr already"
  shows "rec_status (st_recovery_state st) = Running"
    "unat (block_id (res_block r)) < length (rec_blocks (st_recovery_state st))"
    "start_scenario (res_block r) = start_scenario (rec_blocks (st_recovery_state st) ! unat (block_id (res_block r)))"
    "end_scenario (res_block r) = end_scenario (rec_blocks (st_recovery_state st) ! unat (block_id (res_block r)))"
    "res_run_spec_hash r = md_run_spec_hash (st_metadata st)"
    "res_execution_layout_hash r = md_execution_layout_hash (st_metadata st)"
    "res_build_fingerprint r = md_build_fingerprint (st_metadata st)"
  using assms unfolding check_result_def Let_def by (auto split: if_splits)

text \<open>The file \<^verbatim>\<open>record_result\<close> installs is evidence when the result is what its block computes.\<close>

lemma record_evidence:
  assumes "store_ok L env spec engine blocks st" "check_result st r = Inr already"
    and "encode_block_record \<lparr>br_run_id = md_run_id (st_metadata st), br_result = r\<rparr> = Inr bs"
    and "block_leaf L spec (res_block r) = Inr (res_aggregate r)"
  shows "block_evidence L spec (block_path_for (res_block r)) bs"
proof -
  obtain E where E: "expected_metadata env spec engine = Inr E" "same_run (st_metadata st) E"
    using assms(1) by (auto simp: store_ok_def)
  have "block_record_digests \<lparr>br_run_id = md_run_id (st_metadata st), br_result = r\<rparr>"
    using E(2) expected_metadata_Inr(2-5) [OF E(1)] check_result_Inr(5-7) [OF assms(2)]
    by (simp add: block_record_digests_def same_run_def)
  from block_record.dec_enc [OF this assms(3)] show ?thesis
    using assms(4) by (auto simp: block_evidence_def block_path_for_def directory_defs)
qed

lemma record_result_Returned:
  assumes "record_result r st w = (Returned st', w')" "store_ok L env spec engine blocks st"
    and "block_leaf L spec (res_block r) = Inr (res_aggregate r)"
  shows "store_ok L env spec engine blocks st'" "st_recovery_state st' = st_recovery_state st"
    "st_store_config st' = st_store_config st" "st_metadata st' = st_metadata st"
    "block_leaf L spec (blocks ! unat (block_id (res_block r))) = Inr (res_aggregate r)"
proof -
  obtain already where c: "check_result st r = Inr already"
    and st': "st' = st \<or> (\<exists>u. st' = st\<lparr>st_durable_results := (st_durable_results st)[unat (block_id (res_block r)) := Some r],
           st_storage_bytes := fst u, st_storage_files := snd u\<rparr>)"
    using assms(1) unfolding record_result_def by (fastforce simp: returned split: if_splits)
  let ?i = "unat (block_id (res_block r))"
  have ranges: "same_ranges blocks (rec_blocks (st_recovery_state st))"
    using assms(2) by (simp add: store_ok_def recovery_ok_def)
  then have "?i < length blocks" "start_scenario (blocks ! ?i) = start_scenario (res_block r)"
    "end_scenario (blocks ! ?i) = end_scenario (res_block r)"
    using check_result_Inr(2-4) [OF c] by (auto simp: same_ranges_def list_all2_conv_all_nth)
  then show "block_leaf L spec (blocks ! ?i) = Inr (res_aggregate r)"
    using block_leaf_range assms(3) by metis
  then have "results_ok L spec blocks ((st_durable_results st)[?i := Some r])"
    using assms(2) by (intro results_ok_update) (simp add: store_ok_def)
  then show "store_ok L env spec engine blocks st'" "st_recovery_state st' = st_recovery_state st"
    "st_store_config st' = st_store_config st" "st_metadata st' = st_metadata st"
    using st' assms(2) by (auto simp: store_ok_def)
qed

lemma record_result_spec:
  assumes ok: "store_ok L env spec engine blocks st" and leaf: "block_leaf L spec (res_block r) = Inr (res_aggregate r)"
  shows "io_spec (evidence L spec) (record_result r st)
    (\<lambda>st' w. evidence L spec w \<and> store_ok L env spec engine blocks st' \<and> st_recovery_state st' = st_recovery_state st \<and>
       block_leaf L spec (blocks ! unat (block_id (res_block r))) = Inr (res_aggregate r)) (evidence L spec)"
proof (rule io_spec_Returned)
  have "io_within (block_evidence L spec) (\<lambda>_. False) (record_result r st)"
    unfolding record_result_def
    by (rule within_bind_result) (auto intro!: io_rules within_bind_result intro: record_evidence [OF ok _ _ leaf])
  then show "io_spec (evidence L spec) (record_result r st) (\<lambda>_. evidence L spec) (evidence L spec)"
    by (rule evidence_spec)
qed (simp add: record_result_Returned [OF _ ok leaf])

lemma manifest_evidence: "block_evidence L spec (manifest_path_for n) bs"
  by (auto simp: block_evidence_def manifest_path_for_def directory_defs)

lemma checkpoint_manifest_Inr:
  assumes "checkpoint_manifest st coordinator leaves received status failure = Inr m"
  shows "rec_status (st_recovery_state st) = Running"
    "length received = unat (md_block_count (st_metadata st))" "length leaves = unat (md_block_count (st_metadata st))"
    "status = Complete \<longrightarrow> False \<notin> set received"
    "\<exists>entries. checkpoint_entries st coordinator leaves received = Inr entries \<and> mf_committed_blocks m = entries"
    "reduce_block_results leaves = Inr (mf_committed_aggregate m)"
  using assms unfolding checkpoint_manifest_def checkpoint_universe_incompatible_def Let_def
  by (auto split: if_splits)


lemma store_block_count:
  "store_ok L env spec engine blocks st \<Longrightarrow> unat (md_block_count (st_metadata st)) = length blocks"
  using expected_metadata_Inr(1) by (fastforce simp: store_ok_def same_run_def)

lemma checkpoint_entries_durable:
  assumes "checkpoint_entries st coordinator leaves received = Inr entries" "i < length received" "received ! i"
  shows "\<exists>r. st_durable_results st ! i = Some r"
proof -
  let ?is = "filter (\<lambda>i. received ! i) [0..<length received]"
  have "i \<in> set ?is" using assms(2,3) by simp
  then obtain j where j: "j < length ?is" "?is ! j = i" by (metis in_set_conv_nth)
  have "checkpoint_entry st coordinator leaves (?is ! j) = Inr (entries ! j)"
    using assms(1) j(1) unfolding checkpoint_entries_def map_result_Inr by blast
  then show ?thesis unfolding j(2) by (auto simp: checkpoint_entry_def split: option.splits)
qed

lemma store_checkpoint_Returned:
  assumes r: "store_checkpoint coordinator leaves received status failure st w = (Returned st', w')"
    and ok: "store_ok L env spec engine blocks st"
  shows "store_ok L env spec engine blocks st'" "st_store_config st' = st_store_config st"
    "st_metadata st' = st_metadata st" "rec_blocks (st_recovery_state st') = rec_blocks (st_recovery_state st)"
    "rec_status (st_recovery_state st') = status"
proof -
  let ?R = "st_recovery_state st"
  let ?merge = "map (\<lambda>i. if received ! i \<and> rec_committed_results ?R ! i = None
               then st_durable_results st ! i else rec_committed_results ?R ! i) [0..<length received]"
  obtain m where m: "checkpoint_manifest st coordinator leaves received status failure = Inr m"
    and st': "\<exists>u. st' = st\<lparr>st_storage_bytes := fst u, st_storage_files := snd u,
           st_recovery_state := ?R\<lparr>rec_manifest_sequence := mf_sequence m, rec_status := status,
             rec_committed_results := ?merge\<rparr>\<rparr>"
    using r unfolding store_checkpoint_def by (fastforce simp: returned split: if_splits)
  note c = checkpoint_manifest_Inr [OF m]
  have res: "results_ok L spec blocks (rec_committed_results ?R)" "results_ok L spec blocks (st_durable_results st)"
    using ok by (auto simp: store_ok_def recovery_ok_def)
  have n: "length received = length blocks" using c(2) store_block_count [OF ok] by simp
  have merged: "results_ok L spec blocks ?merge"
    using res unfolding results_ok_def list_all2_conv_all_nth by (simp add: n)
  have "None \<notin> set ?merge" if "status = Complete"
  proof -
    have "\<exists>r. st_durable_results st ! i = Some r" "received ! i" if "i < length received" for i
    proof -
      show "received ! i" using c(4) \<open>status = Complete\<close> that by (metis nth_mem)
      then show "\<exists>r. st_durable_results st ! i = Some r" using checkpoint_entries_durable c(5) that by blast
    qed
    then show ?thesis by fastforce
  qed
  then show "store_ok L env spec engine blocks st'" "st_store_config st' = st_store_config st"
    "st_metadata st' = st_metadata st" "rec_blocks (st_recovery_state st') = rec_blocks (st_recovery_state st)"
    "rec_status (st_recovery_state st') = status"
    using st' merged ok by (auto simp: store_ok_def recovery_ok_def)
qed

lemma store_checkpoint_spec:
  assumes ok: "store_ok L env spec engine blocks st"
  shows "io_spec (evidence L spec) (store_checkpoint coordinator leaves received status failure st)
    (\<lambda>st' w. evidence L spec w \<and> store_ok L env spec engine blocks st' \<and> st_store_config st' = st_store_config st \<and>
       st_metadata st' = st_metadata st \<and> rec_blocks (st_recovery_state st') = rec_blocks (st_recovery_state st) \<and>
       rec_status (st_recovery_state st') = status) (evidence L spec)"
proof (rule io_spec_Returned)
  have "io_within (block_evidence L spec) (\<lambda>_. False) (store_checkpoint coordinator leaves received status failure st)"
    unfolding store_checkpoint_def by (auto intro!: io_rules manifest_evidence)
  then show "io_spec (evidence L spec) (store_checkpoint coordinator leaves received status failure st)
      (\<lambda>_. evidence L spec) (evidence L spec)"
    by (rule evidence_spec)
qed (simp add: store_checkpoint_Returned [OF _ ok])

end
