(* ===== verification/Durable_Run.thy ===== *)
theory Durable_Run
  imports Store_Recovery
begin

text \<open>
  The durable run (\<^verbatim>\<open>run_parallel_durable\<close> of \<^verbatim>\<open>src/runtime/engine.cpp\<close>): open the store, rebuild the
  coordinator from the recovered results, execute the missing blocks with a consumer that persists
  every accepted result and checkpoints, write the final manifest, reduce.  The theorems are about
  whole histories of a run directory: attempts that return, throw or are killed at any call, with any
  answers of the operating system, and losses of power in between.
\<close>

section \<open>Model\<close>

record durable_run_result =
  dr_run_result :: run_result
  dr_run_id :: sha256_digest
  dr_manifest_sequence :: u64
  dr_run_incarnation :: u64
  dr_recovered_blocks :: u64
  dr_computed_blocks :: u64
  dr_recovered_scenarios :: u64
  dr_computed_scenarios :: u64
  dr_resumed :: bool

text \<open>The local variables the consumer captures.\<close>

record durable_progress =
  dp_store :: durable_run_store
  dp_coordinator :: coordinator_state
  dp_leaves :: "aggregate_stats list"
  dp_received :: "bool list"
  dp_recovered_blocks :: u64
  dp_recovered_scenarios :: u64
  dp_computed_blocks :: u64
  dp_computed_scenarios :: u64
  dp_pending_since_checkpoint :: u64

text \<open>One iteration of the loop over the recovered results.\<close>

definition recover_block :: "nat \<times> block_result option \<Rightarrow> durable_progress \<Rightarrow> durable_progress" where
  "recover_block = (\<lambda>(index, committed) p. case committed of
       None \<Rightarrow> p
     | Some r \<Rightarrow> p\<lparr>
         dp_coordinator := (dp_coordinator p)\<lparr>cs_committed_payloads :=
           (cs_committed_payloads (dp_coordinator p))[index := Some (res_payload_checksum r)]\<rparr>,
         dp_leaves := (dp_leaves p)[index := res_aggregate r],
         dp_received := (dp_received p)[index := True],
         dp_recovered_blocks := dp_recovered_blocks p + 1,
         dp_recovered_scenarios := dp_recovered_scenarios p + (end_scenario (res_block r) - start_scenario (res_block r))\<rparr>)"

definition start_progress :: "build_env \<Rightarrow> run_spec \<Rightarrow> engine_config \<Rightarrow> durable_run_store \<Rightarrow> durable_progress result" where
  "start_progress env spec engine_config store =
     (let recovery = st_recovery_state store; n = length (rec_blocks recovery)
      in if rec_status recovery = Failed
         then Inl (Runtime_error ''durable run is in a failed state and requires operator intervention'')
         else
           rbind (make_coordinator_state env spec engine_config (rec_blocks recovery)) (\<lambda>coordinator.
             Inr (fold recover_block (enumerate 0 (rec_committed_results recovery))
               \<lparr>dp_store = store, dp_coordinator = coordinator, dp_leaves = replicate n empty_stats,
                dp_received = replicate n False, dp_recovered_blocks = 0, dp_recovered_scenarios = 0,
                dp_computed_blocks = 0, dp_computed_scenarios = 0, dp_pending_since_checkpoint = 0\<rparr>)))"

text \<open>The record of a rejected result; the committed checksum stays zero when there is none.\<close>

definition rejection_record :: "validation \<Rightarrow> block_result \<Rightarrow> coordinator_state \<Rightarrow> failure_record" where
  "rejection_record validation completed coordinator =
     (let index = min (unat (block_id (res_block completed))) (length (cs_committed_payloads coordinator) - 1)
      in \<lparr>fr_status = fst validation, fr_block_id = block_id (res_block completed),
          fr_run_incarnation = run_incarnation (res_block completed), fr_lease_epoch = lease_epoch (res_block completed),
          fr_observed_checksum = res_payload_checksum completed,
          fr_committed_checksum = (case cs_committed_payloads coordinator ! index of
            None \<Rightarrow> replicate 32 0 | Some checksum \<Rightarrow> checksum),
          fr_reason = snd validation\<rparr>)"

definition reject_result :: "validation \<Rightarrow> block_result \<Rightarrow> durable_progress \<Rightarrow> durable_progress io" where
  "reject_result validation completed p =
     io_bind (store_checkpoint (dp_coordinator p) (dp_leaves p) (dp_received p) Failed
       (Some (rejection_record validation completed (dp_coordinator p))) (dp_store p)) (\<lambda>_.
     io_raise (Runtime_error (''coordinator rejected durable block result as '' @
       status_to_string (fst validation) @ '': '' @ snd validation)))"

text \<open>The updates after a commit, and the periodic checkpoint.\<close>

definition note_committed :: "block_result \<Rightarrow> durable_progress \<Rightarrow> durable_progress" where
  "note_committed completed p =
     (let leaf = unat (block_id (res_block completed))
      in p\<lparr>dp_leaves := (dp_leaves p)[leaf := res_aggregate completed], dp_received := (dp_received p)[leaf := True],
           dp_computed_blocks := dp_computed_blocks p + 1,
           dp_computed_scenarios := dp_computed_scenarios p +
             (end_scenario (res_block completed) - start_scenario (res_block completed)),
           dp_pending_since_checkpoint := dp_pending_since_checkpoint p + 1\<rparr>)"

definition checkpoint_due :: "durable_progress \<Rightarrow> bool" where
  "checkpoint_due p \<longleftrightarrow>
     rsc_checkpoint_interval_blocks (st_store_config (dp_store p)) \<le> dp_pending_since_checkpoint p \<and>
     dp_recovered_blocks p + dp_computed_blocks p < of_nat (length (rec_blocks (st_recovery_state (dp_store p))))"

definition periodic_checkpoint :: "durable_progress \<Rightarrow> durable_progress io" where
  "periodic_checkpoint p =
     (if checkpoint_due p
      then io_bind (store_checkpoint (dp_coordinator p) (dp_leaves p) (dp_received p) Running None (dp_store p)) (\<lambda>store.
        io_return (p\<lparr>dp_store := store, dp_pending_since_checkpoint := 0\<rparr>))
      else io_return p)"

definition consume_durable :: "block_result \<Rightarrow> durable_progress \<Rightarrow> durable_progress io" where
  "consume_durable completed p =
     io_bind (io_result (validate_result completed (dp_coordinator p))) (\<lambda>validation.
     if is_benign_rejection (fst validation) then io_return p
     else if fst validation \<noteq> Accepted then reject_result validation completed p
     else
       io_bind (record_result completed (dp_store p)) (\<lambda>store.
       io_bind (io_result (commit_result completed (dp_coordinator p))) (\<lambda>(committed, coordinator).
       if fst committed \<noteq> Accepted
       then io_raise (Logic_error ''validated durable result changed classification'')
       else periodic_checkpoint (note_committed completed (p\<lparr>dp_store := store, dp_coordinator := coordinator\<rparr>)))))"

text \<open>The consumer run by the coordinating thread.  Its state carries the run directory and whether
  the process was killed; after that nothing more happens in it, so it stops like a thrown error.\<close>

definition durable_consumer ::
  "block_result \<Rightarrow> durable_progress \<times> world \<times> bool \<Rightarrow> (durable_progress \<times> world \<times> bool) \<times> exn option" where
  "durable_consumer completed = (\<lambda>(p, w, killed).
     case consume_durable completed p w of
       (Returned p', w') \<Rightarrow> ((p', w', killed), None)
     | (Raised e, w') \<Rightarrow> ((p, w', killed), Some e)
     | (Killed, w') \<Rightarrow> ((p, w', True), Some (Runtime_error [])))"

definition durable_result :: "run_spec \<Rightarrow> nat \<Rightarrow> durable_progress \<Rightarrow> durable_run_result result" where
  "durable_result spec workers p =
     (let store = dp_store p; recovery = st_recovery_state store
      in rbind (reduce_block_results (dp_leaves p)) (\<lambda>aggregate.
           Inr \<lparr>dr_run_result = \<lparr>result_aggregate = aggregate, scenarios_processed = total_scenarios spec,
                  block_count = of_nat (length (rec_blocks recovery)), workers_used = of_nat workers\<rparr>,
                dr_run_id = md_run_id (st_metadata store), dr_manifest_sequence = rec_manifest_sequence recovery,
                dr_run_incarnation = rec_run_incarnation recovery, dr_recovered_blocks = dp_recovered_blocks p,
                dr_computed_blocks = dp_computed_blocks p, dr_recovered_scenarios = dp_recovered_scenarios p,
                dr_computed_scenarios = dp_computed_scenarios p, dr_resumed = rec_resumed recovery\<rparr>))"

definition finish_durable :: "run_spec \<Rightarrow> nat \<Rightarrow> durable_progress \<Rightarrow> durable_run_result io" where
  "finish_durable spec workers p =
     (if False \<in> set (dp_received p)
      then io_raise (Runtime_error ''durable run ended before every block completed'')
      else
        io_bind (store_checkpoint (dp_coordinator p) (dp_leaves p) (dp_received p) Complete None (dp_store p)) (\<lambda>store.
        io_result (durable_result spec workers (p\<lparr>dp_store := store\<rparr>))))"

text \<open>The outcomes of one attempt on a run directory.\<close>

definition durable_outcome ::
  "run_spec \<Rightarrow> nat result \<Rightarrow> durable_progress \<times> world \<times> bool \<Rightarrow> durable_run_result outcome \<times> world" where
  "durable_outcome spec x = (\<lambda>(p, w, killed).
     if killed then (Killed, w)
     else case x of Inl e \<Rightarrow> (Raised e, w) | Inr workers \<Rightarrow> finish_durable spec workers p w)"

definition run_parallel_durable ::
  "libm \<Rightarrow> build_env \<Rightarrow> (string \<Rightarrow> string list) \<Rightarrow> (string \<Rightarrow> string + bool) \<Rightarrow>
   run_spec \<Rightarrow> engine_config \<Rightarrow> run_store_config \<Rightarrow> world \<Rightarrow> durable_run_result outcome \<Rightarrow> world \<Rightarrow> bool" where
  "run_parallel_durable L env canonical exists spec engine_config store_config w out w' \<longleftrightarrow>
     (case store_open env canonical exists spec engine_config store_config w of
        (Raised e, w1) \<Rightarrow> (out, w') = (Raised e, w1)
      | (Killed, w1) \<Rightarrow> (out, w') = (Killed, w1)
      | (Returned store, w1) \<Rightarrow>
          (case start_progress env spec engine_config store of
             Inl e \<Rightarrow> (out, w') = (Raised e, w1)
           | Inr p \<Rightarrow>
               if rec_status (st_recovery_state store) = Complete
               then (out, w') = io_result (durable_result spec 0 p) w1
               else \<exists>x c. execute_missing_blocks L spec engine_config (rec_blocks (st_recovery_state store))
                      (dp_received p) (dp_coordinator p) durable_consumer (p, w1, False) x c \<and>
                    (out, w') = durable_outcome spec x c))"


section \<open>The invariant of an attempt\<close>

text \<open>Every leaf that counts as received is what its block computes.\<close>

definition leaves_ok :: "libm \<Rightarrow> run_spec \<Rightarrow> scenario_block list \<Rightarrow> durable_progress \<Rightarrow> bool" where
  "leaves_ok L spec blocks p \<longleftrightarrow>
     length (dp_received p) = length blocks \<and> length (dp_leaves p) = length blocks \<and>
     (\<forall>i < length blocks. dp_received p ! i \<longrightarrow> block_leaf L spec (blocks ! i) = Inr (dp_leaves p ! i))"

definition progress_ok ::
  "libm \<Rightarrow> build_env \<Rightarrow> run_spec \<Rightarrow> engine_config \<Rightarrow> scenario_block list \<Rightarrow> durable_progress \<Rightarrow> bool" where
  "progress_ok L env spec engine blocks p \<longleftrightarrow>
     store_ok L env spec engine blocks (dp_store p) \<and> leaves_ok L spec blocks p"

lemma leaves_ok_update:
  assumes "leaves_ok L spec blocks p" "block_leaf L spec (blocks ! i) = Inr a"
    and "dp_leaves q = (dp_leaves p)[i := a]" "dp_received q = (dp_received p)[i := True]"
  shows "leaves_ok L spec blocks q"
  using assms by (cases "i < length blocks") (auto simp: leaves_ok_def nth_list_update)

lemma recover_block_fields [simp]:
  "dp_store (recover_block x p) = dp_store p"
  "length (dp_received (recover_block x p)) = length (dp_received p)"
  by (simp_all add: recover_block_def split: prod.splits option.splits)

lemma fold_recover_ok:
  assumes "\<And>i r. (i, Some r) \<in> set xs \<Longrightarrow> block_leaf L spec (blocks ! i) = Inr (res_aggregate r)"
  shows "leaves_ok L spec blocks p \<Longrightarrow> leaves_ok L spec blocks (fold recover_block xs p)"
    "dp_store (fold recover_block xs p) = dp_store p"
  using assms
proof (induction xs arbitrary: p)
  case (Cons x xs)
  { case 1
    have "leaves_ok L spec blocks (recover_block x p)"
    proof (cases x)
      case (Pair i c)
      show ?thesis
      proof (cases c)
        case (Some r)
        show ?thesis
          by (rule leaves_ok_update [OF 1(1), where i = i and a = "res_aggregate r"])
            (use 1(2) in \<open>simp_all add: Pair Some recover_block_def\<close>)
      qed (use 1 in \<open>simp add: Pair recover_block_def\<close>)
    qed
    then show ?case using Cons.IH(1) 1(2) by simp
  next
    case 2
    then show ?case using Cons.IH(2) by simp
  }
qed simp_all

lemma fold_recover_received:
  "i < length (dp_received p) \<Longrightarrow> dp_received p ! i \<or> (\<exists>r. (i, Some r) \<in> set xs) \<Longrightarrow>
     dp_received (fold recover_block xs p) ! i"
proof (induction xs arbitrary: p)
  case (Cons x xs)
  have u: "l ! i \<Longrightarrow> l[j := True] ! i" for l j
    by (cases "j < length l") (simp_all add: nth_list_update list_update_beyond not_less)
  have "dp_received (recover_block x p) ! i \<or> (\<exists>r. (i, Some r) \<in> set xs)"
    using Cons.prems by (auto simp: recover_block_def u split: option.splits prod.splits)
  then show ?case using Cons by simp
qed simp

lemma start_progress_ok:
  assumes s: "store_ok L env spec engine blocks store" and p: "start_progress env spec engine store = Inr p"
  shows "progress_ok L env spec engine blocks p" "dp_store p = store"
    "rec_status (st_recovery_state store) = Complete \<Longrightarrow> False \<notin> set (dp_received p)"
proof -
  let ?R = "st_recovery_state store"
  let ?xs = "enumerate 0 (rec_committed_results ?R)"
  obtain q where q: "p = fold recover_block ?xs q" "dp_store q = store"
      "dp_leaves q = replicate (length (rec_blocks ?R)) empty_stats" "dp_received q = replicate (length (rec_blocks ?R)) False"
    using p by (auto simp: start_progress_def Let_def split: if_splits)
  have res: "results_ok L spec blocks (rec_committed_results ?R)"
    and n: "length (rec_blocks ?R) = length blocks"
    using s by (auto simp: store_ok_def recovery_ok_def same_ranges_def dest: list_all2_lengthD)
  have leaf: "block_leaf L spec (blocks ! i) = Inr (res_aggregate r)" if "(i, Some r) \<in> set ?xs" for i r
    using that res results_ok_length [OF res] by (auto simp: in_set_enumerate_eq intro: results_ok_nth)
  have "leaves_ok L spec blocks q" using q n by (simp add: leaves_ok_def)
  then have l: "leaves_ok L spec blocks p" using fold_recover_ok(1) [OF leaf] q(1) by blast
  show d: "dp_store p = store" using fold_recover_ok(2) [OF leaf] q(1,2) by simp
  show "progress_ok L env spec engine blocks p" using l d s by (simp add: progress_ok_def)
  assume "rec_status ?R = Complete"
  then have all: "None \<notin> set (rec_committed_results ?R)" using s by (simp add: store_ok_def recovery_ok_def)
  have "dp_received p ! i" if "i < length (dp_received p)" for i
  proof -
    have i: "i < length blocks" using that l by (simp add: leaves_ok_def)
    then obtain r where "rec_committed_results ?R ! i = Some r"
      using all results_ok_length [OF res] by (metis not_None_eq nth_mem)
    then have "(i, Some r) \<in> set ?xs" using i results_ok_length [OF res] by (simp add: in_set_enumerate_eq)
    then show ?thesis unfolding q(1) using fold_recover_received [of i q ?xs] q(4) n i by auto
  qed
  then show "False \<notin> set (dp_received p)" by (metis in_set_conv_nth)
qed


lemma periodic_checkpoint_spec:
  assumes "progress_ok L env spec engine blocks p"
  shows "io_spec (evidence L spec) (periodic_checkpoint p)
    (\<lambda>p' w. evidence L spec w \<and> progress_ok L env spec engine blocks p') (evidence L spec)"
proof -
  have s: "store_ok L env spec engine blocks (dp_store p)" and l: "leaves_ok L spec blocks p"
    using assms by (auto simp: progress_ok_def)
  have ok: "progress_ok L env spec engine blocks (p\<lparr>dp_store := st, dp_pending_since_checkpoint := 0\<rparr>)"
    if "store_ok L env spec engine blocks st" for st
    using that l by (simp add: progress_ok_def leaves_ok_def)
  have finished: "io_spec (\<lambda>w. evidence L spec w \<and> store_ok L env spec engine blocks st \<and> c)
      (io_return (p\<lparr>dp_store := st, dp_pending_since_checkpoint := 0\<rparr>))
      (\<lambda>p' w. evidence L spec w \<and> progress_ok L env spec engine blocks p') (evidence L spec)" for st c
    by (rule io_spec_return) (use ok in blast)
  show ?thesis
    unfolding periodic_checkpoint_def
    using io_spec_bind [OF store_checkpoint_spec [OF s] finished] assms by (auto intro: io_spec_return)
qed

lemma consume_durable_spec:
  assumes p: "progress_ok L env spec engine blocks p" and leaf: "block_leaf L spec (res_block r) = Inr (res_aggregate r)"
  shows "io_spec (evidence L spec) (consume_durable r p)
    (\<lambda>p' w. evidence L spec w \<and> progress_ok L env spec engine blocks p') (evidence L spec)"
proof -
  let ?post = "\<lambda>p' w. evidence L spec w \<and> progress_ok L env spec engine blocks p'"
  let ?i = "unat (block_id (res_block r))"
  have s: "store_ok L env spec engine blocks (dp_store p)" and l: "leaves_ok L spec blocks p"
    using p by (auto simp: progress_ok_def)
  have reject: "io_spec (evidence L spec) (reject_result v r p) ?post (evidence L spec)" for v
    unfolding reject_result_def
    by (rule io_spec_bind [OF store_checkpoint_spec [OF s]]) (rule io_spec_raise, blast)
  have commit: "io_spec (\<lambda>w. evidence L spec w \<and> store_ok L env spec engine blocks st \<and> c \<and>
        block_leaf L spec (blocks ! ?i) = Inr (res_aggregate r))
      (io_bind (io_result (commit_result r (dp_coordinator p))) (\<lambda>(committed, coordinator).
       if fst committed \<noteq> Accepted
       then io_raise (Logic_error ''validated durable result changed classification'')
       else periodic_checkpoint (note_committed r (p\<lparr>dp_store := st, dp_coordinator := coordinator\<rparr>))))
      ?post (evidence L spec)" (is "io_spec ?pre _ _ _") for st c
  proof (cases "store_ok L env spec engine blocks st \<and> block_leaf L spec (blocks ! ?i) = Inr (res_aggregate r)")
    case True
    have "progress_ok L env spec engine blocks (note_committed r (p\<lparr>dp_store := st, dp_coordinator := k\<rparr>))" for k
      unfolding progress_ok_def using True leaves_ok_update [OF l, of ?i "res_aggregate r"]
      by (simp add: note_committed_def Let_def)
    from periodic_checkpoint_spec [OF this]
    have "io_spec (evidence L spec) (io_bind (io_result (commit_result r (dp_coordinator p))) (\<lambda>(committed, coordinator).
       if fst committed \<noteq> Accepted
       then io_raise (Logic_error ''validated durable result changed classification'')
       else periodic_checkpoint (note_committed r (p\<lparr>dp_store := st, dp_coordinator := coordinator\<rparr>))))
      ?post (evidence L spec)"
      by (intro io_spec_bind [where Q = "\<lambda>_. evidence L spec"]) (auto intro: io_spec_result io_spec_raise)
    then show ?thesis by (rule io_spec_post) auto
  qed (auto simp: io_spec_def)
  have accept: "io_spec (evidence L spec) (io_bind (record_result r (dp_store p)) (\<lambda>store.
       io_bind (io_result (commit_result r (dp_coordinator p))) (\<lambda>(committed, coordinator).
       if fst committed \<noteq> Accepted
       then io_raise (Logic_error ''validated durable result changed classification'')
       else periodic_checkpoint (note_committed r (p\<lparr>dp_store := store, dp_coordinator := coordinator\<rparr>)))))
      ?post (evidence L spec)"
    by (rule io_spec_bind [OF record_result_spec [OF s leaf] commit])
  show ?thesis
    unfolding consume_durable_def
    by (rule io_spec_bind [where Q = "\<lambda>_. evidence L spec"])
      (use p in \<open>auto intro: io_spec_result io_spec_return reject accept\<close>)
qed


text \<open>The outcome is the sequential result, except for the number of workers used.\<close>

definition same_estimate :: "run_result \<Rightarrow> run_result \<Rightarrow> bool" where
  "same_estimate a b \<longleftrightarrow>
     result_aggregate a = result_aggregate b \<and> scenarios_processed a = scenarios_processed b \<and> block_count a = block_count b"

lemma all_received:
  assumes "progress_ok L env spec engine blocks p" "False \<notin> set (dp_received p)" "durable_result spec n p = Inr res"
  shows "\<exists>s. sequential_run L spec engine = Inr s \<and> same_estimate (dr_run_result res) s"
proof -
  have b: "make_blocks spec engine = Inr blocks" and l: "leaves_ok L spec blocks p"
    and n: "length (rec_blocks (st_recovery_state (dp_store p))) = length blocks"
    using assms(1) by (auto simp: progress_ok_def store_ok_def recovery_ok_def same_ranges_def dest: list_all2_lengthD)
  have received: "dp_received p ! i" if "i < length blocks" for i
    using assms(2) l that unfolding leaves_ok_def by (metis nth_mem)
  have "map_result (block_leaf L spec) blocks = Inr (dp_leaves p)"
    using l received unfolding map_result_Inr leaves_ok_def by simp
  then show ?thesis
    using assms(3) b n by (auto simp: sequential_run_def durable_result_def same_estimate_def Let_def)
qed

lemma finish_durable_spec:
  assumes "progress_ok L env spec engine blocks p"
  shows "io_spec (evidence L spec) (finish_durable spec n p)
    (\<lambda>res w. evidence L spec w \<and> (\<exists>s. sequential_run L spec engine = Inr s \<and> same_estimate (dr_run_result res) s))
    (evidence L spec)"
proof (cases "False \<in> set (dp_received p)")
  case False
  have s: "store_ok L env spec engine blocks (dp_store p)" and l: "leaves_ok L spec blocks p"
    using assms by (auto simp: progress_ok_def)
  have "\<exists>s. sequential_run L spec engine = Inr s \<and> same_estimate (dr_run_result res) s"
    if "store_ok L env spec engine blocks st" "durable_result spec n (p\<lparr>dp_store := st\<rparr>) = Inr res" for st res
    using that(1) l False by (intro all_received [OF _ _ that(2)]) (auto simp: progress_ok_def leaves_ok_def)
  then show ?thesis
    unfolding finish_durable_def if_not_P [OF False]
    by (intro io_spec_bind [OF store_checkpoint_spec [OF s]] io_spec_result) blast+
qed (simp add: finish_durable_def io_spec_raise)

lemma durable_consumer_invariant:
  assumes "evidence L spec w" "progress_ok L env spec engine blocks p" "\<not> killed"
    and "block_leaf L spec (res_block r) = Inr (res_aggregate r)"
  shows "case durable_consumer r (p, w, killed) of
      ((p', w', k), None) \<Rightarrow> evidence L spec w' \<and> progress_ok L env spec engine blocks p' \<and> \<not> k
    | ((p', w', k), Some e) \<Rightarrow> evidence L spec w'"
  using io_specD [OF consume_durable_spec [OF assms(2,4)] assms(1)] assms(3)
  by (auto simp: durable_consumer_def split: prod.splits outcome.splits option.splits)

text \<open>One attempt, whatever happens to it.\<close>

lemma durable_attempt:
  assumes ev: "evidence L spec w" and run: "run_parallel_durable L env canonical exists spec engine config w out w'"
  shows "evidence L spec w'"
    "out = Returned res \<Longrightarrow> \<exists>s. sequential_run L spec engine = Inr s \<and> same_estimate (dr_run_result res) s"
proof -
  let ?good = "\<lambda>res. \<exists>s. sequential_run L spec engine = Inr s \<and> same_estimate (dr_run_result res) s"
  obtain o1 w1 where o: "store_open env canonical exists spec engine config w = (o1, w1)" by fastforce
  have ev1: "evidence L spec w1"
    using io_spec_snd [OF within_evidence [OF within_open] ev, of env canonical exists engine config] o by simp
  have "evidence L spec w' \<and> (\<forall>res. out = Returned res \<longrightarrow> ?good res)"
  proof (cases "\<exists>st p. o1 = Returned st \<and> start_progress env spec engine st = Inr p")
    case False
    then have "w' = w1 \<and> (\<forall>res. out \<noteq> Returned res)"
      using run by (auto simp: run_parallel_durable_def o split: outcome.splits sum.splits)
    then show ?thesis using ev1 by simp
  next
    case True
    then obtain st p where st: "o1 = Returned st" "start_progress env spec engine st = Inr p" by blast
    obtain blocks where b: "make_blocks spec engine = Inr blocks"
    proof -
      have "\<exists>E. expected_metadata env spec engine = Inr E"
        using o st(1) by (auto simp: store_open_def returned)
      then show ?thesis using expected_metadata_Inr(1) that by blast
    qed
    have ok: "store_ok L env spec engine blocks st"
      using io_specD(1) [OF store_open_spec [OF b] ev] o st(1) by blast
    note start = start_progress_ok [OF ok st(2)]
    show ?thesis
    proof (cases "rec_status (st_recovery_state st) = Complete")
      case complete: True
      then have "(out, w') = io_result (durable_result spec 0 p) w1"
        using run by (simp add: run_parallel_durable_def o st)
      then show ?thesis
        using all_received [OF start(1) start(3) [OF complete]] ev1
        by (auto simp: io_result_def io_raise_def io_return_def split: sum.splits)
    next
      case False
      then obtain x c where x: "execute_missing_blocks L spec engine (rec_blocks (st_recovery_state st))
          (dp_received p) (dp_coordinator p) durable_consumer (p, w1, False) x c"
        and out: "(out, w') = durable_outcome spec x c"
        using run by (auto simp: run_parallel_durable_def o st)
      obtain p' w2 k where c: "c = (p', w2, k)" by (cases c)
      let ?I = "\<lambda>(p, w, k). evidence L spec w \<and> progress_ok L env spec engine blocks p \<and> \<not> k"
      let ?J = "\<lambda>(p, w, k). evidence L spec w"
      have step: "case durable_consumer r c of (c', None) \<Rightarrow> ?I c' | (c', Some e) \<Rightarrow> ?J c'"
        if "?I c" "block_leaf L spec (res_block r) = Inr (res_aggregate r)" for r c
        using durable_consumer_invariant that by (cases c) (fastforce split: prod.splits option.splits)
      have "?J c" by (rule execute_missing_invariant(1) [OF x, where I = ?I and J = ?J]) (use step start(1) ev1 in auto)
      then have ev2: "evidence L spec w2" by (simp add: c)
      show ?thesis
      proof (cases x)
        case (Inl e)
        then show ?thesis using out ev2 by (auto simp: durable_outcome_def c split: if_splits)
      next
        case (Inr n)
        have "?I c" by (rule execute_missing_invariant(2) [OF x, where I = ?I and J = ?J]) (use step start(1) ev1 Inr in auto)
        then have "progress_ok L env spec engine blocks p'" "\<not> k" by (auto simp: c)
        note fin = io_specD [OF finish_durable_spec [OF this(1), of n] ev2] and nk = this(2)
        have "finish_durable spec n p' w2 = (out, w')" using out nk by (simp add: durable_outcome_def c Inr)
        then show ?thesis using fin by (cases out) auto
      qed
    qed
  qed
  then show "evidence L spec w'" "out = Returned res \<Longrightarrow> ?good res" by blast+
qed


section \<open>Histories of a run directory\<close>

text \<open>A directory that starts empty and then sees attempts of the same specification, each with its own
  build, engine configuration, policy and answers of the operating system, and losses of power.\<close>

inductive durable_history :: "libm \<Rightarrow> run_spec \<Rightarrow> world \<Rightarrow> bool" for L spec where
  new_directory: "w_files w = [] \<Longrightarrow> w_volatile w = [] \<Longrightarrow> w_log w = [] \<Longrightarrow> durable_history L spec w"
| attempt: "durable_history L spec w \<Longrightarrow>
     run_parallel_durable L env canonical exists spec engine config w out w' \<Longrightarrow> durable_history L spec w'"
| power_lost: "durable_history L spec w \<Longrightarrow> power_loss w w' \<Longrightarrow> durable_history L spec w'"
| new_process: "durable_history L spec w \<Longrightarrow>
     durable_history L spec (w\<lparr>w_root := directory, w_answers := answers, w_pid := pid, w_nonce := nonce\<rparr>)"

lemma history_evidence: "durable_history L spec w \<Longrightarrow> evidence L spec w"
proof (induction rule: durable_history.induct)
  case (attempt w env canonical exists engine config out w')
  then show ?case using durable_attempt(1) by blast
next
  case (power_lost w w')
  then show ?case using evidence_power_loss by blast
qed (simp_all add: evidence_def)

end
