(* ===== verification/Durable_Completion.thy ===== *)
theory Durable_Completion
  imports Durable_Run
begin

text \<open>
  A durable run completes: on an empty directory, with an operating system that answers every call
  with success and a storage policy that passes the completion preflight, every interleaving of the
  threads ends with a result.  The proof follows the files of the directory exactly and shows that
  the preflight estimate covers every later write.
\<close>

section \<open>Programs under a healthy operating system\<close>

definition healthy :: "world \<Rightarrow> (path \<times> bytes) list \<Rightarrow> bool" where
  "healthy w fs \<longleftrightarrow> w_answers w = [] \<and> \<not> fj_enabled (w_injector w) \<and> w_files w = fs"

text \<open>The program returns \<open>x\<close> and turns the files \<open>fs\<close> into \<open>fs'\<close>.\<close>

definition yields :: "'a io \<Rightarrow> (path \<times> bytes) list \<Rightarrow> 'a \<Rightarrow> (path \<times> bytes) list \<Rightarrow> bool" where
  "yields m fs x fs' \<longleftrightarrow> (\<forall>w. healthy w fs \<longrightarrow> (\<exists>w'. m w = (Returned x, w') \<and> healthy w' fs'))"

named_theorems yields_rules \<open>calls under a healthy operating system\<close>

lemma healthy_next: "healthy w fs \<Longrightarrow> next_answer w = (Success, w)"
  by (simp add: healthy_def next_answer_def)

lemma yields_bind: "yields m fs x fs1 \<Longrightarrow> yields (f x) fs1 y fs2 \<Longrightarrow> yields (io_bind m f) fs y fs2"
  unfolding yields_def io_bind_def by fastforce

lemma yields_return [yields_rules]: "yields (io_return x) fs x fs"
  by (simp add: yields_def io_return_def)

lemma yields_result [yields_rules]: "r = Inr x \<Longrightarrow> yields (io_result r) fs x fs"
  by (simp add: yields_def io_result_def io_return_def)

lemma yields_os_call:
  "(\<And>w. healthy w fs \<Longrightarrow> healthy (effect w) fs') \<Longrightarrow> yields (os_call operation p effect) fs () fs'"
  by (auto simp: yields_def os_call_def healthy_next)

lemma yields_os_try:
  "(\<And>w. healthy w fs \<Longrightarrow> healthy (effect w) fs') \<Longrightarrow> yields (os_try effect) fs None fs'"
  by (auto simp: yields_def os_try_def healthy_next)

lemma yields_os_require:
  "(\<And>w. healthy w fs \<Longrightarrow> healthy (effect w) fs') \<Longrightarrow> yields (os_require msg effect) fs () fs'"
  unfolding os_require_def by (rule yields_bind [OF yields_os_try]) (auto intro: yields_rules)

lemma yields_calls [yields_rules]:
  "yields (os_call operation p id) fs () fs" "yields (os_try id) fs None fs" "yields (os_require msg id) fs () fs"
  by (auto intro: yields_os_call yields_os_try yields_os_require)

lemma yields_fs_call [yields_rules]: "(\<And>w. w_files w = fs \<Longrightarrow> f w = x) \<Longrightarrow> yields (fs_call f) fs x fs"
  unfolding fs_call_def
  by (rule yields_bind [OF yields_calls(2)]) (auto simp: yields_def io_gets_def healthy_def)

lemma yields_space [yields_rules]: "yields available_space fs u64_max fs"
  by (simp add: yields_def available_space_def healthy_next)

lemma yields_list_directory [yields_rules]:
  "yields (list_directory d) fs (filter (\<lambda>p. butlast p = d) (map fst fs)) fs"
  by (auto simp: yields_def list_directory_def healthy_next Let_def) (auto simp: healthy_def)

lemma yields_list_run_directory [yields_rules]: "yields (list_run_directory msg) fs (map fst fs) fs"
  by (auto simp: yields_def list_run_directory_def healthy_next Let_def) (auto simp: healthy_def)

lemma yields_hit [yields_rules]: "yields (io_hit point ctx) fs () fs" "yields (hit_write_failure c p q) fs () fs"
proof -
  show hit: "yields (io_hit point ctx) fs () fs" for point ctx
    by (auto simp: yields_def io_hit_def injector_hit_def healthy_def)
  show "yields (hit_write_failure c p q) fs () fs"
    unfolding hit_write_failure_def by (auto intro: hit yields_rules split: durable_artifact_kind.splits)
qed

lemma yields_sync [yields_rules]: "yields (sync_directory d) fs () fs"
  unfolding sync_directory_def
  by (rule yields_bind [OF yields_calls(1)], rule yields_bind [OF yields_os_call])
    (auto simp: healthy_def intro: yields_calls)

text \<open>Files at the end of the list.\<close>

lemma filter_other: "p \<notin> fst ` set fs \<Longrightarrow> filter (\<lambda>f. fst f \<noteq> p) fs = fs"
  by (rule filter_True) auto

lemma healthy_append:
  "p \<notin> fst ` set fs \<Longrightarrow> healthy w fs \<Longrightarrow> healthy (append_file p bs w) (fs @ [(p, bs)])"
  by (auto simp: healthy_def append_file_def put_file_def filter_other map_of_eq_None_iff [symmetric])

lemma healthy_extend:
  assumes "p \<notin> fst ` set fs" "healthy w (fs @ [(p, old)])"
  shows "healthy (append_file p bs w) (fs @ [(p, old @ bs)])"
proof -
  have "map_of fs p = None" using assms(1) by (simp add: map_of_eq_None_iff)
  then show ?thesis
    using assms by (simp add: healthy_def append_file_def put_file_def filter_other map_add_def)
qed

lemma yields_write_all:
  assumes "p \<notin> fst ` set fs"
  shows "yields (write_all p bs) (fs @ [(p, old)]) () (fs @ [(p, old @ bs)])"
proof -
  have "\<exists>w'. write_all p bs w = (Returned (), w') \<and> healthy w' (fs @ [(p, old @ bs)])"
    if "healthy w (fs @ [(p, old)])" for w
    using that assms
  proof (induction p bs w arbitrary: old rule: write_all.induct)
    case (1 p bs w)
    show ?case
    proof (cases "bs = []")
      case False
      note n = healthy_next [OF 1(5)]
      have "healthy (append_file p (take (write_chunk bs) bs) w) (fs @ [(p, old @ take (write_chunk bs) bs)])"
        by (rule healthy_extend [OF 1(6,5)])
      from 1(1) [OF False n [symmetric] refl this 1(6)] False show ?thesis
        by (subst write_all.simps) (simp add: n)
    qed (use 1(5) in \<open>simp add: write_all.simps [of p "[]"]\<close>)
  qed
  then show ?thesis by (simp add: yields_def)
qed

lemma healthy_rename:
  assumes "src \<notin> fst ` set fs" "dst \<notin> fst ` set fs" "src \<noteq> dst" "healthy w (fs @ [(src, bs)])"
  shows "healthy (rename_file src dst w) (fs @ [(dst, bs)])"
proof -
  have "map_of fs src = None" using assms(1) by (simp add: map_of_eq_None_iff)
  then show ?thesis
    using assms by (auto simp: healthy_def rename_file_def put_file_def drop_file_def filter_other map_add_def)
qed


text \<open>Atomic installation of a new file.\<close>

definition tidy :: "(path \<times> bytes) list \<Rightarrow> bool" where
  "tidy fs \<longleftrightarrow> (\<forall>p \<in> fst ` set fs. butlast p \<noteq> kTemporaryDirectory)"

lemma tidy_append [simp]: "tidy (fs @ [(p, bs)]) \<longleftrightarrow> tidy fs \<and> butlast p \<noteq> kTemporaryDirectory"
  by (auto simp: tidy_def)

lemma yields_install_steps:
  assumes "tmp \<notin> fst ` set fs" "final \<notin> fst ` set fs" "tmp \<noteq> final"
  shows "yields (install_steps tmp final bs ctx) (fs @ [(tmp, [])]) () (fs @ [(final, bs)])"
proof -
  note written = yields_write_all [OF assms(1), of bs "[]", simplified]
  have fsync: "yields (os_call op p (\<lambda>w. w\<lparr>w_volatile := v w\<rparr>)) gs () gs" for op p v gs
    by (rule yields_os_call) (simp add: healthy_def)
  have rename: "yields (os_call op p (rename_file tmp final)) (fs @ [(tmp, bs)]) () (fs @ [(final, bs)])" for op p
    by (rule yields_os_call) (rule healthy_rename [OF assms])
  show ?thesis
    unfolding install_steps_def
    by (rule yields_bind [OF written], rule yields_bind [OF yields_hit(2)], rule yields_bind [OF fsync],
        rule yields_bind [OF yields_hit(2)], rule yields_bind [OF yields_calls(1)], rule yields_bind [OF yields_hit(2)],
        rule yields_bind [OF rename], rule yields_bind [OF yields_hit(2)], rule yields_bind [OF yields_sync])
      (auto intro: yields_rules)
qed

lemma yields_cleanup: "yields m fs x fs' \<Longrightarrow> yields (io_cleanup m c) fs x fs'"
  unfolding yields_def io_cleanup_def by fastforce

lemma yields_install_new:
  assumes "tidy fs" "final \<notin> fst ` set fs" "butlast final \<noteq> kTemporaryDirectory"
  shows "yields (install_new final bs ctx) fs () (fs @ [(final, bs)])"
proof -
  have "yields (io_bind (create_exclusive tmp) (\<lambda>_. io_cleanup (install_steps tmp final bs ctx)
      (io_bind (os_try (drop_file tmp)) (\<lambda>_. io_return ())))) fs () (fs @ [(final, bs)])"
    if "butlast tmp = kTemporaryDirectory" for tmp
  proof -
    have t: "tmp \<notin> fst ` set fs" "tmp \<noteq> final" using assms that by (auto simp: tidy_def)
    then have "map_of fs tmp = None" by (simp add: map_of_eq_None_iff)
    then have "create_exclusive tmp w = os_call ''cannot create durable temporary file'' tmp (append_file tmp []) w"
      if "healthy w fs" for w
      using that by (simp add: create_exclusive_def healthy_def)
    moreover have "yields (os_call ''cannot create durable temporary file'' tmp (append_file tmp [])) fs () (fs @ [(tmp, [])])"
      by (rule yields_os_call) (rule healthy_append [OF t(1)])
    ultimately have "yields (create_exclusive tmp) fs () (fs @ [(tmp, [])])" by (simp add: yields_def)
    then show ?thesis
      by (rule yields_bind) (rule yields_cleanup [OF yields_install_steps [OF t(1) assms(2) t(2)]])
  qed
  note steps = this
  have "butlast (temporary_path final a b) = kTemporaryDirectory" for a b by (simp add: temporary_path_def)
  from steps [OF this] show ?thesis
    by (auto simp: yields_def install_new_def io_bind_def io_gets_def io_update_def healthy_def)
qed

text \<open>The write fits the policy.\<close>

definition fits :: "run_store_config \<Rightarrow> nat \<Rightarrow> nat \<Rightarrow> bool" where
  "fits config amount files \<longleftrightarrow>
     amount \<le> unat (rsc_max_storage_bytes config) \<and> files \<le> unat (rsc_max_storage_files config) \<and>
     amount + unat (rsc_min_free_space_bytes config) < 2 ^ 64"

lemma yields_atomic_write:
  assumes "tidy fs" "final \<notin> fst ` set fs" "butlast final \<noteq> kTemporaryDirectory"
    and "fits config (unat cb + length bs) (unat cf + 1)"
  shows "yields (atomic_write config final bs (cb, cf) ctx) fs (cb + of_nat (length bs), cf + 1) (fs @ [(final, bs)])"
proof -
  have absent: "map_of fs final = None" using assms(2) by (simp add: map_of_eq_None_iff)
  have n: "length bs < 2 ^ 64" using assms(4) by (simp add: fits_def)
  have "yields (preflight_write config cb cf (length bs)) fs () fs"
  proof -
    have a: "\<not> unat u64_max < length bs" using n(1) by simp
    have b: "\<not> rsc_max_storage_bytes config < of_nat (length bs)"
      "\<not> rsc_max_storage_bytes config - of_nat (length bs) < cb" "\<not> rsc_max_storage_files config \<le> cf"
      using assms(4) n by (auto simp: fits_def word_less_nat_alt word_le_nat_alt unat_sub_u64)
    have c: "unat (of_nat (length bs) + rsc_min_free_space_bytes config) = length bs + unat (rsc_min_free_space_bytes config)"
      using assms(4) n by (simp add: fits_def unat_add_u64)
    then have "throw_if (of_nat (length bs) + rsc_min_free_space_bytes config < rsc_min_free_space_bytes config \<or>
        u64_max < of_nat (length bs) + rsc_min_free_space_bytes config) e = Inr ()" for e
      using assms(4) by (simp add: throw_if_simps word_less_nat_alt fits_def)
    then show ?thesis
      unfolding preflight_write_def using a b by (auto simp: Let_def intro!: yields_bind [OF yields_space] yields_rules)
  qed
  note room = this
  show ?thesis
    unfolding atomic_write_def prod.case
    by (rule yields_bind [OF yields_fs_call [where x = False]], use absent in simp, simp,
        rule yields_bind [OF room], rule yields_bind [OF yields_install_new [OF assms(1-3)]], rule yields_return)
qed


section \<open>Opening an empty directory\<close>

text \<open>Counting the files.\<close>

lemma yields_fold:
  assumes "\<And>k. k < length xs \<Longrightarrow> yields (f (xs ! k) (s k)) fs (s (Suc k)) fs"
  shows "yields (io_fold f xs (s 0)) fs (s (length xs)) fs"
  using assms
proof (induction xs arbitrary: s)
  case (Cons x xs)
  have "yields (io_fold f xs (s (Suc 0))) fs (s (Suc (length xs))) fs"
    using Cons.IH [of "\<lambda>k. s (Suc k)"] Cons.prems by fastforce
  moreover have "yields (f x (s 0)) fs (s (Suc 0)) fs" using Cons.prems [of 0] by simp
  ultimately show ?case by (auto intro: yields_bind)
qed (simp add: yields_return)

definition sizes :: "(path \<times> bytes) list \<Rightarrow> nat" where
  "sizes fs = sum_list (map (\<lambda>f. length (snd f)) fs)"

lemma sizes_append [simp]: "sizes (fs @ gs) = sizes fs + sizes gs" "sizes [] = 0" "sizes (f # fs) = length (snd f) + sizes fs"
  by (simp_all add: sizes_def)

lemma sizes_take: "sizes (take k fs) \<le> sizes fs"
  by (metis append_take_drop_id le_add1 sizes_append(1))

lemma yields_count_file:
  assumes "map_of fs p = Some bs" "unat a + length bs < 2 ^ 64" "unat b + 1 < 2 ^ 64"
  shows "yields (count_file p (a, b)) fs (a + of_nat (length bs), b + 1) fs"
proof -
  have g: "yields (io_gets (\<lambda>w. case file_at w p of None \<Rightarrow> 0 | Some bs \<Rightarrow> length bs)) fs (length bs) fs"
    using assms(1) by (simp add: yields_def io_gets_def healthy_def)
  have n: "length bs < 2 ^ 64" using assms(2) by simp
  have "\<not> u64_max - of_nat (length bs) < a" "b \<noteq> u64_max"
    using assms(2,3) n by (auto simp: word_less_nat_alt unat_sub_u64 word_le_nat_alt)
  then show ?thesis
    unfolding count_file_def prod.case using n
    by (intro yields_bind [OF yields_calls(3)] yields_bind [OF yields_calls(2)] yields_bind [OF g])
      (simp add: yields_return)
qed

lemma yields_storage_usage:
  assumes "distinct (map fst fs)" "sizes fs < 2 ^ 64" "length fs < 2 ^ 64"
  shows "yields storage_usage fs (of_nat (sizes fs), of_nat (length fs)) fs"
proof -
  let ?s = "\<lambda>k. (of_nat (sizes (take k fs)) :: u64, of_nat k :: u64)"
  have "yields (count_file (map fst fs ! k) (?s k)) fs (?s (Suc k)) fs" if "k < length fs" for k
  proof -
    obtain p bs where f: "fs ! k = (p, bs)" by fastforce
    have t: "take (Suc k) fs = take k fs @ [(p, bs)]" using that f by (simp add: take_Suc_conv_app_nth)
    have "sizes (take (Suc k) fs) \<le> sizes fs" by (rule sizes_take)
    then have "sizes (take k fs) + length bs < 2 ^ 64" "sizes (take k fs) < 2 ^ 64" using assms(2) by (simp_all add: t)
    moreover have "map_of fs p = Some bs" using assms(1) that f by (metis map_of_eq_Some_iff nth_mem)
    ultimately have "yields (count_file p (?s k)) fs (of_nat (sizes (take k fs)) + of_nat (length bs), of_nat k + 1) fs"
      using that assms(3) by (intro yields_count_file) auto
    then show ?thesis using that f by (simp add: t add.commute)
  qed
  from yields_fold [where xs = "map fst fs" and s = ?s and f = count_file, OF this]
  show ?thesis
    unfolding storage_usage_def by (intro yields_bind [OF yields_list_run_directory]) simp
qed


text \<open>The sizes behind the estimate.\<close>

lemma block_record_length:
  assumes "encode_block_record rec = Inr bs" "block_record_digests rec"
  shows "length bs = 296"
proof -
  obtain agg where "encode_aggregate_payload (res_aggregate (br_result rec)) (res_stats_schema_version (br_result rec)) = Inr agg"
    "res_payload_checksum (br_result rec) = sha256 agg" "bs = make_envelope kBlockMagic (block_payload rec agg)"
    using assms(1) by (auto simp: encode_block_Inr)
  then show ?thesis
    using assms(2) length_aggregate_payload [of _ _ agg]
    by (simp add: block_payload_def block_record_digests_def envelope_overhead_def)
qed

lemma manifest_length:
  assumes "encode_manifest m = Inr bs" "manifest_digests m" "mf_failure m = None"
  shows "length bs = 269 + 8 * unat (mf_block_count m) + 56 * length (mf_committed_blocks m)"
proof -
  obtain agg where agg: "encode_aggregate_payload (mf_committed_aggregate m) (mf_stats_schema_version m) = Inr agg"
    and b: "bs = make_envelope kManifestMagic (manifest_payload m agg)" "manifest_well_formed m"
    using assms(1) by (auto simp: encode_manifest_Inr)
  have e: "length (concat (map le64 xs)) = 8 * length xs" for xs by (induction xs) simp_all
  have "length (concat (map entry_bytes es)) = 56 * length es"
    if "list_all (\<lambda>e. length (me_payload_checksum e) = 32) es" for es
    using that by (induction es) (simp_all add: entry_bytes_def)
  then have "length (concat (map entry_bytes (mf_committed_blocks m))) = 56 * length (mf_committed_blocks m)"
    using assms(2) by (simp add: manifest_digests_def)
  then show ?thesis
    using assms(2,3) b length_aggregate_payload [OF agg]
    by (simp add: manifest_payload_def committed_bytes_def manifest_digests_def manifest_well_formed_def e
        failure_bytes_def envelope_overhead_def)
qed

lemma checked_add_Inr: "checked_add a b label = Inr c \<longleftrightarrow> unat a + unat b < 2 ^ 64 \<and> c = a + b"
proof -
  have "unat (u64_max - b) = 2 ^ 64 - 1 - unat b" by (simp add: unat_sub_u64 u64_le_max)
  then have "u64_max - b < a \<longleftrightarrow> \<not> unat a + unat b < 2 ^ 64"
    unfolding word_less_nat_alt using unat_less_2_64 [of b] by (simp, arith)
  then show ?thesis by (auto simp: checked_add_def)
qed

lemma checked_multiply_Inr: "checked_multiply a b label = Inr c \<longleftrightarrow> unat a * unat b < 2 ^ 64 \<and> c = a * b"
proof (cases "a = 0")
  case False
  have "u64_max div a < b \<longleftrightarrow> 2 ^ 64 - 1 < unat a * unat b"
    using False by (simp add: word_less_nat_alt unat_div div_less_iff_less_mult unat_gt_0 mult.commute)
  then show ?thesis using False by (auto simp: checked_multiply_def)
qed (auto simp: checked_multiply_def)

text \<open>What a passed estimate promises, in exact arithmetic.\<close>

lemma completion_estimate_Inr:
  assumes "completion_estimate config cb cf n missing manifests fixed_bytes fixed_files = Inr additional"
  shows "512 + 64 * unat n \<le> unat (rsc_max_manifest_bytes config)"
    "unat additional = 512 * unat missing + unat manifests * (512 + 64 * unat n) + unat fixed_bytes"
    "unat cb + unat additional \<le> unat (rsc_max_storage_bytes config)"
    "unat cf + (unat missing + unat manifests + unat fixed_files) \<le> unat (rsc_max_storage_files config)"
proof -
  let ?maximum = "512 + n * 64"
  have c: "unat n * 64 < 2 ^ 64" "512 + unat (n * 64) < 2 ^ 64" "\<not> rsc_max_manifest_bytes config < ?maximum"
    "unat missing * 512 < 2 ^ 64" "unat manifests * unat ?maximum < 2 ^ 64"
    "unat (missing * 512) + unat (manifests * ?maximum) < 2 ^ 64"
    "unat (missing * 512 + manifests * ?maximum) + unat fixed_bytes < 2 ^ 64"
    "unat missing + unat manifests < 2 ^ 64" "unat (missing + manifests) + unat fixed_files < 2 ^ 64"
    "additional = missing * 512 + manifests * ?maximum + fixed_bytes"
    "\<not> rsc_max_storage_bytes config < cb" "\<not> rsc_max_storage_bytes config - cb < additional"
    "\<not> rsc_max_storage_files config < cf" "\<not> rsc_max_storage_files config - cf < missing + manifests + fixed_files"
    using assms unfolding completion_estimate_def
    by (auto simp: checked_add_Inr checked_multiply_Inr split: if_splits)
  have m: "unat ?maximum = 512 + 64 * unat n"
    using c(1,2) by (simp add: unat_add_u64 unat_mult_u64)
  show "512 + 64 * unat n \<le> unat (rsc_max_manifest_bytes config)" using c(3) m by (simp add: word_less_nat_alt)
  show a: "unat additional = 512 * unat missing + unat manifests * (512 + 64 * unat n) + unat fixed_bytes"
    using c(4-7,10) m by (simp add: unat_add_u64 unat_mult_u64)
  show "unat cb + unat additional \<le> unat (rsc_max_storage_bytes config)"
    using c(11,12) by (auto simp: word_less_nat_alt unat_sub_u64 not_less word_le_nat_alt)
  have "unat (missing + manifests + fixed_files) = unat missing + unat manifests + unat fixed_files"
    using c(8,9) by (simp add: unat_add_u64)
  then show "unat cf + (unat missing + unat manifests + unat fixed_files) \<le> unat (rsc_max_storage_files config)"
    using c(13,14) by (auto simp: word_less_nat_alt unat_sub_u64 not_less word_le_nat_alt)
qed

text \<open>And conversely: in exact arithmetic the estimate is neither too strict nor too generous.\<close>

lemma completion_estimate_total:
  assumes m: "512 + 64 * unat n \<le> unat (rsc_max_manifest_bytes config)"
    and b: "unat cb + (512 * unat missing + unat manifests * (512 + 64 * unat n) + unat fixed_bytes) \<le> unat (rsc_max_storage_bytes config)"
    and f: "unat cf + (unat missing + unat manifests + unat fixed_files) \<le> unat (rsc_max_storage_files config)"
  shows "\<exists>additional. completion_estimate config cb cf n missing manifests fixed_bytes fixed_files = Inr additional"
proof -
  let ?maximum = "512 + n * 64"
  have top: "unat (rsc_max_manifest_bytes config) < 2 ^ 64" "unat (rsc_max_storage_bytes config) < 2 ^ 64"
    "unat (rsc_max_storage_files config) < 2 ^ 64" by simp_all
  have n1: "unat n * 64 < 2 ^ 64" using m top(1) by linarith
  then have n: "unat n * 64 < 2 ^ 64" "unat (n * 64) = unat n * 64" by (simp_all add: unat_mult_u64)
  have mx1: "512 + unat (n * 64) < 2 ^ 64" using m top(1) unfolding n(2) by linarith
  then have mx: "512 + unat (n * 64) < 2 ^ 64" "unat ?maximum = 512 + 64 * unat n" by (simp_all add: unat_add_u64 n(2))
  have x: "unat missing * 512 < 2 ^ 64" "unat manifests * unat ?maximum < 2 ^ 64"
    using b top(2) unfolding mx(2) by linarith+
  then have xv: "unat (missing * 512) = unat missing * 512" "unat (manifests * ?maximum) = unat manifests * (512 + 64 * unat n)"
    by (simp_all add: unat_mult_u64 mx(2))
  have y: "unat (missing * 512) + unat (manifests * ?maximum) < 2 ^ 64" using b top(2) unfolding xv by linarith
  then have yv: "unat (missing * 512 + manifests * ?maximum) = unat missing * 512 + unat manifests * (512 + 64 * unat n)"
    by (subst unat_add_u64) (simp_all only: xv)
  have z: "unat (missing * 512 + manifests * ?maximum) + unat fixed_bytes < 2 ^ 64" using b top(2) unfolding yv by linarith
  then have zv: "unat (missing * 512 + manifests * ?maximum + fixed_bytes) =
      unat missing * 512 + unat manifests * (512 + 64 * unat n) + unat fixed_bytes"
    by (subst unat_add_u64) (simp_all only: yv)
  have g: "unat missing + unat manifests < 2 ^ 64" using f top(3) by linarith
  then have gv: "unat (missing + manifests) = unat missing + unat manifests" by (rule unat_add_u64)
  have h: "unat (missing + manifests) + unat fixed_files < 2 ^ 64" using f top(3) unfolding gv by linarith
  then have hv: "unat (missing + manifests + fixed_files) = unat missing + unat manifests + unat fixed_files"
    by (subst unat_add_u64) (simp_all only: gv)
  have lim: "\<not> rsc_max_manifest_bytes config < ?maximum"
    using m by (simp add: word_less_nat_alt mx(2))
  have bytes: "\<not> (rsc_max_storage_bytes config < cb \<or>
      rsc_max_storage_bytes config - cb < missing * 512 + manifests * ?maximum + fixed_bytes)"
    using b zv by (auto simp: word_less_nat_alt word_le_nat_alt unat_sub_u64)
  have files: "\<not> (rsc_max_storage_files config < cf \<or> rsc_max_storage_files config - cf < missing + manifests + fixed_files)"
    using f hv by (auto simp: word_less_nat_alt word_le_nat_alt unat_sub_u64)
  have "checked_multiply n 64 l = Inr (n * 64)" "checked_add 512 (n * 64) l = Inr ?maximum"
    "checked_multiply missing 512 l = Inr (missing * 512)" "checked_multiply manifests ?maximum l = Inr (manifests * ?maximum)"
    "checked_add (missing * 512) (manifests * ?maximum) l = Inr (missing * 512 + manifests * ?maximum)"
    "checked_add (missing * 512 + manifests * ?maximum) fixed_bytes l = Inr (missing * 512 + manifests * ?maximum + fixed_bytes)"
    "checked_add missing manifests l = Inr (missing + manifests)"
    "checked_add (missing + manifests) fixed_files l = Inr (missing + manifests + fixed_files)" for l
    using n(1) mx(1) x y z g h by (simp_all add: checked_add_Inr checked_multiply_Inr)
  then show ?thesis
    unfolding completion_estimate_def by (simp only: rbind_simps if_not_P [OF lim] if_not_P [OF bytes] if_not_P [OF files]) blast
qed

lemma metadata_length:
  assumes "encode_run_metadata m = Inr bs" "length (md_execution_layout_hash m) = 32"
  shows "length bs < 2 ^ 64"
proof -
  obtain sb where "encode_run_spec_payload (md_spec m) = Inr sb" "length (md_build_description m) \<le> 65536"
    "md_run_id m = durable_run_id (md_run_spec_hash m) (md_execution_layout_hash m)" "md_run_spec_hash m = sha256 sb"
    "md_build_fingerprint m = sha256 (string_bytes (md_build_description m))"
    "bs = make_envelope kMetadataMagic (metadata_payload m sb)"
    using assms(1) by (auto simp: encode_metadata_Inr)
  then show ?thesis
    using assms(2) length_spec_payload [of "md_spec m" sb] by (simp add: metadata_payload_def envelope_overhead_def)
qed

text \<open>The first manifest: no results, so the reduction merges empty aggregates.\<close>

lemma empty_stats_valid: "invariant_error None empty_stats = None"
  by (simp add: invariant_error_def empty_stats_def feq_def)

lemma merge_empty: "merge_stats empty_stats empty_stats = Inr empty_stats"
  by (simp add: merge_stats_def empty_stats_valid) (simp add: empty_stats_def)

lemma merge_level_empty: "merge_level merge_stats (replicate n empty_stats) = Inr (replicate ((n + 1) div 2) empty_stats)"
proof (induction n rule: less_induct)
  case (less n)
  show ?case
  proof (cases n)
    case (Suc m)
    show ?thesis
    proof (cases m)
      case (Suc k)
      then show ?thesis using less [of k] \<open>n = Suc m\<close> by (simp add: merge_empty)
    qed (simp add: Suc)
  qed simp
qed

lemma reduce_levels_empty: "0 < n \<Longrightarrow> reduce_levels merge_stats (replicate n empty_stats) = Inr [empty_stats]"
proof (induction n rule: less_induct)
  case (less n)
  show ?case
  proof (cases "1 < n")
    case True
    have "(n + 1) div 2 < n" "0 < (n + 1) div 2" using True by auto
    then show ?thesis
      using less.IH [of "(n + 1) div 2"] True by (subst reduce_levels.simps) (simp add: merge_level_empty)
  next
    case False
    then have "n = 1" using less.prems by simp
    then show ?thesis by (simp add: reduce_levels.simps)
  qed
qed

lemma reduce_empty: "reduce_block_results (replicate n empty_stats) = Inr empty_stats"
  using reduce_levels_empty [of n] by (auto simp: reduce_block_results_def)

definition first_manifest :: "run_metadata \<Rightarrow> nat \<Rightarrow> run_manifest" where
  "first_manifest E n =
     \<lparr>mf_run_id = md_run_id E, mf_run_spec_hash = md_run_spec_hash E,
      mf_execution_layout_hash = md_execution_layout_hash E, mf_build_fingerprint = md_build_fingerprint E,
      mf_sequence = 0, mf_status = Running, mf_run_incarnation = 1, mf_rng_version = rng_version (md_spec E),
      mf_stats_schema_version = stats_schema_version (md_spec E), mf_block_count = md_block_count E,
      mf_lease_epochs = replicate n 1, mf_committed_blocks = [], mf_committed_aggregate = empty_stats, mf_failure = None\<rparr>"

lemma make_first_manifest:
  assumes "length blocks = n" "\<forall>b \<in> set blocks. lease_epoch b = 1"
  shows "make_manifest_from_results E 0 1 Running blocks (replicate n None) None = Inr (first_manifest E n)"
proof -
  have "map lease_epoch blocks = replicate n 1" using assms by (auto intro: replicate_eqI)
  moreover have "result_leaves (replicate n None) = replicate n empty_stats" by (simp add: result_leaves_def)
  ultimately show ?thesis
    using assms(1) by (simp add: make_manifest_from_results_def first_manifest_def reduce_empty)
qed

lemma first_manifest_encodes:
  assumes "expected_metadata env spec engine = Inr E" "unat (md_block_count E) = n" "0 < n"
  shows "\<exists>bs. encode_manifest (first_manifest E n) = Inr bs \<and> length bs = 269 + 8 * n"
proof -
  note E = expected_metadata_cases [OF assms(1)]
  have v: "valid_spec spec" by (rule E) (simp add: valid_spec_def)
  have "md_spec E = spec" by (rule E)
  then have "stats_schema_version (md_spec E) = kStatsSchemaVersion" using valid_spec_versions(3) [OF v] by simp
  then have "\<exists>agg. encode_aggregate_payload empty_stats (stats_schema_version (md_spec E)) = Inr agg"
    by (simp add: encode_aggregate_Inr empty_stats_valid)
  moreover have "manifest_well_formed (first_manifest E n)"
    using assms(2,3) by (auto simp: manifest_well_formed_def first_manifest_def)
  ultimately obtain bs where bs: "encode_manifest (first_manifest E n) = Inr bs"
    by (auto simp: encode_manifest_Inr first_manifest_def)
  have "manifest_digests (first_manifest E n)"
    using expected_metadata_Inr(2-5) [OF assms(1)] by (simp add: manifest_digests_def first_manifest_def)
  from manifest_length [OF bs this] show ?thesis using bs assms(2) by (simp add: first_manifest_def)
qed


text \<open>The storage policy admits the whole run.\<close>

definition run_affordable :: "run_store_config \<Rightarrow> run_metadata \<Rightarrow> bytes \<Rightarrow> bool" where
  "run_affordable config E metadata_bytes \<longleftrightarrow>
     (let n = md_block_count E
      in case completion_estimate config 0 1 n n (checkpoint_count config n + 2) (of_nat (length metadata_bytes)) 1 of
           Inl e \<Rightarrow> False
         | Inr additional \<Rightarrow> unat additional + unat (rsc_min_free_space_bytes config) < 2 ^ 64)"

text \<open>In particular it admits the metadata, every block result and every manifest it counts.\<close>

lemma affordable_fits:
  assumes "run_affordable config E mbs" "length mbs < 2 ^ 64" "unat (md_block_count E) = n" "0 < n"
    and "unat (checkpoint_count config (md_block_count E) + 2) = c"
    and "amount \<le> length mbs + 512 * n + c * (512 + 64 * n)" "files \<le> n + c + 2"
  shows "fits config amount files" "512 + 64 * n \<le> unat (rsc_max_manifest_bytes config)"
proof -
  let ?n = "md_block_count E" and ?c = "checkpoint_count config (md_block_count E) + 2"
  obtain additional where a: "completion_estimate config 0 1 ?n ?n ?c (of_nat (length mbs)) 1 = Inr additional"
    and free: "unat additional + unat (rsc_min_free_space_bytes config) < 2 ^ 64"
    using assms(1) by (auto simp: run_affordable_def Let_def split: sum.splits)
  note est = completion_estimate_Inr [OF a]
  have "amount \<le> unat additional" using est(2) assms(2,3,5,6) by simp
  moreover have "files \<le> unat (rsc_max_storage_files config)" using est(4) assms(3,5,7) by simp
  ultimately show "fits config amount files"
    using est(3) free by (simp add: fits_def)
  show "512 + 64 * n \<le> unat (rsc_max_manifest_bytes config)" using est(1) assms(3) by simp
qed

lemma yields_preflight:
  assumes "run_affordable config E mbs"
  shows "yields (preflight_run_completion config 0 1 (md_block_count E) (md_block_count E)
    (checkpoint_count config (md_block_count E) + 2) (of_nat (length mbs)) 1) fs () fs"
proof -
  let ?c = "checkpoint_count config (md_block_count E) + 2"
  obtain additional where a: "completion_estimate config 0 1 (md_block_count E) (md_block_count E) ?c (of_nat (length mbs)) 1 = Inr additional"
    and free: "unat additional + unat (rsc_min_free_space_bytes config) < 2 ^ 64"
    using assms by (auto simp: run_affordable_def Let_def split: sum.splits)
  have "checked_add additional (rsc_min_free_space_bytes config) label = Inr (additional + rsc_min_free_space_bytes config)" for label
    using free by (simp add: checked_add_Inr)
  then show ?thesis
    unfolding preflight_run_completion_def a io_bind_result
    by (intro yields_bind [OF yields_space]) (simp add: yields_result throw_if_simps leD [OF u64_le_max])
qed

abbreviation spec_file :: "bytes \<Rightarrow> path \<times> bytes" where
  "spec_file bs \<equiv> (kRunSpecFilename, bs)"

abbreviation lock_file :: "path \<times> bytes" where
  "lock_file \<equiv> (kLockFilename, [])"

lemma yields_prepare: "yields prepare_run_directory [] () [lock_file]"
proof -
  have same: "yields (require_same_filesystem a b) fs () fs" for a b fs
    unfolding require_same_filesystem_def
    by (intro yields_bind [OF yields_calls(1)] yields_bind [OF yields_calls(2)]) (simp add: yields_return)
  have "yields (os_call ''cannot open run-store lock'' kLockFilename
       (\<lambda>w. if file_at w kLockFilename = None then put_file kLockFilename [] w else w)) [] () [lock_file]"
    by (rule yields_os_call) (simp add: healthy_def put_file_def)
  then have "yields acquire_run_lock [] () [lock_file]"
    unfolding acquire_run_lock_def
    by (rule yields_bind) (intro yields_bind [OF yields_calls(2)],
        auto simp: yields_def io_bind_def io_gets_def io_return_def)
  then show ?thesis
    unfolding prepare_run_directory_def
    by (intro yields_bind [OF yields_calls(3)] yields_bind [OF _ yields_bind [OF same same]])
qed

lemma directories_differ [simp]:
  "kManifestDirectory \<noteq> kTemporaryDirectory" "kBlockDirectory \<noteq> kTemporaryDirectory"
  "kManifestDirectory \<noteq> kBlockDirectory" "kBlockDirectory \<noteq> kManifestDirectory"
  "butlast kLockFilename \<noteq> kTemporaryDirectory" "butlast kRunSpecFilename \<noteq> kTemporaryDirectory"
  "butlast kLockFilename \<noteq> kManifestDirectory" "butlast kRunSpecFilename \<noteq> kManifestDirectory"
  "butlast kLockFilename \<noteq> kBlockDirectory" "butlast kRunSpecFilename \<noteq> kBlockDirectory"
  "butlast (manifest_path_for n) = kManifestDirectory" "butlast (block_path_for b) = kBlockDirectory"
  by (simp_all add: directory_defs manifest_path_for_def block_path_for_def)

lemma paths_differ [simp]:
  "kRunSpecFilename \<noteq> kLockFilename" "kLockFilename \<noteq> manifest_path_for n" "kRunSpecFilename \<noteq> manifest_path_for n"
  "kLockFilename \<noteq> block_path_for b" "kRunSpecFilename \<noteq> block_path_for b" "manifest_path_for n \<noteq> block_path_for b"
  "kLockFilename \<noteq> kRunSpecFilename" "manifest_path_for n \<noteq> kLockFilename" "manifest_path_for n \<noteq> kRunSpecFilename"
  "block_path_for b \<noteq> kLockFilename" "block_path_for b \<noteq> kRunSpecFilename" "block_path_for b \<noteq> manifest_path_for n"
  by (simp_all add: directory_defs manifest_path_for_def block_path_for_def)

lemma yields_stale: "tidy fs \<Longrightarrow> yields remove_stale_temporary_files fs () fs"
proof -
  assume "tidy fs"
  then have e: "filter (\<lambda>p. butlast p = kTemporaryDirectory) (map fst fs) = []" by (auto simp: tidy_def filter_empty_conv)
  show ?thesis
    unfolding remove_stale_temporary_files_def
    by (rule yields_bind [OF yields_list_directory], simp only: e io_fold.simps, rule yields_bind [OF yields_return])
      (simp add: yields_return)
qed

lemma yields_no_orphans:
  assumes "filter (\<lambda>p. butlast p = kBlockDirectory) (map fst fs) = []"
  shows "yields (remove_orphan_block_results results) fs () fs"
  unfolding remove_orphan_block_results_def
  by (rule yields_bind [OF yields_list_directory], simp only: assms io_fold.simps, rule yields_bind [OF yields_return])
    (simp add: yields_return)

lemma yields_no_manifest:
  assumes "filter (\<lambda>p. butlast p = kManifestDirectory) (map fst fs) = []"
  shows "yields (load_latest_valid_manifest metadata engine config) fs
    \<lparr>ms_loaded = None, ms_saw_manifest_file = False, ms_highest_sequence_seen = 0, ms_last_error = []\<rparr> fs"
  unfolding load_latest_valid_manifest_def
  by (rule yields_bind [OF yields_list_directory], simp only: assms io_fold.simps, rule yields_bind [OF yields_return])
    (simp, rule yields_bind [OF yields_return], simp add: yields_return)

lemma yields_no_payload: "yields has_existing_run_payload [lock_file] False [lock_file]"
proof -
  have "yields (payload_in [kLockFilename]) [lock_file] False [lock_file]"
    by (auto intro!: yields_bind [OF yields_calls(3)] simp: yields_return)
  then show ?thesis
    by (simp add: yields_def has_existing_run_payload_def healthy_next Let_def del: payload_in.simps) (auto simp: healthy_def)
qed


definition leased :: "scenario_block list \<Rightarrow> scenario_block list" where
  "leased blocks = map (\<lambda>b. b\<lparr>run_incarnation := 1, lease_epoch := 1\<rparr>) blocks"

definition fresh_store ::
  "run_spec \<Rightarrow> engine_config \<Rightarrow> run_store_config \<Rightarrow> run_metadata \<Rightarrow> scenario_block list \<Rightarrow> nat \<Rightarrow> durable_run_store" where
  "fresh_store spec engine config E blocks amount =
     \<lparr>st_spec = spec, st_engine_config = engine, st_store_config = config, st_metadata = E,
      st_recovery_state = \<lparr>rec_manifest_sequence = 0, rec_run_incarnation = 1, rec_status = Running,
        rec_resumed = False, rec_blocks = leased blocks, rec_committed_results = replicate (length blocks) None\<rparr>,
      st_durable_results = replicate (length blocks) None, st_storage_bytes = of_nat amount, st_storage_files = 3\<rparr>"

lemma expected_bounds:
  assumes E: "expected_metadata env spec engine = Inr E" and b: "make_blocks spec engine = Inr blocks"
  shows "unat (md_block_count E) = length blocks" "0 < length blocks" "length blocks \<le> 2 ^ 40"
    "unat (checkpoint_count config (md_block_count E) + 2) =
       (length blocks - 1) div unat (rsc_checkpoint_interval_blocks config) + 3"
proof -
  show n: "unat (md_block_count E) = length blocks" using expected_metadata_Inr(1) [OF E] b by auto
  note mb = make_blocks_Inr [OF b]
  have l: "length blocks = 1 + (unat (total_scenarios spec) - 1) div unat (block_size engine)"
    using mb(3) blocks_needed_unat [OF mb(1,2)] by simp
  have "(unat (total_scenarios spec) - 1) div unat (block_size engine) \<le> unat (total_scenarios spec) - 1"
    by (rule div_le_dividend)
  then have "length blocks \<le> unat (total_scenarios spec)" using l valid_spec_bounds(1) [OF mb(1)] by linarith
  then show k: "0 < length blocks" "length blocks \<le> 2 ^ 40" using l valid_spec_bounds(2) [OF mb(1)] by simp_all
  let ?i = "rsc_checkpoint_interval_blocks config"
  have m: "unat (md_block_count E - 1) = length blocks - 1"
    using n k(1) by (subst unat_sub_u64) (simp_all add: word_le_nat_alt Suc_le_eq)
  have e: "unat ((md_block_count E - 1) div ?i) = (length blocks - 1) div unat ?i" by (simp add: unat_div m)
  have "(length blocks - 1) div unat ?i \<le> length blocks - 1" by (rule div_le_dividend)
  then have d: "(length blocks - 1) div unat ?i \<le> 2 ^ 40" using k(2) by linarith
  then have "unat (1 + (md_block_count E - 1) div ?i) = 1 + (length blocks - 1) div unat ?i"
    by (subst unat_add_u64) (simp_all add: e)
  then show "unat (checkpoint_count config (md_block_count E) + 2) = (length blocks - 1) div unat ?i + 3"
    unfolding checkpoint_count_def using d by (subst unat_add_u64) simp_all
qed

lemma resolved_interval: "rsc_checkpoint_interval_blocks (resolve_checkpoint_cadence requested n) \<noteq> 0"
  by (auto simp: resolve_checkpoint_cadence_def kMinimumAutomaticCheckpointBlocks_def max_def word_le_nat_alt)

lemma yields_store_open:
  assumes v: "validate_run_store_config requested = Inr ()" "rsc_failure_injection requested = None"
    and E: "expected_metadata env spec engine = Inr E" "encode_run_metadata E = Inr mbs"
    and b: "make_blocks spec engine = Inr blocks"
    and config: "config = resolve_checkpoint_cadence requested (md_block_count E)"
    and afford: "run_affordable config E mbs"
    and m: "encode_manifest (first_manifest E (length blocks)) = Inr manifest" "length manifest = 269 + 8 * length blocks"
  shows "yields (store_open env canonical exists spec engine requested) []
    (fresh_store spec engine config E blocks (length mbs + length manifest))
    [lock_file, spec_file mbs, (manifest_path_for 0, manifest)]"
proof -
  let ?n = "length blocks"
  have n: "unat (md_block_count E) = ?n" "0 < ?n" "?n \<le> 2 ^ 40" by (rule expected_bounds [OF E(1) b])+
  note i = expected_bounds(4) [OF E(1) b, of config]
  have len: "length mbs < 2 ^ 64" by (rule metadata_length [OF E(2) expected_metadata_Inr(4) [OF E(1)]])
  have fits: "fits config amount files"
    if "amount \<le> length mbs + 512 * ?n + 2 * (512 + 64 * ?n)" "files \<le> ?n + 4" for amount files
  proof (rule affordable_fits(1) [OF afford len n(1,2) i])
    let ?q = "(?n - 1) div unat (rsc_checkpoint_interval_blocks config) + 3"
    have "2 * (512 + 64 * ?n) \<le> ?q * (512 + 64 * ?n)" by (rule mult_le_mono1) simp
    then show "amount \<le> length mbs + 512 * ?n + ?q * (512 + 64 * ?n)" using that(1) by linarith
    show "files \<le> ?n + ?q + 2" using that(2) by simp
  qed
  have small: "length mbs + length manifest < 2 ^ 64"
    using fits [of "length mbs + length manifest" 0] m(2) by (simp add: fits_def)
  have c: "rsc_failure_injection config = None" "rsc_max_storage_files config = rsc_max_storage_files requested"
    using v(2) by (auto simp: config resolve_checkpoint_cadence_def)
  have injector: "make_failure_injector env canonical exists spec engine config = Inr idle_injector"
    by (simp add: make_failure_injector_def c)
  have update: "yields (io_update (\<lambda>w. w\<lparr>w_injector := idle_injector\<rparr>)) fs () fs" for fs
    by (simp add: yields_def io_update_def healthy_def idle_injector_def)
  have usage: "yields storage_usage [lock_file] (0, 1) [lock_file]"
    using yields_storage_usage [of "[lock_file]"] by (simp add: sizes_def)
  have limits: "\<not> (rsc_max_storage_bytes config < fst (0 :: u64, 1 :: u64) \<or> rsc_max_storage_files config < snd (0 :: u64, 1 :: u64))"
    using v(1) c(2) by (auto simp: validate_run_store_config_def word_less_nat_alt unat_gt_0 split: if_splits)
  have existed: "yields (fs_call (\<lambda>w. file_at w kRunSpecFilename \<noteq> None)) [lock_file] False [lock_file]"
    by (rule yields_fs_call) simp
  have ctx: "yields (atomic_write config kRunSpecFilename mbs (0, 1) cx) [lock_file] (0 + of_nat (length mbs), 1 + 1) [lock_file, spec_file mbs]" for cx
    using yields_atomic_write [of "[lock_file]" kRunSpecFilename config 0 mbs 1 cx] fits [of "length mbs" 2]
    by (simp add: tidy_def numeral_2_eq_2)
  have metadata: "yields (open_metadata config E False (0, 1)) [lock_file] (E, True, of_nat (length mbs), 2) [lock_file, spec_file mbs]"
    unfolding open_metadata_def E(2) io_bind_result if_False fst_conv snd_conv
    by (rule yields_bind [OF yields_preflight [OF afford, simplified]], rule yields_bind [OF ctx]) (simp add: yields_return)
  let ?R = "\<lparr>rec_manifest_sequence = 0, rec_run_incarnation = 1, rec_status = Running, rec_resumed = False,
    rec_blocks = blocks, rec_committed_results = replicate ?n None\<rparr>"
  let ?final = "[lock_file, spec_file mbs, (manifest_path_for 0, manifest)]"
  let ?store = "fresh_store spec engine config E blocks (length mbs + length manifest)"
  have first: "make_manifest_from_results E 0 1 Running (leased blocks) (replicate ?n None) None = Inr (first_manifest E ?n)"
    by (rule make_first_manifest) (auto simp: leased_def)
  have install: "yields (install_manifest config (first_manifest E ?n) (of_nat (length mbs), 2)) [lock_file, spec_file mbs]
      (of_nat (length mbs) + of_nat (length manifest), 2 + 1) ?final"
    unfolding install_manifest_def m(1) io_bind_result
    using yields_atomic_write [of "[lock_file, spec_file mbs]" "manifest_path_for 0" config "of_nat (length mbs)" manifest 2]
      fits [of "length mbs + length manifest" 3] m(2) len
    by (simp add: tidy_def first_manifest_def)
  have count: "yields storage_usage ?final (of_nat (length mbs + length manifest), 3) ?final"
    using yields_storage_usage [of ?final] small by (simp add: sizes_def)
  have fresh: "yields (open_fresh config E True (of_nat (length mbs), 2) ?R) [lock_file, spec_file mbs]
      (st_recovery_state ?store, of_nat (length mbs + length manifest), 3) ?final"
    unfolding open_fresh_def if_True Let_def
    by (rule yields_bind [OF yields_return], simp add: leased_def [symmetric] first,
        rule yields_bind [OF install], rule yields_bind [OF yields_no_orphans], simp, rule yields_bind [OF count])
      (simp add: fresh_store_def yields_return)
  have recovery: "yields (open_recovery config spec engine E False True (of_nat (length mbs), 2)) [lock_file, spec_file mbs]
      (st_recovery_state ?store, of_nat (length mbs + length manifest), 3) ?final"
    unfolding open_recovery_def b io_bind_result Let_def
    by (rule yields_bind [OF yields_no_manifest], simp, simp add: fresh del: of_nat_add)
  show ?thesis
    unfolding store_open_def v(1) E(1) io_bind_result Let_def config [symmetric] injector
    apply (rule yields_bind [OF update], rule yields_bind [OF yields_prepare], rule yields_bind [OF yields_stale], simp add: tidy_def)
    apply (rule yields_bind [OF usage], simp only: limits if_False, rule yields_bind [OF existed])
    apply (simp, rule yields_bind [OF yields_no_payload], simp, rule yields_bind [OF metadata], simp, rule yields_bind [OF recovery])
    apply (simp add: fresh_store_def yields_return)
    done
qed

section \<open>Properties\<close>

text \<open>C30. The completion preflight is exact.  The checked 64-bit arithmetic of the estimate accepts a run
  precisely when, in unbounded arithmetic, one full manifest fits the manifest limit and the bytes and
  files still to be written (512 bytes per missing block, 512 + 64 per block for every manifest) fit the
  storage limits; the value it passes on is that sum, without wrap-around.\<close>

theorem preflight_exact:
  "completion_estimate config cb cf n missing manifests fixed_bytes fixed_files = Inr additional \<longleftrightarrow>
     512 + 64 * unat n \<le> unat (rsc_max_manifest_bytes config) \<and>
     unat additional = 512 * unat missing + unat manifests * (512 + 64 * unat n) + unat fixed_bytes \<and>
     unat cb + unat additional \<le> unat (rsc_max_storage_bytes config) \<and>
     unat cf + (unat missing + unat manifests + unat fixed_files) \<le> unat (rsc_max_storage_files config)"
    (is "?l \<longleftrightarrow> ?r")
proof
  assume ?r
  then obtain x where x: "completion_estimate config cb cf n missing manifests fixed_bytes fixed_files = Inr x"
    using completion_estimate_total by (metis (no_types, lifting))
  from completion_estimate_Inr(2) [OF x] \<open>?r\<close> have "unat x = unat additional" by simp
  then show ?l using x by (simp add: word_unat_eq_iff)
qed (auto dest: completion_estimate_Inr)

end
