(* ===== verification/Durable_Liveness.thy ===== *)
theory Durable_Liveness
  imports Durable_Completion
begin

text \<open>
  The threads of a durable run under a healthy operating system: what the consumer has done after any
  sequence of results, the periodic checkpoints and the final manifest included, and the theorems that
  a run completes and that whatever a crashed and resumed run returns is the sequential estimate.
\<close>

section \<open>The universe of a new run\<close>

lemma check_universe_leased:
  assumes "\<forall>b \<in> set bs. run_incarnation b = 0 \<and> lease_epoch b \<noteq> 0"
  shows "fold_result (check_universe_block spec config 1) (enumerate k (leased bs)) x =
    fold_result (check_universe_block spec config 0) (enumerate k bs) x"
  using assms
proof (induction bs arbitrary: k x)
  case (Cons b bs)
  have "check_universe_block spec config 1 (k, b\<lparr>run_incarnation := 1, lease_epoch := 1\<rparr>) x =
      check_universe_block spec config 0 (k, b) x"
    using Cons.prems by (simp add: check_universe_block_def Let_def)
  moreover have "fold_result (check_universe_block spec config 1) (enumerate (Suc k) (leased bs)) =
      fold_result (check_universe_block spec config 0) (enumerate (Suc k) bs)"
    using Cons by (intro ext) simp
  ultimately show ?case by (simp add: leased_def del: rbind_eq_Inr)
qed (simp add: leased_def)

lemma leased_coordinator:
  assumes E: "expected_metadata env spec engine = Inr E" and b: "make_blocks spec engine = Inr blocks"
  shows "\<exists>s. make_coordinator_state env spec engine (leased blocks) = Inr s \<and> universe_of spec blocks s \<and>
    cs_blocks s = leased blocks \<and> cs_run_incarnation s = 1 \<and> cs_committed_payloads s = replicate (length blocks) None \<and>
    cs_run_spec_hash s = md_run_spec_hash E \<and> cs_execution_layout_hash s = md_execution_layout_hash E \<and>
    cs_build_fingerprint s = md_build_fingerprint E"
proof -
  note nth = make_blocks_nth [OF b]
  obtain s where s: "make_coordinator_state env spec engine blocks = Inr s"
    using make_coordinator_state_total [OF b] by blast
  have zero: "\<forall>b \<in> set blocks. run_incarnation b = 0 \<and> lease_epoch b \<noteq> 0"
    using nth(5,6) by (auto simp: in_set_conv_nth)
  have ne: "blocks \<noteq> []" using expected_bounds(2) [OF E b] by auto
  have hd: "run_incarnation (hd blocks) = 0" "run_incarnation (hd (leased blocks)) = 1"
    using zero ne by (auto simp: leased_def hd_map)
  have l: "length (leased blocks) = length blocks" "leased blocks \<noteq> []" using ne by (simp_all add: leased_def)
  obtain h k where hk: "run_spec_hash spec = Inr h" "execution_layout_hash spec engine = Inr k"
      "md_run_spec_hash E = h" "md_execution_layout_hash E = k"
      "md_build_fingerprint E = build_hash (current_build_identity env)"
    using expected_metadata_cases [OF E] by metis
  have "make_coordinator_state env spec engine (leased blocks) =
      Inr (s\<lparr>cs_run_incarnation := 1, cs_blocks := leased blocks\<rparr>)"
    using s unfolding make_coordinator_state_def Let_def hd check_universe_leased [OF zero] l hk
    using l(2) ne by (auto split: if_splits)
  moreover have "universe_of spec blocks (s\<lparr>cs_run_incarnation := 1, cs_blocks := leased blocks\<rparr>)"
    "cs_committed_payloads s = replicate (length blocks) None"
    "cs_run_spec_hash s = h" "cs_execution_layout_hash s = k" "cs_build_fingerprint s = md_build_fingerprint E"
    using s hk unfolding make_coordinator_state_def Let_def
    by (auto simp: universe_of_def leased_def split: if_splits)
  ultimately show ?thesis using hk by auto
qed

section \<open>Arrays filled by block\<close>

text \<open>The vectors the consumer fills, one slot per result.\<close>

abbreviation fill :: "(block_result \<Rightarrow> 'a) \<Rightarrow> block_result list \<Rightarrow> 'a list \<Rightarrow> 'a list" where
  "fill g rs xs \<equiv> fold (\<lambda>r l. l[leaf_index r := g r]) rs xs"

abbreviation distinct_ids :: "block_result list \<Rightarrow> bool" where
  "distinct_ids rs \<equiv> distinct (map (\<lambda>r. block_id (res_block r)) rs)"

lemma distinct_ids_eq: "distinct_ids rs \<Longrightarrow> q \<in> set rs \<Longrightarrow> r \<in> set rs \<Longrightarrow> leaf_index q = leaf_index r \<Longrightarrow> q = r"
  by (simp add: distinct_map inj_on_def word_unat_eq_iff)

lemma indices_count: "distinct_ids rs \<Longrightarrow> card (leaf_index ` set rs) = length rs"
proof -
  assume d: "distinct_ids rs"
  then have "inj_on leaf_index (set rs)" using distinct_ids_eq by (auto intro: inj_onI)
  then show ?thesis using d by (simp add: card_image distinct_card distinct_map)
qed

lemma fill_hit:
  assumes "distinct_ids rs" "r \<in> set rs" "leaf_index r < length xs"
  shows "fill g rs xs ! leaf_index r = g r"
  using distinct_ids_eq [OF assms(1) _ assms(2)] assms(2,3) by (intro fold_update_nth) auto

lemma fill_miss: "i \<notin> leaf_index ` set rs \<Longrightarrow> fill g rs xs ! i = xs ! i"
  by (induction rs arbitrary: xs) auto

lemma fill_received:
  "i < n \<Longrightarrow> fill (\<lambda>_. True) rs (replicate n False) ! i \<longleftrightarrow> i \<in> leaf_index ` set rs"
  using fill_miss [of i rs "\<lambda>_. True" "replicate n False"]
    fold_update_nth [of i "replicate n False" rs leaf_index "\<lambda>_. True" True] by auto

lemma recorded_payloads:
  "cs_committed_payloads (fold record_payload rs s) = fill (\<lambda>r. Some (res_payload_checksum r)) rs (cs_committed_payloads s)"
  by (induction rs arbitrary: s) (simp_all add: record_payload_def)

lemma fold_record_simps [simp]:
  "cs_blocks (fold record_payload rs s) = cs_blocks s"
  "cs_run_spec_hash (fold record_payload rs s) = cs_run_spec_hash s"
  "cs_execution_layout_hash (fold record_payload rs s) = cs_execution_layout_hash s"
  "cs_build_fingerprint (fold record_payload rs s) = cs_build_fingerprint s"
  "cs_run_incarnation (fold record_payload rs s) = cs_run_incarnation s"
  "belongs q (fold record_payload rs s) = belongs q s" "lease_current q (fold record_payload rs s) = lease_current q s"
  "coordinator_ok (fold record_payload rs s) = coordinator_ok s"
  by (induction rs arbitrary: s) simp_all

text \<open>A list of entries with ascending block numbers is canonical.\<close>

lemma ascending_canonical:
  assumes "sorted_wrt (<) js" "case prev of None \<Rightarrow> True | Some p \<Rightarrow> \<forall>j \<in> set js. unat p < j"
    and "\<forall>j \<in> set js. unat (me_block_id (e j)) = j \<and> j < unat (mf_block_count m) \<and> me_result_incarnation (e j) = mf_run_incarnation m \<and>
      me_lease_epoch (e j) = mf_lease_epochs m ! j \<and> me_lease_epoch (e j) \<noteq> 0"
    and "mf_run_incarnation m \<noteq> 0"
  shows "entries_canonical m prev (map e js)"
  using assms
proof (induction js arbitrary: prev)
  case (Cons j js)
  have "entries_canonical m (Some (me_block_id (e j))) (map e js)" using Cons by (intro Cons.IH) auto
  moreover have "\<not> entry_not_canonical m prev (e j)"
    using Cons.prems by (auto simp: entry_not_canonical_def word_le_nat_alt split: option.splits)
  ultimately show ?case by simp
qed simp

lemma path_names:
  "manifest_path_for a = manifest_path_for b \<longleftrightarrow> a = b"
  "block_path_for x = block_path_for y \<Longrightarrow> block_id x = block_id y"
proof -
  show "manifest_path_for a = manifest_path_for b \<longleftrightarrow> a = b"
    by (simp add: manifest_path_for_def) (metis manifest_name_iff option.inject)
  assume "block_path_for x = block_path_for y"
  then have n: "block_name (x\<lparr>start_scenario := 0, end_scenario := 0\<rparr>) = block_name (y\<lparr>start_scenario := 0, end_scenario := 0\<rparr>)"
    by (simp add: block_path_for_def block_name_def)
  have inv: "the (parse_block_result_filename (block_name (z\<lparr>start_scenario := 0, end_scenario := 0\<rparr>))) =
      z\<lparr>start_scenario := 0, end_scenario := 0\<rparr>" for z :: scenario_block
  proof -
    have "parse_block_result_filename (block_name (z\<lparr>start_scenario := 0, end_scenario := 0\<rparr>)) =
        Some (z\<lparr>start_scenario := 0, end_scenario := 0\<rparr>)"
      by (subst block_name_iff) simp
    then show ?thesis by (simp only: option.sel)
  qed
  have "x\<lparr>start_scenario := 0, end_scenario := 0\<rparr> = y\<lparr>start_scenario := 0, end_scenario := 0\<rparr>"
    by (subst (1 2) inv [symmetric]) (simp only: n)
  then have "block_id (x\<lparr>start_scenario := 0, end_scenario := 0\<rparr>) = block_id (y\<lparr>start_scenario := 0, end_scenario := 0\<rparr>)"
    by (rule arg_cong)
  then show "block_id x = block_id y" by simp
qed

section \<open>The attempt and its invariant\<close>

text \<open>The aggregates that a checkpoint may have to reduce: those of a complete run, and those of a run
  in which at least an interval of blocks is committed and the others are empty.\<close>

definition partial_leaves :: "bool list \<Rightarrow> aggregate_stats list \<Rightarrow> aggregate_stats list" where
  "partial_leaves chosen leaves = map2 (\<lambda>m a. if m then a else empty_stats) chosen leaves"

definition checkpoints_reduce :: "u64 \<Rightarrow> aggregate_stats list \<Rightarrow> bool" where
  "checkpoints_reduce interval leaves \<longleftrightarrow>
     list_all (\<lambda>chosen. False \<in> set chosen \<and> length (filter id chosen) < unat interval \<or>
         is_Inr (reduce_block_results (partial_leaves chosen leaves)))
       (List.n_lists (length leaves) [False, True])"

text \<open>The circumstances of the attempt: the metadata, the partition, the leaves, the coordinator.\<close>

definition circumstances ::
  "libm \<Rightarrow> build_env \<Rightarrow> run_spec \<Rightarrow> engine_config \<Rightarrow> run_store_config \<Rightarrow> run_metadata \<Rightarrow> bytes \<Rightarrow>
   scenario_block list \<Rightarrow> aggregate_stats list \<Rightarrow> coordinator_state \<Rightarrow> bool" where
  "circumstances L env spec engine config E mbs blocks leaves s \<longleftrightarrow>
     expected_metadata env spec engine = Inr E \<and> make_blocks spec engine = Inr blocks \<and>
     map_result (block_leaf L spec) blocks = Inr leaves \<and> run_affordable config E mbs \<and> length mbs < 2 ^ 64 \<and>
     rsc_checkpoint_interval_blocks config \<noteq> 0 \<and> checkpoints_reduce (rsc_checkpoint_interval_blocks config) leaves \<and>
     make_coordinator_state env spec engine (leased blocks) = Inr s"

lemma circumstances_facts:
  assumes "circumstances L env spec engine config E mbs blocks leaves s"
  shows "universe_of spec blocks s" "cs_blocks s = leased blocks" "cs_run_incarnation s = 1"
    "cs_committed_payloads s = replicate (length blocks) None" "cs_run_spec_hash s = md_run_spec_hash E"
    "cs_execution_layout_hash s = md_execution_layout_hash E" "cs_build_fingerprint s = md_build_fingerprint E"
    "unat (md_block_count E) = length blocks" "0 < length blocks" "length blocks \<le> 2 ^ 40" "md_spec E = spec"
    "stats_schema_version spec = kStatsSchemaVersion" "coordinator_ok s"
proof -
  have E: "expected_metadata env spec engine = Inr E" and b: "make_blocks spec engine = Inr blocks"
    and s: "make_coordinator_state env spec engine (leased blocks) = Inr s"
    using assms by (auto simp: circumstances_def)
  from leased_coordinator [OF E b] s
  show "universe_of spec blocks s" "cs_blocks s = leased blocks" "cs_run_incarnation s = 1"
    "cs_committed_payloads s = replicate (length blocks) None" "cs_run_spec_hash s = md_run_spec_hash E"
    "cs_execution_layout_hash s = md_execution_layout_hash E" "cs_build_fingerprint s = md_build_fingerprint E"
    by auto
  show "unat (md_block_count E) = length blocks" "0 < length blocks" "length blocks \<le> 2 ^ 40"
    by (rule expected_bounds [OF E b])+
  show "md_spec E = spec" by (rule expected_metadata_cases [OF E])
  show "stats_schema_version spec = kStatsSchemaVersion" using valid_spec_versions(3) make_blocks_Inr(1) [OF b] by blast
  show "coordinator_ok s" by (rule make_coordinator_state_ok [OF s])
qed

text \<open>After the results \<open>rs\<close> and \<open>k\<close> periodic checkpoints: the files, the store, the captured locals.\<close>

definition files_after :: "block_result list \<Rightarrow> nat \<Rightarrow> (path \<times> bytes) list \<Rightarrow> bool" where
  "files_after rs k fs \<longleftrightarrow>
     tidy fs \<and>
     (\<forall>p \<in> fst ` set fs. p = kLockFilename \<or> p = kRunSpecFilename \<or>
        (\<exists>j \<le> k. p = manifest_path_for (of_nat j)) \<or> (\<exists>r \<in> set rs. p = block_path_for (res_block r)))"

definition store_after ::
  "run_spec \<Rightarrow> run_store_config \<Rightarrow> run_metadata \<Rightarrow> nat \<Rightarrow> scenario_block list \<Rightarrow> block_result list \<Rightarrow> nat \<Rightarrow>
   durable_run_store \<Rightarrow> bool" where
  "store_after spec config E m blocks rs k st \<longleftrightarrow>
     st_spec st = spec \<and> st_store_config st = config \<and> st_metadata st = E \<and>
     rec_status (st_recovery_state st) = Running \<and> rec_run_incarnation (st_recovery_state st) = 1 \<and>
     rec_blocks (st_recovery_state st) = leased blocks \<and> rec_manifest_sequence (st_recovery_state st) = of_nat k \<and>
     st_durable_results st = fill Some rs (replicate (length blocks) None) \<and>
     unat (st_storage_bytes st) \<le> m + 296 * length rs + (k + 1) * (269 + 64 * length blocks) \<and>
     unat (st_storage_files st) = 3 + length rs + k"

definition progress_after ::
  "run_spec \<Rightarrow> run_store_config \<Rightarrow> run_metadata \<Rightarrow> nat \<Rightarrow> scenario_block list \<Rightarrow> coordinator_state \<Rightarrow>
   block_result list \<Rightarrow> nat \<Rightarrow> durable_progress \<Rightarrow> bool" where
  "progress_after spec config E m blocks s rs k p \<longleftrightarrow>
     store_after spec config E m blocks rs k (dp_store p) \<and>
     dp_coordinator p = fold record_payload rs s \<and>
     dp_leaves p = fill res_aggregate rs (replicate (length blocks) empty_stats) \<and>
     dp_received p = fill (\<lambda>_. True) rs (replicate (length blocks) False) \<and>
     dp_recovered_blocks p = 0 \<and> dp_computed_blocks p = of_nat (length rs) \<and>
     k * unat (rsc_checkpoint_interval_blocks config) + unat (dp_pending_since_checkpoint p) \<le> length rs \<and>
     k \<le> (length blocks - 1) div unat (rsc_checkpoint_interval_blocks config)"

text \<open>Every write fits the policy.\<close>

lemma later_write_fits:
  assumes c: "circumstances L env spec engine config E mbs blocks leaves s"
    and k: "k \<le> (length blocks - 1) div unat (rsc_checkpoint_interval_blocks config)" and l: "l \<le> length blocks"
    and "amount \<le> length mbs + 296 * l + (k + 2) * (269 + 64 * length blocks)" "files \<le> l + k + 4"
  shows "fits config amount files"
proof -
  let ?n = "length blocks"
  let ?q = "(?n - 1) div unat (rsc_checkpoint_interval_blocks config) + 3"
  note f = circumstances_facts [OF c]
  have cc: "run_affordable config E mbs" "length mbs < 2 ^ 64" "expected_metadata env spec engine = Inr E"
    "make_blocks spec engine = Inr blocks" using c by (auto simp: circumstances_def)
  show ?thesis
  proof (rule affordable_fits(1) [OF cc(1,2) f(8,9) expected_bounds(4) [OF cc(3,4)]])
    have "(k + 2) * (269 + 64 * ?n) \<le> ?q * (512 + 64 * ?n)" using k by (intro mult_le_mono) auto
    then show "amount \<le> length mbs + 512 * ?n + ?q * (512 + 64 * ?n)" using assms(4) l by linarith
    show "files \<le> ?n + ?q + 2" using assms(5) k l by linarith
  qed
qed

lemma fits_usage:
  assumes "fits config (unat cb + amount) (unat cf + 1)"
  shows "unat (cb + of_nat amount :: u64) = unat cb + amount" "unat (cf + 1 :: u64) = unat cf + 1"
proof -
  have a: "unat cb + amount < 2 ^ 64" and "unat cf + 1 \<le> unat (rsc_max_storage_files config)"
    using assms by (auto simp: fits_def)
  moreover have "unat (rsc_max_storage_files config) < 2 ^ 64" by simp
  ultimately have f: "unat cf + 1 < 2 ^ 64" by linarith
  from a have "unat (of_nat amount :: u64) = amount" by (intro unat_of_nat_u64) simp
  with a show "unat (cb + of_nat amount) = unat cb + amount" by (subst unat_add_u64) simp_all
  from f show "unat (cf + 1) = unat cf + 1" by (subst unat_add_u64) simp_all
qed

lemma belongs_leased:
  assumes c: "circumstances L env spec engine config E mbs blocks leaves s" and b: "belongs r s" "lease_current r s"
  shows "leaf_index r < length blocks" "lease_epoch (res_block r) = 1" "run_incarnation (res_block r) = 1"
    "length (res_payload_checksum r) = 32" "invariant_error None (res_aggregate r) = None"
proof -
  note f = circumstances_facts [OF c]
  have len: "length (leased blocks) = length blocks" by (simp add: leased_def)
  show i: "leaf_index r < length blocks" "run_incarnation (res_block r) = 1"
    using b f(2,3) len by (auto simp: belongs_def Let_def)
  then show "lease_epoch (res_block r) = 1" using b(2) f(2) by (simp add: lease_current_def leased_def)
  have "aggregate_payload_hash (res_aggregate r) (res_stats_schema_version r) = Inr (res_payload_checksum r)"
    using b(1) unfolding belongs_def Let_def by blast
  then show "length (res_payload_checksum r) = 32" by (auto simp: aggregate_payload_hash_def dest: sym)
  have "invariant_error (Some (expected_count s (leaf_index r))) (res_aggregate r) = None"
    using b(1) by (simp add: belongs_def Let_def)
  then show "invariant_error None (res_aggregate r) = None" by (rule invariant_error_None_weaken)
qed

text \<open>Recording a result.\<close>

lemma files_after_block:
  assumes "files_after rs k fs" "fresh_results (rs @ [r]) s"
  shows "block_path_for (res_block r) \<notin> fst ` set fs" "files_after (rs @ [r]) k (fs @ [(block_path_for (res_block r), bs)])"
proof -
  have "block_id (res_block q) \<noteq> block_id (res_block r)" if "q \<in> set rs" for q
    using assms(2) imageI [OF that, of "\<lambda>r. block_id (res_block r)"] by (auto simp: fresh_results_def)
  then have "block_path_for (res_block q) \<noteq> block_path_for (res_block r)" if "q \<in> set rs" for q
    using path_names(2) that by blast
  then show "block_path_for (res_block r) \<notin> fst ` set fs"
    using assms(1) by (fastforce simp: files_after_def)
  show "files_after (rs @ [r]) k (fs @ [(block_path_for (res_block r), bs)])"
    using assms(1) by (auto simp: files_after_def)
qed

lemma check_result_fresh:
  assumes c: "circumstances L env spec engine config E mbs blocks leaves s"
    and st: "store_after spec config E m blocks rs k st" and r: "fresh_results (rs @ [r]) s"
  shows "check_result st r = Inr False"
proof -
  note f = circumstances_facts [OF c]
  have b: "belongs r s" "lease_current r s" using r by (simp_all add: fresh_results_def)
  note i = belongs_leased [OF c b]
  have "leaf_index r \<notin> leaf_index ` set rs" using r by (auto simp: fresh_results_def word_unat_eq_iff [symmetric])
  then have free: "st_durable_results st ! leaf_index r = None"
    using st i(1) fill_miss [of "leaf_index r" rs Some] by (simp add: store_after_def)
  have u: "cs_rng_version s = rng_version spec" "cs_stats_schema_version s = stats_schema_version spec"
    "cs_antithetic s = antithetic spec" using f(1) by (simp_all add: universe_of_def)
  have hash: "aggregate_payload_hash (res_aggregate r) (res_stats_schema_version r) = Inr (res_payload_checksum r)"
    using b(1) unfolding belongs_def Let_def by blast
  have ids: "res_run_spec_hash r = md_run_spec_hash E" "res_execution_layout_hash r = md_execution_layout_hash E"
    "res_build_fingerprint r = md_build_fingerprint E" "res_rng_version r = rng_version spec"
    "res_stats_schema_version r = stats_schema_version spec"
    "start_scenario (res_block r) = start_scenario (leased blocks ! leaf_index r)"
    "end_scenario (res_block r) = end_scenario (leased blocks ! leaf_index r)"
    "invariant_error (Some (expected_count s (leaf_index r))) (res_aggregate r) = None"
    using b(1) u f(2,5-7) unfolding belongs_def Let_def by auto
  have lease: "run_incarnation (leased blocks ! leaf_index r) = 1" "lease_epoch (leased blocks ! leaf_index r) = 1"
    using i(1) by (simp_all add: leased_def)
  have count: "observations_of (antithetic spec) (leased blocks ! leaf_index r) = expected_count s (leaf_index r)"
    by (simp add: expected_count_def u f(2) Let_def)
  have len: "\<not> length (leased blocks) \<le> leaf_index r" using i(1) by (simp add: leased_def)
  have fields: "st_spec st = spec" "st_metadata st = E" "rec_status (st_recovery_state st) = Running"
    "rec_blocks (st_recovery_state st) = leased blocks" using st by (auto simp: store_after_def)
  show ?thesis
    unfolding check_result_def fields count hash Let_def [of "leaf_index r"]
    using len ids i(2,3) lease hash free by (simp add: Let_def [of "leased blocks ! _"] Let_def [of "Inl _"] count)
qed

lemma yields_record:
  assumes c: "circumstances L env spec engine config E mbs blocks leaves s"
    and st: "store_after spec config E (length mbs) blocks rs k st" "files_after rs k fs"
    and k: "k \<le> (length blocks - 1) div unat (rsc_checkpoint_interval_blocks config)" "length rs < length blocks"
    and r: "fresh_results (rs @ [r]) s"
  shows "\<exists>st' fs'. yields (record_result r st) fs st' fs' \<and>
    store_after spec config E (length mbs) blocks (rs @ [r]) k st' \<and> files_after (rs @ [r]) k fs'"
proof -
  note f = circumstances_facts [OF c]
  have b: "belongs r s" "lease_current r s" using r by (simp_all add: fresh_results_def)
  note i = belongs_leased [OF c b] and files = files_after_block [OF st(2) r]
  let ?rec = "\<lparr>br_run_id = md_run_id E, br_result = r\<rparr>"
  have E: "expected_metadata env spec engine = Inr E" using c by (simp add: circumstances_def)
  have hash: "aggregate_payload_hash (res_aggregate r) (res_stats_schema_version r) = Inr (res_payload_checksum r)"
    using b(1) unfolding belongs_def Let_def by blast
  then obtain bs where bs: "encode_block_record ?rec = Inr bs"
    using i(2) by (auto simp: encode_block_Inr aggregate_payload_hash_def)
  have "block_record_digests ?rec"
    using b(1) expected_metadata_Inr(2-5) [OF E] f(5-7) by (auto simp: block_record_digests_def belongs_def Let_def)
  from block_record_length [OF bs this] have len: "length bs = 296" .
  have fields: "st_store_config st = config" "st_metadata st = E"
    "unat (st_storage_bytes st) \<le> length mbs + 296 * length rs + (k + 1) * (269 + 64 * length blocks)"
    "unat (st_storage_files st) = 3 + length rs + k"
    using st(1) by (auto simp: store_after_def)
  have fit: "fits config (unat (st_storage_bytes st) + length bs) (unat (st_storage_files st) + 1)"
    using fields k(2) len by (intro later_write_fits [OF c k(1), of "length rs + 1"]) auto
  let ?cx = "\<lparr>dw_kind = BlockResult, dw_failure = \<lparr>fc_run_incarnation = run_incarnation (res_block r),
      fc_block_id = block_id (res_block r), fc_checkpoint_sequence = kNoFailureContext\<rparr>\<rparr>"
  let ?fs = "fs @ [(block_path_for (res_block r), bs)]"
  let ?st = "st\<lparr>st_durable_results := (st_durable_results st)[leaf_index r := Some r],
      st_storage_bytes := st_storage_bytes st + of_nat (length bs), st_storage_files := st_storage_files st + 1\<rparr>"
  have "tidy fs" using st(2) by (simp add: files_after_def)
  from yields_atomic_write [OF this files(1) _ fit, of ?cx]
  have wr: "yields (atomic_write config (block_path_for (res_block r)) bs (st_storage_bytes st, st_storage_files st) ?cx) fs
      (st_storage_bytes st + of_nat (length bs), st_storage_files st + 1) ?fs" by simp
  have "yields (record_result r st) fs ?st ?fs"
    unfolding record_result_def check_result_fresh [OF c st(1) r] io_bind_result if_False fields(1,2) bs
    by (rule yields_bind [OF wr]) (simp add: yields_return)
  moreover have "unat (st_storage_bytes st + of_nat (length bs)) = unat (st_storage_bytes st) + 296"
    "unat (st_storage_files st + 1) = unat (st_storage_files st) + 1"
    using fits_usage [OF fit] len by simp_all
  then have "store_after spec config E (length mbs) blocks (rs @ [r]) k ?st"
    using st(1) fields(3,4) by (simp add: store_after_def)
  ultimately show ?thesis using files(2) by blast
qed

text \<open>A checkpoint, periodic or final.\<close>

definition final_manifest ::
  "run_metadata \<Rightarrow> nat \<Rightarrow> nat \<Rightarrow> durable_run_status \<Rightarrow> block_result list \<Rightarrow> aggregate_stats \<Rightarrow> run_manifest" where
  "final_manifest E n k status rs agg =
     (first_manifest E n)\<lparr>mf_sequence := of_nat (k + 1), mf_status := status,
       mf_committed_blocks := map (\<lambda>i. entry_of (the (fill Some rs (replicate n None) ! i)))
         (filter (\<lambda>i. fill (\<lambda>_. True) rs (replicate n False) ! i) [0..<n]),
       mf_committed_aggregate := agg\<rparr>"

lemma fill_entry:
  assumes "distinct_ids rs" "i < n" "fill (\<lambda>_. True) rs (replicate n False) ! i"
  obtains r where "r \<in> set rs" "leaf_index r = i" "fill Some rs (replicate n None) ! i = Some r"
    "fill g rs (replicate n z) ! i = g r"
proof -
  obtain r where r: "r \<in> set rs" "leaf_index r = i" using assms(2,3) fill_received by blast
  show thesis
    by (rule that [OF r]) (use fill_hit [OF assms(1) r(1), of "replicate n None" Some]
        fill_hit [OF assms(1) r(1), of "replicate n z" g] r(2) assms(2) in simp_all)
qed

lemma checkpoint_entries_fresh:
  assumes c: "circumstances L env spec engine config E mbs blocks leaves s"
    and st: "st_durable_results st = fill Some rs (replicate (length blocks) None)" and r: "distinct_ids rs"
  shows "checkpoint_entries st (fold record_payload rs s) (fill res_aggregate rs (replicate (length blocks) empty_stats))
      (fill (\<lambda>_. True) rs (replicate (length blocks) False)) =
    Inr (mf_committed_blocks (final_manifest E (length blocks) k status rs agg))"
proof -
  let ?n = "length blocks"
  let ?rec = "fill (\<lambda>_. True) rs (replicate ?n False)"
  have "checkpoint_entry st (fold record_payload rs s) (fill res_aggregate rs (replicate ?n empty_stats)) i =
      Inr (entry_of (the (fill Some rs (replicate ?n None) ! i)))" if i: "i < ?n" "?rec ! i" for i
  proof -
    obtain r where r: "r \<in> set rs" "leaf_index r = i" "fill Some rs (replicate ?n None) ! i = Some r"
      "fill res_aggregate rs (replicate ?n empty_stats) ! i = res_aggregate r"
      using fill_entry [OF r i] by metis
    have "cs_committed_payloads (fold record_payload rs s) ! i = Some (res_payload_checksum r)"
      using fill_hit [OF \<open>distinct_ids rs\<close> r(1), of "replicate ?n None" "\<lambda>r. Some (res_payload_checksum r)"]
        r(2) i(1) circumstances_facts(4) [OF c] by (simp add: recorded_payloads)
    then show ?thesis using r st by (simp add: checkpoint_entry_def aggregates_equal_def)
  qed
  then show ?thesis
    unfolding checkpoint_entries_def map_result_Inr
    by (auto simp: final_manifest_def dest!: nth_mem [of _ "filter _ _"])
qed

lemma manifest_after:
  assumes c: "circumstances L env spec engine config E mbs blocks leaves s"
    and r: "fresh_results rs s" and all: "status = Complete \<Longrightarrow> length rs = length blocks" "status \<noteq> Failed"
    and agg: "invariant_error None agg = None"
  shows "\<exists>bs. encode_manifest (final_manifest E (length blocks) k status rs agg) = Inr bs \<and>
    length bs = 269 + 8 * length blocks + 56 * length rs"
proof -
  let ?n = "length blocks"
  let ?m = "final_manifest E ?n k status rs agg"
  let ?js = "filter (\<lambda>i. fill (\<lambda>_. True) rs (replicate ?n False) ! i) [0..<?n]"
  let ?e = "\<lambda>i. entry_of (the (fill Some rs (replicate ?n None) ! i))"
  note f = circumstances_facts [OF c]
  have E: "expected_metadata env spec engine = Inr E" using c by (simp add: circumstances_def)
  have d: "distinct_ids rs" and b: "r \<in> set rs \<Longrightarrow> belongs r s \<and> lease_current r s" for r
    using r by (auto simp: fresh_results_def)
  have entry: "unat (me_block_id (?e j)) = j \<and> j < ?n \<and> me_result_incarnation (?e j) = 1 \<and> me_lease_epoch (?e j) = 1 \<and>
      length (me_payload_checksum (?e j)) = 32" if j: "j \<in> set ?js" for j
  proof -
    obtain q where "q \<in> set rs" "leaf_index q = j" "fill Some rs (replicate ?n None) ! j = Some q"
      using fill_entry [OF d, of j ?n Some None] j by auto
    then show ?thesis using belongs_leased [OF c] b that by (simp add: entry_of_def)
  qed
  have fields: "mf_block_count ?m = md_block_count E" "mf_run_incarnation ?m = 1" "mf_lease_epochs ?m = replicate ?n 1"
    "mf_committed_blocks ?m = map ?e ?js" "mf_failure ?m = None" "mf_status ?m = status"
    "mf_committed_aggregate ?m = agg" "mf_stats_schema_version ?m = stats_schema_version (md_spec E)"
    by (simp_all add: final_manifest_def first_manifest_def)
  have "set ?js = leaf_index ` set rs" using belongs_leased(1) [OF c] b by (auto simp: fill_received)
  then have "card (set ?js) = length rs" using indices_count [OF d] by simp
  then have n: "length ?js = length rs" by (subst distinct_card [symmetric]) simp_all
  have "entries_canonical ?m None (map ?e ?js)"
    by (rule ascending_canonical) (use entry f(8) in \<open>auto simp: fields sorted_wrt_filter\<close>)
  then have "manifest_well_formed ?m"
    using f(8,9) all n unfolding manifest_well_formed_def fields
    by (auto simp: unat_eq_zero)
  moreover have "\<exists>a. encode_aggregate_payload agg (stats_schema_version (md_spec E)) = Inr a"
    using agg f(11,12) by (simp add: encode_aggregate_Inr)
  ultimately obtain bs where bs: "encode_manifest ?m = Inr bs" by (auto simp: encode_manifest_Inr fields)
  have "manifest_digests ?m"
    using expected_metadata_Inr(2-5) [OF E] entry
    by (auto simp: manifest_digests_def fields list_all_iff) (simp_all add: final_manifest_def first_manifest_def)
  from manifest_length [OF bs this] show ?thesis using bs f(8) n by (simp add: fields)
qed

lemma partial_reduction:
  assumes c: "circumstances L env spec engine config E mbs blocks leaves s" and r: "fresh_results rs s"
    and leaf: "\<forall>r \<in> set rs. block_leaf L spec (res_block r) = Inr (res_aggregate r)"
    and enough: "length rs = length blocks \<or> unat (rsc_checkpoint_interval_blocks config) \<le> length rs"
  shows "\<exists>agg. reduce_block_results (fill res_aggregate rs (replicate (length blocks) empty_stats)) = Inr agg \<and>
    invariant_error None agg = None"
proof -
  let ?n = "length blocks"
  let ?mask = "fill (\<lambda>_. True) rs (replicate ?n False)" and ?leaves = "fill res_aggregate rs (replicate ?n empty_stats)"
  have d: "distinct_ids rs" and b: "r \<in> set rs \<Longrightarrow> belongs r s \<and> lease_current r s" for r
    using r by (auto simp: fresh_results_def)
  note f = circumstances_facts [OF c]
  have l: "length leaves = ?n" "block_leaf L spec (blocks ! i) = Inr (leaves ! i)" if "i < ?n" for i
    using c that by (auto simp: circumstances_def map_result_Inr)
  have ln: "length leaves = ?n" using l(1) f(9) by blast
  have hit: "res_aggregate q = leaves ! leaf_index q" if q: "q \<in> set rs" for q
  proof -
    have i: "leaf_index q < ?n" using belongs_leased(1) [OF c] b q by blast
    have "start_scenario (res_block q) = start_scenario (blocks ! leaf_index q)"
      "end_scenario (res_block q) = end_scenario (blocks ! leaf_index q)"
      using b [OF q] i f(2) by (auto simp: belongs_def leased_def Let_def)
    from block_leaf_range [OF this, of L spec] show ?thesis using leaf q l(2) [OF i] by simp
  qed
  have "?leaves = partial_leaves ?mask leaves"
  proof (rule nth_equalityI)
    fix i assume "i < length ?leaves"
    then have i: "i < ?n" by simp
    show "?leaves ! i = partial_leaves ?mask leaves ! i"
    proof (cases "?mask ! i")
      case True
      obtain q where "q \<in> set rs" "leaf_index q = i" "?leaves ! i = res_aggregate q"
        by (rule fill_entry [OF d i True, of res_aggregate empty_stats])
      then show ?thesis using True hit i by (simp add: partial_leaves_def ln)
    next
      case False
      then show ?thesis using i fill_miss [of i rs res_aggregate] by (simp add: partial_leaves_def ln fill_received)
    qed
  qed (simp add: partial_leaves_def ln)
  moreover have "{i. i < ?n \<and> ?mask ! i} = leaf_index ` set rs" using belongs_leased(1) [OF c] b by (auto simp: fill_received)
  then have count: "length (filter id ?mask) = length rs" using indices_count [OF d] by (simp add: length_filter_conv_card)
  have "False \<notin> set ?mask" if "length rs = ?n"
    using that count length_filter_less [of False ?mask id] by auto
  then have "\<not> (False \<in> set ?mask \<and> length (filter id ?mask) < unat (rsc_checkpoint_interval_blocks config))"
    using enough count by auto
  moreover have "?mask \<in> set (List.n_lists (length leaves) [False, True])" by (auto simp: set_n_lists ln)
  moreover have "checkpoints_reduce (rsc_checkpoint_interval_blocks config) leaves"
    using c unfolding circumstances_def by blast
  ultimately have "is_Inr (reduce_block_results ?leaves)"
    unfolding checkpoints_reduce_def list_all_iff by auto
  then obtain agg where agg: "reduce_block_results ?leaves = Inr agg" by (auto simp: is_Inr_def)
  have "invariant_error None (?leaves ! i) = None" if i: "i < ?n" for i
  proof (cases "?mask ! i")
    case True
    obtain q where "q \<in> set rs" "?leaves ! i = res_aggregate q"
      by (rule fill_entry [OF d i True, of res_aggregate empty_stats])
    then show ?thesis using belongs_leased(5) [OF c] b by simp
  next
    case False
    then show ?thesis using i fill_miss [of i rs res_aggregate] by (simp add: fill_received empty_stats_valid)
  qed
  then have "invariant_error None agg = None"
    by (intro reduce_block_results_valid [OF agg]) (auto simp: in_set_conv_nth)
  then show ?thesis using agg by blast
qed

lemma all_filled:
  assumes c: "circumstances L env spec engine config E mbs blocks leaves s" and r: "fresh_results rs s" "length rs = length blocks"
  shows "False \<notin> set (fill (\<lambda>_. True) rs (replicate (length blocks) False))"
proof -
  have "leaf_index ` set rs \<subseteq> {..<length blocks}"
    using belongs_leased(1) [OF c] r(1) by (auto simp: fresh_results_def)
  moreover have "card (leaf_index ` set rs) = length blocks"
    using indices_count r by (simp add: fresh_results_def)
  ultimately have "leaf_index ` set rs = {..<length blocks}" by (intro card_subset_eq) auto
  then show ?thesis by (auto simp: in_set_conv_nth fill_received)
qed

lemma yields_checkpoint:
  assumes c: "circumstances L env spec engine config E mbs blocks leaves s"
    and st: "store_after spec config E (length mbs) blocks rs k st" "files_after rs k fs"
    and k: "k \<le> (length blocks - 1) div unat (rsc_checkpoint_interval_blocks config)" "length rs \<le> length blocks"
    and r: "fresh_results rs s" "\<forall>r \<in> set rs. block_leaf L spec (res_block r) = Inr (res_aggregate r)"
    and status: "status = Complete \<and> length rs = length blocks \<or>
      status = Running \<and> unat (rsc_checkpoint_interval_blocks config) \<le> length rs"
  shows "\<exists>st' fs'. yields (store_checkpoint (fold record_payload rs s)
        (fill res_aggregate rs (replicate (length blocks) empty_stats)) (fill (\<lambda>_. True) rs (replicate (length blocks) False))
        status None st) fs st' fs' \<and>
    store_after spec config E (length mbs) blocks rs (k + 1)
      (st'\<lparr>st_recovery_state := (st_recovery_state st')\<lparr>rec_status := Running\<rparr>\<rparr>) \<and>
    rec_status (st_recovery_state st') = status \<and> files_after rs (k + 1) fs'"
proof -
  let ?n = "length blocks"
  let ?leaves = "fill res_aggregate rs (replicate ?n empty_stats)" and ?received = "fill (\<lambda>_. True) rs (replicate ?n False)"
  note f = circumstances_facts [OF c]
  have d: "distinct_ids rs" using r(1) by (simp add: fresh_results_def)
  obtain agg where agg: "reduce_block_results ?leaves = Inr agg" "invariant_error None agg = None"
    using partial_reduction [OF c r] status by blast
  let ?m = "final_manifest E ?n k status rs agg"
  obtain bs where bs: "encode_manifest ?m = Inr bs" "length bs = 269 + 8 * ?n + 56 * length rs"
    using manifest_after [OF c r(1) _ _ agg(2), of status k] status by auto
  have fields: "st_store_config st = config" "st_metadata st = E" "rec_status (st_recovery_state st) = Running"
    "rec_run_incarnation (st_recovery_state st) = 1" "rec_manifest_sequence (st_recovery_state st) = of_nat k"
    "st_durable_results st = fill Some rs (replicate ?n None)"
    "unat (st_storage_bytes st) \<le> length mbs + 296 * length rs + (k + 1) * (269 + 64 * ?n)"
    "unat (st_storage_files st) = 3 + length rs + k"
    using st(1) by (auto simp: store_after_def)
  have kn: "k < 2 ^ 40"
  proof -
    have "(?n - 1) div unat (rsc_checkpoint_interval_blocks config) \<le> ?n - 1" by (rule div_le_dividend)
    then show ?thesis using k(1) f(9,10) by linarith
  qed
  have seq: "(of_nat k :: u64) \<noteq> u64_max" "unat (of_nat k :: u64) = k"
    using kn by (auto simp: word_unat_eq_iff unat_of_nat_u64)
  have universe: "\<not> checkpoint_universe_incompatible st (fold record_payload rs s) ?leaves ?received"
    using f by (simp add: checkpoint_universe_incompatible_def fields leased_def)
  have received: "status = Complete \<Longrightarrow> False \<notin> set ?received"
    using all_filled [OF c r(1)] status by auto
  have "map lease_epoch (leased blocks) = replicate ?n 1" by (auto simp: leased_def intro: replicate_eqI)
  then have m: "checkpoint_manifest st (fold record_payload rs s) ?leaves ?received status None = Inr ?m"
    using seq status received universe
    unfolding checkpoint_manifest_def fields Let_def checkpoint_entries_fresh [OF c fields(6) d, of k status agg] agg(1)
    by (auto simp: final_manifest_def first_manifest_def f(2))
  have E: "expected_metadata env spec engine = Inr E" "make_blocks spec engine = Inr blocks"
    "run_affordable config E mbs" "length mbs < 2 ^ 64" using c by (auto simp: circumstances_def)
  have "512 + 64 * ?n \<le> unat (rsc_max_manifest_bytes config)"
    by (rule affordable_fits(2) [OF E(3,4) f(8,9) refl le0 le0])
  then have limit: "\<not> unat (rsc_max_manifest_bytes config) < length bs" using bs(2) k(2) by simp
  have fit: "fits config (unat (st_storage_bytes st) + length bs) (unat (st_storage_files st) + 1)"
    using fields(7,8) bs(2) k(2) by (intro later_write_fits [OF c k]) (auto simp: algebra_simps)
  have sq: "mf_sequence ?m = of_nat (k + 1)" by (simp add: final_manifest_def)
  have "manifest_path_for (of_nat (k + 1)) \<noteq> manifest_path_for (of_nat j)" if "j \<le> k" for j
    using that kn by (simp add: path_names(1) word_unat_eq_iff unat_of_nat_u64 del: of_nat_Suc of_nat_add)
  then have new: "manifest_path_for (of_nat (k + 1)) \<notin> fst ` set fs"
    using st(2) unfolding files_after_def by (metis paths_differ(8,9,12))
  let ?fs = "fs @ [(manifest_path_for (of_nat (k + 1)), bs)]"
  have "tidy fs" using st(2) by (simp add: files_after_def)
  from yields_atomic_write [OF this new _ fit, of "manifest_context ?m"]
  have wr: "yields (atomic_write config (manifest_path_for (of_nat (k + 1))) bs (st_storage_bytes st, st_storage_files st) (manifest_context ?m))
      fs (st_storage_bytes st + of_nat (length bs), st_storage_files st + 1) ?fs" by simp
  obtain st' where st': "yields (store_checkpoint (fold record_payload rs s) ?leaves ?received status None st) fs st' ?fs"
    and s1: "st_spec st' = st_spec st" "st_store_config st' = config" "st_metadata st' = E" "rec_status (st_recovery_state st') = status"
      "rec_run_incarnation (st_recovery_state st') = 1" "rec_blocks (st_recovery_state st') = rec_blocks (st_recovery_state st)"
      "rec_manifest_sequence (st_recovery_state st') = of_nat (k + 1)" "st_durable_results st' = st_durable_results st"
      "st_storage_bytes st' = st_storage_bytes st + of_nat (length bs)" "st_storage_files st' = st_storage_files st + 1"
  proof
    show "yields (store_checkpoint (fold record_payload rs s) ?leaves ?received status None st) fs
      (st\<lparr>st_storage_bytes := fst (st_storage_bytes st + of_nat (length bs), st_storage_files st + 1),
        st_storage_files := snd (st_storage_bytes st + of_nat (length bs), st_storage_files st + 1),
        st_recovery_state := (st_recovery_state st)\<lparr>rec_manifest_sequence := mf_sequence ?m, rec_status := status,
          rec_committed_results := map (\<lambda>i.
            if ?received ! i \<and> rec_committed_results (st_recovery_state st) ! i = None
            then st_durable_results st ! i else rec_committed_results (st_recovery_state st) ! i) [0..<length ?received]\<rparr>\<rparr>) ?fs"
      unfolding store_checkpoint_def m io_bind_result bs(1) fields(1) if_not_P [OF limit] sq
      by (rule yields_bind [OF wr], rule yields_bind [OF yields_hit(1)], rule yields_return)
  qed (use fields sq in simp_all)
  have "files_after rs (k + 1) fs" using st(2) unfolding files_after_def by (meson le_add1 le_trans)
  then have "files_after rs (k + 1) ?fs" by (auto simp: files_after_def)
  moreover have "store_after spec config E (length mbs) blocks rs (k + 1)
      (st'\<lparr>st_recovery_state := (st_recovery_state st')\<lparr>rec_status := Running\<rparr>\<rparr>)"
    using st(1) s1 fields(7,8) fits_usage [OF fit] bs(2) k(2) by (simp add: store_after_def algebra_simps)
  ultimately show ?thesis using st' s1(4) by blast
qed

text \<open>One result, whatever came before it.\<close>

lemma yields_consume:
  assumes c: "circumstances L env spec engine config E mbs blocks leaves s"
    and p: "progress_after spec config E (length mbs) blocks s rs k p" "files_after rs k fs"
    and r: "fresh_results (rs @ [r]) s" "\<forall>q \<in> set (rs @ [r]). block_leaf L spec (res_block q) = Inr (res_aggregate q)"
    and len: "length rs < length blocks"
  shows "\<exists>k' p' fs'. yields (consume_durable r p) fs p' fs' \<and>
    progress_after spec config E (length mbs) blocks s (rs @ [r]) k' p' \<and> files_after (rs @ [r]) k' fs'"
proof -
  let ?n = "length blocks" and ?i = "rsc_checkpoint_interval_blocks config" and ?rs = "rs @ [r]"
  note f = circumstances_facts [OF c] and P = p(1) [unfolded progress_after_def]
  have k: "k \<le> (?n - 1) div unat ?i" and st: "store_after spec config E (length mbs) blocks rs k (dp_store p)"
    and coord: "dp_coordinator p = fold record_payload rs s" using P by blast+
  have b: "belongs r (fold record_payload rs s)" "lease_current r (fold record_payload rs s)" "coordinator_ok (fold record_payload rs s)"
    using r(1) f(13) by (simp_all add: fresh_results_def)
  have i: "leaf_index r < ?n" using belongs_leased(1) [OF c] r(1) by (simp add: fresh_results_def)
  have "leaf_index r \<notin> leaf_index ` set rs" using r(1) by (auto simp: fresh_results_def word_unat_eq_iff [symmetric])
  then have free: "cs_committed_payloads (fold record_payload rs s) ! leaf_index r = None"
    using i f(4) fill_miss [of "leaf_index r" rs "\<lambda>r. Some (res_payload_checksum r)"] by (simp add: recorded_payloads)
  have v: "validate_result r (dp_coordinator p) = Inr (Accepted, ''result is valid'')"
    unfolding coord validate_belongs [OF b(1)] using free b(2) by (simp add: committed_def)
  have cm: "commit_result r (dp_coordinator p) = Inr ((Accepted, ''result is valid''), fold record_payload ?rs s)"
    unfolding coord using free commit_accepts [OF b(3,1) _ b(2)] by (simp add: ledger_of_def)
  obtain st1 fs1 where st1: "yields (record_result r (dp_store p)) fs st1 fs1"
    "store_after spec config E (length mbs) blocks ?rs k st1" "files_after ?rs k fs1"
    using yields_record [OF c st p(2) k len r(1)] by blast
  let ?p = "note_committed r (p\<lparr>dp_store := st1, dp_coordinator := fold record_payload ?rs s\<rparr>)"
  have pend: "k * unat ?i + (unat (dp_pending_since_checkpoint p) + 1) \<le> length ?rs" using P by simp
  then have small: "unat (dp_pending_since_checkpoint p) + 1 \<le> 2 ^ 40" using len f(10) by simp
  then have pending: "unat (dp_pending_since_checkpoint p + 1) = unat (dp_pending_since_checkpoint p) + 1"
    by (subst unat_add_u64) simp_all
  have P1: "progress_after spec config E (length mbs) blocks s ?rs k ?p"
    using P st1(2) pend pending by (simp add: progress_after_def note_committed_def Let_def)
  have step: "yields (periodic_checkpoint ?p) fs1 p' fs' \<Longrightarrow> yields (consume_durable r p) fs p' fs'" for p' fs'
    unfolding consume_durable_def v cm io_bind_result by (simp, rule yields_bind [OF st1(1)], simp)
  show ?thesis
  proof (cases "checkpoint_due ?p")
    case False
    then have "yields (periodic_checkpoint ?p) fs1 ?p fs1" by (simp add: periodic_checkpoint_def yields_return)
    then show ?thesis using step P1 st1(3) by blast
  next
    case True
    have q: "st_store_config st1 = config" "dp_recovered_blocks ?p = 0" "dp_computed_blocks ?p = of_nat (length ?rs)"
      "rec_blocks (st_recovery_state st1) = leased blocks" "dp_store ?p = st1"
      "dp_pending_since_checkpoint ?p = dp_pending_since_checkpoint p + 1" "dp_coordinator ?p = fold record_payload ?rs s"
      "dp_leaves ?p = fill res_aggregate ?rs (replicate ?n empty_stats)" "dp_received ?p = fill (\<lambda>_. True) ?rs (replicate ?n False)"
      using P1 by (auto simp: progress_after_def store_after_def note_committed_def Let_def)
    have due: "unat ?i \<le> unat (dp_pending_since_checkpoint p) + 1" "length ?rs < ?n"
      using True pending len f(10) unfolding checkpoint_due_def q
      by (simp_all add: word_le_nat_alt word_less_nat_alt unat_of_nat_u64 leased_def del: of_nat_Suc)
    have more: "unat ?i \<le> length ?rs" "(k + 1) * unat ?i \<le> length ?rs" using due(1) pend by simp_all
    have "0 < unat ?i" using c by (simp add: circumstances_def unat_gt_0)
    moreover have "(k + 1) * unat ?i \<le> ?n - 1" using more(2) due(2) by simp
    ultimately have k1: "k + 1 \<le> (?n - 1) div unat ?i" by (simp add: less_eq_div_iff_mult_less_eq)
    obtain st2 fs2 where st2: "yields (store_checkpoint (dp_coordinator ?p) (dp_leaves ?p) (dp_received ?p) Running None (dp_store ?p)) fs1 st2 fs2"
        "store_after spec config E (length mbs) blocks ?rs (k + 1) (st2\<lparr>st_recovery_state := (st_recovery_state st2)\<lparr>rec_status := Running\<rparr>\<rparr>)"
        "rec_status (st_recovery_state st2) = Running" "files_after ?rs (k + 1) fs2"
      using yields_checkpoint [OF c st1(2,3) k _ r, of Running] more(1) due(2) unfolding q by (auto simp: less_imp_le)
    let ?p2 = "?p\<lparr>dp_store := st2, dp_pending_since_checkpoint := 0\<rparr>"
    have y: "yields (periodic_checkpoint ?p) fs1 ?p2 fs2"
      unfolding periodic_checkpoint_def if_P [OF True] by (rule yields_bind [OF st2(1)]) (rule yields_return)
    have "store_after spec config E (length mbs) blocks ?rs (k + 1) st2"
      using st2(2,3) by (simp add: store_after_def)
    then have "progress_after spec config E (length mbs) blocks s ?rs (k + 1) ?p2"
      using P1 k1 more(2) by (simp add: progress_after_def)
    then show ?thesis using step [OF y] st2(4) by blast
  qed
qed

section \<open>The threads\<close>

text \<open>The state of the consumer after the results \<open>rs\<close>.\<close>

definition reached ::
  "run_spec \<Rightarrow> run_store_config \<Rightarrow> run_metadata \<Rightarrow> nat \<Rightarrow> scenario_block list \<Rightarrow> coordinator_state \<Rightarrow>
   block_result list \<Rightarrow> durable_progress \<times> world \<times> bool \<Rightarrow> bool" where
  "reached spec config E m blocks s rs = (\<lambda>(p, w, killed). \<not> killed \<and>
     (\<exists>k fs. healthy w fs \<and> progress_after spec config E m blocks s rs k p \<and> files_after rs k fs))"

lemma consume_all:
  assumes c: "circumstances L env spec engine config E mbs blocks leaves s"
    and start: "reached spec config E (length mbs) blocks s [] c0"
    and rs: "fresh_results rs s" "\<forall>r \<in> set rs. block_leaf L spec (res_block r) = Inr (res_aggregate r)"
      "length rs \<le> length blocks"
  shows "\<exists>c1. fold_result (consume_step (engine_program L spec t durable_consumer)) rs c0 = Inr c1 \<and>
    reached spec config E (length mbs) blocks s rs c1"
  using rs
proof (induction rs rule: rev_induct)
  case (snoc r rs)
  have "fresh_results rs s" using snoc.prems(1) by (simp add: fresh_results_def)
  then obtain p w killed where q: "fold_result (consume_step (engine_program L spec t durable_consumer)) rs c0 = Inr (p, w, killed)"
    and h: "reached spec config E (length mbs) blocks s rs (p, w, killed)"
    using snoc by fastforce
  obtain k fs where h: "\<not> killed" "healthy w fs" "progress_after spec config E (length mbs) blocks s rs k p" "files_after rs k fs"
    using h by (auto simp: reached_def)
  have "length rs < length blocks" using snoc.prems(3) by simp
  from yields_consume [OF c h(3,4) snoc.prems(1,2) this]
  obtain k' p' fs' where y: "yields (consume_durable r p) fs p' fs'"
      "progress_after spec config E (length mbs) blocks s (rs @ [r]) k' p'" "files_after (rs @ [r]) k' fs'"
    by blast
  obtain w' where "consume_durable r p w = (Returned p', w')" "healthy w' fs'"
    using y(1) h(2) by (auto simp: yields_def)
  then have "consume_step (engine_program L spec t durable_consumer) r (p, w, killed) = Inr (p', w', killed)"
    "reached spec config E (length mbs) blocks s (rs @ [r]) (p', w', killed)"
    using y h(1) by (auto simp: consume_step_def engine_program_def durable_consumer_def reached_def)
  then show ?case using q by (simp add: fold_result_append)
qed (use start in simp)

lemma produced_results:
  assumes c: "circumstances L env spec engine config E mbs blocks leaves s"
    and rs: "image_mset res_block (mset rs) \<subseteq># mset (leased blocks)"
      "\<forall>r \<in> set rs. produced (engine_program L spec s consume) res_block r"
  shows "fresh_results rs s" "\<forall>r \<in> set rs. block_leaf L spec (res_block r) = Inr (res_aggregate r)"
    "length rs \<le> length blocks"
proof -
  note f = circumstances_facts [OF c]
  have b: "make_blocks spec engine = Inr blocks" using c by (simp add: circumstances_def)
  show "fresh_results rs s" using fresh_produced [OF b f(1,4)] rs f(2) by simp
  show "\<forall>r \<in> set rs. block_leaf L spec (res_block r) = Inr (res_aggregate r)" using produced_engine rs(2) by blast
  show "length rs \<le> length blocks" using size_mset_mono [OF rs(1)] by (simp add: leased_def)
qed

text \<open>Every execution of the threads ends without an error, with all results consumed.\<close>

lemma healthy_execution:
  assumes c: "circumstances L env spec engine config E mbs blocks leaves s"
    and start: "reached spec config E (length mbs) blocks s [] c0"
    and x: "execute_missing_blocks L spec engine (leased blocks) (replicate (length blocks) False) s durable_consumer c0 x c1"
  shows "\<exists>rs workers. x = Inr workers \<and> reached spec config E (length mbs) blocks s rs c1 \<and> fresh_results rs s \<and>
    (\<forall>r \<in> set rs. block_leaf L spec (res_block r) = Inr (res_aggregate r)) \<and> length rs = length blocks"
proof -
  let ?n = "actual_worker_count engine (length blocks)" and ?P = "engine_program L spec s durable_consumer"
  note f = circumstances_facts [OF c]
  have b: "make_blocks spec engine = Inr blocks" and l: "map_result (block_leaf L spec) blocks = Inr leaves"
    using c by (auto simp: circumstances_def)
  have len: "length (leased blocks) = length blocks" by (simp add: leased_def)
  have items: "map (\<lambda>i. leased blocks ! i) [0..<length blocks] = leased blocks" by (metis len map_nth)
  obtain a k st where q: "new_bounded_queue (queue_capacity (assignment_queue_capacity engine) ?n) None = Inr a"
      "new_bounded_queue (queue_capacity (completion_queue_capacity engine) ?n) None = Inr k"
    and st: "(exec_step ?P)\<^sup>*\<^sup>* (exec_initial ?n a k (leased blocks) c0) st" "exec_terminal st"
    and out: "x = (case ex_first_error st of Some e \<Rightarrow> Inl e | None \<Rightarrow> Inr ?n)" "c1 = ex_consumer st"
    using x f(9) unfolding execute_missing_blocks_def pending_all len Let_def length_upt minus_nat.diff_0 items by auto
  have i0: "engine.traced_inv L spec s durable_consumer (leased blocks) c0 (exec_initial ?n a k (leased blocks) c0)"
    using workers_positive [OF b] new_bounded_queue_ok [OF q(1)] new_bounded_queue_ok [OF q(2)]
    by (intro engine.traced_inv_initial) auto
  have leaf: "\<exists>v. block_leaf L spec blk = Inr v" if blk: "blk \<in> set (leased blocks)" for blk
  proof -
    obtain i where i: "i < length blocks" "blk = leased blocks ! i" using blk len by (auto simp: in_set_conv_nth)
    then have "block_leaf L spec blk = block_leaf L spec (blocks ! i)" by (intro block_leaf_range) (simp_all add: leased_def)
    then show ?thesis using l i(1) by (auto simp: map_result_Inr)
  qed
  have "leased blocks \<noteq> []" using f(9) len by auto
  then obtain v where "block_leaf L spec (hd (leased blocks)) = Inr v" using leaf by fastforce
  then have "is_Inr (prog_start ?P)" using prog_start_ok by (auto simp: block_leaf_def)
  moreover have "is_Inr (fold_result (consume_step ?P) rs c0)"
    if "image_mset res_block (mset rs) \<subseteq># mset (leased blocks)" "\<forall>r \<in> set rs. produced ?P res_block r" for rs
    using consume_all [OF c start produced_results [OF c that], of s] by (auto simp: is_Inr_def)
  ultimately have "engine.cannot_fail L spec s durable_consumer (leased blocks) c0"
    unfolding engine.cannot_fail_def using leaf block_leaf_work by blast
  moreover have "clean (exec_initial ?n a k (leased blocks) c0 :: (scenario_block, block_result, _) exec_state)"
    by (auto simp: clean_def exec_initial_def at_worker_def)
  ultimately have "clean st" using engine.reachable_clean [OF st(1) i0] by blast
  then have e: "ex_first_error st = None" by (simp add: clean_def)
  note t = engine.terminal_exactly_once [OF engine.traced_inv_reachable [OF st(1) i0] st(2) e]
  let ?rs = "ex_history st"
  have "image_mset res_block (mset ?rs) \<subseteq># mset (leased blocks)" using t(1) by simp
  note p = produced_results [OF c this t(2)]
  have "reached spec config E (length mbs) blocks s ?rs c1"
    using consume_all [OF c start p, of s] t(3) out(2) by simp
  moreover have "length ?rs = length blocks" using arg_cong [OF t(1), of size] len by simp
  ultimately show ?thesis using p out(1) e by (intro exI [of _ ?rs] exI [of _ ?n]) simp
qed

text \<open>Some execution ends, whatever the consumer does.\<close>

lemma execute_missing_ends:
  assumes "0 < unat (worker_count engine)"
  shows "\<exists>x c. execute_missing_blocks L spec engine blocks received s consume c0 x c"
proof (cases "length received \<noteq> length blocks \<or> pending_indices received = []")
  case True
  then show ?thesis by (auto simp: execute_missing_blocks_def Let_def)
next
  case False
  let ?n = "actual_worker_count engine (length (pending_indices received))"
  let ?items = "map (\<lambda>i. blocks ! i) (pending_indices received)"
  have n: "0 < ?n" using False assms by (simp add: actual_worker_count_def)
  obtain a :: "scenario_block bounded_queue" and k :: "block_result bounded_queue"
    where q: "new_bounded_queue (queue_capacity (assignment_queue_capacity engine) ?n) None = Inr a"
      "new_bounded_queue (queue_capacity (completion_queue_capacity engine) ?n) None = Inr k"
    using new_queue_total [of "assignment_queue_capacity engine" ?n] new_queue_total [of "completion_queue_capacity engine" ?n]
    by auto
  have "exec_inv (exec_initial ?n a k ?items c0)"
    using n new_bounded_queue_ok [OF q(1)] new_bounded_queue_ok [OF q(2)] by (intro exec_initial_inv) auto
  then obtain st where "(exec_step (engine_program L spec s consume))\<^sup>*\<^sup>* (exec_initial ?n a k ?items c0) st" "exec_terminal st"
    using exec_reaches_terminal by blast
  then show ?thesis using q False unfolding execute_missing_blocks_def Let_def by auto
qed

section \<open>Whole runs\<close>

lemma start_fresh:
  assumes c: "circumstances L env spec engine config E mbs blocks leaves s" and a: "amount \<le> length mbs + 269 + 8 * length blocks"
    and w: "healthy w fs" "files_after [] 0 fs"
  shows "\<exists>p. start_progress env spec engine (fresh_store spec engine config E blocks amount) = Inr p \<and>
    dp_received p = replicate (length blocks) False \<and> dp_coordinator p = s \<and>
    reached spec config E (length mbs) blocks s [] (p, w, False)"
proof -
  note f = circumstances_facts [OF c]
  have s: "make_coordinator_state env spec engine (leased blocks) = Inr s" and m: "length mbs < 2 ^ 64"
    using c by (auto simp: circumstances_def)
  have none: "fold recover_block (enumerate k (replicate n None)) p = p" for k n p
    by (induction n arbitrary: k p) (simp_all add: recover_block_def)
  have "fits config amount 0"
    by (rule later_write_fits [OF c le0 le0]) (use a in auto)
  then have "amount < 2 ^ 64" by (simp add: fits_def)
  then have amount: "unat (of_nat amount :: u64) = amount" by (rule unat_of_nat_u64)
  let ?p = "\<lparr>dp_store = fresh_store spec engine config E blocks amount, dp_coordinator = s,
    dp_leaves = replicate (length blocks) empty_stats, dp_received = replicate (length blocks) False, dp_recovered_blocks = 0,
    dp_recovered_scenarios = 0, dp_computed_blocks = 0, dp_computed_scenarios = 0, dp_pending_since_checkpoint = 0\<rparr>"
  have "start_progress env spec engine (fresh_store spec engine config E blocks amount) = Inr ?p"
    using s by (simp add: start_progress_def fresh_store_def none leased_def Let_def)
  moreover have "progress_after spec config E (length mbs) blocks s [] 0 ?p"
    using a amount by (simp add: progress_after_def store_after_def fresh_store_def)
  ultimately show ?thesis using w by (auto simp: reached_def)
qed

lemma finish_healthy:
  assumes c: "circumstances L env spec engine config E mbs blocks leaves s"
    and r: "reached spec config E (length mbs) blocks s rs (p, w, killed)" "fresh_results rs s"
      "\<forall>r \<in> set rs. block_leaf L spec (res_block r) = Inr (res_aggregate r)" "length rs = length blocks"
  shows "\<exists>res w'. durable_outcome spec (Inr workers) (p, w, killed) = (Returned res, w')"
proof -
  obtain k fs where h: "\<not> killed" "healthy w fs" "progress_after spec config E (length mbs) blocks s rs k p" "files_after rs k fs"
    using r(1) by (auto simp: reached_def)
  note P = h(3) [unfolded progress_after_def]
  have st: "store_after spec config E (length mbs) blocks rs k (dp_store p)"
    and k: "k \<le> (length blocks - 1) div unat (rsc_checkpoint_interval_blocks config)" using P by blast+
  obtain st' fs' where st': "yields (store_checkpoint (dp_coordinator p) (dp_leaves p) (dp_received p) Complete None (dp_store p)) fs st' fs'"
    using yields_checkpoint [OF c st h(4) k _ r(2,3), of Complete] r(4) P by auto
  obtain agg where "reduce_block_results (dp_leaves p) = Inr agg" using partial_reduction [OF c r(2,3)] r(4) P by auto
  then obtain res where res: "durable_result spec workers (p\<lparr>dp_store := st'\<rparr>) = Inr res"
    by (auto simp: durable_result_def Let_def)
  have all: "False \<notin> set (dp_received p)" using all_filled [OF c r(2,4)] P by simp
  have "yields (finish_durable spec workers p) fs res fs'"
    unfolding finish_durable_def if_not_P [OF all] by (rule yields_bind [OF st']) (simp add: res yields_result)
  then show ?thesis using h(1,2) by (auto simp: yields_def durable_outcome_def)
qed

text \<open>A new directory and an operating system that answers every call with success.\<close>

definition healthy_start :: "world \<Rightarrow> bool" where
  "healthy_start w \<longleftrightarrow> healthy w [] \<and> w_volatile w = [] \<and> w_log w = []"

text \<open>What the caller asks for is accepted and affordable.\<close>

definition run_admitted ::
  "libm \<Rightarrow> build_env \<Rightarrow> run_spec \<Rightarrow> engine_config \<Rightarrow> run_store_config \<Rightarrow> bool" where
  "run_admitted L env spec engine requested \<longleftrightarrow>
     validate_run_store_config requested = Inr () \<and> rsc_failure_injection requested = None \<and>
     (case rbind (expected_metadata env spec engine) (\<lambda>E. rbind (encode_run_metadata E) (\<lambda>mbs.
            rbind (make_blocks spec engine) (\<lambda>blocks. rbind (map_result (block_leaf L spec) blocks) (\<lambda>leaves.
            Inr (E, mbs, leaves))))) of
        Inl e \<Rightarrow> False
      | Inr (E, mbs, leaves) \<Rightarrow>
          (let config = resolve_checkpoint_cadence requested (md_block_count E)
           in run_affordable config E mbs \<and> checkpoints_reduce (rsc_checkpoint_interval_blocks config) leaves))"

lemma healthy_attempt:
  assumes w: "healthy_start w" and a: "run_admitted L env spec engine requested"
  shows "\<exists>out w'. run_parallel_durable L env canonical exists spec engine requested w out w'"
    "run_parallel_durable L env canonical exists spec engine requested w out w' \<Longrightarrow> \<exists>res. out = Returned res"
proof -
  have v: "validate_run_store_config requested = Inr ()" "rsc_failure_injection requested = None"
    using a by (auto simp: run_admitted_def)
  obtain E mbs blocks leaves where E: "expected_metadata env spec engine = Inr E" "encode_run_metadata E = Inr mbs"
    and b: "make_blocks spec engine = Inr blocks" and l: "map_result (block_leaf L spec) blocks = Inr leaves"
    and aff: "run_affordable (resolve_checkpoint_cadence requested (md_block_count E)) E mbs"
      "checkpoints_reduce (rsc_checkpoint_interval_blocks (resolve_checkpoint_cadence requested (md_block_count E))) leaves"
    using a by (auto simp: run_admitted_def Let_def split: sum.splits)
  let ?config = "resolve_checkpoint_cadence requested (md_block_count E)"
  obtain s where s: "make_coordinator_state env spec engine (leased blocks) = Inr s" using leased_coordinator [OF E(1) b] by blast
  have c: "circumstances L env spec engine ?config E mbs blocks leaves s"
    using E b l aff s metadata_length [OF E(2) expected_metadata_Inr(4) [OF E(1)]] resolved_interval
    unfolding circumstances_def by simp
  obtain m where m: "encode_manifest (first_manifest E (length blocks)) = Inr m" "length m = 269 + 8 * length blocks"
    using first_manifest_encodes [OF E(1) expected_bounds(1,2) [OF E(1) b]] by blast
  let ?fs = "[lock_file, spec_file mbs, (manifest_path_for 0, m)]"
  let ?store = "fresh_store spec engine ?config E blocks (length mbs + length m)"
  have "healthy w []" using w by (simp add: healthy_start_def)
  then obtain w1 where o: "store_open env canonical exists spec engine requested w = (Returned ?store, w1)" "healthy w1 ?fs"
    using yields_store_open [OF v E b refl aff(1) m, of canonical exists] unfolding yields_def by blast
  have "files_after [] 0 ?fs" by (auto simp: files_after_def tidy_def)
  from start_fresh [OF c _ o(2) this, of "length mbs + length m"] m(2)
  obtain p where p: "start_progress env spec engine ?store = Inr p" "dp_received p = replicate (length blocks) False"
      "dp_coordinator p = s" "reached spec ?config E (length mbs) blocks s [] (p, w1, False)"
    by auto
  have running: "rec_status (st_recovery_state ?store) \<noteq> Complete" "rec_blocks (st_recovery_state ?store) = leased blocks"
    by (simp_all add: fresh_store_def)
  have run: "run_parallel_durable L env canonical exists spec engine requested w out w' \<longleftrightarrow>
      (\<exists>x c. execute_missing_blocks L spec engine (leased blocks) (replicate (length blocks) False) s durable_consumer (p, w1, False) x c \<and>
        (out, w') = durable_outcome spec x c)" for out w'
    unfolding run_parallel_durable_def o(1) prod.case outcome.case p sum.case if_not_P [OF running(1)] running(2) ..
  have "0 < unat (worker_count engine)" using make_blocks_Inr(2) [OF b] by (rule validate_engine_config_Inr)
  then obtain x c1 where "execute_missing_blocks L spec engine (leased blocks) (replicate (length blocks) False) s durable_consumer (p, w1, False) x c1"
    using execute_missing_ends by metis
  then show "\<exists>out w'. run_parallel_durable L env canonical exists spec engine requested w out w'"
    unfolding run by (metis surj_pair)
  assume "run_parallel_durable L env canonical exists spec engine requested w out w'"
  then obtain x c1 where x: "execute_missing_blocks L spec engine (leased blocks) (replicate (length blocks) False) s durable_consumer (p, w1, False) x c1"
    "(out, w') = durable_outcome spec x c1" unfolding run by blast
  obtain q w2 killed where c1: "c1 = (q, w2, killed)" by (cases c1)
  from healthy_execution [OF c p(4) x(1)] finish_healthy [OF c] x(2) show "\<exists>res. out = Returned res"
    unfolding c1 by (metis prod.inject)
qed

section \<open>Properties\<close>

text \<open>C1. Crash recovery is deterministic.  Take a run directory that started empty and has since seen any
  number of attempts to run one specification, each with its own build, engine configuration, storage
  policy and injected failure, each answered by the operating system in any way, each returning, throwing
  or being killed at any call, with losses of power in between.  If the next attempt returns a result, the
  aggregate in it is, bit for bit, the one that the sequential computation of all blocks gives, and the
  scenario and block counts are the same; nothing recovered from disk can change the estimate.\<close>

theorem crash_recovery_deterministic:
  assumes "durable_history L spec w"
    and "run_parallel_durable L env canonical exists spec engine config w (Returned res) w'"
  shows "\<exists>s. sequential_run L spec engine = Inr s \<and> same_estimate (dr_run_result res) s"
  by (rule durable_attempt(2) [OF history_evidence [OF assms(1)] assms(2) refl])

lemma healthy_run_correct:
  assumes w: "healthy_start w" and a: "run_admitted L env spec engine requested"
  shows "\<exists>res w' s. run_parallel_durable L env canonical exists spec engine requested w (Returned res) w' \<and>
      sequential_run L spec engine = Inr s \<and> same_estimate (dr_run_result res) s"
    "run_parallel_durable L env canonical exists spec engine requested w out w' \<Longrightarrow>
      \<exists>res s. out = Returned res \<and> sequential_run L spec engine = Inr s \<and> same_estimate (dr_run_result res) s"
proof -
  have h: "evidence L spec w"
    using w by (intro history_evidence durable_history.new_directory) (auto simp: healthy_start_def healthy_def)
  show all: "\<exists>res s. out = Returned res \<and> sequential_run L spec engine = Inr s \<and> same_estimate (dr_run_result res) s"
    if "run_parallel_durable L env canonical exists spec engine requested w out w'" for out w'
    using healthy_attempt(2) [OF w a that] durable_attempt(2) [OF h that] by blast
  show "\<exists>res w' s. run_parallel_durable L env canonical exists spec engine requested w (Returned res) w' \<and>
      sequential_run L spec engine = Inr s \<and> same_estimate (dr_run_result res) s"
    using healthy_attempt(1) [OF w a, of canonical exists] all by blast
qed

text \<open>C2. A durable run completes.  On a new directory, with an operating system that grants every call and
  a storage policy that passes the store's own preflight, every interleaving of the threads and every
  sequence of periodic checkpoints ends with a result, and some execution exists; the result is the
  sequential estimate.  No write ever exceeds the policy the preflight accepted.\<close>

theorem healthy_run_completes:
  assumes "healthy_start w" "run_admitted L env spec engine requested"
  shows "(\<exists>out w'. run_parallel_durable L env canonical exists spec engine requested w out w') \<and>
    (\<forall>out w'. run_parallel_durable L env canonical exists spec engine requested w out w' \<longrightarrow>
      (\<exists>res s. out = Returned res \<and> sequential_run L spec engine = Inr s \<and> same_estimate (dr_run_result res) s))"
  using healthy_run_correct [OF assms] by blast

definition default_run_store_config :: "string \<Rightarrow> run_store_config" where
  "default_run_store_config directory =
     \<lparr>rsc_run_directory = directory, rsc_checkpoint_interval_blocks = 0, rsc_max_storage_bytes = 64 * 1024 * 1024 * 1024,
      rsc_max_storage_files = 2000100, rsc_min_free_space_bytes = 64 * 1024 * 1024,
      rsc_max_manifest_bytes = 128 * 1024 * 1024, rsc_failure_injection = None\<rparr>"

definition new_world :: world where
  "new_world = \<lparr>w_root = ''run'', w_files = [], w_volatile = [], w_unsynced = [], w_log = [], w_answers = [],
     w_pid = 1, w_nonce = 0, w_injector = idle_injector\<rparr>"

lemma new_world_healthy: "healthy_start new_world"
  by (simp add: healthy_start_def healthy_def new_world_def idle_injector_def)

lemma witness_metadata:
  "\<exists>E mbs. expected_metadata witness_env witness_spec default_engine_config = Inr E \<and> unat (md_block_count E) = 1 \<and>
     encode_run_metadata E = Inr mbs \<and> length mbs \<le> 70000"
proof -
  let ?d = "build_description (current_build_identity witness_env)"
  obtain s where s: "make_coordinator_state witness_env witness_spec default_engine_config [witness_block] = Inr s"
    using make_coordinator_state_total [OF witness_blocks] by blast
  then obtain h l where hl: "run_spec_hash witness_spec = Inr h" "execution_layout_hash witness_spec default_engine_config = Inr l"
    unfolding make_coordinator_state_def Let_def by (auto split: if_splits)
  note mb = make_blocks_Inr [OF witness_blocks]
  have n: "unat (blocks_needed witness_spec default_engine_config) = 1" using arg_cong [OF mb(3), of length] by simp
  have lim: "\<not> (max_materialized_blocks default_engine_config < blocks_needed witness_spec default_engine_config \<or>
      u64_max < blocks_needed witness_spec default_engine_config)"
    using mb(4) n by (simp add: word_less_nat_alt)
  obtain E where E: "expected_metadata witness_env witness_spec default_engine_config = Inr E"
    unfolding expected_metadata_def witness_spec_valid witness_config_valid rbind_simps Let_def if_not_P [OF lim] hl by blast
  note c = expected_metadata_cases [OF E]
  have count: "md_block_count E = blocks_needed witness_spec default_engine_config" by (rule c)
  have spec: "md_spec E = witness_spec" by (rule c)
  have d: "md_build_description E = ?d \<and> md_build_fingerprint E = build_hash (current_build_identity witness_env)"
    by (rule c) simp
  have i: "md_run_id E = durable_run_id (md_run_spec_hash E) (md_execution_layout_hash E)" by (rule c)
  have z: "md_block_size E = block_size default_engine_config" by (rule c)
  have h: "md_run_spec_hash E = h" by (rule c) (simp add: hl)
  obtain sb where sb: "encode_run_spec_payload witness_spec = Inr sb" "h = sha256 sb"
    using hl(1) by (auto simp: run_spec_hash_def)
  have nz: "md_block_count E \<noteq> 0" "md_block_size E \<noteq> 0" using n count z by (auto simp: default_engine_config_def)
  have digits: "length (dec64 kEngineVersion) \<le> 20" "length (decimal 20230801) \<le> 20" "length (decimal 202002) \<le> 20"
    by (simp_all add: kEngineVersion_def decimal.simps)
  have desc: "?d \<noteq> []" "length ?d \<le> 65536"
    using digits by (simp_all add: current_build_identity_def witness_env_def Let_def)
  have enc: "encode_run_metadata E = Inr (make_envelope kMetadataMagic (metadata_payload E sb))"
    unfolding encode_metadata_Inr spec
    using nz i d desc sb h by (simp add: current_build_identity_def Let_def)
  have "length (make_envelope kMetadataMagic (metadata_payload E sb)) \<le> 70000"
    using expected_metadata_Inr(2-5) [OF E] length_spec_payload [OF sb(1)] desc(2) d
    by (simp add: metadata_payload_def envelope_overhead_def)
  then show ?thesis using E enc n count by auto
qed

lemma witness_admitted:
  "run_admitted witness_libm witness_env witness_spec default_engine_config (default_run_store_config ''run'')"
proof -
  obtain E mbs where E: "expected_metadata witness_env witness_spec default_engine_config = Inr E" "unat (md_block_count E) = 1"
      "encode_run_metadata E = Inr mbs" "length mbs \<le> 70000"
    using witness_metadata by blast
  have n: "md_block_count E = 1" using E(2) by (simp add: word_unat_eq_iff)
  let ?c = "resolve_checkpoint_cadence (default_run_store_config ''run'') (md_block_count E)"
  have i: "rsc_checkpoint_interval_blocks ?c = 1024"
    by (simp add: n resolve_checkpoint_cadence_def default_run_store_config_def kMinimumAutomaticCheckpointBlocks_def
        kMaximumAutomaticPeriodicManifests_def)
  have f: "rsc_max_storage_bytes ?c = 64 * 1024 * 1024 * 1024" "rsc_max_storage_files ?c = 2000100"
    "rsc_min_free_space_bytes ?c = 64 * 1024 * 1024" "rsc_max_manifest_bytes ?c = 128 * 1024 * 1024"
    by (simp_all add: n resolve_checkpoint_cadence_def default_run_store_config_def)
  have m: "checkpoint_count ?c (md_block_count E) + 2 = 3" by (simp add: n checkpoint_count_def)
  have mbs: "unat (of_nat (length mbs) :: u64) = length mbs" using E(4) by (intro unat_of_nat_u64) simp
  obtain a where a: "completion_estimate ?c 0 1 1 1 3 (of_nat (length mbs)) 1 = Inr a"
    using completion_estimate_total [of 1 ?c 0 1 3 "of_nat (length mbs)" 1 1] E(4) f mbs by auto
  have "unat a + unat (rsc_min_free_space_bytes ?c) < 2 ^ 64" using completion_estimate_Inr(2) [OF a] E(4) mbs f(3) by simp
  then have "run_affordable ?c E mbs" using a m by (simp add: run_affordable_def n)
  moreover have "block_leaf witness_libm witness_spec witness_block = Inr witness_stats"
    using witness_compute witness_payload_hash witness_spec_fields
    unfolding block_leaf_def by (simp add: witness_spec_def default_run_spec_def)
  moreover have "checkpoints_reduce 1024 [witness_stats]"
    by (simp add: checkpoints_reduce_def partial_leaves_def reduce_block_results_def reduce_levels.simps)
  moreover have "validate_run_store_config (default_run_store_config ''run'') = Inr ()"
    by (simp add: validate_run_store_config_def default_run_store_config_def)
  ultimately show ?thesis
    unfolding run_admitted_def E(1,3) rbind_simps witness_blocks map_result.simps
    using i by (simp add: Let_def default_run_store_config_def)
qed

lemma witness_history: "durable_history L spec new_world"
  by (rule durable_history.new_directory) (simp_all add: new_world_def)

theorem crash_recovery_deterministic_witness:
  "\<exists>res w' s. run_parallel_durable witness_libm witness_env (\<lambda>_. []) (\<lambda>_. Inr False) witness_spec default_engine_config
       (default_run_store_config ''run'') new_world (Returned res) w' \<and>
     sequential_run witness_libm witness_spec default_engine_config = Inr s \<and> same_estimate (dr_run_result res) s"
proof -
  obtain res w' where r: "run_parallel_durable witness_libm witness_env (\<lambda>_. []) (\<lambda>_. Inr False) witness_spec default_engine_config
       (default_run_store_config ''run'') new_world (Returned res) w'"
    using healthy_run_correct(1) [OF new_world_healthy witness_admitted] by blast
  from crash_recovery_deterministic [OF witness_history r] r show ?thesis by blast
qed

theorem healthy_run_completes_witness:
  "\<exists>res w' s. run_parallel_durable witness_libm witness_env (\<lambda>_. []) (\<lambda>_. Inr False) witness_spec default_engine_config
       (default_run_store_config ''run'') new_world (Returned res) w' \<and>
     sequential_run witness_libm witness_spec default_engine_config = Inr s \<and> same_estimate (dr_run_result res) s"
  using healthy_run_completes [OF new_world_healthy witness_admitted, of "\<lambda>_. []" "\<lambda>_. Inr False"] by blast

end
