(* ===== verification/Durable_Safety.thy ===== *)
theory Durable_Safety
  imports Durable_Liveness
begin

text \<open>
  What holds of every attempt to run durably, whatever the operating system answers: some execution
  comes to an end, the specification and the manifests on disk are never altered or removed, and a
  store that opens is well formed.  The last property is about the scan for manifests when the
  operating system reports an error.
\<close>

section \<open>Files an attempt may touch\<close>

abbreviation anything :: "path \<Rightarrow> bytes \<Rightarrow> bool" where
  "anything p bs \<equiv> True"

lemma within_record [io_rules]: "io_within anything rm (record_result r st)"
  unfolding record_result_def by (auto intro!: io_rules)

lemma within_checkpoint [io_rules]: "io_within anything rm (store_checkpoint coordinator leaves received status failure st)"
  unfolding store_checkpoint_def by (auto intro!: io_rules)

lemma within_consume: "io_within anything rm (consume_durable r p)"
  unfolding consume_durable_def reject_result_def periodic_checkpoint_def
  by (auto intro!: io_rules split: prod.splits)

lemma within_finish: "io_within anything rm (finish_durable spec n p)"
  unfolding finish_durable_def by (auto intro!: io_rules)

lemma evolves_anything: "evolves ok rm w w' \<Longrightarrow> evolves anything rm w w'"
  unfolding evolves_def by blast

lemma consumer_evolves:
  assumes "durable_consumer r (p, w, killed) = ((p', w', killed'), e)"
  shows "evolves anything rm w w'"
proof -
  obtain out w1 where o: "consume_durable r p w = (out, w1)" by fastforce
  then have "w' = w1" using assms by (auto simp: durable_consumer_def split: outcome.splits)
  then show ?thesis using io_withinD [OF within_consume o] by simp
qed

lemma attempt_evolves:
  assumes run: "run_parallel_durable L env canonical exists spec engine config w out w'"
  shows "evolves anything removable w w'"
proof -
  obtain o1 w1 where o: "store_open env canonical exists spec engine config w = (o1, w1)" by fastforce
  have e1: "evolves anything removable w w1" by (rule evolves_anything [OF io_withinD [OF within_open o]])
  show ?thesis
  proof (cases "\<exists>st p. o1 = Returned st \<and> start_progress env spec engine st = Inr p \<and> rec_status (st_recovery_state st) \<noteq> Complete")
    case False
    then have "w' = w1"
      using run by (auto simp: run_parallel_durable_def o io_result_def io_raise_def io_return_def split: outcome.splits sum.splits if_splits)
    then show ?thesis using e1 by simp
  next
    case True
    then obtain st p where st: "o1 = Returned st" "start_progress env spec engine st = Inr p"
      "rec_status (st_recovery_state st) \<noteq> Complete" by blast
    then obtain x c where x: "execute_missing_blocks L spec engine (rec_blocks (st_recovery_state st))
          (dp_received p) (dp_coordinator p) durable_consumer (p, w1, False) x c" "(out, w') = durable_outcome spec x c"
      using run by (simp add: run_parallel_durable_def o) blast
    obtain p' w2 k where c: "c = (p', w2, k)" by (cases c)
    let ?J = "\<lambda>(p, w, k). evolves anything removable w1 w"
    have step: "case durable_consumer r c of (c', None) \<Rightarrow> ?J c' | (c', Some e) \<Rightarrow> ?J c'" if "?J c" for r c
    proof -
      obtain p w k where c: "c = (p, w, k)" by (cases c)
      obtain p' w' k' e where d: "durable_consumer r (p, w, k) = ((p', w', k'), e)" by (metis surj_pair)
      from consumer_evolves [OF d] that have "evolves anything removable w1 w'" by (auto simp: c intro: evolves_trans)
      then show ?thesis by (auto simp: c d split: option.splits)
    qed
    have "?J c" by (rule execute_missing_invariant(1) [OF x(1), where I = ?J and J = ?J]) (use step in auto)
    then have e2: "evolves anything removable w w2" using e1 by (auto simp: c intro: evolves_trans)
    show ?thesis
    proof (cases "\<exists>n. x = Inr n \<and> \<not> k")
      case True
      then obtain n where "finish_durable spec n p' w2 = (out, w')" using x(2) by (auto simp: durable_outcome_def c)
      from io_withinD [OF within_finish this] e2 show ?thesis by (rule_tac evolves_trans)
    next
      case False
      then have "w' = w2" using x(2) by (auto simp: durable_outcome_def c split: sum.splits if_splits)
      then show ?thesis using e2 by simp
    qed
  qed
qed

lemma some_attempt_ends: "\<exists>out w'. run_parallel_durable L env canonical exists spec engine config w out w'"
proof -
  obtain o1 w1 where o: "store_open env canonical exists spec engine config w = (o1, w1)" by fastforce
  show ?thesis
  proof (cases "\<exists>st p. o1 = Returned st \<and> start_progress env spec engine st = Inr p \<and> rec_status (st_recovery_state st) \<noteq> Complete")
    case False
    then show ?thesis
    proof (cases o1)
      case (Returned st)
      then show ?thesis
        using False by (cases "start_progress env spec engine st") (auto simp: run_parallel_durable_def o, metis surj_pair)
    qed (auto simp: run_parallel_durable_def o)
  next
    case True
    then obtain st p where st: "o1 = Returned st" "start_progress env spec engine st = Inr p"
      "rec_status (st_recovery_state st) \<noteq> Complete" by blast
    have "validate_engine_config engine spec = Inr ()"
      using st(2) by (auto simp: start_progress_def Let_def make_coordinator_state_def split: if_splits)
    then have "0 < unat (worker_count engine)" by (rule validate_engine_config_Inr)
    then obtain x c where
      "execute_missing_blocks L spec engine (rec_blocks (st_recovery_state st)) (dp_received p) (dp_coordinator p)
         durable_consumer (p, w1, False) x c" using execute_missing_ends by metis
    moreover obtain out w' where "durable_outcome spec x c = (out, w')" by fastforce
    ultimately have "run_parallel_durable L env canonical exists spec engine config w out w'"
      using st by (simp add: run_parallel_durable_def o del: split_paired_Ex) metis
    then show ?thesis by blast
  qed
qed

section \<open>Properties\<close>

text \<open>C4. Durable state is immutable: however an attempt ends, the run specification and every manifest
  that was in the run directory before it are there after it, byte for byte.  Only block results and
  temporary files are ever removed.\<close>

theorem attempt_keeps_manifests:
  assumes "run_parallel_durable L env canonical exists spec engine config w out w'"
    and "file_at w p = Some bs" "p = kRunSpecFilename \<or> butlast p = kManifestDirectory"
  shows "file_at w' p = Some bs"
proof -
  have "final_path p" "\<not> removable p"
    using assms(3) by (auto simp: final_path_def removable_def directory_defs)
  then show ?thesis using attempt_evolves [OF assms(1)] assms(2) unfolding evolves_def by blast
qed

theorem attempt_keeps_manifests_witness:
  "\<exists>out w'. run_parallel_durable witness_libm witness_env (\<lambda>_. []) (\<lambda>_. Inr False) witness_spec default_engine_config
       (default_run_store_config ''run'') (put_file (manifest_path_for 7) [1, 2, 3] new_world) out w' \<and>
     file_at w' (manifest_path_for 7) = Some [1, 2, 3]"
proof -
  let ?w = "put_file (manifest_path_for 7) [1, 2, 3] new_world"
  obtain out w' where r: "run_parallel_durable witness_libm witness_env (\<lambda>_. []) (\<lambda>_. Inr False) witness_spec default_engine_config
      (default_run_store_config ''run'') ?w out w'" using some_attempt_ends by blast
  have "file_at ?w (manifest_path_for 7) = Some [1, 2, 3]" "butlast (manifest_path_for 7) = kManifestDirectory"
    by (simp_all add: put_file_def new_world_def)
  with attempt_keeps_manifests [OF r] r show ?thesis by blast
qed

text \<open>C5. A store that opens is well formed.  After any history of the run directory, when \<^verbatim>\<open>open\<close> returns
  a store, its metadata are those that this specification, engine configuration and build give: the same run
  identifier, specification and layout hashes, build fingerprint, block size and block count.  Its blocks are
  the partition of the specification, it has one slot per block for results, every result it recovered is
  what its block computes, and a store that is complete has them all.\<close>

theorem opened_store_well_formed:
  assumes "durable_history L spec w" "store_open env canonical exists spec engine config w = (Returned st, w')"
  shows "\<exists>blocks. make_blocks spec engine = Inr blocks \<and> same_ranges blocks (rec_blocks (st_recovery_state st)) \<and>
    length (rec_committed_results (st_recovery_state st)) = length blocks \<and>
    length (st_durable_results st) = length blocks \<and> unat (md_block_count (st_metadata st)) = length blocks \<and>
    (\<exists>E. expected_metadata env spec engine = Inr E \<and>
       md_run_id (st_metadata st) = md_run_id E \<and> md_run_spec_hash (st_metadata st) = md_run_spec_hash E \<and>
       md_execution_layout_hash (st_metadata st) = md_execution_layout_hash E \<and>
       md_build_fingerprint (st_metadata st) = md_build_fingerprint E \<and>
       md_block_size (st_metadata st) = md_block_size E \<and> md_block_count (st_metadata st) = md_block_count E) \<and>
    (\<forall>i < length blocks. \<forall>r. st_durable_results st ! i = Some r \<longrightarrow> block_leaf L spec (blocks ! i) = Inr (res_aggregate r)) \<and>
    (rec_status (st_recovery_state st) = Complete \<longrightarrow> None \<notin> set (rec_committed_results (st_recovery_state st)))"
proof -
  have "\<exists>E. expected_metadata env spec engine = Inr E"
    using assms(2) by (auto simp: store_open_def returned)
  then obtain blocks where b: "make_blocks spec engine = Inr blocks" using expected_metadata_Inr(1) by blast
  have ok: "store_ok L env spec engine blocks st"
    using io_specD(1) [OF store_open_spec [OF b] history_evidence [OF assms(1)]] assms(2) by blast
  have res: "results_ok L spec blocks (rec_committed_results (st_recovery_state st))" "results_ok L spec blocks (st_durable_results st)"
    and rest: "same_ranges blocks (rec_blocks (st_recovery_state st))"
      "rec_status (st_recovery_state st) = Complete \<longrightarrow> None \<notin> set (rec_committed_results (st_recovery_state st))"
    using ok by (auto simp: store_ok_def recovery_ok_def)
  have run: "\<exists>E. expected_metadata env spec engine = Inr E \<and>
       md_run_id (st_metadata st) = md_run_id E \<and> md_run_spec_hash (st_metadata st) = md_run_spec_hash E \<and>
       md_execution_layout_hash (st_metadata st) = md_execution_layout_hash E \<and>
       md_build_fingerprint (st_metadata st) = md_build_fingerprint E \<and>
       md_block_size (st_metadata st) = md_block_size E \<and> md_block_count (st_metadata st) = md_block_count E"
    using ok by (auto simp: store_ok_def same_run_def)
  show ?thesis
    using b run store_block_count [OF ok] results_ok_length [OF res(1)] results_ok_length [OF res(2)] rest results_ok_nth [OF res(2)]
    by (intro exI [of _ blocks]) blast
qed

lemma witness_opens:
  "\<exists>st w'. store_open witness_env (\<lambda>_. []) (\<lambda>_. Inr False) witness_spec default_engine_config
     (default_run_store_config ''run'') new_world = (Returned st, w')"
proof -
  obtain res w' where "run_parallel_durable witness_libm witness_env (\<lambda>_. []) (\<lambda>_. Inr False) witness_spec default_engine_config
       (default_run_store_config ''run'') new_world (Returned res) w'"
    using healthy_run_correct(1) [OF new_world_healthy witness_admitted] by blast
  then show ?thesis
    by (cases "store_open witness_env (\<lambda>_. []) (\<lambda>_. Inr False) witness_spec default_engine_config
        (default_run_store_config ''run'') new_world"; cases "fst (store_open witness_env (\<lambda>_. []) (\<lambda>_. Inr False) witness_spec
        default_engine_config (default_run_store_config ''run'') new_world)")
      (auto simp: run_parallel_durable_def)
qed

theorem opened_store_well_formed_witness:
  "\<exists>st w'. store_open witness_env (\<lambda>_. []) (\<lambda>_. Inr False) witness_spec default_engine_config
     (default_run_store_config ''run'') new_world = (Returned st, w') \<and> length (st_durable_results st) = 1"
proof -
  obtain st w' where o: "store_open witness_env (\<lambda>_. []) (\<lambda>_. Inr False) witness_spec default_engine_config
     (default_run_store_config ''run'') new_world = (Returned st, w')" using witness_opens by blast
  from opened_store_well_formed [OF witness_history o, of witness_libm] o show ?thesis
    by (auto simp: witness_blocks)
qed

text \<open>An error of the operating system while \<^verbatim>\<open>manifests\<close> is scanned is not reported: the search returns
  as if the directory held no manifest at all, whatever is in it.  (The error code is tested inside the
  loop over the entries, and an error makes the iterator the end iterator, which leaves the loop first.)\<close>

lemma manifest_scan_error_hidden:
  assumes "next_answer w = (Failure message, w')"
  shows "load_latest_valid_manifest metadata engine config w =
    (Returned \<lparr>ms_loaded = None, ms_saw_manifest_file = False, ms_highest_sequence_seen = 0, ms_last_error = []\<rparr>, w')"
  using assms by (simp add: load_latest_valid_manifest_def list_directory_def io_bind_def io_return_def)

end
