(* ===== verification/Float_Integers.thy ===== *)
theory Float_Integers
  imports Model_Kernels
begin

text \<open>
  Doubles that hold integers: \<^verbatim>\<open>std::ceil\<close>, \<^verbatim>\<open>std::floor\<close> and the conversion to \<^verbatim>\<open>std::size_t\<close>, with the facts
  that make an index computed in floating point an index.
\<close>

section \<open>Model\<close>

definition ceil_units :: "double \<Rightarrow> int" where
  "ceil_units d = - ((- units d) div int unit_scale)"

definition floor_units :: "double \<Rightarrow> int" where
  "floor_units d = units d div int unit_scale"

text \<open>The double with an integral value; zero keeps the sign of the argument.\<close>

definition integral :: "bool \<Rightarrow> int \<Rightarrow> double" where
  "integral s c = (if c = 0 then mk_double s 0 else round_int (c * int unit_scale))"

definition fceil :: "double \<Rightarrow> double" where
  "fceil d = (if isfinite d then integral (signbit d) (ceil_units d) else d)"

definition ffloor :: "double \<Rightarrow> double" where
  "ffloor d = (if isfinite d then integral (signbit d) (floor_units d) else d)"

text \<open>\<^verbatim>\<open>static_cast<std::size_t>\<close> of a double in its range drops the fraction.\<close>

definition to_size :: "double \<Rightarrow> nat" where
  "to_size d = nat (floor_units d)"

section \<open>Exactness\<close>

lemma integral_exact:
  assumes "\<bar>c\<bar> < 2 ^ 53"
  shows "units (integral s c) = c * int unit_scale" "isfinite (integral s c)"
proof -
  let ?n = "of_nat (nat \<bar>c\<bar>) :: u64"
  have n: "unat ?n = nat \<bar>c\<bar>" using assms by (subst unat_of_nat_u64) auto
  then have e: "mag_units (mag (of_u64 ?n)) = nat \<bar>c\<bar> * unit_scale" "\<not> signbit (of_u64 ?n)" "isfinite (of_u64 ?n)"
    using of_u64_exact [of ?n] of_u64_bounds(1) assms by auto
  let ?d = "if c < 0 then fneg (of_u64 ?n) else of_u64 ?n"
  have u: "units ?d = c * int unit_scale" using e(1,2) by (auto simp: units_def)
  have fin: "isfinite ?d" using e(3) by (simp only: if_split fneg_class) simp
  have "units (round_int (units ?d)) = units ?d" using round_int_units [OF fin] by simp
  then show "units (integral s c) = c * int unit_scale"
    unfolding u by (auto simp: integral_def units_def mag_units_def)
  have "ord64 (round_int (units ?d)) = ord64 ?d" by (rule round_int_units [OF fin])
  then have "isfinite (round_int (units ?d))" using fin by (simp add: isfinite_ord)
  then show "isfinite (integral s c)" unfolding u by (auto simp: integral_def isfinite_def)
qed

lemma ceil_bounds: "units d \<le> ceil_units d * int unit_scale" "ceil_units d * int unit_scale < units d + int unit_scale"
proof -
  have p: "0 < int unit_scale" using unit_scale_pos by simp
  have "- units d = (- units d) div int unit_scale * int unit_scale + (- units d) mod int unit_scale" by simp
  moreover have "0 \<le> (- units d) mod int unit_scale" "(- units d) mod int unit_scale < int unit_scale" using p by simp_all
  ultimately show "units d \<le> ceil_units d * int unit_scale" "ceil_units d * int unit_scale < units d + int unit_scale"
    unfolding ceil_units_def minus_mult_left [symmetric] by linarith+
qed

lemma floor_bounds: "floor_units d * int unit_scale \<le> units d" "units d < floor_units d * int unit_scale + int unit_scale"
proof -
  have p: "0 < int unit_scale" using unit_scale_pos by simp
  have "units d = units d div int unit_scale * int unit_scale + units d mod int unit_scale" by simp
  moreover have "0 \<le> units d mod int unit_scale" "units d mod int unit_scale < int unit_scale" using p by simp_all
  ultimately show "floor_units d * int unit_scale \<le> units d" "units d < floor_units d * int unit_scale + int unit_scale"
    unfolding floor_units_def by linarith+
qed

lemma scale_cancel:
  "a * int unit_scale \<le> b * int unit_scale \<longleftrightarrow> a \<le> b" "a * int unit_scale < b * int unit_scale + int unit_scale \<longleftrightarrow> a \<le> b"
  "a * int unit_scale < b * int unit_scale \<longleftrightarrow> a < b"
proof -
  have p: "0 < int unit_scale" using unit_scale_pos by simp
  then show "a * int unit_scale \<le> b * int unit_scale \<longleftrightarrow> a \<le> b" "a * int unit_scale < b * int unit_scale \<longleftrightarrow> a < b" by simp_all
  have "a * int unit_scale < b * int unit_scale + int unit_scale \<longleftrightarrow> a * int unit_scale < (b + 1) * int unit_scale"
    by (simp add: algebra_simps)
  then show "a * int unit_scale < b * int unit_scale + int unit_scale \<longleftrightarrow> a \<le> b" using p by simp
qed

text \<open>A value between 0 and \<open>n\<close> has its floor and its ceiling there.\<close>

lemma rounded_range:
  assumes "0 \<le> units d" "units d \<le> n * int unit_scale"
  shows "0 \<le> floor_units d" "floor_units d \<le> ceil_units d" "ceil_units d \<le> n" "ceil_units d \<le> floor_units d + 1"
proof -
  note c = ceil_bounds [of d] and f = floor_bounds [of d]
  have "0 * int unit_scale < floor_units d * int unit_scale + int unit_scale" using assms(1) f(2) by linarith
  then show "0 \<le> floor_units d" unfolding scale_cancel .
  have "floor_units d * int unit_scale \<le> ceil_units d * int unit_scale" using f(1) c(1) by linarith
  then show "floor_units d \<le> ceil_units d" unfolding scale_cancel .
  have "ceil_units d * int unit_scale < n * int unit_scale + int unit_scale" using c(2) assms(2) by linarith
  then show "ceil_units d \<le> n" unfolding scale_cancel .
  have "ceil_units d * int unit_scale < (floor_units d + 1) * int unit_scale + int unit_scale" using c(2) f(2) by (simp add: algebra_simps)
  then show "ceil_units d \<le> floor_units d + 1" unfolding scale_cancel .
qed

lemma floor_units_integral [simp]: "\<bar>c\<bar> < 2 ^ 53 \<Longrightarrow> floor_units (integral s c) = c"
  using integral_exact(1) [of c s] unit_scale_pos by (simp add: floor_units_def)

lemma of_u64_units: "unat n < 2 ^ 53 \<Longrightarrow> units (of_u64 n) = int (unat n) * int unit_scale"
  using of_u64_exact by (simp add: units_def)

text \<open>A fraction in [0, 1] of a count stays between 0 and the count.\<close>

lemma fraction_of_count:
  assumes "isfinite q" "fle zero64 q" "fle q one64" "unat n < 2 ^ 53"
  shows "isfinite (fmul q (of_u64 n))" "0 \<le> units (fmul q (of_u64 n))"
    "units (fmul q (of_u64 n)) \<le> int (unat n) * int unit_scale"
proof -
  let ?k = "round_units (mag_units (mag q) * mag_units (mag (of_u64 n))) unit_scale"
  note n = of_u64_exact [OF assms(4)]
  have q: "0 \<le> ord64 q" "ord64 q \<le> ord64 one64" using assms(2,3) by (auto simp: fle_def)
  then have "mag q \<le> mag one64" using one64_simps(2) by (auto simp: ord64_def split: if_splits)
  then have "mag_units (mag q) \<le> unit_scale" using mag_units_mono [of "mag q" "mag one64"] mag_units_one by simp
  then have "mag_units (mag q) * mag_units (mag (of_u64 n)) \<le> mag_units (mag (of_u64 n)) * unit_scale"
    by (simp add: mult.commute)
  from round_units_le_representable [OF unit_scale_pos this] have k: "mag_units ?k \<le> unat n * unit_scale" by (simp add: n(1))
  have s: "signbit q \<Longrightarrow> mag q = 0" using q(1) by (simp add: ord64_def)
  then have f: "fmul q (of_u64 n) = mk_double (signbit q) ?k" "signbit q \<Longrightarrow> ?k = 0"
    using assms(1) of_u64_bounds(1) [of n] n(2) unit_scale_pos by (auto simp: fmul_def Let_def)
  have k': "int (mag_units ?k) \<le> int (unat n) * int unit_scale" using k by (metis of_nat_mono of_nat_mult)
  show "0 \<le> units (fmul q (of_u64 n))" unfolding f(1) using f(2) by (simp add: units_mk_double)
  show "units (fmul q (of_u64 n)) \<le> int (unat n) * int unit_scale"
    unfolding f(1) using k' f(2) by (cases "signbit q") (simp_all add: units_mk_double del: of_nat_unat)
  have "mag_units ?k \<le> mag_units (mag (of_u64 n))" using k n(1) by simp
  then have "?k \<le> mag (of_u64 n)" by (simp add: mag_units_le_iff)
  then show "isfinite (fmul q (of_u64 n))"
    unfolding f(1) using of_u64_bounds(1) [of n] by (simp add: isfinite_def)
qed

end
