(* ===== verification/Gate_Statistics.thy ===== *)
theory Gate_Statistics
  imports Float_Integers "HOL-Library.Multiset"
begin

text \<open>
  The statistics of the checkpoint gate (\<^verbatim>\<open>tools/checkpoint_gate_stats.cpp\<close>): median, type-7 quantile, the
  SplitMix64 bootstrap with its rejection loop, drift and order effect, and the verdict.  A loop that
  need not end is a partial function into \<^typ>\<open>'a option\<close>; that it ends is proved.
\<close>

section \<open>Model\<close>

text \<open>\<^verbatim>\<open>std::midpoint\<close> and \<^verbatim>\<open>std::lerp\<close> on doubles: the standard fixes their laws, not their bits, so they are
  a parameter.\<close>

record numeric_lib =
  nl_midpoint :: "double \<Rightarrow> double \<Rightarrow> double"
  nl_lerp :: "double \<Rightarrow> double \<Rightarrow> double \<Rightarrow> double"

record checkpoint_gate_observation =
  ob_control_scenarios_per_second :: double
  ob_treatment_scenarios_per_second :: double
  ob_control_first :: bool

record checkpoint_gate_policy =
  gp_minimum_pairs :: nat
  gp_bootstrap_samples :: nat
  gp_bootstrap_seed :: u64
  gp_maximum_loss_percent :: double
  gp_maximum_control_drift_percent :: double
  gp_maximum_order_effect_percentage_points :: double

record checkpoint_gate_summary =
  gs_pairs :: nat
  gs_median_loss_percent :: double
  gs_first_quartile_loss_percent :: double
  gs_third_quartile_loss_percent :: double
  gs_interquartile_range_percentage_points :: double
  gs_median_absolute_deviation_percentage_points :: double
  gs_confidence_95_low_percent :: double
  gs_confidence_95_high_percent :: double
  gs_control_drift_percent :: double
  gs_order_effect_percentage_points :: double
  gs_sufficient_pairs :: bool
  gs_confidence_gate_pass :: bool
  gs_control_drift_gate_pass :: bool
  gs_order_effect_gate_pass :: bool
  gs_gate_pass :: bool

definition hundred64 :: double where "hundred64 = Double 0x4059000000000000"
definition ten64 :: double where "ten64 = Double 0x4024000000000000"
definition five64 :: double where "five64 = Double 0x4014000000000000"
definition p25 :: double where "p25 = Double 0x3FD0000000000000"
definition p75 :: double where "p75 = Double 0x3FE8000000000000"
definition p025 :: double where "p025 = Double 0x3F9999999999999A"
definition p975 :: double where "p975 = Double 0x3FEF333333333333"

definition default_gate_policy :: checkpoint_gate_policy where
  "default_gate_policy = \<lparr>gp_minimum_pairs = 20, gp_bootstrap_samples = 10000, gp_bootstrap_seed = 0x523443484B5054,
     gp_maximum_loss_percent = ten64, gp_maximum_control_drift_percent = five64,
     gp_maximum_order_effect_percentage_points = five64\<rparr>"

text \<open>\<^verbatim>\<open>std::sort\<close> on values that are not NaN; the two zeros compare equal.\<close>

abbreviation sorted_values :: "double list \<Rightarrow> double list" where
  "sorted_values values \<equiv> sort_key ord64 values"

definition median :: "numeric_lib \<Rightarrow> double list \<Rightarrow> double result" where
  "median N values =
     (if values = [] then Inl (Invalid_argument ''median requires at least one value'')
      else
        (let values = sorted_values values; middle = length values div 2
         in if length values mod 2 = 0
            then Inr (nl_midpoint N (values ! (middle - 1)) (values ! middle))
            else Inr (values ! middle)))"

definition quantile :: "numeric_lib \<Rightarrow> double list \<Rightarrow> double \<Rightarrow> double result" where
  "quantile N values probability =
     (if values = [] \<or> \<not> isfinite probability \<or> flt probability zero64 \<or> flt one64 probability
      then Inl (Invalid_argument ''quantile inputs are invalid'')
      else
        (let values = sorted_values values
         in if length values = 1 then Inr (values ! 0)
            else
              (let position = fmul probability (of_u64 (of_nat (length values - 1)));
                   lower = to_size (ffloor position); upper = to_size (fceil position);
                   fraction = fsub position (of_u64 (of_nat lower))
               in Inr (nl_lerp N (values ! lower) (values ! upper) fraction))))"

definition splitmix64 :: "u64 \<Rightarrow> u64 \<times> u64" where
  "splitmix64 state =
     (let state = state + 0x9E3779B97F4A7C15;
          value = (state XOR drop_bit 30 state) * 0xBF58476D1CE4E5B9;
          value = (value XOR drop_bit 27 value) * 0x94D049BB133111EB
      in (value XOR drop_bit 31 value, state))"

definition rejection_threshold :: "u64 \<Rightarrow> u64" where
  "rejection_threshold bound = (- bound) mod bound"

partial_function (option) sample_index :: "u64 \<Rightarrow> u64 \<Rightarrow> (nat \<times> u64) option" where
  "sample_index state bound =
     (let draw = splitmix64 state
      in if rejection_threshold bound \<le> fst draw then Some (unat (fst draw mod bound), snd draw)
         else sample_index (snd draw) bound)"

declare sample_index.simps [code]

definition validate_policy :: "checkpoint_gate_policy \<Rightarrow> unit result" where
  "validate_policy policy =
     (if gp_minimum_pairs policy < 2 \<or> gp_bootstrap_samples policy < 1000 \<or> 1000000 < gp_bootstrap_samples policy \<or>
         \<not> isfinite (gp_maximum_loss_percent policy) \<or> \<not> isfinite (gp_maximum_control_drift_percent policy) \<or>
         \<not> isfinite (gp_maximum_order_effect_percentage_points policy) \<or>
         flt (gp_maximum_loss_percent policy) zero64 \<or> flt (gp_maximum_control_drift_percent policy) zero64 \<or>
         flt (gp_maximum_order_effect_percentage_points policy) zero64
      then Inl (Invalid_argument ''checkpoint gate policy is invalid'')
      else Inr ())"

text \<open>The Theil-Sen slopes, in the order of the two loops.\<close>

definition slopes_of :: "double list \<Rightarrow> double list" where
  "slopes_of rates =
     concat (map (\<lambda>left. map (\<lambda>right. fdiv (fsub (rates ! right) (rates ! left)) (of_u64 (of_nat (right - left))))
       [Suc left..<length rates]) [0..<length rates])"

definition robust_control_drift_percent :: "numeric_lib \<Rightarrow> double list \<Rightarrow> double result" where
  "robust_control_drift_percent N rates =
     rbind (median N rates) (\<lambda>typical_rate.
     rbind (median N (slopes_of rates)) (\<lambda>slope.
       Inr (fdiv (fmul (fmul hundred64 slope) (of_u64 (of_nat (length rates - 1)))) typical_rate)))"

definition checkpoint_throughput_loss_percent :: "checkpoint_gate_observation \<Rightarrow> double result" where
  "checkpoint_throughput_loss_percent observation =
     (let control = ob_control_scenarios_per_second observation;
          treatment = ob_treatment_scenarios_per_second observation
      in if \<not> isfinite control \<or> \<not> isfinite treatment \<or> fle control zero64 \<or> fle treatment zero64
         then Inl (Invalid_argument ''checkpoint gate rates must be finite and positive'')
         else
           (let loss = fmul hundred64 (fsub one64 (fdiv treatment control))
            in if \<not> isfinite loss
               then Inl (Invalid_argument ''checkpoint gate throughput loss is non-finite'')
               else Inr loss))"

text \<open>One resample, and the medians of all of them.  The outer option says whether the rejection loops end.\<close>

fun draw_resample :: "double list \<Rightarrow> nat \<Rightarrow> u64 \<Rightarrow> (double list \<times> u64) option" where
  "draw_resample losses 0 state = Some ([], state)"
| "draw_resample losses (Suc k) state =
     (case sample_index state (of_nat (length losses)) of
        None \<Rightarrow> None
      | Some (i, state) \<Rightarrow>
          (case draw_resample losses k state of
             None \<Rightarrow> None
           | Some (rest, state) \<Rightarrow> Some (losses ! i # rest, state)))"

fun bootstrap_medians :: "numeric_lib \<Rightarrow> double list \<Rightarrow> nat \<Rightarrow> u64 \<Rightarrow> double list result option" where
  "bootstrap_medians N losses 0 state = Some (Inr [])"
| "bootstrap_medians N losses (Suc k) state =
     (case draw_resample losses (length losses) state of
        None \<Rightarrow> None
      | Some (resample, state) \<Rightarrow>
          (case median N resample of
             Inl e \<Rightarrow> Some (Inl e)
           | Inr m \<Rightarrow>
               (case bootstrap_medians N losses k state of
                  None \<Rightarrow> None
                | Some rest \<Rightarrow> Some (rbind rest (\<lambda>ms. Inr (m # ms))))))"

text \<open>The losses with their order, as the loop over the observations collects them.\<close>

fun collect_losses :: "checkpoint_gate_observation list \<Rightarrow> (double \<times> bool) list result" where
  "collect_losses [] = Inr []"
| "collect_losses (ob # obs) =
     rbind (checkpoint_throughput_loss_percent ob) (\<lambda>loss.
     rbind (collect_losses obs) (\<lambda>rest. Inr ((loss, ob_control_first ob) # rest)))"

text \<open>What follows the bootstrap.\<close>

definition gate_verdict ::
  "numeric_lib \<Rightarrow> checkpoint_gate_observation list \<Rightarrow> checkpoint_gate_policy \<Rightarrow> double list \<Rightarrow> double list \<Rightarrow> double list \<Rightarrow>
   double \<Rightarrow> double \<Rightarrow> double \<Rightarrow> double \<Rightarrow> double list \<Rightarrow> checkpoint_gate_summary result" where
  "gate_verdict N observations policy losses control_first treatment_first med q1 q3 mad medians =
     rbind (quantile N medians p025) (\<lambda>low.
     rbind (quantile N medians p975) (\<lambda>high.
     rbind (robust_control_drift_percent N (map ob_control_scenarios_per_second observations)) (\<lambda>drift.
     rbind (median N control_first) (\<lambda>mc.
     rbind (median N treatment_first) (\<lambda>mt.
     (let order_effect = fsub mc mt
      in if \<not> isfinite drift \<or> \<not> isfinite order_effect
         then Inl (Invalid_argument ''checkpoint gate diagnostics are non-finite'')
         else
           (let sufficient = gp_minimum_pairs policy \<le> length observations;
                confidence = flt high (gp_maximum_loss_percent policy);
                drift_ok = fle (fabs drift) (gp_maximum_control_drift_percent policy);
                order_ok = fle (fabs order_effect) (gp_maximum_order_effect_percentage_points policy)
            in Inr \<lparr>gs_pairs = length observations, gs_median_loss_percent = med, gs_first_quartile_loss_percent = q1,
                    gs_third_quartile_loss_percent = q3, gs_interquartile_range_percentage_points = fsub q3 q1,
                    gs_median_absolute_deviation_percentage_points = mad, gs_confidence_95_low_percent = low,
                    gs_confidence_95_high_percent = high, gs_control_drift_percent = drift,
                    gs_order_effect_percentage_points = order_effect, gs_sufficient_pairs = sufficient,
                    gs_confidence_gate_pass = confidence, gs_control_drift_gate_pass = drift_ok,
                    gs_order_effect_gate_pass = order_ok,
                    gs_gate_pass = (sufficient \<and> confidence \<and> drift_ok \<and> order_ok)\<rparr>)))))))"

definition summarize_checkpoint_gate ::
  "numeric_lib \<Rightarrow> checkpoint_gate_observation list \<Rightarrow> checkpoint_gate_policy \<Rightarrow> checkpoint_gate_summary result option" where
  "summarize_checkpoint_gate N observations policy =
     (case rbind (validate_policy policy) (\<lambda>_.
        if length observations < 2 \<or> 100 < length observations
        then Inl (Invalid_argument ''checkpoint gate requires 2 through 100 balanced observations'')
        else
          rbind (collect_losses observations) (\<lambda>collected.
          (let losses = map fst collected;
               control_first = map fst (filter snd collected);
               treatment_first = map fst (filter (\<lambda>c. \<not> snd c) collected)
           in if control_first = [] \<or> treatment_first = [] \<or> length treatment_first + 1 < length control_first \<or>
                 length control_first + 1 < length treatment_first
              then Inl (Invalid_argument ''checkpoint gate observations are not balanced AB/BA pairs'')
              else
                rbind (median N losses) (\<lambda>med.
                rbind (quantile N losses p25) (\<lambda>q1.
                rbind (quantile N losses p75) (\<lambda>q3.
                rbind (median N (map (\<lambda>loss. fabs (fsub loss med)) losses)) (\<lambda>mad.
                  Inr (losses, control_first, treatment_first, med, q1, q3, mad))))))) ) of
        Inl e \<Rightarrow> Some (Inl e)
      | Inr (losses, control_first, treatment_first, med, q1, q3, mad) \<Rightarrow>
          (case bootstrap_medians N losses (gp_bootstrap_samples policy) (gp_bootstrap_seed policy) of
             None \<Rightarrow> None
           | Some medians \<Rightarrow>
               Some (rbind medians (gate_verdict N observations policy losses control_first treatment_first med q1 q3 mad))))"

section \<open>The rejection loop ends\<close>

abbreviation golden_gamma :: u64 where
  "golden_gamma \<equiv> 0x9E3779B97F4A7C15"

definition mix_state :: "u64 \<Rightarrow> u64" where
  "mix_state state =
     (let value = (state XOR drop_bit 30 state) * 0xBF58476D1CE4E5B9;
          value = (value XOR drop_bit 27 value) * 0x94D049BB133111EB
      in value XOR drop_bit 31 value)"

lemma splitmix64_mix: "splitmix64 state = (mix_state (state + golden_gamma), state + golden_gamma)"
  by (simp add: splitmix64_def mix_state_def Let_def)

lemma xorshift_inj:
  fixes x y :: u64
  assumes "0 < n" "x XOR drop_bit n x = y XOR drop_bit n y"
  shows "x = y"
proof -
  have e: "(bit x i \<noteq> bit x (n + i)) = (bit y i \<noteq> bit y (n + i))" for i
    using arg_cong [OF assms(2), of "\<lambda>w. bit w i"] by (simp add: bit_xor_iff bit_drop_bit_eq)
  have "bit x i = bit y i" for i
  proof (induction "64 - i" arbitrary: i rule: less_induct)
    case less
    show ?case
    proof (cases "i < 64")
      case True
      then have "bit x (n + i) = bit y (n + i)" using assms(1) by (intro less) simp
      then show ?thesis using e [of i] by blast
    next
      case False
      then show ?thesis using bit_imp_le_length [of x i] bit_imp_le_length [of y i] by auto
    qed
  qed
  then show ?thesis by (rule bit_eqI)
qed

lemma odd_mult_inj:
  fixes a b m :: u64
  assumes "m * minv = 1" "a * m = b * m"
  shows "a = b"
proof -
  have "a * m * minv = b * m * minv" using assms(2) by simp
  then show ?thesis using assms(1) by (simp add: mult.assoc)
qed

lemma mix_state_inj: "inj mix_state"
proof (rule injI)
  fix x y
  assume "mix_state x = mix_state y"
  then have "((x XOR drop_bit 30 x) * 0xBF58476D1CE4E5B9 XOR drop_bit 27 ((x XOR drop_bit 30 x) * 0xBF58476D1CE4E5B9)) * 0x94D049BB133111EB =
      ((y XOR drop_bit 30 y) * 0xBF58476D1CE4E5B9 XOR drop_bit 27 ((y XOR drop_bit 30 y) * 0xBF58476D1CE4E5B9)) * 0x94D049BB133111EB"
    unfolding mix_state_def Let_def by (rule xorshift_inj [rotated]) simp
  then have "(x XOR drop_bit 30 x) * 0xBF58476D1CE4E5B9 XOR drop_bit 27 ((x XOR drop_bit 30 x) * 0xBF58476D1CE4E5B9) =
      (y XOR drop_bit 30 y) * 0xBF58476D1CE4E5B9 XOR drop_bit 27 ((y XOR drop_bit 30 y) * 0xBF58476D1CE4E5B9)"
    by (rule odd_mult_inj [where minv = "0x319642B2D24D8EC3", rotated]) simp
  then have "(x XOR drop_bit 30 x) * 0xBF58476D1CE4E5B9 = (y XOR drop_bit 30 y) * 0xBF58476D1CE4E5B9"
    by (rule xorshift_inj [rotated]) simp
  then have "x XOR drop_bit 30 x = y XOR drop_bit 30 y" by (rule odd_mult_inj [where minv = "0x96DE1B173F119089", rotated]) simp
  then show "x = y" by (rule xorshift_inj [rotated]) simp
qed

text \<open>The state steps through all of its values, so some output is the largest one.\<close>

lemma some_draw_accepted: "\<exists>k. rejection_threshold bound \<le> mix_state (state + of_nat (Suc k) * golden_gamma)"
proof -
  have "surj mix_state" using mix_state_inj by (simp add: finite_UNIV_inj_surj)
  then obtain t where t: "mix_state t = u64_max" by (metis surjD)
  let ?steps = "(t - state - golden_gamma) * 0xF1DE83E19937733D"
  have "of_nat (Suc (unat ?steps)) * golden_gamma = golden_gamma + ?steps * golden_gamma" by (simp add: algebra_simps)
  also have "?steps * golden_gamma = (t - state - golden_gamma) * (0xF1DE83E19937733D * golden_gamma)"
    by (rule mult.assoc)
  also have "(0xF1DE83E19937733D :: u64) * golden_gamma = 1" by simp
  finally have "state + of_nat (Suc (unat ?steps)) * golden_gamma = t" by (simp add: algebra_simps)
  then show ?thesis using t u64_le_max by metis
qed

lemma sample_index_reaches:
  "rejection_threshold bound \<le> mix_state (state + of_nat (Suc k) * golden_gamma) \<Longrightarrow> \<exists>v s. sample_index state bound = Some (unat (v mod bound), s)"
proof (induction k arbitrary: state)
  case 0
  then show ?case by (subst sample_index.simps) (auto simp: splitmix64_mix Let_def)
next
  case (Suc k)
  have "state + of_nat (Suc (Suc k)) * golden_gamma = (state + golden_gamma) + of_nat (Suc k) * golden_gamma"
    by (simp add: algebra_simps)
  then have "\<exists>v s. sample_index (state + golden_gamma) bound = Some (unat (v mod bound), s)" using Suc by metis
  then show ?case by (subst sample_index.simps) (auto simp: splitmix64_mix Let_def)
qed

lemma sample_index_total:
  assumes "bound \<noteq> 0"
  shows "\<exists>i s. sample_index state bound = Some (i, s) \<and> i < unat bound"
proof -
  obtain k where "rejection_threshold bound \<le> mix_state (state + of_nat (Suc k) * golden_gamma)"
    using some_draw_accepted by blast
  from sample_index_reaches [OF this] obtain v s where "sample_index state bound = Some (unat (v mod bound), s)" by blast
  moreover have "unat (v mod bound) < unat bound" using assms by (simp add: unat_mod unat_gt_0)
  ultimately show ?thesis by blast
qed





section \<open>Sorting, medians and quantiles\<close>

text \<open>What the standard promises of the two library functions: the results lie between the arguments,
  and \<^verbatim>\<open>lerp\<close> is monotone in its parameter.\<close>

definition numeric_lib_ok :: "numeric_lib \<Rightarrow> bool" where
  "numeric_lib_ok N \<longleftrightarrow>
     (\<forall>a b. isfinite a \<longrightarrow> isfinite b \<longrightarrow> ord64 a \<le> ord64 b \<longrightarrow>
        ord64 a \<le> ord64 (nl_midpoint N a b) \<and> ord64 (nl_midpoint N a b) \<le> ord64 b) \<and>
     (\<forall>a b t. isfinite a \<longrightarrow> isfinite b \<longrightarrow> ord64 a \<le> ord64 b \<longrightarrow> fle zero64 t \<longrightarrow> fle t one64 \<longrightarrow>
        ord64 a \<le> ord64 (nl_lerp N a b t) \<and> ord64 (nl_lerp N a b t) \<le> ord64 b) \<and>
     (\<forall>a b t u. isfinite a \<longrightarrow> isfinite b \<longrightarrow> ord64 a \<le> ord64 b \<longrightarrow> fle zero64 t \<longrightarrow> fle t u \<longrightarrow> fle u one64 \<longrightarrow>
        ord64 (nl_lerp N a b t) \<le> ord64 (nl_lerp N a b u))"

lemma lerp_between:
  assumes "numeric_lib_ok N" "isfinite a" "isfinite b" "ord64 a \<le> ord64 b" "fle zero64 t" "fle t one64"
  shows "ord64 a \<le> ord64 (nl_lerp N a b t)" "ord64 (nl_lerp N a b t) \<le> ord64 b"
  using assms unfolding numeric_lib_ok_def by blast+

lemma lerp_mono:
  "numeric_lib_ok N \<Longrightarrow> isfinite a \<Longrightarrow> isfinite b \<Longrightarrow> ord64 a \<le> ord64 b \<Longrightarrow> fle zero64 t \<Longrightarrow> fle t u \<Longrightarrow> fle u one64 \<Longrightarrow>
     ord64 (nl_lerp N a b t) \<le> ord64 (nl_lerp N a b u)"
  unfolding numeric_lib_ok_def by blast

text \<open>All values finite and between \<open>lo\<close> and \<open>hi\<close>.\<close>

definition values_within :: "int \<Rightarrow> int \<Rightarrow> double list \<Rightarrow> bool" where
  "values_within lo hi vs \<longleftrightarrow> (\<forall>v \<in> set vs. isfinite v \<and> lo \<le> ord64 v \<and> ord64 v \<le> hi)"

abbreviation finite_range :: "int \<Rightarrow> int \<Rightarrow> bool" where
  "finite_range lo hi \<equiv> - int inf_pattern < lo \<and> hi < int inf_pattern"

lemma finite_in_range: "finite_range lo hi \<Longrightarrow> lo \<le> ord64 v \<Longrightarrow> ord64 v \<le> hi \<Longrightarrow> isfinite v"
  by (simp add: isfinite_ord abs_less_iff)

lemma sorted_values_nth:
  assumes "values_within lo hi vs" "i \<le> j" "j < length vs"
  shows "isfinite (sorted_values vs ! i)" "ord64 (sorted_values vs ! i) \<le> ord64 (sorted_values vs ! j)"
    "lo \<le> ord64 (sorted_values vs ! i)" "ord64 (sorted_values vs ! i) \<le> hi"
proof -
  have "sorted_values vs ! i \<in> set vs" using nth_mem [of i "sorted_values vs"] assms(2,3) by simp
  then show "isfinite (sorted_values vs ! i)" "lo \<le> ord64 (sorted_values vs ! i)" "ord64 (sorted_values vs ! i) \<le> hi"
    using assms(1) by (auto simp: values_within_def)
  have "sorted (map ord64 (sorted_values vs))" by simp
  from sorted_nth_mono [OF this, of i j] assms(2,3)
  show "ord64 (sorted_values vs ! i) \<le> ord64 (sorted_values vs ! j)" by simp
qed

lemma median_within:
  assumes N: "numeric_lib_ok N" and r: "finite_range lo hi" and v: "values_within lo hi vs" "vs \<noteq> []"
  shows "\<exists>m. median N vs = Inr m \<and> isfinite m \<and> lo \<le> ord64 m \<and> ord64 m \<le> hi"
proof -
  let ?s = "sorted_values vs" and ?k = "length vs div 2"
  have k: "?k < length vs" using v(2) by simp
  note mid = sorted_values_nth [OF v(1) le_refl k] and prev = sorted_values_nth [OF v(1) diff_le_self [of _ 1] k]
  let ?m = "if length vs mod 2 = 0 then nl_midpoint N (?s ! (?k - 1)) (?s ! ?k) else ?s ! ?k"
  have "median N vs = Inr ?m" using v(2) by (simp add: median_def Let_def)
  moreover have "lo \<le> ord64 ?m \<and> ord64 ?m \<le> hi"
    using N mid prev unfolding numeric_lib_ok_def by (auto intro: order_trans)
  ultimately show ?thesis using finite_in_range [OF r] by blast
qed

text \<open>A quantile: the two neighbours and where between them.\<close>

lemma quantile_position:
  assumes p: "isfinite p" "fle zero64 p" "fle p one64" and n: "n < 2 ^ 53"
  defines "d \<equiv> fmul p (of_u64 (of_nat n))"
  shows "to_size (ffloor d) = nat (floor_units d)" "to_size (fceil d) = nat (ceil_units d)"
    "0 \<le> floor_units d" "floor_units d \<le> ceil_units d" "ceil_units d \<le> int n" "ceil_units d \<le> floor_units d + 1"
    "fle zero64 (fsub d (of_u64 (of_nat (nat (floor_units d)))))" "fle (fsub d (of_u64 (of_nat (nat (floor_units d))))) one64"
    "isfinite d" "units (of_u64 (of_nat (nat (floor_units d)))) = floor_units d * int unit_scale"
proof -
  have un: "unat (of_nat n :: u64) = n" using n by (intro unat_of_nat_u64) simp
  then have "unat (of_nat n :: u64) < 2 ^ 53" using n by simp
  note fr = fraction_of_count [OF p this, folded d_def, unfolded un]
  note r = rounded_range [OF fr(2,3)]
  show fin: "isfinite d" by (rule fr(1))
  show "0 \<le> floor_units d" "floor_units d \<le> ceil_units d" "ceil_units d \<le> int n" "ceil_units d \<le> floor_units d + 1" by (fact r)+
  have b: "\<bar>floor_units d\<bar> < 2 ^ 53" "\<bar>ceil_units d\<bar> < 2 ^ 53" using r n by auto
  show "to_size (ffloor d) = nat (floor_units d)" "to_size (fceil d) = nat (ceil_units d)"
    using b fin by (simp_all add: to_size_def ffloor_def fceil_def)
  let ?l = "of_nat (nat (floor_units d)) :: u64"
  have ul: "unat ?l = nat (floor_units d)" using b(1) r(1) by (subst unat_of_nat_u64) auto
  then have "unat ?l < 2 ^ 53" using b(1) r(1) by simp
  from of_u64_units [OF this] show lu: "units (of_u64 ?l) = floor_units d * int unit_scale" unfolding ul using r(1) by simp
  have lf: "isfinite (of_u64 ?l)" by (rule of_u64_bounds)
  note f = floor_bounds [of d]
  have one: "units one64 = int unit_scale" using mag_units_one by (simp add: units_def)
  have "units (of_u64 ?l) \<le> units d" using f(1) unfolding lu .
  then have "0 \<le> ord64 (fsub d (of_u64 ?l))" using fsub_sign(1) [OF fin lf] by simp
  then show "fle zero64 (fsub d (of_u64 ?l))" using fin lf by (simp add: fle_def)
  have "units d - units (of_u64 ?l) \<le> units one64" using f(2) unfolding lu one by simp
  then have "ord64 (fsub d (of_u64 ?l)) \<le> ord64 one64" using fsub_le [OF fin lf] one64_simps(1) by blast
  then show "fle (fsub d (of_u64 ?l)) one64" using fin lf by (simp add: fle_def isfinite_not)
qed

lemma quantile_eq:
  assumes p: "isfinite p" "fle zero64 p" "fle p one64" and v: "1 < length vs" "length vs < 2 ^ 53"
  defines "d \<equiv> fmul p (of_u64 (of_nat (length vs - 1)))"
  shows "quantile N vs p = Inr (nl_lerp N (sorted_values vs ! nat (floor_units d)) (sorted_values vs ! nat (ceil_units d))
    (fsub d (of_u64 (of_nat (nat (floor_units d))))))"
proof -
  have n: "length vs - 1 < 2 ^ 53" using v by simp
  have "\<not> (vs = [] \<or> \<not> isfinite p \<or> flt p zero64 \<or> flt one64 p)" "length (sorted_values vs) \<noteq> 1"
    using p v(1) by (auto simp: flt_def fle_def)
  then show ?thesis
    using quantile_position(1,2) [OF p n] by (simp add: quantile_def Let_def d_def)
qed

lemma quantile_within:
  assumes N: "numeric_lib_ok N" and r: "finite_range lo hi" and v: "values_within lo hi vs" "vs \<noteq> []" "length vs < 2 ^ 53"
    and p: "isfinite p" "fle zero64 p" "fle p one64"
  shows "\<exists>x. quantile N vs p = Inr x \<and> lo \<le> ord64 x \<and> ord64 x \<le> hi"
proof (cases "length vs = 1")
  case True
  have "quantile N vs p = Inr (sorted_values vs ! 0)"
    using True v(2) p by (auto simp: quantile_def Let_def flt_def fle_def)
  then show ?thesis using sorted_values_nth [OF v(1), of 0 0] v(2) by simp
next
  case False
  then have n: "1 < length vs" "length vs - 1 < 2 ^ 53" using v by (auto simp: Suc_lessI)
  let ?d = "fmul p (of_u64 (of_nat (length vs - 1)))"
  note q = quantile_position [OF p n(2)]
  have i: "nat (floor_units ?d) \<le> nat (ceil_units ?d)" "nat (ceil_units ?d) < length vs" using q(3-5) n(1) by auto
  note a = sorted_values_nth [OF v(1) i] and b = sorted_values_nth [OF v(1) le_refl i(2)]
  show ?thesis
    using quantile_eq [OF p n(1) v(3), of N] lerp_between [OF N a(1) b(1) a(2) q(7,8)] a(3) b(4)
    by (meson order_trans)
qed

lemma fmul_count_mono:
  assumes p: "isfinite p" "fle zero64 p" and pq: "fle p q" "isfinite q"
  shows "ord64 (fmul p (of_u64 n)) \<le> ord64 (fmul q (of_u64 n))"
proof -
  have m: "0 \<le> ord64 p" "ord64 p \<le> ord64 q" using p(2) pq(1) by (auto simp: fle_def)
  have "\<not> signbit (of_u64 n)" by (simp add: of_u64_def)
  have k: "mag p \<le> mag q" "signbit p \<Longrightarrow> mag p = 0" "signbit q \<Longrightarrow> mag q = 0"
    using m by (auto simp: ord64_def split: if_splits)
  have "round_units (mag_units (mag p) * mag_units (mag (of_u64 n))) unit_scale
      \<le> round_units (mag_units (mag q) * mag_units (mag (of_u64 n))) unit_scale"
    using mag_units_mono [OF k(1)] unit_scale_pos by (intro round_units_mono) auto
  then show ?thesis
    using k(2,3) fmul_ord [OF p(1) of_u64_bounds(1)] fmul_ord [OF pq(2) of_u64_bounds(1)] unit_scale_pos
      \<open>\<not> signbit (of_u64 n)\<close> by (cases "signbit p"; cases "signbit q") simp_all
qed

lemma quantile_mono:
  assumes N: "numeric_lib_ok N" and r: "finite_range lo hi" and v: "values_within lo hi vs" "vs \<noteq> []" "length vs < 2 ^ 53"
    and p: "isfinite p" "fle zero64 p" and q: "isfinite q" "fle q one64" and pq: "fle p q"
    and x: "quantile N vs p = Inr x" "quantile N vs q = Inr y"
  shows "ord64 x \<le> ord64 y"
proof (cases "length vs = 1")
  case True
  then show ?thesis using x by (auto simp: quantile_def Let_def split: if_splits)
next
  case False
  then have n: "1 < length vs" "length vs - 1 < 2 ^ 53" using v by (auto simp: Suc_lessI)
  have p1: "fle p one64" and q0: "fle zero64 q" using p(2) pq q(2) by (auto simp: fle_def)
  let ?d = "fmul p (of_u64 (of_nat (length vs - 1)))" and ?e = "fmul q (of_u64 (of_nat (length vs - 1)))"
  let ?s = "sorted_values vs"
  let ?ld = "nat (floor_units ?d)" and ?ud = "nat (ceil_units ?d)" and ?le = "nat (floor_units ?e)" and ?ue = "nat (ceil_units ?e)"
  let ?t = "fsub ?d (of_u64 (of_nat ?ld))" and ?u = "fsub ?e (of_u64 (of_nat ?le))"
  note P = quantile_position [OF p p1 n(2)] and Q = quantile_position [OF q(1) q0 q(2) n(2)]
  have x': "x = nl_lerp N (?s ! ?ld) (?s ! ?ud) ?t" "y = nl_lerp N (?s ! ?le) (?s ! ?ue) ?u"
    using x quantile_eq [OF p p1 n(1) v(3)] quantile_eq [OF q(1) q0 q(2) n(1) v(3)] by simp_all
  have i: "?ld \<le> ?ud" "?ud < length vs" "?le \<le> ?ue" "?ue < length vs" using P(3-5) Q(3-5) n(1) by auto
  have de: "units ?d \<le> units ?e" using fmul_count_mono [OF p pq q(1)] by simp
  then have fl: "floor_units ?d \<le> floor_units ?e"
    using unit_scale_pos unfolding floor_units_def by (intro zdiv_mono1) auto
  note D = sorted_values_nth [OF v(1) i(1,2)] and E = sorted_values_nth [OF v(1) i(3,4)]
  note D' = sorted_values_nth [OF v(1) le_refl i(2)] and E' = sorted_values_nth [OF v(1) le_refl i(4)]
  show ?thesis
  proof (cases "floor_units ?d = floor_units ?e \<and> ceil_units ?d = ceil_units ?e")
    case True
    have "ord64 ?t \<le> ord64 ?u"
      using True de P(9) Q(9) of_u64_bounds(1) [of "of_nat ?le"]
      unfolding fsub_def by (simp add: ord64_fadd units_fneg round_int_mono)
    then have "fle ?t ?u" using P(7) Q(8) by (simp add: fle_def)
    then show ?thesis using lerp_mono [OF N E(1) E'(1) E(2) P(7) _ Q(8)] True unfolding x' by simp
  next
    case False
    have "ceil_units ?d \<le> ceil_units ?e"
      using de unit_scale_pos unfolding ceil_units_def by (intro le_imp_neg_le zdiv_mono1) auto
    then have "ceil_units ?d \<le> floor_units ?e" using False fl P(6) Q(6) by linarith
    then have "?ud \<le> ?le" by simp
    then have "ord64 (?s ! ?ud) \<le> ord64 (?s ! ?le)" using sorted_values_nth(2) [OF v(1), of ?ud ?le] i by simp
    moreover have "ord64 x \<le> ord64 (?s ! ?ud)" "ord64 (?s ! ?le) \<le> ord64 y"
      unfolding x' using lerp_between(2) [OF N D(1) D'(1) D(2) P(7,8)] lerp_between(1) [OF N E(1) E'(1) E(2) Q(7,8)] by simp_all
    ultimately show ?thesis by simp
  qed
qed

section \<open>The bootstrap\<close>

lemma draw_resample_total:
  assumes "losses \<noteq> []" "length losses < 2 ^ 64"
  shows "\<exists>xs s. draw_resample losses k state = Some (xs, s) \<and> length xs = k \<and> set xs \<subseteq> set losses"
proof (induction k arbitrary: state)
  case (Suc k)
  have n: "unat (of_nat (length losses) :: u64) = length losses" using assms(2) by (rule unat_of_nat_u64)
  then have "(of_nat (length losses) :: u64) \<noteq> 0" using assms(1) by (metis length_0_conv unat_0)
  from sample_index_total [OF this, of state] obtain i s where i: "sample_index state (of_nat (length losses)) = Some (i, s)" "i < length losses"
    unfolding n by blast
  obtain xs s' where "draw_resample losses k s = Some (xs, s')" "length xs = k" "set xs \<subseteq> set losses" using Suc by blast
  then show ?case using i by simp
qed simp

lemma values_within_subset: "values_within lo hi vs \<Longrightarrow> set xs \<subseteq> set vs \<Longrightarrow> values_within lo hi xs"
  by (auto simp: values_within_def)

lemma bootstrap_total:
  assumes N: "numeric_lib_ok N" and r: "finite_range lo hi" and v: "values_within lo hi losses" "losses \<noteq> []" "length losses < 2 ^ 64"
  shows "\<exists>ms. bootstrap_medians N losses k state = Some (Inr ms) \<and> length ms = k \<and> values_within lo hi ms"
proof (induction k arbitrary: state)
  case (Suc k)
  obtain xs s where xs: "draw_resample losses (length losses) state = Some (xs, s)" "length xs = length losses" "set xs \<subseteq> set losses"
    using draw_resample_total [OF v(2,3)] by blast
  have ne: "xs \<noteq> []" using xs(2) v(2) by auto
  obtain m where m: "median N xs = Inr m" "isfinite m" "lo \<le> ord64 m" "ord64 m \<le> hi"
    using median_within [OF N r values_within_subset [OF v(1) xs(3)] ne] by blast
  obtain ms where "bootstrap_medians N losses k s = Some (Inr ms)" "length ms = k" "values_within lo hi ms" using Suc by blast
  then show ?case using xs(1) m by (simp add: values_within_def)
qed (simp add: values_within_def)

text \<open>The losses are finite, and the bounds of the observations' losses bound them.\<close>

lemma loss_finite: "checkpoint_throughput_loss_percent ob = Inr l \<Longrightarrow> isfinite l"
  by (auto simp: checkpoint_throughput_loss_percent_def Let_def split: if_splits)

lemma collected_losses:
  "collect_losses obs = Inr cs \<Longrightarrow> length cs = length obs \<and>
     (\<forall>i < length obs. checkpoint_throughput_loss_percent (obs ! i) = Inr (fst (cs ! i)))"
proof (induction obs arbitrary: cs)
  case (Cons ob obs)
  then show ?case by (auto simp: nth_Cons split: nat.split)
qed simp

lemma collected_within:
  assumes "collect_losses obs = Inr cs"
    and "\<And>ob l. ob \<in> set obs \<Longrightarrow> checkpoint_throughput_loss_percent ob = Inr l \<Longrightarrow> lo \<le> ord64 l \<and> ord64 l \<le> hi"
  shows "values_within lo hi (map fst cs)"
proof -
  note c = collected_losses [OF assms(1)]
  have "isfinite (fst (cs ! i)) \<and> lo \<le> ord64 (fst (cs ! i)) \<and> ord64 (fst (cs ! i)) \<le> hi" if "i < length cs" for i
    using c that assms(2) loss_finite by (metis nth_mem)
  then show ?thesis unfolding values_within_def all_set_conv_all_nth by simp
qed

lemma literal_quantiles:
  "isfinite p25" "isfinite p75" "isfinite p025" "isfinite p975"
  "fle zero64 p25" "fle p25 p75" "fle p75 one64" "fle zero64 p025" "fle p025 p975" "fle p975 one64"
  "fle p25 one64" "fle zero64 p75" "fle p025 one64" "fle zero64 p975"
  by (simp_all add: p25_def p75_def p025_def p975_def isfinite_def fle_def isnan_def ord64_def mag_def signbit_def one64_def
      zero64_def mk_double_def)

text \<open>What holds of a summary: the quantiles are ordered and inside the range of the losses, and the
  verdict is the conjunction of the four gates.\<close>

definition summary_sound :: "checkpoint_gate_observation list \<Rightarrow> checkpoint_gate_policy \<Rightarrow> checkpoint_gate_summary \<Rightarrow> bool" where
  "summary_sound observations policy s \<longleftrightarrow>
     (\<forall>lo hi. isfinite lo \<longrightarrow> isfinite hi \<longrightarrow>
        (\<forall>ob \<in> set observations. \<forall>l. checkpoint_throughput_loss_percent ob = Inr l \<longrightarrow> fle lo l \<and> fle l hi) \<longrightarrow>
        fle lo (gs_confidence_95_low_percent s) \<and>
        fle (gs_confidence_95_low_percent s) (gs_confidence_95_high_percent s) \<and>
        fle (gs_confidence_95_high_percent s) hi \<and>
        fle lo (gs_first_quartile_loss_percent s) \<and>
        fle (gs_first_quartile_loss_percent s) (gs_third_quartile_loss_percent s) \<and>
        fle (gs_third_quartile_loss_percent s) hi \<and>
        fle lo (gs_median_loss_percent s) \<and> fle (gs_median_loss_percent s) hi) \<and>
     (gs_gate_pass s \<longleftrightarrow>
        gp_minimum_pairs policy \<le> length observations \<and>
        flt (gs_confidence_95_high_percent s) (gp_maximum_loss_percent policy) \<and>
        fle (fabs (gs_control_drift_percent s)) (gp_maximum_control_drift_percent policy) \<and>
        fle (fabs (gs_order_effect_percentage_points s)) (gp_maximum_order_effect_percentage_points policy))"

lemma fle_finite: "isfinite a \<Longrightarrow> isfinite b \<Longrightarrow> fle a b \<longleftrightarrow> ord64 a \<le> ord64 b"
  by (simp add: fle_def isfinite_not)

lemma verdict_sound:
  assumes N: "numeric_lib_ok N" and c: "collect_losses obs = Inr cs" and n: "2 \<le> length obs" "length obs < 2 ^ 53"
    and med: "median N (map fst cs) = Inr med" and q: "quantile N (map fst cs) p25 = Inr q1" "quantile N (map fst cs) p75 = Inr q3"
    and b: "bootstrap_medians N (map fst cs) (gp_bootstrap_samples policy) seed = Some (Inr ms)"
    and k: "0 < gp_bootstrap_samples policy" "gp_bootstrap_samples policy < 2 ^ 53"
    and v: "gate_verdict N obs policy (map fst cs) cf tf med q1 q3 mad ms = Inr s"
  shows "summary_sound obs policy s"
proof -
  obtain low high drift order where s: "quantile N ms p025 = Inr low" "quantile N ms p975 = Inr high"
      "gs_confidence_95_low_percent s = low" "gs_confidence_95_high_percent s = high" "gs_first_quartile_loss_percent s = q1"
      "gs_third_quartile_loss_percent s = q3" "gs_median_loss_percent s = med"
    and gate: "gs_gate_pass s \<longleftrightarrow> gp_minimum_pairs policy \<le> length obs \<and> flt high (gp_maximum_loss_percent policy) \<and>
        fle (fabs (gs_control_drift_percent s)) (gp_maximum_control_drift_percent policy) \<and>
        fle (fabs (gs_order_effect_percentage_points s)) (gp_maximum_order_effect_percentage_points policy)"
    using v by (auto simp: gate_verdict_def Let_def split: if_splits)
  have len: "map fst cs \<noteq> []" "length (map fst cs) < 2 ^ 53" "length (map fst cs) < 2 ^ 64"
    using collected_losses [OF c] n by auto
  have "fle lo low \<and> fle low high \<and> fle high hi \<and> fle lo q1 \<and> fle q1 q3 \<and> fle q3 hi \<and> fle lo med \<and> fle med hi"
    if r: "isfinite lo" "isfinite hi"
      "\<forall>ob \<in> set obs. \<forall>l. checkpoint_throughput_loss_percent ob = Inr l \<longrightarrow> fle lo l \<and> fle l hi" for lo hi
  proof -
    have fr: "finite_range (ord64 lo) (ord64 hi)" using r(1,2) by (auto simp: isfinite_ord)
    have w: "values_within (ord64 lo) (ord64 hi) (map fst cs)"
      using collected_within [OF c] r(3) by (auto simp: fle_def)
    obtain ms' where "bootstrap_medians N (map fst cs) (gp_bootstrap_samples policy) seed = Some (Inr ms')"
        "length ms' = gp_bootstrap_samples policy" "values_within (ord64 lo) (ord64 hi) ms'"
      using bootstrap_total [OF N fr w len(1,3)] by blast
    then have ms: "values_within (ord64 lo) (ord64 hi) ms" "ms \<noteq> []" "length ms < 2 ^ 53" using b k by auto
    note lit = literal_quantiles
    have A: "ord64 lo \<le> ord64 low" "ord64 high \<le> ord64 hi" "ord64 lo \<le> ord64 q1" "ord64 q3 \<le> ord64 hi" "ord64 lo \<le> ord64 med" "ord64 med \<le> ord64 hi"
      using quantile_within [OF N fr ms lit(3,8,13)] quantile_within [OF N fr ms lit(4,14,10)] s(1,2)
        quantile_within [OF N fr w len(1,2) lit(1,5,11)] quantile_within [OF N fr w len(1,2) lit(2,12,7)] q
        median_within [OF N fr w len(1)] med by auto
    have B: "ord64 low \<le> ord64 high" "ord64 q1 \<le> ord64 q3"
      using quantile_mono [OF N fr ms lit(3,8,4,10,9) s(1,2)] quantile_mono [OF N fr w len(1,2) lit(1,5,2,7,6) q] by simp_all
    have fin: "isfinite low" "isfinite high" "isfinite q1" "isfinite q3" "isfinite med"
      using finite_in_range [OF fr] A B by (meson order_trans)+
    show ?thesis using A B fin r(1,2) by (simp add: fle_finite)
  qed
  then show ?thesis using s gate by (simp add: summary_sound_def)
qed

lemma summarize_total:
  assumes N: "numeric_lib_ok N"
  shows "\<exists>r. summarize_checkpoint_gate N observations policy = Some r \<and> (\<forall>s. r = Inr s \<longrightarrow> summary_sound observations policy s)"
proof -
  define first where "first = rbind (validate_policy policy) (\<lambda>_.
        if length observations < 2 \<or> 100 < length observations
        then Inl (Invalid_argument ''checkpoint gate requires 2 through 100 balanced observations'')
        else
          rbind (collect_losses observations) (\<lambda>collected.
          (let losses = map fst collected;
               control_first = map fst (filter snd collected);
               treatment_first = map fst (filter (\<lambda>c. \<not> snd c) collected)
           in if control_first = [] \<or> treatment_first = [] \<or> length treatment_first + 1 < length control_first \<or>
                 length control_first + 1 < length treatment_first
              then Inl (Invalid_argument ''checkpoint gate observations are not balanced AB/BA pairs'')
              else
                rbind (median N losses) (\<lambda>med.
                rbind (quantile N losses p25) (\<lambda>q1.
                rbind (quantile N losses p75) (\<lambda>q3.
                rbind (median N (map (\<lambda>loss. fabs (fsub loss med)) losses)) (\<lambda>mad.
                  Inr (losses, control_first, treatment_first, med, q1, q3, mad))))))))"
  show ?thesis
  proof (cases first)
    case (Inl e)
    then show ?thesis unfolding summarize_checkpoint_gate_def first_def by simp
  next
    case (Inr t)
    obtain losses cf tf med q1 q3 mad where t: "t = (losses, cf, tf, med, q1, q3, mad)" by (cases t)
    have p: "validate_policy policy = Inr ()" using Inr by (cases "validate_policy policy") (auto simp: first_def)
    obtain cs where c: "collect_losses observations = Inr cs" "losses = map fst cs" "median N losses = Inr med"
        "quantile N losses p25 = Inr q1" "quantile N losses p75 = Inr q3"
      and n: "2 \<le> length observations" "length observations \<le> 100"
      using Inr by (auto simp: first_def t p Let_def not_less split: if_splits)
    have k: "0 < gp_bootstrap_samples policy" "gp_bootstrap_samples policy < 2 ^ 53"
      using p by (auto simp: validate_policy_def split: if_splits)
    have len: "losses \<noteq> []" "length losses < 2 ^ 64" using collected_losses [OF c(1)] c(2) n by auto
    have w: "values_within (- int inf_pattern + 1) (int inf_pattern - 1) losses"
      unfolding c(2) by (rule collected_within [OF c(1)]) (auto dest!: loss_finite simp: isfinite_ord)
    obtain ms where b: "bootstrap_medians N losses (gp_bootstrap_samples policy) (gp_bootstrap_seed policy) = Some (Inr ms)"
      using bootstrap_total [OF N _ w len] by auto
    have "summarize_checkpoint_gate N observations policy = Some (gate_verdict N observations policy losses cf tf med q1 q3 mad ms)"
      using Inr b unfolding summarize_checkpoint_gate_def first_def t by simp
    moreover have "summary_sound observations policy s" if "gate_verdict N observations policy losses cf tf med q1 q3 mad ms = Inr s" for s
      using verdict_sound [OF N c(1) n(1) _ _ _ _ _ k] that b c n(2) by simp
    ultimately show ?thesis by blast
  qed
qed

section \<open>Properties\<close>



text \<open>C31. The checkpoint gate always comes to a verdict, and a sound one: for every list of observations and
  policy the summary ends with an error or a summary; in a summary the confidence interval and the
  quartiles are ordered and lie inside the range of the losses, and the gate passes exactly when there
  are enough pairs, the upper confidence bound is below the permitted loss, and drift and order effect
  are within their limits.\<close>

theorem gate_summary_correct:
  assumes "numeric_lib_ok N"
  shows "\<exists>r. summarize_checkpoint_gate N observations policy = Some r \<and> (\<forall>s. r = Inr s \<longrightarrow> summary_sound observations policy s)"
  by (rule summarize_total [OF assms])

definition step_numeric_lib :: numeric_lib where
  "step_numeric_lib = \<lparr>nl_midpoint = (\<lambda>a b. a), nl_lerp = (\<lambda>a b t. if fle one64 t then b else a)\<rparr>"

lemma step_numeric_lib_ok: "numeric_lib_ok step_numeric_lib"
  by (auto simp: numeric_lib_ok_def step_numeric_lib_def fle_def)

definition gate_pair :: "bool \<Rightarrow> checkpoint_gate_observation" where
  "gate_pair first = \<lparr>ob_control_scenarios_per_second = hundred64, ob_treatment_scenarios_per_second = hundred64,
     ob_control_first = first\<rparr>"

theorem gate_summary_correct_witness:
  "\<exists>r. summarize_checkpoint_gate step_numeric_lib [gate_pair True, gate_pair False] default_gate_policy = Some r \<and>
     (\<forall>s. r = Inr s \<longrightarrow> gs_gate_pass s \<longrightarrow> gp_minimum_pairs default_gate_policy \<le> 2)"
proof -
  from gate_summary_correct [OF step_numeric_lib_ok, of "[gate_pair True, gate_pair False]" default_gate_policy]
  obtain r where "summarize_checkpoint_gate step_numeric_lib [gate_pair True, gate_pair False] default_gate_policy = Some r"
    "\<forall>s. r = Inr s \<longrightarrow> summary_sound [gate_pair True, gate_pair False] default_gate_policy s" by blast
  then show ?thesis by (intro exI [of _ r]) (auto simp: summary_sound_def)
qed

end
