(* ===== verification/Aggregation_Strategies.thy ===== *)
theory Aggregation_Strategies
  imports Engine_Run
begin

text \<open>
  The aggregation strategies that \<^verbatim>\<open>tools/benchmark_aggregation.cpp\<close> compares: a static partition of the
  scenarios, one thread per part, and a shared aggregate under a mutex, an atomic sum, one aggregate per
  worker, or the engine's fixed tree.  The threads are a step relation; a step is one iteration of one worker,
  whose effect on the shared state is atomic.  Time measurement is not modelled.
\<close>

section \<open>The strategies\<close>

record strategy_result =
  sg_mean :: double
  sg_workers_used :: u64
  sg_atomic_lock_free :: bool

definition worker_counts :: "u64 \<Rightarrow> u64 list" where
  "worker_counts maximum =
     (let values = 1 # filter (\<lambda>candidate. candidate \<le> maximum) [2, 4, 8]
      in if List.last values < maximum then values @ [maximum] else values)"

definition static_start :: "run_spec \<Rightarrow> u64 \<Rightarrow> u64 \<Rightarrow> u64" where
  "static_start spec workers worker = total_scenarios spec * worker div workers"

text \<open>The scenarios of one worker, from its start to the start of the next.\<close>

definition static_slice :: "run_spec \<Rightarrow> u64 \<Rightarrow> u64 \<Rightarrow> u64 list" where
  "static_slice spec workers worker =
     map of_nat [unat (static_start spec workers worker)..<unat (static_start spec workers (worker + 1))]"

definition static_slices :: "run_spec \<Rightarrow> u64 \<Rightarrow> u64 list list" where
  "static_slices spec workers = map (\<lambda>i. static_slice spec workers (of_nat i)) [0..<unat workers]"

record 's strategy_state =
  sy_remaining :: "u64 list list"
  sy_shared :: 's
  sy_first_error :: "exn option"

text \<open>One iteration of worker \<open>i\<close>; an exception ends the worker and the first one is kept.\<close>

inductive strategy_step :: "(nat \<Rightarrow> u64 \<Rightarrow> 's \<Rightarrow> 's result) \<Rightarrow> 's strategy_state \<Rightarrow> 's strategy_state \<Rightarrow> bool" for f where
  consumed: "i < length (sy_remaining c) \<Longrightarrow> sy_remaining c ! i = scenario # rest \<Longrightarrow> f i scenario (sy_shared c) = Inr s \<Longrightarrow>
     strategy_step f c (c\<lparr>sy_remaining := (sy_remaining c)[i := rest], sy_shared := s\<rparr>)"
| failed: "i < length (sy_remaining c) \<Longrightarrow> sy_remaining c ! i = scenario # rest \<Longrightarrow> f i scenario (sy_shared c) = Inl e \<Longrightarrow>
     strategy_step f c (c\<lparr>sy_remaining := (sy_remaining c)[i := []],
       sy_first_error := (if sy_first_error c = None then Some e else sy_first_error c)\<rparr>)"

definition workers_done :: "'s strategy_state \<Rightarrow> bool" where
  "workers_done c \<longleftrightarrow> set (sy_remaining c) \<subseteq> {[]}"

definition run_static_workers ::
  "libm \<Rightarrow> run_spec \<Rightarrow> u64 \<Rightarrow> (gbm_kernel \<Rightarrow> nat \<Rightarrow> u64 \<Rightarrow> 's \<Rightarrow> 's result) \<Rightarrow> 's \<Rightarrow> 's result \<Rightarrow> bool" where
  "run_static_workers L spec workers function s0 out \<longleftrightarrow>
     (case make_gbm_kernel L spec of
        Inl e \<Rightarrow> out = (if workers = 0 then Inr s0 else Inl e)
      | Inr k \<Rightarrow>
          (\<exists>c. (strategy_step (function k))\<^sup>*\<^sup>*
                 \<lparr>sy_remaining = static_slices spec workers, sy_shared = s0, sy_first_error = None\<rparr> c \<and>
             workers_done c \<and>
             out = (case sy_first_error c of Some e \<Rightarrow> Inl e | None \<Rightarrow> Inr (sy_shared c))))"

definition strategy_workers :: "run_spec \<Rightarrow> u64 \<Rightarrow> u64" where
  "strategy_workers spec requested_workers = min requested_workers (total_scenarios spec)"

definition add_payoff :: "libm \<Rightarrow> gbm_kernel \<Rightarrow> u64 \<Rightarrow> aggregate_stats \<Rightarrow> aggregate_stats result" where
  "add_payoff L k scenario aggregate = rbind (gbm_discounted_payoff L k scenario) (\<lambda>payoff. add_observation payoff aggregate)"

definition run_global_mutex :: "libm \<Rightarrow> run_spec \<Rightarrow> u64 \<Rightarrow> strategy_result result \<Rightarrow> bool" where
  "run_global_mutex L spec requested_workers out \<longleftrightarrow>
     (let workers = strategy_workers spec requested_workers
      in \<exists>r. run_static_workers L spec workers (\<lambda>k worker. add_payoff L k) empty_stats r \<and>
           out = rbind r (\<lambda>aggregate. Inr \<lparr>sg_mean = stats_mean aggregate, sg_workers_used = workers,
             sg_atomic_lock_free = False\<rparr>))"

text \<open>\<^verbatim>\<open>lock_free\<close> is what the platform answers; the compare-and-exchange loop adds atomically.\<close>

definition run_atomic_sum :: "libm \<Rightarrow> bool \<Rightarrow> run_spec \<Rightarrow> u64 \<Rightarrow> strategy_result result \<Rightarrow> bool" where
  "run_atomic_sum L lock_free spec requested_workers out \<longleftrightarrow>
     (let workers = strategy_workers spec requested_workers
      in \<exists>r. run_static_workers L spec workers
             (\<lambda>k worker scenario sum. rbind (gbm_discounted_payoff L k scenario) (\<lambda>payoff. Inr (fadd sum payoff))) zero64 r \<and>
           out = rbind r (\<lambda>sum. Inr \<lparr>sg_mean = fdiv sum (of_u64 (total_scenarios spec)), sg_workers_used = workers,
             sg_atomic_lock_free = lock_free\<rparr>))"

text \<open>Padding changes where the aggregates lie in memory, not their values.\<close>

definition add_local :: "libm \<Rightarrow> gbm_kernel \<Rightarrow> nat \<Rightarrow> u64 \<Rightarrow> aggregate_stats list \<Rightarrow> aggregate_stats list result" where
  "add_local L k worker scenario aggregates =
     rbind (add_payoff L k scenario (aggregates ! worker)) (\<lambda>a. Inr (aggregates[worker := a]))"

definition merge_locals :: "aggregate_stats list \<Rightarrow> aggregate_stats result" where
  "merge_locals aggregates = fold_result (\<lambda>a aggregate. merge_stats aggregate a) aggregates empty_stats"

definition run_worker_local :: "libm \<Rightarrow> run_spec \<Rightarrow> u64 \<Rightarrow> strategy_result result \<Rightarrow> bool" where
  "run_worker_local L spec requested_workers out \<longleftrightarrow>
     (let workers = strategy_workers spec requested_workers
      in \<exists>r. run_static_workers L spec workers (add_local L) (replicate (unat workers) empty_stats) r \<and>
           out = rbind r (\<lambda>aggregates. rbind (merge_locals aggregates) (\<lambda>aggregate.
             Inr \<lparr>sg_mean = stats_mean aggregate, sg_workers_used = workers, sg_atomic_lock_free = False\<rparr>)))"

definition run_deterministic_tree :: "libm \<Rightarrow> build_env \<Rightarrow> run_spec \<Rightarrow> u64 \<Rightarrow> u64 \<Rightarrow> strategy_result result \<Rightarrow> bool" where
  "run_deterministic_tree L env spec workers bsize out \<longleftrightarrow>
     (\<exists>r. run_parallel L env spec (default_engine_config\<lparr>worker_count := workers, block_size := bsize\<rparr>) r \<and>
        out = rbind r (\<lambda>res. Inr \<lparr>sg_mean = stats_mean (result_aggregate res), sg_workers_used = workers_used res,
          sg_atomic_lock_free = False\<rparr>))"

section \<open>The slices partition the scenarios\<close>

lemma static_start_nat:
  assumes "validate_run_spec spec = Inr ()" "unat workers \<le> 256" "unat worker \<le> 256"
  shows "unat (static_start spec workers worker) = unat (total_scenarios spec) * unat worker div unat workers"
proof -
  have "unat (total_scenarios spec) \<le> 2 ^ 40"
    using assms(1) by (auto simp: validate_run_spec_def kMaxScenarios_def word_less_nat_alt split: if_splits)
  then have "unat (total_scenarios spec) * unat worker \<le> 2 ^ 40 * 256" using assms(3) by (rule mult_le_mono)
  then show ?thesis unfolding static_start_def by (simp add: unat_div unat_mult_u64)
qed

lemma concat_ranges:
  "(\<And>i. i < n \<Longrightarrow> g i \<le> g (Suc i)) \<Longrightarrow> concat (map (\<lambda>i. [g i..<g (Suc i)]) [0..<n]) = [g 0..<g n]" for g :: "nat \<Rightarrow> nat"
proof (induction n)
  case (Suc n)
  have "g 0 \<le> g n" using Suc.prems by (induction n) (auto intro: order_trans less_SucI)
  then have "[g 0..<g n] @ [g n..<g (Suc n)] = [g 0..<g (Suc n)]"
    using Suc.prems [of n] upt_add_eq_append [of "g 0" "g n" "g (Suc n) - g n"] by simp
  then show ?case using Suc by simp
qed simp

text \<open>The parts of the workers are the scenarios of the run in order, each once, without overflow.\<close>

theorem static_slices_partition:
  assumes "validate_run_spec spec = Inr ()" "0 < unat workers" "unat workers \<le> 256"
  shows "concat (static_slices spec workers) = map of_nat [0..<unat (total_scenarios spec)]"
proof -
  let ?T = "unat (total_scenarios spec)" and ?n = "unat workers"
  let ?g = "\<lambda>i. ?T * i div ?n"
  have start: "unat (static_start spec workers (of_nat i)) = ?g i" if "i \<le> ?n" for i
  proof -
    have "unat (of_nat i :: u64) = i" using that assms(3) by (intro unat_of_nat_u64) simp
    then show ?thesis using static_start_nat [OF assms(1,3), of "of_nat i"] that assms(3) by simp
  qed
  have slice: "static_slice spec workers (of_nat i) = map of_nat [?g i..<?g (Suc i)]" if "i < ?n" for i
    using start [of i] start [of "Suc i"] that by (simp add: static_slice_def add.commute)
  have "concat (static_slices spec workers) = concat (map (\<lambda>i. map of_nat [?g i..<?g (Suc i)]) [0..<?n])"
    unfolding static_slices_def by (intro arg_cong [of _ _ concat] map_cong) (auto simp: slice)
  also have "\<dots> = map of_nat (concat (map (\<lambda>i. [?g i..<?g (Suc i)]) [0..<?n]))" by (simp add: map_concat comp_def)
  also have "concat (map (\<lambda>i. [?g i..<?g (Suc i)]) [0..<?n]) = [?g 0..<?g ?n]"
    by (rule concat_ranges) (simp add: div_le_mono)
  finally show ?thesis using assms(2) by simp
qed

section \<open>Every scenario is consumed once\<close>

inductive_cases strategy_stepE: "strategy_step f c c'"

lemma step_keeps_error: "strategy_step f c c' \<Longrightarrow> sy_first_error c' = None \<Longrightarrow> sy_first_error c = None"
  by (erule strategy_stepE) (auto split: if_splits)

lemma concat_update:
  assumes "i < length xss" "xss ! i = x # rest"
  shows "mset (concat xss) = add_mset x (mset (concat (xss[i := rest])))"
proof -
  have "xss = take i xss @ (x # rest) # drop (Suc i) xss" using assms by (metis id_take_nth_drop)
  moreover have "xss[i := rest] = take i xss @ rest # drop (Suc i) xss" using assms(1) by (rule upd_conv_take_nth_drop)
  ultimately have "mset (concat xss) = mset (concat (take i xss @ (x # rest) # drop (Suc i) xss))"
    and "mset (concat (xss[i := rest])) = mset (concat (take i xss @ rest # drop (Suc i) xss))" by simp_all
  then show ?thesis by simp
qed

lemma steps_order:
  assumes "(strategy_step f)\<^sup>*\<^sup>* c0 c" "sy_first_error c = None"
  shows "\<exists>order. mset (map snd order) + mset (concat (sy_remaining c)) = mset (concat (sy_remaining c0)) \<and>
    fold_result (\<lambda>(i, x). f i x) order (sy_shared c0) = Inr (sy_shared c)"
  using assms
proof (induction rule: rtranclp_induct)
  case base
  then show ?case by (intro exI [of _ "[]"]) simp
next
  case (step c c')
  from step.IH [OF step_keeps_error [OF step.hyps(2) step.prems]] obtain order where
    order: "mset (map snd order) + mset (concat (sy_remaining c)) = mset (concat (sy_remaining c0))"
      "fold_result (\<lambda>(i, x). f i x) order (sy_shared c0) = Inr (sy_shared c)" by blast
  from step.hyps(2) show ?case
  proof cases
    case (consumed i x rest s)
    then show ?thesis
      using order concat_update [OF consumed(2,3)] by (intro exI [of _ "order @ [(i, x)]"]) (simp add: fold_result_append)
  next
    case (failed i x rest e)
    then show ?thesis using step.prems by (auto split: if_splits)
  qed
qed

text \<open>Whatever the interleaving, the shared strategies add every scenario exactly once, in some order.\<close>

theorem shared_strategies_complete:
  assumes "validate_run_spec spec = Inr ()" "0 < unat workers" "unat workers \<le> 256" "make_gbm_kernel L spec = Inr k"
    and "run_static_workers L spec workers function s0 (Inr s)"
  shows "\<exists>order. mset (map snd order) = mset (map of_nat [0..<unat (total_scenarios spec)]) \<and>
    fold_result (\<lambda>(i, x). function k i x) order s0 = Inr s"
proof -
  let ?c0 = "\<lparr>sy_remaining = static_slices spec workers, sy_shared = s0, sy_first_error = None\<rparr>"
  from assms(4,5) obtain c where c: "(strategy_step (function k))\<^sup>*\<^sup>* ?c0 c" "workers_done c" "sy_first_error c = None" "sy_shared c = s"
    by (auto simp: run_static_workers_def split: option.splits)
  have none: "mset (concat (sy_remaining c)) = {#}" using c(2) by (auto simp: workers_done_def)
  obtain order where o: "mset (map snd order) + mset (concat (sy_remaining c)) = mset (concat (sy_remaining ?c0))"
      "fold_result (\<lambda>(i, x). function k i x) order (sy_shared ?c0) = Inr (sy_shared c)"
    using steps_order [OF c(1,3)] by blast
  show ?thesis
    using o(2) o(1) [unfolded none] static_slices_partition [OF assms(1-3)] c(4) by (intro exI [of _ order]) simp
qed

section \<open>One aggregate per worker is deterministic\<close>

lemma local_steps:
  assumes "(strategy_step (add_local L k))\<^sup>*\<^sup>* c0 c" "sy_first_error c = None"
    and "length (sy_shared c0) = length (sy_remaining c0)"
  shows "length (sy_remaining c) = length (sy_remaining c0) \<and> length (sy_shared c) = length (sy_remaining c0) \<and>
    (\<forall>i < length (sy_remaining c0). \<exists>finished. finished @ sy_remaining c ! i = sy_remaining c0 ! i \<and>
       fold_result (add_payoff L k) finished (sy_shared c0 ! i) = Inr (sy_shared c ! i))"
  using assms(1,2)
proof (induction rule: rtranclp_induct)
  case base
  then show ?case using assms(3) by simp
next
  case (step c c')
  note IH = step.IH [OF step_keeps_error [OF step.hyps(2) step.prems]]
  from step.hyps(2) show ?case
  proof cases
    case (consumed i x rest s)
    obtain a where a: "add_payoff L k x (sy_shared c ! i) = Inr a" "s = (sy_shared c)[i := a]"
      using consumed(4) by (auto simp: add_local_def)
    have "\<exists>finished. finished @ (sy_remaining c)[i := rest] ! j = sy_remaining c0 ! j \<and>
        fold_result (add_payoff L k) finished (sy_shared c0 ! j) = Inr (s ! j)" if j: "j < length (sy_remaining c0)" for j
    proof -
      obtain finished where f: "finished @ sy_remaining c ! j = sy_remaining c0 ! j"
          "fold_result (add_payoff L k) finished (sy_shared c0 ! j) = Inr (sy_shared c ! j)" using IH j by blast
      show ?thesis
      proof (cases "j = i")
        case True
        then show ?thesis using f a consumed IH j
          by (intro exI [of _ "finished @ [x]"]) (simp add: fold_result_append)
      next
        case False
        then show ?thesis using f a by auto
      qed
    qed
    then show ?thesis using consumed(1) IH a(2) by simp
  next
    case (failed i x rest e)
    then show ?thesis using step.prems by (auto split: if_splits)
  qed
qed

definition worker_local_reference :: "libm \<Rightarrow> gbm_kernel \<Rightarrow> run_spec \<Rightarrow> u64 \<Rightarrow> aggregate_stats result" where
  "worker_local_reference L k spec workers =
     rbind (map_result (\<lambda>xs. fold_result (add_payoff L k) xs empty_stats) (static_slices spec workers)) merge_locals"

text \<open>With one aggregate per worker the interleaving does not matter: the mean is that of the parts computed one
  after the other and merged in the order of the workers.\<close>

theorem worker_local_deterministic:
  assumes "make_gbm_kernel L spec = Inr k" "run_worker_local L spec requested (Inr r)"
  shows "\<exists>a. worker_local_reference L k spec (strategy_workers spec requested) = Inr a \<and> sg_mean r = stats_mean a"
proof -
  let ?n = "strategy_workers spec requested"
  let ?c0 = "\<lparr>sy_remaining = static_slices spec ?n, sy_shared = replicate (unat ?n) empty_stats, sy_first_error = None\<rparr>"
  obtain c a where c: "(strategy_step (add_local L k))\<^sup>*\<^sup>* ?c0 c" "workers_done c" "sy_first_error c = None"
    and a: "merge_locals (sy_shared c) = Inr a" "sg_mean r = stats_mean a"
    using assms by (auto simp: run_worker_local_def run_static_workers_def Let_def eq_commute [of "Inr r"] split: option.splits)
  have n: "length (static_slices spec ?n) = unat ?n" by (simp add: static_slices_def)
  note local = local_steps [OF c(1,3), simplified, OF n [symmetric]]
  have "map_result (\<lambda>xs. fold_result (add_payoff L k) xs empty_stats) (static_slices spec ?n) = Inr (sy_shared c)"
    unfolding map_result_Inr
  proof (intro conjI allI impI)
    show "length (static_slices spec ?n) = length (sy_shared c)" using local by simp
    fix i assume i: "i < length (static_slices spec ?n)"
    then have "sy_remaining c ! i \<in> set (sy_remaining c)" using local by simp
    then have "sy_remaining c ! i = []" using c(2) by (auto simp: workers_done_def)
    then show "fold_result (add_payoff L k) (static_slices spec ?n ! i) empty_stats = Inr (sy_shared c ! i)"
      using local i n by fastforce
  qed
  then show ?thesis using a by (simp add: worker_local_reference_def)
qed

end
