(* ===== verification/Rng_Export.thy ===== *)
theory Rng_Export
  imports Number_Text Codec
begin

text \<open>
  The tool that writes a stream of the generator for external statistical tests
  (\<^verbatim>\<open>tools/export_rng_stream.cpp\<close>): its arguments, the check of the requested range and the stream.
\<close>

section \<open>Model\<close>

datatype output_format = LittleEndianU64 | Hex

record export_options =
  xo_words :: u64
  xo_seed :: u64
  xo_scenario_start :: u64
  xo_time_step :: u32
  xo_dimension_start :: u32
  xo_dimensions :: u32
  xo_draw_index :: u32
  xo_format :: output_format

definition default_export_options :: export_options where
  "default_export_options = \<lparr>xo_words = 2 ^ 20, xo_seed = 1, xo_scenario_start = 0, xo_time_step = 0,
     xo_dimension_start = 0, xo_dimensions = 1, xo_draw_index = 0, xo_format = LittleEndianU64\<rparr>"

definition parse_u32_field :: "string \<Rightarrow> string \<Rightarrow> u64 \<Rightarrow> u32 result" where
  "parse_u32_field text name maximum =
     rbind (parse_u64 text name) (\<lambda>value.
       if maximum < value then Inl (Invalid_argument (name @ '' exceeds RNG layout v1'')) else Inr (ucast value))"

definition max24 :: u64 where "max24 = 2 ^ 24 - 1"

text \<open>An option with a value; \<^verbatim>\<open>None\<close> when the name is not one of them.\<close>

definition set_export_option :: "string \<Rightarrow> string \<Rightarrow> export_options \<Rightarrow> export_options result option" where
  "set_export_option argument value opts =
     (if argument = ''--words'' then Some (rbind (parse_u64 value ''words'') (\<lambda>v. Inr (opts\<lparr>xo_words := v\<rparr>)))
      else if argument = ''--seed'' then Some (rbind (parse_u64 value ''seed'') (\<lambda>v. Inr (opts\<lparr>xo_seed := v\<rparr>)))
      else if argument = ''--scenario-start''
      then Some (rbind (parse_u64 value ''scenario-start'') (\<lambda>v. Inr (opts\<lparr>xo_scenario_start := v\<rparr>)))
      else if argument = ''--time-step''
      then Some (rbind (parse_u32_field value ''time-step'' max24) (\<lambda>v. Inr (opts\<lparr>xo_time_step := v\<rparr>)))
      else if argument = ''--dimension-start''
      then Some (rbind (parse_u32_field value ''dimension-start'' 255) (\<lambda>v. Inr (opts\<lparr>xo_dimension_start := v\<rparr>)))
      else if argument = ''--dimensions''
      then Some (rbind (parse_u32_field value ''dimensions'' 256) (\<lambda>v. Inr (opts\<lparr>xo_dimensions := v\<rparr>)))
      else if argument = ''--draw-index''
      then Some (rbind (parse_u32_field value ''draw-index'' max24) (\<lambda>v. Inr (opts\<lparr>xo_draw_index := v\<rparr>)))
      else if argument = ''--format''
      then Some (if value = ''le64'' then Inr (opts\<lparr>xo_format := LittleEndianU64\<rparr>)
                 else if value = ''hex'' then Inr (opts\<lparr>xo_format := Hex\<rparr>)
                 else Inl (Invalid_argument ''format must be le64 or hex''))
      else None)"

text \<open>The loop over the arguments; \<^verbatim>\<open>None\<close> stands for \<^verbatim>\<open>--help\<close>.  A name is looked up before its value is
  required.\<close>

fun parse_export_arguments :: "string list \<Rightarrow> export_options \<Rightarrow> export_options option result" where
  "parse_export_arguments [] opts = Inr (Some opts)"
| "parse_export_arguments (argument # rest) opts =
     (if argument = ''--help'' then Inr None
      else if set_export_option argument [] opts = None
      then Inl (Invalid_argument (''unknown argument: '' @ argument))
      else case rest of
             [] \<Rightarrow> Inl (Invalid_argument (''missing value for '' @ argument))
           | value # rest' \<Rightarrow>
               (case set_export_option argument value opts of
                  None \<Rightarrow> Inl (Invalid_argument (''unknown argument: '' @ argument))
                | Some r \<Rightarrow> rbind r (parse_export_arguments rest')))"

definition check_export_range :: "export_options \<Rightarrow> unit result" where
  "check_export_range opts =
     (if xo_words opts = 0 then Inl (Invalid_argument ''words must be positive'')
      else if xo_dimensions opts = 0 \<or> 256 - xo_dimensions opts < xo_dimension_start opts
      then Inl (Invalid_argument ''dimension range exceeds RNG layout v1's 8-bit field'')
      else
        (let scenarios_used = 1 + (xo_words opts - 1) div ucast (xo_dimensions opts)
         in if kMaxScenarios \<le> xo_scenario_start opts \<or> kMaxScenarios - xo_scenario_start opts < scenarios_used
            then Inl (Invalid_argument ''requested stream exceeds RNG layout v1's scenario field'')
            else Inr ()))"

definition export_scenario :: "export_options \<Rightarrow> u64 \<Rightarrow> u64" where
  "export_scenario opts index = xo_scenario_start opts + index div ucast (xo_dimensions opts)"

definition export_dimension :: "export_options \<Rightarrow> u64 \<Rightarrow> u32" where
  "export_dimension opts index = xo_dimension_start opts + ucast (index mod ucast (xo_dimensions opts))"

definition write_little_endian :: "u64 \<Rightarrow> bytes" where
  "write_little_endian word = map (\<lambda>i. ucast (drop_bit (8 * i) word)) [0..<8]"

definition write_hex :: "u64 \<Rightarrow> bytes" where
  "write_hex word =
     (let text = hexadecimal (unat word) in string_bytes (replicate (16 - length text) CHR ''0'' @ text @ [CHR 0x0A]))"

definition export_word :: "export_options \<Rightarrow> u64 \<Rightarrow> bytes result" where
  "export_word opts index =
     rbind (random_u64 (xo_seed opts) (export_scenario opts index) (xo_time_step opts) (export_dimension opts index) (xo_draw_index opts)) (\<lambda>word.
       Inr (case xo_format opts of Hex \<Rightarrow> write_hex word | LittleEndianU64 \<Rightarrow> write_little_endian word))"

definition export_stream :: "export_options \<Rightarrow> bytes result" where
  "export_stream opts =
     fold_result (\<lambda>index output. rbind (export_word opts (of_nat index)) (\<lambda>bs. Inr (output @ bs))) [0..<unat (xo_words opts)] []"

definition export_help :: string where
  "export_help =
     ''Usage: export_rng_stream [options]'' @ [CHR 0x0A] @
     ''  --words N             64-bit words to emit (default 1048576)'' @ [CHR 0x0A] @
     ''  --seed N              global Philox key (default 1)'' @ [CHR 0x0A] @
     ''  --scenario-start N    first logical scenario (default 0)'' @ [CHR 0x0A] @
     ''  --time-step N         fixed logical time step (default 0)'' @ [CHR 0x0A] @
     ''  --dimension-start N   first logical dimension (default 0)'' @ [CHR 0x0A] @
     ''  --dimensions N        dimensions interleaved per scenario (default 1)'' @ [CHR 0x0A] @
     ''  --draw-index N        fixed logical draw index (default 0)'' @ [CHR 0x0A] @
     ''  --format TYPE         le64 or hex (default le64)'' @ [CHR 0x0A] @
     ''  --help                show this message'' @ [CHR 0x0A]"

text \<open>\<^verbatim>\<open>main\<close>: the bytes written, or the exception its handler reports with exit code 1.  The flag says
  whether the standard output took all of it.\<close>

definition export_main :: "string list \<Rightarrow> bool \<Rightarrow> bytes result" where
  "export_main arguments written =
     rbind (parse_export_arguments arguments default_export_options) (\<lambda>parsed.
     case parsed of
       None \<Rightarrow> Inr (string_bytes export_help)
     | Some opts \<Rightarrow>
         rbind (check_export_range opts) (\<lambda>_.
         rbind (export_stream opts) (\<lambda>output.
         if \<not> written then Inl (Runtime_error ''failed to write RNG stream'') else Inr output)))"

section \<open>The range\<close>

lemma parse_u32_field_Inr: "parse_u32_field text name maximum = Inr v \<Longrightarrow> unat maximum < 2 ^ 32 \<Longrightarrow> unat v \<le> unat maximum"
  by (auto simp: parse_u32_field_def word_less_nat_alt not_less unsigned_ucast_eq take_bit_eq_mod split: if_splits)

text \<open>The fields the parser bounds.\<close>

definition export_fields_ok :: "export_options \<Rightarrow> bool" where
  "export_fields_ok opts \<longleftrightarrow> unat (xo_time_step opts) < 2 ^ 24 \<and> unat (xo_draw_index opts) < 2 ^ 24 \<and>
     unat (xo_dimension_start opts) < 2 ^ 8 \<and> unat (xo_dimensions opts) \<le> 2 ^ 8"

lemma set_export_option_ok:
  "set_export_option a v opts = Some (Inr opts') \<Longrightarrow> export_fields_ok opts \<Longrightarrow> export_fields_ok opts'"
  using parse_u32_field_Inr [of v _ max24] parse_u32_field_Inr [of v _ 255] parse_u32_field_Inr [of v _ 256]
  by (auto simp: set_export_option_def export_fields_ok_def max24_def split: if_splits) fastforce+

lemma parse_export_ok:
  "parse_export_arguments args opts = Inr (Some opts') \<Longrightarrow> export_fields_ok opts \<Longrightarrow> export_fields_ok opts'"
proof (induction args opts rule: parse_export_arguments.induct)
  case (2 argument rest opts)
  show ?case
  proof (cases rest)
    case (Cons v rest')
    then obtain next_opts where n: "set_export_option argument v opts = Some (Inr next_opts)"
        "parse_export_arguments rest' next_opts = Inr (Some opts')"
      using 2(2) by (auto split: if_splits option.splits)
    then show ?thesis using 2 Cons set_export_option_ok [OF n(1)] by (auto split: if_splits)
  qed (use 2 in \<open>auto split: if_splits\<close>)
qed simp

lemma export_range_unat:
  assumes r: "check_export_range opts = Inr ()" and f: "export_fields_ok opts"
  shows "0 < unat (xo_dimensions opts)" "unat (xo_dimension_start opts) + unat (xo_dimensions opts) \<le> 256"
    "unat (xo_scenario_start opts) + (1 + (unat (xo_words opts) - 1) div unat (xo_dimensions opts)) \<le> 2 ^ 40"
    "0 < unat (xo_words opts)"
proof -
  let ?d = "xo_dimensions opts"
  have c: "xo_words opts \<noteq> 0" "?d \<noteq> 0" "\<not> 256 - ?d < xo_dimension_start opts" "\<not> kMaxScenarios \<le> xo_scenario_start opts"
    "\<not> kMaxScenarios - xo_scenario_start opts < 1 + (xo_words opts - 1) div ucast ?d"
    using r by (auto simp: check_export_range_def Let_def split: if_splits)
  show d: "0 < unat ?d" and w: "0 < unat (xo_words opts)" using c(1,2) by (simp_all add: unat_gt_0)
  have le: "?d \<le> 256" using f by (simp add: export_fields_ok_def word_le_nat_alt)
  then have "unat (256 - ?d) = 256 - unat ?d" by (simp add: unat_sub)
  moreover have "unat ?d \<le> 256" using f by (simp add: export_fields_ok_def)
  ultimately show "unat (xo_dimension_start opts) + unat ?d \<le> 256" using c(3) by (simp add: word_less_nat_alt)
  have s: "unat (xo_scenario_start opts) < 2 ^ 40" using c(4) by (simp add: kMaxScenarios_def word_le_nat_alt)
  have room: "unat (kMaxScenarios - xo_scenario_start opts) = 2 ^ 40 - unat (xo_scenario_start opts)"
    using c(4) by (subst unat_sub_u64) (simp_all add: kMaxScenarios_def)
  have w1: "unat (xo_words opts - 1) = unat (xo_words opts) - 1" using w by (subst unat_sub_u64) (simp_all add: word_le_nat_alt Suc_le_eq)
  let ?q = "(xo_words opts - 1) div ucast ?d"
  have q: "unat ?q = (unat (xo_words opts) - 1) div unat ?d" by (simp add: unat_div w1)
  show "unat (xo_scenario_start opts) + (1 + (unat (xo_words opts) - 1) div unat ?d) \<le> 2 ^ 40"
  proof (cases "unat ?q < 2 ^ 64 - 1")
    case True
    then have "unat (1 + ?q) = 1 + unat ?q" by (subst unat_add_u64) simp_all
    then show ?thesis using c(5) room s q by (simp add: word_less_nat_alt)
  next
    case False
    have "(unat (xo_words opts) - 1) div unat ?d \<le> unat (xo_words opts) - 1" by (rule div_le_dividend)
    moreover have "unat (xo_words opts) < 2 ^ 64" by simp
    ultimately have "unat (xo_words opts) - 1 < 2 ^ 64 - 1" using w by linarith
    then show ?thesis using False q \<open>_ \<le> unat (xo_words opts) - 1\<close> by linarith
  qed
qed

lemma export_coordinates:
  assumes r: "check_export_range opts = Inr ()" and f: "export_fields_ok opts" and i: "i < unat (xo_words opts)"
  shows "unat (export_scenario opts (of_nat i)) = unat (xo_scenario_start opts) + i div unat (xo_dimensions opts)"
    "unat (export_dimension opts (of_nat i)) = unat (xo_dimension_start opts) + i mod unat (xo_dimensions opts)"
    "unat (export_scenario opts (of_nat i)) < 2 ^ 40" "unat (export_dimension opts (of_nat i)) < 2 ^ 8"
proof -
  let ?d = "xo_dimensions opts"
  note e = export_range_unat [OF r f]
  have "unat (xo_words opts) < 2 ^ 64" by simp
  then have ui: "unat (of_nat i :: u64) = i" using i by (intro unat_of_nat_u64) linarith
  have "i div unat ?d \<le> (unat (xo_words opts) - 1) div unat ?d" using i by (intro div_le_mono) simp
  then have s: "unat (xo_scenario_start opts) + i div unat ?d < 2 ^ 40" using e(3) by linarith
  then show sc: "unat (export_scenario opts (of_nat i)) = unat (xo_scenario_start opts) + i div unat ?d"
    unfolding export_scenario_def by (subst unat_add_u64) (simp_all add: unat_div ui)
  show "unat (export_scenario opts (of_nat i)) < 2 ^ 40" unfolding sc by (rule s)
  have m: "i mod unat ?d < unat ?d" using e(1) by simp
  have b: "unat ?d \<le> 256" using e(2) by linarith
  have "unat (ucast ((of_nat i :: u64) mod ucast ?d) :: u32) = i mod unat ?d"
    using m b by (simp add: unsigned_ucast_eq take_bit_eq_mod unat_mod ui)
  moreover have t: "unat (xo_dimension_start opts) + i mod unat ?d < 256" using e(2) m by linarith
  ultimately show dm: "unat (export_dimension opts (of_nat i)) = unat (xo_dimension_start opts) + i mod unat ?d"
    unfolding export_dimension_def by (subst unat_add_lem [THEN iffD1]) simp_all
  show "unat (export_dimension opts (of_nat i)) < 2 ^ 8" unfolding dm using t by simp
qed

lemma export_word_total:
  assumes "check_export_range opts = Inr ()" "export_fields_ok opts" "i < unat (xo_words opts)"
  shows "\<exists>bs. export_word opts (of_nat i) = Inr bs \<and> length bs = (case xo_format opts of Hex \<Rightarrow> 17 | LittleEndianU64 \<Rightarrow> 8)"
proof -
  note c = export_coordinates [OF assms]
  have "\<exists>k. pack_counter_v1 (export_scenario opts (of_nat i)) (xo_time_step opts) (export_dimension opts (of_nat i)) (xo_draw_index opts) = Inr k"
    using c(3,4) assms(2) by (intro pack_counter_v1_total) (simp_all add: export_fields_ok_def)
  then obtain k where k: "pack_counter_v1 (export_scenario opts (of_nat i)) (xo_time_step opts) (export_dimension opts (of_nat i)) (xo_draw_index opts) = Inr k"
    by blast
  obtain w0 w1 w2 w3 where "philox4x32_10 k (ucast (xo_seed opts), ucast (drop_bit 32 (xo_seed opts))) = (w0, w1, w2, w3)"
    by (metis prod_cases4)
  with k obtain w where "random_u64 (xo_seed opts) (export_scenario opts (of_nat i)) (xo_time_step opts)
      (export_dimension opts (of_nat i)) (xo_draw_index opts) = Inr w"
    by (simp add: random_u64_def)
  moreover have "length (hexadecimal (unat w)) \<le> 16" for w :: u64
    using hexadecimal_pad [of "unat w" 16] by simp
  ultimately show ?thesis
    by (auto simp: export_word_def write_hex_def write_little_endian_def Let_def split: output_format.splits)
qed

lemma stream_prefix:
  assumes "check_export_range opts = Inr ()" "export_fields_ok opts" "n \<le> unat (xo_words opts)"
  shows "\<exists>out. fold_result (\<lambda>index output. rbind (export_word opts (of_nat index)) (\<lambda>bs. Inr (output @ bs))) [0..<n] [] = Inr out \<and>
    length out = n * (case xo_format opts of Hex \<Rightarrow> 17 | LittleEndianU64 \<Rightarrow> 8)"
  using assms(3)
proof (induction n)
  case (Suc n)
  then obtain out where "fold_result (\<lambda>index output. rbind (export_word opts (of_nat index)) (\<lambda>bs. Inr (output @ bs))) [0..<n] [] = Inr out"
      "length out = n * (case xo_format opts of Hex \<Rightarrow> 17 | LittleEndianU64 \<Rightarrow> 8)" by auto
  moreover obtain bs where "export_word opts (of_nat n) = Inr bs" "length bs = (case xo_format opts of Hex \<Rightarrow> 17 | LittleEndianU64 \<Rightarrow> 8)"
    using export_word_total [OF assms(1,2)] Suc.prems by (metis Suc_le_lessD)
  ultimately show ?case by (simp add: fold_result_append del: rbind_eq_Inr)
qed simp

lemma default_export_fields: "export_fields_ok default_export_options"
  by (simp add: export_fields_ok_def default_export_options_def)

section \<open>Properties\<close>

text \<open>The exported stream is complete and never repeats a draw: for arguments that the tool accepts,
  every word is drawn without leaving the fields of the counter layout, the output has 8 bytes (or 17
  characters) per word, and two different positions of the stream use different (scenario, dimension)
  coordinates.\<close>

theorem export_stream_complete:
  assumes "parse_export_arguments arguments default_export_options = Inr (Some opts)" "check_export_range opts = Inr ()"
  shows "(\<exists>out. export_main arguments True = Inr out \<and>
      length out = unat (xo_words opts) * (case xo_format opts of Hex \<Rightarrow> 17 | LittleEndianU64 \<Rightarrow> 8)) \<and>
    inj_on (\<lambda>i. (export_scenario opts (of_nat i), export_dimension opts (of_nat i))) {..<unat (xo_words opts)}"
proof
  have f: "export_fields_ok opts" by (rule parse_export_ok [OF assms(1) default_export_fields])
  from stream_prefix [OF assms(2) f order_refl] assms
  show "\<exists>out. export_main arguments True = Inr out \<and>
      length out = unat (xo_words opts) * (case xo_format opts of Hex \<Rightarrow> 17 | LittleEndianU64 \<Rightarrow> 8)"
    by (auto simp: export_main_def export_stream_def)
  show "inj_on (\<lambda>i. (export_scenario opts (of_nat i), export_dimension opts (of_nat i))) {..<unat (xo_words opts)}"
  proof (rule inj_onI)
    fix i j
    assume ij: "i \<in> {..<unat (xo_words opts)}" "j \<in> {..<unat (xo_words opts)}"
      and e: "(export_scenario opts (of_nat i), export_dimension opts (of_nat i)) = (export_scenario opts (of_nat j), export_dimension opts (of_nat j))"
    have "i div unat (xo_dimensions opts) = j div unat (xo_dimensions opts)" "i mod unat (xo_dimensions opts) = j mod unat (xo_dimensions opts)"
      using export_coordinates(1,2) [OF assms(2) f, of i] export_coordinates(1,2) [OF assms(2) f, of j] ij e by auto
    then show "i = j" by (metis div_mult_mod_eq)
  qed
qed

theorem export_stream_complete_witness:
  "\<exists>out. export_main [''--words'', ''3'', ''--dimensions'', ''2'', ''--format'', ''hex''] True = Inr out \<and> length out = 51"
proof -
  let ?args = "[''--words'', ''3'', ''--dimensions'', ''2'', ''--format'', ''hex'']"
  let ?opts = "default_export_options\<lparr>xo_words := 3, xo_dimensions := 2, xo_format := Hex\<rparr>"
  have d: "parse_u64 ''3'' f = Inr 3" "parse_u64 ''2'' f = Inr 2" for f
    using parse_u64_decimal [of 3 f] parse_u64_decimal [of 2 f] by (simp_all add: decimal.simps char_of_def bit_0)
  have a: "parse_export_arguments ?args default_export_options = Inr (Some ?opts)"
    by (simp add: set_export_option_def d parse_u32_field_def)
  have b: "check_export_range ?opts = Inr ()"
    by (simp add: check_export_range_def default_export_options_def kMaxScenarios_def)
  from export_stream_complete [OF a b] show ?thesis by simp
qed

end
