(* ===== verification/Decimal_Text.thy ===== *)
theory Decimal_Text
  imports Number_Text
begin

text \<open>
  Decimal fractions as text: \<^verbatim>\<open>parse_finite_double\<close> of \<^verbatim>\<open>src/parse.cpp\<close>, which extracts a \<^verbatim>\<open>double\<close> from a string stream
  in the classic locale, and the fixed notation with twelve places in which the tools print one.  The
  conversion is the correctly rounded one of the C library; the theorems describe the accepted texts and
  show that the value is a double nearest to the number that is written.
\<close>

section \<open>Extraction\<close>

definition scan_sign :: "string \<Rightarrow> bool \<times> string" where
  "scan_sign text =
     (case text of
        [] \<Rightarrow> (False, [])
      | c # rest \<Rightarrow> if c = CHR ''-'' then (True, rest) else if c = CHR ''+'' then (False, rest) else (False, text))"

definition scan_digits :: "string \<Rightarrow> string \<times> string" where
  "scan_digits text = (takeWhile (is_digit 10) text, dropWhile (is_digit 10) text)"

definition scan_fraction :: "string \<Rightarrow> string \<times> string" where
  "scan_fraction text =
     (case text of [] \<Rightarrow> ([], []) | c # rest \<Rightarrow> if c = CHR ''.'' then scan_digits rest else ([], text))"

text \<open>The exponent; \<^verbatim>\<open>None\<close> when its digits are missing, which makes the extraction fail.\<close>

definition scan_exponent :: "string \<Rightarrow> (int \<times> string) option" where
  "scan_exponent text =
     (case text of
        [] \<Rightarrow> Some (0, [])
      | c # rest \<Rightarrow>
          if c = CHR ''e'' \<or> c = CHR ''E''
          then (case scan_sign rest of (negative, rest) \<Rightarrow>
                  (case scan_digits rest of (ds, rest) \<Rightarrow>
                     if ds = [] then None
                     else Some (if negative then - int (text_value 10 ds) else int (text_value 10 ds), rest)))
          else Some (0, text))"

text \<open>The field a stream extraction accumulates, if it takes the whole text: sign, digits as one integer, and the
  power of ten that scales it.\<close>

definition scan_float :: "string \<Rightarrow> (bool \<times> nat \<times> int) option" where
  "scan_float text =
     (case scan_sign text of (negative, rest) \<Rightarrow>
      case scan_digits rest of (ip, rest) \<Rightarrow>
      case scan_fraction rest of (fp, rest) \<Rightarrow>
        if ip = [] \<and> fp = [] then None
        else case scan_exponent rest of
               None \<Rightarrow> None
             | Some (x, rest) \<Rightarrow>
                 if rest \<noteq> [] then None else Some (negative, text_value 10 (ip @ fp), x - int (length fp)))"

text \<open>The double nearest to \<open>m \<cdot> 10\<^sup>e\<close>, ties to even.\<close>

definition decimal_double :: "bool \<Rightarrow> nat \<Rightarrow> int \<Rightarrow> double" where
  "decimal_double negative m e =
     mk_double negative
       (if 0 \<le> e then round_units (m * 10 ^ nat e * unit_scale) 1
        else round_units (m * unit_scale) (10 ^ nat (- e)))"

definition parse_finite_double :: "string \<Rightarrow> string \<Rightarrow> double result" where
  "parse_finite_double text field_name =
     (if text = [] then Inl (parse_error field_name ''expected a finite decimal number'')
      else case scan_float text of
             None \<Rightarrow> Inl (parse_error field_name ''expected a finite decimal number with no trailing text'')
           | Some (negative, m, e) \<Rightarrow>
               (let v = decimal_double negative m e
                in if \<not> isfinite v
                   then Inl (parse_error field_name ''expected a finite decimal number with no trailing text'')
                   else Inr v))"

section \<open>Fixed notation\<close>

definition pad_left :: "nat \<Rightarrow> string \<Rightarrow> string" where
  "pad_left width digits = replicate (width - length digits) CHR ''0'' @ digits"

text \<open>\<^verbatim>\<open>std::fixed << std::setprecision(places)\<close>.\<close>

definition fixed_text :: "nat \<Rightarrow> double \<Rightarrow> string" where
  "fixed_text places d =
     (if isnan d then (if signbit d then ''-nan'' else ''nan'')
      else (if signbit d then ''-'' else '''') @
        (if isinf d then ''inf''
         else
           (let scaled = rhe (mag_units (mag d) * 10 ^ places) unit_scale
            in decimal (scaled div 10 ^ places) @ ''.'' @ pad_left places (decimal (scaled mod 10 ^ places)))))"

section \<open>The accepted texts\<close>

definition sign_text :: "bool \<Rightarrow> string \<Rightarrow> bool" where
  "sign_text negative s \<longleftrightarrow> (if negative then s = ''-'' else s = [] \<or> s = ''+'')"

definition point_text :: "string \<Rightarrow> string \<Rightarrow> bool" where
  "point_text fp s \<longleftrightarrow> s = CHR ''.'' # fp \<or> (fp = [] \<and> s = [])"

definition exponent_text :: "int \<Rightarrow> string \<Rightarrow> bool" where
  "exponent_text x s \<longleftrightarrow>
     (s = [] \<and> x = 0) \<or>
     (\<exists>c negative sg ds. s = c # sg @ ds \<and> (c = CHR ''e'' \<or> c = CHR ''E'') \<and> sign_text negative sg \<and> ds \<noteq> [] \<and>
        list_all (is_digit 10) ds \<and> x = (if negative then - int (text_value 10 ds) else int (text_value 10 ds)))"

definition float_numeral :: "bool \<Rightarrow> nat \<Rightarrow> int \<Rightarrow> string \<Rightarrow> bool" where
  "float_numeral negative m e text \<longleftrightarrow>
     (\<exists>sg ip fp p xs x. text = sg @ ip @ p @ xs \<and> sign_text negative sg \<and> list_all (is_digit 10) ip \<and>
        list_all (is_digit 10) fp \<and> point_text fp p \<and> exponent_text x xs \<and> ip @ fp \<noteq> [] \<and>
        m = text_value 10 (ip @ fp) \<and> e = x - int (length fp))"

lemma not_digits [simp]:
  "\<not> is_digit 10 CHR ''-''" "\<not> is_digit 10 CHR ''+''" "\<not> is_digit 10 CHR ''.''" "\<not> is_digit 10 CHR ''e''"
  "\<not> is_digit 10 CHR ''E''"
  by (simp_all add: is_digit_def digit_value_def)

lemma scan_digits_append:
  assumes "list_all (is_digit 10) ds" "rest = [] \<or> \<not> is_digit 10 (hd rest)"
  shows "scan_digits (ds @ rest) = (ds, rest)"
proof -
  have "takeWhile (is_digit 10) rest = []" "dropWhile (is_digit 10) rest = rest"
    using assms(2) by (cases rest; simp)+
  then show ?thesis using assms(1) by (simp add: scan_digits_def list_all_iff)
qed

lemma scan_digits_split:
  assumes "scan_digits text = (ds, rest)"
  shows "text = ds @ rest \<and> list_all (is_digit 10) ds"
  using assms by (auto simp: scan_digits_def list_all_iff dest: set_takeWhileD)

lemma scan_sign_append:
  assumes "sign_text negative sg" "rest = [] \<or> (hd rest \<noteq> CHR ''-'' \<and> hd rest \<noteq> CHR ''+'')"
  shows "scan_sign (sg @ rest) = (negative, rest)"
  using assms by (cases rest) (auto simp: scan_sign_def sign_text_def split: if_splits)

lemma scan_sign_split:
  assumes "scan_sign text = (negative, rest)"
  shows "\<exists>sg. text = sg @ rest \<and> sign_text negative sg"
  using assms by (cases "text") (auto simp: scan_sign_def sign_text_def split: if_splits)

lemma scan_fraction_split:
  assumes "scan_fraction text = (fp, rest)"
  shows "\<exists>p. text = p @ rest \<and> list_all (is_digit 10) fp \<and> point_text fp p"
proof (cases "text")
  case (Cons c t)
  then show ?thesis
    using assms scan_digits_split [of t fp rest]
    by (cases "c = CHR ''.''") (auto simp: scan_fraction_def point_text_def intro: exI [of _ "[]"])
qed (use assms in \<open>auto simp: scan_fraction_def point_text_def\<close>)

lemma scan_exponent_split:
  assumes "scan_exponent text = Some (x, rest)"
  shows "\<exists>xs. text = xs @ rest \<and> exponent_text x xs"
proof (cases "text")
  case (Cons c t)
  show ?thesis
  proof (cases "c = CHR ''e'' \<or> c = CHR ''E''")
    case True
    obtain negative t1 where s: "scan_sign t = (negative, t1)" by (cases "scan_sign t")
    obtain ds t2 where d: "scan_digits t1 = (ds, t2)" by (cases "scan_digits t1")
    from True s d assms Cons have e: "ds \<noteq> []" "t2 = rest"
      "x = (if negative then - int (text_value 10 ds) else int (text_value 10 ds))"
      by (auto simp: scan_exponent_def split: if_splits)
    obtain sg where "t = sg @ t1" "sign_text negative sg" using scan_sign_split [OF s] by blast
    then have "text = (c # sg @ ds) @ rest" using scan_digits_split [OF d] Cons e(2) by simp
    moreover have "exponent_text x (c # sg @ ds)"
      unfolding exponent_text_def using True e \<open>sign_text negative sg\<close> scan_digits_split [OF d] by blast
    ultimately show ?thesis by blast
  next
    case False
    then show ?thesis using assms Cons
      by (intro exI [of _ "[]"]) (auto simp: scan_exponent_def exponent_text_def)
  qed
qed (use assms in \<open>auto simp: scan_exponent_def exponent_text_def\<close>)

lemma scan_float_sound:
  assumes "scan_float text = Some (negative, m, e)"
  shows "float_numeral negative m e text"
proof -
  obtain n t1 where s: "scan_sign text = (n, t1)" by (cases "scan_sign text")
  obtain ip t2 where d: "scan_digits t1 = (ip, t2)" by (cases "scan_digits t1")
  obtain fp t3 where f: "scan_fraction t2 = (fp, t3)" by (cases "scan_fraction t2")
  from assms s d f obtain x where x: "scan_exponent t3 = Some (x, [])" "ip @ fp \<noteq> []" "n = negative"
    "m = text_value 10 (ip @ fp)" "e = x - int (length fp)"
    by (auto simp: scan_float_def split: if_splits option.splits)
  obtain sg where sg: "text = sg @ t1" "sign_text negative sg" using scan_sign_split [OF s] x(3) by blast
  obtain p where p: "t2 = p @ t3" "list_all (is_digit 10) fp" "point_text fp p" using scan_fraction_split [OF f] by blast
  obtain xs where xs: "t3 = xs" "exponent_text x xs" using scan_exponent_split [OF x(1)] by auto
  have "text = sg @ ip @ p @ xs" "list_all (is_digit 10) ip" using sg p xs scan_digits_split [OF d] by simp_all
  then show ?thesis unfolding float_numeral_def using sg(2) p(2,3) xs(2) x(2,4,5) by blast
qed

lemma exponent_head: "exponent_text x xs \<Longrightarrow> xs = [] \<or> hd xs = CHR ''e'' \<or> hd xs = CHR ''E''"
  by (auto simp: exponent_text_def)

lemma scan_exponent_complete: "exponent_text x xs \<Longrightarrow> scan_exponent xs = Some (x, [])"
proof -
  assume "exponent_text x xs"
  then consider "xs = []" "x = 0"
    | c negative sg ds where "xs = c # sg @ ds" "c = CHR ''e'' \<or> c = CHR ''E''" "sign_text negative sg" "ds \<noteq> []"
      "list_all (is_digit 10) ds" "x = (if negative then - int (text_value 10 ds) else int (text_value 10 ds))"
    unfolding exponent_text_def by blast
  then show ?thesis
  proof cases
    case 1
    then show ?thesis by (simp add: scan_exponent_def)
  next
    case 2
    have "hd ds \<noteq> CHR ''-''" "hd ds \<noteq> CHR ''+''" using 2(4,5) by (cases ds; auto)+
    then have "scan_sign (sg @ ds) = (negative, ds)" using 2(3) by (intro scan_sign_append) auto
    moreover have "scan_digits ds = (ds, [])" using scan_digits_append [OF 2(5), of "[]"] by simp
    ultimately show ?thesis using 2 by (simp add: scan_exponent_def)
  qed
qed

lemma scan_float_complete:
  assumes "float_numeral negative m e text"
  shows "scan_float text = Some (negative, m, e)"
proof -
  from assms obtain sg ip fp p xs x where t: "text = sg @ ip @ p @ xs" "sign_text negative sg"
    "list_all (is_digit 10) ip" "list_all (is_digit 10) fp" "point_text fp p" "exponent_text x xs" "ip @ fp \<noteq> []"
    "m = text_value 10 (ip @ fp)" "e = x - int (length fp)"
    unfolding float_numeral_def by blast
  note xs = exponent_head [OF t(6)]
  have x0: "xs = [] \<or> \<not> is_digit 10 (hd xs) \<and> hd xs \<noteq> CHR ''.''" using xs by auto
  have p0: "p @ xs = [] \<or> \<not> is_digit 10 (hd (p @ xs))" using t(5) x0 by (auto simp: point_text_def)
  have "hd (ip @ p @ xs) \<noteq> CHR ''-'' \<and> hd (ip @ p @ xs) \<noteq> CHR ''+''"
    using t(3,5,7) by (cases ip) (auto simp: point_text_def)
  then have sign: "scan_sign text = (negative, ip @ p @ xs)"
    unfolding t(1) by (intro scan_sign_append [OF t(2)]) simp
  have int: "scan_digits (ip @ p @ xs) = (ip, p @ xs)" by (rule scan_digits_append [OF t(3) p0])
  have frac: "scan_fraction (p @ xs) = (fp, xs)"
    using t(5) x0 scan_digits_append [OF t(4), of xs]
    by (cases xs) (auto simp: point_text_def scan_fraction_def)
  show ?thesis
    using t(7-9) by (simp add: scan_float_def sign int frac scan_exponent_complete [OF t(6)])
qed

section \<open>Rounding is to a nearest double\<close>

abbreviation gap :: "nat \<Rightarrow> nat \<Rightarrow> nat" where
  "gap a b \<equiv> (a - b) + (b - a)"

lemma rhe_nearest:
  assumes "0 < d"
  shows "gap (rhe n d * d) n \<le> gap (j * d) n"
proof -
  obtain q r where n: "n = q * d + r" and r: "r < d" using assms by (rule divisionE)
  define A J X where "A = q * d" and "J = j * d" and "X = rhe n d * d"
  have "rhe n d = q \<and> 2 * r \<le> d \<or> rhe n d = q + 1 \<and> d \<le> 2 * r"
    unfolding n by (subst rhe_qr [OF r])+ auto
  then have x: "X = A \<and> 2 * r \<le> d \<or> X = A + d \<and> d \<le> 2 * r" by (auto simp: X_def A_def)
  have "j * d \<le> q * d \<or> (q + 1) * d \<le> j * d" by (cases "j \<le> q") (simp, intro disjI2 mult_le_mono1, simp)
  then have j: "J \<le> A \<or> A + d \<le> J" by (auto simp: J_def A_def)
  have "gap X (A + r) \<le> gap J (A + r)" using x j r by arith
  then show ?thesis by (simp add: X_def J_def A_def n)
qed

lemma mag_units_step:
  assumes "g = 0 \<or> 2 ^ 52 * 2 ^ g \<le> mag_units k"
  shows "\<exists>j. mag_units k = j * 2 ^ g"
proof -
  obtain h m where k: "mag_units k = m * 2 ^ h" "m < 2 ^ 53" "h = 0 \<or> 2 ^ 52 \<le> m" by (rule mag_formE)
  show ?thesis
  proof (cases "g \<le> h")
    case True
    then have "mag_units k = (m * 2 ^ (h - g)) * 2 ^ g" using k(1) by (simp add: power_add [symmetric] mult.assoc)
    then show ?thesis by blast
  next
    case False
    then have "m * 2 ^ h < 2 ^ 53 * 2 ^ h" using k(2) by simp
    also have "\<dots> \<le> 2 ^ 52 * 2 ^ g" using pow2_step [of h g] False by simp
    finally show ?thesis using assms k(1) False by simp
  qed
qed

lemma mag_units_binade: "r \<le> 2 ^ 53 \<Longrightarrow> g = 0 \<or> 2 ^ 52 \<le> r \<Longrightarrow> mag_units (g * 2 ^ 52 + r) = r * 2 ^ g"
proof -
  assume r: "r \<le> 2 ^ 53" "g = 0 \<or> 2 ^ 52 \<le> r"
  show ?thesis
  proof (cases "r = 2 ^ 53")
    case True
    then have "g * 2 ^ 52 + r = (g + 1) * 2 ^ 52 + 2 ^ 52" by simp
    moreover have "mag_shift ((g + 1) * 2 ^ 52 + 2 ^ 52) = g + 1" by (simp add: mag_shift_def)
    ultimately have "mag_units (g * 2 ^ 52 + r) = ((g + 1) * 2 ^ 52 + 2 ^ 52 - (g + 1) * 2 ^ 52) * 2 ^ (g + 1)"
      by (simp only: mag_units_def)
    then show ?thesis using True by simp
  next
    case False
    then have r': "r < 2 ^ 53" using r by simp
    show ?thesis
    proof (cases "g = 0")
      case True
      then show ?thesis using r' by (simp add: mag_units_small)
    next
      case False
      then have "2 ^ 52 \<le> r" using r by simp
      then obtain s where s: "r = 2 ^ 52 + s" by (metis le_add_diff_inverse)
      then have "s < 2 ^ 52" using r' by simp
      then have "(g * 2 ^ 52 + r) div 2 ^ 52 = g + 1" using s by simp
      then have "mag_shift (g * 2 ^ 52 + r) = g" by (simp add: mag_shift_def)
      then show ?thesis by (simp add: mag_units_def)
    qed
  qed
qed

lemma round_pattern_nearest:
  assumes d: "0 < d"
  shows "gap (mag_units (round_pattern n d) * d) n \<le> gap (mag_units k * d) n"
proof -
  let ?g = "round_shift (n div d)"
  let ?r = "rhe n (d * 2 ^ ?g)"
  have D: "0 < d * 2 ^ ?g" using d by simp
  have "?r \<le> 2 ^ 53" using round_pattern_upper [OF d, of n] by (simp add: round_pattern_def)
  moreover have "?g = 0 \<or> 2 ^ 52 \<le> ?r" using round_pattern_lower [OF d, of n] by (auto simp: round_pattern_def)
  ultimately have m: "mag_units (round_pattern n d) * d = ?r * (d * 2 ^ ?g)"
    unfolding round_pattern_def by (subst mag_units_binade) (simp_all add: algebra_simps)
  show ?thesis
  proof (cases "?g = 0 \<or> 2 ^ 52 * 2 ^ ?g \<le> mag_units k")
    case True
    then obtain j where "mag_units k = j * 2 ^ ?g" using mag_units_step by blast
    then have "mag_units k * d = j * (d * 2 ^ ?g)" by simp
    then show ?thesis unfolding m using rhe_nearest [OF D, of n j] by (simp only:)
  next
    case False
    then have "2 ^ 52 * 2 ^ ?g \<le> n div d" using round_shift_lower [of "n div d"] by simp
    then have "2 ^ 52 * 2 ^ ?g * d \<le> n" using d by (simp add: less_eq_div_iff_mult_less_eq)
    then have "2 ^ 52 * (d * 2 ^ ?g) \<le> n" by (simp add: algebra_simps)
    moreover have "mag_units k * d \<le> 2 ^ 52 * 2 ^ ?g * d" using False by (intro mult_le_mono1) simp
    then have "mag_units k * d \<le> 2 ^ 52 * (d * 2 ^ ?g)" by (simp only: mult.assoc mult.commute [of d])
    moreover have "gap (?r * (d * 2 ^ ?g)) n \<le> gap (2 ^ 52 * (d * 2 ^ ?g)) n" by (rule rhe_nearest [OF D])
    ultimately show ?thesis unfolding m by linarith
  qed
qed

lemma round_units_nearest:
  assumes d: "0 < d" and f: "round_units n d < inf_pattern"
  shows "\<bar>real (mag_units (round_units n d)) - real n / real d\<bar> \<le> \<bar>real (mag_units k) - real n / real d\<bar>"
proof -
  have p: "round_units n d = round_pattern n d" using f by (simp add: round_units_pattern)
  have real_dist: "real (gap (a * d) n) = real d * \<bar>real a - real n / real d\<bar>" for a
    using d by (cases "n \<le> a * d") (simp_all add: abs_if field_simps of_nat_diff flip: of_nat_mult)
  have "real d * \<bar>real (mag_units (round_pattern n d)) - real n / real d\<bar> \<le> real d * \<bar>real (mag_units k) - real n / real d\<bar>"
    unfolding real_dist [symmetric] using round_pattern_nearest [OF d] by (simp only: of_nat_le_iff)
  then show ?thesis using d p by simp
qed

definition decimal_real :: "bool \<Rightarrow> nat \<Rightarrow> int \<Rightarrow> real" where
  "decimal_real negative m e =
     (if negative then - 1 else 1) * (if 0 \<le> e then real m * 10 ^ nat e else real m / 10 ^ nat (- e))"

lemma abs_shrinks: "0 \<le> (x :: real) \<Longrightarrow> 0 \<le> y \<Longrightarrow> \<bar>y - x\<bar> \<le> \<bar>- y - x\<bar>"
  by linarith

lemma scaled_gap:
  assumes "0 < (S :: real)" "\<bar>s\<bar> = 1"
  shows "\<bar>s * (a / S) - s * (x / S)\<bar> = \<bar>a - x\<bar> / S"
proof -
  have "s * (a / S) - s * (x / S) = s * ((a - x) / S)" by (simp add: diff_divide_distrib right_diff_distrib)
  then show ?thesis using assms by (simp add: abs_mult)
qed

lemma val_mk_double:
  "k < two63 \<Longrightarrow> val (mk_double s k) = (if s then - 1 else 1) * (real (mag_units k) / real unit_scale)"
  by (simp add: val_def units_mk_double)

lemma decimal_double_nearest:
  assumes f: "isfinite (decimal_double negative m e)" and d': "isfinite d'"
  shows "\<bar>val (decimal_double negative m e) - decimal_real negative m e\<bar> \<le> \<bar>val d' - decimal_real negative m e\<bar>"
proof -
  define n d where "n = (if 0 \<le> e then m * 10 ^ nat e * unit_scale else m * unit_scale)"
    and "d = (if 0 \<le> e then 1 else (10 :: nat) ^ nat (- e))"
  have d: "0 < d" by (simp add: d_def)
  have dd: "decimal_double negative m e = mk_double negative (round_units n d)"
    by (simp add: decimal_double_def n_def d_def)
  define S where "S = real unit_scale"
  have S: "0 < S" by (simp add: S_def)
  let ?s = "if negative then - 1 else 1 :: real"
  let ?x = "real n / real d"
  have x: "decimal_real negative m e = ?s * (?x / S)"
    by (simp add: decimal_real_def n_def d_def S_def unit_scale_def)
  have "round_units n d < inf_pattern" using f by (simp add: dd isfinite_def)
  note near = round_units_nearest [OF d this]
  let ?t = "if signbit d' = negative then 1 else - 1 :: real"
  have v': "val d' = ?s * (?t * real (mag_units (mag d')) / S)"
    using val_mk_double [of "mag d'" "signbit d'"] by (auto simp: S_def)
  have "0 \<le> ?x" "0 \<le> real (mag_units (mag d'))" by simp_all
  then have "\<bar>real (mag_units (mag d')) - ?x\<bar> \<le> \<bar>?t * real (mag_units (mag d')) - ?x\<bar>"
    using abs_shrinks [of ?x "real (mag_units (mag d'))"] by auto
  then have "\<bar>real (mag_units (round_units n d)) - ?x\<bar> \<le> \<bar>?t * real (mag_units (mag d')) - ?x\<bar>"
    using near [of "mag d'"] by linarith
  then have "\<bar>real (mag_units (round_units n d)) - ?x\<bar> / S \<le> \<bar>?t * real (mag_units (mag d')) - ?x\<bar> / S"
    using S by (intro divide_right_mono) auto
  moreover have "\<bar>?s * (a / S) - ?s * (?x / S)\<bar> = \<bar>a - ?x\<bar> / S" for a
    using S scaled_gap [of S ?s a ?x] by auto
  ultimately show ?thesis
    unfolding x v' dd val_mk_double [OF round_units_bound] S_def [symmetric] by simp
qed

text \<open>C36. The strict decimal parser accepts exactly the decimal numerals in the range of a double, an optional
  sign, digits with an optional point, and an optional exponent, with nothing before or after, and its
  value is a finite double nearest to the number that is written; in particular no text is read as an
  infinity or a NaN, and no trailing text is ignored.\<close>

theorem parse_finite_double_nearest:
  "parse_finite_double t field_name = Inr v \<longleftrightarrow>
    (\<exists>negative m e. float_numeral negative m e t \<and> v = decimal_double negative m e \<and> isfinite v \<and>
      (\<forall>v'. isfinite v' \<longrightarrow> \<bar>val v - decimal_real negative m e\<bar> \<le> \<bar>val v' - decimal_real negative m e\<bar>))"
proof -
  have "parse_finite_double t field_name = Inr v \<longleftrightarrow>
    (\<exists>negative m e. scan_float t = Some (negative, m, e) \<and> v = decimal_double negative m e \<and> isfinite v)"
  proof (cases "t = []")
    case True
    then show ?thesis by (simp add: parse_finite_double_def scan_float_def scan_sign_def scan_digits_def scan_fraction_def)
  next
    case False
    then show ?thesis by (auto simp: parse_finite_double_def Let_def split: option.splits)
  qed
  moreover have "scan_float t = Some (negative, m, e) \<longleftrightarrow> float_numeral negative m e t" for negative m e
    using scan_float_sound scan_float_complete by blast
  ultimately show ?thesis using decimal_double_nearest by blast
qed

theorem parse_finite_double_nearest_witness:
  "\<exists>v. parse_finite_double ''-1.5e0'' ''rate'' = Inr v \<and>
    (\<exists>negative m e. float_numeral negative m e ''-1.5e0'' \<and> v = decimal_double negative m e \<and>
      (\<forall>v'. isfinite v' \<longrightarrow> \<bar>val v - decimal_real negative m e\<bar> \<le> \<bar>val v' - decimal_real negative m e\<bar>))"
proof -
  have "scan_float ''-1.5e0'' = Some (True, 15, - 1)"
    by (simp add: scan_float_def scan_sign_def scan_digits_def scan_fraction_def scan_exponent_def is_digit_def
        digit_value_def text_value_def)
  moreover have "15 * unit_scale \<le> mag_units (mag two64f) * 10"
    by (simp add: two64f_def mag_def mag_units_def mag_shift_def unit_scale_def)
  then have "round_units (15 * unit_scale) 10 \<le> mag two64f" using round_units_le_representable [of 10 "15 * unit_scale" "mag two64f"]
    by (simp add: mag_units_le_iff)
  then have "round_units (15 * unit_scale) 10 < inf_pattern" by (simp add: two64f_def mag_def)
  then have "isfinite (decimal_double True 15 (- 1))" by (simp add: decimal_double_def isfinite_def)
  ultimately have "parse_finite_double ''-1.5e0'' ''rate'' = Inr (decimal_double True 15 (- 1))"
    by (simp add: parse_finite_double_def)
  then show ?thesis using parse_finite_double_nearest [of "''-1.5e0''" "''rate''" "decimal_double True 15 (- 1)"] by blast
qed

end
