(* ===== verification/Command_Line.thy ===== *)
theory Command_Line
  imports Decimal_Text
begin

text \<open>
  The argument loop the tools share: \<^verbatim>\<open>for (int index = 1; index < argc; ++index)\<close> with \<^verbatim>\<open>--help\<close>, flags, and options
  that take the next argument through \<^verbatim>\<open>require_value\<close>.  A tool is a table of flags and a table of options;
  an option's value is parsed when it is met, later occurrences override earlier ones.
\<close>

section \<open>The loop\<close>

definition require_value :: "string \<Rightarrow> string list \<Rightarrow> (string \<times> string list) result" where
  "require_value argument rest =
     (case rest of
        [] \<Rightarrow> Inl (Invalid_argument (''missing value for '' @ argument))
      | v # rest' \<Rightarrow> Inr (v, rest'))"

text \<open>\<^verbatim>\<open>None\<close> is the early return after \<^verbatim>\<open>--help\<close>.\<close>

function parse_options ::
  "(string \<times> ('o \<Rightarrow> 'o)) list \<Rightarrow> (string \<times> (string \<Rightarrow> 'o \<Rightarrow> 'o result)) list \<Rightarrow> string list \<Rightarrow> 'o \<Rightarrow> 'o option result" where
  "parse_options flags settings [] opts = Inr (Some opts)"
| "parse_options flags settings (argument # rest) opts =
     (if argument = ''--help'' then Inr None
      else case map_of flags argument of
             Some f \<Rightarrow> parse_options flags settings rest (f opts)
           | None \<Rightarrow>
               (case map_of settings argument of
                  None \<Rightarrow> Inl (Invalid_argument (''unknown argument: '' @ argument))
                | Some f \<Rightarrow>
                    (case require_value argument rest of
                       Inl e \<Rightarrow> Inl e
                     | Inr (v, rest') \<Rightarrow>
                         (case f v opts of Inl e \<Rightarrow> Inl e | Inr opts' \<Rightarrow> parse_options flags settings rest' opts'))))"
  by pat_completeness auto
termination
  by (relation "measure (\<lambda>(_, _, arguments, _). length arguments)")
     (auto simp: require_value_def split: list.splits)

text \<open>The successful parses, by the arguments they consume.\<close>

lemma parse_options_steps:
  assumes "parse_options flags settings arguments opts = Inr (Some opts')" and "P [] opts'"
    and "\<And>a rest f x. map_of flags a = Some f \<Longrightarrow> P rest (f x) \<Longrightarrow> P (a # rest) x"
    and "\<And>a v rest f x y. map_of flags a = None \<Longrightarrow> map_of settings a = Some f \<Longrightarrow> f v x = Inr y \<Longrightarrow> P rest y \<Longrightarrow>
      P (a # v # rest) x"
  shows "P arguments opts"
  using assms
proof (induction flags settings arguments opts rule: parse_options.induct)
  case (2 flags settings argument rest opts)
  have other: "argument \<noteq> ''--help''" using 2(3) by auto
  show ?case
  proof (cases "map_of flags argument")
    case (Some f)
    then show ?thesis using 2(2) [OF other Some] 2(3-6) other by simp
  next
    case None
    then obtain f v rest' opts1 where f: "map_of settings argument = Some f" "require_value argument rest = Inr (v, rest')"
      "f v opts = Inr opts1" "parse_options flags settings rest' opts1 = Inr (Some opts')"
      using 2(3) other by (auto split: option.splits sum.splits)
    then have "P rest' opts1" using 2(1) [OF other None f(1,2) refl f(3,4)] 2(4-6) by blast
    moreover have "rest = v # rest'" using f(2) by (auto simp: require_value_def split: list.splits)
    ultimately show ?thesis using 2(6) [OF None f(1,3)] by blast
  qed
qed simp

text \<open>A predicate that the defaults satisfy and every flag and setting keeps holds of what is parsed.\<close>

lemma parse_options_keep:
  assumes "parse_options flags settings arguments opts = Inr (Some opts')" and "P opts"
    and "\<And>f x. f \<in> snd ` set flags \<Longrightarrow> P x \<Longrightarrow> P (f x)"
    and "\<And>f v x y. f \<in> snd ` set settings \<Longrightarrow> f v x = Inr y \<Longrightarrow> P x \<Longrightarrow> P y"
  shows "P opts'"
proof -
  have "P opts \<longrightarrow> P opts'" using assms(1)
    by (rule parse_options_steps) (use assms(3,4) in \<open>force dest: map_of_SomeD\<close>)+
  then show ?thesis using assms(2) by blast
qed

section \<open>What a command line says\<close>

text \<open>The reading of a command line that does not run the loop: the flags on it, the options with their values in
  order, the last value given to an option, and when a field holds the value of its option.\<close>

fun flags_given :: "string list \<Rightarrow> string list \<Rightarrow> string list" where
  "flags_given flags [] = []"
| "flags_given flags (a # rest) =
     (if a \<in> set flags then a # flags_given flags rest
      else case rest of [] \<Rightarrow> [] | v # rest' \<Rightarrow> flags_given flags rest')"

fun option_values :: "string list \<Rightarrow> string list \<Rightarrow> (string \<times> string) list" where
  "option_values flags [] = []"
| "option_values flags (a # rest) =
     (if a \<in> set flags then option_values flags rest
      else case rest of [] \<Rightarrow> [] | v # rest' \<Rightarrow> (a, v) # option_values flags rest')"

definition last_given :: "string list \<Rightarrow> string list \<Rightarrow> string \<Rightarrow> string option" where
  "last_given flags arguments = map_of (rev (option_values flags arguments))"

definition reads :: "(string \<Rightarrow> 'a \<Rightarrow> bool) \<Rightarrow> string option \<Rightarrow> 'a \<Rightarrow> 'a \<Rightarrow> bool" where
  "reads denotes given absent x \<longleftrightarrow> (case given of None \<Rightarrow> x = absent | Some v \<Rightarrow> denotes v x)"

lemma last_given_step [simp]:
  "last_given flags [] = Map.empty"
  "a \<in> set flags \<Longrightarrow> last_given flags (a # rest) = last_given flags rest"
  "a \<notin> set flags \<Longrightarrow> last_given flags (a # v # rest) = (\<lambda>n. case last_given flags rest n of
     None \<Rightarrow> if n = a then Some v else None | Some w \<Rightarrow> Some w)"
  by (auto simp: last_given_def map_add_def fun_eq_iff split: option.splits)

lemma parse_options_reads:
  assumes "parse_options flags settings arguments opts = Inr (Some opts')"
    and "\<forall>(n, f) \<in> set flags. \<forall>x. get (f x) = get x"
    and "\<forall>(n, f) \<in> set settings. \<forall>v x y. f v x = Inr y \<longrightarrow> (if n = name then denotes v (get y) else get y = get x)"
  shows "reads denotes (last_given (map fst flags) arguments name) (get opts) (get opts')"
  using assms(1)
proof (rule parse_options_steps)
  show "reads denotes (last_given (map fst flags) [] name) (get opts') (get opts')" by (simp add: reads_def)
next
  fix a rest f x
  assume f: "map_of flags a = Some f" and r: "reads denotes (last_given (map fst flags) rest name) (get (f x)) (get opts')"
  have "a \<in> set (map fst flags)" using f by (force dest: map_of_SomeD)
  then show "reads denotes (last_given (map fst flags) (a # rest) name) (get x) (get opts')"
    using bspec [OF assms(2) map_of_SomeD [OF f]] r by simp
next
  fix a v rest f x y
  assume none: "map_of flags a = None" and f: "map_of settings a = Some f" "f v x = Inr y"
    and r: "reads denotes (last_given (map fst flags) rest name) (get y) (get opts')"
  have "a \<notin> set (map fst flags)" using none by (simp add: map_of_eq_None_iff)
  then show "reads denotes (last_given (map fst flags) (a # v # rest) name) (get x) (get opts')"
    using bspec [OF assms(3) map_of_SomeD [OF f(1)]] f(2) r by (auto simp: reads_def split: option.splits if_splits)
qed

text \<open>A field that only ever gets switched on.\<close>

lemma parse_options_switch:
  assumes "parse_options flags settings arguments opts = Inr (Some opts')"
    and "\<forall>(n, f) \<in> set flags. \<forall>x. get (f x) = (get x \<or> on n)"
    and "\<forall>(n, f) \<in> set settings. \<forall>v x y. f v x = Inr y \<longrightarrow> get y = (get x \<or> set_by (n, v))"
  shows "get opts' \<longleftrightarrow> get opts \<or> (\<exists>n \<in> set (flags_given (map fst flags) arguments). on n) \<or>
    (\<exists>p \<in> set (option_values (map fst flags) arguments). set_by p)"
  using assms(1)
proof (rule parse_options_steps)
  fix a rest f x
  assume f: "map_of flags a = Some f"
    and r: "get opts' \<longleftrightarrow> get (f x) \<or> (\<exists>n \<in> set (flags_given (map fst flags) rest). on n) \<or>
      (\<exists>p \<in> set (option_values (map fst flags) rest). set_by p)"
  have "a \<in> set (map fst flags)" using f by (force dest: map_of_SomeD)
  then show "get opts' \<longleftrightarrow> get x \<or> (\<exists>n \<in> set (flags_given (map fst flags) (a # rest)). on n) \<or>
      (\<exists>p \<in> set (option_values (map fst flags) (a # rest)). set_by p)"
    using bspec [OF assms(2) map_of_SomeD [OF f]] r by auto
next
  fix a v rest f x y
  assume none: "map_of flags a = None" and f: "map_of settings a = Some f" "f v x = Inr y"
    and r: "get opts' \<longleftrightarrow> get y \<or> (\<exists>n \<in> set (flags_given (map fst flags) rest). on n) \<or>
      (\<exists>p \<in> set (option_values (map fst flags) rest). set_by p)"
  have "a \<notin> set (map fst flags)" using none by (simp add: map_of_eq_None_iff)
  then show "get opts' \<longleftrightarrow> get x \<or> (\<exists>n \<in> set (flags_given (map fst flags) (a # v # rest)). on n) \<or>
      (\<exists>p \<in> set (option_values (map fst flags) (a # v # rest)). set_by p)"
    using bspec [OF assms(3) map_of_SomeD [OF f(1)]] f(2) r by auto
qed simp

lemma parse_options_flag:
  assumes "parse_options flags settings arguments opts = Inr (Some opts')"
    and "\<forall>(n, f) \<in> set flags. \<forall>x. get (f x) = (get x \<or> n = name)"
    and "\<forall>(n, f) \<in> set settings. \<forall>v x y. f v x = Inr y \<longrightarrow> get y = get x"
  shows "get opts' \<longleftrightarrow> get opts \<or> name \<in> set (flags_given (map fst flags) arguments)"
  using parse_options_switch [OF assms(1,2), of "\<lambda>_. False"] assms(3) by simp

lemma parse_options_given:
  assumes "parse_options flags settings arguments opts = Inr (Some opts')"
    and "\<forall>(n, f) \<in> set flags. \<forall>x. get (f x) = get x"
    and "\<forall>(n, f) \<in> set settings. \<forall>v x y. f v x = Inr y \<longrightarrow> get y = (get x \<or> set_by (n, v))"
  shows "get opts' \<longleftrightarrow> get opts \<or> (\<exists>p \<in> set (option_values (map fst flags) arguments). set_by p)"
  using parse_options_switch [OF assms(1) _ assms(3), of "\<lambda>_. False"] assms(2) by simp

end
