(* ===== verification/Heston_Analytic.thy ===== *)
theory Heston_Analytic
  imports Float_Integers
begin

text \<open>
  The analytic Heston reference price (\<^verbatim>\<open>src/models/heston_analytic.cpp\<close>).  It computes in \<^verbatim>\<open>long double\<close>, whose
  format depends on the platform, so the type of its numbers is a parameter together with the operations
  the code uses; so is the multiplication and division of \<^verbatim>\<open>std::complex\<close>.  The integration budget is a state
  that survives exceptions.
\<close>

section \<open>Numbers\<close>

record 'r real_lib =
  rl_literal :: "string \<Rightarrow> 'r"
  rl_of_double :: "double \<Rightarrow> 'r"
  rl_to_double :: "'r \<Rightarrow> double"
  rl_of_size :: "nat \<Rightarrow> 'r"
  rl_to_size :: "'r \<Rightarrow> nat"
  rl_add :: "'r \<Rightarrow> 'r \<Rightarrow> 'r"
  rl_sub :: "'r \<Rightarrow> 'r \<Rightarrow> 'r"
  rl_mul :: "'r \<Rightarrow> 'r \<Rightarrow> 'r"
  rl_div :: "'r \<Rightarrow> 'r \<Rightarrow> 'r"
  rl_neg :: "'r \<Rightarrow> 'r"
  rl_abs :: "'r \<Rightarrow> 'r"
  rl_lt :: "'r \<Rightarrow> 'r \<Rightarrow> bool"
  rl_le :: "'r \<Rightarrow> 'r \<Rightarrow> bool"
  rl_eq :: "'r \<Rightarrow> 'r \<Rightarrow> bool"
  rl_isfinite :: "'r \<Rightarrow> bool"
  rl_epsilon :: 'r
  rl_sqrt :: "'r \<Rightarrow> 'r"
  rl_exp :: "'r \<Rightarrow> 'r"
  rl_expm1 :: "'r \<Rightarrow> 'r"
  rl_log :: "'r \<Rightarrow> 'r"
  rl_erfc :: "'r \<Rightarrow> 'r"
  rl_acos :: "'r \<Rightarrow> 'r"
  rl_cos :: "'r \<Rightarrow> 'r"
  rl_ceil :: "'r \<Rightarrow> 'r"
  rl_cmul :: "'r \<times> 'r \<Rightarrow> 'r \<times> 'r \<Rightarrow> 'r \<times> 'r"
  rl_cdiv :: "'r \<times> 'r \<Rightarrow> 'r \<times> 'r \<Rightarrow> 'r \<times> 'r"
  rl_csqrt :: "'r \<times> 'r \<Rightarrow> 'r \<times> 'r"
  rl_cexp :: "'r \<times> 'r \<Rightarrow> 'r \<times> 'r"

text \<open>\<^verbatim>\<open>std::max\<close> returns its first argument unless that is smaller; the list form folds from the left.\<close>

definition rmax :: "'r real_lib \<Rightarrow> 'r \<Rightarrow> 'r \<Rightarrow> 'r" where
  "rmax R a b = (if rl_lt R a b then b else a)"

text \<open>The operators of \<^verbatim>\<open>std::complex\<close> that work by component.\<close>

definition cadd :: "'r real_lib \<Rightarrow> 'r \<times> 'r \<Rightarrow> 'r \<times> 'r \<Rightarrow> 'r \<times> 'r" where
  "cadd R a b = (rl_add R (fst a) (fst b), rl_add R (snd a) (snd b))"

definition cneg :: "'r real_lib \<Rightarrow> 'r \<times> 'r \<Rightarrow> 'r \<times> 'r" where
  "cneg R a = (rl_neg R (fst a), rl_neg R (snd a))"

definition cscale :: "'r real_lib \<Rightarrow> 'r \<Rightarrow> 'r \<times> 'r \<Rightarrow> 'r \<times> 'r" where
  "cscale R x a = (rl_mul R (fst a) x, rl_mul R (snd a) x)"

text \<open>A real number minus a complex one.\<close>

definition rsubc :: "'r real_lib \<Rightarrow> 'r \<Rightarrow> 'r \<times> 'r \<Rightarrow> 'r \<times> 'r" where
  "rsubc R x a = (rl_sub R x (fst a), rl_neg R (snd a))"

section \<open>Constants\<close>

definition kTimeQuadratureOrder :: nat where "kTimeQuadratureOrder = 64"
definition kRequiredQuietTailSlabs :: nat where "kRequiredQuietTailSlabs = 3"
definition kMaximumTailSlabs :: nat where "kMaximumTailSlabs = 20"
definition kMaximumAdaptiveDepth :: nat where "kMaximumAdaptiveDepth = 20"
definition kMaximumIntegrandEvaluations :: nat where "kMaximumIntegrandEvaluations = 500000"

section \<open>The Gauss-Legendre rule\<close>

record 'r quadrature_rule =
  qr_nodes :: "'r list"
  qr_weights :: "'r list"

text \<open>The recurrence for the Legendre polynomials: the values of degree \<open>order\<close> and \<open>order - 1\<close>.\<close>

definition legendre_pair :: "'r real_lib \<Rightarrow> nat \<Rightarrow> 'r \<Rightarrow> 'r \<times> 'r" where
  "legendre_pair R order x =
     fold (\<lambda>degree (previous, previous_previous).
       (rl_div R (rl_sub R (rl_mul R (rl_mul R (rl_sub R (rl_mul R (rl_literal R ''2.0'') (rl_of_size R degree)) (rl_literal R ''1.0'')) x) previous)
          (rl_mul R (rl_sub R (rl_of_size R degree) (rl_literal R ''1.0'')) previous_previous)) (rl_of_size R degree), previous))
       [2..<Suc order] (x, rl_literal R ''1.0'')"

definition legendre_derivative :: "'r real_lib \<Rightarrow> nat \<Rightarrow> 'r \<Rightarrow> 'r \<Rightarrow> 'r \<Rightarrow> 'r" where
  "legendre_derivative R order x previous previous_previous =
     rl_div R (rl_mul R (rl_of_size R order) (rl_sub R (rl_mul R x previous) previous_previous))
       (rl_sub R (rl_mul R x x) (rl_literal R ''1.0''))"

text \<open>At most \<open>fuel\<close> Newton steps from \<open>x\<close>: the last point, the last derivative, and whether it converged.\<close>

fun newton_root :: "'r real_lib \<Rightarrow> nat \<Rightarrow> 'r \<Rightarrow> nat \<Rightarrow> 'r \<Rightarrow> 'r \<Rightarrow> 'r \<times> 'r \<times> bool" where
  "newton_root R order tolerance 0 x derivative = (x, derivative, False)"
| "newton_root R order tolerance (Suc fuel) x derivative =
     (case legendre_pair R order x of (previous, previous_previous) \<Rightarrow>
        (let derivative = legendre_derivative R order x previous previous_previous;
             next_x = rl_sub R x (rl_div R previous derivative)
         in if rl_le R (rl_abs R (rl_sub R next_x x)) tolerance then (next_x, derivative, True)
            else newton_root R order tolerance fuel next_x derivative))"

definition legendre_node :: "'r real_lib \<Rightarrow> nat \<Rightarrow> nat \<Rightarrow> ('r \<times> 'r) result" where
  "legendre_node R order index =
     (let half_turn = rl_acos R (rl_literal R ''-1.0'');
          tolerance = rl_mul R (rl_literal R ''64.0'') (rl_epsilon R);
          start = rl_cos R (rl_div R (rl_mul R half_turn (rl_add R (rl_of_size R index) (rl_literal R ''0.75'')))
            (rl_add R (rl_of_size R order) (rl_literal R ''0.5'')))
      in case newton_root R order tolerance 100 start (rl_literal R ''0.0'') of (x, derivative, converged) \<Rightarrow>
           if \<not> converged \<or> \<not> rl_isfinite R x \<or> \<not> rl_isfinite R derivative
           then Inl (Runtime_error ''Heston analytic quadrature construction did not converge'')
           else case legendre_pair R order x of (previous, previous_previous) \<Rightarrow>
             (let derivative = legendre_derivative R order x previous previous_previous;
                  weight = rl_div R (rl_literal R ''2.0'')
                    (rl_mul R (rl_mul R (rl_sub R (rl_literal R ''1.0'') (rl_mul R x x)) derivative) derivative)
              in Inr (x, weight)))"

definition make_gauss_legendre_rule :: "'r real_lib \<Rightarrow> nat \<Rightarrow> 'r quadrature_rule result" where
  "make_gauss_legendre_rule R order =
     fold_result (\<lambda>index rule.
       rbind (legendre_node R order index) (\<lambda>(x, weight).
         Inr (rule\<lparr>qr_nodes := (qr_nodes rule)[index := rl_neg R x, order - 1 - index := x],
                   qr_weights := (qr_weights rule)[index := weight, order - 1 - index := weight]\<rparr>)))
       [0..<(order + 1) div 2]
       \<lparr>qr_nodes = replicate order (rl_literal R ''0.0''), qr_weights = replicate order (rl_literal R ''0.0'')\<rparr>"

section \<open>Closed forms\<close>

definition normal_cdf_long :: "'r real_lib \<Rightarrow> 'r \<Rightarrow> 'r" where
  "normal_cdf_long R x =
     rl_mul R (rl_literal R ''0.5'') (rl_erfc R (rl_div R (rl_neg R x) (rl_sqrt R (rl_literal R ''2.0''))))"

definition expected_integrated_variance :: "'r real_lib \<Rightarrow> 'r \<Rightarrow> 'r \<Rightarrow> 'r \<Rightarrow> 'r \<Rightarrow> 'r" where
  "expected_integrated_variance R v0 kappa theta t =
     (if rl_eq R kappa (rl_literal R ''0.0'') then rl_mul R v0 t
      else
        (let scaled_rate = rl_mul R kappa t;
             weights =
               (if rl_lt R scaled_rate (rl_literal R ''1.0e-4'')
                then
                  (let squared = rl_mul R scaled_rate scaled_rate;
                       cubed = rl_mul R squared scaled_rate;
                       fourth = rl_mul R cubed scaled_rate;
                       long_run_weight =
                         rl_sub R (rl_add R (rl_sub R (rl_mul R (rl_literal R ''0.5'') scaled_rate)
                           (rl_div R squared (rl_literal R ''6.0''))) (rl_div R cubed (rl_literal R ''24.0'')))
                           (rl_div R fourth (rl_literal R ''120.0''))
                   in (rl_sub R (rl_literal R ''1.0'') long_run_weight, long_run_weight))
                else
                  (let initial_weight = rl_div R (rl_neg R (rl_expm1 R (rl_neg R scaled_rate))) scaled_rate
                   in (initial_weight, rl_sub R (rl_literal R ''1.0'') initial_weight)))
         in rl_mul R t (rl_add R (rl_mul R v0 (fst weights)) (rl_mul R theta (snd weights)))))"

definition deterministic_variance_call :: "'r real_lib \<Rightarrow> 'r \<Rightarrow> 'r \<Rightarrow> 'r \<Rightarrow> 'r \<Rightarrow> 'r \<Rightarrow> 'r result" where
  "deterministic_variance_call R s k r t integrated_variance =
     (let zero = rl_literal R ''0.0''; discount = rl_exp R (rl_mul R (rl_neg R r) t)
      in if \<not> rl_isfinite R discount \<or> rl_le R discount zero \<or> \<not> rl_isfinite R integrated_variance \<or>
            rl_lt R integrated_variance zero
         then Inl (Domain_error ''Heston analytic deterministic limit is numerically invalid'')
         else if rl_eq R integrated_variance zero
         then Inr (rmax R (rl_sub R s (rl_mul R k discount)) zero)
         else
           (let scaled_volatility = rl_sqrt R integrated_variance;
                d1 = rl_div R (rl_add R (rl_add R (rl_log R (rl_div R s k)) (rl_mul R r t))
                  (rl_mul R (rl_literal R ''0.5'') integrated_variance)) scaled_volatility;
                d2 = rl_sub R d1 scaled_volatility
            in Inr (rl_sub R (rl_mul R s (normal_cdf_long R d1)) (rl_mul R (rl_mul R k discount) (normal_cdf_long R d2)))))"


section \<open>The integration budget\<close>

text \<open>The counter of the code, together with the points at which the integrand was really called.\<close>

record 'r integration_budget =
  evaluations :: nat
  sampled_points :: "'r list"

record 'r integral_estimate =
  estimate_value :: 'r
  estimate_error :: 'r

text \<open>A computation that charges the budget; an exception leaves the budget as it was when it was thrown.\<close>

type_synonym ('r, 'a) integration = "'r integration_budget \<Rightarrow> 'a result \<times> 'r integration_budget"

definition ireturn :: "'a result \<Rightarrow> ('r, 'a) integration" where
  "ireturn x budget = (x, budget)"

definition ibind :: "('r, 'a) integration \<Rightarrow> ('a \<Rightarrow> ('r, 'b) integration) \<Rightarrow> ('r, 'b) integration" where
  "ibind m f budget = (case m budget of (Inl e, budget') \<Rightarrow> (Inl e, budget') | (Inr x, budget') \<Rightarrow> f x budget')"

fun ifold :: "('a \<Rightarrow> 's \<Rightarrow> ('r, 's) integration) \<Rightarrow> 'a list \<Rightarrow> 's \<Rightarrow> ('r, 's) integration" where
  "ifold f [] s = ireturn (Inr s)"
| "ifold f (x # xs) s = ibind (f x s) (ifold f xs)"

text \<open>A call of the integrand.\<close>

definition sample :: "('r \<Rightarrow> 'r result) \<Rightarrow> 'r \<Rightarrow> ('r, 'r) integration" where
  "sample f x budget = (f x, budget\<lparr>sampled_points := sampled_points budget @ [x]\<rparr>)"

section \<open>The Gauss-Kronrod rule\<close>

definition kronrod_nodes :: "string list" where
  "kronrod_nodes =
     [''0.991455371120812639206854697526329'', ''0.949107912342758524526189684047851'',
      ''0.864864423359769072789712788640926'', ''0.741531185599394439863864773280788'',
      ''0.586087235467691130294144838258730'', ''0.405845151377397166906606412076961'',
      ''0.207784955007898467600689403773245'', ''0.0'']"

definition kronrod_weights :: "string list" where
  "kronrod_weights =
     [''0.022935322010529224963732008058970'', ''0.063092092629978553290700663189204'',
      ''0.104790010322250183839876322541518'', ''0.140653259715525918745189590510238'',
      ''0.169004726639267902826583426598550'', ''0.190350578064785409913256402421014'',
      ''0.204432940075298892414161999234649'', ''0.209482141084727828012999174891714'']"

definition gauss_weights :: "string list" where
  "gauss_weights =
     [''0.129484966168869693270611432679082'', ''0.279705391489276667901467771423780'',
      ''0.381830050505118944950369775488975'', ''0.417959183673469387755102040816327'']"

definition charge_samples :: "('r, unit) integration" where
  "charge_samples budget =
     (if kMaximumIntegrandEvaluations - 15 < evaluations budget
      then (Inl (Domain_error ''Heston analytic integration exceeded its evaluation budget''), budget)
      else (Inr (), budget\<lparr>evaluations := evaluations budget + 15\<rparr>))"

text \<open>One turn of the loop over the seven symmetric pairs.\<close>

definition kronrod_pair ::
  "'r real_lib \<Rightarrow> ('r \<Rightarrow> 'r result) \<Rightarrow> 'r \<Rightarrow> 'r \<Rightarrow> nat \<Rightarrow> 'r \<times> 'r \<Rightarrow> ('r, 'r \<times> 'r) integration" where
  "kronrod_pair R f midpoint half_width index totals =
     (let offset = rl_mul R half_width (rl_literal R (kronrod_nodes ! index))
      in ibind (sample f (rl_sub R midpoint offset)) (\<lambda>left.
         ibind (sample f (rl_add R midpoint offset)) (\<lambda>right.
           (let pair = rl_add R left right
            in if \<not> rl_isfinite R pair
               then ireturn (Inl (Domain_error ''Heston analytic quadrature pair became non-finite''))
               else ireturn (Inr
                 (rl_add R (fst totals) (rl_mul R (rl_literal R (kronrod_weights ! index)) pair),
                  if index mod 2 = 1
                  then rl_add R (snd totals) (rl_mul R (rl_literal R (gauss_weights ! ((index - 1) div 2))) pair)
                  else snd totals))))))"

definition kronrod_estimate :: "'r real_lib \<Rightarrow> 'r \<Rightarrow> 'r \<times> 'r \<Rightarrow> 'r integral_estimate result" where
  "kronrod_estimate R half_width totals =
     (let kronrod_value = rl_mul R (fst totals) half_width;
          gauss_value = rl_mul R (snd totals) half_width
      in if \<not> rl_isfinite R kronrod_value \<or> \<not> rl_isfinite R gauss_value
         then Inl (Domain_error ''Heston analytic quadrature estimate became non-finite'')
         else
           (let rounding_floor = rl_mul R (rl_mul R (rl_literal R ''50.0'') (rl_epsilon R)) (rl_abs R kronrod_value)
            in Inr \<lparr>estimate_value = kronrod_value,
                    estimate_error = rmax R (rl_abs R (rl_sub R kronrod_value gauss_value)) rounding_floor\<rparr>))"

definition gauss_kronrod_15 ::
  "'r real_lib \<Rightarrow> ('r \<Rightarrow> 'r result) \<Rightarrow> 'r \<Rightarrow> 'r \<Rightarrow> ('r, 'r integral_estimate) integration" where
  "gauss_kronrod_15 R f lower upper =
     ibind charge_samples (\<lambda>_.
       (let midpoint = rl_mul R (rl_literal R ''0.5'') (rl_add R lower upper);
            half_width = rl_mul R (rl_literal R ''0.5'') (rl_sub R upper lower)
        in ibind (sample f midpoint) (\<lambda>center.
             if \<not> rl_isfinite R center
             then ireturn (Inl (Domain_error ''Heston analytic quadrature sample became non-finite''))
             else
               ibind (ifold (kronrod_pair R f midpoint half_width) [0..<7]
                 (rl_mul R (rl_literal R (kronrod_weights ! 7)) center,
                  rl_mul R (rl_literal R (gauss_weights ! 3)) center)) (\<lambda>totals.
                 ireturn (kronrod_estimate R half_width totals)))))"

definition add_estimates :: "'r real_lib \<Rightarrow> 'r integral_estimate \<Rightarrow> 'r integral_estimate \<Rightarrow> 'r integral_estimate" where
  "add_estimates R a b =
     \<lparr>estimate_value = rl_add R (estimate_value a) (estimate_value b),
      estimate_error = rl_add R (estimate_error a) (estimate_error b)\<rparr>"

section \<open>Adaptive integration\<close>

fun integrate_adaptive ::
  "'r real_lib \<Rightarrow> ('r \<Rightarrow> 'r result) \<Rightarrow> nat \<Rightarrow> 'r \<Rightarrow> 'r \<Rightarrow> 'r \<Rightarrow> ('r, 'r integral_estimate) integration" where
  "integrate_adaptive R f 0 lower upper tolerance = gauss_kronrod_15 R f lower upper"
| "integrate_adaptive R f (Suc depth) lower upper tolerance =
     ibind (gauss_kronrod_15 R f lower upper) (\<lambda>whole.
       if rl_le R (estimate_error whole) tolerance then ireturn (Inr whole)
       else
         (let midpoint = rl_mul R (rl_literal R ''0.5'') (rl_add R lower upper);
              half_tolerance = rl_mul R (rl_literal R ''0.5'') tolerance
          in ibind (integrate_adaptive R f depth lower midpoint half_tolerance) (\<lambda>left.
             ibind (integrate_adaptive R f depth midpoint upper half_tolerance) (\<lambda>right.
               ireturn (Inr (add_estimates R left right))))))"

definition phase_segments :: "'r real_lib \<Rightarrow> 'r \<Rightarrow> 'r \<Rightarrow> 'r \<Rightarrow> nat result" where
  "phase_segments R lower upper phase_rate =
     (let half_turn = rl_acos R (rl_literal R ''-1.0'');
          one = rl_literal R ''1.0'';
          phase_span = rl_mul R (rl_sub R upper lower) phase_rate;
          raw_segments = (if rl_lt R half_turn phase_span then rl_ceil R (rl_div R phase_span half_turn) else one)
      in if \<not> rl_isfinite R raw_segments \<or> rl_lt R raw_segments one \<or>
            rl_lt R (rl_of_size R (kMaximumIntegrandEvaluations div 15)) raw_segments
         then Inl (Domain_error ''Heston analytic oscillation exceeds its evaluation budget'')
         else Inr (rl_to_size R raw_segments))"

definition integrate_phase_safe_slab ::
  "'r real_lib \<Rightarrow> ('r \<Rightarrow> 'r result) \<Rightarrow> 'r \<Rightarrow> 'r \<Rightarrow> 'r \<Rightarrow> 'r \<Rightarrow> ('r, 'r integral_estimate) integration" where
  "integrate_phase_safe_slab R f lower upper phase_rate tolerance =
     ibind (ireturn (phase_segments R lower upper phase_rate)) (\<lambda>segments.
       (let width = rl_div R (rl_sub R upper lower) (rl_of_size R segments)
        in ifold (\<lambda>segment total_estimate.
             (let segment_lower = rl_add R lower (rl_mul R (rl_of_size R segment) width);
                  segment_upper = (if segment + 1 = segments then upper else rl_add R segment_lower width)
              in ibind (integrate_adaptive R f kMaximumAdaptiveDepth segment_lower segment_upper
                   (rl_div R tolerance (rl_of_size R segments))) (\<lambda>estimate.
                   ireturn (Inr (add_estimates R total_estimate estimate)))))
             [0..<segments] \<lparr>estimate_value = rl_literal R ''0.0'', estimate_error = rl_literal R ''0.0''\<rparr>))"

section \<open>The Fourier integrand\<close>

definition time_quadrature_rule :: "'r real_lib \<Rightarrow> 'r quadrature_rule result" where
  "time_quadrature_rule R = make_gauss_legendre_rule R kTimeQuadratureOrder"

text \<open>The long double copies of the inputs that the integrand reads.\<close>

record 'r heston_inputs =
  hi_log_spot :: 'r
  hi_log_strike :: 'r
  hi_rate :: 'r
  hi_maturity :: 'r
  hi_initial_variance :: 'r
  hi_mean_reversion_rate :: 'r
  hi_long_run_variance :: 'r
  hi_volatility_of_variance :: 'r
  hi_correlation :: 'r

text \<open>The coefficient \<open>D\<close> of the Riccati solution after time \<open>tau\<close>, scaled by \<open>weight\<close>.\<close>

definition riccati_term ::
  "'r real_lib \<Rightarrow> 'r \<times> 'r \<Rightarrow> 'r \<times> 'r \<Rightarrow> 'r \<times> 'r \<Rightarrow> 'r \<Rightarrow> 'r \<times> 'r" where
  "riccati_term R prefactor g d tau =
     (let one = rl_literal R ''1.0''; decay = rl_cexp R (cscale R tau (cneg R d))
      in rl_cdiv R (rl_cmul R prefactor (rsubc R one decay)) (rsubc R one (rl_cmul R g decay)))"

definition fourier_integrand :: "'r real_lib \<Rightarrow> 'r heston_inputs \<Rightarrow> bool \<Rightarrow> 'r \<Rightarrow> 'r result" where
  "fourier_integrand R h asset_probability phi =
     rbind (time_quadrature_rule R) (\<lambda>time_rule.
       (let zero = rl_literal R ''0.0''; half = rl_literal R ''0.5''; two = rl_literal R ''2.0'';
            imaginary = (zero, rl_literal R ''1.0'');
            kappa = hi_mean_reversion_rate h; theta = hi_long_run_variance h;
            xi = hi_volatility_of_variance h; rho = hi_correlation h; t = hi_maturity h;
            xi_squared = rl_mul R xi xi;
            u = (if asset_probability then half else rl_neg R half);
            b = (if asset_probability then rl_sub R kappa (rl_mul R rho xi) else kappa);
            z = rsubc R b (cscale R phi (cscale R (rl_mul R rho xi) imaginary));
            a = rsubc R (rl_mul R phi phi) (cscale R phi (cscale R (rl_mul R two u) imaginary));
            root_d = rl_csqrt R (cadd R (rl_cmul R z z) (cscale R xi_squared a));
            d = (if rl_lt R (fst root_d) zero then cneg R root_d else root_d);
            z_plus_d = cadd R z d;
            d_prefactor = rl_cdiv R (cneg R a) z_plus_d;
            g = rl_cdiv R (cscale R (rl_neg R xi_squared) a) (rl_cmul R z_plus_d z_plus_d);
            capital_d = riccati_term R d_prefactor g d t;
            half_maturity = rl_mul R half t;
            integrated_d =
              (if \<not> rl_eq R (rl_mul R kappa theta) zero
               then cscale R half_maturity
                 (fold (\<lambda>time_index sum.
                    (let tau = rl_mul R half_maturity (rl_add R (qr_nodes time_rule ! time_index) (rl_literal R ''1.0''))
                     in cadd R sum (riccati_term R (cscale R (qr_weights time_rule ! time_index) d_prefactor) g d tau)))
                    [0..<kTimeQuadratureOrder] (zero, zero))
               else (zero, zero));
            c = cadd R (cscale R t (cscale R phi (cscale R (hi_rate h) imaginary)))
              (cscale R (rl_mul R kappa theta) integrated_d);
            characteristic = rl_cexp R (cadd R (cadd R c (cscale R (hi_initial_variance h) capital_d))
              (cscale R (hi_log_spot h) (cscale R phi imaginary)));
            integrand = fst (rl_cdiv R
              (rl_cmul R (rl_cexp R (cscale R (hi_log_strike h) (cscale R phi (cneg R imaginary)))) characteristic)
              (cscale R phi imaginary))
        in if \<not> rl_isfinite R integrand
           then Inl (Domain_error ''Heston analytic integrand became non-finite'')
           else Inr integrand))"

section \<open>Probabilities by Fourier inversion\<close>

definition normalized_integrand :: "'r real_lib \<Rightarrow> 'r heston_inputs \<Rightarrow> bool \<Rightarrow> 'r \<Rightarrow> 'r \<Rightarrow> 'r result" where
  "normalized_integrand R h asset_probability frequency_scale normalized_frequency =
     (let phi = rl_div R normalized_frequency frequency_scale
      in if \<not> rl_isfinite R phi \<or> rl_le R phi (rl_literal R ''0.0'')
         then Inl (Domain_error ''Heston analytic frequency scaling overflowed'')
         else rbind (fourier_integrand R h asset_probability phi) (\<lambda>x. Inr (rl_div R x frequency_scale)))"

record 'r tail_policy =
  integral_tolerance :: 'r
  slab_tolerance :: 'r
  quiet_tail_tolerance :: 'r

definition make_tail_policy :: "'r real_lib \<Rightarrow> 'r \<Rightarrow> 'r \<Rightarrow> 'r tail_policy" where
  "make_tail_policy R price_weight price_tolerance =
     (let half_turn = rl_acos R (rl_literal R ''-1.0'');
          tolerance = rl_div R (rl_mul R (rl_mul R (rl_literal R ''0.5'') price_tolerance) half_turn) price_weight;
          slab = rl_div R tolerance (rl_literal R ''32.0'')
      in \<lparr>integral_tolerance = tolerance, slab_tolerance = slab, quiet_tail_tolerance = slab\<rparr>)"

definition quiet_slab :: "'r real_lib \<Rightarrow> 'r tail_policy \<Rightarrow> 'r integral_estimate \<Rightarrow> bool" where
  "quiet_slab R policy tail \<longleftrightarrow>
     rl_le R (rl_abs R (estimate_value tail)) (quiet_tail_tolerance policy) \<and>
     rl_le R (estimate_error tail) (slab_tolerance policy)"

definition small_error :: "'r real_lib \<Rightarrow> 'r tail_policy \<Rightarrow> 'r integral_estimate \<Rightarrow> bool" where
  "small_error R policy estimate \<longleftrightarrow>
     rl_le R (estimate_error estimate) (rl_mul R (rl_literal R ''0.75'') (integral_tolerance policy))"

text \<open>The loop over the tail slabs; \<open>slab lower upper\<close> integrates one of them.\<close>

fun tail_slabs ::
  "'r real_lib \<Rightarrow> 'r tail_policy \<Rightarrow> ('r \<Rightarrow> 'r \<Rightarrow> ('r, 'r integral_estimate) integration) \<Rightarrow> nat \<Rightarrow> 'r \<Rightarrow> nat
    \<Rightarrow> 'r integral_estimate \<Rightarrow> ('r, 'r integral_estimate) integration" where
  "tail_slabs R policy slab 0 lower quiet_slabs total_estimate =
     ireturn (Inl (Domain_error ''Heston analytic Fourier tail did not converge within its budget''))"
| "tail_slabs R policy slab (Suc remaining) lower quiet_slabs total_estimate =
     (let upper = rl_mul R (rl_literal R ''2.0'') lower
      in ibind (slab lower upper) (\<lambda>tail.
           (let total_estimate = add_estimates R total_estimate tail;
                quiet_slabs = (if quiet_slab R policy tail then quiet_slabs + 1 else 0)
            in if kRequiredQuietTailSlabs \<le> quiet_slabs \<and> small_error R policy total_estimate
               then ireturn (Inr total_estimate)
               else tail_slabs R policy slab remaining upper quiet_slabs total_estimate)))"

definition phase_rate_of :: "'r real_lib \<Rightarrow> 'r heston_inputs \<Rightarrow> 'r \<Rightarrow> 'r" where
  "phase_rate_of R h frequency_scale =
     rl_div R (rl_abs R (rl_add R (rl_sub R (hi_log_spot h) (hi_log_strike h))
       (rl_mul R (hi_rate h) (hi_maturity h)))) frequency_scale"

definition adaptive_probability ::
  "'r real_lib \<Rightarrow> 'r heston_inputs \<Rightarrow> bool \<Rightarrow> 'r \<Rightarrow> 'r \<Rightarrow> 'r \<Rightarrow> 'r result \<times> 'r integration_budget" where
  "adaptive_probability R h asset_probability frequency_scale price_weight price_tolerance =
     (let policy = make_tail_policy R price_weight price_tolerance;
          cutoff = rl_literal R ''8.0'';
          slab = (\<lambda>lower upper. integrate_phase_safe_slab R (normalized_integrand R h asset_probability frequency_scale)
            lower upper (phase_rate_of R h frequency_scale) (slab_tolerance policy))
      in ibind (slab (rl_literal R ''0.0'') cutoff) (\<lambda>first.
         ibind (tail_slabs R policy slab kMaximumTailSlabs cutoff 0 first) (\<lambda>total_estimate.
           ireturn (Inr (rl_add R (rl_literal R ''0.5'')
             (rl_div R (estimate_value total_estimate) (rl_acos R (rl_literal R ''-1.0'')))))))
         \<lparr>evaluations = 0, sampled_points = []\<rparr>)"

section \<open>The price\<close>

definition heston_inputs_valid :: "double \<Rightarrow> double \<Rightarrow> double \<Rightarrow> double \<Rightarrow> heston_params \<Rightarrow> bool" where
  "heston_inputs_valid s k r t p \<longleftrightarrow>
     \<not> (\<not> isfinite s \<or> \<not> isfinite k \<or> \<not> isfinite r \<or> \<not> isfinite t \<or>
        \<not> isfinite (initial_variance p) \<or> \<not> isfinite (mean_reversion_rate p) \<or>
        \<not> isfinite (long_run_variance p) \<or> \<not> isfinite (volatility_of_variance p) \<or>
        \<not> isfinite (correlation p) \<or>
        \<not> (flt zero64 s \<and> flt zero64 k \<and> flt zero64 t) \<or>
        flt (initial_variance p) zero64 \<or> flt (mean_reversion_rate p) zero64 \<or>
        flt (long_run_variance p) zero64 \<or> flt (volatility_of_variance p) zero64 \<or>
        flt (correlation p) minus_one64 \<or> flt one64 (correlation p))"

definition heston_inputs_of :: "'r real_lib \<Rightarrow> double \<Rightarrow> double \<Rightarrow> double \<Rightarrow> double \<Rightarrow> heston_params \<Rightarrow> 'r heston_inputs" where
  "heston_inputs_of R s k r t p =
     \<lparr>hi_log_spot = rl_log R (rl_of_double R s), hi_log_strike = rl_log R (rl_of_double R k),
      hi_rate = rl_of_double R r, hi_maturity = rl_of_double R t,
      hi_initial_variance = rl_of_double R (initial_variance p),
      hi_mean_reversion_rate = rl_of_double R (mean_reversion_rate p),
      hi_long_run_variance = rl_of_double R (long_run_variance p),
      hi_volatility_of_variance = rl_of_double R (volatility_of_variance p),
      hi_correlation = rl_of_double R (correlation p)\<rparr>"

definition price_scale :: "'r real_lib \<Rightarrow> 'r \<Rightarrow> 'r \<Rightarrow> 'r" where
  "price_scale R s discounted_strike = rmax R (rmax R (rl_literal R ''1.0'') s) discounted_strike"

text \<open>The branch that integrates: both probabilities and the price they give.\<close>

definition fourier_price :: "'r real_lib \<Rightarrow> 'r heston_inputs \<Rightarrow> 'r \<Rightarrow> 'r \<Rightarrow> 'r \<Rightarrow> 'r result" where
  "fourier_price R h s discounted_strike integrated_variance =
     (if \<not> rl_isfinite R integrated_variance \<or> rl_le R integrated_variance (rl_literal R ''0.0'')
      then Inl (Domain_error ''Heston analytic expected integrated variance is invalid'')
      else
        (let price_tolerance = rl_add R (rl_literal R ''1.0e-9'')
               (rl_mul R (rl_literal R ''1.0e-11'') (price_scale R s discounted_strike));
             frequency_scale = rl_sqrt R integrated_variance
         in rbind (fst (adaptive_probability R h True frequency_scale s price_tolerance)) (\<lambda>p1.
            rbind (fst (adaptive_probability R h False frequency_scale discounted_strike price_tolerance)) (\<lambda>p2.
              Inr (rl_sub R (rl_mul R s p1) (rl_mul R discounted_strike p2))))))"

text \<open>\<^verbatim>\<open>std::clamp\<close>.\<close>

definition clamp64 :: "double \<Rightarrow> double \<Rightarrow> double \<Rightarrow> double" where
  "clamp64 x lower upper = (if flt x lower then lower else if flt upper x then upper else x)"

definition hundred_twenty_eight64 :: double where
  "hundred_twenty_eight64 = Double 0x4060000000000000"

definition intrinsic_bound :: "'r real_lib \<Rightarrow> 'r \<Rightarrow> 'r \<Rightarrow> double" where
  "intrinsic_bound R s discounted_strike =
     rl_to_double R (rmax R (rl_sub R s discounted_strike) (rl_literal R ''0.0''))"

definition bounded_price :: "'r real_lib \<Rightarrow> double \<Rightarrow> 'r \<Rightarrow> 'r \<Rightarrow> 'r \<Rightarrow> double result" where
  "bounded_price R spot_price s discounted_strike price =
     (let res = rl_to_double R price
      in if \<not> isfinite res
         then Inl (Domain_error ''Heston analytic calculation produced a non-finite price'')
         else
           (let lower = intrinsic_bound R s discounted_strike;
                tolerance = fmul (fmul hundred_twenty_eight64 epsilon64) (rl_to_double R (price_scale R s discounted_strike))
            in if flt res (fsub lower tolerance) \<or> flt (fadd spot_price tolerance) res
               then Inl (Domain_error ''Heston analytic price violated call bounds'')
               else Inr (clamp64 res lower spot_price)))"

definition discounted_strike_of :: "'r real_lib \<Rightarrow> double \<Rightarrow> double \<Rightarrow> double \<Rightarrow> 'r" where
  "discounted_strike_of R k r t =
     rl_mul R (rl_of_double R k) (rl_exp R (rl_mul R (rl_neg R (rl_of_double R r)) (rl_of_double R t)))"

definition heston_european_call_price ::
  "'r real_lib \<Rightarrow> double \<Rightarrow> double \<Rightarrow> double \<Rightarrow> double \<Rightarrow> heston_params \<Rightarrow> double result" where
  "heston_european_call_price R spot_price strike_price risk_free_rate expiry p =
     (if \<not> heston_inputs_valid spot_price strike_price risk_free_rate expiry p
      then Inl (Invalid_argument ''Heston analytic inputs must be finite and satisfy model bounds'')
      else
        (let zero = rl_literal R ''0.0'';
             h = heston_inputs_of R spot_price strike_price risk_free_rate expiry p;
             s = rl_of_double R spot_price; k = rl_of_double R strike_price;
             r = hi_rate h; t = hi_maturity h; v0 = hi_initial_variance h;
             kappa = hi_mean_reversion_rate h; theta = hi_long_run_variance h;
             integrated_variance = expected_integrated_variance R v0 kappa theta t;
             discount = rl_exp R (rl_mul R (rl_neg R r) t);
             discounted_strike = rl_mul R k discount
         in if \<not> rl_isfinite R discount \<or> rl_le R discount zero \<or> \<not> rl_isfinite R discounted_strike \<or>
               rl_le R discounted_strike zero
            then Inl (Domain_error ''Heston analytic discounted strike is numerically invalid'')
            else
              rbind
                (if rl_eq R (hi_volatility_of_variance h) zero \<or>
                    (rl_eq R v0 zero \<and> rl_eq R (rl_mul R kappa theta) zero)
                 then deterministic_variance_call R s k r t integrated_variance
                 else fourier_price R h s discounted_strike integrated_variance)
                (bounded_price R spot_price s discounted_strike)))"

section \<open>The budget is respected\<close>

text \<open>A computation of cost \<open>n\<close> calls the integrand at most \<open>n\<close> times and leaves the counter alone.\<close>

definition costs :: "('r, 'a) integration \<Rightarrow> nat \<Rightarrow> bool" where
  "costs m n \<longleftrightarrow> (\<forall>b. evaluations (snd (m b)) = evaluations b \<and>
     length (sampled_points (snd (m b))) \<le> length (sampled_points b) + n)"

lemma costs_ireturn [simp]: "costs (ireturn x) n"
  by (simp add: costs_def ireturn_def)

lemma costs_sample [simp]: "costs (sample f x) (Suc 0)"
  by (simp add: costs_def sample_def)

lemma costs_ibind:
  assumes "costs m i" and "\<And>x. costs (f x) j"
  shows "costs (ibind m f) (i + j)"
  unfolding costs_def
proof
  fix b
  obtain r b' where m: "m b = (r, b')" by (cases "m b")
  then have b': "evaluations b' = evaluations b" "length (sampled_points b') \<le> length (sampled_points b) + i"
    using assms(1) unfolding costs_def by (metis snd_conv)+
  show "evaluations (snd (ibind m f b)) = evaluations b \<and>
    length (sampled_points (snd (ibind m f b))) \<le> length (sampled_points b) + (i + j)"
  proof (cases r)
    case (Inl e)
    then show ?thesis using m b' by (simp add: ibind_def)
  next
    case (Inr x)
    then show ?thesis using m b' assms(2) [unfolded costs_def, rule_format, of x b'] by (simp add: ibind_def)
  qed
qed

lemma costs_ifold: "(\<And>x s. costs (f x s) n) \<Longrightarrow> costs (ifold f xs s) (length xs * n)"
  by (induction xs arbitrary: s) (auto intro: costs_ibind)

lemma kronrod_pair_cost: "costs (kronrod_pair R f m w i s) 2"
proof -
  have "costs (kronrod_pair R f m w i s) (Suc 0 + (Suc 0 + 0))"
    unfolding kronrod_pair_def Let_def by (intro costs_ibind) simp_all
  then show ?thesis by (simp add: numeral_2_eq_2)
qed

text \<open>The counter covers the calls made so far, in batches of fifteen, and stays below the limit.\<close>

definition within_budget :: "'r integration_budget \<Rightarrow> bool" where
  "within_budget b \<longleftrightarrow> length (sampled_points b) \<le> evaluations b \<and> 15 dvd evaluations b \<and>
     evaluations b \<le> kMaximumIntegrandEvaluations"

definition keeps_budget :: "('r, 'a) integration \<Rightarrow> bool" where
  "keeps_budget m \<longleftrightarrow> (\<forall>b. within_budget b \<longrightarrow> within_budget (snd (m b)))"

lemma keeps_ireturn [simp]: "keeps_budget (ireturn x)"
  by (simp add: keeps_budget_def ireturn_def)

lemma keeps_ibind: "keeps_budget m \<Longrightarrow> (\<And>x. keeps_budget (f x)) \<Longrightarrow> keeps_budget (ibind m f)"
  by (auto simp: keeps_budget_def ibind_def split: prod.splits sum.splits)

lemma keeps_ifold: "(\<And>x s. keeps_budget (f x s)) \<Longrightarrow> keeps_budget (ifold f xs s)"
  by (induction xs arbitrary: s) (auto intro: keeps_ibind)

lemma charged_keeps:
  assumes "costs m 15"
  shows "keeps_budget (ibind charge_samples (\<lambda>_. m))"
  unfolding keeps_budget_def
proof (intro allI impI)
  fix b :: "'a integration_budget" assume b: "within_budget b"
  show "within_budget (snd (ibind charge_samples (\<lambda>_. m) b))"
  proof (cases "kMaximumIntegrandEvaluations - 15 < evaluations b")
    case True
    then show ?thesis using b by (simp add: ibind_def charge_samples_def)
  next
    case False
    let ?c = "b\<lparr>evaluations := evaluations b + 15\<rparr>"
    have "evaluations (snd (m ?c)) = evaluations b + 15"
      "length (sampled_points (snd (m ?c))) \<le> length (sampled_points b) + 15"
      using assms [unfolded costs_def, rule_format, of ?c] by simp_all
    moreover have "snd (ibind charge_samples (\<lambda>_. m) b) = snd (m ?c)"
      using False by (simp add: ibind_def charge_samples_def)
    ultimately show ?thesis using b False by (simp add: within_budget_def kMaximumIntegrandEvaluations_def)
  qed
qed

lemma kronrod_keeps: "keeps_budget (gauss_kronrod_15 R f a b)"
  unfolding gauss_kronrod_15_def
proof (rule charged_keeps)
  let ?m = "rl_mul R (rl_literal R ''0.5'') (rl_add R a b)"
  let ?w = "rl_mul R (rl_literal R ''0.5'') (rl_sub R b a)"
  have fold: "costs (ifold (kronrod_pair R f ?m ?w) [0..<7] s) 14" for s
    using costs_ifold [of "kronrod_pair R f ?m ?w" 2 "[0..<7]" s, OF kronrod_pair_cost] by simp
  have "costs (ibind (sample f ?m) (\<lambda>center.
      if \<not> rl_isfinite R center
      then ireturn (Inl (Domain_error ''Heston analytic quadrature sample became non-finite''))
      else ibind (ifold (kronrod_pair R f ?m ?w) [0..<7]
        (rl_mul R (rl_literal R (kronrod_weights ! 7)) center, rl_mul R (rl_literal R (gauss_weights ! 3)) center))
        (\<lambda>totals. ireturn (kronrod_estimate R ?w totals)))) (Suc 0 + (14 + 0))"
  proof (rule costs_ibind [OF costs_sample])
    fix center
    show "costs (if \<not> rl_isfinite R center
      then ireturn (Inl (Domain_error ''Heston analytic quadrature sample became non-finite''))
      else ibind (ifold (kronrod_pair R f ?m ?w) [0..<7]
        (rl_mul R (rl_literal R (kronrod_weights ! 7)) center, rl_mul R (rl_literal R (gauss_weights ! 3)) center))
        (\<lambda>totals. ireturn (kronrod_estimate R ?w totals))) (14 + 0)"
      by (cases "rl_isfinite R center") (simp_all only: costs_ireturn costs_ibind [OF fold costs_ireturn] if_True if_False not_True_eq_False not_False_eq_True)
  qed
  then show "costs (let midpoint = ?m; half_width = ?w
        in ibind (sample f midpoint) (\<lambda>center.
             if \<not> rl_isfinite R center
             then ireturn (Inl (Domain_error ''Heston analytic quadrature sample became non-finite''))
             else
               ibind (ifold (kronrod_pair R f midpoint half_width) [0..<7]
                 (rl_mul R (rl_literal R (kronrod_weights ! 7)) center,
                  rl_mul R (rl_literal R (gauss_weights ! 3)) center)) (\<lambda>totals.
                 ireturn (kronrod_estimate R half_width totals)))) 15"
    by (simp only: Let_def) simp
qed

lemma adaptive_keeps: "keeps_budget (integrate_adaptive R f n a b tol)"
proof (induction n arbitrary: a b tol)
  case 0
  then show ?case by (simp add: kronrod_keeps)
next
  case (Suc n)
  then show ?case by (auto simp: Let_def intro!: keeps_ibind kronrod_keeps)
qed

lemma slab_keeps: "keeps_budget (integrate_phase_safe_slab R f a b p tol)"
  unfolding integrate_phase_safe_slab_def Let_def
  by (intro keeps_ibind keeps_ifold adaptive_keeps keeps_ireturn)

lemma tail_keeps: "(\<And>a b. keeps_budget (slab a b)) \<Longrightarrow> keeps_budget (tail_slabs R policy slab n a q e)"
  by (induction n arbitrary: a q e) (auto simp: Let_def intro!: keeps_ibind)

text \<open>C35. However its inversion integral ends, by returning a probability or by throwing, the analytic price has
  called the characteristic function at most as often as its counter says, and never more than the
  500,000 calls of the budget: the counter is charged in batches of fifteen before the calls are made.\<close>

theorem integration_budget_respected:
  "let b = snd (adaptive_probability R h asset_probability scale weight tolerance)
   in length (sampled_points b) \<le> evaluations b \<and> evaluations b \<le> 500000 \<and> 15 dvd evaluations b"
proof -
  let ?f = "normalized_integrand R h asset_probability scale"
  let ?p = "make_tail_policy R weight tolerance"
  let ?slab = "\<lambda>lower upper. integrate_phase_safe_slab R ?f lower upper (phase_rate_of R h scale) (slab_tolerance ?p)"
  have "keeps_budget (ibind (?slab (rl_literal R ''0.0'') (rl_literal R ''8.0'')) (\<lambda>first.
      ibind (tail_slabs R ?p ?slab kMaximumTailSlabs (rl_literal R ''8.0'') 0 first) (\<lambda>e.
        ireturn (Inr (rl_add R (rl_literal R ''0.5'')
          (rl_div R (estimate_value e) (rl_acos R (rl_literal R ''-1.0''))))))))"
    by (intro keeps_ibind tail_keeps slab_keeps keeps_ireturn)
  moreover have "within_budget \<lparr>evaluations = 0, sampled_points = []\<rparr>"
    by (simp add: within_budget_def)
  ultimately have "within_budget (snd (adaptive_probability R h asset_probability scale weight tolerance))"
    by (auto simp: keeps_budget_def adaptive_probability_def Let_def)
  then show ?thesis by (simp add: within_budget_def kMaximumIntegrandEvaluations_def Let_def)
qed

section \<open>Convergence of the Fourier tail\<close>

lemma ibind_Inr:
  assumes "fst (ibind m f b) = Inr y"
  obtains x b' where "m b = (Inr x, b')" "fst (f x b') = Inr y"
  using assms by (auto simp: ibind_def split: prod.splits sum.splits)

text \<open>The tail slabs start at powers of two times the cutoff.\<close>

fun slab_start :: "'r real_lib \<Rightarrow> nat \<Rightarrow> 'r \<Rightarrow> 'r" where
  "slab_start R 0 lower = lower"
| "slab_start R (Suc n) lower = slab_start R n (rl_mul R (rl_literal R ''2.0'') lower)"

text \<open>\<open>estimate\<close> is what the computation \<open>m\<close> returns from some budget.\<close>

definition returns :: "('r, 'a) integration \<Rightarrow> 'a \<Rightarrow> bool" where
  "returns m x \<longleftrightarrow> (\<exists>b. fst (m b) = Inr x)"

definition converged_tail ::
  "'r real_lib \<Rightarrow> 'r tail_policy \<Rightarrow> ('r \<Rightarrow> 'r \<Rightarrow> ('r, 'r integral_estimate) integration) \<Rightarrow> 'r \<Rightarrow> nat
    \<Rightarrow> 'r integral_estimate \<Rightarrow> 'r integral_estimate list \<Rightarrow> bool" where
  "converged_tail R policy slab lower quiet first tails \<longleftrightarrow>
     (\<forall>i < length tails. returns (slab (slab_start R i lower) (slab_start R (Suc i) lower)) (tails ! i)) \<and>
     kRequiredQuietTailSlabs \<le> quiet + length tails \<and>
     (\<forall>i < length tails. length tails \<le> i + kRequiredQuietTailSlabs \<longrightarrow> quiet_slab R policy (tails ! i)) \<and>
     small_error R policy (foldl (add_estimates R) first tails)"

lemma tail_slabs_converged:
  assumes "fst (tail_slabs R policy slab n lower quiet first b) = Inr e"
  shows "\<exists>tails. tails \<noteq> [] \<and> length tails \<le> n \<and> converged_tail R policy slab lower quiet first tails \<and>
    e = foldl (add_estimates R) first tails"
  using assms
proof (induction n arbitrary: lower quiet first b)
  case 0
  then show ?case by (simp add: ireturn_def)
next
  case (Suc n)
  let ?upper = "rl_mul R (rl_literal R ''2.0'') lower"
  let ?q = "\<lambda>tail. if quiet_slab R policy tail then quiet + 1 else 0"
  let ?e = "\<lambda>tail. add_estimates R first tail"
  obtain tail b' where tail: "slab lower ?upper b = (Inr tail, b')"
    and rest: "fst ((if kRequiredQuietTailSlabs \<le> ?q tail \<and> small_error R policy (?e tail)
               then ireturn (Inr (?e tail))
               else tail_slabs R policy slab n ?upper (?q tail) (?e tail)) b') = Inr e"
    by (rule ibind_Inr [OF Suc.prems [unfolded tail_slabs.simps Let_def]])
  have first_slab: "returns (slab lower ?upper) tail" using tail by (auto simp: returns_def intro!: exI [of _ b])
  let ?q = "?q tail" and ?e = "?e tail"
  show ?case
  proof (cases "kRequiredQuietTailSlabs \<le> ?q \<and> small_error R policy ?e")
    case True
    then have "converged_tail R policy slab lower quiet first [tail]" "e = ?e"
      using first_slab rest
      by (auto simp: converged_tail_def ireturn_def kRequiredQuietTailSlabs_def split: if_splits)
    then show ?thesis by (intro exI [of _ "[tail]"]) simp
  next
    case False
    then have "fst (tail_slabs R policy slab n ?upper ?q ?e b') = Inr e" using rest by (simp only: if_False)
    from Suc.IH [OF this] obtain tails where tails: "tails \<noteq> []" "length tails \<le> n"
      "converged_tail R policy slab ?upper ?q ?e tails" "e = foldl (add_estimates R) ?e tails" by blast
    have "converged_tail R policy slab lower quiet first (tail # tails)"
      unfolding converged_tail_def
    proof (intro conjI allI impI)
      fix i assume "i < length (tail # tails)"
      then show "returns (slab (slab_start R i lower) (slab_start R (Suc i) lower)) ((tail # tails) ! i)"
        using tails(3) first_slab by (cases i) (auto simp: converged_tail_def)
    next
      show "kRequiredQuietTailSlabs \<le> quiet + length (tail # tails)"
        using tails(3) by (auto simp: converged_tail_def split: if_splits)
    next
      fix i assume i: "i < length (tail # tails)" "length (tail # tails) \<le> i + kRequiredQuietTailSlabs"
      then show "quiet_slab R policy ((tail # tails) ! i)"
        using tails(3) by (cases i) (auto simp: converged_tail_def split: if_splits)
    next
      show "small_error R policy (foldl (add_estimates R) first (tail # tails))"
        using tails(3) by (simp add: converged_tail_def)
    qed
    then show ?thesis using tails by (intro exI [of _ "tail # tails"]) simp
  qed
qed

text \<open>A probability is only returned once its inversion integral has converged: it is one half plus the sum of
  the initial slab and at least three and at most twenty tail slabs divided by \<open>\<pi>\<close>, where the slabs
  are consecutive and double in width, the last three of them are quiet, and the accumulated error
  estimate is at most three quarters of the tolerance.\<close>

theorem probability_converged:
  assumes "fst (adaptive_probability R h asset_probability scale weight tolerance) = Inr p"
  shows "\<exists>first tails.
    let policy = make_tail_policy R weight tolerance;
        slab = (\<lambda>lower upper. integrate_phase_safe_slab R (normalized_integrand R h asset_probability scale)
          lower upper (phase_rate_of R h scale) (slab_tolerance policy));
        cutoff = rl_literal R ''8.0''
    in returns (slab (rl_literal R ''0.0'') cutoff) first \<and> 3 \<le> length tails \<and> length tails \<le> 20 \<and>
       converged_tail R policy slab cutoff 0 first tails \<and>
       p = rl_add R (rl_literal R ''0.5'')
         (rl_div R (estimate_value (foldl (add_estimates R) first tails)) (rl_acos R (rl_literal R ''-1.0'')))"
proof -
  let ?policy = "make_tail_policy R weight tolerance"
  let ?slab = "\<lambda>lower upper. integrate_phase_safe_slab R (normalized_integrand R h asset_probability scale)
    lower upper (phase_rate_of R h scale) (slab_tolerance ?policy)"
  let ?cutoff = "rl_literal R ''8.0''"
  obtain first b' where first: "?slab (rl_literal R ''0.0'') ?cutoff \<lparr>evaluations = 0, sampled_points = []\<rparr> = (Inr first, b')"
    and rest: "fst (ibind (tail_slabs R ?policy ?slab kMaximumTailSlabs ?cutoff 0 first) (\<lambda>e.
      ireturn (Inr (rl_add R (rl_literal R ''0.5'')
        (rl_div R (estimate_value e) (rl_acos R (rl_literal R ''-1.0'')))))) b') = Inr p"
    by (rule ibind_Inr [OF assms [unfolded adaptive_probability_def Let_def]])
  obtain e b'' where e: "tail_slabs R ?policy ?slab kMaximumTailSlabs ?cutoff 0 first b' = (Inr e, b'')"
    and p: "p = rl_add R (rl_literal R ''0.5'') (rl_div R (estimate_value e) (rl_acos R (rl_literal R ''-1.0'')))"
    by (rule ibind_Inr [OF rest]) (simp add: ireturn_def)
  obtain tails where tails: "length tails \<le> 20" "converged_tail R ?policy ?slab ?cutoff 0 first tails"
      "e = foldl (add_estimates R) first tails"
    using tail_slabs_converged [of R ?policy ?slab kMaximumTailSlabs ?cutoff 0 first b' e] e
    by (auto simp: kMaximumTailSlabs_def)
  then have "3 \<le> length tails" by (simp add: converged_tail_def kRequiredQuietTailSlabs_def)
  moreover have "returns (?slab (rl_literal R ''0.0'') ?cutoff) first"
    unfolding returns_def using first by (metis fst_conv)
  ultimately show ?thesis using tails p by (auto simp: Let_def intro!: exI [of _ first] exI [of _ tails])
qed

text \<open>The two-valued arithmetic (zero or not) is enough to run an inversion to its end.\<close>

definition two_valued_lib :: "bool real_lib" where
  "two_valued_lib =
     \<lparr>rl_literal = (\<lambda>digits. digits \<noteq> ''0.0''), rl_of_double = (\<lambda>x. mag x \<noteq> 0),
      rl_to_double = (\<lambda>x. if x then one64 else zero64), rl_of_size = (\<lambda>n. n \<noteq> 0), rl_to_size = (\<lambda>_. 1),
      rl_add = (\<or>), rl_sub = (\<lambda>a b. a), rl_mul = (\<and>), rl_div = (\<lambda>a b. a), rl_neg = (\<lambda>a. a),
      rl_abs = (\<lambda>a. a), rl_lt = (\<lambda>a b. \<not> a \<and> b), rl_le = (\<longrightarrow>), rl_eq = (=), rl_isfinite = (\<lambda>_. True),
      rl_epsilon = True, rl_sqrt = (\<lambda>a. a), rl_exp = (\<lambda>_. True), rl_expm1 = (\<lambda>a. a), rl_log = (\<lambda>a. a),
      rl_erfc = (\<lambda>_. True), rl_acos = (\<lambda>_. True), rl_cos = (\<lambda>_. True), rl_ceil = (\<lambda>a. a),
      rl_cmul = (\<lambda>_ _. (True, True)), rl_cdiv = (\<lambda>_ _. (False, False)), rl_csqrt = (\<lambda>a. a),
      rl_cexp = (\<lambda>_. (True, True))\<rparr>"

definition two_valued_inputs :: "bool heston_inputs" where
  "two_valued_inputs =
     \<lparr>hi_log_spot = True, hi_log_strike = True, hi_rate = False, hi_maturity = True, hi_initial_variance = True,
      hi_mean_reversion_rate = True, hi_long_run_variance = True, hi_volatility_of_variance = True,
      hi_correlation = False\<rparr>"


definition two_valued_integrand :: "bool \<Rightarrow> bool result" where
  "two_valued_integrand x =
     (if x then Inr False else Inl (Domain_error ''Heston analytic frequency scaling overflowed''))"

lemma two_valued_node: "\<exists>x w. legendre_node two_valued_lib order index = Inr (x, w)"
proof -
  have "(100 :: nat) = Suc 99" by simp
  then show ?thesis
    by (simp only: legendre_node_def newton_root.simps) (simp add: two_valued_lib_def Let_def split: prod.splits)
qed

lemma two_valued_rule: "\<exists>rule. time_quadrature_rule two_valued_lib = Inr rule"
proof -
  let ?step = "\<lambda>index rule. rbind (legendre_node two_valued_lib 64 index) (\<lambda>(x, weight).
    Inr (rule\<lparr>qr_nodes := (qr_nodes rule)[index := rl_neg two_valued_lib x, 64 - 1 - index := x],
      qr_weights := (qr_weights rule)[index := weight, 64 - 1 - index := weight]\<rparr>))"
  have "\<exists>s'. fold_result ?step xs s = Inr s'" for xs s
  proof (induction xs arbitrary: s)
    case (Cons i xs)
    obtain x w where "legendre_node two_valued_lib 64 i = Inr (x, w)" using two_valued_node by blast
    then show ?case using Cons by simp
  qed simp
  then show ?thesis by (simp add: time_quadrature_rule_def make_gauss_legendre_rule_def kTimeQuadratureOrder_def)
qed

lemma two_valued_ops [simp]:
  "rl_cdiv two_valued_lib x y = (False, False)" "rl_isfinite two_valued_lib v" "rl_div two_valued_lib v w = v"
  "rl_sub two_valued_lib v w = v" "rl_add two_valued_lib v w = (v \<or> w)" "rl_mul two_valued_lib v w = (v \<and> w)"
  "rl_abs two_valued_lib v = v" "rl_le two_valued_lib v w = (v \<longrightarrow> w)" "rl_lt two_valued_lib v w = (\<not> v \<and> w)"
  "rl_literal two_valued_lib l = (l \<noteq> ''0.0'')" "rl_acos two_valued_lib v" "rl_of_size two_valued_lib n = (n \<noteq> 0)"
  "rl_to_size two_valued_lib v = 1" "rl_ceil two_valued_lib v = v"
  by (simp_all add: two_valued_lib_def)

lemma two_valued_normalized:
  "normalized_integrand two_valued_lib two_valued_inputs True True = two_valued_integrand"
proof
  fix x
  obtain rule where rule: "time_quadrature_rule two_valued_lib = Inr rule" using two_valued_rule by blast
  have "fourier_integrand two_valued_lib two_valued_inputs True True = Inr False"
    by (simp add: fourier_integrand_def rule)
  then show "normalized_integrand two_valued_lib two_valued_inputs True True x = two_valued_integrand x"
    by (cases x) (simp_all add: normalized_integrand_def two_valued_integrand_def)
qed

lemma two_valued_kronrod:
  assumes "evaluations b \<le> 1000"
  shows "\<exists>b'. gauss_kronrod_15 two_valued_lib two_valued_integrand l True b =
    (Inr \<lparr>estimate_value = False, estimate_error = False\<rparr>, b') \<and> evaluations b' = evaluations b + 15"
proof -
  have pair: "\<exists>b'. kronrod_pair two_valued_lib two_valued_integrand True True i (False, False) b = (Inr (False, False), b') \<and>
      evaluations b' = evaluations b" if "i < 7" for i b
  proof -
    from that have "i \<in> {0, 1, 2, 3, 4, 5, 6}" by auto
    then have "kronrod_nodes ! i \<noteq> ''0.0''" by (auto simp: kronrod_nodes_def)
    then show ?thesis
      by (simp add: kronrod_pair_def ibind_def sample_def two_valued_integrand_def ireturn_def)
  qed
  have fold: "\<exists>b'. ifold (kronrod_pair two_valued_lib two_valued_integrand True True) xs (False, False) b =
      (Inr (False, False), b') \<and> evaluations b' = evaluations b" if "set xs \<subseteq> {..<7}" for xs b
    using that
  proof (induction xs arbitrary: b)
    case (Cons i xs)
    obtain b' where b': "kronrod_pair two_valued_lib two_valued_integrand True True i (False, False) b = (Inr (False, False), b')"
      "evaluations b' = evaluations b" using pair [of i b] Cons.prems by auto
    then show ?case using Cons.IH [of b'] Cons.prems by (simp add: ibind_def)
  qed (simp add: ireturn_def)
  let ?c = "b\<lparr>evaluations := evaluations b + 15, sampled_points := sampled_points b @ [True]\<rparr>"
  obtain b' where "ifold (kronrod_pair two_valued_lib two_valued_integrand True True) [0..<7] (False, False) ?c =
    (Inr (False, False), b')" "evaluations b' = evaluations ?c" using fold [of "[0..<7]" ?c] by (auto simp: atLeast0LessThan)
  then show ?thesis using assms
    by (simp add: gauss_kronrod_15_def ibind_def charge_samples_def kMaximumIntegrandEvaluations_def sample_def
        two_valued_integrand_def ireturn_def kronrod_estimate_def rmax_def del: upt_rec_numeral)
qed

lemma two_valued_slab:
  assumes "evaluations b \<le> 1000"
  shows "\<exists>b'. integrate_phase_safe_slab two_valued_lib two_valued_integrand l True pr tol b =
    (Inr \<lparr>estimate_value = False, estimate_error = False\<rparr>, b') \<and> evaluations b' = evaluations b + 15"
proof -
  obtain b' where b': "gauss_kronrod_15 two_valued_lib two_valued_integrand l True b =
    (Inr \<lparr>estimate_value = False, estimate_error = False\<rparr>, b')" "evaluations b' = evaluations b + 15"
    using two_valued_kronrod [OF assms] by blast
  have "integrate_adaptive two_valued_lib two_valued_integrand (Suc 19) l True tol b =
    (Inr \<lparr>estimate_value = False, estimate_error = False\<rparr>, b')"
    by (simp only: integrate_adaptive.simps ibind_def b') (simp add: ireturn_def)
  then show ?thesis using b'
    by (simp add: integrate_phase_safe_slab_def ibind_def ireturn_def phase_segments_def kMaximumAdaptiveDepth_def
        kMaximumIntegrandEvaluations_def add_estimates_def)
qed

lemma two_valued_tail:
  assumes "evaluations b \<le> 900" and "z = \<lparr>estimate_value = False, estimate_error = False\<rparr>"
    and "\<And>b l. evaluations b \<le> 1000 \<Longrightarrow> \<exists>b'. slab l True b = (Inr z, b') \<and> evaluations b' = evaluations b + 15"
  shows "fst (tail_slabs two_valued_lib policy slab (Suc (Suc (Suc n))) True 0 z b) = Inr z"
proof -
  obtain b1 where b1: "slab True True b = (Inr z, b1)" "evaluations b1 = evaluations b + 15"
    using assms(1) assms(3) [of b True] by auto
  obtain b2 where b2: "slab True True b1 = (Inr z, b2)" "evaluations b2 = evaluations b1 + 15"
    using assms(1) assms(3) [of b1 True] b1 by auto
  obtain b3 where b3: "slab True True b2 = (Inr z, b3)" using assms(1) assms(3) [of b2 True] b1 b2 by auto
  have "add_estimates two_valued_lib z z = z" "quiet_slab two_valued_lib policy z" "small_error two_valued_lib policy z"
    by (simp_all add: assms(2) add_estimates_def quiet_slab_def small_error_def)
  then show ?thesis by (simp add: ibind_def b1 b2 b3 ireturn_def kRequiredQuietTailSlabs_def)
qed

lemma two_valued_run:
  "fst (adaptive_probability two_valued_lib two_valued_inputs True True True True) = Inr True"
proof -
  let ?policy = "make_tail_policy two_valued_lib True True"
  let ?slab = "\<lambda>lower upper. integrate_phase_safe_slab two_valued_lib two_valued_integrand lower upper
    (phase_rate_of two_valued_lib two_valued_inputs True) (slab_tolerance ?policy)"
  let ?z = "\<lparr>estimate_value = False, estimate_error = False\<rparr>"
  obtain b where b: "?slab False True \<lparr>evaluations = 0, sampled_points = []\<rparr> = (Inr ?z, b)" "evaluations b = 15"
    using two_valued_slab [of "\<lparr>evaluations = 0, sampled_points = []\<rparr>"] by fastforce
  have "fst (tail_slabs two_valued_lib ?policy ?slab (Suc (Suc (Suc 17))) True 0 ?z b) = Inr ?z"
    by (rule two_valued_tail) (use b two_valued_slab in auto)
  moreover have "kMaximumTailSlabs = Suc (Suc (Suc 17))" by (simp add: kMaximumTailSlabs_def)
  ultimately have tail: "fst (tail_slabs two_valued_lib ?policy ?slab kMaximumTailSlabs True 0 ?z b) = Inr ?z" by simp
  then obtain b' where "tail_slabs two_valued_lib ?policy ?slab kMaximumTailSlabs True 0 ?z b = (Inr ?z, b')"
    by (metis prod.collapse)
  then show ?thesis using b by (simp add: adaptive_probability_def two_valued_normalized ibind_def ireturn_def Let_def)
qed

theorem probability_converged_witness:
  "\<exists>first tails.
    let policy = make_tail_policy two_valued_lib True True;
        slab = (\<lambda>lower upper. integrate_phase_safe_slab two_valued_lib
          (normalized_integrand two_valued_lib two_valued_inputs True True)
          lower upper (phase_rate_of two_valued_lib two_valued_inputs True) (slab_tolerance policy));
        cutoff = rl_literal two_valued_lib ''8.0''
    in returns (slab (rl_literal two_valued_lib ''0.0'') cutoff) first \<and> 3 \<le> length tails \<and> length tails \<le> 20 \<and>
       converged_tail two_valued_lib policy slab cutoff 0 first tails \<and>
       True = rl_add two_valued_lib (rl_literal two_valued_lib ''0.5'')
         (rl_div two_valued_lib (estimate_value (foldl (add_estimates two_valued_lib) first tails))
           (rl_acos two_valued_lib (rl_literal two_valued_lib ''-1.0'')))"
  by (rule probability_converged [OF two_valued_run])

section \<open>Bounds of the price\<close>

text \<open>What the price relies on in the platform's \<^verbatim>\<open>long double\<close>: a double converts to it and back without change,
  narrowing to double keeps the order, and subtracting a positive number gives a number that is not
  larger and compares with zero.\<close>

locale long_double =
  fixes R :: "'r real_lib"
  assumes narrow_zero: "rl_to_double R (rl_literal R ''0.0'') = zero64"
    and narrow_widened: "isfinite x \<Longrightarrow> rl_to_double R (rl_of_double R x) = x"
    and narrow_mono: "rl_le R a b \<Longrightarrow> fle (rl_to_double R a) (rl_to_double R b)"
    and subtract_positive: "isfinite x \<Longrightarrow> rl_isfinite R d \<Longrightarrow> \<not> rl_le R d (rl_literal R ''0.0'') \<Longrightarrow>
      rl_le R (rl_sub R (rl_of_double R x) d) (rl_of_double R x)"
    and subtract_compares: "isfinite x \<Longrightarrow> rl_isfinite R d \<Longrightarrow>
      rl_lt R (rl_sub R (rl_of_double R x) d) (rl_literal R ''0.0'') \<or>
      rl_le R (rl_literal R ''0.0'') (rl_sub R (rl_of_double R x) d)"
begin

lemma intrinsic_bound_range:
  assumes "isfinite x" "flt zero64 x" "rl_isfinite R d" "\<not> rl_le R d (rl_literal R ''0.0'')"
  shows "fle zero64 (intrinsic_bound R (rl_of_double R x) d) \<and> fle (intrinsic_bound R (rl_of_double R x) d) x"
proof (cases "rl_lt R (rl_sub R (rl_of_double R x) d) (rl_literal R ''0.0'')")
  case True
  then have "intrinsic_bound R (rl_of_double R x) d = zero64"
    by (simp add: intrinsic_bound_def rmax_def narrow_zero)
  then show ?thesis using assms(2) by (auto simp: fle_def flt_def)
next
  case False
  then have bound: "intrinsic_bound R (rl_of_double R x) d = rl_to_double R (rl_sub R (rl_of_double R x) d)"
    by (simp add: intrinsic_bound_def rmax_def)
  have "fle zero64 (rl_to_double R (rl_sub R (rl_of_double R x) d))"
    using narrow_mono [of "rl_literal R ''0.0''"] subtract_compares [OF assms(1,3)] False by (simp add: narrow_zero)
  moreover have "fle (rl_to_double R (rl_sub R (rl_of_double R x) d)) x"
    using narrow_mono [OF subtract_positive [OF assms(1,3,4)]] by (simp add: narrow_widened assms(1))
  ultimately show ?thesis by (simp add: bound)
qed

lemma bounded_price_range:
  assumes "bounded_price R x (rl_of_double R x) d price = Inr p"
    and "isfinite x" "flt zero64 x" "rl_isfinite R d" "\<not> rl_le R d (rl_literal R ''0.0'')"
  shows "isfinite p \<and> fle zero64 p \<and> fle (intrinsic_bound R (rl_of_double R x) d) p \<and> fle p x"
proof -
  note range = intrinsic_bound_range [OF assms(2-5)]
  let ?low = "intrinsic_bound R (rl_of_double R x) d"
  have price: "isfinite (rl_to_double R price)" "p = clamp64 (rl_to_double R price) ?low x"
    using assms(1) by (auto simp: bounded_price_def Let_def split: if_splits)
  have num: "\<not> isnan ?low" "\<not> isnan x" "\<not> isnan (rl_to_double R price)"
    using range price(1) assms(2) by (auto simp: fle_def)
  consider "p = ?low" | "p = x" | "p = rl_to_double R price" "\<not> flt p ?low" "\<not> flt x p"
    using price(2) by (auto simp: clamp64_def split: if_splits)
  then have order: "fle ?low p \<and> fle p x"
    using range num by cases (auto simp: fle_def flt_def)
  then have "fle zero64 p" using range by (auto simp: fle_def)
  moreover have "isfinite p"
    using assms(2) order \<open>fle zero64 p\<close> isfinite_between [of zero64 x p] by (auto simp: fle_def)
  ultimately show ?thesis using order by simp
qed

end

text \<open>On platforms whose \<^verbatim>\<open>long double\<close> is binary64 (Windows, and ARM processors under macOS) the arithmetic is the
  one of \<open>Binary64\<close>; the elementary functions are those of \<open>M\<close>.  Literals are the nearest doubles.\<close>

definition double_literals :: "(string \<times> double) list" where
  "double_literals =
     [(''-1.0'', Double 0xBFF0000000000000),
      (''0.0'', Double 0x0000000000000000),
      (''0.022935322010529224963732008058970'', Double 0x3F977C5B67D57470),
      (''0.063092092629978553290700663189204'', Double 0x3FB026CDAA7B61C4),
      (''0.104790010322250183839876322541518'', Double 0x3FBAD384A34814C6),
      (''0.129484966168869693270611432679082'', Double 0x3FC092F69F826D57),
      (''0.140653259715525918745189590510238'', Double 0x3FC200ED0F46E8C1),
      (''0.169004726639267902826583426598550'', Double 0x3FC5A1F266E47D5C),
      (''0.190350578064785409913256402421014'', Double 0x3FC85D6861C80EB1),
      (''0.204432940075298892414161999234649'', Double 0x3FCA2ADBCBEC9CD8),
      (''0.207784955007898467600689403773245'', Double 0x3FCA98B2892E0C77),
      (''0.209482141084727828012999174891714'', Double 0x3FCAD04F9087090F),
      (''0.279705391489276667901467771423780'', Double 0x3FD1E6B1713D8644),
      (''0.381830050505118944950369775488975'', Double 0x3FD86FE74EE32B3D),
      (''0.405845151377397166906606412076961'', Double 0x3FD9F95DF119FD62),
      (''0.417959183673469387755102040816327'', Double 0x3FDABFD7E03C2FA6),
      (''0.5'', Double 0x3FE0000000000000),
      (''0.586087235467691130294144838258730'', Double 0x3FE2C13A049DFA24),
      (''0.741531185599394439863864773280788'', Double 0x3FE7BA9F9BE3A1D6),
      (''0.75'', Double 0x3FE8000000000000),
      (''0.864864423359769072789712788640926'', Double 0x3FEBACF827B9BB3E),
      (''0.949107912342758524526189684047851'', Double 0x3FEE5F178E7C6229),
      (''0.991455371120812639206854697526329'', Double 0x3FEFBA009D4D09B1),
      (''1.0'', Double 0x3FF0000000000000),
      (''1.0e-11'', Double 0x3DA5FD7FE1796495),
      (''1.0e-4'', Double 0x3F1A36E2EB1C432D),
      (''1.0e-9'', Double 0x3E112E0BE826D695),
      (''120.0'', Double 0x405E000000000000),
      (''2.0'', Double 0x4000000000000000),
      (''24.0'', Double 0x4038000000000000),
      (''32.0'', Double 0x4040000000000000),
      (''50.0'', Double 0x4049000000000000),
      (''6.0'', Double 0x4018000000000000),
      (''64.0'', Double 0x4050000000000000),
      (''8.0'', Double 0x4020000000000000)]"

definition binary64_lib :: "double real_lib \<Rightarrow> double real_lib" where
  "binary64_lib M = M\<lparr>
     rl_literal := (\<lambda>digits. case map_of double_literals digits of Some x \<Rightarrow> x | None \<Rightarrow> nan64),
     rl_of_double := (\<lambda>x. x), rl_to_double := (\<lambda>x. x), rl_of_size := (\<lambda>n. of_u64 (of_nat n)), rl_to_size := to_size,
     rl_add := fadd, rl_sub := fsub, rl_mul := fmul, rl_div := fdiv, rl_neg := fneg, rl_abs := fabs,
     rl_lt := flt, rl_le := fle, rl_eq := feq, rl_isfinite := isfinite, rl_epsilon := epsilon64, rl_sqrt := fsqrt,
     rl_ceil := fceil\<rparr>"

lemma binary64_ops [simp]:
  "rl_literal (binary64_lib M) ''0.0'' = zero64" "rl_of_double (binary64_lib M) x = x"
  "rl_to_double (binary64_lib M) x = x" "rl_sub (binary64_lib M) = fsub" "rl_le (binary64_lib M) = fle"
  "rl_lt (binary64_lib M) = flt" "rl_isfinite (binary64_lib M) = isfinite" "rl_mul (binary64_lib M) = fmul"
  "rl_neg (binary64_lib M) = fneg" "rl_eq (binary64_lib M) = feq" "rl_exp (binary64_lib M) = rl_exp M"
  by (simp_all add: binary64_lib_def double_literals_def zero64_def mk_double_def)

interpretation binary64_ld: long_double "binary64_lib M" for M
proof (unfold_locales, simp_all)
  fix x d :: double
  assume x: "isfinite x" and d: "isfinite d"
  have num: "\<not> isnan (fsub x d)" using x d by simp
  then show "flt (fsub x d) zero64 \<or> fle zero64 (fsub x d)" by (auto simp: flt_def fle_def)
  assume "\<not> fle d zero64"
  then have "0 < ord64 d" using d by (simp add: not_fle_zero)
  then show "fle (fsub x d) x" using x d num fsub_le [of x d] by (simp add: fle_def)
qed

text \<open>C34. A Heston reference price that is returned at all satisfies the arbitrage bounds of a call exactly: it is
  a finite number, not negative, not below the discounted intrinsic value (as a double) and not above the
  spot price, whichever branch computed it and whatever the elementary functions returned.  The hypothesis
  is what the platform's \<^verbatim>\<open>long double\<close> promises.\<close>

theorem heston_price_bounds:
  assumes "long_double R" and "heston_european_call_price R s k r t params = Inr p"
  shows "isfinite p \<and> fle zero64 p \<and>
    fle (intrinsic_bound R (rl_of_double R s) (discounted_strike_of R k r t)) p \<and> fle p s"
proof -
  let ?d = "discounted_strike_of R k r t"
  have valid: "heston_inputs_valid s k r t params"
    and d: "rl_isfinite R ?d" "\<not> rl_le R ?d (rl_literal R ''0.0'')"
    and "\<exists>price. bounded_price R s (rl_of_double R s) ?d price = Inr p"
    using assms(2) by (auto simp: heston_european_call_price_def Let_def discounted_strike_of_def heston_inputs_of_def
        split: if_splits)
  then obtain price where "bounded_price R s (rl_of_double R s) ?d price = Inr p" by blast
  then show ?thesis
    using long_double.bounded_price_range [OF assms(1) _ _ _ d] valid by (simp add: heston_inputs_valid_def)
qed

text \<open>A call at the money with no variance and no interest, where the exponential function is only needed at zero.\<close>

definition flat_lib :: "double real_lib" where
  "flat_lib =
     \<lparr>rl_literal = (\<lambda>_. zero64), rl_of_double = (\<lambda>x. x), rl_to_double = (\<lambda>x. x), rl_of_size = (\<lambda>_. zero64),
      rl_to_size = to_size, rl_add = fadd, rl_sub = fsub, rl_mul = fmul, rl_div = fdiv, rl_neg = fneg, rl_abs = fabs,
      rl_lt = flt, rl_le = fle, rl_eq = feq, rl_isfinite = isfinite, rl_epsilon = epsilon64, rl_sqrt = fsqrt,
      rl_exp = (\<lambda>_. one64), rl_expm1 = (\<lambda>x. x), rl_log = (\<lambda>_. zero64), rl_erfc = (\<lambda>_. one64),
      rl_acos = (\<lambda>_. zero64), rl_cos = (\<lambda>_. one64), rl_ceil = fceil, rl_cmul = (\<lambda>a b. a), rl_cdiv = (\<lambda>a b. a),
      rl_csqrt = (\<lambda>a. a), rl_cexp = (\<lambda>a. a)\<rparr>"

definition flat_params :: heston_params where
  "flat_params = \<lparr>initial_variance = zero64, mean_reversion_rate = zero64, long_run_variance = zero64,
     volatility_of_variance = zero64, correlation = zero64, discretization_version = 1\<rparr>"

lemma one_is_a_number [simp]: "isfinite one64" "\<not> isnan one64" "0 < ord64 one64" "0 \<le> ord64 one64" "\<not> ord64 one64 < 0"
  by (simp_all add: one64_def isfinite_def isnan_def ord64_def mag_def signbit_def)

lemma flat_literals [simp]: "rl_literal (binary64_lib M) ''1.0'' = one64"
  by (simp add: binary64_lib_def double_literals_def one64_def)

lemma flat_inputs: "heston_inputs_valid one64 one64 zero64 one64 flat_params"
proof -
  have "ord64 minus_one64 < 0" "\<not> isnan minus_one64"
    by (simp_all add: minus_one64_def isnan_def ord64_def mag_def signbit_def)
  then show ?thesis by (simp add: heston_inputs_valid_def flat_params_def flt_def)
qed

lemma flat_tolerance: "\<not> isnan (fmul hundred_twenty_eight64 epsilon64)" "0 \<le> ord64 (fmul hundred_twenty_eight64 epsilon64)"
proof -
  have "isfinite hundred_twenty_eight64" "0 \<le> ord64 hundred_twenty_eight64" "isfinite epsilon64" "0 \<le> ord64 epsilon64"
    by (simp_all add: hundred_twenty_eight64_def epsilon64_def isfinite_def ord64_def mag_def signbit_def)
  then show "\<not> isnan (fmul hundred_twenty_eight64 epsilon64)" "0 \<le> ord64 (fmul hundred_twenty_eight64 epsilon64)"
    by (simp_all add: fmul_sign)
qed

lemma flat_bounded: "bounded_price (binary64_lib M) one64 one64 one64 zero64 = Inr zero64"
proof -
  have "ord64 one64 \<le> ord64 (fadd one64 (fmul hundred_twenty_eight64 epsilon64))"
    "ord64 (fsub zero64 (fmul hundred_twenty_eight64 epsilon64)) \<le> 0"
    using fadd_nonneg_ge [OF _ flat_tolerance, of one64] fsub_nonneg_le [OF _ flat_tolerance, of zero64] by simp_all
  then have "\<not> flt zero64 (fsub zero64 (fmul hundred_twenty_eight64 epsilon64))"
    "\<not> flt (fadd one64 (fmul hundred_twenty_eight64 epsilon64)) zero64"
    using one_is_a_number(3) by (auto simp: flt_def simp del: one_is_a_number)
  then show ?thesis
    by (simp add: bounded_price_def intrinsic_bound_def price_scale_def rmax_def fsub_self fmul_one_right flat_tolerance
        clamp64_def flt_def Let_def)
qed

lemma flat_price: "heston_european_call_price (binary64_lib flat_lib) one64 one64 zero64 one64 flat_params = Inr zero64"
proof -
  have "rl_exp flat_lib x = one64" for x by (simp add: flat_lib_def)
  then show ?thesis using flat_inputs
    by (simp add: heston_european_call_price_def heston_inputs_of_def expected_integrated_variance_def
        deterministic_variance_call_def rmax_def fsub_self fmul_one_right flat_bounded flat_params_def feq_def flt_def fle_def)
qed

theorem heston_price_bounds_witness:
  "long_double (binary64_lib flat_lib) \<and>
   heston_european_call_price (binary64_lib flat_lib) one64 one64 zero64 one64 flat_params = Inr zero64 \<and>
   fle (intrinsic_bound (binary64_lib flat_lib) one64 (discounted_strike_of (binary64_lib flat_lib) one64 zero64 one64)) zero64 \<and>
   fle zero64 one64"
  using heston_price_bounds [OF binary64_ld.long_double_axioms flat_price] binary64_ld.long_double_axioms [of flat_lib] flat_price
  by simp

end
