(* ===== verification/Latency_Metrics.thy ===== *)
theory Latency_Metrics
  imports Float_Integers "HOL-Library.Multiset"
begin

text \<open>
  The runtime metrics (\<^verbatim>\<open>src/metrics.cpp\<close>, \<^verbatim>\<open>include/mc/metrics.hpp\<close>): the sample slots that are set up before a
  run and the nearest-rank percentile of the recorded latencies.
\<close>

section \<open>Model\<close>

record worker_metrics =
  wm_blocks_completed :: u64
  wm_scenarios_completed :: u64
  wm_assignment_wait_ns :: u64
  wm_compute_ns :: u64
  wm_completion_queue_wait_ns :: u64

record durable_io_metrics =
  io_metadata_files_installed :: u64
  io_result_files_installed :: u64
  io_manifest_files_installed :: u64
  io_bytes_written :: u64
  io_write_ns :: u64
  io_file_fsync_ns :: u64
  io_rename_ns :: u64
  io_directory_fsync_ns :: u64

record runtime_metrics =
  rm_total_elapsed_ns :: u64
  rm_durable_open_ns :: u64
  rm_scheduler_assignment_wait_ns :: u64
  rm_coordinator_completion_wait_ns :: u64
  rm_coordinator_consume_ns :: u64
  rm_fixed_tree_reduce_ns :: u64
  rm_max_assignment_queue_depth :: u64
  rm_max_completion_queue_depth :: u64
  rm_max_reduction_backlog_blocks :: u64
  rm_max_reduction_backlog_bytes :: u64
  rm_workers :: "worker_metrics list"
  rm_block_compute_ns :: "u64 list"
  rm_result_persist_ns :: "u64 list"
  rm_block_commit_ns :: "u64 list"
  rm_checkpoint_ns :: "u64 list"
  rm_checkpoint_samples_dropped :: u64
  rm_durable_io :: durable_io_metrics

definition no_durable_io :: durable_io_metrics where
  "no_durable_io = \<lparr>io_metadata_files_installed = 0, io_result_files_installed = 0, io_manifest_files_installed = 0,
     io_bytes_written = 0, io_write_ns = 0, io_file_fsync_ns = 0, io_rename_ns = 0, io_directory_fsync_ns = 0\<rparr>"

text \<open>\<^verbatim>\<open>reset\<close>; the capacities only reserve memory.\<close>

definition metrics_reset :: "nat \<Rightarrow> runtime_metrics \<Rightarrow> runtime_metrics" where
  "metrics_reset block_count m = m\<lparr>
     rm_total_elapsed_ns := 0, rm_durable_open_ns := 0, rm_scheduler_assignment_wait_ns := 0,
     rm_coordinator_completion_wait_ns := 0, rm_coordinator_consume_ns := 0, rm_fixed_tree_reduce_ns := 0,
     rm_max_assignment_queue_depth := 0, rm_max_completion_queue_depth := 0, rm_max_reduction_backlog_blocks := 0,
     rm_max_reduction_backlog_bytes := 0, rm_workers := [], rm_block_compute_ns := replicate block_count 0,
     rm_result_persist_ns := replicate block_count 0, rm_block_commit_ns := replicate block_count 0,
     rm_checkpoint_ns := [], rm_checkpoint_samples_dropped := 0, rm_durable_io := no_durable_io\<rparr>"

text \<open>The position \<^verbatim>\<open>nth_element\<close> is asked for.\<close>

definition rank_index :: "double \<Rightarrow> nat \<Rightarrow> nat" where
  "rank_index quantile n =
     (let rank = fceil (fmul quantile (of_u64 (of_nat n)))
      in if fle rank one64 then 0 else to_size (fsub rank one64))"

definition latency_percentile_ns :: "u64 list \<Rightarrow> double \<Rightarrow> u64 option result" where
  "latency_percentile_ns samples quantile =
     (if \<not> isfinite quantile \<or> flt quantile zero64 \<or> flt one64 quantile
      then Inl (Invalid_argument ''latency quantile must be in [0, 1]'')
      else
        (let observed = filter (\<lambda>sample. sample \<noteq> 0) samples
         in if observed = [] then Inr None
            else Inr (Some (sort observed ! rank_index quantile (length observed)))))"

section \<open>The rank\<close>

lemma quantile_ok:
  "isfinite q \<Longrightarrow> \<not> flt q zero64 \<Longrightarrow> \<not> flt one64 q \<Longrightarrow> fle zero64 q \<and> fle q one64"
  by (auto simp: flt_def fle_def isfinite_not)

text \<open>The index in exact arithmetic: one less than the ceiling of the product, at least 0.\<close>

lemma rank_index_exact:
  assumes q: "isfinite q" "fle zero64 q" "fle q one64" and n: "0 < n" "n < 2 ^ 53"
  shows "rank_index q n = nat (ceil_units (fmul q (of_u64 (of_nat n)))) - 1" "rank_index q n < n"
proof -
  let ?d = "fmul q (of_u64 (of_nat n))"
  let ?c = "ceil_units ?d"
  have un: "unat (of_nat n :: u64) = n" using n(2) by (intro unat_of_nat_u64) simp
  then have small: "unat (of_nat n :: u64) < 2 ^ 53" using n(2) by simp
  note fr = fraction_of_count [OF q small]
  have c: "0 \<le> ?c" "?c \<le> int n"
    using rounded_range [OF fr(2,3)] unfolding un by auto
  have b: "\<bar>?c\<bar> < 2 ^ 53" using c n(2) by simp
  let ?r = "fceil ?d"
  have r: "?r = integral (signbit ?d) ?c" using fr(1) by (simp add: fceil_def)
  note e = integral_exact [OF b, of "signbit ?d"]
  have one: "units one64 = 1 * int unit_scale" using mag_units_one by (simp add: units_def)
  have "fle ?r one64 \<longleftrightarrow> units ?r \<le> units one64" using e(2) r by (simp add: fle_def isfinite_not)
  also have "\<dots> \<longleftrightarrow> ?c \<le> 1" unfolding r e(1) one scale_cancel ..
  finally have le: "fle ?r one64 \<longleftrightarrow> ?c \<le> 1" .
  have "to_size (fsub ?r one64) = nat ?c - 1" if "1 < ?c"
  proof -
    have b1: "\<bar>?c - 1\<bar> < 2 ^ 53" using b that by simp
    note e1 = integral_exact [OF b1, of False]
    have u: "units ?r - units one64 = units (integral False (?c - 1))"
      unfolding r e(1) one e1(1) by (simp add: algebra_simps)
    have "ord64 (fsub ?r one64) = ord64 (integral False (?c - 1))"
      using fsub_le [of ?r one64 "integral False (?c - 1)"] fsub_ge [of ?r one64 "integral False (?c - 1)"] e(2) e1(2) u r
      by (intro order_antisym) auto
    then have "units (fsub ?r one64) = units (integral False (?c - 1))" by simp
    then have "floor_units (fsub ?r one64) = floor_units (integral False (?c - 1))" by (simp only: floor_units_def)
    then have "floor_units (fsub ?r one64) = ?c - 1" using floor_units_integral [OF b1, of False] by simp
    then show ?thesis using that by (simp add: to_size_def nat_diff_distrib)
  qed
  then show i: "rank_index q n = nat ?c - 1"
    using le c(1) by (auto simp: rank_index_def Let_def)
  show "rank_index q n < n" unfolding i using c n(1) by linarith
qed

text \<open>The element at a position of the sorted list splits the list by rank.\<close>

lemma nth_rank:
  fixes xs :: "u64 list"
  assumes "i < length xs"
  shows "sort xs ! i \<in> set xs" "length (filter (\<lambda>x. x < sort xs ! i) xs) \<le> i" "i < length (filter (\<lambda>x. x \<le> sort xs ! i) xs)"
proof -
  let ?s = "sort xs"
  have i: "i < length ?s" using assms by simp
  then show "?s ! i \<in> set xs" using nth_mem [OF i] by simp
  have count: "length (filter P xs) = card {j. j < length ?s \<and> P (?s ! j)}" for P
  proof -
    have "length (filter P xs) = length (filter P ?s)"
      by (metis mset_filter mset_sort size_mset)
    then show ?thesis by (simp add: length_filter_conv_card)
  qed
  have "{j. j < length ?s \<and> ?s ! j < ?s ! i} \<subseteq> {..<i}"
    using sorted_nth_mono [OF sorted_sort, of i _ xs] by (auto simp: not_le [symmetric])
  from card_mono [OF _ this] show "length (filter (\<lambda>x. x < ?s ! i) xs) \<le> i" unfolding count by simp
  have "{..i} \<subseteq> {j. j < length ?s \<and> ?s ! j \<le> ?s ! i}"
    using i sorted_nth_mono [OF sorted_sort, of _ i xs] by auto
  from card_mono [OF _ this] show "i < length (filter (\<lambda>x. x \<le> ?s ! i) xs)" unfolding count by simp
qed

section \<open>Properties\<close>

text \<open>The latency percentile is the nearest-rank percentile: for a quantile in [0, 1] it is absent
  exactly when no latency was recorded, and otherwise it is a recorded nonzero latency such that fewer
  recorded latencies are below it than the rank (the rounded product of the quantile and their number,
  rounded up, at least 1), and at least as many are at most it.  The position computed in floating point
  is never outside the samples.\<close>

theorem latency_percentile_nearest_rank:
  assumes "isfinite quantile" "fle zero64 quantile" "fle quantile one64" "length samples < 2 ^ 53"
  shows "case latency_percentile_ns samples quantile of
      Inl e \<Rightarrow> False
    | Inr None \<Rightarrow> \<forall>x \<in> set samples. x = 0
    | Inr (Some v) \<Rightarrow>
        (let observed = filter (\<lambda>x. x \<noteq> 0) samples;
             rank = max 1 (nat (ceil_units (fmul quantile (of_u64 (of_nat (length observed))))))
         in v \<in> set observed \<and> length (filter (\<lambda>x. x < v) observed) < rank \<and> rank \<le> length (filter (\<lambda>x. x \<le> v) observed))"
proof -
  let ?obs = "filter (\<lambda>x. x \<noteq> 0) samples"
  have ok: "\<not> (\<not> isfinite quantile \<or> flt quantile zero64 \<or> flt one64 quantile)"
    using assms(1-3) by (auto simp: flt_def fle_def)
  show ?thesis
  proof (cases "?obs = []")
    case True
    then show ?thesis using ok by (auto simp: latency_percentile_ns_def filter_empty_conv)
  next
    case False
    have n: "0 < length ?obs" "length ?obs < 2 ^ 53"
      using False assms(4) length_filter_le [of "\<lambda>x. x \<noteq> 0" samples] by (simp, linarith)
    note r = rank_index_exact [OF assms(1-3) n]
    note s = nth_rank [OF r(2)]
    have "latency_percentile_ns samples quantile = Inr (Some (sort ?obs ! rank_index quantile (length ?obs)))"
      using ok False by (simp add: latency_percentile_ns_def Let_def)
    then show ?thesis
      using s r(1) by (simp add: Let_def) linarith
  qed
qed

theorem latency_percentile_nearest_rank_witness:
  "isfinite half64 \<and> (\<exists>v. latency_percentile_ns [5, 0, 3, 9] half64 = Inr (Some v) \<and> v \<in> {5, 3, 9})"
proof -
  have h: "isfinite half64" "fle zero64 half64" "fle half64 one64"
    by (simp_all add: half64_def isfinite_def fle_def isnan_def ord64_def mag_def signbit_def one64_def zero64_def mk_double_def)
  from latency_percentile_nearest_rank [OF h, of "[5, 0, 3, 9]"] h(1) show ?thesis
    by (auto simp: Let_def split: sum.splits option.splits)
qed

end
