(* ===== verification/Simulation_Cli.thy ===== *)
theory Simulation_Cli
  imports Command_Line Durable_Safety Heston_Analytic Latency_Metrics
begin

text \<open>
  The main program, \<^verbatim>\<open>tools/run_simulation.cpp\<close>: its options, the checks before a run, the choice between
  \<^verbatim>\<open>run_parallel\<close> and \<^verbatim>\<open>run_parallel_durable\<close>, the analytic reference price and what is reported.  A run is a
  relation, because the threads interleave; the clock and the number of processors are parameters.
\<close>

section \<open>Options\<close>

record simulation_options =
  so_spec :: run_spec
  so_config :: engine_config
  so_store :: run_store_config
  so_durable :: bool
  so_store_policy_set :: bool
  so_metrics_enabled :: bool
  so_gbm_volatility_set :: bool

definition default_simulation_options :: "u64 \<Rightarrow> simulation_options" where
  "default_simulation_options hardware_concurrency =
     \<lparr>so_spec = default_run_spec,
      so_config = default_engine_config\<lparr>worker_count := max 1 hardware_concurrency\<rparr>,
      so_store = default_run_store_config [],
      so_durable = False, so_store_policy_set = False, so_metrics_enabled = False, so_gbm_volatility_set = False\<rparr>"

text \<open>The lambda \<^verbatim>\<open>heston_parameters\<close>: the parameters, created with their defaults on first use.\<close>

definition with_heston :: "(heston_params \<Rightarrow> heston_params) \<Rightarrow> run_spec \<Rightarrow> run_spec" where
  "with_heston f spec = spec\<lparr>heston := Some (f (case heston spec of None \<Rightarrow> default_heston | Some h \<Rightarrow> h))\<rparr>"

definition set_u64 ::
  "string \<Rightarrow> (u64 \<Rightarrow> simulation_options \<Rightarrow> simulation_options) \<Rightarrow> string \<Rightarrow> simulation_options \<Rightarrow> simulation_options result" where
  "set_u64 name f v opts = rbind (parse_u64 v name) (\<lambda>n. Inr (f n opts))"

definition set_double ::
  "string \<Rightarrow> (double \<Rightarrow> simulation_options \<Rightarrow> simulation_options) \<Rightarrow> string \<Rightarrow> simulation_options \<Rightarrow> simulation_options result" where
  "set_double name f v opts = rbind (parse_finite_double v name) (\<lambda>x. Inr (f x opts))"

definition set_store ::
  "string \<Rightarrow> (u64 \<Rightarrow> run_store_config \<Rightarrow> run_store_config) \<Rightarrow> string \<Rightarrow> simulation_options \<Rightarrow> simulation_options result" where
  "set_store name f = set_u64 name (\<lambda>n opts. opts\<lparr>so_store_policy_set := True, so_store := f n (so_store opts)\<rparr>)"

definition set_spec :: "(run_spec \<Rightarrow> run_spec) \<Rightarrow> simulation_options \<Rightarrow> simulation_options" where
  "set_spec f opts = opts\<lparr>so_spec := f (so_spec opts)\<rparr>"

definition set_config :: "(engine_config \<Rightarrow> engine_config) \<Rightarrow> simulation_options \<Rightarrow> simulation_options" where
  "set_config f opts = opts\<lparr>so_config := f (so_config opts)\<rparr>"

definition set_steps :: "string \<Rightarrow> simulation_options \<Rightarrow> simulation_options result" where
  "set_steps v opts =
     rbind (parse_u64 v ''steps'') (\<lambda>n.
       if ucast kMaxTimeSteps < n then Inl (Invalid_argument ''steps exceeds RNG layout v1'')
       else Inr (set_spec (\<lambda>s. s\<lparr>num_time_steps := ucast n\<rparr>) opts))"

definition set_model :: "string \<Rightarrow> simulation_options \<Rightarrow> simulation_options result" where
  "set_model v opts =
     (if v = ''gbm'' then Inr (set_spec (\<lambda>s. s\<lparr>spec_model_type := Gbm\<rparr>) opts)
      else if v = ''heston'' then Inr (set_spec (\<lambda>s. with_heston id (s\<lparr>spec_model_type := Heston\<rparr>)) opts)
      else Inl (Invalid_argument ''model must be gbm or heston''))"

definition set_payoff :: "string \<Rightarrow> simulation_options \<Rightarrow> simulation_options result" where
  "set_payoff v opts =
     (if v = ''european'' then Inr (set_spec (\<lambda>s. s\<lparr>spec_payoff_type := EuropeanCall\<rparr>) opts)
      else if v = ''asian'' then Inr (set_spec (\<lambda>s. s\<lparr>spec_payoff_type := AsianCall\<rparr>) opts)
      else Inl (Invalid_argument ''payoff must be european or asian''))"

definition simulation_flags :: "(string \<times> (simulation_options \<Rightarrow> simulation_options)) list" where
  "simulation_flags =
     [(''--antithetic'', set_spec (\<lambda>s. s\<lparr>antithetic := True\<rparr>)),
      (''--metrics'', \<lambda>opts. opts\<lparr>so_metrics_enabled := True\<rparr>)]"

definition simulation_settings :: "(string \<times> (string \<Rightarrow> simulation_options \<Rightarrow> simulation_options result)) list" where
  "simulation_settings =
     [(''--scenarios'', set_u64 ''scenarios'' (\<lambda>n. set_spec (\<lambda>s. s\<lparr>total_scenarios := n\<rparr>))),
      (''--steps'', set_steps),
      (''--workers'', \<lambda>v opts. rbind (parse_size v ''workers'') (\<lambda>n. Inr (set_config (\<lambda>c. c\<lparr>worker_count := n\<rparr>) opts))),
      (''--block-size'', set_u64 ''block-size'' (\<lambda>n. set_config (\<lambda>c. c\<lparr>block_size := n\<rparr>))),
      (''--max-blocks'', set_u64 ''max-blocks'' (\<lambda>n. set_config (\<lambda>c. c\<lparr>max_materialized_blocks := n\<rparr>))),
      (''--run-dir'', \<lambda>v opts. Inr (opts\<lparr>so_durable := True, so_store := (so_store opts)\<lparr>rsc_run_directory := v\<rparr>\<rparr>)),
      (''--checkpoint-blocks'', set_store ''checkpoint-blocks'' (\<lambda>n c. c\<lparr>rsc_checkpoint_interval_blocks := n\<rparr>)),
      (''--max-storage-bytes'', set_store ''max-storage-bytes'' (\<lambda>n c. c\<lparr>rsc_max_storage_bytes := n\<rparr>)),
      (''--max-storage-files'', set_store ''max-storage-files'' (\<lambda>n c. c\<lparr>rsc_max_storage_files := n\<rparr>)),
      (''--min-free-bytes'', set_store ''min-free-bytes'' (\<lambda>n c. c\<lparr>rsc_min_free_space_bytes := n\<rparr>)),
      (''--max-manifest-bytes'', set_store ''max-manifest-bytes'' (\<lambda>n c. c\<lparr>rsc_max_manifest_bytes := n\<rparr>)),
      (''--seed'', set_u64 ''seed'' (\<lambda>n. set_spec (\<lambda>s. s\<lparr>global_seed := n\<rparr>))),
      (''--model'', set_model),
      (''--payoff'', set_payoff),
      (''--spot'', set_double ''spot'' (\<lambda>x. set_spec (\<lambda>s. s\<lparr>spot := x\<rparr>))),
      (''--strike'', set_double ''strike'' (\<lambda>x. set_spec (\<lambda>s. s\<lparr>strike := x\<rparr>))),
      (''--rate'', set_double ''rate'' (\<lambda>x. set_spec (\<lambda>s. s\<lparr>rate := x\<rparr>))),
      (''--volatility'', set_double ''volatility'' (\<lambda>x opts.
         (set_spec (\<lambda>s. s\<lparr>volatility := x\<rparr>) opts)\<lparr>so_gbm_volatility_set := True\<rparr>)),
      (''--heston-v0'', set_double ''heston-v0'' (\<lambda>x. set_spec (with_heston (\<lambda>h. h\<lparr>initial_variance := x\<rparr>)))),
      (''--heston-kappa'', set_double ''heston-kappa'' (\<lambda>x. set_spec (with_heston (\<lambda>h. h\<lparr>mean_reversion_rate := x\<rparr>)))),
      (''--heston-theta'', set_double ''heston-theta'' (\<lambda>x. set_spec (with_heston (\<lambda>h. h\<lparr>long_run_variance := x\<rparr>)))),
      (''--heston-xi'', set_double ''heston-xi'' (\<lambda>x. set_spec (with_heston (\<lambda>h. h\<lparr>volatility_of_variance := x\<rparr>)))),
      (''--heston-rho'', set_double ''heston-rho'' (\<lambda>x. set_spec (with_heston (\<lambda>h. h\<lparr>correlation := x\<rparr>)))),
      (''--maturity'', set_double ''maturity'' (\<lambda>x. set_spec (\<lambda>s. s\<lparr>maturity := x\<rparr>)))]"

definition check_simulation_options :: "simulation_options \<Rightarrow> unit result" where
  "check_simulation_options opts =
     (if so_store_policy_set opts \<and> \<not> so_durable opts
      then Inl (Invalid_argument ''durable storage policy options require --run-dir'')
      else if spec_model_type (so_spec opts) = Heston \<and> so_gbm_volatility_set opts
      then Inl (Invalid_argument ''--volatility is GBM-only; use Heston variance parameters'')
      else validate_run_spec (so_spec opts))"

section \<open>The reference price\<close>

text \<open>The name of the field and the price, which is missing when its computation threw.\<close>

definition available :: "'a result \<Rightarrow> 'a option" where
  "available r = (case r of Inl e \<Rightarrow> None | Inr x \<Rightarrow> Some x)"

definition analytic_reference :: "libm \<Rightarrow> 'r real_lib \<Rightarrow> run_spec \<Rightarrow> (string \<times> double option) option" where
  "analytic_reference L R s =
     (if spec_payoff_type s \<noteq> EuropeanCall then None
      else if spec_model_type s = Gbm
      then Some (''black_scholes_price'',
        available (black_scholes_call_price L (spot s) (strike s) (rate s) (volatility s) (maturity s)))
      else Some (''heston_analytic_price'',
        case heston s of
          None \<Rightarrow> None
        | Some h \<Rightarrow> available (heston_european_call_price R (spot s) (strike s) (rate s) (maturity s) h)))"

section \<open>The report\<close>

record simulation_report =
  sr_options :: simulation_options
  sr_result :: run_result
  sr_durable :: "durable_run_result option"
  sr_reference :: "(string \<times> double option) option"
  sr_seconds :: double
  sr_standard_error :: "double option"
  sr_confidence_low :: "double option"
  sr_confidence_high :: "double option"
  sr_run_spec_hash :: sha256_digest
  sr_execution_layout_hash :: sha256_digest
  sr_build_fingerprint :: sha256_digest
  sr_warnings :: "run_warning list"

definition z_default :: double where "z_default = Double 0x3FFF5C28F5C28F5C"  \<comment> \<open>1.96\<close>

text \<open>What follows a completed run.\<close>

definition make_simulation_report ::
  "libm \<Rightarrow> 'r real_lib \<Rightarrow> build_env \<Rightarrow> double \<Rightarrow> simulation_options \<Rightarrow> run_result \<Rightarrow> durable_run_result option \<Rightarrow>
   simulation_report result" where
  "make_simulation_report L R env seconds opts res durable =
     (if \<not> flt zero64 seconds then Inl (Runtime_error ''steady clock produced a non-positive duration'')
      else
        rbind (confidence_low res z_default) (\<lambda>low.
        rbind (confidence_high res z_default) (\<lambda>high.
        rbind (run_spec_hash (so_spec opts)) (\<lambda>spec_hash.
        rbind (execution_layout_hash (so_spec opts) (so_config opts)) (\<lambda>layout_hash.
        rbind (run_warnings (so_spec opts)) (\<lambda>warnings.
          Inr \<lparr>sr_options = opts, sr_result = res, sr_durable = durable,
               sr_reference = analytic_reference L R (so_spec opts), sr_seconds = seconds,
               sr_standard_error = standard_error (result_aggregate res), sr_confidence_low = low,
               sr_confidence_high = high, sr_run_spec_hash = spec_hash, sr_execution_layout_hash = layout_hash,
               sr_build_fingerprint = build_hash (current_build_identity env), sr_warnings = warnings\<rparr>))))))"

section \<open>The program\<close>

datatype simulation_outcome = Help_shown | Reported simulation_report | Failed exn | Process_killed

definition report_outcome :: "simulation_report result \<Rightarrow> simulation_outcome" where
  "report_outcome r = (case r of Inl e \<Rightarrow> Failed e | Inr report \<Rightarrow> Reported report)"

definition durable_simulation_outcome ::
  "(run_result \<Rightarrow> durable_run_result option \<Rightarrow> simulation_report result) \<Rightarrow> durable_run_result outcome \<Rightarrow> simulation_outcome" where
  "durable_simulation_outcome report out =
     (case out of
        Returned res \<Rightarrow> report_outcome (report (dr_run_result res) (Some res))
      | Raised e \<Rightarrow> Failed e
      | Killed \<Rightarrow> Process_killed)"

definition run_simulation ::
  "libm \<Rightarrow> 'r real_lib \<Rightarrow> build_env \<Rightarrow> (string \<Rightarrow> string list) \<Rightarrow> (string \<Rightarrow> string + bool) \<Rightarrow> u64 \<Rightarrow> double \<Rightarrow>
   string list \<Rightarrow> world \<Rightarrow> simulation_outcome \<Rightarrow> world \<Rightarrow> bool" where
  "run_simulation L R env canonical exists hardware seconds arguments w out w' \<longleftrightarrow>
     (case parse_options simulation_flags simulation_settings arguments (default_simulation_options hardware) of
        Inl e \<Rightarrow> out = Failed e \<and> w' = w
      | Inr None \<Rightarrow> out = Help_shown \<and> w' = w
      | Inr (Some opts) \<Rightarrow>
          (case check_simulation_options opts of
             Inl e \<Rightarrow> out = Failed e \<and> w' = w
           | Inr _ \<Rightarrow>
               if so_durable opts
               then \<exists>d. run_parallel_durable L env canonical exists (so_spec opts) (so_config opts) (so_store opts) w d w' \<and>
                      out = durable_simulation_outcome (make_simulation_report L R env seconds opts) d
               else \<exists>r. run_parallel L env (so_spec opts) (so_config opts) r \<and> w' = w \<and>
                      out = report_outcome (rbind r (\<lambda>res. make_simulation_report L R env seconds opts res None))))"

section \<open>What the command line denotes\<close>

text \<open>The options as the help text describes them, without the argument loop: a field holds the last value given
  to its option and its default when the option is absent.\<close>

definition switches :: "string list" where "switches = [''--antithetic'', ''--metrics'']"

definition u64_text :: "string \<Rightarrow> u64 \<Rightarrow> bool" where
  "u64_text v n \<longleftrightarrow> parse_u64 v ''value'' = Inr n"

definition double_text :: "string \<Rightarrow> double \<Rightarrow> bool" where
  "double_text v x \<longleftrightarrow> parse_finite_double v ''value'' = Inr x"

definition heston_values :: "run_spec \<Rightarrow> heston_params" where
  "heston_values spec = (case heston spec of None \<Rightarrow> default_heston | Some h \<Rightarrow> h)"

definition heston_option :: "string \<times> string \<Rightarrow> bool" where
  "heston_option p \<longleftrightarrow> p = (''--model'', ''heston'') \<or>
     fst p \<in> {''--heston-v0'', ''--heston-kappa'', ''--heston-theta'', ''--heston-xi'', ''--heston-rho''}"

definition storage_option :: "string \<times> string \<Rightarrow> bool" where
  "storage_option p \<longleftrightarrow> fst p \<in> {''--checkpoint-blocks'', ''--max-storage-bytes'', ''--max-storage-files'',
     ''--min-free-bytes'', ''--max-manifest-bytes''}"

definition spec_denoted :: "string list \<Rightarrow> run_spec \<Rightarrow> run_spec \<Rightarrow> bool" where
  "spec_denoted arguments d s \<longleftrightarrow>
     (let given = last_given switches arguments in
        reads u64_text (given ''--seed'') (global_seed d) (global_seed s) \<and>
        reads u64_text (given ''--scenarios'') (total_scenarios d) (total_scenarios s) \<and>
        reads (\<lambda>v n. u64_text v (ucast n)) (given ''--steps'') (num_time_steps d) (num_time_steps s) \<and>
        reads double_text (given ''--maturity'') (maturity d) (maturity s) \<and>
        reads double_text (given ''--spot'') (spot d) (spot s) \<and>
        reads double_text (given ''--strike'') (strike d) (strike s) \<and>
        reads double_text (given ''--rate'') (rate d) (rate s) \<and>
        reads double_text (given ''--volatility'') (volatility d) (volatility s) \<and>
        reads (\<lambda>v m. (v, m) \<in> {(''gbm'', Gbm), (''heston'', Heston)}) (given ''--model'') (spec_model_type d) (spec_model_type s) \<and>
        reads (\<lambda>v q. (v, q) \<in> {(''european'', EuropeanCall), (''asian'', AsianCall)}) (given ''--payoff'')
          (spec_payoff_type d) (spec_payoff_type s) \<and>
        reads double_text (given ''--heston-v0'') (initial_variance (heston_values d)) (initial_variance (heston_values s)) \<and>
        reads double_text (given ''--heston-kappa'') (mean_reversion_rate (heston_values d)) (mean_reversion_rate (heston_values s)) \<and>
        reads double_text (given ''--heston-theta'') (long_run_variance (heston_values d)) (long_run_variance (heston_values s)) \<and>
        reads double_text (given ''--heston-xi'') (volatility_of_variance (heston_values d)) (volatility_of_variance (heston_values s)) \<and>
        reads double_text (given ''--heston-rho'') (correlation (heston_values d)) (correlation (heston_values s)) \<and>
        (heston s \<noteq> None \<longleftrightarrow> heston d \<noteq> None \<or> (\<exists>p \<in> set (option_values switches arguments). heston_option p)) \<and>
        (antithetic s \<longleftrightarrow> antithetic d \<or> ''--antithetic'' \<in> set (flags_given switches arguments)) \<and>
        discretization_version (heston_values s) = discretization_version (heston_values d) \<and>
        (engine_version s, rng_version s, stats_schema_version s) = (engine_version d, rng_version d, stats_schema_version d))"

definition config_denoted :: "string list \<Rightarrow> engine_config \<Rightarrow> engine_config \<Rightarrow> bool" where
  "config_denoted arguments d c \<longleftrightarrow>
     (let given = last_given switches arguments in
        reads u64_text (given ''--workers'') (worker_count d) (worker_count c) \<and>
        reads u64_text (given ''--block-size'') (block_size d) (block_size c) \<and>
        reads u64_text (given ''--max-blocks'') (max_materialized_blocks d) (max_materialized_blocks c) \<and>
        (assignment_queue_capacity c, completion_queue_capacity c) = (assignment_queue_capacity d, completion_queue_capacity d))"

definition store_denoted :: "string list \<Rightarrow> run_store_config \<Rightarrow> run_store_config \<Rightarrow> bool" where
  "store_denoted arguments d c \<longleftrightarrow>
     (let given = last_given switches arguments in
        reads (=) (given ''--run-dir'') (rsc_run_directory d) (rsc_run_directory c) \<and>
        reads u64_text (given ''--checkpoint-blocks'') (rsc_checkpoint_interval_blocks d) (rsc_checkpoint_interval_blocks c) \<and>
        reads u64_text (given ''--max-storage-bytes'') (rsc_max_storage_bytes d) (rsc_max_storage_bytes c) \<and>
        reads u64_text (given ''--max-storage-files'') (rsc_max_storage_files d) (rsc_max_storage_files c) \<and>
        reads u64_text (given ''--min-free-bytes'') (rsc_min_free_space_bytes d) (rsc_min_free_space_bytes c) \<and>
        reads u64_text (given ''--max-manifest-bytes'') (rsc_max_manifest_bytes d) (rsc_max_manifest_bytes c) \<and>
        rsc_failure_injection c = rsc_failure_injection d)"

definition options_denoted :: "string list \<Rightarrow> simulation_options \<Rightarrow> simulation_options \<Rightarrow> bool" where
  "options_denoted arguments d opts \<longleftrightarrow>
     spec_denoted arguments (so_spec d) (so_spec opts) \<and>
     config_denoted arguments (so_config d) (so_config opts) \<and>
     store_denoted arguments (so_store d) (so_store opts) \<and>
     (so_durable opts \<longleftrightarrow> so_durable d \<or> (\<exists>p \<in> set (option_values switches arguments). fst p = ''--run-dir'')) \<and>
     (so_store_policy_set opts \<longleftrightarrow> so_store_policy_set d \<or> (\<exists>p \<in> set (option_values switches arguments). storage_option p)) \<and>
     (so_gbm_volatility_set opts \<longleftrightarrow> so_gbm_volatility_set d \<or>
       (\<exists>p \<in> set (option_values switches arguments). fst p = ''--volatility'')) \<and>
     (so_metrics_enabled opts \<longleftrightarrow> so_metrics_enabled d \<or> ''--metrics'' \<in> set (flags_given switches arguments))"

lemma flag_names: "map fst simulation_flags = switches"
  by (simp add: simulation_flags_def switches_def)

lemma value_texts:
  "parse_u64 v field = Inr n \<longleftrightarrow> u64_text v n" "parse_finite_double v field = Inr x \<longleftrightarrow> double_text v x"
  by (auto simp: u64_text_def double_text_def parse_u64_def parse_finite_double_def Let_def
      split: option.splits if_splits from_chars_result.splits)

lemma size_text: "parse_size v field = Inr n \<longleftrightarrow> u64_text v n"
  by (auto simp: parse_size_def value_texts not_less u64_le_max)

lemma steps_exact: "\<not> ucast kMaxTimeSteps < (n :: u64) \<Longrightarrow> ucast (ucast n :: u32) = n"
  by (simp add: kMaxTimeSteps_def word_less_nat_alt word_unat_eq_iff unsigned_ucast_eq
      take_bit_nat_eq_self_iff unsigned_take_bit_eq)

lemmas setting_defs = simulation_settings_def simulation_flags_def set_u64_def set_double_def set_store_def set_spec_def
  set_config_def set_steps_def set_model_def set_payoff_def with_heston_def heston_values_def


lemma parsed_config:
  assumes p: "parse_options simulation_flags simulation_settings arguments d = Inr (Some opts)"
  shows "config_denoted arguments (so_config d) (so_config opts)"
proof -
  have "(assignment_queue_capacity (so_config opts), completion_queue_capacity (so_config opts)) =
      (assignment_queue_capacity (so_config d), completion_queue_capacity (so_config d))"
    by (rule parse_options_keep [OF p]) (auto simp: setting_defs split: if_splits)
  then show ?thesis unfolding config_denoted_def Let_def
    by (intro conjI parse_options_reads [OF p, unfolded flag_names])
       (simp_all add: setting_defs value_texts size_text imp_ex imp_conjL)
qed

lemma parsed_store:
  assumes p: "parse_options simulation_flags simulation_settings arguments d = Inr (Some opts)"
  shows "store_denoted arguments (so_store d) (so_store opts)"
proof -
  have "rsc_failure_injection (so_store opts) = rsc_failure_injection (so_store d)"
    by (rule parse_options_keep [OF p]) (auto simp: setting_defs split: if_splits)
  then show ?thesis unfolding store_denoted_def Let_def
    by (intro conjI parse_options_reads [OF p, unfolded flag_names])
       (simp_all add: setting_defs value_texts size_text imp_ex imp_conjL)
qed

lemma parsed_switches:
  assumes p: "parse_options simulation_flags simulation_settings arguments d = Inr (Some opts)"
  shows "heston (so_spec opts) \<noteq> None \<longleftrightarrow>
      heston (so_spec d) \<noteq> None \<or> (\<exists>p \<in> set (option_values switches arguments). heston_option p)"
    "antithetic (so_spec opts) \<longleftrightarrow> antithetic (so_spec d) \<or> ''--antithetic'' \<in> set (flags_given switches arguments)"
    "so_durable opts \<longleftrightarrow> so_durable d \<or> (\<exists>p \<in> set (option_values switches arguments). fst p = ''--run-dir'')"
    "so_store_policy_set opts \<longleftrightarrow> so_store_policy_set d \<or> (\<exists>p \<in> set (option_values switches arguments). storage_option p)"
    "so_gbm_volatility_set opts \<longleftrightarrow> so_gbm_volatility_set d \<or>
      (\<exists>p \<in> set (option_values switches arguments). fst p = ''--volatility'')"
    "so_metrics_enabled opts \<longleftrightarrow> so_metrics_enabled d \<or> ''--metrics'' \<in> set (flags_given switches arguments)"
proof -
  note given = parse_options_given [OF p, unfolded flag_names] and flag = parse_options_flag [OF p, unfolded flag_names]
    and defs = setting_defs value_texts size_text imp_ex imp_conjL heston_option_def storage_option_def
  show "heston (so_spec opts) \<noteq> None \<longleftrightarrow>
      heston (so_spec d) \<noteq> None \<or> (\<exists>p \<in> set (option_values switches arguments). heston_option p)"
    by (rule given [where get = "\<lambda>x. heston (so_spec x) \<noteq> None"]) (simp_all add: defs)
  show "antithetic (so_spec opts) \<longleftrightarrow> antithetic (so_spec d) \<or> ''--antithetic'' \<in> set (flags_given switches arguments)"
    by (rule flag [where get = "\<lambda>x. antithetic (so_spec x)"]) (simp_all add: defs)
  show "so_durable opts \<longleftrightarrow> so_durable d \<or> (\<exists>p \<in> set (option_values switches arguments). fst p = ''--run-dir'')"
    by (rule given [where get = so_durable]) (simp_all add: defs)
  show "so_store_policy_set opts \<longleftrightarrow> so_store_policy_set d \<or> (\<exists>p \<in> set (option_values switches arguments). storage_option p)"
    by (rule given [where get = so_store_policy_set]) (simp_all add: defs)
  show "so_gbm_volatility_set opts \<longleftrightarrow> so_gbm_volatility_set d \<or>
      (\<exists>p \<in> set (option_values switches arguments). fst p = ''--volatility'')"
    by (rule given [where get = so_gbm_volatility_set]) (simp_all add: defs)
  show "so_metrics_enabled opts \<longleftrightarrow> so_metrics_enabled d \<or> ''--metrics'' \<in> set (flags_given switches arguments)"
    by (rule flag [where get = so_metrics_enabled]) (simp_all add: defs)
qed

lemma parsed_spec:
  assumes p: "parse_options simulation_flags simulation_settings arguments d = Inr (Some opts)"
  shows "spec_denoted arguments (so_spec d) (so_spec opts)"
proof -
  have "discretization_version (heston_values (so_spec opts)) = discretization_version (heston_values (so_spec d))"
    by (rule parse_options_keep [OF p]) (auto simp: setting_defs split: if_splits option.splits)
  moreover have "(engine_version (so_spec opts), rng_version (so_spec opts), stats_schema_version (so_spec opts)) =
      (engine_version (so_spec d), rng_version (so_spec d), stats_schema_version (so_spec d))"
    by (rule parse_options_keep [OF p]) (auto simp: setting_defs split: if_splits)
  ultimately show ?thesis unfolding spec_denoted_def Let_def
    by (intro conjI parsed_switches(1,2) [OF p] parse_options_reads [OF p, unfolded flag_names])
       (simp_all add: setting_defs value_texts size_text imp_ex imp_conjL steps_exact)
qed

lemma parsed_options:
  assumes "parse_options simulation_flags simulation_settings arguments d = Inr (Some opts)"
  shows "options_denoted arguments d opts"
  unfolding options_denoted_def
  using parsed_spec [OF assms] parsed_config [OF assms] parsed_store [OF assms] parsed_switches [OF assms] by blast

section \<open>What a report says\<close>

lemma sequential_same_blocks:
  assumes "sequential_run L spec c = Inr x" "sequential_run L spec c' = Inr y" "block_size c = block_size c'"
  shows "same_estimate x y"
proof -
  obtain bs bs' where bs: "make_blocks spec c = Inr bs" "make_blocks spec c' = Inr bs'"
    using assms(1,2) by (auto simp: sequential_run_def)
  have "make_block spec c = make_block spec c'" "blocks_needed spec c = blocks_needed spec c'"
    using assms(3) by (simp_all add: fun_eq_iff make_block_def blocks_needed_def)
  then have "bs = bs'" using make_blocks_Inr(3) [OF bs(1)] make_blocks_Inr(3) [OF bs(2)] by simp
  then show ?thesis using assms(1,2) bs by (auto simp: sequential_run_def same_estimate_def)
qed

lemma make_report_Inr:
  assumes "make_simulation_report L R env seconds opts res durable = Inr r"
  shows "sr_options r = opts" "sr_result r = res" "sr_durable r = durable"
    "sr_reference r = analytic_reference L R (so_spec opts)"
    "sr_standard_error r = standard_error (result_aggregate res)"
    "confidence_low res z_default = Inr (sr_confidence_low r)" "confidence_high res z_default = Inr (sr_confidence_high r)"
    "run_spec_hash (so_spec opts) = Inr (sr_run_spec_hash r)" "run_warnings (so_spec opts) = Inr (sr_warnings r)"
    "sr_seconds r = seconds"
    "execution_layout_hash (so_spec opts) (so_config opts) = Inr (sr_execution_layout_hash r)"
    "sr_build_fingerprint r = build_hash (current_build_identity env)"
  using assms by (auto simp: make_simulation_report_def split: if_splits)

lemma outcome_Reported [simp]:
  "Reported r = report_outcome x \<longleftrightarrow> x = Inr r"
  "Reported r = durable_simulation_outcome report out \<longleftrightarrow>
    (\<exists>res. out = Returned res \<and> report (dr_run_result res) (Some res) = Inr r)"
  by (auto simp: report_outcome_def durable_simulation_outcome_def split: sum.splits outcome.splits)

text \<open>A report comes from a parsed and checked set of options and a completed run.\<close>

lemma run_simulation_Reported:
  assumes "run_simulation L R env canonical exists hardware seconds arguments w (Reported r) w'"
  shows "check_simulation_options (sr_options r) = Inr ()"
    "make_simulation_report L R env seconds (sr_options r) (sr_result r) (sr_durable r) = Inr r"
    "so_durable (sr_options r) \<Longrightarrow> \<exists>res. sr_durable r = Some res \<and> sr_result r = dr_run_result res \<and>
      run_parallel_durable L env canonical exists (so_spec (sr_options r)) (so_config (sr_options r)) (so_store (sr_options r))
        w (Returned res) w'"
    "\<not> so_durable (sr_options r) \<Longrightarrow> sr_durable r = None \<and> w' = w \<and>
      run_parallel L env (so_spec (sr_options r)) (so_config (sr_options r)) (Inr (sr_result r))"
    "options_denoted arguments (default_simulation_options hardware) (sr_options r)"
proof -
  obtain opts where c: "check_simulation_options opts = Inr ()" and
    parsed: "options_denoted arguments (default_simulation_options hardware) opts" and
    run: "if so_durable opts
      then \<exists>d. run_parallel_durable L env canonical exists (so_spec opts) (so_config opts) (so_store opts) w d w' \<and>
             Reported r = durable_simulation_outcome (make_simulation_report L R env seconds opts) d
      else \<exists>x. run_parallel L env (so_spec opts) (so_config opts) x \<and> w' = w \<and>
             Reported r = report_outcome (rbind x (\<lambda>res. make_simulation_report L R env seconds opts res None))"
  proof -
    obtain opts where o: "parse_options simulation_flags simulation_settings arguments (default_simulation_options hardware) =
        Inr (Some opts)"
      using assms by (auto simp: run_simulation_def split: sum.splits option.splits)
    obtain u where "check_simulation_options opts = Inr u"
      using assms by (auto simp: run_simulation_def o split: sum.splits)
    then show thesis using assms that [of opts] parsed_options [OF o] by (simp add: run_simulation_def o)
  qed
  have all: "check_simulation_options (sr_options r) = Inr () \<and>
    make_simulation_report L R env seconds (sr_options r) (sr_result r) (sr_durable r) = Inr r \<and>
    (so_durable (sr_options r) \<longrightarrow> (\<exists>res. sr_durable r = Some res \<and> sr_result r = dr_run_result res \<and>
      run_parallel_durable L env canonical exists (so_spec (sr_options r)) (so_config (sr_options r)) (so_store (sr_options r))
        w (Returned res) w')) \<and>
    (\<not> so_durable (sr_options r) \<longrightarrow> sr_durable r = None \<and> w' = w \<and>
      run_parallel L env (so_spec (sr_options r)) (so_config (sr_options r)) (Inr (sr_result r))) \<and>
    options_denoted arguments (default_simulation_options hardware) (sr_options r)"
  proof (cases "so_durable opts")
    case True
    then obtain res where "run_parallel_durable L env canonical exists (so_spec opts) (so_config opts) (so_store opts) w (Returned res) w'"
      "make_simulation_report L R env seconds opts (dr_run_result res) (Some res) = Inr r" using run by auto
    then show ?thesis using True c parsed by (simp add: make_report_Inr)
  next
    case False
    then obtain res where "run_parallel L env (so_spec opts) (so_config opts) (Inr res)" "w' = w"
      "make_simulation_report L R env seconds opts res None = Inr r" using run by auto
    then show ?thesis using False c parsed by (simp add: make_report_Inr)
  qed
  from all show "check_simulation_options (sr_options r) = Inr ()"
    "make_simulation_report L R env seconds (sr_options r) (sr_result r) (sr_durable r) = Inr r"
    "options_denoted arguments (default_simulation_options hardware) (sr_options r)" by simp_all
  from all show "so_durable (sr_options r) \<Longrightarrow> \<exists>res. sr_durable r = Some res \<and> sr_result r = dr_run_result res \<and>
      run_parallel_durable L env canonical exists (so_spec (sr_options r)) (so_config (sr_options r)) (so_store (sr_options r))
        w (Returned res) w'" by blast
  from all show "\<not> so_durable (sr_options r) \<Longrightarrow> sr_durable r = None \<and> w' = w \<and>
      run_parallel L env (so_spec (sr_options r)) (so_config (sr_options r)) (Inr (sr_result r))" by blast
qed

lemma simulation_estimate:
  assumes run: "run_simulation L R env canonical exists hardware seconds arguments w (Reported r) w'"
    and history: "so_durable (sr_options r) \<Longrightarrow> durable_history L (so_spec (sr_options r)) w"
  shows "\<exists>s. sequential_run L (so_spec (sr_options r)) (so_config (sr_options r)) = Inr s \<and> same_estimate (sr_result r) s"
proof (cases "so_durable (sr_options r)")
  case True
  then obtain res where "sr_result r = dr_run_result res" "run_parallel_durable L env canonical exists
      (so_spec (sr_options r)) (so_config (sr_options r)) (so_store (sr_options r)) w (Returned res) w'"
    using run_simulation_Reported(3) [OF run] by blast
  then show ?thesis using durable_attempt(2) [OF history_evidence [OF history [OF True]]] by fastforce
next
  case False
  then have "run_parallel L env (so_spec (sr_options r)) (so_config (sr_options r)) (Inr (sr_result r))"
    using run_simulation_Reported(4) [OF run] by blast
  then have "sequential_run L (so_spec (sr_options r)) (so_config (sr_options r)) = Inr (sr_result r)"
    using run_parallel_sequential by blast
  then show ?thesis by (simp add: same_estimate_def)
qed

text \<open>C12. What the program reports is the run its command line asks for.  Whenever it prints a report, each
  option has the last value the arguments give it, or its default, and the options passed the checks: the
  specification is valid and a storage policy comes with a run directory.  The aggregate is, bit for bit, the one
  the sequential computation of all blocks gives, for a run in memory, which leaves the file system alone,
  and for a durable run on a directory with any history of crashed, killed or completed attempts at the same
  specification.  The standard error and the confidence bounds are those of that aggregate, the hashes are those of
  the specification, of the execution layout and of the build, the warnings are those of the specification, and a
  reference price that cannot be computed is reported as missing and nothing else.\<close>

theorem simulation_report_correct:
  assumes "run_simulation L R env canonical exists hardware seconds arguments w (Reported r) w'"
    and "so_durable (sr_options r) \<Longrightarrow> durable_history L (so_spec (sr_options r)) w"
  shows "options_denoted arguments (default_simulation_options hardware) (sr_options r) \<and>
    validate_run_spec (so_spec (sr_options r)) = Inr () \<and>
    (so_store_policy_set (sr_options r) \<longrightarrow> so_durable (sr_options r)) \<and>
    (\<not> so_durable (sr_options r) \<longrightarrow> sr_durable r = None \<and> w' = w) \<and>
    (so_durable (sr_options r) \<longrightarrow> (\<exists>res. sr_durable r = Some res \<and> sr_result r = dr_run_result res)) \<and>
    (\<exists>s. sequential_run L (so_spec (sr_options r)) (so_config (sr_options r)) = Inr s \<and> same_estimate (sr_result r) s \<and>
      sr_standard_error r = standard_error (result_aggregate s) \<and>
      confidence_low s z_default = Inr (sr_confidence_low r) \<and> confidence_high s z_default = Inr (sr_confidence_high r)) \<and>
    run_spec_hash (so_spec (sr_options r)) = Inr (sr_run_spec_hash r) \<and>
    execution_layout_hash (so_spec (sr_options r)) (so_config (sr_options r)) = Inr (sr_execution_layout_hash r) \<and>
    sr_build_fingerprint r = build_hash (current_build_identity env) \<and>
    run_warnings (so_spec (sr_options r)) = Inr (sr_warnings r) \<and>
    sr_reference r = analytic_reference L R (so_spec (sr_options r))"
proof -
  have valid: "validate_run_spec (so_spec (sr_options r)) = Inr () \<and>
      (so_store_policy_set (sr_options r) \<longrightarrow> so_durable (sr_options r))"
    using run_simulation_Reported(1) [OF assms(1)] by (auto simp: check_simulation_options_def split: if_splits)
  note report = make_report_Inr [OF run_simulation_Reported(2) [OF assms(1)]]
  obtain s where s: "sequential_run L (so_spec (sr_options r)) (so_config (sr_options r)) = Inr s" "same_estimate (sr_result r) s"
    using simulation_estimate [OF assms] by blast
  then have "sr_standard_error r = standard_error (result_aggregate s)"
    "confidence_low s z_default = Inr (sr_confidence_low r)" "confidence_high s z_default = Inr (sr_confidence_high r)"
    using report(5-7) by (simp_all add: same_estimate_def confidence_low_def confidence_high_def)
  then show ?thesis
    using valid s report(4,8,9,11,12) run_simulation_Reported(3-5) [OF assms(1)] by blast
qed

text \<open>C13. Reports are reproducible: two invocations whose options agree on the specification and the block size
  report the same aggregate, standard error and confidence bounds, the same specification hash, warnings
  and reference price.  The numbers of workers, the queue capacities, the storage options, the build, the
  clock, the interleavings, earlier crashes, and whether a run directory is used at all make no difference.\<close>

theorem simulation_reproducible:
  assumes "run_simulation L R env canonical exists hardware seconds arguments w (Reported r) w'"
    and "run_simulation L R env2 canonical2 exists2 hardware2 seconds2 arguments2 v (Reported q) v'"
    and "so_durable (sr_options r) \<Longrightarrow> durable_history L (so_spec (sr_options r)) w"
    and "so_durable (sr_options q) \<Longrightarrow> durable_history L (so_spec (sr_options q)) v"
    and "so_spec (sr_options r) = so_spec (sr_options q)"
    and "block_size (so_config (sr_options r)) = block_size (so_config (sr_options q))"
  shows "result_aggregate (sr_result r) = result_aggregate (sr_result q) \<and> sr_standard_error r = sr_standard_error q \<and>
    sr_confidence_low r = sr_confidence_low q \<and> sr_confidence_high r = sr_confidence_high q \<and>
    sr_run_spec_hash r = sr_run_spec_hash q \<and> sr_warnings r = sr_warnings q \<and> sr_reference r = sr_reference q"
proof -
  obtain x where x: "sequential_run L (so_spec (sr_options r)) (so_config (sr_options r)) = Inr x" "same_estimate (sr_result r) x"
    using simulation_estimate [OF assms(1,3)] by blast
  obtain y where y: "sequential_run L (so_spec (sr_options q)) (so_config (sr_options q)) = Inr y" "same_estimate (sr_result q) y"
    using simulation_estimate [OF assms(2,4)] by blast
  have "same_estimate x y" using sequential_same_blocks [OF x(1) y(1) [folded assms(5)] assms(6)] .
  then have a: "result_aggregate (sr_result r) = result_aggregate (sr_result q)"
    using x(2) y(2) by (simp add: same_estimate_def)
  note mr = make_report_Inr [OF run_simulation_Reported(2) [OF assms(1)]]
    and mq = make_report_Inr [OF run_simulation_Reported(2) [OF assms(2)]]
  show ?thesis
    using mr(4-9) mq(4-9) a assms(5) by (simp add: confidence_low_def confidence_high_def)
qed

section \<open>A concrete invocation\<close>

definition witness_arguments :: "string list" where
  "witness_arguments = [''--seed'', ''12'', ''--scenarios'', ''2'', ''--spot'', ''1'', ''--strike'', ''1'',
     ''--rate'', ''0.5'', ''--volatility'', ''1'', ''--antithetic'']"

definition witness_options :: simulation_options where
  "witness_options = (default_simulation_options 1)\<lparr>so_spec := witness_spec, so_gbm_volatility_set := True\<rparr>"

definition witness_durable_options :: simulation_options where
  "witness_durable_options = witness_options\<lparr>so_durable := True, so_store := default_run_store_config ''run''\<rparr>"

lemma scanned_texts: "scan_float ''1'' = Some (False, 1, 0)" "scan_float ''0.5'' = Some (False, 5, - 1)"
  by (simp_all add: scan_float_def scan_sign_def scan_digits_def scan_fraction_def scan_exponent_def is_digit_def
        digit_value_def text_value_def)

lemma parsed_texts:
  "parse_finite_double ''1'' field = Inr one64" "parse_finite_double ''0.5'' field = Inr half64"
proof -
  have "round_units (mag_units (mag one64) * 1) 1 = mag one64" "round_units (mag_units (mag half64) * 10) 10 = mag half64"
    by (subst round_units_exact; simp add: one64_def half64_def mag_def)+
  moreover have "mag_units (mag half64) * 10 = 5 * unit_scale"
    by (simp add: half64_def mag_def mag_units_def mag_shift_def unit_scale_def)
  moreover have "\<not> signbit half64" by (simp add: half64_def signbit_def)
  ultimately have "decimal_double False 1 0 = one64" "decimal_double False 5 (- 1) = half64"
    using mk_double_signbit_mag [of one64] mk_double_signbit_mag [of half64]
    by (simp_all add: decimal_double_def mag_units_one)
  then show "parse_finite_double ''1'' field = Inr one64" "parse_finite_double ''0.5'' field = Inr half64"
    by (simp_all add: parse_finite_double_def scanned_texts)
qed

lemma parsed_numbers: "parse_u64 ''12'' field = Inr 12" "parse_u64 ''2'' field = Inr 2"
  by (simp_all add: parse_u64_def from_chars_def is_digit_def digit_value_def text_value_def)

lemma witness_arguments_parsed:
  "parse_options simulation_flags simulation_settings witness_arguments (default_simulation_options 1) = Inr (Some witness_options)"
  "parse_options simulation_flags simulation_settings (witness_arguments @ [''--run-dir'', ''run'']) (default_simulation_options 1) =
    Inr (Some witness_durable_options)"
  by (simp_all add: witness_arguments_def simulation_flags_def simulation_settings_def require_value_def set_u64_def
      set_double_def parsed_texts parsed_numbers set_spec_def witness_options_def witness_durable_options_def
      default_simulation_options_def witness_spec_def default_run_store_config_def)

lemma witness_checked: "check_simulation_options witness_options = Inr ()"
  "check_simulation_options witness_durable_options = Inr ()"
  using witness_spec_valid
  by (simp_all add: check_simulation_options_def witness_durable_options_def witness_options_def
      default_simulation_options_def witness_spec_def default_run_spec_def)

lemma witness_reports:
  assumes "same_estimate res witness_run_result" "so_spec opts = witness_spec" "so_config opts = default_engine_config"
  shows "\<exists>r. make_simulation_report witness_libm R witness_env one64 opts res d = Inr r"
proof -
  obtain s where "make_coordinator_state witness_env witness_spec default_engine_config [witness_block] = Inr s"
    using make_coordinator_state_total [OF witness_blocks] by blast
  then obtain h l where "run_spec_hash witness_spec = Inr h" "execution_layout_hash witness_spec default_engine_config = Inr l"
    unfolding make_coordinator_state_def Let_def by (auto split: if_splits)
  moreover have "isfinite z_default" "0 < ord64 z_default"
    by (simp_all add: z_default_def isfinite_def mag_def ord64_def signbit_def)
  then have "isfinite z_default" "\<not> fle z_default zero64" by (simp_all add: not_fle_zero)
  then have "confidence_low res z_default = Inr None" "confidence_high res z_default = Inr None"
    using assms(1) by (simp_all add: confidence_low_def confidence_high_def confidence_bound_def same_estimate_def
        witness_run_result_def witness_stats_def kMinNormalConfidenceObservations_def)
  moreover have "run_warnings witness_spec = Inr []"
    using witness_spec_valid by (simp add: run_warnings_def) (simp add: witness_spec_def default_run_spec_def)
  ultimately show ?thesis using assms(2,3) by (simp add: make_simulation_report_def flt_def)
qed

lemma same_estimate_refl [simp]: "same_estimate s s"
  by (simp add: same_estimate_def)

lemma witness_fields:
  "so_spec witness_options = witness_spec" "so_config witness_options = default_engine_config" "\<not> so_durable witness_options"
  "so_spec witness_durable_options = witness_spec" "so_config witness_durable_options = default_engine_config"
  "so_durable witness_durable_options" "so_store witness_durable_options = default_run_store_config ''run''"
  by (simp_all add: witness_options_def witness_durable_options_def default_simulation_options_def default_engine_config_def)

lemma witness_memory_run:
  "\<exists>r. run_simulation witness_libm flat_lib witness_env (\<lambda>_. []) (\<lambda>_. Inr False) 1 one64 witness_arguments new_world (Reported r) new_world \<and>
     sr_options r = witness_options"
proof -
  obtain out where out: "run_parallel witness_libm witness_env witness_spec default_engine_config out"
    using run_parallel_ends by blast
  then have x: "out = Inr witness_run_result" using run_parallel_sequential [OF out] witness_sequential by blast
  obtain r where r: "make_simulation_report witness_libm flat_lib witness_env one64 witness_options witness_run_result None = Inr r"
    using witness_reports witness_fields by (metis same_estimate_refl)
  have "run_simulation witness_libm flat_lib witness_env (\<lambda>_. []) (\<lambda>_. Inr False) 1 one64 witness_arguments new_world (Reported r) new_world"
    using out r unfolding x run_simulation_def
    by (simp add: witness_arguments_parsed witness_checked witness_fields) (metis rbind_simps(2))
  then show ?thesis using make_report_Inr(1) [OF r] by blast
qed

lemma witness_durable_run:
  "\<exists>r w'. run_simulation witness_libm flat_lib witness_env (\<lambda>_. []) (\<lambda>_. Inr False) 1 one64
       (witness_arguments @ [''--run-dir'', ''run'']) new_world (Reported r) w' \<and> sr_options r = witness_durable_options"
proof -
  obtain res w' s where res: "run_parallel_durable witness_libm witness_env (\<lambda>_. []) (\<lambda>_. Inr False) witness_spec default_engine_config
       (default_run_store_config ''run'') new_world (Returned res) w'" "sequential_run witness_libm witness_spec default_engine_config = Inr s"
      "same_estimate (dr_run_result res) s"
    using healthy_run_correct(1) [OF new_world_healthy witness_admitted] by blast
  then have "same_estimate (dr_run_result res) witness_run_result" using witness_sequential by simp
  then obtain r where r: "make_simulation_report witness_libm flat_lib witness_env one64 witness_durable_options
      (dr_run_result res) (Some res) = Inr r"
    using witness_reports witness_fields by metis
  have "run_simulation witness_libm flat_lib witness_env (\<lambda>_. []) (\<lambda>_. Inr False) 1 one64
       (witness_arguments @ [''--run-dir'', ''run'']) new_world (Reported r) w'"
    using res(1) r unfolding run_simulation_def
    by (simp add: witness_arguments_parsed witness_checked witness_fields) blast
  then show ?thesis using make_report_Inr(1) [OF r] by blast
qed

theorem simulation_report_correct_witness:
  "\<exists>r w'. run_simulation witness_libm flat_lib witness_env (\<lambda>_. []) (\<lambda>_. Inr False) 1 one64
       (witness_arguments @ [''--run-dir'', ''run'']) new_world (Reported r) w' \<and>
     so_durable (sr_options r) \<and> durable_history witness_libm (so_spec (sr_options r)) new_world \<and>
     options_denoted (witness_arguments @ [''--run-dir'', ''run'']) (default_simulation_options 1) (sr_options r) \<and>
     strike (so_spec (sr_options r)) = one64 \<and>
     (\<exists>s. sequential_run witness_libm witness_spec default_engine_config = Inr s \<and> same_estimate (sr_result r) s) \<and>
     run_spec_hash witness_spec = Inr (sr_run_spec_hash r)"
proof -
  obtain r w' where r: "run_simulation witness_libm flat_lib witness_env (\<lambda>_. []) (\<lambda>_. Inr False) 1 one64
       (witness_arguments @ [''--run-dir'', ''run'']) new_world (Reported r) w'" "sr_options r = witness_durable_options"
    using witness_durable_run by blast
  have "durable_history witness_libm (so_spec (sr_options r)) new_world" by (rule witness_history)
  moreover have "strike (so_spec (sr_options r)) = one64" using r(2) by (simp add: witness_fields) (simp add: witness_spec_def)
  ultimately show ?thesis using r(1) simulation_report_correct [OF r(1) witness_history] r(2) witness_fields by auto
qed

theorem simulation_reproducible_witness:
  "\<exists>r q v'. run_simulation witness_libm flat_lib witness_env (\<lambda>_. []) (\<lambda>_. Inr False) 1 one64 witness_arguments new_world (Reported r) new_world \<and>
     run_simulation witness_libm flat_lib witness_env (\<lambda>_. []) (\<lambda>_. Inr False) 1 one64
       (witness_arguments @ [''--run-dir'', ''run'']) new_world (Reported q) v' \<and>
     result_aggregate (sr_result r) = result_aggregate (sr_result q)"
proof -
  obtain r where r: "run_simulation witness_libm flat_lib witness_env (\<lambda>_. []) (\<lambda>_. Inr False) 1 one64 witness_arguments new_world (Reported r) new_world"
    "sr_options r = witness_options" using witness_memory_run by blast
  obtain q v' where q: "run_simulation witness_libm flat_lib witness_env (\<lambda>_. []) (\<lambda>_. Inr False) 1 one64
       (witness_arguments @ [''--run-dir'', ''run'']) new_world (Reported q) v'" "sr_options q = witness_durable_options"
    using witness_durable_run by blast
  have "result_aggregate (sr_result r) = result_aggregate (sr_result q)"
    using simulation_reproducible [OF r(1) q(1) witness_history witness_history] r(2) q(2) by (simp add: witness_fields)
  then show ?thesis using r q by blast
qed

end
