(* ===== verification/Json_Text.thy ===== *)
theory Json_Text
  imports Decimal_Text
begin

text \<open>
  A recogniser of JSON documents, one character at a time with a stack of open brackets, and the rules by which
  text that is put together from keys, strings, numbers and keywords is recognised.  It accepts JSON without
  escapes and exponents, a part of RFC 8259 that contains everything the tools print.
\<close>

section \<open>The recogniser\<close>

datatype json_frame = Json_object | Json_array

datatype json_mode =
    Want_value | Want_element | Want_first_key | Want_key | In_key | Want_colon | In_string
  | Number_sign | Number_zero | Number_int | Number_point | Number_fraction | Keyword string | After_value

definition json_space :: "char \<Rightarrow> bool" where
  "json_space c \<longleftrightarrow> c = CHR '' '' \<or> c = CHR 0x0A"

definition json_plain :: "char \<Rightarrow> bool" where
  "json_plain c \<longleftrightarrow> c \<noteq> CHR 0x22 \<and> c \<noteq> CHR 0x5C \<and> 32 \<le> (of_char c :: nat)"

definition after_value_step :: "json_frame list \<Rightarrow> char \<Rightarrow> (json_mode \<times> json_frame list) option" where
  "after_value_step stack c =
     (if json_space c then Some (After_value, stack)
      else case stack of
             [] \<Rightarrow> None
           | Json_object # rest \<Rightarrow>
               if c = CHR '','' then Some (Want_key, stack) else if c = CHR ''}'' then Some (After_value, rest) else None
           | Json_array # rest \<Rightarrow>
               if c = CHR '','' then Some (Want_value, stack) else if c = CHR '']'' then Some (After_value, rest) else None)"

definition value_step :: "json_mode \<Rightarrow> json_frame list \<Rightarrow> char \<Rightarrow> (json_mode \<times> json_frame list) option" where
  "value_step mode stack c =
     (if json_space c then Some (mode, stack)
      else if c = CHR ''{'' then Some (Want_first_key, Json_object # stack)
      else if c = CHR ''['' then Some (Want_element, Json_array # stack)
      else if c = CHR 0x22 then Some (In_string, stack)
      else if c = CHR ''-'' then Some (Number_sign, stack)
      else if c = CHR ''0'' then Some (Number_zero, stack)
      else if is_digit 10 c then Some (Number_int, stack)
      else if c = CHR ''t'' then Some (Keyword ''rue'', stack)
      else if c = CHR ''f'' then Some (Keyword ''alse'', stack)
      else if c = CHR ''n'' then Some (Keyword ''ull'', stack)
      else None)"

fun json_step :: "json_mode \<times> json_frame list \<Rightarrow> char \<Rightarrow> (json_mode \<times> json_frame list) option" where
  "json_step (Want_value, stack) c = value_step Want_value stack c"
| "json_step (Want_element, stack) c =
     (if c = CHR '']'' then (case stack of Json_array # rest \<Rightarrow> Some (After_value, rest) | _ \<Rightarrow> None)
      else value_step Want_element stack c)"
| "json_step (Want_first_key, stack) c =
     (if json_space c then Some (Want_first_key, stack)
      else if c = CHR ''}'' then (case stack of Json_object # rest \<Rightarrow> Some (After_value, rest) | _ \<Rightarrow> None)
      else if c = CHR 0x22 then Some (In_key, stack) else None)"
| "json_step (Want_key, stack) c =
     (if json_space c then Some (Want_key, stack) else if c = CHR 0x22 then Some (In_key, stack) else None)"
| "json_step (In_key, stack) c =
     (if c = CHR 0x22 then Some (Want_colon, stack) else if json_plain c then Some (In_key, stack) else None)"
| "json_step (Want_colon, stack) c =
     (if json_space c then Some (Want_colon, stack) else if c = CHR '':'' then Some (Want_value, stack) else None)"
| "json_step (In_string, stack) c =
     (if c = CHR 0x22 then Some (After_value, stack) else if json_plain c then Some (In_string, stack) else None)"
| "json_step (Number_sign, stack) c =
     (if c = CHR ''0'' then Some (Number_zero, stack) else if is_digit 10 c then Some (Number_int, stack) else None)"
| "json_step (Number_zero, stack) c = (if c = CHR ''.'' then Some (Number_point, stack) else after_value_step stack c)"
| "json_step (Number_int, stack) c =
     (if is_digit 10 c then Some (Number_int, stack) else if c = CHR ''.'' then Some (Number_point, stack)
      else after_value_step stack c)"
| "json_step (Number_point, stack) c = (if is_digit 10 c then Some (Number_fraction, stack) else None)"
| "json_step (Number_fraction, stack) c =
     (if is_digit 10 c then Some (Number_fraction, stack) else after_value_step stack c)"
| "json_step (Keyword [], stack) c = after_value_step stack c"
| "json_step (Keyword (k # ks), stack) c = (if c = k then Some (Keyword ks, stack) else None)"
| "json_step (After_value, stack) c = after_value_step stack c"

fun json_run :: "string \<Rightarrow> json_mode \<times> json_frame list \<Rightarrow> (json_mode \<times> json_frame list) option" where
  "json_run [] st = Some st"
| "json_run (c # cs) st = (case json_step st c of None \<Rightarrow> None | Some st' \<Rightarrow> json_run cs st')"

definition json_document :: "string \<Rightarrow> bool" where
  "json_document text \<longleftrightarrow> json_run text (Want_value, []) = Some (After_value, [])"

section \<open>Building blocks\<close>

definition quoted :: "string \<Rightarrow> string" where
  "quoted s = CHR 0x22 # s @ [CHR 0x22]"

definition key :: "string \<Rightarrow> string" where
  "key k = quoted k @ '': ''"

definition spaces :: "nat \<Rightarrow> string" where
  "spaces n = replicate n CHR '' ''"

definition number :: "u64 \<Rightarrow> string" where
  "number n = decimal (unat n)"

definition fixed12 :: "double \<Rightarrow> string" where
  "fixed12 d = fixed_text 12 d"

definition bool_text :: "bool \<Rightarrow> string" where
  "bool_text b = (if b then ''true'' else ''false'')"

definition newline :: string where
  "newline = [CHR 0x0A]"

named_theorems json_rules

lemma json_run_append: "json_run (a @ b) st = (case json_run a st of None \<Rightarrow> None | Some st' \<Rightarrow> json_run b st')"
  by (induction a arbitrary: st) (simp_all split: option.splits)

lemma plain_key: "list_all json_plain s \<Longrightarrow> json_run (s @ rest) (In_key, stack) = json_run rest (In_key, stack)"
  by (induction s) (auto simp: json_plain_def)

lemma plain_string: "list_all json_plain s \<Longrightarrow> json_run (s @ rest) (In_string, stack) = json_run rest (In_string, stack)"
  by (induction s) (auto simp: json_plain_def)

lemma space_facts [simp]: "json_space CHR '' ''" "json_space CHR 0x0A" "\<not> json_space CHR 0x22" "\<not> json_space CHR '',''"
  "\<not> json_space CHR '':''" "\<not> json_space CHR ''{''" "\<not> json_space CHR ''}''" "\<not> json_space CHR ''[''" "\<not> json_space CHR '']''"
  "\<not> json_space CHR ''-''" "\<not> json_space CHR ''n''" "\<not> json_space CHR ''t''" "\<not> json_space CHR ''f''"
  by (simp_all add: json_space_def)

definition skips :: "json_mode \<Rightarrow> bool" where
  "skips mode \<longleftrightarrow> mode \<in> {Want_value, Want_element, Want_first_key, Want_key, Want_colon, After_value}"

lemma run_space [json_rules]:
  "skips mode \<Longrightarrow> json_run (spaces n @ rest) (mode, stack) = json_run rest (mode, stack)"
  "skips mode \<Longrightarrow> json_run (newline @ rest) (mode, stack) = json_run rest (mode, stack)"
proof -
  assume "skips mode"
  then have one: "json_run (c # rest) (mode, stack) = json_run rest (mode, stack)" if "json_space c" for c rest
    using that by (auto simp: skips_def value_step_def after_value_step_def json_space_def)
  then show "json_run (spaces n @ rest) (mode, stack) = json_run rest (mode, stack)"
    by (induction n) (simp_all add: spaces_def)
  show "json_run (newline @ rest) (mode, stack) = json_run rest (mode, stack)"
    using one [of "CHR 0x0A" rest] by (simp add: newline_def)
qed

lemma skips_modes [json_rules]:
  "skips Want_value" "skips Want_element" "skips Want_first_key" "skips Want_key" "skips Want_colon" "skips After_value"
  by (simp_all add: skips_def)

lemma run_key [json_rules]:
  assumes "list_all json_plain k"
  shows "json_run (key k @ rest) (Want_key, stack) = json_run rest (Want_value, stack)"
    "json_run (key k @ rest) (Want_first_key, stack) = json_run rest (Want_value, stack)"
  using plain_key [OF assms] by (simp_all add: key_def quoted_def value_step_def)

lemma run_quoted [json_rules]:
  assumes "list_all json_plain s"
  shows "json_run (quoted s @ rest) (Want_value, stack) = json_run rest (After_value, stack)"
  using plain_string [OF assms] by (simp add: quoted_def value_step_def)

lemma run_punctuation [json_rules]:
  "json_run (CHR '','' # rest) (After_value, Json_object # stack) = json_run rest (Want_key, Json_object # stack)"
  "json_run (CHR '','' # rest) (After_value, Json_array # stack) = json_run rest (Want_value, Json_array # stack)"
  "json_run (CHR ''{'' # rest) (Want_value, stack) = json_run rest (Want_first_key, Json_object # stack)"
  "json_run (CHR ''['' # rest) (Want_value, stack) = json_run rest (Want_element, Json_array # stack)"
  "json_run (CHR ''{'' # rest) (Want_element, stack) = json_run rest (Want_first_key, Json_object # stack)"
  "json_run (CHR ''}'' # rest) (After_value, Json_object # stack) = json_run rest (After_value, stack)"
  "json_run (CHR '']'' # rest) (After_value, Json_array # stack) = json_run rest (After_value, stack)"
  "json_run (CHR '']'' # rest) (Want_element, Json_array # stack) = json_run rest (After_value, stack)"
  "skips mode \<Longrightarrow> json_run (CHR '' '' # rest) (mode, stack) = json_run rest (mode, stack)"
  using run_space(1) [of mode 1]
  by (simp_all add: value_step_def after_value_step_def spaces_def)

text \<open>A number or keyword ends where a character follows that continues neither.\<close>

definition delimiter :: "char \<Rightarrow> bool" where
  "delimiter c \<longleftrightarrow> \<not> is_digit 10 c \<and> c \<noteq> CHR ''.''"

lemma delimiters [simp, json_rules]:
  "delimiter CHR '',''" "delimiter CHR ''}''" "delimiter CHR '']''" "delimiter CHR '' ''" "delimiter CHR 0x0A"
  by (simp_all add: delimiter_def is_digit_def digit_value_def)

lemma run_digits: "list_all (is_digit 10) ds \<Longrightarrow> json_run (ds @ rest) (Number_int, stack) = json_run rest (Number_int, stack)"
  by (induction ds) simp_all

lemma run_fraction_digits:
  "list_all (is_digit 10) ds \<Longrightarrow> json_run (ds @ rest) (Number_fraction, stack) = json_run rest (Number_fraction, stack)"
  by (induction ds) simp_all

lemma decimal_head: "0 < n \<Longrightarrow> hd (decimal n) \<noteq> CHR ''0''"
proof (induction n rule: decimal.induct)
  case (1 n)
  show ?case
  proof (cases "n < 10")
    case True
    then have "n \<in> {1, 2, 3, 4, 5, 6, 7, 8, 9}" using 1(2) by auto
    then show ?thesis using True by (auto simp: decimal.simps [of n] char_of_def)
  next
    case False
    then have "hd (decimal n) = hd (decimal (n div 10))"
      using decimal_digits [of "n div 10"] by (simp add: decimal.simps [of n])
    then show ?thesis using 1 False by simp
  qed
qed

lemma decimal_0: "decimal 0 = ''0''"
  using decimal_digit [of 0] by (simp add: decimal.simps [of 0] hex_digits_def)

text \<open>The state after an integer, seen from any state in which a number may start.\<close>

definition integer_mode :: "nat \<Rightarrow> json_mode" where
  "integer_mode n = (if n = 0 then Number_zero else Number_int)"

lemma digit_space:
  "is_digit 10 c \<Longrightarrow> \<not> json_space c \<and> c \<noteq> CHR ''{'' \<and> c \<noteq> CHR ''['' \<and> c \<noteq> CHR 0x22 \<and> c \<noteq> CHR ''-'' \<and> c \<noteq> CHR '']''"
  by (auto simp: json_space_def is_digit_def digit_value_def)

lemma run_decimal:
  assumes "mode \<in> {Want_value, Want_element, Number_sign}"
  shows "json_run (decimal n @ rest) (mode, stack) = json_run rest (integer_mode n, stack)"
proof (cases "n = 0")
  case True
  then show ?thesis using assms by (auto simp: decimal_0 integer_mode_def value_step_def json_space_def)
next
  case False
  obtain c ds where d: "decimal n = c # ds" using decimal_digits [of n] by (cases "decimal n") auto
  then have c: "is_digit 10 c" "list_all (is_digit 10) ds" "c \<noteq> CHR ''0''"
    using decimal_digits [of n] decimal_head [of n] False by auto
  have "json_step (mode, stack) c = Some (Number_int, stack)"
    using assms c digit_space [OF c(1)] by (auto simp: value_step_def)
  then show ?thesis using run_digits [OF c(2)] False by (simp add: d integer_mode_def)
qed

lemma run_number [json_rules]:
  "delimiter c \<Longrightarrow> json_run (number n @ c # rest) (Want_value, stack) = json_run (c # rest) (After_value, stack)"
  by (auto simp: number_def run_decimal integer_mode_def delimiter_def)

lemma run_fixed_text:
  assumes "isfinite d" "delimiter c" "0 < places"
  shows "json_run (fixed_text places d @ c # rest) (Want_value, stack) = json_run (c # rest) (After_value, stack)"
proof -
  let ?v = "rhe (mag_units (mag d) * 10 ^ places) unit_scale"
  let ?f = "pad_left places (decimal (?v mod 10 ^ places))"
  have f: "?f \<noteq> []" "list_all (is_digit 10) ?f"
    using decimal_digits [of "?v mod 10 ^ places"]
    by (auto simp: pad_left_def list_all_iff is_digit_def digit_value_def)
  have frac: "json_run ((''.'' @ ?f) @ c # rest) (integer_mode n, stack) = json_run (c # rest) (After_value, stack)" for n
  proof -
    obtain x xs where x: "?f = x # xs" using f(1) by (cases ?f) auto
    then have "is_digit 10 x" "list_all (is_digit 10) xs" using f(2) by simp_all
    then show ?thesis using assms(2) run_fraction_digits [of xs "c # rest" stack]
      by (simp add: x integer_mode_def delimiter_def)
  qed
  have text_eq: "fixed_text places d = (if signbit d then ''-'' else []) @ decimal (?v div 10 ^ places) @ ''.'' @ ?f"
    using assms(1) by (simp add: fixed_text_def Let_def)
  show ?thesis
  proof (cases "signbit d")
    case True
    then show ?thesis unfolding text_eq using frac run_decimal [of Number_sign]
      by (simp add: value_step_def)
  next
    case False
    then show ?thesis unfolding text_eq using frac run_decimal [of Want_value] by simp
  qed
qed

lemma run_fixed12 [json_rules]:
  "isfinite d \<Longrightarrow> delimiter c \<Longrightarrow> json_run (fixed12 d @ c # rest) (Want_value, stack) = json_run (c # rest) (After_value, stack)"
  by (simp add: fixed12_def run_fixed_text)

lemma run_keywords [json_rules]:
  "json_run (bool_text b @ c # rest) (Want_value, stack) = json_run (c # rest) (After_value, stack)"
  "json_run (''null'' @ c # rest) (Want_value, stack) = json_run (c # rest) (After_value, stack)"
  by (simp_all add: bool_text_def value_step_def is_digit_def digit_value_def)

section \<open>Values, objects and arrays\<close>

definition null_text :: string where
  "null_text = ''null''"

fun join :: "string \<Rightarrow> string list \<Rightarrow> string" where
  "join sep [] = []"
| "join sep [x] = x"
| "join sep (x # y # zs) = x @ sep @ join sep (y # zs)"

text \<open>An object over several lines, its fields indented by \<open>n\<close> and its closing brace by \<open>m\<close>; an object on one line.\<close>

definition object_text :: "nat \<Rightarrow> nat \<Rightarrow> (string \<times> string) list \<Rightarrow> string" where
  "object_text n m fs =
     ''{'' @ newline @ join ('','' @ newline) (map (\<lambda>(k, v). spaces n @ key k @ v) fs) @ newline @ spaces m @ ''}''"

definition inline_object :: "(string \<times> string) list \<Rightarrow> string" where
  "inline_object fs = ''{'' @ join '', '' (map (\<lambda>(k, v). key k @ v) fs) @ ''}''"

text \<open>A text is a value if every state that wants one is past it when it is followed by a delimiter.\<close>

definition json_value :: "string \<Rightarrow> bool" where
  "json_value v \<longleftrightarrow> (\<forall>mode c rest stack. mode \<in> {Want_value, Want_element} \<longrightarrow> delimiter c \<longrightarrow>
     json_run (v @ c # rest) (mode, stack) = json_run (c # rest) (After_value, stack))"

lemma json_valueD:
  "json_value v \<Longrightarrow> delimiter c \<Longrightarrow> json_run (v @ c # rest) (Want_value, stack) = json_run (c # rest) (After_value, stack)"
  "json_value v \<Longrightarrow> delimiter c \<Longrightarrow> json_run (v @ c # rest) (Want_element, stack) = json_run (c # rest) (After_value, stack)"
  by (simp_all add: json_value_def)

text \<open>A value that starts with something other than a space or a bracket that closes an empty array.\<close>

lemma json_valueI:
  assumes "v \<noteq> []" "hd v \<noteq> CHR '']''" "\<not> json_space (hd v)"
    and "\<And>c rest stack. delimiter c \<Longrightarrow> json_run (v @ c # rest) (Want_value, stack) = json_run (c # rest) (After_value, stack)"
  shows "json_value v"
proof -
  obtain x xs where v: "v = x # xs" using assms(1) by (cases v) auto
  have "json_step (Want_element, stack) x = json_step (Want_value, stack) x" for stack
    using assms(2,3) by (simp add: v value_step_def)
  then have "json_run (v @ rest) (Want_element, stack) = json_run (v @ rest) (Want_value, stack)" for rest stack
    by (simp only: v append_Cons json_run.simps)
  then show ?thesis using assms(4) by (auto simp: json_value_def)
qed

named_theorems json_values

lemma json_value_number [json_values]: "json_value (number n)"
proof (rule json_valueI)
  obtain x xs where x: "number n = x # xs" using decimal_digits [of "unat n"] by (cases "number n") (auto simp: number_def)
  then have "is_digit 10 x" using decimal_digits [of "unat n"] by (simp add: number_def)
  then show "number n \<noteq> []" "hd (number n) \<noteq> CHR '']''" "\<not> json_space (hd (number n))" using digit_space [of x] by (simp_all add: x)
qed (rule run_number)

lemma json_value_fixed12 [json_values]: "isfinite d \<Longrightarrow> json_value (fixed12 d)"
proof (rule json_valueI)
  assume d: "isfinite d"
  let ?n = "rhe (mag_units (mag d) * 10 ^ 12) unit_scale div 10 ^ 12"
  obtain x xs where x: "decimal ?n = x # xs" "is_digit 10 x" using decimal_digits [of ?n] by (cases "decimal ?n") auto
  have "\<exists>y ys. fixed12 d = y # ys \<and> (is_digit 10 y \<or> y = CHR ''-'')"
    using d x by (cases "signbit d") (simp_all add: fixed12_def fixed_text_def)
  then show "fixed12 d \<noteq> []" "hd (fixed12 d) \<noteq> CHR '']''" "\<not> json_space (hd (fixed12 d))" using digit_space by auto
qed (rule run_fixed12)

lemma json_value_words [json_values]: "json_value (bool_text b)" "json_value null_text"
proof -
  show "json_value (bool_text b)"
    by (rule json_valueI) (auto simp: bool_text_def run_keywords [unfolded bool_text_def] json_space_def
        intro: run_keywords(1) [of True, unfolded bool_text_def, simplified] run_keywords(1) [of False, unfolded bool_text_def, simplified])
  show "json_value null_text"
    using run_keywords(2) by (intro json_valueI) (simp_all add: null_text_def del: json_run.simps)
qed

lemma json_value_quoted [json_values]: "list_all json_plain s \<Longrightarrow> json_value (quoted s)"
  using run_quoted [of s] by (intro json_valueI) (simp_all add: quoted_def del: json_run.simps)

text \<open>The fields of an object, up to its closing brace.\<close>

definition field_ok :: "string \<times> string \<Rightarrow> bool" where
  "field_ok f \<longleftrightarrow> list_all json_plain (fst f) \<and> json_value (snd f)"

lemma run_fields:
  assumes "fs \<noteq> []" "list_all field_ok fs" "delimiter c" "mode \<in> {Want_key, Want_first_key}"
    and sep: "\<And>rest. json_run (sep @ rest) (After_value, Json_object # stack) = json_run rest (Want_key, Json_object # stack)"
    and head: "\<exists>d ds. sep = d # ds \<and> delimiter d"
  shows "json_run (join sep (map (\<lambda>(k, v). spaces n @ key k @ v) fs) @ c # rest) (mode, Json_object # stack) =
    json_run (c # rest) (After_value, Json_object # stack)"
  using assms(1,2,4)
proof (induction fs arbitrary: mode)
  case (Cons f fs)
  obtain k v where f: "f = (k, v)" by (cases f)
  then have ok: "list_all json_plain k" "json_value v" using Cons.prems by (auto simp: field_ok_def)
  have one: "json_run ((spaces n @ key k @ v) @ d # ds) (mode, Json_object # stack) =
      json_run (d # ds) (After_value, Json_object # stack)" if "delimiter d" for d ds
    using Cons.prems(3) ok that by (auto simp: run_space run_key skips_modes json_valueD simp del: json_run.simps)
  show ?case
  proof (cases fs)
    case Nil
    then show ?thesis using one [OF assms(3)] by (simp add: f del: json_run.simps)
  next
    case (Cons g gs)
    obtain d ds where d: "sep = d # ds" "delimiter d" using head by blast
    let ?rest = "join sep (map (\<lambda>(k, v). spaces n @ key k @ v) fs) @ c # rest"
    have "json_run (join sep (map (\<lambda>(k, v). spaces n @ key k @ v) (f # fs)) @ c # rest) (mode, Json_object # stack) =
        json_run ((spaces n @ key k @ v) @ sep @ ?rest) (mode, Json_object # stack)"
      using Cons by (simp add: f)
    also have "\<dots> = json_run (sep @ ?rest) (After_value, Json_object # stack)"
      using one [OF d(2), of "ds @ ?rest"] by (simp add: d(1) del: json_run.simps)
    also have "\<dots> = json_run ?rest (Want_key, Json_object # stack)" by (rule sep)
    also have "\<dots> = json_run (c # rest) (After_value, Json_object # stack)"
      using Cons.prems Cons by (intro Cons.IH) auto
    finally show ?thesis .
  qed
qed simp

lemma json_value_object [json_values]:
  assumes "fs \<noteq> []" "list_all field_ok fs"
  shows "json_value (object_text n m fs)"
proof (rule json_valueI)
  fix c :: char and rest stack
  let ?sep = "'','' @ newline"
  have sep: "json_run (?sep @ rest) (After_value, Json_object # stack) = json_run rest (Want_key, Json_object # stack)" for rest
    using run_punctuation(1) run_space(2) [of Want_key] by (simp add: skips_def del: json_run.simps)
  have "json_run (join ?sep (map (\<lambda>(k, v). spaces n @ key k @ v) fs) @ CHR 0x0A # spaces m @ CHR ''}'' # c # rest)
      (Want_first_key, Json_object # stack) =
    json_run (CHR 0x0A # spaces m @ CHR ''}'' # c # rest) (After_value, Json_object # stack)"
    by (rule run_fields [OF assms _ _ sep]) auto
  also have "\<dots> = json_run (c # rest) (After_value, stack)"
    using run_space [of After_value] run_punctuation(6) by (simp add: newline_def skips_def del: json_run.simps)
  finally show "json_run (object_text n m fs @ c # rest) (Want_value, stack) = json_run (c # rest) (After_value, stack)"
    using run_punctuation(3) run_space(2) [of Want_first_key]
    by (simp add: object_text_def newline_def skips_def del: json_run.simps)
qed (simp_all add: object_text_def)

lemma json_value_inline_object [json_values]:
  assumes "fs \<noteq> []" "list_all field_ok fs"
  shows "json_value (inline_object fs)"
proof (rule json_valueI)
  fix c :: char and rest stack
  have sep: "json_run ('', '' @ rest) (After_value, Json_object # stack) = json_run rest (Want_key, Json_object # stack)" for rest
    using run_punctuation(1,9) by (simp add: skips_def del: json_run.simps)
  have "json_run (join '', '' (map (\<lambda>(k, v). spaces 0 @ key k @ v) fs) @ CHR ''}'' # c # rest) (Want_first_key, Json_object # stack) =
    json_run (CHR ''}'' # c # rest) (After_value, Json_object # stack)"
    by (rule run_fields [OF assms _ _ sep]) auto
  then show "json_run (inline_object fs @ c # rest) (Want_value, stack) = json_run (c # rest) (After_value, stack)"
    using run_punctuation(3,6) by (simp add: inline_object_def spaces_def del: json_run.simps)
qed (simp_all add: inline_object_def)

text \<open>The elements of an array; every element may be preceded by space.\<close>

definition element_ok :: "string \<Rightarrow> bool" where
  "element_ok v \<longleftrightarrow> (\<exists>u. json_value u \<and> (v = u \<or> (\<exists>n. v = newline @ spaces n @ u)))"

lemma run_element:
  assumes "element_ok v" "delimiter c" "mode \<in> {Want_value, Want_element}"
  shows "json_run (v @ c # rest) (mode, stack) = json_run (c # rest) (After_value, stack)"
  using assms run_space [of mode] by (auto simp: element_ok_def skips_def json_valueD simp del: json_run.simps)

lemma run_elements:
  assumes "vs \<noteq> []" "list_all element_ok vs" "delimiter c" "mode \<in> {Want_value, Want_element}"
    and sep: "\<And>rest. json_run (sep @ rest) (After_value, Json_array # stack) = json_run rest (Want_value, Json_array # stack)"
    and head: "\<exists>d ds. sep = d # ds \<and> delimiter d"
  shows "json_run (join sep vs @ c # rest) (mode, Json_array # stack) = json_run (c # rest) (After_value, Json_array # stack)"
  using assms(1,2,4)
proof (induction vs arbitrary: mode)
  case (Cons x vs)
  have x: "element_ok x" using Cons.prems by simp
  show ?case
  proof (cases vs)
    case Nil
    then show ?thesis using run_element [OF x assms(3) Cons.prems(3)] by (simp del: json_run.simps)
  next
    case (Cons y zs)
    obtain d ds where d: "sep = d # ds" "delimiter d" using head by blast
    let ?rest = "join sep vs @ c # rest"
    have "json_run (join sep (x # vs) @ c # rest) (mode, Json_array # stack) = json_run (x @ sep @ ?rest) (mode, Json_array # stack)"
      using Cons by simp
    also have "\<dots> = json_run (sep @ ?rest) (After_value, Json_array # stack)"
      using run_element [OF x d(2) Cons.prems(3), of "ds @ ?rest"] by (simp add: d(1) del: json_run.simps)
    also have "\<dots> = json_run ?rest (Want_value, Json_array # stack)" by (rule sep)
    also have "\<dots> = json_run (c # rest) (After_value, Json_array # stack)"
      using Cons.prems Cons by (intro Cons.IH) auto
    finally show ?thesis .
  qed
qed simp

lemma json_value_array [json_values]:
  assumes "list_all element_ok vs" "sep = '','' \<or> sep = '', ''" "tail = [] \<or> vs \<noteq> [] \<and> tail = newline @ spaces k"
  shows "json_value (''['' @ join sep vs @ tail @ '']'')"
proof (rule json_valueI)
  fix c :: char and rest stack
  have sep: "json_run (sep @ rest) (After_value, Json_array # stack) = json_run rest (Want_value, Json_array # stack)" for rest
    using assms(2) run_punctuation(2,9) by (auto simp: skips_def simp del: json_run.simps)
  have tail: "json_run (tail @ CHR '']'' # c # rest) (After_value, Json_array # stack) = json_run (c # rest) (After_value, stack)"
    using assms(3) run_space [of After_value] run_punctuation(7) by (auto simp: skips_def simp del: json_run.simps)
  obtain t ts where t: "tail @ CHR '']'' # c # rest = t # ts" "delimiter t" using assms(3) by (auto simp: newline_def)
  have "json_run (join sep vs @ tail @ CHR '']'' # c # rest) (Want_element, Json_array # stack) = json_run (c # rest) (After_value, stack)"
  proof (cases "vs = []")
    case True
    then show ?thesis using assms(3) run_punctuation(8) by (simp del: json_run.simps)
  next
    case False
    have head: "\<exists>d ds. sep = d # ds \<and> delimiter d" using assms(2) delimiters(1) by blast
    have "json_run (join sep vs @ t # ts) (Want_element, Json_array # stack) = json_run (t # ts) (After_value, Json_array # stack)"
      by (rule run_elements [OF False assms(1) t(2) _ sep head]) simp
    then show ?thesis using tail by (simp only: t(1))
  qed
  then show "json_run ((''['' @ join sep vs @ tail @ '']'') @ c # rest) (Want_value, stack) = json_run (c # rest) (After_value, stack)"
    using run_punctuation(4) by (simp del: json_run.simps)
qed simp_all

lemma json_document_value: "json_value v \<Longrightarrow> json_document (v @ newline)"
  using json_valueD(1) [of v "CHR 0x0A" "[]" "[]"] by (simp add: json_document_def newline_def after_value_step_def)

end
