(* ===== verification/Simulation_Report.thy ===== *)
theory Simulation_Report
  imports Simulation_Cli Json_Text
begin

text \<open>
  The report \<^verbatim>\<open>tools/run_simulation.cpp\<close> prints: the fields of the JSON object in the order of the code, with
  its line breaks and indentation, numbers in the fixed notation with twelve places.  The theorem is that
  the output of a completed run is a JSON document.
\<close>

section \<open>Parts of the report\<close>

definition optional_ns :: "u64 option \<Rightarrow> string" where
  "optional_ns v = (case v of Some n \<Rightarrow> number n | None \<Rightarrow> null_text)"

definition optional_fixed :: "double option \<Rightarrow> string" where
  "optional_fixed v = (case v of Some d \<Rightarrow> fixed12 d | None \<Rightarrow> null_text)"

definition p50 :: double where "p50 = Double 0x3FE0000000000000"  \<comment> \<open>0.50\<close>
definition p95 :: double where "p95 = Double 0x3FEE666666666666"  \<comment> \<open>0.95\<close>
definition p99 :: double where "p99 = Double 0x3FEFAE147AE147AE"  \<comment> \<open>0.99\<close>

definition latency_summary :: "u64 list \<Rightarrow> string result" where
  "latency_summary samples =
     rbind (latency_percentile_ns samples p50) (\<lambda>a.
     rbind (latency_percentile_ns samples p95) (\<lambda>b.
     rbind (latency_percentile_ns samples p99) (\<lambda>c.
       Inr (inline_object [(''p50'', optional_ns a), (''p95'', optional_ns b), (''p99'', optional_ns c)]))))"

definition durable_fields :: "durable_run_result \<Rightarrow> (string \<times> string) list" where
  "durable_fields d =
     [(''run_id'', quoted (to_hex (dr_run_id d))), (''manifest_sequence'', number (dr_manifest_sequence d)),
      (''run_incarnation'', number (dr_run_incarnation d)), (''resumed'', bool_text (dr_resumed d)),
      (''recovered_blocks'', number (dr_recovered_blocks d)), (''computed_blocks'', number (dr_computed_blocks d)),
      (''recovered_scenarios'', number (dr_recovered_scenarios d)), (''computed_scenarios'', number (dr_computed_scenarios d))]"

definition heston_fields :: "heston_params \<Rightarrow> (string \<times> string) list" where
  "heston_fields h =
     (let ratio = feller_ratio h
      in [(''discretization'', quoted (''full_truncation_euler_log_asset_v'' @ decimal (unat (discretization_version h)))),
          (''initial_variance'', fixed12 (initial_variance h)), (''mean_reversion_rate'', fixed12 (mean_reversion_rate h)),
          (''long_run_variance'', fixed12 (long_run_variance h)),
          (''volatility_of_variance'', fixed12 (volatility_of_variance h)), (''correlation'', fixed12 (correlation h)),
          (''feller_ratio'', if isfinite ratio then fixed12 ratio else null_text),
          (''feller_condition_satisfied'', bool_text (fle one64 ratio))])"

definition warning_text :: "run_warning \<Rightarrow> string" where
  "warning_text w =
     inline_object
       [(''code'', quoted (warning_to_string (warning_code w))), (''observed_value'', fixed12 (observed_value w)),
        (''threshold'', fixed12 (warning_threshold w)),
        (''message'', quoted ''Feller ratio is below 1; expect elevated full-truncation discretization bias at this time step'')]"

definition worker_text :: "nat \<Rightarrow> worker_metrics \<Rightarrow> string" where
  "worker_text index m =
     inline_object
       [(''worker'', number (of_nat index)), (''blocks_completed'', number (wm_blocks_completed m)),
        (''scenarios_completed'', number (wm_scenarios_completed m)), (''assignment_wait_ns'', number (wm_assignment_wait_ns m)),
        (''compute_ns'', number (wm_compute_ns m)), (''completion_queue_wait_ns'', number (wm_completion_queue_wait_ns m))]"

definition workers_text :: "worker_metrics list \<Rightarrow> string" where
  "workers_text ms =
     ''['' @ join '','' (map (\<lambda>(i, m). newline @ spaces 6 @ worker_text i m) (enumerate 0 ms)) @
     (if ms = [] then [] else newline @ spaces 4) @ '']''"

definition durable_io_fields :: "durable_io_metrics \<Rightarrow> (string \<times> string) list" where
  "durable_io_fields m =
     [(''metadata_files_installed'', number (io_metadata_files_installed m)),
      (''result_files_installed'', number (io_result_files_installed m)),
      (''manifest_files_installed'', number (io_manifest_files_installed m)), (''bytes_written'', number (io_bytes_written m)),
      (''write_ns'', number (io_write_ns m)), (''file_fsync_ns'', number (io_file_fsync_ns m)),
      (''rename_ns'', number (io_rename_ns m)), (''directory_fsync_ns'', number (io_directory_fsync_ns m))]"

definition metrics_fields :: "runtime_metrics \<Rightarrow> (string \<times> string) list result" where
  "metrics_fields m =
     rbind (latency_summary (rm_block_compute_ns m)) (\<lambda>compute.
     rbind (latency_summary (rm_block_commit_ns m)) (\<lambda>commit.
     rbind (latency_summary (rm_result_persist_ns m)) (\<lambda>persist.
     rbind (latency_summary (rm_checkpoint_ns m)) (\<lambda>checkpoint.
       Inr [(''total_elapsed_ns'', number (rm_total_elapsed_ns m)), (''durable_open_ns'', number (rm_durable_open_ns m)),
            (''scheduler_assignment_wait_ns'', number (rm_scheduler_assignment_wait_ns m)),
            (''coordinator_completion_wait_ns'', number (rm_coordinator_completion_wait_ns m)),
            (''coordinator_consume_ns'', number (rm_coordinator_consume_ns m)),
            (''fixed_tree_reduce_ns'', number (rm_fixed_tree_reduce_ns m)),
            (''max_assignment_queue_depth'', number (rm_max_assignment_queue_depth m)),
            (''max_completion_queue_depth'', number (rm_max_completion_queue_depth m)),
            (''max_reduction_backlog_blocks'', number (rm_max_reduction_backlog_blocks m)),
            (''max_reduction_backlog_bytes'', number (rm_max_reduction_backlog_bytes m)),
            (''block_compute_ns'', compute), (''block_commit_ns'', commit), (''result_persist_ns'', persist),
            (''checkpoint_ns'', checkpoint), (''checkpoint_samples_dropped'', number (rm_checkpoint_samples_dropped m)),
            (''durable_io'', object_text 6 4 (durable_io_fields (rm_durable_io m))),
            (''workers'', workers_text (rm_workers m))]))))"

definition confidence_text :: "double option \<Rightarrow> double option \<Rightarrow> string" where
  "confidence_text low high =
     (case (low, high) of
        (Some a, Some b) \<Rightarrow> ''['' @ join '', '' [fixed12 a, fixed12 b] @ '']''
      | _ \<Rightarrow> null_text)"

definition scenarios_per_second :: "simulation_report \<Rightarrow> double" where
  "scenarios_per_second r =
     fdiv (of_u64 (case sr_durable r of Some d \<Rightarrow> dr_computed_scenarios d | None \<Rightarrow> scenarios_processed (sr_result r)))
       (sr_seconds r)"

definition reference_fields :: "simulation_report \<Rightarrow> (string \<times> string) list" where
  "reference_fields r =
     (case sr_reference r of
        None \<Rightarrow> []
      | Some (name, Some price) \<Rightarrow>
          [(name, fixed12 price), (''analytic_error'', fixed12 (fsub (stats_mean (result_aggregate (sr_result r))) price)),
           (''analytic_reference_status'', quoted ''available'')]
      | Some (name, None) \<Rightarrow>
          [(name, null_text), (''analytic_error'', null_text),
           (''analytic_reference_status'', quoted ''unavailable_numerical_domain'')])"

definition identity_fields :: "simulation_report \<Rightarrow> (string \<times> string) list" where
  "identity_fields r =
     (let spec = so_spec (sr_options r)
      in [(''engine_version'', number (engine_version spec)), (''rng_version'', number (rng_version spec)),
          (''stats_schema_version'', number (ucast (stats_schema_version spec))),
          (''run_spec_hash'', quoted (to_hex (sr_run_spec_hash r))),
          (''execution_layout_hash'', quoted (to_hex (sr_execution_layout_hash r))),
          (''build_fingerprint'', quoted (to_hex (sr_build_fingerprint r))),
          (''durable'', bool_text (so_durable (sr_options r)))] @
         (case sr_durable r of None \<Rightarrow> [] | Some d \<Rightarrow> durable_fields d))"

definition configuration_fields :: "simulation_report \<Rightarrow> (string \<times> string) list result" where
  "configuration_fields r =
     (let spec = so_spec (sr_options r); config = so_config (sr_options r)
      in rbind (model_to_string (spec_model_type spec)) (\<lambda>model.
         rbind (payoff_to_string (spec_payoff_type spec)) (\<lambda>payoff.
           Inr ([(''model'', quoted model), (''payoff'', quoted payoff),
                 (''scenarios'', number (scenarios_processed (sr_result r))),
                 (''observations'', number (stats_n (result_aggregate (sr_result r)))),
                 (''blocks'', number (block_count (sr_result r))), (''block_size'', number (block_size config)),
                 (''workers_requested'', number (worker_count config)), (''workers_used'', number (workers_used (sr_result r))),
                 (''antithetic'', bool_text (antithetic spec))] @
                (case (spec_model_type spec, heston spec) of
                   (Heston, Some h) \<Rightarrow> [(''heston'', object_text 4 2 (heston_fields h))]
                 | _ \<Rightarrow> [])))))"

definition estimate_fields :: "simulation_report \<Rightarrow> (string \<times> string) list" where
  "estimate_fields r =
     [(''warnings'', ''['' @ join '','' (map warning_text (sr_warnings r)) @ [] @ '']''),
      (''price'', fixed12 (stats_mean (result_aggregate (sr_result r)))),
      (''standard_error'', optional_fixed (sr_standard_error r)),
      (''confidence_95'', confidence_text (sr_confidence_low r) (sr_confidence_high r)),
      (''confidence_method'', if sr_confidence_low r \<noteq> None then quoted ''normal_approximation'' else null_text),
      (''elapsed_seconds'', fixed12 (sr_seconds r)), (''scenarios_per_second'', fixed12 (scenarios_per_second r))]"

text \<open>The whole output; the metrics are those the run has filled in.\<close>

definition simulation_json :: "runtime_metrics \<Rightarrow> simulation_report \<Rightarrow> string result" where
  "simulation_json metrics r =
     rbind (configuration_fields r) (\<lambda>configuration.
     rbind (if so_metrics_enabled (sr_options r)
            then rbind (metrics_fields metrics) (\<lambda>fs. Inr [(''metrics'', object_text 4 2 fs)])
            else Inr []) (\<lambda>measured.
       Inr (object_text 2 0 (identity_fields r @ configuration @ estimate_fields r @ reference_fields r @ measured) @ newline)))"

section \<open>The output is JSON\<close>

text \<open>The numbers whose finiteness the program does not establish before it prints them.\<close>

definition printable :: "simulation_report \<Rightarrow> bool" where
  "printable r \<longleftrightarrow>
     isfinite (stats_mean (result_aggregate (sr_result r))) \<and> isfinite (sr_seconds r) \<and> isfinite (scenarios_per_second r) \<and>
     (\<forall>d. sr_standard_error r = Some d \<longrightarrow> isfinite d) \<and> (\<forall>w \<in> set (sr_warnings r). isfinite (observed_value w)) \<and>
     (\<forall>name price. sr_reference r = Some (name, Some price) \<longrightarrow>
        isfinite price \<and> isfinite (fsub (stats_mean (result_aggregate (sr_result r))) price))"

lemma plain_digits: "list_all (is_digit 10) ds \<Longrightarrow> list_all json_plain ds"
proof (rule list.pred_mono_strong)
  fix c assume "is_digit 10 c"
  then have "c \<noteq> CHR 0x22" "c \<noteq> CHR 0x5C" "32 \<le> (of_char c :: nat)"
    by (auto simp: is_digit_def digit_value_def Let_def split: if_splits)
  then show "json_plain c" by (simp add: json_plain_def)
qed

lemma plain_hex: "list_all json_plain (to_hex d)"
proof -
  have "list_all json_plain hex_digits" by (simp add: hex_digits_def json_plain_def)
  then have nibble: "json_plain (hex_digits ! i)" if "i < 16" for i
    using that by (simp add: list_all_length hex_digits_def)
  have "unat (drop_bit 4 b) < 16" "unat (b AND 0x0F) < 16" for b :: u8
  proof -
    have "unat b < 256" using unsigned_less [of b] by simp
    then show "unat (drop_bit 4 b) < 16" by (simp add: drop_bit_eq_div unat_div less_mult_imp_div_less)
    have "b AND 0x0F \<le> 0x0F" by (rule word_and_le1)
    then show "unat (b AND 0x0F) < 16" by (simp add: word_le_nat_alt)
  qed
  then show ?thesis using nibble by (auto simp: to_hex_def list_all_iff)
qed

lemma percentile_total: "q \<in> {p50, p95, p99} \<Longrightarrow> \<exists>v. latency_percentile_ns samples q = Inr v"
proof -
  assume q: "q \<in> {p50, p95, p99}"
  have "isfinite q" "0 \<le> ord64 q" "ord64 q \<le> ord64 one64"
    using q by (auto simp: p50_def p95_def p99_def one64_def isfinite_def ord64_def mag_def signbit_def)
  then have "\<not> (\<not> isfinite q \<or> flt q zero64 \<or> flt one64 q)" by (auto simp: flt_def)
  then show ?thesis by (auto simp: latency_percentile_ns_def Let_def)
qed

lemma json_value_optional [json_values]:
  "json_value (optional_ns v)" "(\<And>d. w = Some d \<Longrightarrow> isfinite d) \<Longrightarrow> json_value (optional_fixed w)"
  by (auto simp: optional_ns_def optional_fixed_def split: option.splits intro: json_values)

lemma latency_summary_total: "\<exists>s. latency_summary samples = Inr s \<and> json_value s"
proof -
  obtain a where a: "latency_percentile_ns samples p50 = Inr a" using percentile_total [of p50 samples] by auto
  obtain b where b: "latency_percentile_ns samples p95 = Inr b" using percentile_total [of p95 samples] by auto
  obtain c where c: "latency_percentile_ns samples p99 = Inr c" using percentile_total [of p99 samples] by auto
  have "json_value (inline_object [(''p50'', optional_ns a), (''p95'', optional_ns b), (''p99'', optional_ns c)])"
    by (rule json_value_inline_object) (simp_all add: field_ok_def json_values json_plain_def)
  then show ?thesis by (simp add: latency_summary_def a b c)
qed

lemma fields_durable: "list_all field_ok (durable_fields d)"
  by (simp add: durable_fields_def field_ok_def json_values plain_hex json_plain_def)

lemma fields_io: "json_value (object_text n k (durable_io_fields m))"
  by (rule json_value_object) (simp_all add: durable_io_fields_def field_ok_def json_values json_plain_def)

lemma fields_heston:
  assumes "validate_heston h = Inr ()"
  shows "json_value (object_text n k (heston_fields h))"
proof (rule json_value_object)
  have f: "isfinite (initial_variance h)" "isfinite (mean_reversion_rate h)" "isfinite (long_run_variance h)"
    "isfinite (volatility_of_variance h)" "isfinite (correlation h)"
    using assms by (auto simp: validate_heston_def finite_nonnegative_def split: if_splits)
  have v: "list_all json_plain (decimal (unat (discretization_version h)))" using decimal_digits plain_digits by blast
  have "list_all json_plain ''full_truncation_euler_log_asset_v''" by (simp add: json_plain_def)
  with v have "json_value (quoted (''full_truncation_euler_log_asset_v'' @ decimal (unat (discretization_version h))))"
    by (intro json_values) simp
  moreover have "json_value (if isfinite (feller_ratio h) then fixed12 (feller_ratio h) else null_text)"
    by (simp add: json_values)
  ultimately show "list_all field_ok (heston_fields h)"
    by (simp add: heston_fields_def Let_def field_ok_def json_values f json_plain_def del: append.simps)
qed (simp add: heston_fields_def Let_def)

lemma element_value: "json_value v \<Longrightarrow> element_ok v" "json_value v \<Longrightarrow> element_ok (newline @ spaces n @ v)"
  by (auto simp: element_ok_def)

lemma workers_value: "json_value (workers_text ms)"
proof -
  have "json_value (worker_text i m)" for i m
    unfolding worker_text_def
    by (rule json_value_inline_object) (simp_all add: field_ok_def json_values json_plain_def)
  then have "list_all element_ok (map (\<lambda>(i, m). newline @ spaces 6 @ worker_text i m) (enumerate 0 ms))"
    by (auto simp: list_all_iff intro: element_value)
  then show ?thesis unfolding workers_text_def
    by (intro json_value_array [of _ _ _ 4]) (auto simp: enumerate_eq_zip)
qed

lemma metrics_total: "\<exists>fs. metrics_fields m = Inr fs \<and> json_value (object_text n k fs)"
proof -
  obtain a where a: "latency_summary (rm_block_compute_ns m) = Inr a" "json_value a" using latency_summary_total by blast
  obtain b where b: "latency_summary (rm_block_commit_ns m) = Inr b" "json_value b" using latency_summary_total by blast
  obtain c where c: "latency_summary (rm_result_persist_ns m) = Inr c" "json_value c" using latency_summary_total by blast
  obtain d where d: "latency_summary (rm_checkpoint_ns m) = Inr d" "json_value d" using latency_summary_total by blast
  have "\<exists>fs. metrics_fields m = Inr fs \<and> fs \<noteq> [] \<and> list_all field_ok fs"
    by (simp add: metrics_fields_def a b c d field_ok_def json_values fields_io workers_value json_plain_def)
  then show ?thesis using json_value_object by blast
qed

lemma warnings_value:
  assumes "\<forall>w \<in> set ws. isfinite (observed_value w) \<and> isfinite (warning_threshold w)"
  shows "json_value (''['' @ join '','' (map warning_text ws) @ [] @ '']'')"
proof (rule json_value_array)
  have name: "list_all json_plain (warning_to_string c)" for c by (cases c) (simp add: json_plain_def)
  have "json_value (warning_text w)" if "w \<in> set ws" for w
    unfolding warning_text_def
    by (rule json_value_inline_object) (use assms that in \<open>simp_all add: field_ok_def json_values name json_plain_def\<close>)
  then show "list_all element_ok (map warning_text ws)" by (auto simp: list_all_iff intro: element_value)
qed simp_all

lemma confidence_value:
  assumes "confidence_low r z = Inr low" "confidence_high r z = Inr high"
  shows "json_value (confidence_text low high)"
proof -
  have f: "isfinite a" if "confidence_bound s z up = Inr (Some a)" for s up a
    using that by (auto simp: confidence_bound_def Let_def split: if_splits option.splits)
  show ?thesis
  proof (cases "\<exists>a b. low = Some a \<and> high = Some b")
    case True
    then obtain a b where ab: "low = Some a" "high = Some b" by blast
    then have "isfinite a" "isfinite b" using assms f by (auto simp: confidence_low_def confidence_high_def)
    then have "list_all element_ok [fixed12 a, fixed12 b]" by (simp add: element_value json_values)
    from json_value_array [OF this, of "'', ''" "[]" 0] show ?thesis by (simp add: confidence_text_def ab)
  next
    case False
    then show ?thesis by (cases low; cases high) (simp_all add: confidence_text_def json_values)
  qed
qed

lemma fields_identity: "list_all field_ok (identity_fields r)"
  by (cases "sr_durable r") (simp_all add: identity_fields_def Let_def field_ok_def json_values plain_hex fields_durable json_plain_def)

lemma fields_configuration:
  assumes "validate_run_spec (so_spec (sr_options r)) = Inr ()"
  shows "\<exists>fs. configuration_fields r = Inr fs \<and> list_all field_ok fs"
proof -
  let ?s = "so_spec (sr_options r)"
  have m: "validate_model ?s = Inr ()" and p: "spec_payoff_type ?s = EuropeanCall \<or> spec_payoff_type ?s = AsianCall"
    using assms by (auto simp: validate_run_spec_def split: if_splits payoff_type.splits)
  obtain payoff where payoff: "payoff_to_string (spec_payoff_type ?s) = Inr payoff" "list_all json_plain payoff"
    using p by (auto simp: json_plain_def)
  show ?thesis
  proof (cases "spec_model_type ?s")
    case Gbm
    then show ?thesis using payoff
      by (simp add: configuration_fields_def Let_def field_ok_def json_values json_plain_def)
  next
    case Heston
    then obtain h where h: "heston ?s = Some h" "validate_heston h = Inr ()"
      using m by (auto simp: validate_model_def split: option.splits)
    then show ?thesis using payoff Heston
      by (simp add: configuration_fields_def Let_def field_ok_def json_values json_plain_def fields_heston)
  next
    case (Unknown_model b)
    then show ?thesis using m by (simp add: validate_model_def)
  qed
qed

lemma warning_thresholds: "run_warnings spec = Inr ws \<Longrightarrow> w \<in> set ws \<Longrightarrow> isfinite (warning_threshold w)"
  by (auto simp: run_warnings_def Let_def split: if_splits option.splits)

lemma fields_estimate:
  assumes "printable r" "make_simulation_report L R env seconds opts res durable = Inr r"
  shows "list_all field_ok (estimate_fields r)"
proof -
  note mr = make_report_Inr [OF assms(2)]
  have "\<forall>w \<in> set (sr_warnings r). isfinite (observed_value w) \<and> isfinite (warning_threshold w)"
    using assms(1) warning_thresholds [OF mr(9)] by (simp add: printable_def)
  from warnings_value [OF this] have w: "json_value (''['' @ join '','' (map warning_text (sr_warnings r)) @ [] @ '']'')" .
  have c: "json_value (confidence_text (sr_confidence_low r) (sr_confidence_high r))"
    by (rule confidence_value [OF mr(6,7)])
  have e: "json_value (optional_fixed (sr_standard_error r))" using assms(1) by (intro json_values) (auto simp: printable_def)
  have q: "list_all json_plain ''normal_approximation''" by (simp add: json_plain_def)
  show ?thesis
    using assms(1) w c e by (simp add: estimate_fields_def field_ok_def printable_def json_values q json_plain_def)
qed

lemma fields_reference:
  assumes "printable r" "sr_reference r = analytic_reference L R spec"
  shows "list_all field_ok (reference_fields r)"
proof (cases "sr_reference r")
  case None
  then show ?thesis by (simp add: reference_fields_def)
next
  case (Some ref)
  obtain name v where ref: "ref = (name, v)" by (cases ref)
  have "list_all json_plain ''black_scholes_price''" "list_all json_plain ''heston_analytic_price''"
    by (simp_all add: json_plain_def)
  then have "list_all json_plain name"
    using assms(2) Some ref by (auto simp: analytic_reference_def split: if_splits)
  then show ?thesis
    using assms(1) Some ref
    by (cases v) (auto simp: reference_fields_def printable_def field_ok_def json_plain_def intro: json_values)
qed

text \<open>C33. The output of a completed run is always a complete JSON document: whichever model, payoff and options
  were chosen, for a run in memory and a durable one, with metrics or without, with a reference price or
  without one, the text the program prints is one JSON value followed by a line break, provided that the
  printed statistics are finite numbers.\<close>

theorem simulation_output_is_json:
  assumes "run_simulation L R env canonical exists hardware seconds arguments w (Reported r) w'" and "printable r"
  shows "\<exists>t. simulation_json metrics r = Inr t \<and> json_document t"
proof -
  note rep = run_simulation_Reported(1,2) [OF assms(1)]
  have "validate_run_spec (so_spec (sr_options r)) = Inr ()"
    using rep(1) by (auto simp: check_simulation_options_def split: if_splits)
  from fields_configuration [OF this] obtain fs where fs: "configuration_fields r = Inr fs" "list_all field_ok fs" by blast
  obtain ms where ms: "metrics_fields metrics = Inr ms" "json_value (object_text 4 2 ms)" using metrics_total by blast
  define measured where "measured = (if so_metrics_enabled (sr_options r) then [(''metrics'', object_text 4 2 ms)] else [])"
  have m: "list_all field_ok measured" using ms(2) by (simp add: measured_def field_ok_def json_plain_def)
  let ?all = "identity_fields r @ fs @ estimate_fields r @ reference_fields r @ measured"
  have "simulation_json metrics r = Inr (object_text 2 0 ?all @ newline)"
    by (simp add: simulation_json_def fs ms measured_def)
  moreover have "list_all field_ok ?all"
    using fs(2) m fields_identity fields_estimate [OF assms(2) rep(2)] fields_reference [OF assms(2) make_report_Inr(4) [OF rep(2)]]
    by simp
  moreover have "?all \<noteq> []" by (simp add: identity_fields_def Let_def)
  ultimately have "simulation_json metrics r = Inr (object_text 2 0 ?all @ newline)" "json_value (object_text 2 0 ?all)"
    by (simp_all only: json_value_object not_False_eq_True)
  then show ?thesis by (intro exI [of _ "object_text 2 0 ?all @ newline"] conjI json_document_value)
qed

lemma finite_negated: "isfinite p \<Longrightarrow> isfinite (fsub zero64 p)"
proof -
  assume p: "isfinite p"
  have "units zero64 - units p = units (fneg p)" by simp
  then have "ord64 (fsub zero64 p) \<le> ord64 (fneg p)" "ord64 (fneg p) \<le> ord64 (fsub zero64 p)"
    using p fsub_le [of zero64 p "fneg p"] fsub_ge [of zero64 p "fneg p"] by simp_all
  then show ?thesis using p isfinite_between [of "fneg p" "fneg p" "fsub zero64 p"] by simp
qed

lemma witness_printable:
  assumes "run_simulation witness_libm flat_lib witness_env (\<lambda>_. []) (\<lambda>_. Inr False) 1 one64 witness_arguments new_world (Reported r) new_world"
    and "sr_options r = witness_options"
  shows "printable r"
proof -
  note rep = run_simulation_Reported [OF assms(1)] and mr = make_report_Inr [OF run_simulation_Reported(2) [OF assms(1)]]
  have run: "run_parallel witness_libm witness_env witness_spec default_engine_config (Inr (sr_result r))" "sr_durable r = None"
    using rep(4) assms(2) by (simp_all add: witness_fields)
  then have res: "sr_result r = witness_run_result"
    using run_parallel_sequential witness_sequential by fastforce
  have mean: "stats_mean (result_aggregate (sr_result r)) = zero64" "scenarios_processed (sr_result r) = 2"
    "stats_n (result_aggregate (sr_result r)) = 1"
    by (simp_all add: res witness_run_result_def witness_stats_def)
  have sec: "sr_seconds r = one64" using mr(10) .
  have two: "isfinite (of_u64 2)" using of_u64_bounds [of 2] by simp
  then have rate: "isfinite (scenarios_per_second r)"
    by (simp add: scenarios_per_second_def run(2) mean sec fdiv_one)
  have se: "sr_standard_error r = None" using mr(5) mean(3) by (simp add: standard_error_def sample_variance_def)
  have "run_warnings witness_spec = Inr []"
    using witness_spec_valid by (simp add: run_warnings_def) (simp add: witness_spec_def default_run_spec_def)
  then have warn: "sr_warnings r = []" using mr(9) assms(2) by (simp add: witness_fields)
  have "isfinite price" if "sr_reference r = Some (name, Some price)" for name price
  proof -
    have "analytic_reference witness_libm flat_lib witness_spec = Some (name, Some price)"
      using mr(4) that assms(2) by (simp add: witness_fields)
    moreover have "spec_model_type witness_spec = Gbm" by (simp add: witness_spec_def default_run_spec_def)
    ultimately show ?thesis
      by (auto simp: analytic_reference_def available_def black_scholes_call_price_def Let_def split: if_splits)
  qed
  then show ?thesis using mean sec rate se warn finite_negated by (simp add: printable_def)
qed

theorem simulation_output_is_json_witness:
  "\<exists>r t. run_simulation witness_libm flat_lib witness_env (\<lambda>_. []) (\<lambda>_. Inr False) 1 one64 witness_arguments new_world (Reported r) new_world \<and>
     simulation_json \<lparr>rm_total_elapsed_ns = 1, rm_durable_open_ns = 0, rm_scheduler_assignment_wait_ns = 0,
       rm_coordinator_completion_wait_ns = 0, rm_coordinator_consume_ns = 0, rm_fixed_tree_reduce_ns = 0,
       rm_max_assignment_queue_depth = 0, rm_max_completion_queue_depth = 0, rm_max_reduction_backlog_blocks = 0,
       rm_max_reduction_backlog_bytes = 0, rm_workers = [], rm_block_compute_ns = [], rm_result_persist_ns = [],
       rm_block_commit_ns = [], rm_checkpoint_ns = [], rm_checkpoint_samples_dropped = 0, rm_durable_io = no_durable_io\<rparr> r = Inr t \<and>
     json_document t"
proof -
  obtain r where r: "run_simulation witness_libm flat_lib witness_env (\<lambda>_. []) (\<lambda>_. Inr False) 1 one64 witness_arguments new_world (Reported r) new_world"
    "sr_options r = witness_options" using witness_memory_run by blast
  from simulation_output_is_json [OF r(1) witness_printable [OF r]] r(1) show ?thesis by blast
qed

end
