(* ===== verification/Durable_Accounting.thy ===== *)
theory Durable_Accounting
  imports Durable_Safety
begin

text \<open>
  The accounting of a durable run (\<^verbatim>\<open>run_parallel_durable\<close> of \<^verbatim>\<open>src/runtime/engine.cpp\<close>): the numbers of
  recovered and of computed blocks that a result carries add up to the number of blocks, whatever the
  directory held, because a block counts as received exactly when the coordinator holds its payload.
\<close>

section \<open>The invariant\<close>

definition received_count :: "bool list \<Rightarrow> nat" where
  "received_count received = length (filter (\<lambda>b. b) received)"

text \<open>The blocks received so far are those with a committed payload, and the two counters add up to them.\<close>

definition progress_counted :: "durable_progress \<Rightarrow> bool" where
  "progress_counted p \<longleftrightarrow>
     length (cs_blocks (dp_coordinator p)) = length (dp_received p) \<and>
     length (cs_committed_payloads (dp_coordinator p)) = length (dp_received p) \<and>
     (\<forall>i < length (dp_received p). dp_received p ! i \<longleftrightarrow> cs_committed_payloads (dp_coordinator p) ! i \<noteq> None) \<and>
     length (dp_received p) < 2 ^ 64 \<and>
     unat (dp_recovered_blocks p) + unat (dp_computed_blocks p) = received_count (dp_received p)"

lemma received_count_update:
  "i < length received \<Longrightarrow> \<not> received ! i \<Longrightarrow> received_count (received[i := True]) = Suc (received_count received)"
proof (induction received arbitrary: i)
  case (Cons b received)
  then show ?case by (cases i) (simp_all add: received_count_def)
qed simp

lemma received_count_all: "False \<notin> set received \<Longrightarrow> received_count received = length received"
  unfolding received_count_def by (metis (full_types) filter_True)

lemma progress_counted_step:
  assumes "progress_counted p" "i < length (dp_received p)" "\<not> dp_received p ! i"
    and "dp_received q = (dp_received p)[i := True]" "cs_blocks (dp_coordinator q) = cs_blocks (dp_coordinator p)"
    and "cs_committed_payloads (dp_coordinator q) = (cs_committed_payloads (dp_coordinator p))[i := Some c]"
    and "dp_recovered_blocks q = dp_recovered_blocks p + 1 \<and> dp_computed_blocks q = dp_computed_blocks p \<or>
      dp_recovered_blocks q = dp_recovered_blocks p \<and> dp_computed_blocks q = dp_computed_blocks p + 1"
  shows "progress_counted q"
proof -
  have count: "received_count (dp_received q) = Suc (received_count (dp_received p))"
    using received_count_update [OF assms(2,3)] assms(4) by simp
  have "received_count (dp_received q) \<le> length (dp_received p)"
    unfolding assms(4) received_count_def by (metis length_filter_le length_list_update)
  then have "unat (dp_recovered_blocks q) + unat (dp_computed_blocks q) = received_count (dp_received q)"
    using assms(1,7) count by (auto simp: progress_counted_def unat_add_u64)
  then show ?thesis using assms unfolding progress_counted_def by (auto simp: nth_list_update)
qed

section \<open>Recovery\<close>

lemma recover_counted:
  assumes "distinct (map fst xs)" "\<forall>(i, c) \<in> set xs. i < length (dp_received p) \<and> \<not> dp_received p ! i"
    and "progress_counted p"
  shows "progress_counted (fold recover_block xs p) \<and>
    dp_computed_blocks (fold recover_block xs p) = dp_computed_blocks p"
  using assms
proof (induction xs arbitrary: p)
  case (Cons x xs)
  obtain i c where x: "x = (i, c)" by (cases x)
  have i: "i < length (dp_received p)" "\<not> dp_received p ! i" using Cons.prems(2) by (auto simp: x)
  have "progress_counted (recover_block x p)"
  proof (cases c)
    case (Some r)
    show ?thesis
      by (rule progress_counted_step [OF Cons.prems(3) i]) (simp_all add: recover_block_def x Some)
  qed (use Cons.prems(3) in \<open>simp add: recover_block_def x\<close>)
  moreover have "\<forall>(j, c) \<in> set xs. j < length (dp_received (recover_block x p)) \<and> \<not> dp_received (recover_block x p) ! j"
  proof safe
    fix j d assume j: "(j, d) \<in> set xs"
    then have "j \<noteq> i" using Cons.prems(1) by (force simp: x)
    then show "j < length (dp_received (recover_block x p))" "dp_received (recover_block x p) ! j \<Longrightarrow> False"
      using Cons.prems(2) j by (auto simp: recover_block_def x nth_list_update split: option.splits)
  qed
  moreover have "dp_computed_blocks (recover_block x p) = dp_computed_blocks p"
    by (simp add: recover_block_def x split: option.splits)
  ultimately show ?case using Cons.IH [of "recover_block x p"] Cons.prems(1) by (simp add: x)
qed simp

lemma start_counted:
  assumes s: "store_ok L env spec engine blocks store" and p: "start_progress env spec engine store = Inr p"
  shows "progress_counted p \<and> dp_computed_blocks p = 0"
proof -
  let ?R = "st_recovery_state store"
  let ?n = "length (rec_blocks ?R)"
  obtain k where k: "make_coordinator_state env spec engine (rec_blocks ?R) = Inr k"
    and q: "p = fold recover_block (enumerate 0 (rec_committed_results ?R))
               \<lparr>dp_store = store, dp_coordinator = k, dp_leaves = replicate ?n empty_stats,
                dp_received = replicate ?n False, dp_recovered_blocks = 0, dp_recovered_scenarios = 0,
                dp_computed_blocks = 0, dp_computed_scenarios = 0, dp_pending_since_checkpoint = 0\<rparr>"
    using p by (auto simp: start_progress_def Let_def split: if_splits)
  let ?q = "\<lparr>dp_store = store, dp_coordinator = k, dp_leaves = replicate ?n empty_stats,
                dp_received = replicate ?n False, dp_recovered_blocks = 0, dp_recovered_scenarios = 0,
                dp_computed_blocks = 0, dp_computed_scenarios = 0, dp_pending_since_checkpoint = 0\<rparr>"
  have n: "length (rec_committed_results ?R) = ?n"
    using s results_ok_length by (fastforce simp: store_ok_def recovery_ok_def same_ranges_def dest: list_all2_lengthD)
  have "cs_committed_payloads k = replicate ?n None" "cs_blocks k = rec_blocks ?R"
    using k by (auto simp: make_coordinator_state_def Let_def split: if_splits)
  moreover have "?n < 2 ^ 64"
  proof -
    have "?n = unat (blocks_needed spec engine)" using k by (auto simp: make_coordinator_state_def split: if_splits)
    then show ?thesis using unsigned_less [of "blocks_needed spec engine", where ?'a = nat] by simp
  qed
  ultimately have "progress_counted ?q" by (simp add: progress_counted_def received_count_def)
  then show ?thesis
    unfolding q using n recover_counted [of "enumerate 0 (rec_committed_results ?R)" ?q]
    by (simp add: in_set_enumerate_eq split_beta)
qed

section \<open>Consuming results\<close>

lemma accepted_fresh:
  assumes "validate_result r s = Inr (Accepted, msg)"
  shows "unat (block_id (res_block r)) < length (cs_blocks s)"
    and "cs_committed_payloads s ! unat (block_id (res_block r)) = None"
  using assms unfolding validate_result_def Let_def by (auto split: if_splits option.splits)

lemma periodic_counted:
  "periodic_checkpoint p w = (Returned q, w') \<Longrightarrow> progress_counted p \<Longrightarrow> progress_counted q"
  by (auto simp: periodic_checkpoint_def progress_counted_def returned split: if_splits)

lemma consume_counted:
  assumes "consume_durable r p w = (Returned q, w')" "progress_counted p"
  shows "progress_counted q"
proof -
  obtain status msg w1 where v: "validate_result r (dp_coordinator p) = Inr (status, msg)"
    using assms(1) by (auto simp: consume_durable_def returned)
  consider "q = p"
    | store w2 where "status = Accepted"
      "periodic_checkpoint (note_committed r (p\<lparr>dp_store := store,
         dp_coordinator := record_payload r (dp_coordinator p)\<rparr>)) w2 = (Returned q, w')"
    using assms(1) v
    by (auto simp: consume_durable_def reject_result_def commit_result_def record_payload_def returned split: if_splits)
  then show ?thesis
  proof cases
    case (2 store w2)
    let ?i = "unat (block_id (res_block r))"
    have fresh: "?i < length (dp_received p)" "\<not> dp_received p ! ?i"
      using accepted_fresh [OF v [unfolded 2(1)]] assms(2) by (auto simp: progress_counted_def)
    show ?thesis
      by (rule periodic_counted [OF 2(2)], rule progress_counted_step [OF assms(2) fresh])
         (simp_all add: note_committed_def record_payload_def Let_def)
  qed (use assms(2) in simp)
qed

section \<open>The result\<close>

lemma finish_counted:
  assumes "finish_durable spec n p w = (Returned res, w')" "progress_counted p"
    and "progress_ok L env spec engine blocks p" "evidence L spec w"
  shows "unat (dr_recovered_blocks res) + unat (dr_computed_blocks res) = unat (block_count (dr_run_result res))"
proof -
  have s: "store_ok L env spec engine blocks (dp_store p)" and l: "length (dp_received p) = length blocks"
    using assms(3) by (auto simp: progress_ok_def leaves_ok_def)
  from assms(1) obtain store w1 where all: "False \<notin> set (dp_received p)"
    and c: "store_checkpoint (dp_coordinator p) (dp_leaves p) (dp_received p) Complete None (dp_store p) w = (Returned store, w1)"
    and d: "durable_result spec n (p\<lparr>dp_store := store\<rparr>) = Inr res"
    by (auto simp: finish_durable_def returned split: if_splits)
  have "store_ok L env spec engine blocks store" using io_specD(1) [OF store_checkpoint_spec [OF s] assms(4) c] by blast
  then have "length (rec_blocks (st_recovery_state store)) = length blocks"
    by (auto simp: store_ok_def recovery_ok_def same_ranges_def dest: list_all2_lengthD)
  then show ?thesis
    using d assms(2) received_count_all [OF all] l
    by (auto simp: durable_result_def progress_counted_def Let_def unat_of_nat_u64)
qed

text \<open>A result comes from a store that was already complete, or from executing the missing blocks.\<close>

lemma attempt_returned_cases:
  assumes ev: "evidence L spec w" and run: "run_parallel_durable L env canonical exists spec engine config w (Returned res) w'"
  obtains (complete) st w1 p blocks where "store_open env canonical exists spec engine config w = (Returned st, w1)"
      "store_ok L env spec engine blocks st" "start_progress env spec engine st = Inr p"
      "rec_status (st_recovery_state st) = Complete" "durable_result spec 0 p = Inr res"
  | (executed) st w1 p blocks n q w2 where "store_open env canonical exists spec engine config w = (Returned st, w1)"
      "store_ok L env spec engine blocks st" "start_progress env spec engine st = Inr p"
      "evidence L spec w2" "progress_ok L env spec engine blocks q"
      "execute_missing_blocks L spec engine (rec_blocks (st_recovery_state st))
         (dp_received p) (dp_coordinator p) durable_consumer (p, w1, False) (Inr n) (q, w2, False)"
      "finish_durable spec n q w2 = (Returned res, w')"
proof -
  obtain o1 w1 where o1: "store_open env canonical exists spec engine config w = (o1, w1)" by fastforce
  then obtain st p where o: "store_open env canonical exists spec engine config w = (Returned st, w1)"
    and p: "start_progress env spec engine st = Inr p"
    using run by (cases o1) (auto simp: run_parallel_durable_def split: sum.splits)
  obtain blocks where b: "make_blocks spec engine = Inr blocks"
    using o expected_metadata_Inr(1) by (fastforce simp: store_open_def returned)
  note opened = io_specD(1) [OF store_open_spec [OF b] ev o]
  then have ok: "store_ok L env spec engine blocks st" by blast
  show ?thesis
  proof (cases "rec_status (st_recovery_state st) = Complete")
    case True
    then show ?thesis
      using run o p by (intro complete [OF o ok p True]) (simp add: run_parallel_durable_def returned eq_commute [of "(Returned res, w')"])
  next
    case False
    then obtain x c where x: "execute_missing_blocks L spec engine (rec_blocks (st_recovery_state st))
        (dp_received p) (dp_coordinator p) durable_consumer (p, w1, False) x c"
      and out: "(Returned res, w') = durable_outcome spec x c"
      using run by (auto simp: run_parallel_durable_def o p)
    obtain q w2 k where c: "c = (q, w2, k)" by (cases c)
    obtain n where n: "x = Inr n" "\<not> k" "finish_durable spec n q w2 = (Returned res, w')"
      using out by (auto simp: c durable_outcome_def split: if_splits sum.splits)
    let ?I = "\<lambda>(p, w, k). evidence L spec w \<and> progress_ok L env spec engine blocks p \<and> \<not> k"
    have step: "case durable_consumer r c of (c', None) \<Rightarrow> ?I c' | (c', Some e) \<Rightarrow> True"
      if "?I c" "block_leaf L spec (res_block r) = Inr (res_aggregate r)" for r c
      using durable_consumer_invariant that by (cases c) (fastforce split: prod.splits option.splits)
    have "?I c"
      by (rule execute_missing_invariant(2) [OF x, where I = ?I and J = "\<lambda>_. True"])
         (use step start_progress_ok(1) [OF ok p] opened n(1) in auto)
    then show ?thesis using x n by (intro executed [OF o ok p, of w2 q n]) (auto simp: c)
  qed
qed

lemma executed_counted:
  assumes "execute_missing_blocks L spec engine blocks (dp_received p) k durable_consumer (p, w, False) (Inr n) (q, w', killed)"
    and "progress_counted p"
  shows "progress_counted q"
proof -
  have step: "case durable_consumer r c of (c', None) \<Rightarrow> progress_counted (fst c') | (c', Some e) \<Rightarrow> True"
    if "progress_counted (fst c)" for r c
    using that consume_counted
    by (auto simp: durable_consumer_def split: prod.splits option.splits outcome.splits)
  have "progress_counted (fst (q, w', killed))"
    by (rule execute_missing_invariant(2) [OF assms(1), where I = "\<lambda>c. progress_counted (fst c)" and J = "\<lambda>_. True"])
       (use step assms(2) in auto)
  then show ?thesis by simp
qed

lemma attempt_accounting:
  assumes "evidence L spec w" "run_parallel_durable L env canonical exists spec engine config w (Returned res) w'"
  shows "unat (dr_recovered_blocks res) + unat (dr_computed_blocks res) = unat (block_count (dr_run_result res))"
  using assms
proof (cases rule: attempt_returned_cases)
  case (complete st w1 p blocks)
  have c: "progress_counted p" using start_counted [OF complete(2,3)] by blast
  have l: "length (dp_received p) = length (rec_blocks (st_recovery_state st))"
    using start_progress_ok(1) [OF complete(2,3)] complete(2)
    by (auto simp: progress_ok_def leaves_ok_def store_ok_def recovery_ok_def same_ranges_def dest: list_all2_lengthD)
  from complete(5) start_progress_ok(2) [OF complete(2,3)] l c
    received_count_all [OF start_progress_ok(3) [OF complete(2,3,4)]]
  show ?thesis by (auto simp: durable_result_def progress_counted_def Let_def unat_of_nat_u64)
next
  case (executed st w1 p blocks n q w2)
  have "progress_counted p" using start_counted [OF executed(2,3)] by blast
  from finish_counted [OF executed(7) executed_counted [OF executed(6) this] executed(5,4)] show ?thesis .
qed

text \<open>C6. The accounting of a durable run is exact.  Whatever the run directory has seen before, a result that is
  returned counts every block once: the blocks recovered from disk and the blocks computed in this attempt add up
  to the number of blocks of the run, without wrap-around.\<close>

theorem durable_accounting:
  assumes "durable_history L spec w" "run_parallel_durable L env canonical exists spec engine config w (Returned res) w'"
  shows "unat (dr_recovered_blocks res) + unat (dr_computed_blocks res) = unat (block_count (dr_run_result res))"
  by (rule attempt_accounting [OF history_evidence [OF assms(1)] assms(2)])

theorem durable_accounting_witness:
  "\<exists>res w'. run_parallel_durable witness_libm witness_env (\<lambda>_. []) (\<lambda>_. Inr False) witness_spec default_engine_config
       (default_run_store_config ''run'') new_world (Returned res) w' \<and>
     unat (dr_recovered_blocks res) + unat (dr_computed_blocks res) = unat (block_count (dr_run_result res))"
  using healthy_run_correct(1) [OF new_world_healthy witness_admitted, of "\<lambda>_. []" "\<lambda>_. Inr False"]
    durable_accounting [OF witness_history [of witness_libm witness_spec]] by blast

end
