(* ===== verification/Process_Watchdog.thy ===== *)
theory Process_Watchdog
  imports Mc_Prelude
begin

text \<open>
  The process control the tools share (\<^verbatim>\<open>tools/process_watchdog.hpp\<close>): finding the executable to start again, the
  bounded timeout, and the loop that waits for a child process and kills it when its time is over.  The
  operating system is a list of answers; the calls that were made are part of the result.
\<close>

section \<open>The executable\<close>

record file_system =
  fs_absolute :: "string \<Rightarrow> string option"
  fs_canonical :: "string \<Rightarrow> string option"
  fs_is_regular_file :: "string \<Rightarrow> bool option"
  fs_executable :: "string \<Rightarrow> bool"

definition is_absolute :: "string \<Rightarrow> bool" where
  "is_absolute p \<longleftrightarrow> p \<noteq> [] \<and> hd p = CHR ''/''"

definition executable_candidate :: "file_system \<Rightarrow> string \<Rightarrow> string option" where
  "executable_candidate F candidate =
     (case (if is_absolute candidate then Some candidate else fs_absolute F candidate) of
        None \<Rightarrow> None
      | Some p \<Rightarrow>
          (case fs_canonical F p of
             None \<Rightarrow> None
           | Some q \<Rightarrow>
               (case fs_is_regular_file F q of
                  None \<Rightarrow> None
                | Some regular \<Rightarrow> if \<not> regular \<or> \<not> fs_executable F q then None else Some q)))"

text \<open>\<^verbatim>\<open>directory / name\<close> for a relative name.\<close>

definition path_join :: "string \<Rightarrow> string \<Rightarrow> string" where
  "path_join directory name =
     (if directory = [] then name
      else if List.last directory = CHR ''/'' then directory @ name else directory @ ''/'' @ name)"

definition path_directory :: "string \<Rightarrow> string" where
  "path_directory component = (if component = [] then ''.'' else component)"

text \<open>The loop over the components of \<^verbatim>\<open>PATH\<close>.\<close>

function search_path :: "file_system \<Rightarrow> string \<Rightarrow> string \<Rightarrow> string result" where
  "search_path F invoked remaining =
     (case executable_candidate F (path_join (path_directory (takeWhile (\<lambda>c. c \<noteq> CHR '':'') remaining)) invoked) of
        Some p \<Rightarrow> Inr p
      | None \<Rightarrow>
          (case dropWhile (\<lambda>c. c \<noteq> CHR '':'') remaining of
             [] \<Rightarrow> Inl (Runtime_error ''cannot resolve executable through PATH'')
           | separator # rest \<Rightarrow> search_path F invoked rest))"
  by pat_completeness auto
termination
proof (relation "measure (\<lambda>(_, _, remaining). length remaining)")
  fix F invoked remaining separator rest
  assume "dropWhile (\<lambda>c. c \<noteq> CHR '':'') remaining = separator # rest"
  then have "length (separator # rest) \<le> length remaining" using length_dropWhile_le by metis
  then show "((F, invoked, rest), F, invoked, remaining) \<in> measure (\<lambda>(_, _, remaining). length remaining)" by simp
qed simp

declare search_path.simps [simp del]

definition resolve_executable_path :: "file_system \<Rightarrow> string option \<Rightarrow> string \<Rightarrow> string result" where
  "resolve_executable_path F environment_path invocation =
     (if invocation = [] then Inl (Runtime_error ''executable path is empty'')
      else if CHR ''/'' \<in> set invocation
      then (case executable_candidate F invocation of
              Some p \<Rightarrow> Inr p
            | None \<Rightarrow> Inl (Runtime_error ''cannot resolve executable path''))
      else case environment_path of
             None \<Rightarrow> Inl (Runtime_error ''cannot resolve bare executable without PATH'')
           | Some p \<Rightarrow> search_path F invocation p)"

section \<open>The timeout\<close>

definition kMaximumWatchdogSeconds :: u64 where
  "kMaximumWatchdogSeconds = 86400"

definition checked_watchdog_timeout :: "u64 \<Rightarrow> u64 result" where
  "checked_watchdog_timeout seconds =
     (if seconds = 0 \<or> kMaximumWatchdogSeconds < seconds
      then Inl (Invalid_argument ''timeout_seconds must be in [1, 86400]'')
      else Inr seconds)"

section \<open>Waiting for a child\<close>

datatype child_status = Exited nat | Signaled nat | Stopped_otherwise

text \<open>A reading of the steady clock, or a duration, in nanoseconds.\<close>

type_synonym nanoseconds = int

definition watchdog_duration :: "u64 \<Rightarrow> nanoseconds" where
  "watchdog_duration seconds = 1000000000 * uint seconds"

text \<open>What a call of \<^verbatim>\<open>waitpid\<close> answers; while the child runs, with what the clock then reads.\<close>

datatype wait_answer = Reaped child_status | Interrupted | No_such_child | Wait_failed | Still_running nanoseconds

datatype kill_answer = Kill_sent | No_such_process | Kill_failed

text \<open>The answers about one child: its process number, the clock when the wait begins, the answer to a kill and those
  to the waits.\<close>

record child_answers =
  ch_pid :: int
  ch_started :: nanoseconds
  ch_kill :: kill_answer
  ch_waits :: "wait_answer list"

datatype watchdog_call = Poll_child | Read_clock | Sleep_10ms | Kill_child | Wait_blocking

text \<open>The blocking wait that follows the kill: the answer that ends the loop, and how often it was called.\<close>

fun reap_answer :: "wait_answer list \<Rightarrow> (wait_answer \<times> watchdog_call list) option" where
  "reap_answer [] = None"
| "reap_answer (a # rest) =
     (if a = Interrupted
      then map_option (\<lambda>(b, calls). (b, Wait_blocking # calls)) (reap_answer rest)
      else Some (a, [Wait_blocking]))"

definition terminate_child ::
  "string \<Rightarrow> kill_answer \<Rightarrow> wait_answer list \<Rightarrow> (nat result \<times> watchdog_call list) option" where
  "terminate_child phase k answers =
     (if k = Kill_failed
      then Some (Inl (Runtime_error (''cannot terminate timed-out '' @ phase @ '' child'')), [Kill_child])
      else case reap_answer answers of
             None \<Rightarrow> None
           | Some (a, calls) \<Rightarrow>
               (case a of
                  Reaped status \<Rightarrow>
                    Some (Inl (Runtime_error (phase @ '' child exceeded its watchdog timeout'')), Kill_child # calls)
                | No_such_child \<Rightarrow>
                    Some (Inl (Runtime_error (phase @ '' child exceeded its watchdog timeout'')), Kill_child # calls)
                | _ \<Rightarrow>
                    Some (Inl (Runtime_error (''cannot reap timed-out '' @ phase @ '' child'')), Kill_child # calls)))"

definition exit_code :: "string \<Rightarrow> child_status \<Rightarrow> nat result" where
  "exit_code phase status =
     (case status of
        Exited code \<Rightarrow> Inr code
      | Signaled n \<Rightarrow> Inl (Runtime_error (phase @ '' child did not exit normally (signal '' @ decimal n @ '')''))
      | Stopped_otherwise \<Rightarrow> Inl (Runtime_error (phase @ '' child did not exit normally'')))"

text \<open>The loop; \<^verbatim>\<open>None\<close> is a loop that is still waiting when the answers end.\<close>

fun wait_loop ::
  "nanoseconds \<Rightarrow> string \<Rightarrow> kill_answer \<Rightarrow> wait_answer list \<Rightarrow> (nat result \<times> watchdog_call list) option" where
  "wait_loop deadline phase k [] = None"
| "wait_loop deadline phase k (a # rest) =
     (case a of
        Reaped status \<Rightarrow> Some (exit_code phase status, [Poll_child])
      | Interrupted \<Rightarrow> map_option (\<lambda>(r, calls). (r, Poll_child # calls)) (wait_loop deadline phase k rest)
      | No_such_child \<Rightarrow> Some (Inl (Runtime_error (''cannot wait for '' @ phase @ '' child'')), [Poll_child])
      | Wait_failed \<Rightarrow> Some (Inl (Runtime_error (''cannot wait for '' @ phase @ '' child'')), [Poll_child])
      | Still_running now \<Rightarrow>
          if deadline \<le> now
          then map_option (\<lambda>(r, calls). (r, Poll_child # Read_clock # calls)) (terminate_child phase k rest)
          else map_option (\<lambda>(r, calls). (r, Poll_child # Read_clock # Sleep_10ms # calls)) (wait_loop deadline phase k rest))"

definition wait_for_child ::
  "int \<Rightarrow> nanoseconds \<Rightarrow> string \<Rightarrow> nanoseconds \<Rightarrow> kill_answer \<Rightarrow> wait_answer list \<Rightarrow> (nat result \<times> watchdog_call list) option" where
  "wait_for_child child timeout phase started k answers =
     (if child \<le> 0 then Some (Inl (Invalid_argument ''watchdog requires a positive child PID''), [])
      else let deadline = started + timeout in
           map_option (\<lambda>(r, calls). (r, Read_clock # calls)) (wait_loop deadline phase k answers))"

section \<open>The search finds the first candidate\<close>

text \<open>The components of a search path, an empty one among them.\<close>

fun components :: "string \<Rightarrow> string list" where
  "components [] = [[]]"
| "components (c # cs) =
     (if c = CHR '':'' then [] # components cs
      else case components cs of [] \<Rightarrow> [[c]] | d # ds \<Rightarrow> (c # d) # ds)"

lemma components_split:
  "components p = takeWhile (\<lambda>c. c \<noteq> CHR '':'') p #
     (case dropWhile (\<lambda>c. c \<noteq> CHR '':'') p of [] \<Rightarrow> [] | separator # rest \<Rightarrow> components rest)"
  by (induction p) auto

fun first_some :: "('a \<Rightarrow> 'b option) \<Rightarrow> 'a list \<Rightarrow> 'b option" where
  "first_some f [] = None"
| "first_some f (x # xs) = (case f x of Some y \<Rightarrow> Some y | None \<Rightarrow> first_some f xs)"

lemma search_path_first:
  "search_path F invoked p =
     (case first_some (\<lambda>c. executable_candidate F (path_join (path_directory c) invoked)) (components p) of
        Some q \<Rightarrow> Inr q
      | None \<Rightarrow> Inl (Runtime_error ''cannot resolve executable through PATH''))"
proof (induction F invoked p rule: search_path.induct)
  case (1 F invoked p)
  let ?f = "\<lambda>c. executable_candidate F (path_join (path_directory c) invoked)"
  let ?c = "takeWhile (\<lambda>c. c \<noteq> CHR '':'') p"
  show ?case
  proof (cases "?f ?c")
    case (Some q)
    then show ?thesis by (simp only: search_path.simps [of F invoked p] components_split [of p] first_some.simps option.case)
  next
    case None
    show ?thesis
    proof (cases "dropWhile (\<lambda>c. c \<noteq> CHR '':'') p")
      case Nil
      then show ?thesis using None
        by (simp only: search_path.simps [of F invoked p] components_split [of p] first_some.simps option.case list.case)
    next
      case (Cons d rest)
      then show ?thesis using None 1 [OF None Cons]
        by (simp only: search_path.simps [of F invoked p] components_split [of p] first_some.simps option.case list.case)
    qed
  qed
qed

lemma first_some_iff: "first_some f xs = Some y \<longleftrightarrow> (\<exists>i < length xs. f (xs ! i) = Some y \<and> (\<forall>j < i. f (xs ! j) = None))"
proof (induction xs)
  case (Cons x xs)
  show ?case
  proof (cases "f x")
    case None
    have "(\<exists>i < length (x # xs). f ((x # xs) ! i) = Some y \<and> (\<forall>j < i. f ((x # xs) ! j) = None)) \<longleftrightarrow>
        (\<exists>i < length xs. f (xs ! i) = Some y \<and> (\<forall>j < i. f (xs ! j) = None))"
      (is "?l \<longleftrightarrow> ?r")
    proof
      assume ?l
      then obtain i where i: "i < length (x # xs)" "f ((x # xs) ! i) = Some y" "\<forall>j < i. f ((x # xs) ! j) = None" by blast
      then obtain k where k: "i = Suc k" using None by (cases i) auto
      have "f (xs ! j) = None" if "j < k" for j using i(3) that k by (metis Suc_less_eq nth_Cons_Suc)
      then show ?r using i k by auto
    next
      assume ?r
      then obtain k where k: "k < length xs" "f (xs ! k) = Some y" "\<forall>j < k. f (xs ! j) = None" by blast
      have "f ((x # xs) ! j) = None" if "j < Suc k" for j using that k(3) None by (cases j) auto
      then show ?l using k by (intro exI [of _ "Suc k"]) auto
    qed
    then show ?thesis using None Cons by simp
  next
    case (Some z)
    have "z = y" if "f ((x # xs) ! i) = Some y" "\<forall>j < i. f ((x # xs) ! j) = None" for i
      using that Some by (cases i) auto
    then show ?thesis using Some by (auto intro: exI [of _ 0])
  qed
qed simp

text \<open>The executable a tool starts again is resolved like the shell resolves it: a name with a slash is the file
  itself; a bare name is the first executable regular file in the components of the search path from the left,
  where an empty component is the current directory; otherwise the tool stops with an error.\<close>

theorem executable_resolution:
  assumes "invocation \<noteq> []"
  shows "resolve_executable_path F env invocation = Inr p \<longleftrightarrow>
    (if CHR ''/'' \<in> set invocation then executable_candidate F invocation = Some p
     else \<exists>path i. env = Some path \<and> i < length (components path) \<and>
       executable_candidate F (path_join (path_directory (components path ! i)) invocation) = Some p \<and>
       (\<forall>j < i. executable_candidate F (path_join (path_directory (components path ! j)) invocation) = None))"
proof -
  have search: "search_path F invocation path = Inr p \<longleftrightarrow>
      (\<exists>i < length (components path). executable_candidate F (path_join (path_directory (components path ! i)) invocation) = Some p \<and>
        (\<forall>j < i. executable_candidate F (path_join (path_directory (components path ! j)) invocation) = None))" for path
    unfolding first_some_iff [of "\<lambda>c. executable_candidate F (path_join (path_directory c) invocation)", symmetric]
    by (simp add: search_path_first split: option.splits)
  show ?thesis
  proof (cases "CHR ''/'' \<in> set invocation")
    case True
    then show ?thesis using assms by (simp add: resolve_executable_path_def split: option.splits)
  next
    case False
    then show ?thesis using assms search by (cases env) (simp_all add: resolve_executable_path_def)
  qed
qed

theorem executable_resolution_witness:
  "resolve_executable_path \<lparr>fs_absolute = (\<lambda>p. Some p), fs_canonical = (\<lambda>p. Some p), fs_is_regular_file = (\<lambda>_. Some True),
     fs_executable = (\<lambda>p. p = ''/bin/tool'')\<rparr> (Some '':/bin'') ''tool'' = Inr ''/bin/tool''"
proof -
  have "components '':/bin'' = [[], ''/bin'']" by simp
  then show ?thesis
    by (subst executable_resolution)
       (auto simp: executable_candidate_def path_join_def path_directory_def is_absolute_def intro!: exI [of _ 1])
qed

section \<open>The watchdog\<close>

text \<open>Whether a child can still be running or waiting to be reaped after a list of calls was answered.\<close>

definition child_gone :: "wait_answer list \<Rightarrow> bool" where
  "child_gone answers \<longleftrightarrow> (\<exists>a \<in> set answers. (\<exists>status. a = Reaped status) \<or> a = No_such_child)"

lemma reap_answer_spec:
  "reap_answer answers = Some (a, calls) \<Longrightarrow> a \<in> set answers \<and> a \<noteq> Interrupted \<and> set calls = {Wait_blocking}"
  by (induction answers arbitrary: a calls) (auto split: if_splits)

lemma wait_loop_code:
  "wait_loop deadline phase k answers = Some (Inr code, calls) \<Longrightarrow>
     Reaped (Exited code) \<in> set answers \<and> Kill_child \<notin> set calls"
proof (induction answers arbitrary: calls)
  case (Cons a answers)
  then show ?case
    by (auto simp: exit_code_def terminate_child_def split: wait_answer.splits child_status.splits if_splits option.splits prod.splits)
qed simp

lemma wait_loop_kill:
  "wait_loop deadline phase k answers = Some (r, calls) \<Longrightarrow> Kill_child \<in> set calls \<Longrightarrow>
     (\<exists>now \<ge> deadline. Still_running now \<in> set answers) \<and>
     (r = Inl (Runtime_error (phase @ '' child exceeded its watchdog timeout'')) \<and> child_gone answers \<or>
      r = Inl (Runtime_error (''cannot terminate timed-out '' @ phase @ '' child'')) \<and> k = Kill_failed \<or>
      r = Inl (Runtime_error (''cannot reap timed-out '' @ phase @ '' child'')))"
proof (induction answers arbitrary: calls)
  case (Cons a answers)
  show ?case
  proof (cases "\<exists>now \<ge> deadline. a = Still_running now")
    case True
    then obtain calls' where "terminate_child phase k answers = Some (r, calls')" using Cons.prems by auto
    then show ?thesis using True
      by (auto simp: terminate_child_def child_gone_def dest!: reap_answer_spec
               split: if_splits option.splits prod.splits wait_answer.splits)
  next
    case False
    then obtain calls' where "wait_loop deadline phase k answers = Some (r, calls')" "Kill_child \<in> set calls'"
      using Cons.prems by (auto split: wait_answer.splits if_splits)
    from Cons.IH [OF this] show ?thesis by (auto simp: child_gone_def)
  qed
qed simp

lemma wait_loop_timeout:
  assumes "\<forall>a \<in> set (take n answers). a = Interrupted \<or> (\<exists>t < deadline. a = Still_running t)" "n < length answers"
    and "answers ! n = Still_running now" "deadline \<le> now"
    and "k \<noteq> Kill_failed" "Reaped status \<in> set (drop (Suc n) answers)"
    and "set (drop (Suc n) answers) \<subseteq> {Interrupted, Reaped status}"
  shows "\<exists>calls. wait_loop deadline phase k answers =
    Some (Inl (Runtime_error (phase @ '' child exceeded its watchdog timeout'')), calls) \<and> Kill_child \<in> set calls"
proof -
  have reap: "\<exists>calls. reap_answer as = Some (Reaped status, calls)"
    if "set as \<subseteq> {Interrupted, Reaped status}" "Reaped status \<in> set as" for as
    using that by (induction as) auto
  show ?thesis
    using assms
  proof (induction n arbitrary: answers)
    case 0
    then obtain rest where rest: "answers = Still_running now # rest" by (cases answers) auto
    obtain calls where "reap_answer rest = Some (Reaped status, calls)" using reap [of rest] 0 rest by auto
    then show ?case using 0(4,5) by (simp add: rest terminate_child_def)
  next
    case (Suc n)
    then obtain a rest where a: "answers = a # rest" by (cases answers) auto
    from Suc a have "\<exists>calls. wait_loop deadline phase k rest =
        Some (Inl (Runtime_error (phase @ '' child exceeded its watchdog timeout'')), calls) \<and> Kill_child \<in> set calls"
      by (intro Suc.IH) auto
    moreover have "a = Interrupted \<or> (\<exists>t < deadline. a = Still_running t)" using Suc.prems(1) by (simp add: a)
    ultimately show ?case by (auto simp: a)
  qed
qed

text \<open>C37. The watchdog is sound and leaves nothing behind.  An exit code is only returned for a child that the
  system has reported as exited with that code, and then no signal was sent.  A signal is only sent after a
  poll found the child running and the clock then stood at or past the start plus the timeout; the tool then
  reports the timeout, after the child is gone, or that it could not be terminated or reaped.  And a child that
  hangs is killed: if every poll before the deadline finds it running, the kill is delivered and the system then
  hands over the child, the loop ends with the timeout error.\<close>

theorem watchdog_correct:
  assumes "0 < child"
  shows "(\<forall>code calls. wait_for_child child timeout phase started k answers = Some (Inr code, calls) \<longrightarrow>
      Reaped (Exited code) \<in> set answers \<and> Kill_child \<notin> set calls) \<and>
    (\<forall>r calls. wait_for_child child timeout phase started k answers = Some (r, calls) \<longrightarrow> Kill_child \<in> set calls \<longrightarrow>
      (\<exists>now \<ge> started + timeout. Still_running now \<in> set answers) \<and>
      (r = Inl (Runtime_error (phase @ '' child exceeded its watchdog timeout'')) \<and> child_gone answers \<or>
       r = Inl (Runtime_error (''cannot terminate timed-out '' @ phase @ '' child'')) \<and> k = Kill_failed \<or>
       r = Inl (Runtime_error (''cannot reap timed-out '' @ phase @ '' child'')))) \<and>
    (\<forall>n now status. (\<forall>a \<in> set (take n answers). a = Interrupted \<or> (\<exists>t < started + timeout. a = Still_running t)) \<longrightarrow>
      n < length answers \<longrightarrow> answers ! n = Still_running now \<longrightarrow> started + timeout \<le> now \<longrightarrow> k \<noteq> Kill_failed \<longrightarrow>
      Reaped status \<in> set (drop (Suc n) answers) \<longrightarrow> set (drop (Suc n) answers) \<subseteq> {Interrupted, Reaped status} \<longrightarrow>
      (\<exists>calls. wait_for_child child timeout phase started k answers =
         Some (Inl (Runtime_error (phase @ '' child exceeded its watchdog timeout'')), calls) \<and> Kill_child \<in> set calls))"
proof -
  have w: "wait_for_child child timeout phase started k answers = Some (r, calls) \<longleftrightarrow>
      (\<exists>c. wait_loop (started + timeout) phase k answers = Some (r, c) \<and> calls = Read_clock # c)" for r calls
    using assms by (auto simp: wait_for_child_def Let_def)
  show ?thesis unfolding w
  proof (intro conjI allI impI, goal_cases)
    case (1 code calls)
    then show ?case using wait_loop_code by blast
  next
    case (2 code calls)
    then show ?case using wait_loop_code by auto
  next
    case (3 r calls)
    then obtain c where "wait_loop (started + timeout) phase k answers = Some (r, c)" "Kill_child \<in> set c" by auto
    from wait_loop_kill [OF this] show ?case by (rule conjunct1)
  next
    case (4 r calls)
    then obtain c where "wait_loop (started + timeout) phase k answers = Some (r, c)" "Kill_child \<in> set c" by auto
    from wait_loop_kill [OF this] show ?case by (rule conjunct2)
  next
    case (5 n now status)
    from wait_loop_timeout [OF this, of phase] show ?case by auto
  qed
qed

theorem watchdog_correct_witness:
  "\<exists>calls. wait_for_child 7 50 ''replay'' 1000 Kill_sent
       [Still_running 1049, Still_running 1050, Interrupted, Reaped (Signaled 9)] =
     Some (Inl (Runtime_error ''replay child exceeded its watchdog timeout''), calls) \<and> Kill_child \<in> set calls"
  using watchdog_correct [of 7 50 "''replay''" 1000 Kill_sent
      "[Still_running 1049, Still_running 1050, Interrupted, Reaped (Signaled 9)]",
      THEN conjunct2, THEN conjunct2, THEN spec [of _ 1], THEN spec [of _ 1050], THEN spec [of _ "Signaled 9"]]
  by simp

end
