(* ===== verification/Crash_Matrix.thy ===== *)
theory Crash_Matrix
  imports Durable_Accounting Process_Watchdog Decimal_Text
begin

text \<open>
  The crash matrix (\<^verbatim>\<open>tools/run_crash_matrix.cpp\<close>): the seeded cases, the child that runs one case until the
  injected failure ends it, the child that recovers it and compares with an undisturbed run, and the supervising
  loop over the seeds with its coverage gates.  The processes are runs of the model on the case's run directory;
  the file system outside that directory and the answers of the system are parameters.
\<close>

section \<open>The seeded cases\<close>

record matrix_case =
  mx_spec :: run_spec
  mx_engine_config :: engine_config
  mx_store_config :: run_store_config

definition mix_seed :: "u64 \<Rightarrow> u64" where
  "mix_seed v =
     (let v = v + 0x9E3779B97F4A7C15;
          v = (v XOR drop_bit 30 v) * 0xBF58476D1CE4E5B9;
          v = (v XOR drop_bit 27 v) * 0x94D049BB133111EB
      in v XOR drop_bit 31 v)"

definition padded_case :: "u64 \<Rightarrow> string" where
  "padded_case index = ''case_'' @ pad_left 8 (decimal (unat index))"

text \<open>\<^verbatim>\<open>base + step * static_cast<double>(k)\<close>.\<close>

definition stepped :: "double \<Rightarrow> double \<Rightarrow> u64 \<Rightarrow> double" where
  "stepped base step k = fadd base (fmul step (of_u64 k))"

definition matrix_heston :: "u64 \<Rightarrow> heston_params" where
  "matrix_heston topology = default_heston\<lparr>
     initial_variance :=  \<comment> \<open>0.02 + 0.01 k\<close>
       stepped (Double 0x3F947AE147AE147B) (Double 0x3F847AE147AE147B) (drop_bit 4 topology mod 4),
     mean_reversion_rate :=  \<comment> \<open>0.75 + 0.25 k\<close>
       stepped (Double 0x3FE8000000000000) (Double 0x3FD0000000000000) (drop_bit 6 topology mod 5),
     long_run_variance :=  \<comment> \<open>0.03 + 0.01 k\<close>
       stepped (Double 0x3F9EB851EB851EB8) (Double 0x3F847AE147AE147B) (drop_bit 9 topology mod 4),
     volatility_of_variance :=  \<comment> \<open>0.2 + 0.1 k\<close>
       stepped (Double 0x3FC999999999999A) (Double 0x3FB999999999999A) (drop_bit 11 topology mod 4),
     correlation :=  \<comment> \<open>-0.8 + 0.2 k\<close>
       stepped (Double 0xBFE999999999999A) (Double 0x3FC999999999999A) (drop_bit 14 topology mod 9)\<rparr>"

definition matrix_block_sizes :: "u64 list" where
  "matrix_block_sizes = [16, 24, 32, 48, 64, 96]"

definition matrix_queue_capacities :: "u64 list" where
  "matrix_queue_capacities = [0, 1, 2, 4]"

definition matrix_block_size :: "u64 \<Rightarrow> u64" where
  "matrix_block_size topology = matrix_block_sizes ! unat (drop_bit 12 topology mod 6)"

definition matrix_block_count :: "u64 \<Rightarrow> u64" where
  "matrix_block_count topology = 3 + drop_bit 20 topology mod 8"

definition matrix_tail :: "bool \<Rightarrow> u64 \<Rightarrow> u64 \<Rightarrow> u64" where
  "matrix_tail pairs bsize topology =
     (if pairs then 2 else 1) * (1 + drop_bit 28 topology mod (if pairs then bsize div 2 else bsize))"

definition matrix_spec :: "u64 \<Rightarrow> u64 \<Rightarrow> run_spec" where
  "matrix_spec failure_seed topology =
     (let pairs = topology AND 2 \<noteq> 0; bsize = matrix_block_size topology;
          spec = default_run_spec\<lparr>
            global_seed := 0xD1B54A32D192ED03 XOR failure_seed,
            num_time_steps := ucast (1 + drop_bit 8 topology mod 4),
            spec_payoff_type := (if topology AND 1 = 0 then EuropeanCall else AsianCall),
            antithetic := pairs,
            total_scenarios := (matrix_block_count topology - 1) * bsize + matrix_tail pairs bsize topology\<rparr>
      in if topology AND 4 \<noteq> 0 then spec\<lparr>spec_model_type := Heston, heston := Some (matrix_heston topology)\<rparr> else spec)"

definition make_case :: "u64 \<Rightarrow> string \<Rightarrow> matrix_case" where
  "make_case failure_seed case_directory =
     (let topology = mix_seed (failure_seed XOR 0xA0761D6478BD642F)
      in \<lparr>mx_spec = matrix_spec failure_seed topology,
          mx_engine_config = default_engine_config\<lparr>
            worker_count := 1,
            block_size := matrix_block_size topology,
            assignment_queue_capacity := matrix_queue_capacities ! unat (drop_bit 36 topology mod 4),
            completion_queue_capacity := matrix_queue_capacities ! unat (drop_bit 44 topology mod 4)\<rparr>,
          mx_store_config = (default_run_store_config (path_join case_directory ''run''))\<lparr>
            rsc_checkpoint_interval_blocks := 1 + drop_bit 52 topology mod min 4 (matrix_block_count topology - 1),
            rsc_min_free_space_bytes := 0,
            rsc_failure_injection := Some (failure_injection_from_seed failure_seed
              (path_join case_directory ''failure.replay''))\<rparr>\<rparr>)"

section \<open>Every case is valid\<close>

lemma mag_units_eight: "mag_units 0x4020000000000000 = 8 * unit_scale"
  by (simp add: mag_units_def mag_shift_def unit_scale_def)

lemma stepped_bounds:
  assumes "isfinite base" "isfinite step" "\<not> signbit step" "unat k \<le> 8"
    and c: "isfinite c" "\<not> signbit c" "8 * mag_units (mag step) \<le> mag_units (mag c)"
    and hi: "isfinite hi" "units base + units c \<le> units hi"
  shows "isfinite (stepped base step k)" "ord64 base \<le> ord64 (stepped base step k)" "ord64 (stepped base step k) \<le> ord64 hi"
proof -
  let ?k = "of_u64 k" and ?b = "fmul step (of_u64 k)"
  have k: "isfinite ?k" "\<not> signbit ?k" "mag_units (mag ?k) \<le> 8 * unit_scale"
    using of_u64_bounds(1) [of k] round_units_le_representable [of 1 "unat k * unit_scale" "0x4020000000000000"] assms(4)
    by (simp_all add: of_u64_def mag_units_eight)
  have "mag_units (mag step) * mag_units (mag ?k) \<le> mag_units (mag step) * (8 * unit_scale)" using k(3) by (rule mult_le_mono2)
  also have "\<dots> \<le> mag_units (mag c) * unit_scale" using mult_le_mono1 [OF c(3), of unit_scale] by (simp add: ac_simps)
  finally have m: "mag_units (round_units (mag_units (mag step) * mag_units (mag ?k)) unit_scale) \<le> mag_units (mag c)"
    by (intro round_units_le_representable) simp_all
  then have b: "0 \<le> ord64 ?b" "ord64 ?b \<le> ord64 c"
    using fmul_ord [OF assms(2) k(1)] assms(3) k(2) c(2) by (simp_all add: ord64_def mag_units_le_iff)
  then have fb: "isfinite ?b" using c(1) by (simp add: isfinite_ord)
  have u: "0 \<le> units ?b" "units ?b \<le> units c" using b by simp_all
  show lo: "ord64 base \<le> ord64 (stepped base step k)"
    unfolding stepped_def using assms(1) fb u by (intro fadd_ge) auto
  show up: "ord64 (stepped base step k) \<le> ord64 hi"
    unfolding stepped_def
  proof (rule fadd_le [OF assms(1) fb hi(1)])
    show "units base + units ?b \<le> units hi" using hi(2) u(2) by linarith
  qed
  show "isfinite (stepped base step k)" by (rule isfinite_between [OF assms(1) hi(1) lo up])
qed

lemmas double_facts = isfinite_def signbit_def mag_def ord64_def units_def mag_units_def mag_shift_def

text \<open>The four nonnegative parameters start at a nonnegative base; the correlation stays below 1.\<close>

lemma stepped_nonnegative:
  assumes "isfinite base" "0 \<le> ord64 base" "mag base \<le> 0x3FF0000000000000"
    and "isfinite step" "\<not> signbit step" "mag step \<le> 0x3FD0000000000000" "unat k \<le> 8"
  shows "finite_nonnegative (stepped base step k)"
proof -
  have two: "mag (Double 0x4000000000000000) = 0x4000000000000000" "\<not> signbit (Double 0x4000000000000000)"
    by (simp_all add: mag_def signbit_def)
  have four: "mag (Double 0x4010000000000000) = 0x4010000000000000" "\<not> signbit (Double 0x4010000000000000)"
    by (simp_all add: mag_def signbit_def)
  have base: "mag_units (mag base) \<le> mag_units 0x3FF0000000000000" using assms(3) by (rule mag_units_mono)
  have "mag_units (mag step) \<le> mag_units 0x3FD0000000000000" using assms(6) by (rule mag_units_mono)
  moreover have "8 * mag_units 0x3FD0000000000000 = mag_units 0x4000000000000000"
    by (simp add: mag_units_def mag_shift_def)
  ultimately have "8 * mag_units (mag step) \<le> mag_units 0x4000000000000000" by linarith
  moreover have "mag_units 0x3FF0000000000000 + mag_units 0x4000000000000000 \<le> mag_units 0x4010000000000000"
    by (simp add: mag_units_def mag_shift_def)
  ultimately have "isfinite (stepped base step k)" "ord64 base \<le> ord64 (stepped base step k)"
    using stepped_bounds(1,2) [OF assms(1,4,5,7), of "Double 0x4000000000000000" "Double 0x4010000000000000"] two four base
    by (auto simp: isfinite_def units_def)
  then show ?thesis using assms(2) by (simp add: finite_nonnegative_def flt_def)
qed

lemma matrix_correlation:
  assumes "unat k \<le> 8"
  shows "\<not> (\<not> isfinite (stepped (Double 0xBFE999999999999A) (Double 0x3FC999999999999A) k) \<or>
      flt (stepped (Double 0xBFE999999999999A) (Double 0x3FC999999999999A) k) minus_one64 \<or>
      flt one64 (stepped (Double 0xBFE999999999999A) (Double 0x3FC999999999999A) k))"
proof -
  have "isfinite (Double 0xBFE999999999999A)" "isfinite (Double 0x3FC999999999999A)" "\<not> signbit (Double 0x3FC999999999999A)"
    "isfinite (Double 0x3FFC000000000000)" "\<not> signbit (Double 0x3FFC000000000000)" "isfinite one64"
    "8 * mag_units (mag (Double 0x3FC999999999999A)) \<le> mag_units (mag (Double 0x3FFC000000000000))"
    "units (Double 0xBFE999999999999A) + units (Double 0x3FFC000000000000) \<le> units one64"
    "ord64 minus_one64 \<le> ord64 (Double 0xBFE999999999999A)"
    by (simp_all add: double_facts one64_def minus_one64_def mk_double_def)
  note b = this
  from stepped_bounds [OF b(1,2,3) assms b(4,5,7,6,8)] b(9) show ?thesis by (auto simp: flt_def)
qed

lemma matrix_heston_valid: "validate_heston (matrix_heston topology) = Inr ()"
proof -
  have "unat (k mod n) \<le> 8" if "unat n \<le> 9" "n \<noteq> 0" for k n :: u64
  proof -
    have "unat k mod unat n < unat n" using that(2) by (simp add: unat_gt_0)
    then show ?thesis using that(1) by (simp add: unat_mod)
  qed
  then have k: "unat (drop_bit 4 topology mod 4) \<le> 8" "unat (drop_bit 6 topology mod 5) \<le> 8"
    "unat (drop_bit 9 topology mod 4) \<le> 8" "unat (drop_bit 11 topology mod 4) \<le> 8" "unat (drop_bit 14 topology mod 9) \<le> 8"
    by simp_all
  have "finite_nonnegative (initial_variance (matrix_heston topology))"
    "finite_nonnegative (mean_reversion_rate (matrix_heston topology))"
    "finite_nonnegative (long_run_variance (matrix_heston topology))"
    "finite_nonnegative (volatility_of_variance (matrix_heston topology))"
    unfolding matrix_heston_def using k by (auto intro!: stepped_nonnegative simp: double_facts)
  then show ?thesis
    using matrix_correlation [OF k(5)] by (simp add: validate_heston_def matrix_heston_def default_heston_def)
qed

lemma mod_u64_bounds: "n \<noteq> 0 \<Longrightarrow> unat (k mod n) < unat n" for k n :: u64
  by (simp add: unat_mod unat_gt_0)

lemma matrix_block_size_cases: "unat (matrix_block_size topology) \<in> {16, 24, 32, 48, 64, 96}"
proof -
  have "unat (drop_bit 12 topology mod 6) < 6" using mod_u64_bounds [of 6 "drop_bit 12 topology"] by simp
  then have "matrix_block_size topology \<in> set matrix_block_sizes"
    unfolding matrix_block_size_def by (intro nth_mem) (simp add: matrix_block_sizes_def)
  then show ?thesis by (auto simp: matrix_block_sizes_def)
qed

lemma matrix_block_count_bounds: "3 \<le> unat (matrix_block_count topology)" "unat (matrix_block_count topology) \<le> 10"
proof -
  have "unat (drop_bit 20 topology mod 8) < 8" using mod_u64_bounds [of 8 "drop_bit 20 topology"] by simp
  then show "3 \<le> unat (matrix_block_count topology)" "unat (matrix_block_count topology) \<le> 10"
    by (simp_all add: matrix_block_count_def unat_add_u64)
qed

lemma matrix_tail_bounds:
  assumes "0 < unat b" "unat b \<le> 96" "even (unat b)"
  shows "1 \<le> unat (matrix_tail pairs b topology)" "unat (matrix_tail pairs b topology) \<le> unat b"
    "pairs \<Longrightarrow> even (unat (matrix_tail pairs b topology))"
proof -
  let ?units = "if pairs then b div 2 else b"
  have u: "unat ?units = (if pairs then unat b div 2 else unat b)" by (simp add: unat_div)
  have half: "2 * (unat b div 2) = unat b" using assms(3) by simp
  then have nz: "?units \<noteq> 0" using assms(1) u by (metis div_eq_0_iff mult_is_0 neq0_conv unat_0)
  have k: "unat (drop_bit 28 topology mod ?units) < unat ?units" by (rule mod_u64_bounds [OF nz])
  have small: "unat ?units \<le> 96" using u assms(2) by (auto split: if_splits)
  have t: "unat (1 + drop_bit 28 topology mod ?units) = Suc (unat (drop_bit 28 topology mod ?units))"
    using k small by (simp add: unat_add_u64)
  have "unat (matrix_tail pairs b topology) = (if pairs then 2 else 1) * Suc (unat (drop_bit 28 topology mod ?units))"
  proof -
    have "unat ((if pairs then 2 else 1) * (1 + drop_bit 28 topology mod ?units)) =
        unat (if pairs then 2 else 1 :: u64) * unat (1 + drop_bit 28 topology mod ?units)"
      using t k small by (intro unat_mult_u64) (auto split: if_splits)
    then show ?thesis unfolding matrix_tail_def t by simp
  qed
  then show "1 \<le> unat (matrix_tail pairs b topology)" "unat (matrix_tail pairs b topology) \<le> unat b"
    "pairs \<Longrightarrow> even (unat (matrix_tail pairs b topology))"
    using k u half by (auto split: if_splits)
qed

text \<open>The number of scenarios of a case, on natural numbers.\<close>

lemma matrix_total:
  fixes seed topology :: u64
  defines "b \<equiv> matrix_block_size topology" and "n \<equiv> matrix_block_count topology"
  shows "unat (total_scenarios (matrix_spec seed topology)) =
      (unat n - 1) * unat b + unat (matrix_tail (topology AND 2 \<noteq> 0) b topology)"
proof -
  let ?t = "matrix_tail (topology AND 2 \<noteq> 0) b topology"
  have b: "unat b \<in> {16, 24, 32, 48, 64, 96}" unfolding b_def by (rule matrix_block_size_cases)
  have n: "3 \<le> unat n" "unat n \<le> 10" unfolding n_def by (rule matrix_block_count_bounds)+
  have t: "unat ?t \<le> unat b" using b by (intro matrix_tail_bounds(2)) auto
  have m: "unat (n - 1) = unat n - 1" using n unat_sub_u64 [of 1 n] by (simp add: word_le_nat_alt)
  have p: "(unat n - 1) * unat b \<le> 9 * 96" using n b by (intro mult_le_mono) auto
  have "unat ((n - 1) * b) = (unat n - 1) * unat b" using m p by (simp add: unat_mult_u64)
  moreover have "unat ((n - 1) * b + ?t) = unat ((n - 1) * b) + unat ?t"
    using calculation p t b by (intro unat_add_u64) auto
  moreover have "total_scenarios (matrix_spec seed topology) = (n - 1) * b + ?t"
    by (simp add: matrix_spec_def Let_def b_def n_def)
  ultimately show ?thesis by simp
qed

lemma matrix_spec_fields:
  "engine_version (matrix_spec seed topology) = kEngineVersion" "rng_version (matrix_spec seed topology) = kRngVersion"
  "stats_schema_version (matrix_spec seed topology) = kStatsSchemaVersion"
  "maturity (matrix_spec seed topology) = maturity default_run_spec" "spot (matrix_spec seed topology) = spot default_run_spec"
  "strike (matrix_spec seed topology) = strike default_run_spec" "rate (matrix_spec seed topology) = rate default_run_spec"
  "volatility (matrix_spec seed topology) = volatility default_run_spec"
  "antithetic (matrix_spec seed topology) = (topology AND 2 \<noteq> 0)"
  "num_time_steps (matrix_spec seed topology) = ucast (1 + drop_bit 8 topology mod 4)"
  "spec_payoff_type (matrix_spec seed topology) \<in> {EuropeanCall, AsianCall}"
  by (simp_all add: matrix_spec_def default_run_spec_def Let_def)

lemma matrix_steps: "unat (ucast (1 + drop_bit 8 topology mod 4 :: u64) :: u32) \<in> {1..4}"
proof -
  have "unat (drop_bit 8 topology mod 4) < 4" using mod_u64_bounds [of 4 "drop_bit 8 topology"] by simp
  then have "unat (1 + drop_bit 8 topology mod 4) \<in> {1..4}" by (simp add: unat_add_u64)
  then show ?thesis by (simp add: unsigned_ucast_eq take_bit_eq_mod)
qed

lemma matrix_model_valid: "validate_model (matrix_spec seed topology) = Inr ()"
  using default_run_spec_valid matrix_heston_valid [of topology]
  by (auto simp: validate_model_def matrix_spec_def default_run_spec_def valid_spec_def validate_run_spec_def Let_def
      split: if_splits)

lemma matrix_spec_valid: "validate_run_spec (matrix_spec seed topology) = Inr ()"
proof -
  let ?s = "matrix_spec seed topology" and ?b = "matrix_block_size topology"
  let ?t = "matrix_tail (topology AND 2 \<noteq> 0) ?b topology"
  have b: "unat ?b \<in> {16, 24, 32, 48, 64, 96}" by (rule matrix_block_size_cases)
  have t: "1 \<le> unat ?t" "unat ?t \<le> unat ?b" "topology AND 2 \<noteq> 0 \<Longrightarrow> even (unat ?t)"
    using b by (intro matrix_tail_bounds; force)+
  have "(unat (matrix_block_count topology) - 1) * unat ?b \<le> 9 * 96"
    using b matrix_block_count_bounds [of topology] by (intro mult_le_mono) auto
  then have n: "1 \<le> unat (total_scenarios ?s)" "unat (total_scenarios ?s) \<le> 960"
    and e: "topology AND 2 \<noteq> 0 \<Longrightarrow> even (unat (total_scenarios ?s))"
    using t b by (auto simp: matrix_total)
  have d: "finite_positive (maturity default_run_spec)" "finite_positive (spot default_run_spec)"
    "finite_positive (strike default_run_spec)" "isfinite (rate default_run_spec)"
    using default_run_spec_valid by (auto simp: valid_spec_def validate_run_spec_def split: if_splits)
  have total: "total_scenarios ?s \<noteq> 0" "\<not> kMaxScenarios < total_scenarios ?s"
    using n by (auto simp: kMaxScenarios_def word_less_nat_alt)
  have steps: "num_time_steps ?s \<noteq> 0" "\<not> kMaxTimeSteps < num_time_steps ?s"
    using matrix_steps [of topology] by (auto simp: matrix_spec_fields kMaxTimeSteps_def word_less_nat_alt)
  have pairs: "\<not> (antithetic ?s \<and> total_scenarios ?s mod 2 \<noteq> 0)"
  proof (cases "topology AND 2 \<noteq> 0")
    case True
    then have "unat (total_scenarios ?s mod 2) = 0" using e by (simp add: unat_mod)
    then show ?thesis by (simp add: unat_eq_zero)
  qed (simp add: matrix_spec_fields)
  show ?thesis
    unfolding validate_run_spec_def
    using d total steps pairs matrix_model_valid [of seed topology] matrix_spec_fields(11) [of seed topology]
    by (auto simp: matrix_spec_fields(1-8))
qed

lemma matrix_blocks:
  assumes "block_size engine = matrix_block_size topology"
  shows "blocks_needed (matrix_spec seed topology) engine = matrix_block_count topology"
proof (rule u64_eqI)
  let ?b = "unat (matrix_block_size topology)" and ?n = "unat (matrix_block_count topology)"
  let ?t = "unat (matrix_tail (topology AND 2 \<noteq> 0) (matrix_block_size topology) topology)"
  have b: "?b \<in> {16, 24, 32, 48, 64, 96}" by (rule matrix_block_size_cases)
  have t: "1 \<le> ?t" "?t \<le> ?b" using b by (intro matrix_tail_bounds; force)+
  have n: "3 \<le> ?n" "?n \<le> 10" by (rule matrix_block_count_bounds)+
  have total: "unat (total_scenarios (matrix_spec seed topology) - 1) = (?n - 1) * ?b + (?t - 1)"
    using t unat_sub_u64 [of 1 "total_scenarios (matrix_spec seed topology)"]
    by (simp add: matrix_total word_le_nat_alt)
  have "((?n - 1) * ?b + (?t - 1)) div ?b = ?n - 1" using t b by (intro div_nat_eqI) auto
  then have "unat ((total_scenarios (matrix_spec seed topology) - 1) div block_size engine) = ?n - 1"
    unfolding unat_div total assms .
  then show "unat (blocks_needed (matrix_spec seed topology) engine) = ?n"
    using n by (simp add: blocks_needed_def unat_add_u64)
qed

text \<open>C38. Every seed gives a case that can be run and that is worth running.  The specification, the engine
  configuration and the store policy pass their validation; the run has between three and ten blocks; and the
  checkpoint interval is positive, at most four and smaller than the number of blocks, so that the run makes a
  checkpoint before its last block.\<close>

theorem matrix_case_valid:
  "let c = make_case seed directory; n = blocks_needed (mx_spec c) (mx_engine_config c);
       interval = rsc_checkpoint_interval_blocks (mx_store_config c)
   in validate_run_spec (mx_spec c) = Inr () \<and> validate_engine_config (mx_engine_config c) (mx_spec c) = Inr () \<and>
      validate_run_store_config (mx_store_config c) = Inr () \<and>
      3 \<le> unat n \<and> unat n \<le> 10 \<and> 1 \<le> unat interval \<and> unat interval \<le> 4 \<and> interval < n"
proof -
  define topology where "topology = mix_seed (seed XOR 0xA0761D6478BD642F)"
  let ?c = "make_case seed directory" and ?n = "matrix_block_count topology"
  have s: "mx_spec ?c = matrix_spec seed topology" "block_size (mx_engine_config ?c) = matrix_block_size topology"
    and i: "rsc_checkpoint_interval_blocks (mx_store_config ?c) = 1 + drop_bit 52 topology mod min 4 (?n - 1)"
    by (simp_all add: make_case_def topology_def Let_def)
  note b = matrix_blocks [OF s(2), of seed, folded s(1)] and n = matrix_block_count_bounds [of topology]
  have m: "unat (min 4 (?n - 1)) = min 4 (unat ?n - 1)"
    using n unat_sub_u64 [of 1 ?n] by (simp add: word_le_nat_alt min_def)
  then have "min 4 (?n - 1) \<noteq> 0" using n by (auto simp: unat_eq_zero [symmetric])
  from mod_u64_bounds [OF this, of "drop_bit 52 topology"] m
  have u: "unat (drop_bit 52 topology mod min 4 (?n - 1)) < min 4 (unat ?n - 1)" by simp
  then have interval: "unat (1 + drop_bit 52 topology mod min 4 (?n - 1)) = Suc (unat (drop_bit 52 topology mod min 4 (?n - 1)))"
    using n by (simp add: unat_add_u64)
  have engine: "validate_engine_config (mx_engine_config ?c) (mx_spec ?c) = Inr ()"
    using matrix_block_size_cases [of topology]
    by (auto simp: validate_engine_config_def make_case_def topology_def Let_def default_engine_config_def kMaxWorkerThreads_def
        kDefaultMaxMaterializedBlocks_def word_less_nat_alt word_unat_eq_iff unat_mod)
  have "path_join directory x \<noteq> []" if "x \<noteq> []" for x using that by (simp add: path_join_def)
  then have store: "validate_run_store_config (mx_store_config ?c) = Inr ()"
    by (simp add: validate_run_store_config_def make_case_def Let_def default_run_store_config_def seeded_failure_valid word_less_nat_alt)
  show ?thesis
    unfolding Let_def b i using matrix_spec_valid engine store n u interval by (auto simp: s(1) word_less_nat_alt)
qed

section \<open>The child processes\<close>

text \<open>How a child ends: with an exit code of \<^verbatim>\<open>main\<close>, or at an injected failure or a signal.\<close>

datatype child_end = Child_exit nat | Child_died

definition aggregates_equal :: "aggregate_stats \<Rightarrow> aggregate_stats \<Rightarrow> bool" where
  "aggregates_equal left right \<longleftrightarrow>
     stats_n left = stats_n right \<and> bits_of (stats_mean left) = bits_of (stats_mean right) \<and>
     bits_of (stats_m2 left) = bits_of (stats_m2 right) \<and> bits_of (stats_min left) = bits_of (stats_min right) \<and>
     bits_of (stats_max left) = bits_of (stats_max right)"

definition run_child ::
  "libm \<Rightarrow> build_env \<Rightarrow> (string \<Rightarrow> string list) \<Rightarrow> (string \<Rightarrow> string + bool) \<Rightarrow> u64 \<Rightarrow> string \<Rightarrow>
   world \<Rightarrow> child_end \<Rightarrow> world \<Rightarrow> bool" where
  "run_child L env canonical exists failure_seed case_directory w ended w' \<longleftrightarrow>
     (let c = make_case failure_seed case_directory
      in \<exists>out. run_parallel_durable L env canonical exists (mx_spec c) (mx_engine_config c) (mx_store_config c) w out w' \<and>
           ended = (case out of Returned res \<Rightarrow> Child_exit 95 | Raised e \<Rightarrow> Child_exit 94 | Killed \<Rightarrow> Child_died))"

definition recovery_check :: "run_result \<Rightarrow> durable_run_result \<Rightarrow> durable_run_result \<Rightarrow> bool" where
  "recovery_check clean_run recovered reopened \<longleftrightarrow>
     aggregates_equal (result_aggregate (dr_run_result recovered)) (result_aggregate clean_run) \<and>
     aggregates_equal (result_aggregate (dr_run_result reopened)) (result_aggregate clean_run) \<and>
     dr_recovered_blocks recovered + dr_computed_blocks recovered = block_count clean_run \<and>
     dr_recovered_blocks reopened = block_count clean_run \<and> dr_computed_blocks reopened = 0"

text \<open>The recovery child: an undisturbed run, a durable run that recovers the case without injection, and a durable
  run that reopens it.  An exception of any of them, or a failed check, is exit code 93.\<close>

definition recovery_run ::
  "libm \<Rightarrow> build_env \<Rightarrow> (string \<Rightarrow> string list) \<Rightarrow> (string \<Rightarrow> string + bool) \<Rightarrow> matrix_case \<Rightarrow>
   world \<Rightarrow> durable_run_result outcome \<Rightarrow> world \<Rightarrow> bool" where
  "recovery_run L env canonical exists c =
     run_parallel_durable L env canonical exists (mx_spec c) (mx_engine_config c)
       ((mx_store_config c)\<lparr>rsc_failure_injection := None\<rparr>)"

inductive run_recovery_child ::
  "libm \<Rightarrow> build_env \<Rightarrow> (string \<Rightarrow> string list) \<Rightarrow> (string \<Rightarrow> string + bool) \<Rightarrow> u64 \<Rightarrow> string \<Rightarrow>
   world \<Rightarrow> child_end \<Rightarrow> world \<Rightarrow> bool" for L env canonical exists failure_seed case_directory where
  clean_failed: "c = make_case failure_seed case_directory \<Longrightarrow>
     run_parallel L env (mx_spec c) (mx_engine_config c) (Inl e) \<Longrightarrow>
     run_recovery_child L env canonical exists failure_seed case_directory w (Child_exit 93) w"
| recovery_failed: "c = make_case failure_seed case_directory \<Longrightarrow>
     run_parallel L env (mx_spec c) (mx_engine_config c) (Inr clean_run) \<Longrightarrow>
     recovery_run L env canonical exists c w (Raised e) w1 \<Longrightarrow>
     run_recovery_child L env canonical exists failure_seed case_directory w (Child_exit 93) w1"
| recovery_died: "c = make_case failure_seed case_directory \<Longrightarrow>
     run_parallel L env (mx_spec c) (mx_engine_config c) (Inr clean_run) \<Longrightarrow>
     recovery_run L env canonical exists c w Killed w1 \<Longrightarrow>
     run_recovery_child L env canonical exists failure_seed case_directory w Child_died w1"
| reopening_failed: "c = make_case failure_seed case_directory \<Longrightarrow>
     run_parallel L env (mx_spec c) (mx_engine_config c) (Inr clean_run) \<Longrightarrow>
     recovery_run L env canonical exists c w (Returned recovered) w1 \<Longrightarrow>
     recovery_run L env canonical exists c w1 (Raised e) w2 \<Longrightarrow>
     run_recovery_child L env canonical exists failure_seed case_directory w (Child_exit 93) w2"
| reopening_died: "c = make_case failure_seed case_directory \<Longrightarrow>
     run_parallel L env (mx_spec c) (mx_engine_config c) (Inr clean_run) \<Longrightarrow>
     recovery_run L env canonical exists c w (Returned recovered) w1 \<Longrightarrow>
     recovery_run L env canonical exists c w1 Killed w2 \<Longrightarrow>
     run_recovery_child L env canonical exists failure_seed case_directory w Child_died w2"
| compared: "c = make_case failure_seed case_directory \<Longrightarrow>
     run_parallel L env (mx_spec c) (mx_engine_config c) (Inr clean_run) \<Longrightarrow>
     recovery_run L env canonical exists c w (Returned recovered) w1 \<Longrightarrow>
     recovery_run L env canonical exists c w1 (Returned reopened) w2 \<Longrightarrow>
     run_recovery_child L env canonical exists failure_seed case_directory w
       (Child_exit (if recovery_check clean_run recovered reopened then 0 else 93)) w2"

section \<open>The recovery check\<close>

lemma aggregates_equal_refl [simp]: "aggregates_equal a a"
  by (simp add: aggregates_equal_def)

lemma aggregates_equal_iff: "aggregates_equal a b \<longleftrightarrow> a = b"
  by (cases a; cases b) (auto simp: aggregates_equal_def double.expand)

text \<open>What two durable runs on one directory and an undisturbed run have in common.\<close>

lemma recovery_check_iff:
  assumes ev: "evidence L spec w" and clean_run: "run_parallel L env spec engine (Inr clean_run)"
    and first: "run_parallel_durable L env canonical exists spec engine config w (Returned recovered) w1"
    and second: "run_parallel_durable L env canonical exists spec engine config w1 (Returned reopened) w2"
  shows "recovery_check clean_run recovered reopened \<longleftrightarrow> dr_recovered_blocks reopened = block_count clean_run"
proof -
  have ev1: "evidence L spec w1" by (rule durable_attempt(1) [OF ev first])
  obtain s where s: "sequential_run L spec engine = Inr s" "same_estimate (dr_run_result recovered) s"
    using durable_attempt(2) [OF ev first refl] by blast
  have s2: "same_estimate (dr_run_result reopened) s" using durable_attempt(2) [OF ev1 second refl] s(1) by auto
  have c: "same_estimate clean_run s" using run_parallel_sequential [OF clean_run, of s] s(1) by (simp add: same_estimate_def)
  have sum: "dr_recovered_blocks r + dr_computed_blocks r = block_count (dr_run_result r)"
    if "unat (dr_recovered_blocks r) + unat (dr_computed_blocks r) = unat (block_count (dr_run_result r))" for r
    using that by (intro u64_eqI) (simp add: unat_add_u64)
  note sums = sum [OF attempt_accounting [OF ev first]] sum [OF attempt_accounting [OF ev1 second]]
  show ?thesis using sums s(2) s2 c by (auto simp: recovery_check_def same_estimate_def)
qed

lemma run_child_history:
  "durable_history L (mx_spec (make_case seed directory)) w \<Longrightarrow> run_child L env canonical exists seed directory w ended w' \<Longrightarrow>
     durable_history L (mx_spec (make_case seed directory)) w'"
  unfolding run_child_def Let_def by (blast intro: durable_history.attempt)

lemma recovery_child_ends: "\<exists>ended w'. run_recovery_child L env canonical exists seed directory w ended w'"
proof -
  let ?c = "make_case seed directory"
  let ?R = "run_recovery_child L env canonical exists seed directory w"
  have ends: "\<exists>out w'. recovery_run L env canonical exists ?c w out w'" for w
    unfolding recovery_run_def by (rule some_attempt_ends)
  obtain first where f: "run_parallel L env (mx_spec ?c) (mx_engine_config ?c) first" using run_parallel_ends by blast
  obtain second w1 where s: "recovery_run L env canonical exists ?c w second w1" using ends by blast
  obtain third w2 where t: "recovery_run L env canonical exists ?c w1 third w2" using ends by blast
  show ?thesis
  proof (cases first)
    case (Inl e)
    then show ?thesis using clean_failed [OF refl] f by blast
  next
    case (Inr clean_run)
    note f = f [unfolded Inr]
    show ?thesis
    proof (cases second)
      case (Returned recovered)
      note s = s [unfolded Returned]
      show ?thesis
        using reopening_failed [OF refl f s] reopening_died [OF refl f s] compared [OF refl f s] t by (cases third) blast+
    qed (use recovery_failed [OF refl f] recovery_died [OF refl f] s in blast)+
  qed
qed

text \<open>C7. The recovery phase of the crash matrix can only fail for a reason outside the program's logic.  Run a
  case on a directory with any history, let its injection child end in any way, and then the recovery child in a
  new process.  If the recovery child reports a failure, the undisturbed run or one of the two durable runs threw an
  exception, or the second durable run did not find all blocks on disk; the comparison of the aggregates with the
  undisturbed run and the accounting of recovered and computed blocks never fail.\<close>

theorem matrix_recovery_sound:
  assumes "durable_history L (mx_spec (make_case seed directory)) w"
    and "run_child L env canonical exists seed directory w ended w1"
    and "v = w1\<lparr>w_answers := answers, w_pid := pid, w_nonce := nonce\<rparr>"
    and "run_recovery_child L env canonical exists seed directory v ended' w2"
  shows "ended' \<in> {Child_exit 0, Child_exit 93, Child_died} \<and>
    (let c = make_case seed directory; durable = recovery_run L env canonical exists c
     in ended' = Child_exit 93 \<longrightarrow>
          (\<exists>e. run_parallel L env (mx_spec c) (mx_engine_config c) (Inl e)) \<or>
          (\<exists>e. durable v (Raised e) w2) \<or>
          (\<exists>recovered v1 e. durable v (Returned recovered) v1 \<and> durable v1 (Raised e) w2) \<or>
          (\<exists>clean_run recovered v1 reopened. run_parallel L env (mx_spec c) (mx_engine_config c) (Inr clean_run) \<and>
             durable v (Returned recovered) v1 \<and> durable v1 (Returned reopened) w2 \<and>
             dr_recovered_blocks reopened \<noteq> block_count clean_run))"
proof -
  let ?c = "make_case seed directory"
  have "durable_history L (mx_spec ?c) (w1\<lparr>w_root := w_root w1, w_answers := answers, w_pid := pid, w_nonce := nonce\<rparr>)"
    by (intro durable_history.new_process run_child_history [OF assms(1,2)])
  then have ev: "evidence L (mx_spec ?c) v" unfolding assms(3) by (intro history_evidence) simp
  from assms(4) show ?thesis
  proof cases
    case (compared c clean_run recovered v1 reopened)
    have "recovery_check clean_run recovered reopened \<longleftrightarrow> dr_recovered_blocks reopened = block_count clean_run"
      by (rule recovery_check_iff [OF ev, of env "mx_engine_config ?c" clean_run canonical exists])
         (use compared in \<open>simp_all add: recovery_run_def\<close>)
    then show ?thesis using compared by (auto simp: Let_def)
  qed (auto simp: Let_def)
qed

theorem matrix_recovery_sound_witness:
  "\<exists>ended w1 ended' w2. run_child witness_libm witness_env (\<lambda>_. []) (\<lambda>_. Inr False) 7 ''case'' new_world ended w1 \<and>
     run_recovery_child witness_libm witness_env (\<lambda>_. []) (\<lambda>_. Inr False) 7 ''case''
       (w1\<lparr>w_answers := [], w_pid := 2, w_nonce := 0\<rparr>) ended' w2 \<and>
     ended' \<in> {Child_exit 0, Child_exit 93, Child_died}"
proof -
  obtain ended w1 where c: "run_child witness_libm witness_env (\<lambda>_. []) (\<lambda>_. Inr False) 7 ''case'' new_world ended w1"
    unfolding run_child_def Let_def using some_attempt_ends by blast
  obtain ended' w2 where r: "run_recovery_child witness_libm witness_env (\<lambda>_. []) (\<lambda>_. Inr False) 7 ''case''
       (w1\<lparr>w_answers := [], w_pid := 2, w_nonce := 0\<rparr>) ended' w2"
    using recovery_child_ends by blast
  from matrix_recovery_sound [OF witness_history c refl r] c r show ?thesis by blast
qed

end
