(* ===== verification/Crash_Supervisor.thy ===== *)
theory Crash_Supervisor
  imports Crash_Matrix
begin

text \<open>
  The supervising process of the crash matrix (\<^verbatim>\<open>main\<close> of \<^verbatim>\<open>tools/run_crash_matrix.cpp\<close>): its arguments, the loop
  over the seeds with two supervised child processes per case, the descriptor the first child leaves behind, and
  the coverage gates at the end.  What the system answers for each case is a parameter.
\<close>

section \<open>Arguments\<close>

record matrix_options =
  mo_iterations :: u64
  mo_first_seed :: u64
  mo_timeout_seconds :: u64
  mo_workspace :: string

definition default_matrix_options :: matrix_options where
  "default_matrix_options = \<lparr>mo_iterations = 100, mo_first_seed = 1, mo_timeout_seconds = 30, mo_workspace = []\<rparr>"

definition set_matrix_option :: "string \<Rightarrow> string \<Rightarrow> matrix_options \<Rightarrow> matrix_options result" where
  "set_matrix_option argument v opts =
     (if argument = ''--iterations'' then rbind (parse_u64 v ''iterations'') (\<lambda>n. Inr (opts\<lparr>mo_iterations := n\<rparr>))
      else if argument = ''--first-seed'' then rbind (parse_u64 v ''first_seed'') (\<lambda>n. Inr (opts\<lparr>mo_first_seed := n\<rparr>))
      else if argument = ''--workspace'' then Inr (opts\<lparr>mo_workspace := v\<rparr>)
      else if argument = ''--timeout-seconds''
      then rbind (parse_u64 v ''timeout_seconds'') (\<lambda>n. Inr (opts\<lparr>mo_timeout_seconds := n\<rparr>))
      else Inl (Invalid_argument (''unknown option: '' @ argument)))"

text \<open>The loop over the arguments; \<^verbatim>\<open>None\<close> when help was asked for.\<close>

fun matrix_arguments :: "string list \<Rightarrow> matrix_options \<Rightarrow> matrix_options option result" where
  "matrix_arguments [] opts = Inr (Some opts)"
| "matrix_arguments (argument # rest) opts =
     (if argument = ''--help'' then Inr None
      else case rest of
             [] \<Rightarrow> Inl (Invalid_argument ''missing crash-matrix option value'')
           | v # rest' \<Rightarrow> rbind (set_matrix_option argument v opts) (matrix_arguments rest'))"

definition check_seed_range :: "matrix_options \<Rightarrow> unit result" where
  "check_seed_range opts =
     throw_if (u64_max - (mo_iterations opts - 1) < mo_first_seed opts)
       (Overflow_error ''crash-matrix seed range overflows'')"

text \<open>\<^verbatim>\<open>main\<close> runs a child when it is started with a child's three arguments, and the supervisor otherwise.\<close>

datatype matrix_role = Injection_child u64 string | Recovery_child u64 string | Supervisor

fun matrix_mode :: "string list \<Rightarrow> matrix_role result" where
  "matrix_mode [mode, seed, directory] =
     (if mode = ''--child'' then rbind (parse_u64 seed ''failure_seed'') (\<lambda>n. Inr (Injection_child n directory))
      else if mode = ''--recovery-child'' then rbind (parse_u64 seed ''failure_seed'') (\<lambda>n. Inr (Recovery_child n directory))
      else Inr Supervisor)"
| "matrix_mode arguments = Inr Supervisor"

section \<open>One case\<close>

definition kFailureInjectionExitCode :: nat where
  "kFailureInjectionExitCode = 86"

definition descriptor_matches_case :: "build_env \<Rightarrow> replay_descriptor \<Rightarrow> matrix_case \<Rightarrow> u64 \<Rightarrow> bool result" where
  "descriptor_matches_case env replay c failure_seed =
     rbind (run_spec_hash (mx_spec c)) (\<lambda>h.
       (case rsc_failure_injection (mx_store_config c) of
          None \<Rightarrow> Inr False
        | Some expected \<Rightarrow> Inr (
            rp_run_spec_hash replay = h \<and>
            rp_build_fingerprint replay = build_hash (current_build_identity env) \<and>
            worker_count (rp_engine_config replay) = worker_count (mx_engine_config c) \<and>
            block_size (rp_engine_config replay) = block_size (mx_engine_config c) \<and>
            assignment_queue_capacity (rp_engine_config replay) = assignment_queue_capacity (mx_engine_config c) \<and>
            completion_queue_capacity (rp_engine_config replay) = completion_queue_capacity (mx_engine_config c) \<and>
            max_materialized_blocks (rp_engine_config replay) = max_materialized_blocks (mx_engine_config c) \<and>
            rp_checkpoint_interval_blocks replay = rsc_checkpoint_interval_blocks (mx_store_config c) \<and>
            rp_max_storage_bytes replay = rsc_max_storage_bytes (mx_store_config c) \<and>
            rp_max_storage_files replay = rsc_max_storage_files (mx_store_config c) \<and>
            rp_min_free_space_bytes replay = rsc_min_free_space_bytes (mx_store_config c) \<and>
            rp_max_manifest_bytes replay = rsc_max_manifest_bytes (mx_store_config c) \<and>
            fic_failure_seed (rp_injection replay) = failure_seed \<and>
            fic_deterministic_scheduler_seed (rp_injection replay) = 0 \<and>
            fic_selected_point (rp_injection replay) = fic_selected_point expected \<and>
            fic_selected_occurrence (rp_injection replay) = fic_selected_occurrence expected)))"

text \<open>What the system answers in one case: whether the directory was created; the answers about each of the two
  children; the bytes of the descriptor; and the error of the removal, if any.\<close>

record case_answers =
  ca_created :: "bool result"
  ca_injection :: child_answers
  ca_descriptor :: string
  ca_recovery :: child_answers
  ca_cleanup_error :: "string option"

definition run_supervised_phase :: "string \<Rightarrow> string \<Rightarrow> nanoseconds \<Rightarrow> child_answers \<Rightarrow> nat result option" where
  "run_supervised_phase mode case_directory timeout answers =
     (if ch_pid answers < 0 then Some (Inl (Runtime_error ''cannot fork crash-matrix child''))
      else map_option fst (wait_for_child (ch_pid answers) timeout
        ((if mode = ''--child'' then ''injection'' else ''recovery'') @ '' for '' @ case_directory)
        (ch_started answers) (ch_kill answers) (ch_waits answers)))"

record matrix_coverage =
  mv_points :: "bool list"
  mv_block_sizes :: "u64 list"
  mv_block_counts :: "u64 list"
  mv_checkpoint_intervals :: "u64 list"
  mv_assignment_capacities :: "u64 list"
  mv_completion_capacities :: "u64 list"
  mv_models :: "model_type list"
  mv_partial_final_block :: bool

definition no_coverage :: matrix_coverage where
  "no_coverage = \<lparr>mv_points = replicate (length kFailurePoints) False, mv_block_sizes = [], mv_block_counts = [],
     mv_checkpoint_intervals = [], mv_assignment_capacities = [], mv_completion_capacities = [], mv_models = [],
     mv_partial_final_block = False\<rparr>"

definition cover_case :: "matrix_case \<Rightarrow> matrix_coverage \<Rightarrow> matrix_coverage" where
  "cover_case c cov =
     (let total = total_scenarios (mx_spec c); bsize = block_size (mx_engine_config c)
      in cov\<lparr>mv_block_sizes := List.insert bsize (mv_block_sizes cov),
             mv_block_counts := List.insert (1 + (total - 1) div bsize) (mv_block_counts cov),
             mv_checkpoint_intervals :=
               List.insert (rsc_checkpoint_interval_blocks (mx_store_config c)) (mv_checkpoint_intervals cov),
             mv_assignment_capacities :=
               List.insert (assignment_queue_capacity (mx_engine_config c)) (mv_assignment_capacities cov),
             mv_completion_capacities :=
               List.insert (completion_queue_capacity (mx_engine_config c)) (mv_completion_capacities cov),
             mv_models := List.insert (spec_model_type (mx_spec c)) (mv_models cov),
             mv_partial_final_block := (mv_partial_final_block cov \<or> total mod bsize \<noteq> 0)\<rparr>)"

definition cover_point :: "failure_point \<Rightarrow> matrix_coverage \<Rightarrow> matrix_coverage" where
  "cover_point p cov = cov\<lparr>mv_points := map2 (\<lambda>q hit. hit \<or> p = q) kFailurePoints (mv_points cov)\<rparr>"

text \<open>One iteration; \<^verbatim>\<open>None\<close> when a child never ends.\<close>

definition matrix_step ::
  "build_env \<Rightarrow> matrix_options \<Rightarrow> u64 \<Rightarrow> case_answers \<Rightarrow> matrix_coverage \<Rightarrow> matrix_coverage result option" where
  "matrix_step env opts index answers cov =
     (let failure_seed = mo_first_seed opts + index;
          case_directory = path_join (mo_workspace opts) (padded_case index);
          descriptor_path = path_join case_directory ''failure.replay'';
          c = make_case failure_seed case_directory;
          cov = cover_case c cov
      in case ca_created answers of
           Inl e \<Rightarrow> Some (Inl e)
         | Inr created \<Rightarrow>
             if \<not> created then Some (Inl (Runtime_error ''matrix case directory already exists''))
             else (case run_supervised_phase ''--child'' case_directory (watchdog_duration (mo_timeout_seconds opts)) (ca_injection answers) of
               None \<Rightarrow> None
             | Some (Inl e) \<Rightarrow> Some (Inl e)
             | Some (Inr child_exit) \<Rightarrow>
                 if child_exit \<noteq> kFailureInjectionExitCode
                 then Some (Inl (Runtime_error (''child missed selected injection; replay retained at '' @ case_directory)))
                 else (case rbind (read_replay_descriptor descriptor_path (ca_descriptor answers)) (\<lambda>replay.
                             rbind (descriptor_matches_case env replay c failure_seed) (\<lambda>matches. Inr (replay, matches))) of
                   Inl e \<Rightarrow> Some (Inl e)
                 | Inr (replay, matches) \<Rightarrow>
                     if \<not> matches
                     then Some (Inl (Runtime_error (''crash descriptor does not match its seeded matrix case; '' @
                            ''replay retained at '' @ case_directory)))
                     else (let cov = cover_point (fic_selected_point (rp_injection replay)) cov
                           in case run_supervised_phase ''--recovery-child'' case_directory (watchdog_duration (mo_timeout_seconds opts)) (ca_recovery answers) of
                       None \<Rightarrow> None
                     | Some (Inl e) \<Rightarrow> Some (Inl e)
                     | Some (Inr recovery_exit) \<Rightarrow>
                         if recovery_exit \<noteq> 0
                         then Some (Inl (Runtime_error (''recovery phase failed; replay retained at '' @ descriptor_path)))
                         else (case ca_cleanup_error answers of
                           Some message \<Rightarrow>
                             Some (Inl (Runtime_error (''cannot remove successful matrix case: '' @ message)))
                         | None \<Rightarrow> Some (Inr cov))))))"

fun matrix_loop ::
  "build_env \<Rightarrow> matrix_options \<Rightarrow> (u64 \<Rightarrow> case_answers) \<Rightarrow> u64 list \<Rightarrow> matrix_coverage \<Rightarrow> matrix_coverage result option" where
  "matrix_loop env opts answers [] cov = Some (Inr cov)"
| "matrix_loop env opts answers (index # rest) cov =
     (case matrix_step env opts index (answers index) cov of
        Some (Inr cov') \<Rightarrow> matrix_loop env opts answers rest cov'
      | other \<Rightarrow> other)"

section \<open>The gates\<close>

definition matrix_indices :: "matrix_options \<Rightarrow> u64 list" where
  "matrix_indices opts = map of_nat [0..<unat (mo_iterations opts)]"

definition topology_coverage_ok :: "u64 \<Rightarrow> matrix_coverage \<Rightarrow> bool" where
  "topology_coverage_ok iterations cov \<longleftrightarrow>
     iterations < 32 \<or>
     4 \<le> length (mv_block_sizes cov) \<and> 4 \<le> length (mv_block_counts cov) \<and>
     2 \<le> length (mv_checkpoint_intervals cov) \<and> 2 \<le> length (mv_assignment_capacities cov) \<and>
     2 \<le> length (mv_completion_capacities cov) \<and> length (mv_models cov) = 2 \<and> mv_partial_final_block cov"

definition matrix_exit :: "u64 \<Rightarrow> matrix_coverage \<Rightarrow> nat" where
  "matrix_exit iterations cov =
     (if length (filter (\<lambda>hit. hit) (mv_points cov)) \<noteq> length kFailurePoints then 3
      else if \<not> topology_coverage_ok iterations cov then 4
      else 0)"

text \<open>\<^verbatim>\<open>main\<close> for the supervisor: \<^verbatim>\<open>invocation\<close> is the program's name, \<^verbatim>\<open>workspace_ready\<close> the answer of
  \<^verbatim>\<open>require_empty_workspace\<close>.\<close>

definition require_empty_workspace :: "string option \<Rightarrow> bool result \<Rightarrow> unit result" where
  "require_empty_workspace create_error is_empty =
     (case create_error of
        Some message \<Rightarrow> Inl (Runtime_error (''cannot create matrix workspace: '' @ message))
      | None \<Rightarrow>
          (if is_empty = Inr True then Inr ()
           else Inl (Runtime_error ''matrix workspace must be empty; successful cases are removed'')))"

definition supervise ::
  "build_env \<Rightarrow> file_system \<Rightarrow> string option \<Rightarrow> string \<Rightarrow> unit result \<Rightarrow> (u64 \<Rightarrow> case_answers) \<Rightarrow> matrix_options \<Rightarrow>
   nat result option" where
  "supervise env F search invocation workspace_ready answers opts =
     (case rbind (check_seed_range opts) (\<lambda>_.
            rbind (checked_watchdog_timeout (mo_timeout_seconds opts)) (\<lambda>_.
            rbind (resolve_executable_path F search invocation) (\<lambda>_. workspace_ready))) of
        Inl e \<Rightarrow> Some (Inl e)
      | Inr u \<Rightarrow> map_option (map_sum id (matrix_exit (mo_iterations opts)))
                  (matrix_loop env opts answers (matrix_indices opts) no_coverage))"

definition matrix_main ::
  "build_env \<Rightarrow> file_system \<Rightarrow> string option \<Rightarrow> string \<Rightarrow> unit result \<Rightarrow> (u64 \<Rightarrow> case_answers) \<Rightarrow> string list \<Rightarrow> nat option" where
  "matrix_main env F search invocation workspace_ready answers arguments =
     map_option (case_sum (\<lambda>e. 1) id)
       (case matrix_arguments arguments default_matrix_options of
          Inl e \<Rightarrow> Some (Inl e)
        | Inr None \<Rightarrow> Some (Inr 0)
        | Inr (Some opts) \<Rightarrow>
            if mo_iterations opts = 0 \<or> mo_workspace opts = [] then Some (Inr 2)
            else supervise env F search invocation workspace_ready answers opts)"

section \<open>What a passed matrix means\<close>

definition case_of :: "matrix_options \<Rightarrow> u64 \<Rightarrow> matrix_case" where
  "case_of opts index = make_case (mo_first_seed opts + index) (path_join (mo_workspace opts) (padded_case index))"

definition seeded_point :: "matrix_options \<Rightarrow> u64 \<Rightarrow> failure_point" where
  "seeded_point opts index =
     fic_selected_point (failure_injection_from_seed (mo_first_seed opts + index)
       (path_join (path_join (mo_workspace opts) (padded_case index)) ''failure.replay''))"

text \<open>A case passes when its directory is new, its first child ends at the injected failure and leaves a valid
  descriptor of the case, its second child reports success, and the directory can be removed.\<close>

definition case_passed :: "build_env \<Rightarrow> matrix_options \<Rightarrow> (u64 \<Rightarrow> case_answers) \<Rightarrow> u64 \<Rightarrow> bool" where
  "case_passed env opts answers index \<longleftrightarrow>
     (let directory = path_join (mo_workspace opts) (padded_case index); a = answers index
      in ca_created a = Inr True \<and>
         run_supervised_phase ''--child'' directory (watchdog_duration (mo_timeout_seconds opts)) (ca_injection a) = Some (Inr kFailureInjectionExitCode) \<and>
         (\<exists>replay. read_replay_descriptor (path_join directory ''failure.replay'') (ca_descriptor a) = Inr replay \<and>
            descriptor_matches_case env replay (case_of opts index) (mo_first_seed opts + index) = Inr True) \<and>
         run_supervised_phase ''--recovery-child'' directory (watchdog_duration (mo_timeout_seconds opts)) (ca_recovery a) = Some (Inr 0) \<and>
         ca_cleanup_error a = None)"

lemma matching_point:
  "descriptor_matches_case env replay (case_of opts index) seed = Inr True \<Longrightarrow>
     fic_selected_point (rp_injection replay) = seeded_point opts index"
  by (auto simp: descriptor_matches_case_def case_of_def make_case_def seeded_point_def Let_def)

lemma matrix_step_iff:
  "matrix_step env opts index (answers index) cov = Some (Inr cov') \<longleftrightarrow>
     case_passed env opts answers index \<and> cov' = cover_point (seeded_point opts index) (cover_case (case_of opts index) cov)"
  unfolding matrix_step_def case_passed_def Let_def case_of_def [symmetric]
  by (auto simp: matching_point split: sum.splits option.splits if_splits)

lemma matrix_loop_iff:
  "matrix_loop env opts answers xs cov = Some (Inr cov') \<longleftrightarrow>
     list_all (case_passed env opts answers) xs \<and>
     cov' = fold (\<lambda>i c. cover_point (seeded_point opts i) (cover_case (case_of opts i) c)) xs cov"
proof (induction xs arbitrary: cov)
  case (Cons i xs)
  show ?case
  proof (cases "\<exists>cov1. matrix_step env opts i (answers i) cov = Some (Inr cov1)")
    case True
    then obtain cov1 where step: "matrix_step env opts i (answers i) cov = Some (Inr cov1)" by blast
    then show ?thesis using Cons [of cov1] step [unfolded matrix_step_iff] by simp
  next
    case False
    then have "\<not> case_passed env opts answers i" by (simp add: matrix_step_iff)
    moreover have "matrix_loop env opts answers (i # xs) cov \<noteq> Some (Inr cov')"
      using False by (auto split: option.splits sum.splits)
    ultimately show ?thesis by simp
  qed
qed auto

text \<open>The coverage after the loop.\<close>

abbreviation covered :: "matrix_options \<Rightarrow> u64 list \<Rightarrow> matrix_coverage \<Rightarrow> matrix_coverage" where
  "covered opts \<equiv> fold (\<lambda>i c. cover_point (seeded_point opts i) (cover_case (case_of opts i) c))"

lemma covered_sets:
  "set (mv_block_sizes (covered opts xs cov)) =
     set (mv_block_sizes cov) \<union> (\<lambda>i. block_size (mx_engine_config (case_of opts i))) ` set xs"
  "set (mv_block_counts (covered opts xs cov)) =
     set (mv_block_counts cov) \<union> (\<lambda>i. blocks_needed (mx_spec (case_of opts i)) (mx_engine_config (case_of opts i))) ` set xs"
  "set (mv_checkpoint_intervals (covered opts xs cov)) =
     set (mv_checkpoint_intervals cov) \<union> (\<lambda>i. rsc_checkpoint_interval_blocks (mx_store_config (case_of opts i))) ` set xs"
  "set (mv_assignment_capacities (covered opts xs cov)) =
     set (mv_assignment_capacities cov) \<union> (\<lambda>i. assignment_queue_capacity (mx_engine_config (case_of opts i))) ` set xs"
  "set (mv_completion_capacities (covered opts xs cov)) =
     set (mv_completion_capacities cov) \<union> (\<lambda>i. completion_queue_capacity (mx_engine_config (case_of opts i))) ` set xs"
  "set (mv_models (covered opts xs cov)) = set (mv_models cov) \<union> (\<lambda>i. spec_model_type (mx_spec (case_of opts i))) ` set xs"
  by (induction xs arbitrary: cov) (auto simp: cover_point_def cover_case_def Let_def blocks_needed_def)

definition coverage_distinct :: "matrix_coverage \<Rightarrow> bool" where
  "coverage_distinct cov \<longleftrightarrow>
     distinct (mv_block_sizes cov) \<and> distinct (mv_block_counts cov) \<and> distinct (mv_checkpoint_intervals cov) \<and>
     distinct (mv_assignment_capacities cov) \<and> distinct (mv_completion_capacities cov) \<and> distinct (mv_models cov)"

lemma covered_distinct: "coverage_distinct cov \<Longrightarrow> coverage_distinct (covered opts xs cov)"
  by (induction xs arbitrary: cov) (simp_all add: coverage_distinct_def cover_point_def cover_case_def Let_def)

lemma covered_partial:
  "mv_partial_final_block (covered opts xs cov) \<longleftrightarrow> mv_partial_final_block cov \<or>
     (\<exists>i \<in> set xs. total_scenarios (mx_spec (case_of opts i)) mod block_size (mx_engine_config (case_of opts i)) \<noteq> 0)"
  by (induction xs arbitrary: cov) (auto simp: cover_point_def cover_case_def Let_def)

lemma covered_points:
  "length (mv_points cov) = length kFailurePoints \<Longrightarrow>
     mv_points (covered opts xs cov) =
       map2 (\<lambda>q hit. hit \<or> q \<in> seeded_point opts ` set xs) kFailurePoints (mv_points cov)"
proof (induction xs arbitrary: cov)
  case Nil
  then show ?case by (simp add: list_eq_iff_nth_eq)
next
  case (Cons i xs)
  let ?c = "cover_point (seeded_point opts i) (cover_case (case_of opts i) cov)"
  have p: "mv_points ?c = map2 (\<lambda>q hit. hit \<or> seeded_point opts i = q) kFailurePoints (mv_points cov)"
    by (simp add: cover_point_def cover_case_def Let_def)
  then have "length (mv_points ?c) = length kFailurePoints" using Cons.prems by simp
  from Cons.IH [OF this] show ?case
    using Cons.prems unfolding p by (auto simp: list_eq_iff_nth_eq)
qed

definition topology_diverse :: "matrix_options \<Rightarrow> u64 set \<Rightarrow> bool" where
  "topology_diverse opts indices \<longleftrightarrow>
     4 \<le> card ((\<lambda>i. block_size (mx_engine_config (case_of opts i))) ` indices) \<and>
     4 \<le> card ((\<lambda>i. blocks_needed (mx_spec (case_of opts i)) (mx_engine_config (case_of opts i))) ` indices) \<and>
     2 \<le> card ((\<lambda>i. rsc_checkpoint_interval_blocks (mx_store_config (case_of opts i))) ` indices) \<and>
     2 \<le> card ((\<lambda>i. assignment_queue_capacity (mx_engine_config (case_of opts i))) ` indices) \<and>
     2 \<le> card ((\<lambda>i. completion_queue_capacity (mx_engine_config (case_of opts i))) ` indices) \<and>
     card ((\<lambda>i. spec_model_type (mx_spec (case_of opts i))) ` indices) = 2 \<and>
     (\<exists>i \<in> indices. total_scenarios (mx_spec (case_of opts i)) mod block_size (mx_engine_config (case_of opts i)) \<noteq> 0)"

lemma topology_coverage_iff:
  "topology_coverage_ok iterations (covered opts xs no_coverage) \<longleftrightarrow> iterations < 32 \<or> topology_diverse opts (set xs)"
proof -
  let ?c = "covered opts xs no_coverage"
  have "coverage_distinct ?c" by (rule covered_distinct) (simp add: coverage_distinct_def no_coverage_def)
  then have "length (mv_block_sizes ?c) = card (set (mv_block_sizes ?c))" "length (mv_block_counts ?c) = card (set (mv_block_counts ?c))"
    "length (mv_checkpoint_intervals ?c) = card (set (mv_checkpoint_intervals ?c))"
    "length (mv_assignment_capacities ?c) = card (set (mv_assignment_capacities ?c))"
    "length (mv_completion_capacities ?c) = card (set (mv_completion_capacities ?c))"
    "length (mv_models ?c) = card (set (mv_models ?c))"
    by (simp_all add: coverage_distinct_def distinct_card)
  then show ?thesis
    unfolding topology_coverage_ok_def topology_diverse_def
    by (simp add: covered_sets covered_partial) (simp add: no_coverage_def)
qed

lemma all_points_iff:
  "length (filter (\<lambda>hit. hit) (mv_points (covered opts xs no_coverage))) = length kFailurePoints \<longleftrightarrow>
     set kFailurePoints \<subseteq> seeded_point opts ` set xs"
proof -
  have p: "mv_points (covered opts xs no_coverage) = map (\<lambda>q. q \<in> seeded_point opts ` set xs) kFailurePoints"
    by (subst covered_points) (simp_all add: no_coverage_def list_eq_iff_nth_eq)
  have "length (filter (\<lambda>b. b) (map P ys)) = length ys \<longleftrightarrow> (\<forall>y \<in> set ys. P y)" for P and ys :: "failure_point list"
    by (induction ys) (auto dest: order_antisym [OF length_filter_le], metis Suc_n_not_le_n length_filter_le length_map)
  then show ?thesis unfolding p by auto
qed

text \<open>The checked seed range does not wrap: every case has its own seed.\<close>

lemma seeds_do_not_wrap:
  assumes "check_seed_range opts = Inr ()" "i < unat (mo_iterations opts)"
  shows "unat (mo_first_seed opts + of_nat i) = unat (mo_first_seed opts) + i"
proof -
  have i: "unat (of_nat i :: u64) = i" using assms(2) unat_of_nat_le [of i "mo_iterations opts"] by simp
  have "1 \<le> mo_iterations opts" using assms(2) by (simp add: word_le_nat_alt)
  then have "unat (mo_iterations opts - 1) = unat (mo_iterations opts) - 1" using unat_sub_u64 by fastforce
  moreover have "unat (u64_max - (mo_iterations opts - 1)) = unat u64_max - unat (mo_iterations opts - 1)"
    by (intro unat_sub_u64) (simp add: word_le_nat_alt less_Suc_eq_le [symmetric])
  ultimately have "unat (mo_first_seed opts) + unat (mo_iterations opts) \<le> 2 ^ 64"
    using assms(1) by (simp add: check_seed_range_def throw_if_def word_less_nat_alt split: if_splits)
       (use unat_less_2_64 [of "mo_iterations opts"] in linarith)
  then show ?thesis using assms(2) i by (subst unat_add_u64) simp_all
qed

text \<open>C39. The verdict of the crash matrix is exact.  The supervisor reports success exactly when its arguments are
  usable, every case passes, the failure points of the cases are all nine failure points, and, for 32 cases or
  more, the cases differ in block size, block count, checkpoint interval, both queue capacities and model and one
  of them ends with a partial block.\<close>

theorem matrix_verdict_exact:
  "supervise env F search invocation workspace_ready answers opts = Some (Inr 0) \<longleftrightarrow>
     check_seed_range opts = Inr () \<and> (\<exists>t. checked_watchdog_timeout (mo_timeout_seconds opts) = Inr t) \<and>
     (\<exists>p. resolve_executable_path F search invocation = Inr p) \<and> workspace_ready = Inr () \<and>
     list_all (case_passed env opts answers) (matrix_indices opts) \<and>
     set kFailurePoints \<subseteq> seeded_point opts ` set (matrix_indices opts) \<and>
     (mo_iterations opts < 32 \<or> topology_diverse opts (set (matrix_indices opts)))"
proof -
  let ?ready = "rbind (check_seed_range opts) (\<lambda>_. rbind (checked_watchdog_timeout (mo_timeout_seconds opts)) (\<lambda>_.
      rbind (resolve_executable_path F search invocation) (\<lambda>_. workspace_ready)))"
  let ?cov = "covered opts (matrix_indices opts) no_coverage"
  have exits: "map_sum id f x = Inr (y :: nat) \<longleftrightarrow> (\<exists>z. x = Inr z \<and> f z = y)" for f :: "matrix_coverage \<Rightarrow> nat" and x :: "exn + matrix_coverage" and y
    by (cases x) auto
  have "supervise env F search invocation workspace_ready answers opts = Some (Inr 0) \<longleftrightarrow>
      ?ready = Inr () \<and> (\<exists>cov. matrix_loop env opts answers (matrix_indices opts) no_coverage = Some (Inr cov) \<and>
        matrix_exit (mo_iterations opts) cov = 0)"
    unfolding supervise_def by (cases ?ready) (auto simp: exits)
  also have "\<dots> \<longleftrightarrow> ?ready = Inr () \<and> list_all (case_passed env opts answers) (matrix_indices opts) \<and>
      matrix_exit (mo_iterations opts) ?cov = 0"
    unfolding matrix_loop_iff by blast
  also have "matrix_exit (mo_iterations opts) ?cov = 0 \<longleftrightarrow> set kFailurePoints \<subseteq> seeded_point opts ` set (matrix_indices opts) \<and>
      (mo_iterations opts < 32 \<or> topology_diverse opts (set (matrix_indices opts)))"
    unfolding matrix_exit_def all_points_iff topology_coverage_iff by simp
  also have "?ready = Inr () \<longleftrightarrow> check_seed_range opts = Inr () \<and> (\<exists>t. checked_watchdog_timeout (mo_timeout_seconds opts) = Inr t) \<and>
      (\<exists>p. resolve_executable_path F search invocation = Inr p) \<and> workspace_ready = Inr ()"
    by (auto simp: rbind_eq_Inr)
  finally show ?thesis by blast
qed

end
