(* ===== verification/Replay_Tool.thy ===== *)
theory Replay_Tool
  imports Crash_Supervisor
begin

text \<open>
  The replay tool (\<^verbatim>\<open>tools/replay_failure.cpp\<close>): it reads a descriptor, starts itself again as a child that runs the
  recorded specification with the recorded configuration and failure on an empty directory, and compares the
  descriptor the child leaves behind with the recorded one.
\<close>

section \<open>The child\<close>

definition replay_store_config :: "replay_descriptor \<Rightarrow> string \<Rightarrow> string \<Rightarrow> run_store_config" where
  "replay_store_config replay run_directory observed_descriptor =
     (default_run_store_config run_directory)\<lparr>
       rsc_checkpoint_interval_blocks := rp_checkpoint_interval_blocks replay,
       rsc_max_storage_bytes := rp_max_storage_bytes replay,
       rsc_max_storage_files := rp_max_storage_files replay,
       rsc_min_free_space_bytes := rp_min_free_space_bytes replay,
       rsc_max_manifest_bytes := rp_max_manifest_bytes replay,
       rsc_failure_injection := Some ((rp_injection replay)\<lparr>fic_replay_descriptor_path := observed_descriptor\<rparr>)\<rparr>"

text \<open>\<^verbatim>\<open>content\<close> is what the source descriptor holds.\<close>

definition replay_child ::
  "libm \<Rightarrow> build_env \<Rightarrow> (string \<Rightarrow> string list) \<Rightarrow> (string \<Rightarrow> string + bool) \<Rightarrow> string \<Rightarrow> string \<Rightarrow> string \<Rightarrow> string \<Rightarrow>
   world \<Rightarrow> child_end \<Rightarrow> world \<Rightarrow> bool" where
  "replay_child L env canonical exists source_descriptor content run_directory observed_descriptor w ended w' \<longleftrightarrow>
     (case read_replay_descriptor source_descriptor content of
        Inl e \<Rightarrow> (ended, w') = (Child_exit 94, w)
      | Inr replay \<Rightarrow>
          (\<exists>out. run_parallel_durable L env canonical exists (rp_spec replay) (rp_engine_config replay)
                   (replay_store_config replay run_directory observed_descriptor) w out w' \<and>
             ended = (case out of Returned res \<Rightarrow> Child_exit 95 | Raised e \<Rightarrow> Child_exit 94 | Killed \<Rightarrow> Child_died)))"

section \<open>The comparison\<close>

definition same_replay :: "replay_descriptor \<Rightarrow> replay_descriptor \<Rightarrow> bool" where
  "same_replay left right \<longleftrightarrow>
     rp_version left = rp_version right \<and>
     rp_run_spec_hash left = rp_run_spec_hash right \<and>
     rp_build_fingerprint left = rp_build_fingerprint right \<and>
     worker_count (rp_engine_config left) = worker_count (rp_engine_config right) \<and>
     block_size (rp_engine_config left) = block_size (rp_engine_config right) \<and>
     assignment_queue_capacity (rp_engine_config left) = assignment_queue_capacity (rp_engine_config right) \<and>
     completion_queue_capacity (rp_engine_config left) = completion_queue_capacity (rp_engine_config right) \<and>
     max_materialized_blocks (rp_engine_config left) = max_materialized_blocks (rp_engine_config right) \<and>
     rp_checkpoint_interval_blocks left = rp_checkpoint_interval_blocks right \<and>
     rp_max_storage_bytes left = rp_max_storage_bytes right \<and>
     rp_max_storage_files left = rp_max_storage_files right \<and>
     rp_min_free_space_bytes left = rp_min_free_space_bytes right \<and>
     rp_max_manifest_bytes left = rp_max_manifest_bytes right \<and>
     fic_failure_seed (rp_injection left) = fic_failure_seed (rp_injection right) \<and>
     fic_deterministic_scheduler_seed (rp_injection left) = fic_deterministic_scheduler_seed (rp_injection right) \<and>
     fic_selected_point (rp_injection left) = fic_selected_point (rp_injection right) \<and>
     fic_selected_occurrence (rp_injection left) = fic_selected_occurrence (rp_injection right) \<and>
     rp_observed_trace_hash left = rp_observed_trace_hash right \<and>
     rp_observed_trace_events left = rp_observed_trace_events right \<and>
     rp_run_incarnation left = rp_run_incarnation right \<and>
     rp_block_id left = rp_block_id right \<and>
     rp_checkpoint_sequence left = rp_checkpoint_sequence right"

section \<open>The supervising process\<close>

text \<open>The target: what \<^verbatim>\<open>exists\<close>, \<^verbatim>\<open>is_directory\<close> and the first entry of the directory answer, errors as values.\<close>

definition require_empty_target :: "string + bool \<Rightarrow> string + bool \<Rightarrow> string + bool \<Rightarrow> unit result" where
  "require_empty_target target_exists is_directory has_entry =
     (case target_exists of
        Inl message \<Rightarrow> Inl (Runtime_error (''cannot inspect replay run directory: '' @ message))
      | Inr False \<Rightarrow> Inr ()
      | Inr True \<Rightarrow>
          if is_directory \<noteq> Inr True then Inl (Runtime_error ''replay run target must be a directory'')
          else if has_entry \<noteq> Inr False
          then Inl (Runtime_error ''replay run target must be empty to preserve existing data'')
          else Inr ())"

record replay_options =
  ro_run_directory :: string
  ro_timeout_seconds :: u64

definition default_replay_options :: replay_options where
  "default_replay_options = \<lparr>ro_run_directory = [], ro_timeout_seconds = 300\<rparr>"

fun replay_arguments :: "string list \<Rightarrow> replay_options \<Rightarrow> replay_options result" where
  "replay_arguments [] opts = Inr opts"
| "replay_arguments [option] opts = Inl (Invalid_argument ''missing replay option value'')"
| "replay_arguments (option # v # rest) opts =
     (if option = ''--run-dir'' then replay_arguments rest (opts\<lparr>ro_run_directory := v\<rparr>)
      else if option = ''--timeout-seconds''
      then rbind (parse_u64 v ''timeout_seconds'') (\<lambda>n. replay_arguments rest (opts\<lparr>ro_timeout_seconds := n\<rparr>))
      else Inl (Invalid_argument (''unknown replay option: '' @ option)))"

definition parse_replay_options :: "string list \<Rightarrow> replay_options result" where
  "parse_replay_options arguments =
     rbind (replay_arguments arguments default_replay_options) (\<lambda>opts.
       if ro_run_directory opts = [] then Inl (Invalid_argument ''--run-dir is required'')
       else rbind (checked_watchdog_timeout (ro_timeout_seconds opts)) (\<lambda>_. Inr opts))"

text \<open>\<^verbatim>\<open>run_directory.parent_path() / (run_directory.filename().string() + ".observed.replay")\<close>.\<close>

definition observed_path :: "string \<Rightarrow> string" where
  "observed_path run_directory =
     (let name = rev (takeWhile (\<lambda>c. c \<noteq> CHR ''/'') (rev run_directory));
          parent = rev (dropWhile (\<lambda>c. c = CHR ''/'') (dropWhile (\<lambda>c. c \<noteq> CHR ''/'') (rev run_directory)));
          directory = (if parent = [] \<and> CHR ''/'' \<in> set run_directory then ''/'' else parent)
      in path_join directory (name @ ''.observed.replay''))"

text \<open>The answers of the system: about the target, the recorded descriptor, the path of the observed one, the
  child, and the descriptor the child left.\<close>

record replay_answers =
  ra_target :: "unit result"
  ra_recorded :: string
  ra_observed_exists :: "bool result"
  ra_child :: child_answers
  ra_observed :: string

definition replay_checks ::
  "build_env \<Rightarrow> replay_answers \<Rightarrow> string \<Rightarrow> replay_options \<Rightarrow> replay_descriptor result" where
  "replay_checks env answers descriptor_path opts =
     rbind (ra_target answers) (\<lambda>_.
     rbind (read_replay_descriptor descriptor_path (ra_recorded answers)) (\<lambda>expected.
     if rp_build_fingerprint expected \<noteq> build_hash (current_build_identity env)
     then Inl (Runtime_error ''replay descriptor was produced by an incompatible build'')
     else rbind (ra_observed_exists answers) (\<lambda>there.
       if there then Inl (Runtime_error (''observed replay path already exists: '' @ observed_path (ro_run_directory opts)))
       else Inr expected)))"

definition replay_verdict :: "replay_answers \<Rightarrow> replay_options \<Rightarrow> replay_descriptor \<Rightarrow> nat \<Rightarrow> unit result" where
  "replay_verdict answers opts expected child_exit =
     (if child_exit \<noteq> kFailureInjectionExitCode
      then Inl (Runtime_error (''replay child did not reach the selected failure point; exit='' @ decimal child_exit))
      else rbind (read_replay_descriptor (observed_path (ro_run_directory opts)) (ra_observed answers)) (\<lambda>observed.
        if \<not> same_replay observed expected
        then Inl (Runtime_error (''crash point was reached, but the complete replay identity did '' @ ''not reproduce''))
        else Inr ()))"

definition supervise_replay ::
  "replay_answers \<Rightarrow> replay_options \<Rightarrow> replay_descriptor \<Rightarrow> unit result option" where
  "supervise_replay answers opts expected =
     (let child = ra_child answers in
        if ch_pid child < 0 then Some (Inl (Runtime_error ''cannot fork replay child''))
        else (case wait_for_child (ch_pid child) (watchdog_duration (ro_timeout_seconds opts)) ''replay'' (ch_started child)
                     (ch_kill child) (ch_waits child) of
                None \<Rightarrow> None
              | Some (r, calls) \<Rightarrow> Some (rbind r (replay_verdict answers opts expected))))"

text \<open>The arguments with which \<^verbatim>\<open>main\<close> runs the child: the source descriptor, the directory, the observed descriptor.\<close>

fun replay_child_arguments :: "string list \<Rightarrow> (string \<times> string \<times> string) option" where
  "replay_child_arguments [mode, source, directory, observed] =
     (if mode = ''--child'' then Some (source, directory, observed) else None)"
| "replay_child_arguments arguments = None"

text \<open>\<^verbatim>\<open>main\<close>, after the child mode: the exit code, or \<^verbatim>\<open>None\<close> when the child never ends.\<close>

definition replay_main ::
  "build_env \<Rightarrow> file_system \<Rightarrow> string option \<Rightarrow> string \<Rightarrow> replay_answers \<Rightarrow> string list \<Rightarrow> nat option" where
  "replay_main env F search invocation answers arguments =
     (if arguments = [''--help''] then Some 0
      else if length arguments < 3 then Some 2
      else
        (case rbind (resolve_executable_path F search invocation) (\<lambda>_.
               rbind (parse_replay_options (tl arguments)) (\<lambda>opts.
               rbind (replay_checks env answers (hd arguments) opts) (\<lambda>expected. Inr (opts, expected)))) of
           Inl e \<Rightarrow> Some 1
         | Inr (opts, expected) \<Rightarrow>
             map_option (case_sum (\<lambda>e. 1) (\<lambda>_. 0)) (supervise_replay answers opts expected)))"

section \<open>What the comparison identifies\<close>

text \<open>A descriptor without the text of the specification, which its hash stands for, and without its path.\<close>

definition replay_identity :: "replay_descriptor \<Rightarrow> replay_descriptor" where
  "replay_identity d = d\<lparr>rp_spec := default_run_spec, rp_injection := (rp_injection d)\<lparr>fic_replay_descriptor_path := []\<rparr>\<rparr>"

lemma same_replay_iff: "same_replay left right \<longleftrightarrow> replay_identity left = replay_identity right"
  by (cases left; cases right; cases "rp_engine_config left"; cases "rp_engine_config right";
      cases "rp_injection left"; cases "rp_injection right")
     (auto simp: same_replay_def replay_identity_def)

text \<open>The replay tool reports success exactly when the program can be found, the options are usable, the
  recorded descriptor is one of this build and the target is free, the child is reported as ended with the code
  of an injected failure, and the descriptor it left is valid and equal to the recorded one in every field but
  the specification, for which the hash is compared, and the path it was read from.\<close>

theorem replay_success_exact:
  "replay_main env F search invocation answers (descriptor_path # a # b # rest) = Some 0 \<longleftrightarrow>
     (\<exists>p opts expected observed calls.
        resolve_executable_path F search invocation = Inr p \<and> parse_replay_options (a # b # rest) = Inr opts \<and>
        replay_checks env answers descriptor_path opts = Inr expected \<and>
        0 \<le> ch_pid (ra_child answers) \<and>
        wait_for_child (ch_pid (ra_child answers)) (watchdog_duration (ro_timeout_seconds opts)) ''replay''
            (ch_started (ra_child answers)) (ch_kill (ra_child answers)) (ch_waits (ra_child answers)) =
          Some (Inr kFailureInjectionExitCode, calls) \<and>
        read_replay_descriptor (observed_path (ro_run_directory opts)) (ra_observed answers) = Inr observed \<and>
        replay_identity observed = replay_identity expected)"
proof -
  have verdict: "replay_verdict answers opts expected code = Inr () \<longleftrightarrow> code = kFailureInjectionExitCode \<and>
      (\<exists>observed. read_replay_descriptor (observed_path (ro_run_directory opts)) (ra_observed answers) = Inr observed \<and>
        replay_identity observed = replay_identity expected)" for opts expected code
    by (auto simp: replay_verdict_def same_replay_iff rbind_eq_Inr split: if_splits)
  have supervised: "supervise_replay answers opts expected = Some (Inr ()) \<longleftrightarrow>
      0 \<le> ch_pid (ra_child answers) \<and>
      (\<exists>code calls. wait_for_child (ch_pid (ra_child answers)) (watchdog_duration (ro_timeout_seconds opts)) ''replay''
          (ch_started (ra_child answers)) (ch_kill (ra_child answers)) (ch_waits (ra_child answers)) = Some (Inr code, calls) \<and>
        replay_verdict answers opts expected code = Inr ())" for opts expected
    by (auto simp: supervise_replay_def Let_def rbind_eq_Inr split: option.splits)
  have exits: "map_option (case_sum (\<lambda>e. 1) (\<lambda>_. 0)) x = Some (0 :: nat) \<longleftrightarrow> x = Some (Inr ())" for x :: "unit result option"
    by (cases x) (auto split: sum.splits)
  let ?start = "rbind (resolve_executable_path F search invocation) (\<lambda>_.
      rbind (parse_replay_options (a # b # rest)) (\<lambda>opts.
      rbind (replay_checks env answers descriptor_path opts) (\<lambda>expected. Inr (opts, expected))))"
  have "replay_main env F search invocation answers (descriptor_path # a # b # rest) = Some 0 \<longleftrightarrow>
      (\<exists>opts expected. ?start = Inr (opts, expected) \<and> supervise_replay answers opts expected = Some (Inr ()))"
    unfolding exits [symmetric] by (cases ?start) (auto simp: replay_main_def split: prod.splits)
  then show ?thesis unfolding supervised verdict by (auto simp: rbind_eq_Inr)
qed

section \<open>The child is armed with the recorded run\<close>

definition untraced :: "replay_descriptor \<Rightarrow> replay_descriptor" where
  "untraced d = d\<lparr>rp_observed_trace_hash := replicate 32 0, rp_observed_trace_events := 0,
     rp_run_incarnation := kNoFailureContext, rp_block_id := kNoFailureContext, rp_checkpoint_sequence := kNoFailureContext\<rparr>"

text \<open>C40. A replay runs what was recorded.  For a descriptor that the strict reader accepts and that this build has
  written, the injector of the child's run starts from the recorded descriptor itself: the same specification,
  engine configuration, storage policy, seed, failure point and occurrence, with an empty trace.  Whether the replay
  reproduces is therefore decided by the trace alone.\<close>

theorem replay_rearms:
  assumes "read_replay_descriptor source content = Inr d"
    and "rp_build_fingerprint d = build_hash (current_build_identity env)"
    and "make_failure_injector env canonical exists (rp_spec d) (rp_engine_config d)
           (resolve_checkpoint_cadence (replay_store_config d run_directory observed) blocks) = Inr fj"
  shows "fj_enabled fj \<and> fj_selected_hits fj = 0 \<and>
    fj_descriptor fj = untraced (d\<lparr>rp_injection := (rp_injection d)\<lparr>fic_replay_descriptor_path := observed\<rparr>\<rparr>)"
proof -
  have r: "replayable d" by (rule read_replay_descriptor_Inr(1) [OF assms(1)])
  then have config: "resolve_checkpoint_cadence (replay_store_config d run_directory observed) blocks =
      replay_store_config d run_directory observed"
    by (simp add: resolve_checkpoint_cadence_def replay_store_config_def replayable_def)
  have h: "run_spec_hash (rp_spec d) = Inr (rp_run_spec_hash d)" "rp_version d = kReplayDescriptorVersion"
    using r by (simp_all add: replayable_def)
  show ?thesis
    using assms(2,3) h unfolding config
    by (cases d) (auto simp: make_failure_injector_def replay_store_config_def default_run_store_config_def idle_injector_def
        untraced_def default_replay_descriptor_def split: if_splits sum.splits bool.splits)
qed

definition sample_descriptor :: "build_env \<Rightarrow> sha256_digest \<Rightarrow> replay_descriptor" where
  "sample_descriptor env h = default_replay_descriptor\<lparr>rp_checkpoint_interval_blocks := 1, rp_max_storage_bytes := 4096,
     rp_max_storage_files := 16, rp_max_manifest_bytes := 1024, rp_injection := sample_injection, rp_run_spec_hash := h,
     rp_build_fingerprint := build_hash (current_build_identity env), rp_observed_trace_events := 9\<rparr>"

theorem replay_rearms_witness:
  "\<exists>content d fj. read_replay_descriptor ''replay.txt'' content = Inr d \<and> rp_observed_trace_events d = 9 \<and>
     make_failure_injector witness_env (\<lambda>p. [p]) (\<lambda>p. Inr False) (rp_spec d) (rp_engine_config d)
       (resolve_checkpoint_cadence (replay_store_config d ''run'' ''run.observed.replay'') 7) = Inr fj \<and>
     fj_descriptor fj = untraced (d\<lparr>rp_injection := (rp_injection d)\<lparr>fic_replay_descriptor_path := ''run.observed.replay''\<rparr>\<rparr>)"
proof -
  obtain h where h: "run_spec_hash default_run_spec = Inr h" "length h = 32"
    using encode_spec_Inr default_run_spec_valid length_sha256 by (fastforce simp: run_spec_hash_def)
  let ?d = "sample_descriptor witness_env h"
  have inj: "validate_failure_injection sample_injection = Inr ()" "fic_replay_descriptor_path sample_injection = ''replay.txt''"
    by (simp_all add: validate_failure_injection_Inr sample_injection_def default_failure_injection_def)
  have "length (build_hash (current_build_identity witness_env)) = 32"
    by (simp add: current_build_identity_def Let_def length_sha256)
  moreover have "spec_storable default_run_spec" by (simp add: spec_storable_def default_run_spec_def)
  moreover have "validate_engine_config default_engine_config default_run_spec = Inr ()"
    by (simp add: validate_engine_config_def default_engine_config_def kMaxWorkerThreads_def
        kDefaultMaxMaterializedBlocks_def default_run_spec_def word_less_nat_alt)
  ultimately have r: "replayable ?d"
    using h inj default_run_spec_valid
    by (simp add: replayable_def sample_descriptor_def default_replay_descriptor_def descriptor_digests_def
        default_engine_config_def word_less_nat_alt)
  have read: "read_replay_descriptor ''replay.txt'' (encode_descriptor ?d) = Inr ?d"
    using read_encode_descriptor [OF r] inj(2) by (simp add: sample_descriptor_def)
  have b: "rp_build_fingerprint ?d = build_hash (current_build_identity witness_env)" by (simp add: sample_descriptor_def)
  have "\<exists>fj. make_failure_injector witness_env (\<lambda>p. [p]) (\<lambda>p. Inr False) (rp_spec ?d) (rp_engine_config ?d)
       (resolve_checkpoint_cadence (replay_store_config ?d ''run'' ''run.observed.replay'') 7) = Inr fj"
    using h inj
    by (simp add: make_failure_injector_def resolve_checkpoint_cadence_def replay_store_config_def sample_descriptor_def
        default_replay_descriptor_def default_run_store_config_def default_engine_config_def validate_failure_injection_Inr)
  then obtain fj where "make_failure_injector witness_env (\<lambda>p. [p]) (\<lambda>p. Inr False) (rp_spec ?d) (rp_engine_config ?d)
       (resolve_checkpoint_cadence (replay_store_config ?d ''run'' ''run.observed.replay'') 7) = Inr fj" ..
  moreover have "rp_observed_trace_events ?d = 9" by (simp add: sample_descriptor_def)
  ultimately show ?thesis using replay_rearms [OF read b] read by blast
qed

end
