(* ===== verification/Spec2Isabelle.thy ===== *)
theory Spec2Isabelle
  imports Durable_Safety Gate_Statistics Aggregation_Strategies Rng_Export Simulation_Report Replay_Tool
begin

text \<open>
  Verification of the fault-tolerant Monte Carlo runtime.

  The program estimates option prices by simulation.  A specification (\<^verbatim>\<open>src/run_spec.cpp\<close>) is cut
  into blocks of scenarios; workers compute one aggregate per block, drawing every random number from
  a counter-based generator; a coordinating thread validates and commits the results; a fixed binary
  tree reduces them to the estimate.  A durable run keeps block results and manifests in a run
  directory so that a crashed run continues where the newest valid manifest left off.  Command-line
  tools start runs, replay injected failures and drive a matrix of seeded crashes.

  Theories, in the order in which the code calls each other from below:

  \<^item> \<open>Mc_Prelude\<close>: exceptions as values, the result monad, machine integers, list lemmas.
  \<^item> \<open>Binary64\<close>, \<open>Float_Integers\<close>: IEEE binary64 values and the operations the code uses, with rounding to
    nearest even, and conversions from and to integers.
  \<^item> \<open>Run_Spec\<close> (\<^verbatim>\<open>src/run_spec.cpp\<close>), \<open>Philox_Rng\<close> (\<^verbatim>\<open>src/rng/philox_rng.cpp\<close>), \<open>Sha256_Hash\<close>
    (\<^verbatim>\<open>src/hash.cpp\<close>), \<open>Aggregate_Stats\<close> (\<^verbatim>\<open>src/aggregation/aggregate.cpp\<close>), \<open>Model_Kernels\<close>
    (\<^verbatim>\<open>src/models/gbm.cpp\<close>, \<^verbatim>\<open>src/models/heston.cpp\<close>), \<open>Heston_Analytic\<close>
    (\<^verbatim>\<open>src/models/heston_analytic.cpp\<close>).
  \<^item> \<open>Engine_Blocks\<close>, \<open>Bounded_Queue\<close>, \<open>Parallel_Execution\<close>, \<open>Engine_Run\<close> (\<^verbatim>\<open>src/runtime/engine.cpp\<close>,
    \<^verbatim>\<open>include/mc/bounded_queue.hpp\<close>): the partition, one block's computation, the reduction, the
    threads as an interleaving step relation, and \<^verbatim>\<open>run_parallel\<close>.
  \<^item> \<open>Codec\<close> (\<^verbatim>\<open>src/codec.cpp\<close>), \<open>Coordinator\<close> (\<^verbatim>\<open>src/runtime/coordinator.cpp\<close>, \<^verbatim>\<open>src/identity.cpp\<close>),
    \<open>Crc32c\<close> and \<open>Persistence_Codec\<close> (\<^verbatim>\<open>src/persistence_codec.cpp\<close>), \<open>Number_Text\<close> and \<open>Decimal_Text\<close>
    (\<^verbatim>\<open>src/parse.cpp\<close> and the file names of \<^verbatim>\<open>src/run_store.cpp\<close>), \<open>Failure_Injection\<close>
    (\<^verbatim>\<open>src/failure_injection.cpp\<close>), \<open>Latency_Metrics\<close> (\<^verbatim>\<open>src/metrics.cpp\<close>).
  \<^item> \<open>Durable_Files\<close> and \<open>Run_Store\<close> (\<^verbatim>\<open>src/run_store.cpp\<close>): programs with effects on a run directory.
    The operating system is a list of answers, one per call, and every theorem is about every list.
  \<^item> \<open>Store_Recovery\<close>, \<open>Durable_Run\<close>, \<open>Durable_Completion\<close>, \<open>Durable_Liveness\<close>, \<open>Durable_Safety\<close>,
    \<open>Durable_Accounting\<close>: \<^verbatim>\<open>run_parallel_durable\<close>, composed of the store, the coordinator and the
    threads, and what holds of it over every history of a run directory.
  \<^item> \<open>Command_Line\<close>, \<open>Simulation_Cli\<close>, \<open>Json_Text\<close>, \<open>Simulation_Report\<close> (\<^verbatim>\<open>tools/run_simulation.cpp\<close>),
    \<open>Rng_Export\<close> (\<^verbatim>\<open>tools/export_rng_stream.cpp\<close>), \<open>Gate_Statistics\<close>
    (\<^verbatim>\<open>tools/checkpoint_gate_stats.cpp\<close>), \<open>Process_Watchdog\<close> (\<^verbatim>\<open>tools/process_watchdog.hpp\<close>),
    \<open>Crash_Matrix\<close> and \<open>Crash_Supervisor\<close> (\<^verbatim>\<open>tools/run_crash_matrix.cpp\<close>), \<open>Replay_Tool\<close>
    (\<^verbatim>\<open>tools/replay_failure.cpp\<close>), \<open>Aggregation_Strategies\<close> (the strategies of
    \<^verbatim>\<open>tools/benchmark_aggregation.cpp\<close>).

  What the theorems show:

  \<^item> A run is reproducible.  Every interleaving of the threads ends, no reachable state is stuck, every
    block is consumed once, and the estimate is that of the sequential computation, bit for bit; the
    reduction is one fixed tree.  The queue refuses what comes after close, validation gives every result
    the status its first mismatch or the ledger asks for, and the command-line tool reports exactly the run
    that its arguments denote.
  \<^item> A durable run is crash consistent.  A directory that started empty and has seen any sequence of
    attempts, injected failures, failing system calls and losses of power can only lead to the sequential
    estimate; a store that opens carries the identity of this run; files appear whole or not at all; manifests are never changed; damage of up to four
    consecutive bytes and every truncation is detected; on a healthy system a run completes within
    the storage its preflight has accepted; recovered and computed blocks add up.
  \<^item> The crash-matrix and replay tools are sound: every seed gives a valid case, the recovery phase cannot
    fail by a wrong estimate, success means that every case passed and every failure point was covered, and
    a replay is armed with the recorded run.
  \<^item> The numerical kernels stay in their ranges: payoffs are finite and nonnegative, means lie between
    extrema, the analytic price lies between its bounds and uses no more evaluations than its budget.
  \<^item> Encodings are exact: encoders and decoders are inverse, random streams of distinct coordinates differ,
    SHA-256 and CRC32C equal their definitions, decimal numbers are rounded to nearest.

  Interfaces are locales (codecs of fields and of records, the closable queue, sources of observations, merges
  that count, traced programs, extended precision arithmetic) interpreted on the definitions of the code.

  Parameters: the functions of the C mathematics library; arithmetic on \<^verbatim>\<open>long double\<close> and its complex numbers;
  the compiler's description of the build; the answers of the operating system and of its clock; in the tools,
  the answers of the file system outside the run directory and of the processes they start.  Loops are total
  functions with a termination proof, or partial ones proved to return; only waiting for a child that never ends
  is a missing value.  Answers come in finite lists, after which every call succeeds, so a system that
  interrupts a call forever is not represented.  A scan of a directory, creating and checking a directory, and
  writing a replay descriptor are one call each; an error of a scan gives an empty listing, as the iterator's does.

  Not modelled: the measuring loops of \<^verbatim>\<open>benchmark_aggregation\<close>, \<^verbatim>\<open>benchmark_scaling\<close>, \<^verbatim>\<open>benchmark_persistence\<close>
  and \<^verbatim>\<open>benchmark_checkpoint_gate\<close>, whose output is measured time; the tests; help texts and progress lines;
  the clock readings that fill the metrics; failure to create a thread; the notifications of the condition
  variables, since a wait is a guarded atomic action (a lost wakeup cannot be expressed); directories themselves,
  and so the entry of the run directory in its parent after a loss of power.
\<close>

end
